(* ===== verification/Prelude.thy ===== *)
theory Prelude
  imports Main "HOL-Library.Word"
begin

text \<open>
  Shared vocabulary of the development: machine bytes and halfwords, the reply of an
  operation that can fail with a GError, generic state machines with their reachable
  states, and the three interfaces several components implement (an absorbing failure
  state, an invariant kept by every operation, a byte digest in which one changed byte
  is always visible).
\<close>

unbundle bit_operations_syntax

type_synonym u8 = "8 word"
type_synonym u16 = "16 word"
type_synonym u32 = "32 word"
type_synonym u64 = "64 word"
type_synonym bytes = "8 word list"

named_theorems wire_simps "rewriting bytes, halfwords and lengths"
named_theorems keeps "an operation keeps a predicate"

section \<open>Little-endian halfwords\<close>

text \<open>C: \<^verbatim>\<open>(guint16) lo | ((guint16) hi << 8)\<close>.\<close>

definition le16 :: "u8 \<Rightarrow> u8 \<Rightarrow> u16" where
  "le16 lo hi = ucast lo OR push_bit 8 (ucast hi)"

text \<open>C: \<^verbatim>\<open>(guint8) w\<close> and \<^verbatim>\<open>(guint8) (w >> 8)\<close>.\<close>

definition lo8 :: "u16 \<Rightarrow> u8" where
  "lo8 w = ucast w"

definition hi8 :: "u16 \<Rightarrow> u8" where
  "hi8 w = ucast (drop_bit 8 w)"

lemma lo8_le16 [simp]: "lo8 (le16 a b) = a"
  unfolding lo8_def le16_def
  by (rule bit_word_eqI) (auto simp: bit_simps)

lemma hi8_le16 [simp]: "hi8 (le16 a b) = b"
  unfolding hi8_def le16_def
  by (rule bit_word_eqI) (auto simp: bit_simps dest: bit_imp_le_length)

lemma le16_lo8_hi8 [simp]: "le16 (lo8 w) (hi8 w) = w"
  unfolding hi8_def lo8_def le16_def
  by (rule bit_word_eqI) (auto simp: bit_simps)

lemma le16_inject [simp]: "le16 a b = le16 c d \<longleftrightarrow> a = c \<and> b = d"
  by (metis hi8_le16 lo8_le16)

lemma le16_eq_iff: "le16 a b = w \<longleftrightarrow> a = lo8 w \<and> b = hi8 w"
  by (metis hi8_le16 lo8_le16 le16_lo8_hi8)

lemma unat_u8_less [simp]: "unat (x :: u8) < 256"
  using unsigned_less [where w = x and 'a = nat] by simp

lemma unat_u16_less [simp]: "unat (x :: u16) < 65536"
  using unsigned_less [where w = x and 'a = nat] by simp

lemma unat_le16: "unat (le16 a b) = unat a + 256 * unat b"
proof -
  have disj: "ucast a AND push_bit 8 (ucast b :: u16) = 0"
    by (rule bit_word_eqI) (auto simp: bit_simps dest: bit_imp_le_length)
  then have "le16 a b = ucast a + push_bit 8 (ucast b)"
    unfolding le16_def by (simp add: disjunctive_add_eq_or)
  moreover have "push_bit 8 (ucast b :: u16) = 256 * ucast b"
    by (simp add: push_bit_eq_mult mult.commute)
  moreover have "ucast x = (of_nat (unat x) :: u16)" for x :: u8
    by (simp only: of_nat_unat)
  ultimately have "le16 a b = of_nat (unat a + 256 * unat b)"
    by (simp only: of_nat_add of_nat_mult of_nat_numeral)
  moreover have "unat a + 256 * unat b < 65536"
    using unat_u8_less [of a] unat_u8_less [of b] by linarith
  ultimately show ?thesis
    by (simp only: unat_of_nat) (simp add: mod_less)
qed

lemma le16_of_nat [wire_simps]:
  "n < 65536 \<Longrightarrow> unat (le16 (lo8 (of_nat n)) (hi8 (of_nat n))) = n"
  by (simp add: unat_of_nat)

text \<open>Truncation to a byte commutes with the 32-bit sum and difference.\<close>

lemma take_bit_byte_arith:
  fixes a b :: int
  shows "take_bit 8 (take_bit 32 a + take_bit 32 b) = take_bit 8 (a + b)"
    and "take_bit 8 (take_bit 32 a - take_bit 32 b) = take_bit 8 (a - b)"
proof -
  have "take_bit 8 (take_bit 8 (take_bit 32 a) + take_bit 8 (take_bit 32 b)) = take_bit 8 (a + b)"
    "take_bit 8 (take_bit 8 (take_bit 32 a) - take_bit 8 (take_bit 32 b)) = take_bit 8 (a - b)"
    by (simp_all add: take_bit_add take_bit_diff)
  then show "take_bit 8 (take_bit 32 a + take_bit 32 b) = take_bit 8 (a + b)"
    "take_bit 8 (take_bit 32 a - take_bit 32 b) = take_bit 8 (a - b)"
    by (simp_all only: take_bit_add take_bit_diff)
qed

lemma ucast_byte_plus [wire_simps]: "(ucast (a + b :: u32) :: u8) = ucast a + ucast b"
  by transfer (simp add: take_bit_byte_arith)

lemma ucast_byte_minus [wire_simps]: "(ucast (a - b :: u32) :: u8) = ucast a - ucast b"
  by transfer (simp add: take_bit_byte_arith)

lemma ucast_byte_byte [wire_simps]: "(ucast (ucast b :: u32) :: u8) = b"
  by (rule bit_word_eqI) (simp add: bit_simps)

section \<open>Writing a list by index\<close>

text \<open>A loop that stores \<open>v w\<close> at index \<open>f w\<close> for each \<open>w\<close> in turn.\<close>

definition store_all :: "('w \<Rightarrow> nat) \<Rightarrow> ('w \<Rightarrow> 'a) \<Rightarrow> 'a list \<Rightarrow> 'w list \<Rightarrow> 'a list" where
  "store_all f v d ws = foldl (\<lambda>d w. d[f w := v w]) d ws"

lemma store_all_simps [simp]:
  "store_all f v d [] = d"
  "store_all f v d (w # ws) = store_all f v (d[f w := v w]) ws"
  by (simp_all add: store_all_def)

lemma store_all_append [simp]:
  "store_all f v d (xs @ ys) = store_all f v (store_all f v d xs) ys"
  by (simp add: store_all_def)

lemma length_store_all [simp]: "length (store_all f v d ws) = length d"
  by (induction ws arbitrary: d) simp_all

lemma store_all_other: "i \<notin> f ` set ws \<Longrightarrow> store_all f v d ws ! i = d ! i"
  by (induction ws arbitrary: d) simp_all

lemma store_all_nth:
  assumes "distinct ws" "inj_on f (set ws)" "w \<in> set ws" "f w < length d"
  shows "store_all f v d ws ! f w = v w"
  using assms
proof (induction ws arbitrary: d)
  case (Cons x xs)
  show ?case
  proof (cases "w = x")
    case True
    with Cons.prems have "f x \<notin> f ` set xs"
      by (auto simp: inj_on_def)
    with True Cons.prems show ?thesis
      by (simp add: store_all_other)
  next
    case False
    with Cons show ?thesis by simp
  qed
qed simp

section \<open>Replies\<close>

text \<open>
  A C operation of this code base returns \<^verbatim>\<open>gboolean\<close> and sets a \<^verbatim>\<open>GError\<close> when it
  returns \<^verbatim>\<open>FALSE\<close>. The reply of the modelled operation is \<open>Accept\<close> for \<^verbatim>\<open>TRUE\<close> and
  \<open>Reject e\<close> for \<^verbatim>\<open>FALSE\<close> with the error \<open>e\<close>.
\<close>

datatype 'e reply = Accept | Reject 'e

primrec accepted :: "'e reply \<Rightarrow> bool" where
  "accepted Accept = True"
| "accepted (Reject e) = False"

lemma accepted_iff: "accepted r \<longleftrightarrow> r = Accept"
  by (cases r) simp_all

lemma not_accepted_iff: "\<not> accepted r \<longleftrightarrow> (\<exists>e. r = Reject e)"
  by (cases r) simp_all

section \<open>State machines: runs and reachable states\<close>

text \<open>
  An operation of a component takes its arguments (packed in a call \<open>'op\<close>) and the
  state, and returns a reply and the new state. \<open>run_ops\<close> performs calls in order.
\<close>

type_synonym ('op, 'e, 's) machine = "'op \<Rightarrow> 's \<Rightarrow> 'e reply \<times> 's"

fun run_ops :: "('op, 'e, 's) machine \<Rightarrow> 'op list \<Rightarrow> 's \<Rightarrow> 'e reply list \<times> 's" where
  "run_ops f [] s = ([], s)"
| "run_ops f (x # xs) s =
     (let (r, s') = f x s; (rs, s'') = run_ops f xs s' in (r # rs, s''))"

inductive reach :: "('op, 'e, 's) machine \<Rightarrow> 's \<Rightarrow> 's \<Rightarrow> bool" for f s0 where
  reach_start: "reach f s0 s0"
| reach_step: "reach f s0 s \<Longrightarrow> reach f s0 (snd (f x s))"

lemma fst_run_ops_Cons [simp]:
  "fst (run_ops f (x # xs) s) = fst (f x s) # fst (run_ops f xs (snd (f x s)))"
  by (simp add: Let_def case_prod_beta)

lemma snd_run_ops_Cons [simp]:
  "snd (run_ops f (x # xs) s) = snd (run_ops f xs (snd (f x s)))"
  by (simp add: Let_def case_prod_beta)

declare run_ops.simps(2) [simp del]

lemma run_ops_append:
  "run_ops f (xs @ ys) s =
     (let (rs, s') = run_ops f xs s; (rs', s'') = run_ops f ys s' in (rs @ rs', s''))"
  by (induction xs arbitrary: s) (simp_all add: run_ops.simps(2) Let_def case_prod_beta)

lemma snd_run_ops_append [simp]:
  "snd (run_ops f (xs @ ys) s) = snd (run_ops f ys (snd (run_ops f xs s)))"
  by (simp add: run_ops_append Let_def case_prod_beta)

lemma length_run_ops [simp]: "length (fst (run_ops f xs s)) = length xs"
  by (induction xs arbitrary: s) simp_all

lemma reach_run_ops: "reach f s0 s \<Longrightarrow> reach f s0 (snd (run_ops f xs s))"
proof (induction xs arbitrary: s)
  case (Cons x xs)
  then show ?case
    using reach_step [OF Cons.prems, of x] by simp
qed simp

text \<open>Interface: a predicate that the start state has and every operation keeps.\<close>

locale machine_invariant =
  fixes f :: "('op, 'e, 's) machine"
    and s0 :: 's
    and inv :: "'s \<Rightarrow> bool"
  assumes inv_start: "inv s0"
    and inv_step: "inv s \<Longrightarrow> inv (snd (f x s))"
begin

lemma inv_reach: "reach f s0 s \<Longrightarrow> inv s"
  by (induction rule: reach.induct) (auto intro: inv_start inv_step)

lemma inv_run: "inv (snd (run_ops f xs s0))"
  by (rule inv_reach [OF reach_run_ops [OF reach_start]])

end

text \<open>
  Interface: a failure state that no operation leaves, and in which every operation is
  refused. Every layer of the driver has one (a \<^verbatim>\<open>failed\<close> flag or a terminal phase).
\<close>

locale absorbing_machine =
  fixes f :: "('op, 'e, 's) machine"
    and dead :: "'s \<Rightarrow> bool"
  assumes dead_refuses: "dead s \<Longrightarrow> \<not> accepted (fst (f x s))"
    and dead_stays: "dead s \<Longrightarrow> dead (snd (f x s))"
begin

lemma dead_run:
  "dead s \<Longrightarrow> list_all (\<lambda>r. \<not> accepted r) (fst (run_ops f xs s)) \<and> dead (snd (run_ops f xs s))"
proof (induction xs arbitrary: s)
  case (Cons x xs)
  then show ?case
    using dead_refuses [of s x] dead_stays [of s x] by simp
qed simp

lemma no_resurrection:
  assumes "i < length xs" and "accepted (fst (run_ops f xs s) ! i)"
  shows "\<not> dead (snd (run_ops f (take i xs) s))"
  using assms
proof (induction xs arbitrary: s i)
  case (Cons x xs)
  then show ?case
    using dead_refuses [of s x] Cons.IH [of "i - 1" "snd (f x s)"]
    by (cases i) auto
qed simp

end

section \<open>Byte digests\<close>

text \<open>
  Interface: a checksum computed by folding a step over the bytes, whose step is
  injective in the running value and in the byte. Two messages that differ in exactly
  one byte then always have different digests.
\<close>

locale byte_digest =
  fixes step :: "'d \<Rightarrow> u8 \<Rightarrow> 'd"
  assumes step_inject_acc: "step d b = step d' b \<Longrightarrow> d = d'"
    and step_inject_byte: "step d b = step d b' \<Longrightarrow> b = b'"
begin

lemma fold_inject: "foldl step d bs = foldl step d' bs \<Longrightarrow> d = d'"
  by (induction bs arbitrary: d d') (auto dest: step_inject_acc)

lemma one_byte_visible:
  assumes "foldl step d (xs @ b # ys) = foldl step d (xs @ b' # ys)"
  shows "b = b'"
proof -
  have "foldl step (step (foldl step d xs) b) ys = foldl step (step (foldl step d xs) b') ys"
    using assms by simp
  then have "step (foldl step d xs) b = step (foldl step d xs) b'"
    by (rule fold_inject)
  then show ?thesis
    by (rule step_inject_byte)
qed

lemma update_visible:
  assumes "i < length xs" and "foldl step d (xs[i := b]) = foldl step d xs"
  shows "xs[i := b] = xs"
proof -
  have split: "xs = take i xs @ xs ! i # drop (Suc i) xs"
    using assms(1) by (simp add: id_take_nth_drop)
  have "xs[i := b] = take i xs @ b # drop (Suc i) xs"
    using assms(1) by (simp add: upd_conv_take_nth_drop)
  with split have "b = xs ! i"
    using assms(2) one_byte_visible [of d "take i xs" b "drop (Suc i) xs" "xs ! i"] by simp
  then show ?thesis
    by simp
qed

end

end
