(* ===== verification/Errors.thy ===== *)
theory Errors
  imports Prelude
begin

text \<open>
  The \<^verbatim>\<open>GError\<close> values of the modelled components: one datatype per error enumeration of
  the sources, with the same constructors, and one union for the error a caller sees.
  A nested call's error travels unchanged through the layers above it, because each of
  them sets its own error only when none is set yet. \<open>Callback_Error\<close> stands for
  an error produced by code outside the modelled files (image consumer, timestamp source,
  frame sink, USB completion), identified by a code.
\<close>

datatype a0_error =
    A0_ERROR_ARGUMENT | A0_ERROR_LENGTH | A0_ERROR_TAG | A0_ERROR_CHECKSUM

datatype image_error =
    IMAGE_ERROR_SHAPE | IMAGE_ERROR_CLASS | IMAGE_ERROR_CHECKSUM | IMAGE_ERROR_CRC

datatype model_error =
    MODEL_ERROR_ARGUMENT | MODEL_ERROR_STATE | MODEL_ERROR_PROTOCOL | MODEL_ERROR_STAGE

datatype pipeline_error =
    PIPELINE_ERROR_ARGUMENT | PIPELINE_ERROR_STATE | PIPELINE_ERROR_IMAGE

datatype plan_error =
    PLAN_ERROR_ARGUMENT | PLAN_ERROR_STATE | PLAN_ERROR_PROTOCOL

datatype body_error =
    BODY_ERROR_ARGUMENT | BODY_ERROR_INTENT | BODY_ERROR_MATERIAL

datatype fdt_error =
    FDT_ERROR_ARGUMENT | FDT_ERROR_ORDER | FDT_ERROR_RANGE | FDT_ERROR_MATERIAL

datatype adapter_error =
    ADAPTER_ERROR_ARGUMENT | ADAPTER_ERROR_STATE | ADAPTER_ERROR_PAYLOAD
  | ADAPTER_ERROR_TIMESTAMP | ADAPTER_ERROR_PROTOCOL

datatype outbound_error =
    OUTBOUND_ERROR_ARGUMENT | OUTBOUND_ERROR_CONTRACT | OUTBOUND_ERROR_LENGTH

datatype events_error =
    EVENTS_ERROR_ARGUMENT | EVENTS_ERROR_STATE | EVENTS_ERROR_FRAME
  | EVENTS_ERROR_EVENT | EVENTS_ERROR_UNUSABLE_CONTACT

datatype transaction_error =
    TRANSACTION_ERROR_ARGUMENT | TRANSACTION_ERROR_STATE
  | TRANSACTION_ERROR_TRANSPORT | TRANSACTION_ERROR_GENERATION

datatype router_error =
    ROUTER_ERROR_MALFORMED | ROUTER_ERROR_TRUNCATED | ROUTER_ERROR_STATE | ROUTER_ERROR_TRANSPORT

datatype binding_error =
    USB_BINDING_ERROR_ARGUMENT | USB_BINDING_ERROR_STATE

datatype gerror =
    A0_Error a0_error
  | Image_Error image_error
  | Model_Error model_error
  | Pipeline_Error pipeline_error
  | Plan_Error plan_error
  | Body_Error body_error
  | Fdt_Error fdt_error
  | Adapter_Error adapter_error
  | Outbound_Error outbound_error
  | Events_Error events_error
  | Transaction_Error transaction_error
  | Router_Error router_error
  | Backend_Error nat
  | Binding_Error binding_error
  | Callback_Error int

text \<open>
  C: \<^verbatim>\<open>if (error == NULL || *error == NULL) g_set_error_literal (error, ...)\<close>: the first
  error is kept, a later one is dropped.
\<close>

definition keep_first :: "gerror option \<Rightarrow> gerror \<Rightarrow> gerror" where
  "keep_first prior e = (case prior of None \<Rightarrow> e | Some e0 \<Rightarrow> e0)"

lemma keep_first_simps [simp]:
  "keep_first None e = e"
  "keep_first (Some e0) e = e0"
  by (simp_all add: keep_first_def)

text \<open>
  What a callback of type \<^verbatim>\<open>gboolean (*) (..., GError **error)\<close> gives back: \<^verbatim>\<open>TRUE\<close>, or
  \<^verbatim>\<open>FALSE\<close> with or without an error set.
\<close>

datatype callback_reply = Callback_True | Callback_False "gerror option"

end
