(* ===== verification/Fpimage.thy ===== *)
theory Fpimage
  imports Prelude
begin

text \<open>
  From the canonical 12-bit raster to an 8-bit \<^verbatim>\<open>FpImage\<close>
  (\<^verbatim>\<open>goodix_u16_to_fpimage.c\<close>, \<^verbatim>\<open>goodix_fpimage_pipeline.c\<close>). Caller buffers are
  values returned updated; an absent pointer is \<open>None\<close>. Whether the three allocations of
  \<^verbatim>\<open>goodix_fpimage_pipeline_new\<close> succeed is an argument of the model. \<^verbatim>\<open>fp_image_new\<close> of
  libfprint gives a zeroed buffer of width times height bytes.
\<close>

section \<open>The byte mapping\<close>

datatype u16_to_fpimage_result =
    U16_TO_FPIMAGE_OK | U16_TO_FPIMAGE_INVALID_ARGUMENT | U16_TO_FPIMAGE_INVALID_SAMPLE_COUNT
  | U16_TO_FPIMAGE_OUTPUT_TOO_SMALL | U16_TO_FPIMAGE_SAMPLE_OUT_OF_RANGE

record image_metadata =
  md_width :: nat
  md_height :: nat
  md_stride :: nat
  md_data_length :: nat
  md_flags :: u32
  md_canonical_orientation_preserved :: int
  md_natural_orientation_resolved :: int

abbreviation IMAGE_WIDTH :: nat where "IMAGE_WIDTH \<equiv> 80"
abbreviation IMAGE_HEIGHT :: nat where "IMAGE_HEIGHT \<equiv> 64"
abbreviation IMAGE_SAMPLES :: nat where "IMAGE_SAMPLES \<equiv> 5120"
abbreviation SAMPLE_MAX :: u16 where "SAMPLE_MAX \<equiv> 4095"

definition map_sample_to_u8 :: "u16 \<Rightarrow> u8" where
  "map_sample_to_u8 sample = ucast (((ucast sample * 255 + 4095 div 2) :: u32) div 4095)"

definition canonical_metadata :: image_metadata where
  "canonical_metadata = \<lparr>md_width = IMAGE_WIDTH, md_height = IMAGE_HEIGHT, md_stride = IMAGE_WIDTH,
     md_data_length = IMAGE_SAMPLES, md_flags = 0, md_canonical_orientation_preserved = 1,
     md_natural_orientation_resolved = 0\<rparr>"

definition u16_to_fpimage ::
    "u16 list option \<Rightarrow> bytes option \<Rightarrow> image_metadata option
       \<Rightarrow> u16_to_fpimage_result \<times> bytes option \<times> image_metadata option" where
  "u16_to_fpimage samples output metadata =
     (case (samples, output, metadata) of
        (Some ss, Some out, Some md) \<Rightarrow>
          if length ss \<noteq> IMAGE_SAMPLES
          then (U16_TO_FPIMAGE_INVALID_SAMPLE_COUNT, output, metadata)
          else if length out < IMAGE_SAMPLES
          then (U16_TO_FPIMAGE_OUTPUT_TOO_SMALL, output, metadata)
          else if list_ex (\<lambda>s. s > SAMPLE_MAX) ss
          then (U16_TO_FPIMAGE_SAMPLE_OUT_OF_RANGE, output, metadata)
          else (U16_TO_FPIMAGE_OK,
                Some (map map_sample_to_u8 ss @ drop (length ss) out),
                Some canonical_metadata)
      | _ \<Rightarrow> (U16_TO_FPIMAGE_INVALID_ARGUMENT, output, metadata))"

section \<open>The image owner\<close>

datatype fpimage_pipeline_result =
    FPIMAGE_PIPELINE_OK | FPIMAGE_PIPELINE_INVALID_ARGUMENT | FPIMAGE_PIPELINE_INVALID_SAMPLE_COUNT
  | FPIMAGE_PIPELINE_SAMPLE_OUT_OF_RANGE | FPIMAGE_PIPELINE_ALLOCATION_FAILED
  | FPIMAGE_PIPELINE_CONTRACT_VIOLATION | FPIMAGE_PIPELINE_PHYSICAL_PPMM_REQUIRED

datatype physical_ppmm_state = PHYSICAL_PPMM_UNKNOWN

datatype ppmm_consumer = PPMM_CONSUMER_NBIS | PPMM_CONSUMER_SIGFM

record fp_image =
  img_width :: nat
  img_height :: nat
  img_data :: bytes
  img_flags :: u32

record fpimage_pipeline =
  fp_image :: fp_image
  fp_source_samples :: "u16 list"
  fp_ppmm_state :: physical_ppmm_state

record allocator =
  try_new0_ok :: bool
  fp_image_new_ok :: bool
  try_malloc_ok :: bool

fun map_adapter_result :: "u16_to_fpimage_result \<Rightarrow> fpimage_pipeline_result" where
  "map_adapter_result U16_TO_FPIMAGE_OK = FPIMAGE_PIPELINE_OK"
| "map_adapter_result U16_TO_FPIMAGE_INVALID_ARGUMENT = FPIMAGE_PIPELINE_INVALID_ARGUMENT"
| "map_adapter_result U16_TO_FPIMAGE_INVALID_SAMPLE_COUNT = FPIMAGE_PIPELINE_INVALID_SAMPLE_COUNT"
| "map_adapter_result U16_TO_FPIMAGE_SAMPLE_OUT_OF_RANGE = FPIMAGE_PIPELINE_SAMPLE_OUT_OF_RANGE"
| "map_adapter_result U16_TO_FPIMAGE_OUTPUT_TOO_SMALL = FPIMAGE_PIPELINE_CONTRACT_VIOLATION"

definition fp_image_new :: "nat \<Rightarrow> nat \<Rightarrow> fp_image" where
  "fp_image_new width height =
     \<lparr>img_width = width, img_height = height, img_data = replicate (width * height) 0,
      img_flags = 0\<rparr>"

definition metadata_zero :: image_metadata where
  "metadata_zero = \<lparr>md_width = 0, md_height = 0, md_stride = 0, md_data_length = 0, md_flags = 0,
     md_canonical_orientation_preserved = 0, md_natural_orientation_resolved = 0\<rparr>"

text \<open>The last argument and component are \<^verbatim>\<open>*pipeline_out\<close> before and after.\<close>

definition fpimage_pipeline_new ::
    "allocator \<Rightarrow> u16 list option \<Rightarrow> fpimage_pipeline option
       \<Rightarrow> fpimage_pipeline_result \<times> fpimage_pipeline option" where
  "fpimage_pipeline_new env samples pipeline_out =
     (case samples of
        None \<Rightarrow> (FPIMAGE_PIPELINE_INVALID_ARGUMENT, pipeline_out)
      | Some ss \<Rightarrow>
          if pipeline_out \<noteq> None then (FPIMAGE_PIPELINE_INVALID_ARGUMENT, pipeline_out)
          else if length ss \<noteq> IMAGE_SAMPLES
          then (FPIMAGE_PIPELINE_INVALID_SAMPLE_COUNT, pipeline_out)
          else if \<not> try_new0_ok env then (FPIMAGE_PIPELINE_ALLOCATION_FAILED, pipeline_out)
          else if \<not> fp_image_new_ok env then (FPIMAGE_PIPELINE_ALLOCATION_FAILED, pipeline_out)
          else if \<not> try_malloc_ok env then (FPIMAGE_PIPELINE_ALLOCATION_FAILED, pipeline_out)
          else
            let image = fp_image_new IMAGE_WIDTH IMAGE_HEIGHT;
                (result, output, metadata) =
                  u16_to_fpimage samples (Some (img_data image)) (Some metadata_zero)
            in if result \<noteq> U16_TO_FPIMAGE_OK then (map_adapter_result result, pipeline_out)
               else if metadata \<noteq> Some canonical_metadata
               then (FPIMAGE_PIPELINE_CONTRACT_VIOLATION, pipeline_out)
               else (FPIMAGE_PIPELINE_OK,
                     Some \<lparr>fp_image = image\<lparr>img_data := the output, img_flags := 0\<rparr>,
                           fp_source_samples = ss, fp_ppmm_state = PHYSICAL_PPMM_UNKNOWN\<rparr>))"

definition fpimage_pipeline_get_image :: "fpimage_pipeline option \<Rightarrow> fp_image option" where
  "fpimage_pipeline_get_image pipeline = map_option fp_image pipeline"

definition fpimage_pipeline_get_source_samples :: "fpimage_pipeline option \<Rightarrow> u16 list option" where
  "fpimage_pipeline_get_source_samples pipeline = map_option fp_source_samples pipeline"

definition fpimage_pipeline_check_ppmm_requirement ::
    "fpimage_pipeline option \<Rightarrow> ppmm_consumer \<Rightarrow> fpimage_pipeline_result" where
  "fpimage_pipeline_check_ppmm_requirement pipeline consumer =
     (case pipeline of
        None \<Rightarrow> FPIMAGE_PIPELINE_INVALID_ARGUMENT
      | Some p \<Rightarrow> (case consumer of PPMM_CONSUMER_NBIS \<Rightarrow> FPIMAGE_PIPELINE_OK
                            | PPMM_CONSUMER_SIGFM \<Rightarrow> FPIMAGE_PIPELINE_OK))"

section \<open>The mapping rounds to nearest\<close>

lemma unat_map_sample:
  assumes "s \<le> SAMPLE_MAX"
  shows "unat (map_sample_to_u8 s) = (unat s * 255 + 2047) div 4095"
proof -
  have s: "unat s \<le> 4095"
    using assms by (simp add: word_le_nat_alt)
  have u: "unat (ucast s :: u32) = unat s"
    using s by (simp add: unsigned_ucast_eq take_bit_nat_eq_self_iff)
  have m: "unat (ucast s * 255 :: u32) = unat s * 255"
    using s by (subst unat_mult_lem [THEN iffD1]) (simp_all add: u)
  have a: "unat (ucast s * 255 + 2047 :: u32) = unat s * 255 + 2047"
    using s by (subst unat_add_lem [THEN iffD1]) (simp_all add: m)
  have "unat (((ucast s * 255 + 2047) :: u32) div 4095) = (unat s * 255 + 2047) div 4095"
    by (simp add: unat_div_distrib a)
  moreover have "(unat s * 255 + 2047) div 4095 < 256"
    using s by (simp add: div_less_iff_less_mult)
  ultimately show ?thesis
    by (simp add: map_sample_to_u8_def unsigned_ucast_eq take_bit_nat_eq_self)
qed

lemma map_sample_mono:
  "s \<le> t \<Longrightarrow> t \<le> SAMPLE_MAX \<Longrightarrow> map_sample_to_u8 s \<le> map_sample_to_u8 t"
  using unat_map_sample [of s] unat_map_sample [of t]
  by (simp add: word_le_nat_alt div_le_mono)

lemma map_sample_nearest:
  assumes "s \<le> SAMPLE_MAX"
  shows "\<bar>4095 * int (unat (map_sample_to_u8 s)) - 255 * int (unat s)\<bar> \<le> 2047"
  unfolding unat_map_sample [OF assms] by (simp add: zdiv_int)

section \<open>Results of the owner\<close>

lemma u16_to_fpimage_total:
  assumes "length ss = IMAGE_SAMPLES" "IMAGE_SAMPLES \<le> length out"
  shows "u16_to_fpimage (Some ss) (Some out) (Some md) =
    (if list_ex (\<lambda>s. s > SAMPLE_MAX) ss
     then (U16_TO_FPIMAGE_SAMPLE_OUT_OF_RANGE, Some out, Some md)
     else (U16_TO_FPIMAGE_OK, Some (map map_sample_to_u8 ss @ drop IMAGE_SAMPLES out),
           Some canonical_metadata))"
  using assms by (simp add: u16_to_fpimage_def)

lemma fpimage_pipeline_new_eq:
  assumes "length ss = IMAGE_SAMPLES"
  shows "fpimage_pipeline_new env (Some ss) None =
    (if \<not> (try_new0_ok env \<and> fp_image_new_ok env \<and> try_malloc_ok env)
     then (FPIMAGE_PIPELINE_ALLOCATION_FAILED, None)
     else if list_ex (\<lambda>s. s > SAMPLE_MAX) ss then (FPIMAGE_PIPELINE_SAMPLE_OUT_OF_RANGE, None)
     else (FPIMAGE_PIPELINE_OK,
           Some \<lparr>fp_image = \<lparr>img_width = IMAGE_WIDTH, img_height = IMAGE_HEIGHT,
                   img_data = map map_sample_to_u8 ss, img_flags = 0\<rparr>,
                 fp_source_samples = ss, fp_ppmm_state = PHYSICAL_PPMM_UNKNOWN\<rparr>))"
  using assms
  by (simp add: fpimage_pipeline_new_def fp_image_new_def u16_to_fpimage_def Let_def)

section \<open>Properties\<close>

text \<open>
  Claim C8. Conversion is all or nothing and rounds to nearest: it succeeds exactly for a
  full raster of 12-bit samples and a large enough buffer; then every byte is the nearest
  value of sample * 255 / 4095 and nothing beyond the raster is written; otherwise the
  caller's buffer and metadata are unchanged.
\<close>

theorem conversion_exact:
  "(fst (u16_to_fpimage (Some ss) (Some out) (Some md)) = U16_TO_FPIMAGE_OK \<longleftrightarrow>
      length ss = IMAGE_SAMPLES \<and> IMAGE_SAMPLES \<le> length out \<and> list_all (\<lambda>s. s \<le> SAMPLE_MAX) ss) \<and>
   (fst (u16_to_fpimage (Some ss) (Some out) (Some md)) \<noteq> U16_TO_FPIMAGE_OK \<longrightarrow>
      snd (u16_to_fpimage (Some ss) (Some out) (Some md)) = (Some out, Some md)) \<and>
   (fst (u16_to_fpimage (Some ss) (Some out) (Some md)) = U16_TO_FPIMAGE_OK \<longrightarrow>
      (\<exists>out'. snd (u16_to_fpimage (Some ss) (Some out) (Some md)) =
         (Some out', Some canonical_metadata) \<and> length out' = length out \<and>
         drop IMAGE_SAMPLES out' = drop IMAGE_SAMPLES out \<and>
         (\<forall>i<IMAGE_SAMPLES. \<bar>4095 * int (unat (out' ! i)) - 255 * int (unat (ss ! i))\<bar> \<le> 2047)))"
proof -
  have range: "list_ex (\<lambda>s. SAMPLE_MAX < s) ss \<longleftrightarrow> \<not> list_all (\<lambda>s. s \<le> SAMPLE_MAX) ss"
    by (auto simp: list_ex_iff list_all_iff not_le)
  show ?thesis
    by (auto simp: u16_to_fpimage_def range nth_append list_all_length
        intro!: map_sample_nearest [simplified])
qed

lemma conversion_exact_witness:
  "fst (u16_to_fpimage (Some (replicate 5120 4095)) (Some (replicate 5121 0)) (Some metadata_zero)) =
     U16_TO_FPIMAGE_OK \<and>
   (\<exists>out'. snd (u16_to_fpimage (Some (replicate 5120 4095)) (Some (replicate 5121 0))
      (Some metadata_zero)) = (Some out', Some canonical_metadata) \<and> length out' = 5121)"
proof -
  have "fst (u16_to_fpimage (Some (replicate 5120 4095)) (Some (replicate 5121 0)) (Some metadata_zero)) =
     U16_TO_FPIMAGE_OK"
    by (simp add: u16_to_fpimage_def list_ex_iff)
  with conversion_exact [of "replicate 5120 4095" "replicate 5121 0" metadata_zero]
  show ?thesis by auto
qed

end
