(* ===== verification/Image_Decoder.thy ===== *)
theory Image_Decoder
  imports Errors Fpimage
begin

text \<open>
  The decoder of the decrypted image record (\<^verbatim>\<open>goodix_image_decoder.c\<close>): shape, class,
  additive checksum, CRC-32/MPEG-2, and the unpacking of four 12-bit samples from every six
  bytes into a transposed raster. The local array \<^verbatim>\<open>decoded\<close> is not initialised by the C
  code: its first contents are an argument of the model, and a theorem shows that they
  never reach the caller.
\<close>

datatype checksum_policy = CHECKSUM_ADDITIVE_VERIFIED | CHECKSUM_NO_CHECK_0X88

record decode_audit =
  da_checksum_policy :: checksum_policy
  da_record_crc_match :: bool
  da_width :: u32
  da_height :: u32

abbreviation PLAINTEXT_LENGTH :: nat where "PLAINTEXT_LENGTH \<equiv> 7693"
abbreviation PACKED_LENGTH :: nat where "PACKED_LENGTH \<equiv> 7680"

section \<open>Checksums\<close>

definition crc_bit :: "u32 \<Rightarrow> u32" where
  "crc_bit crc = (if crc AND 0x80000000 \<noteq> 0 then push_bit 1 crc XOR 0x04c11db7 else push_bit 1 crc)"

definition crc_byte :: "u32 \<Rightarrow> u8 \<Rightarrow> u32" where
  "crc_byte crc b = (crc_bit ^^ 8) (crc XOR push_bit 24 (ucast b))"

definition crc32_mpeg2 :: "bytes \<Rightarrow> u32" where
  "crc32_mpeg2 data = foldl crc_byte 0xffffffff data"

definition decode_crc_trailer :: "bytes \<Rightarrow> u32" where
  "decode_crc_trailer trailer =
     push_bit 24 (ucast (trailer ! 2)) OR push_bit 16 (ucast (trailer ! 3)) OR
     push_bit 8 (ucast (trailer ! 0)) OR ucast (trailer ! 1)"

definition payload_checksum :: "u8 \<Rightarrow> bytes \<Rightarrow> u8" where
  "payload_checksum ctl data =
     (let sum0 = (ucast ctl :: u32) + of_nat (length data) + 1;
          sum = foldl (\<lambda>s b. s + ucast b) sum0 data
      in ucast (0xaa - sum))"

section \<open>Unpacking\<close>

definition group_values :: "bytes \<Rightarrow> nat \<Rightarrow> u16 list" where
  "group_values packed g =
     (let p = (\<lambda>k. ucast (packed ! (g * 6 + k)) :: u16) in
      [push_bit 8 (p 0 AND 0x0f) OR p 1,
       push_bit 4 (p 3) OR drop_bit 4 (p 0),
       push_bit 8 (p 5 AND 0x0f) OR p 2,
       push_bit 4 (p 4) OR drop_bit 4 (p 5)])"

definition raster_index :: "nat \<Rightarrow> nat" where
  "raster_index wire_index =
     (wire_index mod IMAGE_HEIGHT) * IMAGE_WIDTH + wire_index div IMAGE_HEIGHT"

definition decode_group :: "bytes \<Rightarrow> u16 list \<Rightarrow> nat \<Rightarrow> u16 list" where
  "decode_group packed decoded g =
     (let values = group_values packed g; wire_base = g * 4 in
      foldl (\<lambda>d item. d[raster_index (wire_base + item) := values ! item]) decoded [0..<4])"

definition decode_raster :: "bytes \<Rightarrow> u16 list \<Rightarrow> u16 list" where
  "decode_raster packed decoded = foldl (decode_group packed) decoded [0..<PACKED_LENGTH div 6]"

section \<open>The decoder\<close>

definition audit_cleared :: decode_audit where
  "audit_cleared = \<lparr>da_checksum_policy = CHECKSUM_ADDITIVE_VERIFIED, da_record_crc_match = False,
     da_width = 0, da_height = 0\<rparr>"

text \<open>
  Arguments: the contents of the uninitialised stack array, the plaintext, the caller's
  sample array, the caller's audit. The reply, the sample array and the audit as left behind.
\<close>

definition image_decode_plaintext ::
    "u16 list \<Rightarrow> bytes option \<Rightarrow> u16 list option \<Rightarrow> decode_audit option
       \<Rightarrow> gerror reply \<times> u16 list option \<times> decode_audit option" where
  "image_decode_plaintext stack plaintext samples audit =
     (case (plaintext, samples) of
        (Some bs, Some ss) \<Rightarrow>
          let audit0 = map_option (\<lambda>_. audit_cleared) audit in
          if length bs \<noteq> PLAINTEXT_LENGTH
          then (Reject (Image_Error IMAGE_ERROR_SHAPE), samples, audit0)
          else
            let declared_length = le16 (bs ! 1) (bs ! 2) in
            if declared_length \<noteq> 7690 \<or> unat declared_length + 3 \<noteq> length bs
            then (Reject (Image_Error IMAGE_ERROR_SHAPE), samples, audit0)
            else if drop_bit 4 (bs ! 0) \<noteq> 2
            then (Reject (Image_Error IMAGE_ERROR_CLASS), samples, audit0)
            else
              let data = drop 3 bs in
              if data ! 0 = 0xaa
              then (Reject (Image_Error IMAGE_ERROR_CLASS), samples, audit0)
              else
                let last = bs ! (length bs - 1);
                    policy = (if last = 0x88 then Some CHECKSUM_NO_CHECK_0X88
                              else if last = payload_checksum (bs ! 0) (take 7689 data)
                              then Some CHECKSUM_ADDITIVE_VERIFIED else None)
                in case policy of
                     None \<Rightarrow> (Reject (Image_Error IMAGE_ERROR_CHECKSUM), samples, audit0)
                   | Some pol \<Rightarrow>
                       let audit1 = map_option (da_checksum_policy_update (\<lambda>_. pol)) audit0;
                           packed = drop 5 data;
                           expected_crc = crc32_mpeg2 (take PACKED_LENGTH packed);
                           observed_crc = decode_crc_trailer (take 4 (drop PACKED_LENGTH packed))
                       in if observed_crc \<noteq> expected_crc
                          then (Reject (Image_Error IMAGE_ERROR_CRC), samples, audit1)
                          else (Accept,
                                Some (decode_raster (take PACKED_LENGTH packed) stack),
                                map_option (\<lambda>a. a\<lparr>da_record_crc_match := True, da_width := 80,
                                  da_height := 64\<rparr>) audit1)
      | _ \<Rightarrow> (Reject (Image_Error IMAGE_ERROR_SHAPE), samples, audit))"

section \<open>The CRC is a byte digest\<close>

lemma crc_bit_bits:
  "bit (crc_bit c) n \<longleftrightarrow> n < 32 \<and> ((0 < n \<and> bit c (n - 1)) \<noteq> (bit c 31 \<and> bit (0x04c11db7 :: u32) n))"
proof -
  have "(0x80000000 :: u32) = push_bit 31 1"
    by simp
  then have top: "bit (0x80000000 :: u32) k \<longleftrightarrow> k = 31" for k
    by (simp only: bit_push_bit_iff bit_1_iff) auto
  have "c AND 0x80000000 = 0 \<longleftrightarrow> \<not> bit c 31"
  proof -
    have "bit (c AND 0x80000000) k \<longleftrightarrow> k = 31 \<and> bit c 31" for k
      unfolding bit_and_iff top by auto
    moreover have "c AND 0x80000000 = 0 \<longleftrightarrow> (\<forall>k. \<not> bit (c AND 0x80000000) k)"
      by (metis bit_0_eq bot_bool_def bot_fun_def bit_eqI)
    ultimately show ?thesis by simp
  qed
  moreover have "bit (push_bit 1 c) n \<longleftrightarrow> n < 32 \<and> 0 < n \<and> bit c (n - 1)"
    by (simp only: bit_push_bit_iff possible_bit_word) auto
  moreover have "bit (0x04c11db7 :: u32) n \<Longrightarrow> n < 32"
    using bit_imp_le_length [of "0x04c11db7 :: u32" n] by simp
  ultimately show ?thesis
    unfolding crc_bit_def by (simp only: bit_xor_iff split: if_split) blast
qed

lemma crc_bit_inject:
  assumes "crc_bit c = crc_bit d"
  shows "c = d"
proof -
  have bits: "bit (crc_bit c) n = bit (crc_bit d) n" for n
    using assms by simp
  have "bit c 31 = bit d 31"
    using bits [of 0] unfolding crc_bit_bits by (simp add: bit_0)
  then have "bit c n = bit d n" if "n < 31" for n
    using bits [of "Suc n"] that unfolding crc_bit_bits by auto
  with \<open>bit c 31 = bit d 31\<close> have "bit c n = bit d n" if "n < 32" for n
    using that by (cases "n = 31") simp_all
  then show ?thesis
    by (intro bit_word_eqI) simp
qed

lemma crc_bits_inject: "(crc_bit ^^ n) c = (crc_bit ^^ n) d \<Longrightarrow> c = d"
  by (induction n) (auto dest: crc_bit_inject)

lemma push_24_inject: "push_bit 24 (ucast (b :: u8) :: u32) = push_bit 24 (ucast b') \<Longrightarrow> b = b'"
proof -
  assume eq: "push_bit 24 (ucast b :: u32) = push_bit 24 (ucast b')"
  have "bit b n = bit b' n" if "n < 8" for n
    using arg_cong [OF eq, of "\<lambda>w. bit w (24 + n)"] that by (simp add: bit_simps)
  then show "b = b'" by (intro bit_word_eqI) simp
qed

lemma xor_cancel_left: "(c :: u32) XOR a = c XOR b \<Longrightarrow> a = b"
  by (metis xor.assoc xor_self_eq xor.left_neutral)

lemma xor_cancel_right: "(a :: u32) XOR c = b XOR c \<Longrightarrow> a = b"
  by (metis xor.commute xor_cancel_left)

interpretation crc: byte_digest crc_byte
proof
  show "d = d'" if "crc_byte d b = crc_byte d' b" for d d' b
    using that unfolding crc_byte_def by (blast dest: crc_bits_inject xor_cancel_right)
  show "b = b'" if "crc_byte d b = crc_byte d b'" for d b b'
    using that unfolding crc_byte_def by (blast dest: crc_bits_inject xor_cancel_left push_24_inject)
qed


section \<open>Unpacking and packing\<close>

text \<open>The inverse of the unpacking, as a specification: four 12-bit samples in six bytes.\<close>

definition pack_group :: "u16 list \<Rightarrow> bytes" where
  "pack_group v =
     [ucast (drop_bit 8 (v ! 0)) OR push_bit 4 (ucast (v ! 1)),
      ucast (v ! 0),
      ucast (v ! 2),
      ucast (drop_bit 4 (v ! 1)),
      ucast (drop_bit 4 (v ! 3)),
      ucast (drop_bit 8 (v ! 2)) OR push_bit 4 (ucast (v ! 3))]"

definition wire_samples :: "u16 list \<Rightarrow> nat \<Rightarrow> u16 list" where
  "wire_samples img g = map (\<lambda>k. img ! raster_index (g * 4 + k)) [0..<4]"

definition pack_raster :: "u16 list \<Rightarrow> bytes" where
  "pack_raster img = concat (map (\<lambda>g. pack_group (wire_samples img g)) [0..<PACKED_LENGTH div 6])"

definition narrow :: "u16 \<Rightarrow> bool" where
  "narrow v \<longleftrightarrow> (\<forall>n. bit v n \<longrightarrow> n < 12)"

lemma narrow_le: "narrow v \<longleftrightarrow> v \<le> SAMPLE_MAX"
proof -
  have len: "bit v n \<Longrightarrow> n < 16" for n
    using bit_imp_le_length [of v n] by simp
  have "narrow v \<longleftrightarrow> take_bit 12 v = v"
    unfolding narrow_def by (subst bit_eq_iff, simp add: bit_take_bit_iff, use len in blast)
  also have "\<dots> \<longleftrightarrow> unat v < 2 ^ 12"
    by (metis take_bit_nat_eq_self_iff unsigned_take_bit_eq word_unat_eq_iff)
  finally show ?thesis
    by (auto simp: word_le_nat_alt)
qed

text \<open>The two ways a sample is put together from two bytes, and the shared byte between them.\<close>

definition join_hi :: "u8 \<Rightarrow> u8 \<Rightarrow> u16" where
  "join_hi a b = push_bit 8 (take_bit 4 (ucast a)) OR ucast b"

definition join_lo :: "u8 \<Rightarrow> u8 \<Rightarrow> u16" where
  "join_lo c a = push_bit 4 (ucast c) OR drop_bit 4 (ucast a)"

definition shared_byte :: "u16 \<Rightarrow> u16 \<Rightarrow> u8" where
  "shared_byte x y = ucast (drop_bit 8 x) OR push_bit 4 (ucast y)"

lemma and_nibble: "(x :: u16) AND 0x0f = take_bit 4 x"
  by (simp add: take_bit_eq_mask mask_eq_exp_minus_1)

lemma group_values_join:
  "group_values packed g =
     [join_hi (packed ! (g * 6)) (packed ! (g * 6 + 1)), join_lo (packed ! (g * 6 + 3)) (packed ! (g * 6)),
      join_hi (packed ! (g * 6 + 5)) (packed ! (g * 6 + 2)),
      join_lo (packed ! (g * 6 + 4)) (packed ! (g * 6 + 5))]"
  unfolding group_values_def Let_def and_nibble join_hi_def join_lo_def by simp

lemma pack_group_shared:
  "pack_group v = [shared_byte (v ! 0) (v ! 1), ucast (v ! 0), ucast (v ! 2),
     ucast (drop_bit 4 (v ! 1)), ucast (drop_bit 4 (v ! 3)), shared_byte (v ! 2) (v ! 3)]"
  by (simp add: pack_group_def shared_byte_def)

lemma bit_u8_less: "bit (b :: u8) n \<Longrightarrow> n < 8"
  using bit_imp_le_length [of b n] by simp

lemma bit_join_hi: "bit (join_hi a b) n \<longleftrightarrow> bit b n \<or> (8 \<le> n \<and> n < 12 \<and> bit a (n - 8))"
  by (auto simp: join_hi_def bit_simps dest: bit_u8_less)

lemma bit_join_lo: "bit (join_lo c a) n \<longleftrightarrow> (4 \<le> n \<and> bit c (n - 4)) \<or> bit a (n + 4)"
  by (auto simp: join_lo_def bit_simps add.commute dest: bit_u8_less)

lemma bit_shared_byte:
  "bit (shared_byte x y) n \<longleftrightarrow> n < 8 \<and> (bit x (n + 8) \<or> (4 \<le> n \<and> bit y (n - 4)))"
  by (auto simp: shared_byte_def bit_simps add.commute)

lemma narrow_join: "narrow (join_hi a b)" "narrow (join_lo c a)"
  by (auto simp: narrow_def bit_join_hi bit_join_lo dest: bit_u8_less)

lemma pack_join:
  "shared_byte (join_hi a b) (join_lo c a) = a"
  "(ucast (join_hi a b) :: u8) = b"
  "(ucast (drop_bit 4 (join_lo c a)) :: u8) = c"
  by (rule bit_word_eqI;
      auto simp: bit_shared_byte bit_join_hi bit_join_lo bit_simps add.commute dest: bit_u8_less)+

lemma join_pack:
  assumes "narrow x" "narrow y"
  shows "join_hi (shared_byte x y) (ucast x) = x"
    "join_lo (ucast (drop_bit 4 y)) (shared_byte x y) = y"
  using assms
  by (intro bit_word_eqI;
      force simp: bit_shared_byte bit_join_hi bit_join_lo bit_simps narrow_def)+

lemma group_narrow: "v \<in> set (group_values packed g) \<Longrightarrow> narrow v"
  by (auto simp: group_values_join narrow_join)

lemma upto_four: "[0..<4] = [0, 1, 2, 3 :: nat]"
  by code_simp

lemma upto_six: "[0..<6] = [0, 1, 2, 3, 4, 5 :: nat]"
  by code_simp

lemma pack_group_values:
  "pack_group (group_values packed g) = map (\<lambda>k. packed ! (g * 6 + k)) [0..<6]"
  by (simp add: pack_group_shared group_values_join pack_join upto_six)

lemma group_values_pack:
  assumes "length v = 4" "\<forall>x\<in>set v. narrow x"
    and "\<And>k. k < 6 \<Longrightarrow> packed ! (g * 6 + k) = pack_group v ! k"
  shows "group_values packed g = v"
proof -
  obtain w x y z where v: "v = [w, x, y, z]"
    using assms(1) by (auto simp: length_Suc_conv numeral_eq_Suc)
  show ?thesis
    using assms(2) assms(3) [of 0] assms(3) [of 1] assms(3) [of 2] assms(3) [of 3] assms(3) [of 4]
      assms(3) [of 5]
    by (simp add: group_values_join pack_group_shared v join_pack)
qed

section \<open>The raster\<close>

lemma raster_index_inj: "inj_on raster_index {0..<IMAGE_SAMPLES}"
proof (rule inj_onI)
  fix v w assume vw: "v \<in> {0..<IMAGE_SAMPLES}" "w \<in> {0..<IMAGE_SAMPLES}"
    and eq: "raster_index v = raster_index w"
  then have small: "v div 64 < 80" "w div 64 < 80" by auto
  have "raster_index v div 80 = v mod 64" "raster_index v mod 80 = v div 64"
    "raster_index w div 80 = w mod 64" "raster_index w mod 80 = w div 64"
    using small by (simp_all add: raster_index_def)
  with eq show "v = w"
    by (metis div_mult_mod_eq)
qed

lemma raster_index_less: "w < IMAGE_SAMPLES \<Longrightarrow> raster_index w < IMAGE_SAMPLES"
proof -
  assume "w < IMAGE_SAMPLES"
  then have "w div 64 < 80" "w mod 64 < 64" by auto
  then show ?thesis by (simp add: raster_index_def)
qed

lemma raster_index_surj: "i < IMAGE_SAMPLES \<Longrightarrow> \<exists>w<IMAGE_SAMPLES. raster_index w = i"
proof -
  assume i: "i < IMAGE_SAMPLES"
  then have "i div 80 < 64" "i mod 80 < 80" by auto
  then show ?thesis
    by (intro exI [of _ "i mod 80 * 64 + i div 80"]) (auto simp: raster_index_def)
qed

lemma decode_group_store:
  "decode_group packed d n = store_all raster_index
     (\<lambda>w. group_values packed (w div 4) ! (w mod 4)) d (map (\<lambda>k. k + n * 4) [0..<4])"
proof -
  have "store_all raster_index v d (map (\<lambda>k. k + n * 4) ks) =
      foldl (\<lambda>d k. d[raster_index (n * 4 + k) := v (n * 4 + k)]) d ks" for v and d :: "u16 list" and ks
    by (induction ks arbitrary: d) (simp_all add: add.commute)
  then show ?thesis
    unfolding decode_group_def Let_def by (simp only:) (rule foldl_cong; simp)
qed

lemma decode_raster_store:
  "decode_raster packed d =
     store_all raster_index (\<lambda>w. group_values packed (w div 4) ! (w mod 4)) d [0..<IMAGE_SAMPLES]"
proof -
  let ?F = "\<lambda>w. group_values packed (w div 4) ! (w mod 4)"
  have "foldl (decode_group packed) d [0..<n] = store_all raster_index ?F d [0..<n * 4]" for n
  proof (induction n)
    case (Suc n)
    have "[0..<Suc n * 4] = [0..<n * 4] @ map (\<lambda>k. k + n * 4) [0..<4]"
      using upt_add_eq_append [of 0 "n * 4" 4] unfolding map_add_upt by (simp add: add.commute)
    then have "store_all raster_index ?F d [0..<Suc n * 4] =
        store_all raster_index ?F (foldl (decode_group packed) d [0..<n]) (map (\<lambda>k. k + n * 4) [0..<4])"
      by (simp only: store_all_append Suc.IH)
    then show ?case
      by (simp only: decode_group_store [symmetric]) simp
  qed simp
  from this [of "PACKED_LENGTH div 6"] show ?thesis
    by (simp add: decode_raster_def)
qed

lemma length_decode_raster [simp]: "length (decode_raster packed d) = length d"
  by (simp add: decode_raster_store)

lemma decode_raster_nth:
  assumes "length d = IMAGE_SAMPLES" "w < IMAGE_SAMPLES"
  shows "decode_raster packed d ! raster_index w = group_values packed (w div 4) ! (w mod 4)"
  unfolding decode_raster_store
  by (rule store_all_nth) (use assms raster_index_less raster_index_inj in \<open>auto simp del: upt_Suc\<close>)

lemma concat_sixes:
  "6 * n \<le> length xs \<Longrightarrow>
     concat (map (\<lambda>g. map (\<lambda>k. xs ! (g * 6 + k)) [0..<6]) [0..<n]) = take (6 * n) xs"
proof (induction n)
  case (Suc n)
  have "take (6 * Suc n) xs = take (6 * n) xs @ take 6 (drop (6 * n) xs)"
    using take_add [of "6 * n" 6 xs] by (simp add: add.commute)
  also have "take 6 (drop (6 * n) xs) = map (\<lambda>k. xs ! (n * 6 + k)) [0..<6]"
    using Suc.prems by (intro nth_equalityI) (simp_all add: mult.commute)
  finally show ?case
    using Suc by simp
qed simp

lemma concat_const_nth:
  assumes "\<And>g. length (f g) = 6"
  shows "g < n \<Longrightarrow> k < 6 \<Longrightarrow> concat (map f [0..<n]) ! (g * 6 + k) = f g ! k"
proof (induction n)
  case (Suc n)
  have len: "length (concat (map f [0..<n])) = n * 6"
    by (induction n) (simp_all add: assms)
  show ?case
  proof (cases "g = n")
    case True
    with len Suc.prems show ?thesis by (simp add: nth_append)
  next
    case False
    then have "g * 6 + k < n * 6" using Suc.prems by simp
    with len Suc False show ?thesis by (simp add: nth_append)
  qed
qed simp


lemma length_wire_samples [simp]: "length (wire_samples img g) = 4"
  by (simp add: wire_samples_def)

lemma length_pack_group [simp]: "length (pack_group v) = 6"
  by (simp add: pack_group_def)

lemma wire_samples_decode:
  assumes "length d = IMAGE_SAMPLES" "g < 1280"
  shows "wire_samples (decode_raster packed d) g = group_values packed g"
proof (rule nth_equalityI)
  show "length (wire_samples (decode_raster packed d) g) = length (group_values packed g)"
    by (simp add: group_values_join)
  fix k assume "k < length (wire_samples (decode_raster packed d) g)"
  then have "k < 4" by simp
  with assms show "wire_samples (decode_raster packed d) g ! k = group_values packed g ! k"
    using decode_raster_nth [of d "g * 4 + k" packed] by (simp add: wire_samples_def)
qed

lemma pack_decode:
  assumes "length packed = PACKED_LENGTH" "length d = IMAGE_SAMPLES"
  shows "pack_raster (decode_raster packed d) = packed"
proof -
  have "pack_raster (decode_raster packed d) =
      concat (map (\<lambda>g. map (\<lambda>k. packed ! (g * 6 + k)) [0..<6]) [0..<1280])"
    unfolding pack_raster_def
    by (rule arg_cong [where f = concat]) (use assms in
      \<open>auto simp: wire_samples_decode pack_group_values simp del: upt_rec_numeral\<close>)
  also have "\<dots> = packed"
    using concat_sixes [of 1280 packed] assms by simp
  finally show ?thesis .
qed

lemma decode_pack:
  assumes "length img = IMAGE_SAMPLES" "list_all narrow img" "length d = IMAGE_SAMPLES"
  shows "decode_raster (pack_raster img) d = img"
proof (rule nth_equalityI)
  show "length (decode_raster (pack_raster img) d) = length img"
    using assms by simp
  fix i assume "i < length (decode_raster (pack_raster img) d)"
  then obtain w where w: "w < IMAGE_SAMPLES" "raster_index w = i"
    using raster_index_surj [of i] assms by auto
  then have g: "w div 4 < 1280" by simp
  have "group_values (pack_raster img) (w div 4) = wire_samples img (w div 4)"
  proof (rule group_values_pack)
    show "\<forall>x\<in>set (wire_samples img (w div 4)). narrow x"
      using assms(1,2) raster_index_less [of "w div 4 * 4 + _"] g
      by (auto simp: wire_samples_def list_all_length)
    show "pack_raster img ! (w div 4 * 6 + k) = pack_group (wire_samples img (w div 4)) ! k"
      if "k < 6" for k
      unfolding pack_raster_def using concat_const_nth [of "\<lambda>g. pack_group (wire_samples img g)" "w div 4" 1280 k] g that
      by simp
  qed simp
  then have "decode_raster (pack_raster img) d ! i = wire_samples img (w div 4) ! (w mod 4)"
    using decode_raster_nth [OF assms(3) w(1), of "pack_raster img"] w(2) by simp
  also have "\<dots> = img ! i"
    using w(2) by (simp add: wire_samples_def)
  finally show "decode_raster (pack_raster img) d ! i = img ! i" .
qed

lemma decode_raster_stack:
  assumes "length d = IMAGE_SAMPLES" "length d' = IMAGE_SAMPLES"
  shows "decode_raster packed d = decode_raster packed d'"
proof (rule nth_equalityI)
  fix i assume "i < length (decode_raster packed d)"
  then obtain w where "w < IMAGE_SAMPLES" "raster_index w = i"
    using raster_index_surj [of i] assms by auto
  with assms show "decode_raster packed d ! i = decode_raster packed d' ! i"
    using decode_raster_nth by metis
qed (use assms in simp)

lemma decode_raster_narrow:
  assumes "length d = IMAGE_SAMPLES"
  shows "list_all (\<lambda>s. s \<le> SAMPLE_MAX) (decode_raster packed d)"
proof (unfold list_all_length, intro allI impI)
  fix i assume "i < length (decode_raster packed d)"
  then obtain w where w: "w < IMAGE_SAMPLES" "raster_index w = i"
    using raster_index_surj [of i] assms by auto
  have "group_values packed (w div 4) ! (w mod 4) \<in> set (group_values packed (w div 4))"
    by (rule nth_mem) (simp add: group_values_join)
  then show "decode_raster packed d ! i \<le> SAMPLE_MAX"
    using decode_raster_nth [OF assms w(1), of packed] w(2) group_narrow narrow_le by metis
qed

lemma bit_crc_trailer:
  "bit (decode_crc_trailer t) n \<longleftrightarrow> (24 \<le> n \<and> bit (t ! 2) (n - 24)) \<or> (16 \<le> n \<and> bit (t ! 3) (n - 16)) \<or>
     (8 \<le> n \<and> bit (t ! 0) (n - 8)) \<or> bit (t ! 1) n"
proof -
  have less: "bit (t ! k) m \<Longrightarrow> m < 8" for k m
    by (rule bit_u8_less)
  have "bit (push_bit j (ucast (t ! k)) :: u32) n \<longleftrightarrow> j \<le> n \<and> bit (t ! k) (n - j)" if "j \<le> 24" for j k
    using that less [of k "n - j"] by (auto simp: bit_simps)
  moreover have "bit (ucast (t ! 1) :: u32) n \<longleftrightarrow> bit (t ! 1) n"
    using less [of 1 n] by (auto simp: bit_simps)
  ultimately show ?thesis
    by (simp add: decode_crc_trailer_def bit_or_iff)
qed

lemma crc_trailer_inject:
  assumes "decode_crc_trailer t = decode_crc_trailer u" "k < 4"
  shows "t ! k = u ! k"
proof -
  have bits: "bit (decode_crc_trailer t) n = bit (decode_crc_trailer u) n" for n
    using assms(1) by simp
  have high: "8 \<le> m \<Longrightarrow> \<not> bit (b :: u8) m" for b m
    using bit_u8_less by fastforce
  have "bit (t ! 2) n = bit (u ! 2) n" "bit (t ! 3) n = bit (u ! 3) n"
    "bit (t ! 0) n = bit (u ! 0) n" "bit (t ! 1) n = bit (u ! 1) n" if "n < 8" for n
    using bits [of "24 + n"] bits [of "16 + n"] bits [of "8 + n"] bits [of n] that
    by (simp_all add: bit_crc_trailer high)
  then have "t ! 2 = u ! 2" "t ! 3 = u ! 3" "t ! 0 = u ! 0" "t ! 1 = u ! 1"
    by (auto intro!: bit_word_eqI)
  moreover have "k \<in> {0, 1, 2, 3}"
    using assms(2) by auto
  ultimately show ?thesis by auto
qed

lemma image_accept:
  assumes "image_decode_plaintext stack (Some bs) samples audit = (Accept, samples', audit')"
  shows "length bs = PLAINTEXT_LENGTH"
    "decode_crc_trailer (take 4 (drop 7688 bs)) = crc32_mpeg2 (take PACKED_LENGTH (drop 8 bs))"
    "samples' = Some (decode_raster (take PACKED_LENGTH (drop 8 bs)) stack)"
  using assms
  by (auto simp: image_decode_plaintext_def Let_def split: if_split_asm option.splits)


section \<open>Properties\<close>

text \<open>
  Claim C9. Unpacking is a bijection between the packed record and 12-bit rasters: packing a
  decoded raster gives the record back, decoding a packed raster gives the raster back, and
  decoded samples always fit 12 bits. No pixel of the sensor is lost, duplicated or mixed.
\<close>

theorem raster_round_trip:
  assumes "length packed = PACKED_LENGTH" "length img = IMAGE_SAMPLES"
    "list_all (\<lambda>s. s \<le> SAMPLE_MAX) img" "length stack = IMAGE_SAMPLES"
  shows "pack_raster (decode_raster packed stack) = packed \<and>
    decode_raster (pack_raster img) stack = img \<and>
    list_all (\<lambda>s. s \<le> SAMPLE_MAX) (decode_raster packed stack)"
  using assms pack_decode decode_pack decode_raster_narrow
  by (simp add: narrow_le [abs_def])

lemma raster_round_trip_witness:
  "pack_raster (decode_raster (replicate 7680 7) (replicate 5120 9)) = replicate 7680 7 \<and>
     decode_raster (pack_raster (replicate 5120 100)) (replicate 5120 9) = replicate 5120 100"
  using raster_round_trip [of "replicate 7680 7" "replicate 5120 100" "replicate 5120 9"]
  by (simp add: list_all_iff)

text \<open>
  Claim C10. The decoder is all or nothing and leaks no stack memory: the outcome does not
  depend on the uninitialised array; a refused plaintext leaves the caller's samples as they
  were; an accepted one gives a full raster that the conversion to an image never refuses.
\<close>

theorem decoder_safe:
  assumes "length stack = IMAGE_SAMPLES" "length stack' = IMAGE_SAMPLES"
    and "image_decode_plaintext stack (Some bs) (Some old) audit = (r, samples, audit')"
  shows "image_decode_plaintext stack' (Some bs) (Some old) audit = (r, samples, audit') \<and>
    (r \<noteq> Accept \<longrightarrow> samples = Some old) \<and>
    (r = Accept \<longrightarrow> (\<exists>img. samples = Some img \<and>
       fst (u16_to_fpimage (Some img) (Some (replicate IMAGE_SAMPLES 0)) (Some md)) =
         U16_TO_FPIMAGE_OK))"
proof (intro conjI impI)
  show "image_decode_plaintext stack' (Some bs) (Some old) audit = (r, samples, audit')"
    using assms(3) unfolding image_decode_plaintext_def
    by (simp only: decode_raster_stack [OF assms(1,2)])
  show "samples = Some old" if "r \<noteq> Accept"
    using assms(3) that
    by (auto simp: image_decode_plaintext_def Let_def split: if_split_asm option.splits)
  assume "r = Accept"
  then have "samples = Some (decode_raster (take PACKED_LENGTH (drop 8 bs)) stack)"
    using image_accept(3) assms(3) by blast
  moreover have "list_all (\<lambda>s. s \<le> SAMPLE_MAX) (decode_raster packed stack)" for packed
    by (rule decode_raster_narrow [OF assms(1)])
  then have "\<not> list_ex (\<lambda>s. SAMPLE_MAX < s) (decode_raster packed stack)" for packed
    by (simp add: list_ex_iff list_all_iff not_less)
  ultimately show "\<exists>img. samples = Some img \<and>
      fst (u16_to_fpimage (Some img) (Some (replicate IMAGE_SAMPLES 0)) (Some md)) = U16_TO_FPIMAGE_OK"
    using assms(1) by (simp add: u16_to_fpimage_total)
qed

lemma decoder_safe_witness:
  "image_decode_plaintext (replicate 5120 1) (Some [0xaa]) (Some [3]) None =
     (Reject (Image_Error IMAGE_ERROR_SHAPE), Some [3], None)"
  using decoder_safe [of "replicate 5120 0" "replicate 5120 1" "[0xaa]" "[3]" None
      "Reject (Image_Error IMAGE_ERROR_SHAPE)" "Some [3]" None]
  by (simp add: image_decode_plaintext_def)

text \<open>
  Any one changed byte in the packed samples or the CRC trailer of an accepted
  plaintext is detected, also under the 0x88 policy that skips the additive checksum.
\<close>

theorem image_corruption_detected:
  assumes ok: "image_decode_plaintext stack (Some bs) samples audit = (Accept, samples', audit')"
    and i: "8 \<le> i" "i < 7692" and b: "b \<noteq> bs ! i"
  shows "fst (image_decode_plaintext stack (Some (bs[i := b])) samples audit) \<noteq> Accept"
proof
  assume "fst (image_decode_plaintext stack (Some (bs[i := b])) samples audit) = Accept"
  then obtain s2 a2 where new: "image_decode_plaintext stack (Some (bs[i := b])) samples audit =
      (Accept, s2, a2)" by (metis prod.collapse)
  note old_crc = image_accept(2) [OF ok] and new_crc = image_accept(2) [OF new]
  have len: "length bs = PLAINTEXT_LENGTH" by (rule image_accept(1) [OF ok])
  show False
  proof (cases "i < 7688")
    case True
    let ?p = "take PACKED_LENGTH (drop 8 bs)"
    have "take PACKED_LENGTH (drop 8 (bs[i := b])) = ?p[i - 8 := b]"
      "take 4 (drop 7688 (bs[i := b])) = take 4 (drop 7688 bs)"
      using i True by (simp_all add: drop_update_swap take_update_swap)
    then have "crc32_mpeg2 (?p[i - 8 := b]) = crc32_mpeg2 ?p"
      using old_crc new_crc by simp
    then have "?p[i - 8 := b] = ?p"
      unfolding crc32_mpeg2_def by (intro crc.update_visible) (use i len True in simp_all)
    then have "?p[i - 8 := b] ! (i - 8) = ?p ! (i - 8)" by simp
    with b i len True show False by simp
  next
    case False
    have "take PACKED_LENGTH (drop 8 (bs[i := b])) = take PACKED_LENGTH (drop 8 bs)"
      using i False by (simp add: drop_update_swap)
    moreover have
      "take 4 (drop 7688 (bs[i := b])) = (take 4 (drop 7688 bs))[i - 7688 := b]"
      using i False by (simp_all add: drop_update_swap take_update_swap)
    ultimately have "decode_crc_trailer ((take 4 (drop 7688 bs))[i - 7688 := b]) =
        decode_crc_trailer (take 4 (drop 7688 bs))"
      using old_crc new_crc by simp
    then have "(take 4 (drop 7688 bs))[i - 7688 := b] ! (i - 7688) = take 4 (drop 7688 bs) ! (i - 7688)"
      by (rule crc_trailer_inject) (use i in simp)
    with b i len False show False by simp
  qed
qed

text \<open>A well-formed record: all-zero samples, the CRC as the sensor sends it, policy 0x88.\<close>

definition encode_crc_trailer :: "u32 \<Rightarrow> bytes" where
  "encode_crc_trailer c =
     [ucast (drop_bit 8 c), ucast c, ucast (drop_bit 24 c), ucast (drop_bit 16 c)]"

lemma crc_trailer_round_trip: "decode_crc_trailer (encode_crc_trailer c) = c"
proof (rule bit_word_eqI)
  fix n assume n: "n < LENGTH(32)"
  consider "24 \<le> n" | "16 \<le> n" "n < 24" | "8 \<le> n" "n < 16" | "n < 8" by linarith
  then show "bit (decode_crc_trailer (encode_crc_trailer c)) n = bit c n"
    using n by cases (auto simp: bit_crc_trailer encode_crc_trailer_def bit_simps)
qed

definition blank_record :: bytes where
  "blank_record = [0x20, 0x0a, 0x1e, 0, 0, 0, 0, 0] @ replicate PACKED_LENGTH 0 @
     encode_crc_trailer (crc32_mpeg2 (replicate PACKED_LENGTH 0)) @ [0x88]"

lemma blank_record_accepted:
  "\<exists>s. image_decode_plaintext (replicate 5120 0) (Some blank_record) (Some []) None = (Accept, s, None)"
proof -
  let ?t = "encode_crc_trailer (crc32_mpeg2 (replicate PACKED_LENGTH 0))"
  have len: "length ?t = 4" "length blank_record = PLAINTEXT_LENGTH"
    by (simp_all add: encode_crc_trailer_def blank_record_def)
  have parts: "blank_record ! 0 = 0x20" "blank_record ! 1 = 0x0a" "blank_record ! 2 = 0x1e"
    "drop 3 blank_record ! 0 = 0" "blank_record ! 7692 = 0x88"
    "take PACKED_LENGTH (drop 8 blank_record) = replicate PACKED_LENGTH 0"
    "take 4 (drop 7688 blank_record) = ?t"
    using len(1) by (simp_all add: blank_record_def nth_append drop_Cons')
  have "le16 0x0a 0x1e = 7690"
    by (simp add: word_unat_eq_iff unat_le16)
  with parts len(2) show ?thesis
    by (simp add: image_decode_plaintext_def Let_def crc_trailer_round_trip)
qed

lemma image_corruption_detected_witness:
  "fst (image_decode_plaintext (replicate 5120 0) (Some (blank_record[10 := 1])) (Some []) None) \<noteq> Accept"
proof -
  obtain s where s: "image_decode_plaintext (replicate 5120 0) (Some blank_record) (Some []) None =
      (Accept, s, None)" using blank_record_accepted by blast
  have "blank_record ! 10 = 0"
    by (simp add: blank_record_def nth_append)
  then show ?thesis
    using image_corruption_detected [OF s, of 10 1] by simp
qed

end
