(* ===== verification/Enrollment_Model.thy ===== *)
theory Enrollment_Model
  imports Errors
begin

text \<open>
  The host-side enrollment oracle (\<^verbatim>\<open>goodix_enrollment_model.c\<close>): a protocol state machine
  that accepts exactly the event it expects, counts physical contacts and template stages,
  and hands each contact's image to a stage callback, which may ask for a retry or for an
  early end. The callback is a parameter: it sees the model and its own context, and gives
  back a reply, the model (which it may only have changed through the two request
  functions, the law of the locale \<open>stage_callback\<close> below) and its context.

  The audit pointer of the C code is a field here: every production caller
  (\<^verbatim>\<open>goodix_enrollment_command_plan_new\<close>) supplies one, and nothing is ever read back from
  it by this module.
\<close>

datatype enrollment_event =
    EVENT_NONE | IRQ2 | COMMAND_22 | ACK_22 | PRIMARY_B0 | COMMAND_34 | ACK_34 | IRQ0200
  | COMMAND_20 | ACK_20 | AUXILIARY_B0 | COMMAND_32 | ACK_32 | COMMAND_50 | ACK_50 | NAV
  | COMMAND_36 | ACK_36 | IRQ0100 | ZERO_MASK_RECOVERY

datatype enrollment_transition =
    TRANSITION_NONE | TRANSITION_FIRST_NAV | TRANSITION_REPEATED_REARM | TRANSITION_TERMINAL

record model_config =
  cfg_required_stage_count :: u32
  cfg_max_physical_stage_count :: u32
  cfg_defer_terminal_stage_delivery :: bool
  cfg_defer_terminal_until_release_ready :: bool
  cfg_defer_intermediate_until_release_ready :: bool

record model_audit =
  ma_configured_required :: u32
  ma_configured_max :: u32
  ma_configured_defer_terminal :: bool
  ma_configured_defer_terminal_until :: bool
  ma_configured_defer_intermediate_until :: bool
  ma_observed_primary :: u32
  ma_completed :: u32
  ma_primary_b0 :: u32
  ma_auxiliary_b0 :: u32
  ma_stage_report :: u32
  ma_retry_stage :: u32
  ma_first_nav_transition :: u32
  ma_repeated_rearm_transition :: u32
  ma_terminal_transition :: u32
  ma_inter_stage_rearm :: u32
  ma_unexpected_event :: u32
  ma_complete :: bool
  ma_failed :: bool

record enrollment_model =
  m_required :: u32
  m_max_physical :: u32
  m_observed :: u32
  m_completed :: u32
  m_expected :: enrollment_event
  m_transition :: enrollment_transition
  m_audit :: model_audit
  m_complete :: bool
  m_failed :: bool
  m_repeated_after_auxiliary :: bool
  m_first_nav_seen :: bool
  m_defer_terminal :: bool
  m_defer_terminal_until :: bool
  m_defer_intermediate_until :: bool
  m_delivery_pending :: bool
  m_delivering_stage :: bool
  m_retry_current_stage :: bool
  m_finish_current_stage :: bool

definition audit_zero :: model_audit where
  "audit_zero = \<lparr>ma_configured_required = 0, ma_configured_max = 0,
     ma_configured_defer_terminal = False, ma_configured_defer_terminal_until = False,
     ma_configured_defer_intermediate_until = False, ma_observed_primary = 0, ma_completed = 0,
     ma_primary_b0 = 0, ma_auxiliary_b0 = 0, ma_stage_report = 0, ma_retry_stage = 0,
     ma_first_nav_transition = 0, ma_repeated_rearm_transition = 0, ma_terminal_transition = 0,
     ma_inter_stage_rearm = 0, ma_unexpected_event = 0, ma_complete = False, ma_failed = False\<rparr>"

definition effective_max :: "model_config \<Rightarrow> u32" where
  "effective_max config =
     (if cfg_max_physical_stage_count config \<noteq> 0 then cfg_max_physical_stage_count config
      else cfg_required_stage_count config)"

definition enrollment_model_new :: "model_config \<Rightarrow> gerror + enrollment_model" where
  "enrollment_model_new config =
     (if cfg_required_stage_count config < 2 \<or>
         (cfg_max_physical_stage_count config \<noteq> 0 \<and>
          cfg_max_physical_stage_count config < cfg_required_stage_count config) \<or>
         (cfg_defer_terminal_stage_delivery config \<and>
          cfg_defer_terminal_until_release_ready config)
      then Inl (Model_Error MODEL_ERROR_ARGUMENT)
      else Inr
        \<lparr>m_required = cfg_required_stage_count config,
         m_max_physical = effective_max config,
         m_observed = 0, m_completed = 0, m_expected = IRQ2, m_transition = TRANSITION_NONE,
         m_audit = audit_zero
           \<lparr>ma_configured_required := cfg_required_stage_count config,
            ma_configured_max := effective_max config,
            ma_configured_defer_terminal := cfg_defer_terminal_stage_delivery config,
            ma_configured_defer_terminal_until := cfg_defer_terminal_until_release_ready config,
            ma_configured_defer_intermediate_until :=
              cfg_defer_intermediate_until_release_ready config\<rparr>,
         m_complete = False, m_failed = False, m_repeated_after_auxiliary = False,
         m_first_nav_seen = False,
         m_defer_terminal = cfg_defer_terminal_stage_delivery config,
         m_defer_terminal_until = cfg_defer_terminal_until_release_ready config,
         m_defer_intermediate_until = cfg_defer_intermediate_until_release_ready config,
         m_delivery_pending = False, m_delivering_stage = False,
         m_retry_current_stage = False, m_finish_current_stage = False\<rparr>)"

section \<open>Failure and the stage decision\<close>

definition model_fail :: "enrollment_model \<Rightarrow> model_error \<Rightarrow> gerror reply \<times> enrollment_model" where
  "model_fail m code =
     (Reject (Model_Error code),
      m\<lparr>m_failed := True, m_expected := EVENT_NONE,
        m_audit := (m_audit m)\<lparr>ma_failed := True,
          ma_unexpected_event := ma_unexpected_event (m_audit m) + 1\<rparr>\<rparr>)"

text \<open>The failure inside \<^verbatim>\<open>deliver_stage\<close>, which does not count an unexpected event.\<close>

definition stage_failed :: "enrollment_model \<Rightarrow> enrollment_model" where
  "stage_failed m =
     m\<lparr>m_failed := True, m_expected := EVENT_NONE, m_audit := (m_audit m)\<lparr>ma_failed := True\<rparr>\<rparr>"

definition expect :: "enrollment_event \<Rightarrow> enrollment_model \<Rightarrow> enrollment_model" where
  "expect event m = m\<lparr>m_expected := event\<rparr>"

definition request_stage_decision ::
    "bool \<Rightarrow> enrollment_model \<Rightarrow> gerror reply \<times> enrollment_model" where
  "request_stage_decision retry m =
     (if \<not> m_delivering_stage m \<or> m_retry_current_stage m \<or> m_finish_current_stage m
      then (Reject (Model_Error MODEL_ERROR_STATE), m)
      else if \<not> retry \<and> m_completed m + 1 > m_required m
      then (Reject (Model_Error MODEL_ERROR_STAGE), m)
      else (Accept, m\<lparr>m_retry_current_stage := retry, m_finish_current_stage := \<not> retry\<rparr>))"

definition model_retry_current_stage :: "enrollment_model \<Rightarrow> gerror reply \<times> enrollment_model" where
  "model_retry_current_stage m = request_stage_decision True m"

definition model_finish_current_stage :: "enrollment_model \<Rightarrow> gerror reply \<times> enrollment_model" where
  "model_finish_current_stage m = request_stage_decision False m"

section \<open>Delivering a stage\<close>

type_synonym 'c stage_func =
  "enrollment_model \<Rightarrow> u32 \<Rightarrow> 'c \<Rightarrow> callback_reply \<times> enrollment_model \<times> 'c"

definition deliver_stage ::
    "'c stage_func \<Rightarrow> u32 \<Rightarrow> enrollment_model \<times> 'c \<Rightarrow> gerror reply \<times> enrollment_model \<times> 'c" where
  "deliver_stage stage_ready stage_index mc =
     (let m0 = (fst mc)\<lparr>m_delivering_stage := True, m_retry_current_stage := False,
                 m_finish_current_stage := False\<rparr>
      in case stage_ready m0 stage_index (snd mc) of
        (Callback_False e, m1, c) \<Rightarrow>
          (Reject (case e of None \<Rightarrow> Model_Error MODEL_ERROR_STAGE | Some e0 \<Rightarrow> e0),
           stage_failed (m1\<lparr>m_delivering_stage := False\<rparr>), c)
      | (Callback_True, m1, c) \<Rightarrow>
          let m2 = m1\<lparr>m_delivering_stage := False\<rparr> in
          if m_retry_current_stage m2 then
            if m_observed m2 \<ge> m_max_physical m2
            then (Reject (Model_Error MODEL_ERROR_STAGE), stage_failed m2, c)
            else (Accept,
                  m2\<lparr>m_audit := (m_audit m2)\<lparr>ma_retry_stage := ma_retry_stage (m_audit m2) + 1\<rparr>\<rparr>,
                  c)
          else
            let m3 = m2\<lparr>m_completed := m_completed m2 + 1\<rparr> in
            if m_completed m3 > m_required m3
            then (Reject (Model_Error MODEL_ERROR_STAGE), stage_failed m3, c)
            else
              let m4 = (if m_finish_current_stage m3 then m3\<lparr>m_transition := TRANSITION_TERMINAL\<rparr>
                        else m3)
              in (Accept,
                  m4\<lparr>m_audit := (m_audit m4)\<lparr>ma_completed := m_completed m4,
                       ma_stage_report := ma_stage_report (m_audit m4) + 1\<rparr>\<rparr>,
                  c))"

definition deliver_pending_stage ::
    "'c stage_func \<Rightarrow> enrollment_model \<times> 'c \<Rightarrow> gerror reply \<times> enrollment_model \<times> 'c" where
  "deliver_pending_stage stage_ready mc =
     (if m_delivery_pending (fst mc) then
        case deliver_stage stage_ready (m_observed (fst mc)) mc of
          (Reject e, mc') \<Rightarrow> (Reject e, mc')
        | (Accept, m', c') \<Rightarrow> (Accept, m'\<lparr>m_delivery_pending := False\<rparr>, c')
      else (Accept, mc))"

definition model_finish ::
    "'c stage_func \<Rightarrow> enrollment_model \<times> 'c \<Rightarrow> gerror reply \<times> enrollment_model \<times> 'c" where
  "model_finish stage_ready mc =
     (case deliver_pending_stage stage_ready mc of
        (Reject e, mc') \<Rightarrow> (Reject e, mc')
      | (Accept, m, c) \<Rightarrow>
          (Accept,
           m\<lparr>m_complete := True, m_transition := TRANSITION_TERMINAL, m_expected := EVENT_NONE,
             m_audit := (m_audit m)\<lparr>
               ma_terminal_transition := ma_terminal_transition (m_audit m) + 1,
               ma_complete := True\<rparr>\<rparr>, c))"

section \<open>Feeding an event\<close>

text \<open>The switch of \<^verbatim>\<open>goodix_enrollment_model_feed\<close>, reached when the event is the expected one.\<close>

definition observe_primary :: "enrollment_model \<Rightarrow> enrollment_model" where
  "observe_primary m =
     (let n = m_observed m + 1 in
      m\<lparr>m_observed := n,
        m_audit := (m_audit m)\<lparr>ma_observed_primary := n,
          ma_primary_b0 := ma_primary_b0 (m_audit m) + 1\<rparr>,
        m_transition :=
          (if n = 1 then TRANSITION_FIRST_NAV
           else if n = m_max_physical m then TRANSITION_TERMINAL
           else TRANSITION_REPEATED_REARM)\<rparr>)"

definition defers_delivery :: "enrollment_model \<Rightarrow> bool" where
  "defers_delivery m \<longleftrightarrow>
     (m_transition m = TRANSITION_TERMINAL \<and> (m_defer_terminal m \<or> m_defer_terminal_until m)) \<or>
     (m_transition m \<noteq> TRANSITION_TERMINAL \<and> m_defer_intermediate_until m)"

definition feed_primary_b0 ::
    "'c stage_func \<Rightarrow> enrollment_model \<times> 'c \<Rightarrow> gerror reply \<times> enrollment_model \<times> 'c" where
  "feed_primary_b0 stage_ready mc =
     (let (m, c) = mc in
      if m_observed m \<ge> m_max_physical m
      then let (r, m') = model_fail m MODEL_ERROR_PROTOCOL in (r, m', c)
      else
        let m1 = observe_primary m in
        if defers_delivery m1
        then (Accept, expect COMMAND_34 (m1\<lparr>m_delivery_pending := True\<rparr>), c)
        else case deliver_stage stage_ready (m_observed m1) (m1, c) of
               (Reject e, mc') \<Rightarrow> (Reject e, mc')
             | (Accept, m2, c') \<Rightarrow> (Accept, expect COMMAND_34 m2, c'))"

definition feed_ack_34 ::
    "'c stage_func \<Rightarrow> enrollment_model \<times> 'c \<Rightarrow> gerror reply \<times> enrollment_model \<times> 'c" where
  "feed_ack_34 stage_ready mc =
     (let (m, c) = mc in
      if m_transition m = TRANSITION_FIRST_NAV \<or> m_repeated_after_auxiliary m
      then
        let m1 = expect IRQ0200 m in
        if m_transition m1 \<noteq> TRANSITION_TERMINAL \<or> m_defer_terminal_until m1
        then deliver_pending_stage stage_ready (m1, c)
        else (Accept, m1, c)
      else (Accept, expect COMMAND_36 m, c))"

definition feed_zero_mask_recovery ::
    "'c stage_func \<Rightarrow> enrollment_model \<times> 'c \<Rightarrow> gerror reply \<times> enrollment_model \<times> 'c" where
  "feed_zero_mask_recovery stage_ready mc =
     (let (m, c) = mc in
      if m_observed m < 2 \<or> \<not> m_delivery_pending m \<or> m_repeated_after_auxiliary m
      then let (r, m') = model_fail m MODEL_ERROR_STATE in (r, m', c)
      else case deliver_pending_stage stage_ready (m, c) of
          (Reject e, mc') \<Rightarrow> (Reject e, mc')
        | (Accept, m', c') \<Rightarrow>
            if m_transition m' = TRANSITION_TERMINAL then model_finish stage_ready (m', c')
            else (Accept, expect COMMAND_32 m', c'))"

definition feed_auxiliary_b0 :: "enrollment_model \<Rightarrow> enrollment_model" where
  "feed_auxiliary_b0 m =
     (let m1 = m\<lparr>m_audit := (m_audit m)\<lparr>ma_auxiliary_b0 := ma_auxiliary_b0 (m_audit m) + 1\<rparr>\<rparr>
      in if m_transition m1 = TRANSITION_FIRST_NAV then expect COMMAND_32 m1
         else expect COMMAND_34 (m1\<lparr>m_repeated_after_auxiliary := True\<rparr>))"

definition feed_irq0200 ::
    "'c stage_func \<Rightarrow> enrollment_model \<times> 'c \<Rightarrow> gerror reply \<times> enrollment_model \<times> 'c" where
  "feed_irq0200 stage_ready mc =
     (let (m, c) = mc; m1 = m\<lparr>m_repeated_after_auxiliary := False\<rparr> in
      if m_transition m1 = TRANSITION_FIRST_NAV then (Accept, expect COMMAND_20 m1, c)
      else if m_transition m1 = TRANSITION_TERMINAL then model_finish stage_ready (m1, c)
      else (Accept, expect COMMAND_32 m1, c))"

definition feed_ack_32 :: "enrollment_model \<Rightarrow> enrollment_model" where
  "feed_ack_32 m =
     (if m_transition m = TRANSITION_FIRST_NAV \<and> \<not> m_first_nav_seen m then expect COMMAND_50 m
      else
        let a = m_audit m;
            a1 = (if m_transition m = TRANSITION_FIRST_NAV
                  then a\<lparr>ma_first_nav_transition := ma_first_nav_transition a + 1\<rparr>
                  else a\<lparr>ma_repeated_rearm_transition := ma_repeated_rearm_transition a + 1\<rparr>)
        in expect IRQ2 (m\<lparr>m_audit := a1\<lparr>ma_inter_stage_rearm := ma_inter_stage_rearm a1 + 1\<rparr>\<rparr>))"

definition enrollment_model_feed ::
    "'c stage_func \<Rightarrow> enrollment_event \<Rightarrow> enrollment_model \<times> 'c
       \<Rightarrow> gerror reply \<times> enrollment_model \<times> 'c" where
  "enrollment_model_feed stage_ready event mc =
     (let (m, c) = mc in
      if m_complete m \<or> m_failed m then (Reject (Model_Error MODEL_ERROR_STATE), m, c)
      else if event \<noteq> m_expected m \<and>
              \<not> (event = ZERO_MASK_RECOVERY \<and> m_expected m = IRQ0100)
      then let (r, m') = model_fail m MODEL_ERROR_PROTOCOL in (r, m', c)
      else case event of
          IRQ2 \<Rightarrow> (Accept, expect COMMAND_22 (m\<lparr>m_transition := TRANSITION_NONE\<rparr>), c)
        | COMMAND_22 \<Rightarrow> (Accept, expect ACK_22 m, c)
        | ACK_22 \<Rightarrow> (Accept, expect PRIMARY_B0 m, c)
        | PRIMARY_B0 \<Rightarrow> feed_primary_b0 stage_ready (m, c)
        | COMMAND_34 \<Rightarrow> (Accept, expect ACK_34 m, c)
        | ACK_34 \<Rightarrow> feed_ack_34 stage_ready (m, c)
        | COMMAND_36 \<Rightarrow> (Accept, expect ACK_36 m, c)
        | ACK_36 \<Rightarrow> (Accept, expect IRQ0100 m, c)
        | IRQ0100 \<Rightarrow> (Accept, expect COMMAND_20 m, c)
        | ZERO_MASK_RECOVERY \<Rightarrow> feed_zero_mask_recovery stage_ready (m, c)
        | COMMAND_20 \<Rightarrow> (Accept, expect ACK_20 m, c)
        | ACK_20 \<Rightarrow> (Accept, expect AUXILIARY_B0 m, c)
        | AUXILIARY_B0 \<Rightarrow> (Accept, feed_auxiliary_b0 m, c)
        | IRQ0200 \<Rightarrow> feed_irq0200 stage_ready (m, c)
        | COMMAND_32 \<Rightarrow> (Accept, expect ACK_32 m, c)
        | ACK_32 \<Rightarrow> (Accept, feed_ack_32 m, c)
        | COMMAND_50 \<Rightarrow> (Accept, expect ACK_50 m, c)
        | ACK_50 \<Rightarrow> (Accept, expect NAV m, c)
        | NAV \<Rightarrow> (Accept, expect COMMAND_32 (m\<lparr>m_first_nav_seen := True\<rparr>), c)
        | EVENT_NONE \<Rightarrow> (let (r, m') = model_fail m MODEL_ERROR_PROTOCOL in (r, m', c)))"

section \<open>The callback's licence\<close>

text \<open>
  A callback may call \<^verbatim>\<open>goodix_enrollment_model_retry_current_stage\<close> and
  \<^verbatim>\<open>goodix_enrollment_model_finish_current_stage\<close> on the model it is given, any number of
  times; a list of booleans (\<open>True\<close> for retry) records the calls.
\<close>

definition run_decisions :: "bool list \<Rightarrow> enrollment_model \<Rightarrow> enrollment_model" where
  "run_decisions rs m = foldl (\<lambda>m retry. snd (request_stage_decision retry m)) m rs"

lemma run_decisions_simps [simp]:
  "run_decisions [] m = m"
  "run_decisions (r # rs) m = run_decisions rs (snd (request_stage_decision r m))"
  by (simp_all add: run_decisions_def)

definition want_retry :: "enrollment_model \<Rightarrow> enrollment_model" where
  "want_retry m = m\<lparr>m_retry_current_stage := True, m_finish_current_stage := False\<rparr>"

definition want_finish :: "enrollment_model \<Rightarrow> enrollment_model" where
  "want_finish m = m\<lparr>m_retry_current_stage := False, m_finish_current_stage := True\<rparr>"

definition can_decide :: "enrollment_model \<Rightarrow> bool" where
  "can_decide m \<longleftrightarrow>
     m_delivering_stage m \<and> \<not> m_retry_current_stage m \<and> \<not> m_finish_current_stage m"

lemma request_retry:
  "snd (request_stage_decision True m) = (if can_decide m then want_retry m else m)"
  by (cases "m_delivering_stage m"; cases "m_retry_current_stage m"; cases "m_finish_current_stage m";
      simp add: request_stage_decision_def can_decide_def want_retry_def)

lemma request_finish:
  "snd (request_stage_decision False m) =
     (if can_decide m \<and> m_completed m + 1 \<le> m_required m then want_finish m else m)"
  by (cases "m_delivering_stage m"; cases "m_retry_current_stage m"; cases "m_finish_current_stage m";
      cases "m_completed m + 1 \<le> m_required m";
      simp add: request_stage_decision_def can_decide_def want_finish_def not_le)

lemma request_cases:
  "snd (request_stage_decision r m) = m \<or>
   snd (request_stage_decision r m) = want_retry m \<or>
   (m_completed m + 1 \<le> m_required m \<and> snd (request_stage_decision r m) = want_finish m)"
  by (cases r) (simp_all only: request_retry request_finish split: if_split, blast+)

text \<open>Only the first accepted request counts; later ones are refused.\<close>

lemma run_decisions_settled:
  "m_retry_current_stage m \<or> m_finish_current_stage m \<Longrightarrow> run_decisions rs m = m"
proof (induction rs)
  case (Cons r rs)
  then have "snd (request_stage_decision r m) = m"
    unfolding request_stage_decision_def by simp
  with Cons show ?case by simp
qed simp

lemma run_decisions_cases:
  "run_decisions rs m = m \<or> run_decisions rs m = want_retry m \<or>
   (m_completed m + 1 \<le> m_required m \<and> run_decisions rs m = want_finish m)"
proof (induction rs)
  case (Cons r rs)
  have "run_decisions rs (want_retry m) = want_retry m"
    "run_decisions rs (want_finish m) = want_finish m"
    by (simp_all add: run_decisions_settled want_retry_def want_finish_def)
  with Cons.IH request_cases [of r m] show ?case
    by auto
qed simp

text \<open>The model after an accepted delivery: the contact was retried, or the stage was counted.\<close>

definition retried :: "enrollment_model \<Rightarrow> enrollment_model" where
  "retried m = m\<lparr>m_delivering_stage := False, m_retry_current_stage := True,
     m_finish_current_stage := False,
     m_audit := (m_audit m)\<lparr>ma_retry_stage := ma_retry_stage (m_audit m) + 1\<rparr>\<rparr>"

definition staged :: "bool \<Rightarrow> enrollment_model \<Rightarrow> enrollment_model" where
  "staged fin m = m\<lparr>m_delivering_stage := False, m_retry_current_stage := False,
     m_finish_current_stage := fin, m_completed := m_completed m + 1,
     m_transition := (if fin then TRANSITION_TERMINAL else m_transition m),
     m_audit := (m_audit m)\<lparr>ma_completed := m_completed m + 1,
       ma_stage_report := ma_stage_report (m_audit m) + 1\<rparr>\<rparr>"

locale stage_callback =
  fixes stage_ready :: "'c stage_func"
  assumes only_decisions: "\<exists>rs. fst (snd (stage_ready m i c)) = run_decisions rs m"
begin

text \<open>What a delivery can do to the model, whatever the callback decides.\<close>

lemma stage_ready_cases:
  assumes "stage_ready m i c = (cb, m1, c')"
  shows "m1 = m \<or> m1 = want_retry m \<or> (m_completed m + 1 \<le> m_required m \<and> m1 = want_finish m)"
  using only_decisions [of m i c] assms run_decisions_cases [of _ m] by fastforce

lemma deliver_stage_refused:
  assumes "deliver_stage stage_ready i (m, c) = (Reject e, m', c')"
  shows "m_failed m'" "m_expected m' = EVENT_NONE"
    "m_observed m' = m_observed m" "m_max_physical m' = m_max_physical m"
    "m_required m' = m_required m" "m_complete m' = m_complete m"
    "m_audit m' = (m_audit m)\<lparr>ma_failed := True\<rparr>"
    "m_defer_terminal m' = m_defer_terminal m" "m_defer_terminal_until m' = m_defer_terminal_until m"
    "m_defer_intermediate_until m' = m_defer_intermediate_until m"
proof -
  let ?m0 = "m\<lparr>m_delivering_stage := True, m_retry_current_stage := False,
               m_finish_current_stage := False\<rparr>"
  obtain cb m1 c1 where cb: "stage_ready ?m0 i c = (cb, m1, c1)"
    by (metis prod_cases3)
  have m1: "m_observed m1 = m_observed m" "m_max_physical m1 = m_max_physical m"
    "m_required m1 = m_required m" "m_complete m1 = m_complete m" "m_audit m1 = m_audit m"
    "m_defer_terminal m1 = m_defer_terminal m" "m_defer_terminal_until m1 = m_defer_terminal_until m"
    "m_defer_intermediate_until m1 = m_defer_intermediate_until m"
    using stage_ready_cases [OF cb] by (auto simp: want_retry_def want_finish_def)
  show "m_failed m'" "m_expected m' = EVENT_NONE"
    "m_observed m' = m_observed m" "m_max_physical m' = m_max_physical m"
    "m_required m' = m_required m" "m_complete m' = m_complete m"
    "m_audit m' = (m_audit m)\<lparr>ma_failed := True\<rparr>"
    "m_defer_terminal m' = m_defer_terminal m" "m_defer_terminal_until m' = m_defer_terminal_until m"
    "m_defer_intermediate_until m' = m_defer_intermediate_until m"
    using assms cb m1
    by (cases cb; auto simp: deliver_stage_def Let_def stage_failed_def split: if_split_asm)+
qed

lemma deliver_stage_accepted:
  assumes "deliver_stage stage_ready i (m, c) = (Accept, m', c')"
  shows "(m_observed m < m_max_physical m \<and> m' = retried m) \<or>
    (m_completed m + 1 \<le> m_required m \<and> (\<exists>fin. m' = staged fin m))"
proof -
  let ?m0 = "m\<lparr>m_delivering_stage := True, m_retry_current_stage := False,
               m_finish_current_stage := False\<rparr>"
  obtain cb m1 c1 where cb: "stage_ready ?m0 i c = (cb, m1, c1)"
    by (metis prod_cases3)
  with assms have [simp]: "cb = Callback_True"
    by (cases cb) (simp_all add: deliver_stage_def Let_def)
  consider "m1 = ?m0" | "m1 = want_retry ?m0" | "m1 = want_finish ?m0"
    using stage_ready_cases [OF cb] by blast
  then show ?thesis
  proof cases
    case 1
    with assms cb have "m_completed m + 1 \<le> m_required m \<and> m' = staged False m"
      by (auto simp: deliver_stage_def Let_def staged_def not_less split: if_split_asm)
    then show ?thesis by blast
  next
    case 2
    with assms cb have "m_observed m < m_max_physical m \<and> m' = retried m"
      by (auto simp: deliver_stage_def Let_def retried_def want_retry_def not_le split: if_split_asm)
    then show ?thesis by blast
  next
    case 3
    with assms cb have "m_completed m + 1 \<le> m_required m \<and> m' = staged True m"
      by (auto simp: deliver_stage_def Let_def staged_def want_finish_def not_less split: if_split_asm)
    then show ?thesis by blast
  qed
qed

end

section \<open>The invariant\<close>

text \<open>
  Reachable models satisfy: the configured bounds, the contact bound, the balance between
  contacts, completed stages, retries and the image still to be delivered (counted in
  \<open>nat\<close>, so no counter has wrapped), and what each expected event says about the
  flags.
\<close>

definition pre_primary :: "enrollment_event \<Rightarrow> bool" where
  "pre_primary e \<longleftrightarrow> e \<in> {IRQ2, COMMAND_22, ACK_22, PRIMARY_B0}"

definition model_static :: "enrollment_model \<Rightarrow> bool" where
  "model_static m \<longleftrightarrow>
     2 \<le> m_required m \<and> m_required m \<le> m_max_physical m \<and>
     m_observed m \<le> m_max_physical m \<and>
     ma_observed_primary (m_audit m) = m_observed m \<and>
     ma_primary_b0 (m_audit m) = m_observed m \<and>
     \<not> (m_defer_terminal m \<and> m_defer_terminal_until m) \<and>
     (m_failed m \<longrightarrow> m_expected m = EVENT_NONE) \<and>
     ma_failed (m_audit m) = m_failed m"

definition model_counts :: "enrollment_model \<Rightarrow> bool" where
  "model_counts m \<longleftrightarrow>
     m_completed m \<le> m_required m \<and>
     ma_completed (m_audit m) = m_completed m \<and>
     ma_stage_report (m_audit m) = m_completed m \<and>
     unat (m_completed m) + unat (ma_retry_stage (m_audit m)) +
       of_bool (m_delivery_pending m) = unat (m_observed m)"

text \<open>Between a contact's primary image and its end.\<close>

definition in_cycle :: "enrollment_model \<Rightarrow> bool" where
  "in_cycle m \<longleftrightarrow> 1 \<le> m_observed m \<and> m_transition m \<noteq> TRANSITION_NONE \<and>
     (m_transition m = TRANSITION_TERMINAL \<or> m_observed m < m_max_physical m) \<and>
     (m_transition m = TRANSITION_FIRST_NAV \<longrightarrow> m_observed m = 1) \<and>
     (m_transition m = TRANSITION_REPEATED_REARM \<longrightarrow> m_observed m \<noteq> 1)"

definition cycle_flags :: "enrollment_model \<Rightarrow> bool" where
  "cycle_flags m \<longleftrightarrow>
     (m_repeated_after_auxiliary m \<longrightarrow>
        m_expected m \<in> {COMMAND_34, ACK_34, IRQ0200} \<and> m_transition m \<noteq> TRANSITION_FIRST_NAV) \<and>
     (m_expected m \<in> {COMMAND_36, ACK_36, IRQ0100} \<longrightarrow>
        m_transition m \<noteq> TRANSITION_FIRST_NAV) \<and>
     (m_expected m = IRQ0200 \<longrightarrow> m_delivery_pending m \<longrightarrow>
        m_transition m = TRANSITION_TERMINAL) \<and>
     (m_expected m \<in> {COMMAND_20, ACK_20, AUXILIARY_B0} \<longrightarrow>
        m_transition m = TRANSITION_FIRST_NAV \<longrightarrow> \<not> m_delivery_pending m) \<and>
     (m_expected m \<in> {COMMAND_32, ACK_32} \<longrightarrow>
        m_transition m \<noteq> TRANSITION_TERMINAL \<and> \<not> m_delivery_pending m) \<and>
     (m_expected m \<in> {COMMAND_50, ACK_50, NAV} \<longrightarrow>
        m_transition m = TRANSITION_FIRST_NAV \<and> \<not> m_delivery_pending m)"

definition model_position :: "enrollment_model \<Rightarrow> bool" where
  "model_position m \<longleftrightarrow>
     m_expected m \<noteq> EVENT_NONE \<and> m_expected m \<noteq> ZERO_MASK_RECOVERY \<and>
     (if pre_primary (m_expected m)
      then \<not> m_delivery_pending m \<and> \<not> m_repeated_after_auxiliary m \<and>
           m_observed m < m_max_physical m
      else in_cycle m \<and> cycle_flags m)"

definition model_inv :: "enrollment_model \<Rightarrow> bool" where
  "model_inv m \<longleftrightarrow>
     model_static m \<and>
     (\<not> m_failed m \<longrightarrow> model_counts m) \<and>
     (m_complete m \<longrightarrow> \<not> m_failed m \<and> m_expected m = EVENT_NONE \<and> \<not> m_delivery_pending m \<and>
        1 \<le> m_observed m) \<and>
     (\<not> m_failed m \<longrightarrow> \<not> m_complete m \<longrightarrow> model_position m)"

lemma two_le_pos: "2 \<le> (x :: u32) \<Longrightarrow> 0 < x" "2 \<le> x \<Longrightarrow> x \<noteq> 0" "2 \<le> x \<Longrightarrow> x \<noteq> 1"
  by (auto simp: word_le_nat_alt word_less_nat_alt)

lemma effective_max_bounds:
  assumes "\<not> cfg_required_stage_count config < 2"
    and "\<not> (cfg_max_physical_stage_count config \<noteq> 0 \<and>
             cfg_max_physical_stage_count config < cfg_required_stage_count config)"
  shows "2 \<le> cfg_required_stage_count config"
    and "cfg_required_stage_count config \<le> effective_max config"
    and "0 < effective_max config"
proof -
  show req: "2 \<le> cfg_required_stage_count config"
    using assms(1) by simp
  show le: "cfg_required_stage_count config \<le> effective_max config"
    using assms(2) by (auto simp: effective_max_def not_less)
  from req le show "0 < effective_max config"
    using two_le_pos(1) [of "effective_max config"] by (meson order_trans)
qed

lemma model_inv_new:
  assumes "enrollment_model_new config = Inr m"
  shows "model_inv m"
proof -
  have c: "\<not> cfg_required_stage_count config < 2"
    "\<not> (cfg_max_physical_stage_count config \<noteq> 0 \<and>
        cfg_max_physical_stage_count config < cfg_required_stage_count config)"
    "\<not> (cfg_defer_terminal_stage_delivery config \<and> cfg_defer_terminal_until_release_ready config)"
    using assms unfolding enrollment_model_new_def by (meson Inl_Inr_False)+
  note bounds = effective_max_bounds [OF c(1,2)]
  have m: "m_required m = cfg_required_stage_count config" "m_max_physical m = effective_max config"
    "m_observed m = 0" "m_completed m = 0" "m_expected m = IRQ2" "\<not> m_complete m" "\<not> m_failed m"
    "\<not> m_repeated_after_auxiliary m" "\<not> m_delivery_pending m"
    "m_defer_terminal m = cfg_defer_terminal_stage_delivery config"
    "m_defer_terminal_until m = cfg_defer_terminal_until_release_ready config"
    "ma_observed_primary (m_audit m) = 0" "ma_primary_b0 (m_audit m) = 0"
    "ma_completed (m_audit m) = 0" "ma_stage_report (m_audit m) = 0"
    "ma_retry_stage (m_audit m) = 0" "\<not> ma_failed (m_audit m)"
    using assms c by (auto simp: enrollment_model_new_def audit_zero_def)
  have "model_static m" "model_counts m" "model_position m"
    using bounds c(3) by (simp_all add: model_static_def model_counts_def model_position_def
        pre_primary_def m)
  with m show ?thesis
    by (simp add: model_inv_def)
qed

lemma model_inv_failed:
  "model_static m \<Longrightarrow> \<not> m_complete m \<Longrightarrow> m_failed m \<Longrightarrow> model_inv m"
  by (simp add: model_inv_def)

lemma model_fail_result:
  "model_fail m code = (r, m') \<Longrightarrow> r = Reject (Model_Error code) \<and> m_failed m' \<and>
     m_complete m' = m_complete m \<and> (model_static m \<longrightarrow> model_static m')"
  by (auto simp: model_fail_def model_static_def)

text \<open>A delivery, accepted or refused, keeps the counts.\<close>

lemma u32_Suc:
  fixes x :: u32
  assumes "unat x + 1 < 2 ^ 32"
  shows "unat (x + 1) = unat x + 1"
  using assms by (simp add: unat_word_ariths)

lemma u32_Suc_le: "x < (y :: u32) \<Longrightarrow> unat (x + 1) = unat x + 1" "x < y \<Longrightarrow> x + 1 \<le> y"
  by (simp_all add: word_less_nat_alt word_le_nat_alt unat_word_ariths)
     (use unsigned_less [of y, where 'a = nat] in auto)

definition undelivered :: "enrollment_model \<Rightarrow> bool" where
  "undelivered m \<longleftrightarrow>
     m_completed m \<le> m_required m \<and>
     ma_completed (m_audit m) = m_completed m \<and>
     ma_stage_report (m_audit m) = m_completed m \<and>
     unat (m_completed m) + unat (ma_retry_stage (m_audit m)) + 1 = unat (m_observed m)"

lemma undelivered_retried:
  assumes "undelivered m"
  shows "model_counts (retried m \<lparr>m_delivery_pending := False\<rparr>)"
proof -
  have "unat (m_observed m) < 2 ^ 32"
    using unsigned_less [of "m_observed m", where 'a = nat] by simp
  with assms have "unat (ma_retry_stage (m_audit m) + 1) = unat (ma_retry_stage (m_audit m)) + 1"
    by (intro u32_Suc) (simp add: undelivered_def)
  with assms show ?thesis
    by (simp add: undelivered_def model_counts_def retried_def)
qed

lemma undelivered_staged:
  assumes "undelivered m" "m_completed m + 1 \<le> m_required m"
  shows "model_counts (staged fin m \<lparr>m_delivery_pending := False\<rparr>)"
proof -
  have "unat (m_observed m) < 2 ^ 32"
    using unsigned_less [of "m_observed m", where 'a = nat] by simp
  with assms have "unat (m_completed m + 1) = unat (m_completed m) + 1"
    by (intro u32_Suc) (simp add: undelivered_def)
  with assms show ?thesis
    by (simp add: undelivered_def model_counts_def staged_def)
qed

text \<open>What an accepted delivery leaves alone, and where it ends.\<close>

definition live :: "enrollment_model \<Rightarrow> bool" where
  "live m \<longleftrightarrow> model_static m \<and> \<not> m_failed m \<and> \<not> m_complete m"

definition delivered :: "enrollment_model \<Rightarrow> enrollment_model \<Rightarrow> bool" where
  "delivered m m' \<longleftrightarrow>
     live m' \<and> model_counts m' \<and> \<not> m_delivery_pending m' \<and>
     m_observed m' = m_observed m \<and> m_max_physical m' = m_max_physical m \<and>
     m_required m' = m_required m \<and>
     m_expected m' = m_expected m \<and> m_first_nav_seen m' = m_first_nav_seen m \<and>
     m_repeated_after_auxiliary m' = m_repeated_after_auxiliary m \<and>
     m_defer_terminal m' = m_defer_terminal m \<and>
     m_defer_terminal_until m' = m_defer_terminal_until m \<and>
     m_defer_intermediate_until m' = m_defer_intermediate_until m \<and>
     (m_transition m' = m_transition m \<or> m_transition m' = TRANSITION_TERMINAL)"

lemma retried_delivered:
  "live m \<Longrightarrow> undelivered m \<Longrightarrow> delivered m (retried m \<lparr>m_delivery_pending := False\<rparr>)"
  using undelivered_retried [of m]
  by (simp add: delivered_def live_def model_static_def retried_def)

lemma staged_delivered:
  "live m \<Longrightarrow> undelivered m \<Longrightarrow> m_completed m + 1 \<le> m_required m \<Longrightarrow>
     delivered m (staged fin m \<lparr>m_delivery_pending := False\<rparr>)"
  using undelivered_staged [of m fin]
  by (simp add: delivered_def live_def model_static_def staged_def)

definition broken :: "enrollment_model \<Rightarrow> bool" where
  "broken m \<longleftrightarrow> model_static m \<and> m_failed m \<and> \<not> m_complete m"

lemma broken_inv: "broken m \<Longrightarrow> model_inv m"
  by (simp add: broken_def model_inv_def)

lemma model_fail_broken:
  "live m \<Longrightarrow> model_fail m code = (r, m') \<Longrightarrow> broken m' \<and> r = Reject (Model_Error code)"
  by (auto simp: live_def broken_def dest: model_fail_result)

lemma live_inv: "live m \<Longrightarrow> model_counts m \<Longrightarrow> model_position m \<Longrightarrow> model_inv m"
  by (simp add: live_def model_inv_def)

lemma expect_fields [simp]:
  "m_required (expect e m) = m_required m" "m_max_physical (expect e m) = m_max_physical m"
  "m_observed (expect e m) = m_observed m" "m_completed (expect e m) = m_completed m"
  "m_expected (expect e m) = e" "m_transition (expect e m) = m_transition m"
  "m_audit (expect e m) = m_audit m" "m_complete (expect e m) = m_complete m"
  "m_failed (expect e m) = m_failed m"
  "m_repeated_after_auxiliary (expect e m) = m_repeated_after_auxiliary m"
  "m_first_nav_seen (expect e m) = m_first_nav_seen m"
  "m_defer_terminal (expect e m) = m_defer_terminal m"
  "m_defer_terminal_until (expect e m) = m_defer_terminal_until m"
  "m_defer_intermediate_until (expect e m) = m_defer_intermediate_until m"
  "m_delivery_pending (expect e m) = m_delivery_pending m"
  by (simp_all add: expect_def)

lemma static_expect: "\<not> m_failed m \<Longrightarrow> model_static (expect e m) = model_static m"
  by (simp add: model_static_def)

lemma live_expect [simp]: "live (expect e m) = live m"
  unfolding live_def using static_expect [of m e] by (cases "m_failed m") simp_all

lemma live_pending [simp]: "live (m\<lparr>m_delivery_pending := b\<rparr>) = live m"
  by (simp add: live_def model_static_def)

lemma counts_expect [simp]: "model_counts (expect e m) = model_counts m"
  by (simp add: model_counts_def)

lemma in_cycle_expect [simp]: "in_cycle (expect e m) = in_cycle m"
  by (simp add: in_cycle_def)

lemma in_cycle_pending [simp]: "in_cycle (m\<lparr>m_delivery_pending := b\<rparr>) = in_cycle m"
  by (simp add: in_cycle_def)

lemma undelivered_pending: "undelivered m \<Longrightarrow> model_counts (m\<lparr>m_delivery_pending := True\<rparr>)"
  by (simp add: undelivered_def model_counts_def)

text \<open>The events that only move the expectation.\<close>

lemma plain_step_inv:
  "live m \<Longrightarrow> model_counts m \<Longrightarrow> model_position (expect e m) \<Longrightarrow> model_inv (expect e m)"
  by (simp add: live_inv)

lemma delivered_fields:
  assumes "delivered m m'"
  shows "live m'" "model_counts m'" "\<not> m_delivery_pending m'" "m_observed m' = m_observed m"
    "m_max_physical m' = m_max_physical m" "m_required m' = m_required m"
    "m_expected m' = m_expected m" "m_first_nav_seen m' = m_first_nav_seen m"
    "m_repeated_after_auxiliary m' = m_repeated_after_auxiliary m"
    "m_defer_terminal m' = m_defer_terminal m"
    "m_transition m' = m_transition m \<or> m_transition m' = TRANSITION_TERMINAL"
  using assms by (simp_all add: delivered_def)

lemma delivered_in_cycle:
  assumes "delivered m m'" "in_cycle m"
  shows "in_cycle m'"
proof -
  note f = delivered_fields [OF assms(1)]
  show ?thesis
    using f(11) assms(2) unfolding in_cycle_def f(4) f(5)
    by (elim disjE; simp)
qed

lemma position_34: "in_cycle m \<Longrightarrow> \<not> m_repeated_after_auxiliary m \<Longrightarrow> model_position (expect COMMAND_34 m)"
  by (simp add: model_position_def pre_primary_def cycle_flags_def)

lemma observe_primary_fields [simp]:
  "m_required (observe_primary m) = m_required m"
  "m_max_physical (observe_primary m) = m_max_physical m"
  "m_observed (observe_primary m) = m_observed m + 1"
  "m_completed (observe_primary m) = m_completed m"
  "m_expected (observe_primary m) = m_expected m"
  "m_transition (observe_primary m) =
     (if m_observed m + 1 = 1 then TRANSITION_FIRST_NAV
      else if m_observed m + 1 = m_max_physical m then TRANSITION_TERMINAL
      else TRANSITION_REPEATED_REARM)"
  "m_complete (observe_primary m) = m_complete m"
  "m_failed (observe_primary m) = m_failed m"
  "m_repeated_after_auxiliary (observe_primary m) = m_repeated_after_auxiliary m"
  "m_first_nav_seen (observe_primary m) = m_first_nav_seen m"
  "m_defer_terminal (observe_primary m) = m_defer_terminal m"
  "m_defer_terminal_until (observe_primary m) = m_defer_terminal_until m"
  "m_defer_intermediate_until (observe_primary m) = m_defer_intermediate_until m"
  "m_delivery_pending (observe_primary m) = m_delivery_pending m"
  "m_audit (observe_primary m) = (m_audit m)\<lparr>ma_observed_primary := m_observed m + 1,
     ma_primary_b0 := ma_primary_b0 (m_audit m) + 1\<rparr>"
  by (simp_all add: observe_primary_def Let_def)

lemma observe_primary_live:
  assumes "live m" "model_counts m" "\<not> m_delivery_pending m" "m_observed m < m_max_physical m"
  shows "live (observe_primary m)" "undelivered (observe_primary m)" "in_cycle (observe_primary m)"
    "m_delivery_pending (observe_primary m) = m_delivery_pending m"
    "m_repeated_after_auxiliary (observe_primary m) = m_repeated_after_auxiliary m"
    "m_max_physical (observe_primary m) = m_max_physical m"
    "m_observed (observe_primary m) = m_observed m + 1"
proof -
  note Suc = u32_Suc_le [OF assms(4)]
  show "live (observe_primary m)"
    using assms(1) Suc(2) unfolding live_def model_static_def by (elim conjE) simp
  show "undelivered (observe_primary m)"
    using assms(2,3) Suc(1) unfolding undelivered_def model_counts_def by (elim conjE) simp
  let ?n = "m_observed m + 1"
  have tr: "m_transition (observe_primary m) =
      (if ?n = 1 then TRANSITION_FIRST_NAV
       else if ?n = m_max_physical m then TRANSITION_TERMINAL else TRANSITION_REPEATED_REARM)"
    "m_observed (observe_primary m) = ?n" "m_max_physical (observe_primary m) = m_max_physical m"
    by (simp_all only: observe_primary_fields)
  have two: "2 \<le> m_max_physical m"
    using assms(1) unfolding live_def model_static_def by (meson order_trans)
  have "1 \<le> ?n"
    using Suc(1) by (simp only: word_le_nat_alt) simp
  moreover have "?n = 1 \<and> ?n < m_max_physical m \<or> ?n \<noteq> 1 \<and> ?n = m_max_physical m
    \<or> ?n \<noteq> 1 \<and> ?n \<noteq> m_max_physical m \<and> ?n < m_max_physical m"
    using Suc(2) two two_le_pos(3) by (metis order_le_imp_less_or_eq)
  ultimately show "in_cycle (observe_primary m)"
    unfolding in_cycle_def tr
    by (elim disjE conjE) (simp_all only: if_True if_False simp_thms enrollment_transition.distinct)
qed simp_all

context stage_callback
begin

lemma deliver_stage_live:
  assumes "live m" "undelivered m" "deliver_stage stage_ready i (m, c) = (r, m', c')"
  shows "(\<exists>e. r = Reject e \<and> broken m') \<or>
    (r = Accept \<and> delivered m (m'\<lparr>m_delivery_pending := False\<rparr>) \<and>
     m_delivery_pending m' = m_delivery_pending m)"
proof (cases r)
  case (Reject e)
  with assms(1) deliver_stage_refused [OF assms(3) [unfolded Reject]] show ?thesis
    by (simp add: live_def broken_def model_static_def)
next
  case Accept
  have "m_delivery_pending (retried m) = m_delivery_pending m"
    "m_delivery_pending (staged fin m) = m_delivery_pending m" for fin
    by (simp_all add: retried_def staged_def)
  with Accept deliver_stage_accepted [OF assms(3) [unfolded Accept]]
    retried_delivered [OF assms(1,2)] staged_delivered [OF assms(1,2)]
  show ?thesis
    by blast
qed

lemma deliver_pending_live:
  assumes "live m" "model_counts m" "deliver_pending_stage stage_ready (m, c) = (r, m', c')"
  shows "(\<exists>e. r = Reject e \<and> broken m') \<or> (r = Accept \<and> delivered m m')"
proof (cases "m_delivery_pending m")
  case False
  with assms show ?thesis
    by (simp add: deliver_pending_stage_def delivered_def)
next
  case True
  obtain r1 m1 c1 where d: "deliver_stage stage_ready (m_observed m) (m, c) = (r1, m1, c1)"
    by (metis prod_cases3)
  have "undelivered m"
    using assms(2) True by (simp add: model_counts_def undelivered_def)
  note * = deliver_stage_live [OF assms(1) this d]
  show ?thesis
  proof (cases r1)
    case Accept
    with assms(3) d True have "r = Accept" "m' = m1\<lparr>m_delivery_pending := False\<rparr>"
      by (simp_all add: deliver_pending_stage_def)
    with * Accept show ?thesis by simp
  next
    case (Reject e)
    with assms(3) d True have "r = Reject e" "m' = m1"
      by (simp_all add: deliver_pending_stage_def)
    with * Reject show ?thesis by simp
  qed
qed

lemma model_finish_live:
  assumes "live m" "model_counts m" "1 \<le> m_observed m"
    "model_finish stage_ready (m, c) = (r, m', c')"
  shows "(\<exists>e. r = Reject e \<and> broken m') \<or>
    (r = Accept \<and> model_inv m' \<and> m_complete m' \<and> m_observed m' = m_observed m)"
proof -
  obtain r1 m1 c1 where d: "deliver_pending_stage stage_ready (m, c) = (r1, m1, c1)"
    by (metis prod_cases3)
  note * = deliver_pending_live [OF assms(1,2) d]
  show ?thesis
  proof (cases r1)
    case Accept
    with * have dl: "delivered m m1" by simp
    have m': "r = Accept" "m' = m1\<lparr>m_complete := True, m_transition := TRANSITION_TERMINAL,
        m_expected := EVENT_NONE, m_audit := (m_audit m1)\<lparr>
          ma_terminal_transition := ma_terminal_transition (m_audit m1) + 1,
          ma_complete := True\<rparr>\<rparr>"
      using assms(4) d Accept by (simp_all add: model_finish_def)
    have "model_static m'" "model_counts m'" "\<not> m_failed m'" "m_complete m'"
      "\<not> m_delivery_pending m'" "m_expected m' = EVENT_NONE" "m_observed m' = m_observed m"
      using delivered_fields [OF dl] unfolding m'(2) live_def model_static_def model_counts_def
      by simp_all
    with m'(1) assms(3) show ?thesis
      by (simp add: model_inv_def)
  next
    case (Reject e)
    with * assms(4) d show ?thesis
      by (auto simp: model_finish_def)
  qed
qed

lemma feed_primary_b0_inv:
  assumes "live m" "model_counts m" "model_position m" "m_expected m = PRIMARY_B0"
    "feed_primary_b0 stage_ready (m, c) = (r, m', c')"
  shows "model_inv m'"
proof -
  have pos: "\<not> m_delivery_pending m" "\<not> m_repeated_after_auxiliary m"
    "m_observed m < m_max_physical m"
    using assms(3,4) by (simp_all add: model_position_def pre_primary_def)
  let ?m1 = "observe_primary m"
  note op = observe_primary_live [OF assms(1,2) pos(1,3)]
  show ?thesis
  proof (cases "defers_delivery ?m1")
    case True
    then have "m' = expect COMMAND_34 (?m1\<lparr>m_delivery_pending := True\<rparr>)"
      using assms(5) pos(3) by (simp add: feed_primary_b0_def Let_def flip: not_le)
    with op pos(2) show ?thesis
      by (auto intro!: live_inv position_34 undelivered_pending simp del: observe_primary_fields(3,6))
  next
    case False
    obtain r2 m2 c2 where d: "deliver_stage stage_ready (m_observed ?m1) (?m1, c) = (r2, m2, c2)"
      by (metis prod_cases3)
    then have m': "m' = (case r2 of Reject e \<Rightarrow> m2 | Accept \<Rightarrow> expect COMMAND_34 m2)"
      using assms(5) pos(3) False
      by (cases r2) (auto simp: feed_primary_b0_def Let_def simp flip: not_le)
    have "model_inv (expect COMMAND_34 m2)"
      if dl: "delivered ?m1 (m2\<lparr>m_delivery_pending := False\<rparr>)"
        "m_delivery_pending m2 = m_delivery_pending ?m1"
    proof (rule live_inv)
      have eq: "m2\<lparr>m_delivery_pending := False\<rparr> = m2"
        using dl(2) pos(1) by simp
      show "live (expect COMMAND_34 m2)" "model_counts (expect COMMAND_34 m2)"
        using dl(1) unfolding eq by (simp_all add: delivered_def)
      show "model_position (expect COMMAND_34 m2)"
        using delivered_in_cycle [OF dl(1) op(3)] dl(1) pos(2) unfolding eq
        by (simp add: position_34 delivered_def)
    qed
    with m' deliver_stage_live [OF op(1,2) d] show ?thesis
      by (cases r2) (auto intro: broken_inv)
  qed
qed

lemma feed_ack_34_inv:
  assumes "live m" "model_counts m" "model_position m" "m_expected m = ACK_34"
    "feed_ack_34 stage_ready (m, c) = (r, m', c')"
  shows "model_inv m'"
proof -
  let ?t = "m_transition m = TRANSITION_FIRST_NAV \<or> m_repeated_after_auxiliary m"
  let ?d = "m_transition m \<noteq> TRANSITION_TERMINAL \<or> m_defer_terminal_until m"
  let ?m1 = "expect IRQ0200 m"
  have pos: "in_cycle m" "m_repeated_after_auxiliary m \<longrightarrow> m_transition m \<noteq> TRANSITION_FIRST_NAV"
    using assms(3,4) by (simp_all add: model_position_def pre_primary_def cycle_flags_def)
  consider "\<not> ?t" | "?t" "\<not> ?d" | "?t" "?d" by blast
  then show ?thesis
  proof cases
    case 1
    then have "m' = expect COMMAND_36 m"
      using assms(5) by (simp add: feed_ack_34_def)
    with 1 pos(1) show ?thesis
      by (simp add: plain_step_inv assms(1,2) model_position_def pre_primary_def cycle_flags_def)
  next
    case 2
    then have "m' = ?m1"
      using assms(5) by (simp add: feed_ack_34_def Let_def)
    with 2 pos show ?thesis
      by (simp add: plain_step_inv assms(1,2) model_position_def pre_primary_def cycle_flags_def)
  next
    case 3
    then have d: "deliver_pending_stage stage_ready (?m1, c) = (r, m', c')"
      using assms(5) by (simp add: feed_ack_34_def Let_def)
    have "model_inv m'" if dl: "delivered ?m1 m'"
    proof -
      note f = delivered_fields [OF dl]
      have "model_position m'"
        using delivered_in_cycle [OF dl] pos f(3,7,9,11)
        by (auto simp: model_position_def pre_primary_def cycle_flags_def)
      with f(1,2) show ?thesis by (rule live_inv)
    qed
    with deliver_pending_live [OF _ _ d] assms(1,2) show ?thesis
      by (auto intro: broken_inv)
  qed
qed

lemma feed_zero_mask_recovery_inv:
  assumes "live m" "model_counts m" "model_position m" "m_expected m = IRQ0100"
    "feed_zero_mask_recovery stage_ready (m, c) = (r, m', c')"
  shows "model_inv m'"
proof -
  have pos: "in_cycle m" "m_transition m \<noteq> TRANSITION_FIRST_NAV" "\<not> m_repeated_after_auxiliary m"
    using assms(3,4) by (simp_all add: model_position_def pre_primary_def cycle_flags_def)
  obtain r1 m1 c1 where d: "deliver_pending_stage stage_ready (m, c) = (r1, m1, c1)"
    by (metis prod_cases3)
  note dp = deliver_pending_live [OF assms(1,2) d]
  show ?thesis
  proof (cases "m_observed m < 2 \<or> \<not> m_delivery_pending m")
    case True
    with assms(5) have "model_fail m MODEL_ERROR_STATE = (r, m')"
      by (auto simp: feed_zero_mask_recovery_def Let_def split: prod.splits)
    then show ?thesis
      using model_fail_broken [OF assms(1)] broken_inv by blast
  next
    case False
    show ?thesis
    proof (cases r1)
      case (Reject e)
      with False assms(5) d pos(3) have "m' = m1"
        by (auto simp: feed_zero_mask_recovery_def Let_def simp flip: not_less)
      with dp Reject show ?thesis by (auto intro: broken_inv)
    next
      case Accept
      with dp have dl: "delivered m m1" by simp
      note f = delivered_fields [OF dl]
      have obs: "1 \<le> m_observed m1"
        using pos(1) f(4) by (simp add: in_cycle_def)
      show ?thesis
      proof (cases "m_transition m1 = TRANSITION_TERMINAL")
        case True
        then have "model_finish stage_ready (m1, c1) = (r, m', c')"
          using False Accept assms(5) d pos(3) by (auto simp: feed_zero_mask_recovery_def Let_def)
        from model_finish_live [OF f(1,2) obs this] show ?thesis
          by (auto intro: broken_inv)
      next
        case not_terminal: False
        then have "m' = expect COMMAND_32 m1"
          using False Accept assms(5) d pos(3) by (auto simp: feed_zero_mask_recovery_def Let_def)
        with not_terminal delivered_in_cycle [OF dl pos(1)] f(3) f(9) pos(3) show ?thesis
          by (simp add: plain_step_inv f(1,2) model_position_def pre_primary_def cycle_flags_def)
      qed
    qed
  qed
qed

lemma feed_irq0200_inv:
  assumes "live m" "model_counts m" "model_position m" "m_expected m = IRQ0200"
    "feed_irq0200 stage_ready (m, c) = (r, m', c')"
  shows "model_inv m'"
proof -
  have pos: "in_cycle m" "m_delivery_pending m \<longrightarrow> m_transition m = TRANSITION_TERMINAL"
    using assms(3,4) by (simp_all add: model_position_def pre_primary_def cycle_flags_def)
  define m1 where "m1 = m\<lparr>m_repeated_after_auxiliary := False\<rparr>"
  have m1: "m_expected m1 = IRQ0200" "m_transition m1 = m_transition m"
    "m_observed m1 = m_observed m" "m_delivery_pending m1 = m_delivery_pending m"
    "\<not> m_repeated_after_auxiliary m1"
    by (simp_all add: m1_def assms(4))
  have keep: "live m1" "model_counts m1" "in_cycle m1"
    using assms(1,2) pos(1) unfolding m1_def live_def model_static_def model_counts_def in_cycle_def
    by simp_all
  consider "m_transition m = TRANSITION_FIRST_NAV" | "m_transition m = TRANSITION_TERMINAL"
    | "m_transition m \<noteq> TRANSITION_FIRST_NAV" "m_transition m \<noteq> TRANSITION_TERMINAL" by blast
  then show ?thesis
  proof cases
    case 1
    then have "m' = expect COMMAND_20 m1"
      using assms(5) by (simp add: feed_irq0200_def Let_def m1_def)
    with 1 m1 keep pos show ?thesis
      by (simp add: plain_step_inv model_position_def pre_primary_def cycle_flags_def)
  next
    case 2
    have obs: "1 \<le> m_observed m1"
      using keep(3) by (simp add: in_cycle_def)
    from 2 have "model_finish stage_ready (m1, c) = (r, m', c')"
      using assms(5) by (simp add: feed_irq0200_def Let_def m1_def)
    from model_finish_live [OF keep(1,2) obs this] show ?thesis
      by (auto intro: broken_inv)
  next
    case 3
    then have "m' = expect COMMAND_32 m1"
      using assms(5) by (simp add: feed_irq0200_def Let_def m1_def)
    with 3 m1 keep pos show ?thesis
      by (simp add: plain_step_inv model_position_def pre_primary_def cycle_flags_def)
  qed
qed

end

lemma feed_auxiliary_inv:
  assumes "live m" "model_counts m" "model_position m" "m_expected m = AUXILIARY_B0"
  shows "model_inv (feed_auxiliary_b0 m)"
proof -
  have pos: "in_cycle m" "m_transition m = TRANSITION_FIRST_NAV \<longrightarrow> \<not> m_delivery_pending m"
    "\<not> m_repeated_after_auxiliary m"
    using assms(3,4) by (simp_all add: model_position_def pre_primary_def cycle_flags_def)
  define m1 where
    "m1 = m\<lparr>m_audit := (m_audit m)\<lparr>ma_auxiliary_b0 := ma_auxiliary_b0 (m_audit m) + 1\<rparr>\<rparr>"
  have m1: "m_transition m1 = m_transition m" "m_delivery_pending m1 = m_delivery_pending m"
    "m_repeated_after_auxiliary m1 = m_repeated_after_auxiliary m"
    by (simp_all add: m1_def)
  have keep: "live m1" "model_counts m1" "in_cycle m1"
    using assms(1,2) pos(1) unfolding m1_def live_def model_static_def model_counts_def in_cycle_def
    by simp_all
  show ?thesis
  proof (cases "m_transition m = TRANSITION_FIRST_NAV")
    case True
    then have "feed_auxiliary_b0 m = expect COMMAND_32 m1"
      by (simp add: feed_auxiliary_b0_def Let_def m1_def)
    with True m1 keep pos show ?thesis
      by (simp add: plain_step_inv model_position_def pre_primary_def cycle_flags_def)
  next
    case False
    define m2 where "m2 = m1\<lparr>m_repeated_after_auxiliary := True\<rparr>"
    have "live m2" "model_counts m2" "in_cycle m2" "m_transition m2 = m_transition m"
      using keep m1 unfolding m2_def live_def model_static_def model_counts_def in_cycle_def
      by simp_all
    moreover from False have "feed_auxiliary_b0 m = expect COMMAND_34 m2"
      by (simp add: feed_auxiliary_b0_def Let_def m1_def m2_def)
    ultimately show ?thesis
      using False by (simp add: plain_step_inv model_position_def pre_primary_def cycle_flags_def)
  qed
qed


lemma feed_ack_32_inv:
  assumes "live m" "model_counts m" "model_position m" "m_expected m = ACK_32"
  shows "model_inv (feed_ack_32 m)"
proof (cases "m_transition m = TRANSITION_FIRST_NAV \<and> \<not> m_first_nav_seen m")
  case True
  then show ?thesis
    using assms by (simp add: feed_ack_32_def plain_step_inv model_position_def pre_primary_def
        cycle_flags_def)
next
  case False
  then obtain a where m': "feed_ack_32 m = expect IRQ2 (m\<lparr>m_audit := a\<rparr>)"
    and a: "ma_observed_primary a = ma_observed_primary (m_audit m)"
      "ma_primary_b0 a = ma_primary_b0 (m_audit m)" "ma_failed a = ma_failed (m_audit m)"
      "ma_completed a = ma_completed (m_audit m)" "ma_stage_report a = ma_stage_report (m_audit m)"
      "ma_retry_stage a = ma_retry_stage (m_audit m)"
    by (cases "m_transition m = TRANSITION_FIRST_NAV") (simp_all add: feed_ack_32_def Let_def)
  have "live (m\<lparr>m_audit := a\<rparr>)" "model_counts (m\<lparr>m_audit := a\<rparr>)"
    using assms(1,2) a unfolding live_def model_static_def model_counts_def by simp_all
  moreover have "m_observed m < m_max_physical m" "\<not> m_delivery_pending m"
    "\<not> m_repeated_after_auxiliary m"
    using assms(3,4)
    by (simp_all add: model_position_def pre_primary_def cycle_flags_def in_cycle_def) auto
  ultimately show ?thesis
    unfolding m' by (simp add: plain_step_inv model_position_def pre_primary_def)
qed

lemma live_transition_none:
  "live m \<Longrightarrow> live (m\<lparr>m_transition := t\<rparr>)" "live m \<Longrightarrow> live (m\<lparr>m_first_nav_seen := b\<rparr>)"
  "model_counts m \<Longrightarrow> model_counts (m\<lparr>m_transition := t\<rparr>)"
  "model_counts m \<Longrightarrow> model_counts (m\<lparr>m_first_nav_seen := b\<rparr>)"
  by (simp_all add: live_def model_static_def model_counts_def)

lemma plain_positions:
  assumes "model_position m"
  shows "m_expected m = IRQ2 \<Longrightarrow> model_position (expect COMMAND_22 (m\<lparr>m_transition := t\<rparr>))"
    "m_expected m = COMMAND_22 \<Longrightarrow> model_position (expect ACK_22 m)"
    "m_expected m = ACK_22 \<Longrightarrow> model_position (expect PRIMARY_B0 m)"
    "m_expected m = COMMAND_34 \<Longrightarrow> model_position (expect ACK_34 m)"
    "m_expected m = COMMAND_36 \<Longrightarrow> model_position (expect ACK_36 m)"
    "m_expected m = ACK_36 \<Longrightarrow> model_position (expect IRQ0100 m)"
    "m_expected m = IRQ0100 \<Longrightarrow> model_position (expect COMMAND_20 m)"
    "m_expected m = COMMAND_20 \<Longrightarrow> model_position (expect ACK_20 m)"
    "m_expected m = ACK_20 \<Longrightarrow> model_position (expect AUXILIARY_B0 m)"
    "m_expected m = COMMAND_32 \<Longrightarrow> model_position (expect ACK_32 m)"
    "m_expected m = COMMAND_50 \<Longrightarrow> model_position (expect ACK_50 m)"
    "m_expected m = ACK_50 \<Longrightarrow> model_position (expect NAV m)"
    "m_expected m = NAV \<Longrightarrow> model_position (expect COMMAND_32 (m\<lparr>m_first_nav_seen := b\<rparr>))"
  using assms
  by (simp_all add: model_position_def pre_primary_def cycle_flags_def in_cycle_def) auto

lemma model_inv_live:
  assumes "model_inv m" "\<not> m_complete m" "\<not> m_failed m"
  shows "live m" "model_counts m" "model_position m"
  using assms by (simp_all add: model_inv_def live_def)

lemma feed_terminal:
  "m_complete m \<or> m_failed m \<Longrightarrow>
     enrollment_model_feed sr e (m, c) = (Reject (Model_Error MODEL_ERROR_STATE), m, c)"
  by (auto simp: enrollment_model_feed_def)

lemma feed_unexpected:
  assumes "\<not> m_complete m" "\<not> m_failed m"
    "e \<noteq> m_expected m \<and> \<not> (e = ZERO_MASK_RECOVERY \<and> m_expected m = IRQ0100)"
  shows "enrollment_model_feed sr e (m, c) =
     (Reject (Model_Error MODEL_ERROR_PROTOCOL), snd (model_fail m MODEL_ERROR_PROTOCOL), c)"
  using assms by (auto simp: enrollment_model_feed_def model_fail_def)

context stage_callback
begin

lemma feed_inv:
  assumes inv: "model_inv m" and feed: "enrollment_model_feed stage_ready e (m, c) = (r, m', c')"
  shows "model_inv m'"
proof (cases "m_complete m \<or> m_failed m")
  case True
  with feed inv show ?thesis by (simp add: feed_terminal)
next
  case False
  then have alive: "\<not> m_complete m" "\<not> m_failed m" by simp_all
  note live = model_inv_live [OF inv alive]
  show ?thesis
  proof (cases "e \<noteq> m_expected m \<and> \<not> (e = ZERO_MASK_RECOVERY \<and> m_expected m = IRQ0100)")
    case True
    from feed have "m' = snd (model_fail m MODEL_ERROR_PROTOCOL)"
      unfolding feed_unexpected [OF alive True] by simp
    then show ?thesis
      using model_fail_broken [OF live(1)] broken_inv by (metis prod.collapse)
  next
    case expected: False
    have ev: "e = m_expected m \<or> e = ZERO_MASK_RECOVERY \<and> m_expected m = IRQ0100"
      using expected by blast
    have pos: "m_expected m \<noteq> EVENT_NONE" "m_expected m \<noteq> ZERO_MASK_RECOVERY"
      using live(3) by (simp_all add: model_position_def)
    from ev pos feed show ?thesis
      unfolding enrollment_model_feed_def Let_def prod.case
      using alive
      by (cases e)
         (auto simp: plain_step_inv live live_transition_none plain_positions
           intro: feed_primary_b0_inv [OF live] feed_ack_34_inv [OF live]
             feed_zero_mask_recovery_inv [OF live] feed_irq0200_inv [OF live]
             feed_auxiliary_inv [OF live] feed_ack_32_inv [OF live])
  qed
qed

end

text \<open>A complete or failed model refuses every event and never changes again.\<close>

interpretation model_terminal: absorbing_machine
    "enrollment_model_feed sr" "\<lambda>mc. m_complete (fst mc) \<or> m_failed (fst mc)" for sr
  by unfold_locales (auto simp: feed_terminal)

end
