(* ===== verification/Enrollment_Protocol.thy ===== *)
theory Enrollment_Protocol
  imports Enrollment_Model
begin

text \<open>
  The abstract contact protocol behind \<^verbatim>\<open>goodix_enrollment_model.c\<close>: which event may follow
  which, with the counters, audits, callbacks and delivery policy forgotten. Every accepted
  feed of the model is a step of this relation (refinement), and every step uses up work,
  so a session accepts a bounded number of events.
\<close>

record protocol =
  p_event :: enrollment_event
  p_transition :: enrollment_transition
  p_contacts :: nat
  p_after_aux :: bool
  p_nav :: bool

definition protocol_of :: "enrollment_model \<Rightarrow> protocol" where
  "protocol_of m = \<lparr>p_event = m_expected m, p_transition = m_transition m,
     p_contacts = unat (m_observed m), p_after_aux = m_repeated_after_auxiliary m,
     p_nav = m_first_nav_seen m\<rparr>"

definition protocol_start :: protocol where
  "protocol_start = \<lparr>p_event = IRQ2, p_transition = TRANSITION_NONE, p_contacts = 0,
     p_after_aux = False, p_nav = False\<rparr>"

text \<open>Events with a single successor that touches nothing else.\<close>

fun plain_next :: "enrollment_event \<Rightarrow> enrollment_event option" where
  "plain_next COMMAND_22 = Some ACK_22"
| "plain_next ACK_22 = Some PRIMARY_B0"
| "plain_next COMMAND_34 = Some ACK_34"
| "plain_next COMMAND_36 = Some ACK_36"
| "plain_next ACK_36 = Some IRQ0100"
| "plain_next IRQ0100 = Some COMMAND_20"
| "plain_next COMMAND_20 = Some ACK_20"
| "plain_next ACK_20 = Some AUXILIARY_B0"
| "plain_next COMMAND_32 = Some ACK_32"
| "plain_next COMMAND_50 = Some ACK_50"
| "plain_next ACK_50 = Some NAV"
| "plain_next _ = None"

definition contact_transition :: "nat \<Rightarrow> nat \<Rightarrow> enrollment_transition" where
  "contact_transition limit k =
     (if k = 1 then TRANSITION_FIRST_NAV else if k = limit then TRANSITION_TERMINAL
      else TRANSITION_REPEATED_REARM)"

text \<open>A stage delivery may end the session early: it keeps the transition or makes it terminal.\<close>

abbreviation delivers_to :: "enrollment_transition \<Rightarrow> enrollment_transition \<Rightarrow> bool" where
  "delivers_to t t' \<equiv> t' = t \<or> t' = TRANSITION_TERMINAL"

inductive protocol_step :: "nat \<Rightarrow> protocol \<Rightarrow> enrollment_event \<Rightarrow> protocol \<Rightarrow> bool"
  for limit :: nat where
  step_plain: "plain_next (p_event p) = Some e \<Longrightarrow> protocol_step limit p (p_event p) (p\<lparr>p_event := e\<rparr>)"
| step_irq2: "p_event p = IRQ2 \<Longrightarrow>
    protocol_step limit p IRQ2 (p\<lparr>p_event := COMMAND_22, p_transition := TRANSITION_NONE\<rparr>)"
| step_primary: "p_event p = PRIMARY_B0 \<Longrightarrow> p_contacts p < limit \<Longrightarrow>
    delivers_to (contact_transition limit (p_contacts p + 1)) t \<Longrightarrow>
    protocol_step limit p PRIMARY_B0
      (p\<lparr>p_event := COMMAND_34, p_transition := t, p_contacts := p_contacts p + 1\<rparr>)"
| step_release: "p_event p = ACK_34 \<Longrightarrow>
    p_transition p = TRANSITION_FIRST_NAV \<longleftrightarrow> \<not> p_after_aux p \<Longrightarrow>
    delivers_to (p_transition p) t \<Longrightarrow>
    protocol_step limit p ACK_34 (p\<lparr>p_event := IRQ0200, p_transition := t\<rparr>)"
| step_probe: "p_event p = ACK_34 \<Longrightarrow> p_transition p \<noteq> TRANSITION_FIRST_NAV \<Longrightarrow> \<not> p_after_aux p \<Longrightarrow>
    protocol_step limit p ACK_34 (p\<lparr>p_event := COMMAND_36\<rparr>)"
| step_zero_mask: "p_event p = IRQ0100 \<Longrightarrow> 2 \<le> p_contacts p \<Longrightarrow> \<not> p_after_aux p \<Longrightarrow>
    delivers_to (p_transition p) t \<Longrightarrow>
    protocol_step limit p ZERO_MASK_RECOVERY
      (p\<lparr>p_event := (if t = TRANSITION_TERMINAL then EVENT_NONE else COMMAND_32),
         p_transition := t\<rparr>)"
| step_auxiliary_first: "p_event p = AUXILIARY_B0 \<Longrightarrow> p_transition p = TRANSITION_FIRST_NAV \<Longrightarrow>
    protocol_step limit p AUXILIARY_B0 (p\<lparr>p_event := COMMAND_32\<rparr>)"
| step_auxiliary_repeated: "p_event p = AUXILIARY_B0 \<Longrightarrow> p_transition p \<noteq> TRANSITION_FIRST_NAV \<Longrightarrow>
    protocol_step limit p AUXILIARY_B0 (p\<lparr>p_event := COMMAND_34, p_after_aux := True\<rparr>)"
| step_released_first: "p_event p = IRQ0200 \<Longrightarrow> p_transition p = TRANSITION_FIRST_NAV \<Longrightarrow>
    protocol_step limit p IRQ0200 (p\<lparr>p_event := COMMAND_20, p_after_aux := False\<rparr>)"
| step_released_rearm: "p_event p = IRQ0200 \<Longrightarrow> p_transition p = TRANSITION_REPEATED_REARM \<Longrightarrow>
    protocol_step limit p IRQ0200 (p\<lparr>p_event := COMMAND_32, p_after_aux := False\<rparr>)"
| step_released_end: "p_event p = IRQ0200 \<Longrightarrow> p_transition p = TRANSITION_TERMINAL \<Longrightarrow>
    protocol_step limit p IRQ0200 (p\<lparr>p_event := EVENT_NONE, p_after_aux := False\<rparr>)"
| step_navigate: "p_event p = ACK_32 \<Longrightarrow> p_transition p = TRANSITION_FIRST_NAV \<Longrightarrow> \<not> p_nav p \<Longrightarrow>
    protocol_step limit p ACK_32 (p\<lparr>p_event := COMMAND_50\<rparr>)"
| step_navigated: "p_event p = NAV \<Longrightarrow>
    protocol_step limit p NAV (p\<lparr>p_event := COMMAND_32, p_nav := True\<rparr>)"
| step_rearmed: "p_event p = ACK_32 \<Longrightarrow> p_transition p = TRANSITION_FIRST_NAV \<longrightarrow> p_nav p \<Longrightarrow>
    p_contacts p < limit \<Longrightarrow>
    protocol_step limit p ACK_32 (p\<lparr>p_event := IRQ2\<rparr>)"

section \<open>Every step uses up work\<close>

text \<open>Events still to come in the current contact, the expected one included, at most.\<close>

definition event_rank :: "protocol \<Rightarrow> nat" where
  "event_rank p =
     (let first = (p_transition p = TRANSITION_FIRST_NAV) in
      case p_event p of
        IRQ2 \<Rightarrow> 17 | COMMAND_22 \<Rightarrow> 16 | ACK_22 \<Rightarrow> 15 | PRIMARY_B0 \<Rightarrow> 14
      | COMMAND_34 \<Rightarrow> if p_after_aux p then 5 else 13
      | ACK_34 \<Rightarrow> if p_after_aux p then 4 else 12
      | COMMAND_36 \<Rightarrow> if first then 13 else 11
      | ACK_36 \<Rightarrow> if first then 12 else 10
      | IRQ0100 \<Rightarrow> if first then 11 else 9
      | IRQ0200 \<Rightarrow> if first then 11 else 3
      | COMMAND_20 \<Rightarrow> if first then 10 else 8
      | ACK_20 \<Rightarrow> if first then 9 else 7
      | AUXILIARY_B0 \<Rightarrow> if first then 8 else 6
      | COMMAND_32 \<Rightarrow> if first \<and> \<not> p_nav p then 7 else 2
      | ACK_32 \<Rightarrow> if first \<and> \<not> p_nav p then 6 else 1
      | COMMAND_50 \<Rightarrow> 5 | ACK_50 \<Rightarrow> 4 | NAV \<Rightarrow> 3
      | EVENT_NONE \<Rightarrow> 0 | ZERO_MASK_RECOVERY \<Rightarrow> 0)"

definition protocol_work :: "nat \<Rightarrow> protocol \<Rightarrow> nat" where
  "protocol_work limit p =
     (if p_event p = EVENT_NONE then 0
      else 17 * (limit - p_contacts p - of_bool (pre_primary (p_event p))) + event_rank p)"

lemma plain_next_cases:
  "plain_next e = Some e' \<longleftrightarrow>
     (e, e') \<in> {(COMMAND_22, ACK_22), (ACK_22, PRIMARY_B0), (COMMAND_34, ACK_34),
       (COMMAND_36, ACK_36), (ACK_36, IRQ0100), (IRQ0100, COMMAND_20), (COMMAND_20, ACK_20),
       (ACK_20, AUXILIARY_B0), (COMMAND_32, ACK_32), (COMMAND_50, ACK_50), (ACK_50, NAV)}"
  by (cases e) auto

lemma protocol_step_work:
  "protocol_step limit p e q \<Longrightarrow> protocol_work limit q < protocol_work limit p"
proof (induction rule: protocol_step.induct)
  case (step_plain p e)
  then show ?case
    unfolding plain_next_cases
    by (simp only: insert_iff empty_iff prod.inject simp_thms)
       (elim disjE conjE; simp add: protocol_work_def event_rank_def pre_primary_def Let_def)
next
  case (step_rearmed p)
  then have "17 * (limit - p_contacts p - 1) + 17 = 17 * (limit - p_contacts p)"
    by simp
  with step_rearmed show ?case
    by (simp add: protocol_work_def event_rank_def pre_primary_def Let_def)
qed (simp_all add: protocol_work_def event_rank_def pre_primary_def Let_def, auto)

text \<open>The same when the session is to end at an earlier contact than the last one allowed.\<close>

lemma protocol_step_work_below:
  "protocol_step limit p e q \<Longrightarrow> p_contacts q \<le> k \<Longrightarrow> pre_primary (p_event q) \<longrightarrow> p_contacts q < k \<Longrightarrow>
     protocol_work k q < protocol_work k p"
proof (induction rule: protocol_step.induct)
  case (step_plain p e)
  then show ?case
    unfolding plain_next_cases
    by (simp only: insert_iff empty_iff prod.inject simp_thms)
       (elim disjE conjE; simp add: protocol_work_def event_rank_def pre_primary_def Let_def)
next
  case (step_rearmed p)
  then have "p_contacts p < k" by (simp add: pre_primary_def)
  then have "17 * (k - p_contacts p - 1) + 17 = 17 * (k - p_contacts p)"
    by simp
  with step_rearmed show ?case
    by (simp add: protocol_work_def event_rank_def pre_primary_def Let_def)
qed (simp_all add: protocol_work_def event_rank_def pre_primary_def Let_def, auto)

text \<open>The relation is deterministic up to the early end of a session.\<close>

lemma protocol_step_event:
  "protocol_step limit p e q \<Longrightarrow> e = p_event p \<or> (e = ZERO_MASK_RECOVERY \<and> p_event p = IRQ0100)"
  by (induction rule: protocol_step.induct) auto

lemma protocol_step_contacts:
  "protocol_step limit p e q \<Longrightarrow> p_contacts q = p_contacts p + of_bool (e = PRIMARY_B0)"
  by (induction rule: protocol_step.induct) (auto simp: plain_next_cases)


section \<open>The model refines the protocol\<close>

lemma protocol_of_expect [simp]: "protocol_of (expect e m) = (protocol_of m)\<lparr>p_event := e\<rparr>"
  by (simp add: protocol_of_def)

lemma protocol_of_fields [simp]:
  "p_event (protocol_of m) = m_expected m" "p_transition (protocol_of m) = m_transition m"
  "p_contacts (protocol_of m) = unat (m_observed m)"
  "p_after_aux (protocol_of m) = m_repeated_after_auxiliary m"
  "p_nav (protocol_of m) = m_first_nav_seen m"
  by (simp_all add: protocol_of_def)

lemma protocol_of_pending [simp]:
  "protocol_of (m\<lparr>m_delivery_pending := b\<rparr>) = protocol_of m"
  by (simp add: protocol_of_def)

lemma protocol_of_delivered:
  assumes "delivered m m'"
  obtains t where "delivers_to (m_transition m) t" "m_transition m' = t"
    "protocol_of m' = (protocol_of m)\<lparr>p_transition := t\<rparr>"
  using delivered_fields [OF assms] by (simp add: protocol_of_def)

lemma protocol_of_observe:
  assumes "m_observed m < m_max_physical m"
  shows "protocol_of (observe_primary m) = (protocol_of m)
    \<lparr>p_transition := contact_transition (unat (m_max_physical m)) (unat (m_observed m) + 1),
     p_contacts := unat (m_observed m) + 1\<rparr>"
proof -
  note Suc = u32_Suc_le(1) [OF assms]
  have "m_observed m + 1 = 1 \<longleftrightarrow> unat (m_observed m) + 1 = 1"
    "m_observed m + 1 = m_max_physical m \<longleftrightarrow> unat (m_observed m) + 1 = unat (m_max_physical m)"
    unfolding word_unat_eq_iff [where 'a = 32] Suc by simp_all
  then show ?thesis
    by (simp only: protocol_of_def observe_primary_fields contact_transition_def Suc) simp
qed

definition limits :: "enrollment_model \<Rightarrow> u32 \<times> u32 \<times> bool \<times> bool \<times> bool" where
  "limits m = (m_max_physical m, m_required m, m_defer_terminal m, m_defer_terminal_until m,
     m_defer_intermediate_until m)"

lemma limits_simps [simp]:
  "limits (expect e m) = limits m"
  "limits (observe_primary m) = limits m"
  "limits (m\<lparr>m_delivery_pending := b\<rparr>) = limits m"
  "limits (m\<lparr>m_repeated_after_auxiliary := b\<rparr>) = limits m"
  "limits (m\<lparr>m_first_nav_seen := b\<rparr>) = limits m"
  "limits (m\<lparr>m_transition := t\<rparr>) = limits m"
  "limits (m\<lparr>m_failed := b\<rparr>) = limits m"
  "limits (m\<lparr>m_expected := e\<rparr>) = limits m"
  "limits (m\<lparr>m_audit := a\<rparr>) = limits m"
  "limits (snd (model_fail m code)) = limits m"
  "limits (feed_auxiliary_b0 m) = limits m"
  "limits (feed_ack_32 m) = limits m"
  by (simp_all add: limits_def model_fail_def feed_auxiliary_b0_def feed_ack_32_def Let_def)

context stage_callback
begin

lemma feed_primary_step:
  assumes "live m" "model_counts m" "model_position m" "m_expected m = PRIMARY_B0"
    "feed_primary_b0 stage_ready (m, c) = (Accept, m', c')"
  shows "protocol_step (unat (m_max_physical m)) (protocol_of m) PRIMARY_B0 (protocol_of m')"
proof -
  have pos: "\<not> m_delivery_pending m" "m_observed m < m_max_physical m"
    using assms(3,4) by (simp_all add: model_position_def pre_primary_def)
  let ?m1 = "observe_primary m"
  note op = observe_primary_live [OF assms(1,2) pos]
  note obs = protocol_of_observe [OF pos(2)]
  have room: "unat (m_observed m) < unat (m_max_physical m)"
    using pos(2) by (simp add: word_less_nat_alt)
  have step: "protocol_step (unat (m_max_physical m)) (protocol_of m) PRIMARY_B0
      ((protocol_of ?m1)\<lparr>p_event := COMMAND_34, p_transition := t\<rparr>)"
    if "delivers_to (p_transition (protocol_of ?m1)) t" for t
    using step_primary [of "protocol_of m" "unat (m_max_physical m)" t] that assms(4) room
    unfolding obs by (simp add: protocol_of_def)
  show ?thesis
  proof (cases "defers_delivery ?m1")
    case True
    then have "m' = expect COMMAND_34 (?m1\<lparr>m_delivery_pending := True\<rparr>)"
      using assms(5) pos(2) by (simp add: feed_primary_b0_def Let_def flip: not_le)
    then have "protocol_of m' =
        (protocol_of ?m1)\<lparr>p_event := COMMAND_34, p_transition := p_transition (protocol_of ?m1)\<rparr>"
      by (simp del: observe_primary_fields add: protocol_of_def)
    with step [OF disjI1 [OF refl]] show ?thesis
      by simp
  next
    case False
    obtain r2 m2 c2 where d: "deliver_stage stage_ready (m_observed ?m1) (?m1, c) = (r2, m2, c2)"
      by (metis prod_cases3)
    then have r2: "r2 = Accept" and m': "m' = expect COMMAND_34 m2"
      using assms(5) pos(2) False
      by (cases r2; auto simp: feed_primary_b0_def Let_def simp flip: not_le)+
    from deliver_stage_live [OF op(1,2) d] r2
    have "delivered ?m1 (m2\<lparr>m_delivery_pending := False\<rparr>)" by simp
    then obtain t where t: "delivers_to (m_transition ?m1) t"
      "protocol_of m2 = (protocol_of ?m1)\<lparr>p_transition := t\<rparr>"
      by (rule protocol_of_delivered) simp
    then have "protocol_of m' = (protocol_of ?m1)\<lparr>p_event := COMMAND_34, p_transition := t\<rparr>"
      unfolding m' by (cases "protocol_of ?m1") (simp del: observe_primary_fields)
    with step [of t] t(1) show ?thesis
      by simp
  qed
qed

lemma feed_ack_34_step:
  assumes "live m" "model_counts m" "model_position m" "m_expected m = ACK_34"
    "feed_ack_34 stage_ready (m, c) = (Accept, m', c')"
  shows "protocol_step (unat (m_max_physical m)) (protocol_of m) ACK_34 (protocol_of m')"
proof -
  let ?t = "m_transition m = TRANSITION_FIRST_NAV \<or> m_repeated_after_auxiliary m"
  let ?d = "m_transition m \<noteq> TRANSITION_TERMINAL \<or> m_defer_terminal_until m"
  have excl: "m_repeated_after_auxiliary m \<longrightarrow> m_transition m \<noteq> TRANSITION_FIRST_NAV"
    using assms(3,4) by (simp add: model_position_def pre_primary_def cycle_flags_def)
  consider "\<not> ?t" | "?t" "\<not> ?d" | "?t" "?d" by blast
  then show ?thesis
  proof cases
    case 1
    then have "m' = expect COMMAND_36 m"
      using assms(5) by (simp add: feed_ack_34_def)
    with 1 assms(4) show ?thesis by (simp add: step_probe)
  next
    case 2
    then have "m' = expect IRQ0200 m"
      using assms(5) by (simp add: feed_ack_34_def Let_def)
    with 2 excl assms(4) step_release [of "protocol_of m" "m_transition m"] show ?thesis
      by (auto simp: protocol_of_def)
  next
    case 3
    then have d: "deliver_pending_stage stage_ready (expect IRQ0200 m, c) = (Accept, m', c')"
      using assms(5) by (simp add: feed_ack_34_def Let_def)
    from deliver_pending_live [OF _ _ d] assms(1,2)
    have "delivered (expect IRQ0200 m) m'" by simp
    then obtain t where "delivers_to (m_transition m) t"
      "protocol_of m' = (protocol_of (expect IRQ0200 m))\<lparr>p_transition := t\<rparr>"
      by (rule protocol_of_delivered) simp
    with 3 excl assms(4) step_release [of "protocol_of m" t] show ?thesis
      by auto
  qed
qed

lemma model_finish_protocol:
  assumes "live m" "model_counts m" "model_finish stage_ready (m, c) = (Accept, m', c')"
  shows "protocol_of m' = (protocol_of m)\<lparr>p_event := EVENT_NONE, p_transition := TRANSITION_TERMINAL\<rparr>"
proof -
  obtain r1 m1 c1 where d: "deliver_pending_stage stage_ready (m, c) = (r1, m1, c1)"
    by (metis prod_cases3)
  have r1: "r1 = Accept"
    using assms(3) d by (cases r1) (simp_all add: model_finish_def)
  with deliver_pending_live [OF assms(1,2) d] have "delivered m m1" by simp
  note f = delivered_fields [OF this]
  show ?thesis
    using assms(3) d r1 f(4,8,9) by (auto simp: model_finish_def protocol_of_def)
qed

lemma feed_zero_mask_step:
  assumes "live m" "model_counts m" "model_position m" "m_expected m = IRQ0100"
    "feed_zero_mask_recovery stage_ready (m, c) = (Accept, m', c')"
  shows "protocol_step (unat (m_max_physical m)) (protocol_of m) ZERO_MASK_RECOVERY (protocol_of m')"
proof -
  have guard: "\<not> (m_observed m < 2 \<or> \<not> m_delivery_pending m \<or> m_repeated_after_auxiliary m)"
  proof -
    have "fst (feed_zero_mask_recovery stage_ready (m, c)) \<noteq> Accept"
      if "m_observed m < 2 \<or> \<not> m_delivery_pending m \<or> m_repeated_after_auxiliary m"
      using that unfolding feed_zero_mask_recovery_def model_fail_def Let_def prod.case
      by (simp only: if_True) simp
    with assms(5) show ?thesis by auto
  qed
  then have two: "2 \<le> unat (m_observed m)" and fresh: "\<not> m_repeated_after_auxiliary m"
    by (simp_all add: word_le_nat_alt not_less)
  obtain r1 m1 c1 where d: "deliver_pending_stage stage_ready (m, c) = (r1, m1, c1)"
    by (metis prod_cases3)
  have r1: "r1 = Accept"
    using assms(5) d guard by (cases r1) (auto simp: feed_zero_mask_recovery_def Let_def)
  with deliver_pending_live [OF assms(1,2) d] have dl: "delivered m m1" by simp
  from dl obtain t where t: "delivers_to (m_transition m) t" "m_transition m1 = t"
    "protocol_of m1 = (protocol_of m)\<lparr>p_transition := t\<rparr>"
    by (rule protocol_of_delivered)
  have "protocol_of m' = (protocol_of m)\<lparr>p_event := (if t = TRANSITION_TERMINAL then EVENT_NONE
      else COMMAND_32), p_transition := t\<rparr>"
  proof (cases "t = TRANSITION_TERMINAL")
    case True
    then have "model_finish stage_ready (m1, c1) = (Accept, m', c')"
      using assms(5) d r1 guard t(2) by (auto simp: feed_zero_mask_recovery_def Let_def)
    from model_finish_protocol [OF _ _ this] delivered_fields(1,2) [OF dl] t(3) True
    show ?thesis by simp
  next
    case False
    then have "m' = expect COMMAND_32 m1"
      using assms(5) d r1 guard t(2) by (auto simp: feed_zero_mask_recovery_def Let_def)
    with False t(3) show ?thesis by simp
  qed
  with step_zero_mask [of "protocol_of m" t] assms(4) two fresh t(1) show ?thesis
    by simp
qed

lemma feed_irq0200_step:
  assumes "live m" "model_counts m" "model_position m" "m_expected m = IRQ0200"
    "feed_irq0200 stage_ready (m, c) = (Accept, m', c')"
  shows "protocol_step (unat (m_max_physical m)) (protocol_of m) IRQ0200 (protocol_of m')"
proof -
  define m1 where "m1 = m\<lparr>m_repeated_after_auxiliary := False\<rparr>"
  have keep: "live m1" "model_counts m1"
    using assms(1,2) unfolding m1_def live_def model_static_def model_counts_def by simp_all
  have p1: "protocol_of m1 = (protocol_of m)\<lparr>p_after_aux := False\<rparr>"
    by (simp add: m1_def protocol_of_def)
  have "m_transition m \<noteq> TRANSITION_NONE"
    using assms(3,4) by (simp add: model_position_def pre_primary_def in_cycle_def)
  then consider "m_transition m = TRANSITION_FIRST_NAV" | "m_transition m = TRANSITION_TERMINAL"
    | "m_transition m = TRANSITION_REPEATED_REARM" by (cases "m_transition m") auto
  then show ?thesis
  proof cases
    case 1
    then have "m' = expect COMMAND_20 m1"
      using assms(5) by (simp add: feed_irq0200_def Let_def m1_def)
    with 1 assms(4) p1 step_released_first [of "protocol_of m"] show ?thesis
      by (simp add: protocol_of_def)
  next
    case 2
    then have "model_finish stage_ready (m1, c) = (Accept, m', c')"
      using assms(5) by (simp add: feed_irq0200_def Let_def m1_def)
    from model_finish_protocol [OF keep this] 2 assms(4) p1
      step_released_end [of "protocol_of m"] show ?thesis
      by (simp add: protocol_of_def)
  next
    case 3
    then have "m' = expect COMMAND_32 m1"
      using assms(5) by (simp add: feed_irq0200_def Let_def m1_def)
    with 3 assms(4) p1 step_released_rearm [of "protocol_of m"] show ?thesis
      by (simp add: protocol_of_def)
  qed
qed


text \<open>The configuration never changes.\<close>

lemma limits_deliver_stage:
  assumes "deliver_stage stage_ready i (m, c) = (r, m', c')"
  shows "limits m' = limits m"
proof (cases r)
  case Accept
  with deliver_stage_accepted [of i m c m' c'] assms show ?thesis
    by (auto simp: retried_def staged_def limits_def)
next
  case (Reject e)
  with deliver_stage_refused [of i m c e m' c'] assms show ?thesis
    by (simp add: limits_def)
qed

lemma limits_deliver_pending:
  assumes "deliver_pending_stage stage_ready (m, c) = (r, m', c')"
  shows "limits m' = limits m"
proof -
  obtain r1 m1 c1 where d: "deliver_stage stage_ready (m_observed m) (m, c) = (r1, m1, c1)"
    by (metis prod_cases3)
  with assms show ?thesis
    using limits_deliver_stage [OF d]
    by (cases r1; cases "m_delivery_pending m") (auto simp: deliver_pending_stage_def)
qed

lemma limits_model_finish:
  assumes "model_finish stage_ready (m, c) = (r, m', c')"
  shows "limits m' = limits m"
proof -
  obtain r1 m1 c1 where d: "deliver_pending_stage stage_ready (m, c) = (r1, m1, c1)"
    by (metis prod_cases3)
  with assms show ?thesis
    using limits_deliver_pending [OF d]
    by (cases r1) (auto simp: model_finish_def limits_def)
qed

lemma limits_feed_primary:
  assumes "feed_primary_b0 stage_ready (m, c) = (r, m', c')"
  shows "limits m' = limits m"
proof -
  let ?m1 = "observe_primary m"
  obtain r1 m1 c1 where d: "deliver_stage stage_ready (m_observed ?m1) (?m1, c) = (r1, m1, c1)"
    by (metis prod_cases3)
  consider "m_observed m \<ge> m_max_physical m" | "\<not> m_observed m \<ge> m_max_physical m" "defers_delivery ?m1"
    | "\<not> m_observed m \<ge> m_max_physical m" "\<not> defers_delivery ?m1" by blast
  then show ?thesis
  proof cases
    case 1
    with assms show ?thesis
      unfolding feed_primary_b0_def Let_def prod.case by (auto simp: model_fail_def)
  next
    case 2
    then have "m' = expect COMMAND_34 (?m1\<lparr>m_delivery_pending := True\<rparr>)"
      using assms unfolding feed_primary_b0_def Let_def prod.case by simp
    then show ?thesis by simp
  next
    case 3
    then have "m' = (case r1 of Reject e \<Rightarrow> m1 | Accept \<Rightarrow> expect COMMAND_34 m1)"
      using assms d unfolding feed_primary_b0_def Let_def prod.case by (cases r1) auto
    then show ?thesis
      using limits_deliver_stage [OF d] by (cases r1) simp_all
  qed
qed

lemma limits_feed_ack_34:
  assumes "feed_ack_34 stage_ready (m, c) = (r, m', c')"
  shows "limits m' = limits m"
proof -
  have "m' = expect COMMAND_36 m \<or> m' = expect IRQ0200 m \<or>
      deliver_pending_stage stage_ready (expect IRQ0200 m, c) = (r, m', c')"
    using assms unfolding feed_ack_34_def Let_def prod.case
    by (cases "m_transition m = TRANSITION_FIRST_NAV \<or> m_repeated_after_auxiliary m";
        cases "m_transition m \<noteq> TRANSITION_TERMINAL \<or> m_defer_terminal_until m") simp_all
  then show ?thesis
    using limits_deliver_pending [of "expect IRQ0200 m" c r m' c'] by auto
qed

lemma limits_feed_irq0200:
  assumes "feed_irq0200 stage_ready (m, c) = (r, m', c')"
  shows "limits m' = limits m"
proof -
  let ?m1 = "m\<lparr>m_repeated_after_auxiliary := False\<rparr>"
  have "m' = expect COMMAND_20 ?m1 \<or> m' = expect COMMAND_32 ?m1 \<or>
      model_finish stage_ready (?m1, c) = (r, m', c')"
    using assms unfolding feed_irq0200_def Let_def prod.case
    by (cases "m_transition m") simp_all
  then show ?thesis
    using limits_model_finish [of ?m1 c r m' c'] by auto
qed

lemma limits_feed_zero_mask:
  assumes "feed_zero_mask_recovery stage_ready (m, c) = (r, m', c')"
  shows "limits m' = limits m"
proof -
  obtain r1 m1 c1 where d: "deliver_pending_stage stage_ready (m, c) = (r1, m1, c1)"
    by (metis prod_cases3)
  let ?bad = "m_observed m < 2 \<or> \<not> m_delivery_pending m \<or> m_repeated_after_auxiliary m"
  show ?thesis
  proof (cases ?bad)
    case True
    with assms have "m' = snd (model_fail m MODEL_ERROR_STATE)"
      unfolding feed_zero_mask_recovery_def Let_def prod.case
      by (simp only: if_True) (auto simp: model_fail_def)
    then show ?thesis by simp
  next
    case False
    with assms d have "m' = m1 \<or> m' = expect COMMAND_32 m1 \<or>
        model_finish stage_ready (m1, c1) = (r, m', c')"
      unfolding feed_zero_mask_recovery_def Let_def prod.case
      by (simp only: if_False)
         (cases r1; cases "m_transition m1 = TRANSITION_TERMINAL"; auto)
    then show ?thesis
      using limits_deliver_pending [OF d] limits_model_finish [of m1 c1 r m' c'] by auto
  qed
qed

lemma limits_feed:
  assumes "enrollment_model_feed stage_ready e (m, c) = (r, m', c')"
  shows "limits m' = limits m"
proof (cases "m_complete m \<or> m_failed m")
  case True
  with assms show ?thesis by (simp add: feed_terminal)
next
  case False
  then have alive: "\<not> m_complete m" "\<not> m_failed m" by simp_all
  show ?thesis
  proof (cases "e \<noteq> m_expected m \<and> \<not> (e = ZERO_MASK_RECOVERY \<and> m_expected m = IRQ0100)")
    case True
    with assms show ?thesis
      unfolding feed_unexpected [OF alive True] by auto
  next
    case expected: False
    then have guard: "(e \<noteq> m_expected m \<and> \<not> (e = ZERO_MASK_RECOVERY \<and> m_expected m = IRQ0100)) = False"
      "(m_complete m \<or> m_failed m) = False"
      using False by simp_all
    show ?thesis
      using assms unfolding enrollment_model_feed_def Let_def prod.case guard if_False
      by (cases e)
         (auto simp: model_fail_def intro: limits_feed_primary limits_feed_ack_34
           limits_feed_irq0200 limits_feed_zero_mask)
  qed
qed

text \<open>Refinement: an accepted feed is a protocol step.\<close>

lemma feed_refines:
  assumes inv: "model_inv m" and feed: "enrollment_model_feed stage_ready e (m, c) = (Accept, m', c')"
  shows "protocol_step (unat (m_max_physical m)) (protocol_of m) e (protocol_of m')"
proof -
  have alive: "\<not> m_complete m" "\<not> m_failed m"
    using feed by (cases "m_complete m"; cases "m_failed m"; simp add: feed_terminal)+
  note live = model_inv_live [OF inv alive]
  have ev: "e = m_expected m \<or> e = ZERO_MASK_RECOVERY \<and> m_expected m = IRQ0100"
    using feed feed_unexpected [OF alive] by (metis Pair_inject reply.distinct(1))
  have pos: "m_expected m \<noteq> EVENT_NONE" "m_expected m \<noteq> ZERO_MASK_RECOVERY"
    using live(3) by (simp_all add: model_position_def)
  have room: "m_expected m = ACK_32 \<Longrightarrow> unat (m_observed m) < unat (m_max_physical m)"
    using live(3) by (auto simp: model_position_def pre_primary_def cycle_flags_def in_cycle_def
        word_less_nat_alt)
  note plain = step_plain [of "protocol_of m"]
  show ?thesis
  proof (cases e)
    case ACK_32
    then have m': "m' = feed_ack_32 m" and e: "m_expected m = ACK_32"
      using feed ev pos alive by (auto simp: enrollment_model_feed_def)
    show ?thesis
    proof (cases "m_transition m = TRANSITION_FIRST_NAV \<and> \<not> m_first_nav_seen m")
      case True
      then show ?thesis
        using step_navigate [of "protocol_of m"] e ACK_32 by (simp add: m' feed_ack_32_def)
    next
      case False
      then have "protocol_of m' = (protocol_of m)\<lparr>p_event := IRQ2\<rparr>"
        by (auto simp: m' feed_ack_32_def Let_def protocol_of_def)
      then show ?thesis
        using step_rearmed [of "protocol_of m"] e ACK_32 room False by auto
    qed
  next
    case AUXILIARY_B0
    then have m': "m' = feed_auxiliary_b0 m" and e: "m_expected m = AUXILIARY_B0"
      using feed ev pos alive by (auto simp: enrollment_model_feed_def)
    show ?thesis
      using step_auxiliary_first [of "protocol_of m"] step_auxiliary_repeated [of "protocol_of m"]
        e AUXILIARY_B0
      by (cases "m_transition m = TRANSITION_FIRST_NAV")
         (simp_all add: m' feed_auxiliary_b0_def protocol_of_def)
  next
    case IRQ2
    then show ?thesis
      using feed ev pos alive step_irq2 [of "protocol_of m"]
      by (auto simp: enrollment_model_feed_def protocol_of_def)
  next
    case NAV
    then show ?thesis
      using feed ev pos alive step_navigated [of "protocol_of m"]
      by (auto simp: enrollment_model_feed_def protocol_of_def)
  qed (use feed ev pos alive plain feed_primary_step [OF live, of c m' c']
      feed_ack_34_step [OF live, of c m' c'] feed_zero_mask_step [OF live, of c m' c']
      feed_irq0200_step [OF live, of c m' c'] in \<open>auto simp: enrollment_model_feed_def\<close>)
qed

lemma deliver_pending_rejects:
  assumes "deliver_pending_stage stage_ready (m, c) = (Reject x, m', c')"
  shows "m_failed m'"
  using assms deliver_stage_refused(1) [of "m_observed m" m c _ m' c']
  by (cases "m_delivery_pending m")
     (auto simp: deliver_pending_stage_def split: prod.splits reply.splits)

lemma model_finish_rejects:
  assumes "model_finish stage_ready (m, c) = (Reject x, m', c')"
  shows "m_failed m'"
  using assms deliver_pending_rejects [of m c _ m' c']
  by (auto simp: model_finish_def split: prod.splits reply.splits)

lemma feed_rejects:
  assumes "model_inv m" "\<not> m_complete m" "\<not> m_failed m"
    and feed: "enrollment_model_feed stage_ready e (m, c) = (Reject x, m', c')"
  shows "m_failed m'"
proof (cases "e \<noteq> m_expected m \<and> \<not> (e = ZERO_MASK_RECOVERY \<and> m_expected m = IRQ0100)")
  case True
  with feed show ?thesis
    unfolding feed_unexpected [OF assms(2,3) True] by (auto simp: model_fail_def)
next
  case False
  then have guard: "(e \<noteq> m_expected m \<and> \<not> (e = ZERO_MASK_RECOVERY \<and> m_expected m = IRQ0100)) = False"
    "(m_complete m \<or> m_failed m) = False"
    using assms(2,3) by simp_all
  note feed' = feed [unfolded enrollment_model_feed_def Let_def prod.case guard if_False]
  show ?thesis
  proof (cases e)
    case PRIMARY_B0
    let ?m1 = "observe_primary m"
    obtain r1 m1 c1 where d: "deliver_stage stage_ready (m_observed ?m1) (?m1, c) = (r1, m1, c1)"
      by (metis prod_cases3)
    show ?thesis
    proof (cases "m_observed m \<ge> m_max_physical m")
      case True
      then show ?thesis
        using feed' PRIMARY_B0 unfolding feed_primary_b0_def Let_def prod.case
        by (auto simp: model_fail_def)
    next
      case False
      with feed' PRIMARY_B0 d have "\<exists>x. r1 = Reject x \<and> m' = m1"
        unfolding feed_primary_b0_def Let_def prod.case
        by (cases r1; cases "defers_delivery ?m1") auto
      with deliver_stage_refused(1) d show ?thesis by auto
    qed
  next
    case ACK_34
    then have "deliver_pending_stage stage_ready (expect IRQ0200 m, c) = (Reject x, m', c')"
      using feed' unfolding feed_ack_34_def Let_def prod.case
      by (cases "m_transition m = TRANSITION_FIRST_NAV \<or> m_repeated_after_auxiliary m";
          cases "m_transition m \<noteq> TRANSITION_TERMINAL \<or> m_defer_terminal_until m") simp_all
    then show ?thesis by (rule deliver_pending_rejects)
  next
    case IRQ0200
    then have "model_finish stage_ready (m\<lparr>m_repeated_after_auxiliary := False\<rparr>, c) = (Reject x, m', c')"
      using feed' unfolding feed_irq0200_def Let_def prod.case
      by (cases "m_transition m") simp_all
    then show ?thesis by (rule model_finish_rejects)
  next
    case ZERO_MASK_RECOVERY
    obtain r1 m1 c1 where d: "deliver_pending_stage stage_ready (m, c) = (r1, m1, c1)"
      by (metis prod_cases3)
    show ?thesis
    proof (cases "m_observed m < 2 \<or> \<not> m_delivery_pending m \<or> m_repeated_after_auxiliary m")
      case True
      then show ?thesis
        using feed' ZERO_MASK_RECOVERY unfolding feed_zero_mask_recovery_def Let_def prod.case
        by (simp only: if_True enrollment_event.case) (auto simp: model_fail_def)
    next
      case False
      with feed' ZERO_MASK_RECOVERY d have
        "(\<exists>x. r1 = Reject x \<and> m' = m1) \<or> model_finish stage_ready (m1, c1) = (Reject x, m', c')"
        unfolding feed_zero_mask_recovery_def Let_def prod.case
        by (simp only: if_False enrollment_event.case)
           (cases r1; cases "m_transition m1 = TRANSITION_TERMINAL"; auto)
      with deliver_pending_rejects [of m c] d model_finish_rejects show ?thesis by auto
    qed
  qed (use feed' in \<open>auto simp: model_fail_def\<close>)
qed

text \<open>A refused event ends the session (or found it ended).\<close>

lemma feed_refused:
  assumes inv: "model_inv m" and feed: "enrollment_model_feed stage_ready e (m, c) = (Reject x, m', c')"
  shows "m' = m \<or> protocol_work k (protocol_of m') = 0"
proof (cases "m_complete m \<or> m_failed m")
  case True
  with feed show ?thesis by (simp add: feed_terminal)
next
  case False
  have "m_failed m'"
    by (rule feed_rejects [OF inv _ _ feed]) (use False in simp_all)
  moreover have "model_inv m'"
    using feed_inv [OF inv feed] .
  ultimately show ?thesis
    by (simp add: model_inv_def model_static_def protocol_work_def)
qed


text \<open>An accepted event never fails the model.\<close>

lemma feed_unconditional_failed [simp]:
  "m_failed (feed_auxiliary_b0 m) = m_failed m" "m_failed (feed_ack_32 m) = m_failed m"
  by (simp_all add: feed_auxiliary_b0_def feed_ack_32_def Let_def)

lemma deliver_pending_accepts:
  assumes "deliver_pending_stage stage_ready (m, c) = (Accept, m', c')" "\<not> m_failed m"
  shows "\<not> m_failed m'"
proof -
  obtain r1 m1 c1 where d: "deliver_stage stage_ready (m_observed m) (m, c) = (r1, m1, c1)"
    by (metis prod_cases3)
  show ?thesis
    using assms d deliver_stage_accepted [of "m_observed m" m c m1 c1]
    by (cases r1; cases "m_delivery_pending m")
       (auto simp: deliver_pending_stage_def retried_def staged_def)
qed

lemma model_finish_accepts:
  assumes "model_finish stage_ready (m, c) = (Accept, m', c')" "\<not> m_failed m"
  shows "\<not> m_failed m'"
proof -
  obtain r1 m1 c1 where d: "deliver_pending_stage stage_ready (m, c) = (r1, m1, c1)"
    by (metis prod_cases3)
  with assms show ?thesis
    using deliver_pending_accepts [of m c m1 c1] by (cases r1) (auto simp: model_finish_def)
qed

lemma feed_accepts:
  assumes feed: "enrollment_model_feed stage_ready e (m, c) = (Accept, m', c')"
  shows "\<not> m_failed m'"
proof -
  have alive: "\<not> m_complete m" "\<not> m_failed m"
    using feed by (cases "m_complete m"; cases "m_failed m"; simp add: feed_terminal)+
  have expected: "\<not> (e \<noteq> m_expected m \<and> \<not> (e = ZERO_MASK_RECOVERY \<and> m_expected m = IRQ0100))"
    using feed feed_unexpected [OF alive] by (metis Pair_inject reply.distinct(1))
  then have guard: "(e \<noteq> m_expected m \<and> \<not> (e = ZERO_MASK_RECOVERY \<and> m_expected m = IRQ0100)) = False"
    "(m_complete m \<or> m_failed m) = False"
    using alive by simp_all
  note feed' = feed [unfolded enrollment_model_feed_def Let_def prod.case guard if_False]
  show ?thesis
  proof (cases e)
    case PRIMARY_B0
    let ?m1 = "observe_primary m"
    obtain r1 m1 c1 where d: "deliver_stage stage_ready (m_observed ?m1) (?m1, c) = (r1, m1, c1)"
      by (metis prod_cases3)
    have "\<not> m_observed m \<ge> m_max_physical m"
      using feed' PRIMARY_B0 unfolding feed_primary_b0_def Let_def prod.case model_fail_def
      by (auto simp del: not_le)
    with feed' PRIMARY_B0 d have "m' = expect COMMAND_34 (?m1\<lparr>m_delivery_pending := True\<rparr>) \<or>
        r1 = Accept \<and> m' = expect COMMAND_34 m1"
      unfolding feed_primary_b0_def Let_def prod.case
      by (cases r1; cases "defers_delivery ?m1") auto
    then show ?thesis
      using deliver_stage_accepted [of "m_observed ?m1" ?m1 c m1 c1] d alive
      by (auto simp: retried_def staged_def simp del: observe_primary_fields(3,6))
  next
    case ACK_34
    then have "m' = expect COMMAND_36 m \<or> m' = expect IRQ0200 m \<or>
        deliver_pending_stage stage_ready (expect IRQ0200 m, c) = (Accept, m', c')"
      using feed' unfolding feed_ack_34_def Let_def prod.case
      by (cases "m_transition m = TRANSITION_FIRST_NAV \<or> m_repeated_after_auxiliary m";
          cases "m_transition m \<noteq> TRANSITION_TERMINAL \<or> m_defer_terminal_until m") simp_all
    then show ?thesis
      using deliver_pending_accepts [of "expect IRQ0200 m" c m' c'] alive by auto
  next
    case IRQ0200
    let ?m1 = "m\<lparr>m_repeated_after_auxiliary := False\<rparr>"
    from IRQ0200 have "m' = expect COMMAND_20 ?m1 \<or> m' = expect COMMAND_32 ?m1 \<or>
        model_finish stage_ready (?m1, c) = (Accept, m', c')"
      using feed' unfolding feed_irq0200_def Let_def prod.case
      by (cases "m_transition m") simp_all
    then show ?thesis
      using model_finish_accepts [of ?m1 c m' c'] alive by auto
  next
    case ZERO_MASK_RECOVERY
    obtain r1 m1 c1 where d: "deliver_pending_stage stage_ready (m, c) = (r1, m1, c1)"
      by (metis prod_cases3)
    have ok: "\<not> (m_observed m < 2 \<or> \<not> m_delivery_pending m \<or> m_repeated_after_auxiliary m)"
    proof
      assume bad: "m_observed m < 2 \<or> \<not> m_delivery_pending m \<or> m_repeated_after_auxiliary m"
      from feed' ZERO_MASK_RECOVERY show False
        unfolding feed_zero_mask_recovery_def Let_def prod.case model_fail_def
        by (simp only: bad if_True enrollment_event.case) simp
    qed
    from feed' ZERO_MASK_RECOVERY d have
      "r1 = Accept \<and> (m' = expect COMMAND_32 m1 \<or> model_finish stage_ready (m1, c1) = (Accept, m', c'))"
      unfolding feed_zero_mask_recovery_def Let_def prod.case
      by (simp only: ok if_False enrollment_event.case)
         (cases r1; cases "m_transition m1 = TRANSITION_TERMINAL"; auto)
    then show ?thesis
      using deliver_pending_accepts [of m c m1 c1] d model_finish_accepts [of m1 c1 m' c'] alive
      by auto
  qed (use feed' alive in \<open>auto simp: model_fail_def\<close>)
qed

text \<open>Work is used up by every accepted event, and a refused one creates none.\<close>

lemma feed_work:
  assumes inv: "model_inv m" and feed: "enrollment_model_feed stage_ready e (m, c) = (r, m', c')"
  shows "protocol_work (unat (m_max_physical m')) (protocol_of m') + of_bool (accepted r)
    \<le> protocol_work (unat (m_max_physical m)) (protocol_of m)"
proof -
  have same: "m_max_physical m' = m_max_physical m"
    using limits_feed [OF feed] by (simp add: limits_def)
  show ?thesis
  proof (cases r)
    case Accept
    with feed_refines [OF inv] feed same show ?thesis
      using protocol_step_work by (fastforce simp: Suc_le_eq)
  next
    case (Reject x)
    with feed_refused [OF inv, of e c x m' c' "unat (m_max_physical m)"] feed same show ?thesis
      by auto
  qed
qed

lemma session_work:
  assumes "model_inv m"
  shows "length (filter accepted (fst (run_ops (enrollment_model_feed stage_ready) es (m, c))))
    \<le> protocol_work (unat (m_max_physical m)) (protocol_of m)"
  using assms
proof (induction es arbitrary: m c)
  case (Cons e es)
  obtain r m' c' where f: "enrollment_model_feed stage_ready e (m, c) = (r, m', c')"
    by (metis prod_cases3)
  show ?case
    using feed_work [OF Cons.prems f] Cons.IH [OF feed_inv [OF Cons.prems f], of c']
    by (cases r) (simp_all add: f)
qed simp

lemma run_inv:
  assumes "model_inv m" "run_ops (enrollment_model_feed stage_ready) es (m, c) = (rs, m', c')"
  shows "model_inv m'"
  using assms
proof (induction es arbitrary: m c rs)
  case (Cons e es)
  obtain r m1 c1 where f: "enrollment_model_feed stage_ready e (m, c) = (r, m1, c1)"
    by (metis prod_cases3)
  have "run_ops (enrollment_model_feed stage_ready) es (m1, c1) = (tl rs, m', c')"
    using Cons.prems(2) unfolding run_ops.simps(2) f Let_def prod.case
    by (auto split: prod.splits)
  with Cons.IH [OF feed_inv [OF Cons.prems(1) f]] show ?case .
qed simp

lemma run_limits:
  assumes "run_ops (enrollment_model_feed stage_ready) es (m, c) = (rs, m', c')"
  shows "limits m' = limits m"
  using assms
proof (induction es arbitrary: m c rs)
  case (Cons e es)
  obtain r m1 c1 where f: "enrollment_model_feed stage_ready e (m, c) = (r, m1, c1)"
    by (metis prod_cases3)
  have "run_ops (enrollment_model_feed stage_ready) es (m1, c1) = (tl rs, m', c')"
    using Cons.prems unfolding run_ops.simps(2) f Let_def prod.case
    by (auto split: prod.splits)
  with Cons.IH limits_feed [OF f] show ?case by simp
qed simp

end

lemma new_model_fields:
  assumes "enrollment_model_new config = Inr m"
  shows "m_max_physical m = effective_max config" "m_required m = cfg_required_stage_count config"
    "protocol_of m = protocol_start" "\<not> m_complete m" "\<not> m_failed m"
  using assms
  by (auto simp: enrollment_model_new_def protocol_of_def protocol_start_def split: if_split_asm)

lemma protocol_start_work: "0 < limit \<Longrightarrow> protocol_work limit protocol_start = 17 * limit"
  by (simp add: protocol_work_def protocol_start_def event_rank_def pre_primary_def)

section \<open>A session with a consumer that judges its images\<close>

text \<open>
  The simplest callback takes every image and asks for nothing. The production callback judges the
  contact (here by its number, \<open>good\<close>): a poor one is to be repeated; a good one is taken, and with
  \<open>ask\<close> the one that fills the template is also the last.
\<close>

definition take_all :: "'c stage_func" where
  "take_all m i c = (Callback_True, m, c)"

definition judging :: "bool \<Rightarrow> (nat \<Rightarrow> bool) \<Rightarrow> 'c stage_func" where
  "judging ask good m i c = (Callback_True,
     run_decisions (if \<not> good (unat i) then [True]
       else if ask \<and> m_completed m + 1 = m_required m then [False] else []) m, c)"

interpretation take_all: stage_callback take_all
proof
  fix m i and c :: 'c
  show "\<exists>rs. fst (snd (take_all m i c)) = run_decisions rs m"
    by (rule exI [of _ "[]"]) (simp add: take_all_def)
qed

interpretation judging: stage_callback "judging ask good" for ask good
proof
  fix m i and c :: 'c
  show "\<exists>rs. fst (snd (judging ask good m i c)) = run_decisions rs m"
    unfolding judging_def by (simp only: fst_conv snd_conv) blast
qed

text \<open>Feed the expected event, \<open>n\<close> times.\<close>

fun drive :: "'c stage_func \<Rightarrow> nat \<Rightarrow> enrollment_model \<times> 'c \<Rightarrow> enrollment_model \<times> 'c" where
  "drive sr 0 mc = mc"
| "drive sr (Suc n) mc = drive sr n (snd (enrollment_model_feed sr (m_expected (fst mc)) mc))"

text \<open>The good ones among the first contacts; the contact at which the template is full.\<close>

definition goods :: "(nat \<Rightarrow> bool) \<Rightarrow> nat \<Rightarrow> nat" where
  "goods good n = length (filter good [1..<Suc n])"

lemma goods_simps [simp]: "goods good 0 = 0" "goods good (Suc n) = goods good n + of_bool (good (Suc n))"
  by (simp_all add: goods_def)

lemma goods_mono: "n \<le> k \<Longrightarrow> goods good n \<le> goods good k"
  by (induction k) (auto simp: le_Suc_eq)

definition fills :: "bool \<Rightarrow> (nat \<Rightarrow> bool) \<Rightarrow> nat \<Rightarrow> enrollment_model \<Rightarrow> bool" where
  "fills ask good k m \<longleftrightarrow> good k \<and> 0 < k \<and> goods good k = unat (m_required m) \<and> k \<le> unat (m_max_physical m) \<and>
     (ask \<or> k = unat (m_max_physical m))"

lemma fills_contact:
  assumes "fills ask good k m" "n \<le> k" "0 < n" "good n"
  shows "goods good (n - 1) + 1 \<le> unat (m_required m)" "goods good (n - 1) + 1 = unat (m_required m) \<longleftrightarrow> n = k"
proof -
  obtain j where n: "n = Suc j" using assms(3) by (cases n) auto
  then have step: "goods good (n - 1) + 1 = goods good n" using assms(4) by simp
  have k: "goods good k = unat (m_required m)" "good k" using assms(1) by (simp_all add: fills_def)
  show "goods good (n - 1) + 1 \<le> unat (m_required m)"
    unfolding step k(1) [symmetric] by (rule goods_mono [OF assms(2)])
  have "goods good n < goods good k" if "n < k"
  proof -
    obtain i where "k = Suc i" "n \<le> i" using \<open>n < k\<close> by (cases k) auto
    with goods_mono [of n i good] k(2) show ?thesis by simp
  qed
  then show "goods good (n - 1) + 1 = unat (m_required m) \<longleftrightarrow> n = k"
    unfolding step k(1) [symmetric] using assms(2) by (cases "n = k") auto
qed

text \<open>Where the session is on its way there; \<open>pend\<close> when the last contact is still to be judged.\<close>

definition course :: "(nat \<Rightarrow> bool) \<Rightarrow> nat \<Rightarrow> bool \<Rightarrow> enrollment_model \<Rightarrow> bool" where
  "course good k pend m \<longleftrightarrow> unat (m_observed m) \<le> k \<and>
     unat (m_completed m) = goods good (unat (m_observed m) - of_bool pend) \<and>
     (m_transition m = TRANSITION_TERMINAL \<longrightarrow> unat (m_observed m) = k) \<and>
     (unat (m_observed m) = k \<longrightarrow> pend \<or> m_transition m = TRANSITION_TERMINAL)"

lemma course_simps [simp]:
  "course good k pend (expect e m) = course good k pend m"
  "course good k pend (m\<lparr>m_delivery_pending := b\<rparr>) = course good k pend m"
  "course good k pend (m\<lparr>m_repeated_after_auxiliary := b\<rparr>) = course good k pend m"
  "course good k pend (m\<lparr>m_first_nav_seen := b\<rparr>) = course good k pend m"
  "course good k pend (m\<lparr>m_audit := a\<rparr>) = course good k pend m"
  by (simp_all add: course_def)

lemma judged:
  assumes "live m" "undelivered m" "in_cycle m" "fills ask good k m" "course good k True m"
  shows "\<exists>m'. deliver_stage (judging ask good) (m_observed m) (m, c) = (Accept, m', c) \<and> course good k False m' \<and>
    m_delivery_pending m' = m_delivery_pending m \<and> m_complete m' = m_complete m \<and> m_expected m' = m_expected m \<and>
    m_required m' = m_required m \<and> m_max_physical m' = m_max_physical m \<and> m_observed m' = m_observed m \<and>
    (m_transition m = TRANSITION_TERMINAL \<longrightarrow> m_transition m' = TRANSITION_TERMINAL)"
proof -
  let ?n = "unat (m_observed m)"
  have n: "0 < ?n" "?n \<le> k" "unat (m_completed m) = goods good (?n - 1)"
    using assms(2,5) by (simp_all add: undelivered_def course_def)
  then obtain j where j: "?n = Suc j" by (cases ?n) auto
  have last: "m_transition m = TRANSITION_TERMINAL \<longrightarrow> ?n = k" using assms(5) by (simp add: course_def)
  have top: "?n = unat (m_max_physical m) \<longrightarrow> m_transition m = TRANSITION_TERMINAL"
    using assms(3) by (auto simp: in_cycle_def word_less_nat_alt)
  show ?thesis
  proof (cases "good ?n")
    case False
    then have "?n < k" using n(2) assms(4) by (cases "?n = k") (auto simp: fills_def)
    then have room: "\<not> m_observed m \<ge> m_max_physical m" using assms(4) by (simp add: fills_def word_le_nat_alt)
    have "deliver_stage (judging ask good) (m_observed m) (m, c) = (Accept, retried m, c)"
      using False room
      by (simp add: deliver_stage_def judging_def request_retry can_decide_def want_retry_def retried_def Let_def del: not_le)
    moreover have "course good k False (retried m)"
      using False n j last \<open>?n < k\<close> by (simp add: course_def retried_def)
    ultimately show ?thesis by (auto simp: retried_def)
  next
    case True
    define fin where "fin = (ask \<and> ?n = k)"
    note q = fills_contact [OF assms(4) n(2,1) True]
    have Suc: "unat (m_completed m + 1) = unat (m_completed m) + 1"
      by (rule u32_Suc) (use q(1) n(3) unsigned_less [of "m_required m", where 'a = nat] in simp)
    then have room: "\<not> m_required m < m_completed m + 1" "m_completed m + 1 \<le> m_required m"
      using q(1) n(3) by (simp_all add: word_le_nat_alt word_less_nat_alt)
    have ends: "m_completed m + 1 = m_required m \<longleftrightarrow> ?n = k"
      using q(2) n(3) Suc by (simp add: word_unat_eq_iff)
    have "deliver_stage (judging ask good) (m_observed m) (m, c) = (Accept, staged fin m, c)"
    proof (cases fin)
      case full: True
      then have "ask" "m_completed m + 1 = m_required m" using ends by (simp_all add: fin_def)
      then show ?thesis
        using True full
        by (simp add: deliver_stage_def judging_def request_finish can_decide_def want_finish_def staged_def Let_def)
    next
      case False
      then have "(ask \<and> m_completed m + 1 = m_required m) = False" using ends by (simp add: fin_def)
      then have "judging ask good m0 i c = (Callback_True, m0, c)"
        if "m_completed m0 = m_completed m" "m_required m0 = m_required m" "i = m_observed m" for m0 i
        using True that by (simp only: judging_def) simp
      then show ?thesis
        using False room(1) by (simp add: deliver_stage_def staged_def Let_def)
    qed
    moreover have "course good k False (staged fin m)"
    proof -
      have "m_transition (staged fin m) = TRANSITION_TERMINAL \<longleftrightarrow> ?n = k"
        using last top assms(4) by (auto simp: staged_def fin_def fills_def)
      then show ?thesis using n j True Suc by (simp add: course_def) (simp add: staged_def)
    qed
    ultimately show ?thesis by (auto simp: staged_def)
  qed
qed

lemma judged_pending:
  assumes "live m" "model_counts m" "in_cycle m" "fills ask good k m" "course good k (m_delivery_pending m) m"
  shows "\<exists>m'. deliver_pending_stage (judging ask good) (m, c) = (Accept, m', c) \<and> course good k False m' \<and>
    \<not> m_delivery_pending m' \<and> m_complete m' = m_complete m \<and> m_expected m' = m_expected m \<and>
    m_required m' = m_required m \<and> m_max_physical m' = m_max_physical m \<and> m_observed m' = m_observed m \<and>
    (m_transition m = TRANSITION_TERMINAL \<longrightarrow> m_transition m' = TRANSITION_TERMINAL)"
proof (cases "m_delivery_pending m")
  case True
  then have "undelivered m" using assms(2) by (simp add: undelivered_def model_counts_def)
  from judged [OF assms(1) this assms(3,4), of c] assms(5) True obtain m1 where
    "deliver_stage (judging ask good) (m_observed m) (m, c) = (Accept, m1, c)" "course good k False m1"
    "m_complete m1 = m_complete m" "m_expected m1 = m_expected m" "m_required m1 = m_required m"
    "m_max_physical m1 = m_max_physical m" "m_observed m1 = m_observed m"
    "m_transition m = TRANSITION_TERMINAL \<longrightarrow> m_transition m1 = TRANSITION_TERMINAL" by auto
  then show ?thesis using True by (auto simp: deliver_pending_stage_def)
next
  case False
  then show ?thesis using assms(5) by (simp add: deliver_pending_stage_def)
qed

text \<open>Where a live session is, and what a complete one has.\<close>

definition judged_inv :: "bool \<Rightarrow> (nat \<Rightarrow> bool) \<Rightarrow> nat \<Rightarrow> enrollment_model \<Rightarrow> bool" where
  "judged_inv ask good k m \<longleftrightarrow> fills ask good k m \<and> course good k (m_delivery_pending m) m \<and>
     (pre_primary (m_expected m) \<longrightarrow> unat (m_observed m) < k) \<and> (m_complete m \<longrightarrow> unat (m_observed m) = k)"

lemma judged_inv_kept:
  assumes "judged_inv ask good k m" "course good k (m_delivery_pending m') m'" "m_complete m' = m_complete m"
    "m_required m' = m_required m" "m_max_physical m' = m_max_physical m" "m_observed m' = m_observed m"
    "\<not> pre_primary (m_expected m') \<or> pre_primary (m_expected m)"
  shows "judged_inv ask good k m'"
  using assms by (auto simp: judged_inv_def fills_def)

lemma judged_finish:
  assumes "live m" "model_counts m" "in_cycle m" "judged_inv ask good k m" "m_transition m = TRANSITION_TERMINAL"
  shows "\<exists>m'. model_finish (judging ask good) (m, c) = (Accept, m', c) \<and> judged_inv ask good k m'"
proof -
  obtain m1 where m1: "deliver_pending_stage (judging ask good) (m, c) = (Accept, m1, c)" "course good k False m1"
    "\<not> m_delivery_pending m1" "m_required m1 = m_required m" "m_max_physical m1 = m_max_physical m" "m_observed m1 = m_observed m"
    "m_transition m1 = TRANSITION_TERMINAL"
    using judged_pending [OF assms(1-3), of ask good k c] assms(4,5) by (auto simp: judged_inv_def)
  then show ?thesis
    using assms(4,5) by (auto simp: model_finish_def judged_inv_def fills_def course_def pre_primary_def)
qed

lemma judged_feed:
  assumes inv: "model_inv m" and alive: "\<not> m_complete m" "\<not> m_failed m" and judged_inv: "judged_inv ask good k m"
  shows "\<exists>m'. enrollment_model_feed (judging ask good) (m_expected m) (m, c) = (Accept, m', c) \<and> judged_inv ask good k m'"
proof -
  note live = model_inv_live [OF inv alive]
  have pos: "m_expected m \<noteq> EVENT_NONE" "m_expected m \<noteq> ZERO_MASK_RECOVERY"
    using live(3) by (simp_all add: model_position_def)
  have guard: "(m_expected m \<noteq> m_expected m \<and> \<not> (m_expected m = ZERO_MASK_RECOVERY \<and>
      m_expected m = IRQ0100)) = False" "(m_complete m \<or> m_failed m) = False"
    using alive by simp_all
  have course: "course good k (m_delivery_pending m) m" and fills: "fills ask good k m"
    using judged_inv by (simp_all add: judged_inv_def)
  note kept = judged_inv_kept [OF judged_inv]
  have plain: "judged_inv ask good k (expect e m)" if "\<not> pre_primary e \<or> pre_primary (m_expected m)" for e
    by (rule kept) (use that course in simp_all)
  show ?thesis
  proof (cases "m_expected m")
    case IRQ2
    then have "unat (m_observed m) < k" using judged_inv by (simp add: judged_inv_def pre_primary_def)
    then have "course good k (m_delivery_pending m) (m\<lparr>m_transition := TRANSITION_NONE\<rparr>)"
      using course by (simp add: course_def)
    then have "judged_inv ask good k (expect COMMAND_22 (m\<lparr>m_transition := TRANSITION_NONE\<rparr>))"
      by (intro kept) (simp_all add: IRQ2 pre_primary_def)
    with IRQ2 show ?thesis
      unfolding enrollment_model_feed_def Let_def prod.case guard if_False by simp
  next
    case PRIMARY_B0
    then have lt: "unat (m_observed m) < k" and pend: "\<not> m_delivery_pending m"
      using judged_inv live(3) by (simp_all add: judged_inv_def pre_primary_def model_position_def)
    have top: "k \<le> unat (m_max_physical m)" using fills by (simp add: fills_def)
    then have less: "m_observed m < m_max_physical m" using lt by (simp add: word_less_nat_alt)
    let ?m1 = "observe_primary m"
    note op = observe_primary_live [OF live(1,2) pend less]
    have Suc: "unat (m_observed m + 1) = unat (m_observed m) + 1" by (rule u32_Suc_le(1) [OF less])
    have last: "m_observed m + 1 = m_max_physical m \<Longrightarrow> unat (m_observed m) + 1 = k"
      using Suc lt top by simp
    have "course good k True ?m1"
      using course pend lt last by (auto simp: course_def Suc)
    then have deferred: "judged_inv ask good k (expect COMMAND_34 (?m1\<lparr>m_delivery_pending := True\<rparr>))"
      using fills alive by (simp add: judged_inv_def fills_def pre_primary_def)
    have "fills ask good k ?m1" using fills by (simp add: fills_def)
    from judged [OF op(1-3) this \<open>course good k True ?m1\<close>, of c] obtain m2 where
      m2: "deliver_stage (judging ask good) (m_observed ?m1) (?m1, c) = (Accept, m2, c)" "course good k False m2"
      "m_delivery_pending m2 = m_delivery_pending ?m1" "m_complete m2 = m_complete ?m1" "m_required m2 = m_required ?m1"
      "m_max_physical m2 = m_max_physical ?m1" by blast
    then have "judged_inv ask good k (expect COMMAND_34 m2)"
      using fills alive pend by (simp add: judged_inv_def fills_def pre_primary_def)
    with deferred m2(1) less show ?thesis
      unfolding PRIMARY_B0 enrollment_model_feed_def Let_def prod.case guard [unfolded PRIMARY_B0] if_False
      by (cases "defers_delivery ?m1") (simp_all add: feed_primary_b0_def Let_def del: observe_primary_fields flip: not_le)
  next
    case ACK_34
    have cyc: "in_cycle (expect IRQ0200 m)" using live(3) ACK_34 by (simp add: model_position_def pre_primary_def)
    have "live (expect IRQ0200 m)" "model_counts (expect IRQ0200 m)" "fills ask good k (expect IRQ0200 m)"
      using live(1,2) fills by (simp_all add: fills_def)
    from judged_pending [OF this(1,2) cyc this(3), of c] course obtain m1 where m1:
      "deliver_pending_stage (judging ask good) (expect IRQ0200 m, c) = (Accept, m1, c)" "course good k False m1"
      "\<not> m_delivery_pending m1" "m_complete m1 = m_complete m" "m_expected m1 = IRQ0200" "m_required m1 = m_required m"
      "m_max_physical m1 = m_max_physical m" "m_observed m1 = m_observed m" by auto
    then have "judged_inv ask good k m1" by (intro kept) (simp_all add: pre_primary_def)
    with m1(1) plain [of IRQ0200] plain [of COMMAND_36] show ?thesis
      unfolding ACK_34 enrollment_model_feed_def Let_def prod.case guard [unfolded ACK_34] if_False
      by (simp add: feed_ack_34_def Let_def pre_primary_def)
  next
    case AUXILIARY_B0
    then have "judged_inv ask good k (feed_auxiliary_b0 m)"
      using course by (intro kept) (simp_all add: feed_auxiliary_b0_def Let_def pre_primary_def)
    with AUXILIARY_B0 show ?thesis
      unfolding enrollment_model_feed_def Let_def prod.case guard if_False by simp
  next
    case IRQ0200
    let ?m1 = "m\<lparr>m_repeated_after_auxiliary := False\<rparr>"
    have cyc: "in_cycle ?m1" using live(3) IRQ0200 by (simp add: model_position_def pre_primary_def in_cycle_def)
    have m1: "live ?m1" "model_counts ?m1" "judged_inv ask good k ?m1"
      using live(1,2) judged_inv
      by (simp_all add: live_def model_static_def model_counts_def judged_inv_def fills_def)
    have "judged_inv ask good k (expect e ?m1)" if "\<not> pre_primary e" for e
      by (rule kept) (use that course in simp_all)
    then have "judged_inv ask good k (expect COMMAND_20 ?m1)" "judged_inv ask good k (expect COMMAND_32 ?m1)"
      by (simp_all add: pre_primary_def)
    with judged_finish [OF m1(1,2) cyc m1(3), of c] show ?thesis
      unfolding IRQ0200 enrollment_model_feed_def Let_def prod.case guard [unfolded IRQ0200] if_False
      by (cases "m_transition m") (simp_all add: feed_irq0200_def Let_def)
  next
    case ACK_32
    then have "m_transition m \<noteq> TRANSITION_TERMINAL" "\<not> m_delivery_pending m"
      using live(3) by (simp_all add: model_position_def pre_primary_def cycle_flags_def)
    then have "unat (m_observed m) < k" using course by (auto simp: course_def)
    then have "judged_inv ask good k (feed_ack_32 m)"
      using course fills alive by (simp add: judged_inv_def fills_def feed_ack_32_def Let_def)
    with ACK_32 show ?thesis
      unfolding enrollment_model_feed_def Let_def prod.case guard if_False by simp
  next
    case NAV
    then have "judged_inv ask good k (expect COMMAND_32 (m\<lparr>m_first_nav_seen := True\<rparr>))"
      using course by (intro kept) (simp_all add: pre_primary_def)
    with NAV show ?thesis
      unfolding enrollment_model_feed_def Let_def prod.case guard if_False by simp
  qed (use pos plain in \<open>simp_all add: enrollment_model_feed_def guard alive pre_primary_def\<close>)
qed

lemma drive_completes:
  assumes "model_inv m" "\<not> m_failed m" "judged_inv ask good k m" "protocol_work k (protocol_of m) \<le> n"
  shows "\<exists>m'. drive (judging ask good) n (m, c) = (m', c) \<and> m_complete m' \<and> \<not> m_failed m' \<and> judged_inv ask good k m' \<and>
    limits m' = limits m \<and> model_inv m'"
  using assms
proof (induction n arbitrary: m)
  case 0
  have "m_complete m"
  proof (rule ccontr)
    assume "\<not> m_complete m"
    with 0 have "model_position m" by (simp add: model_inv_def)
    then have "m_expected m \<noteq> EVENT_NONE" "m_expected m \<noteq> ZERO_MASK_RECOVERY"
      by (simp_all add: model_position_def)
    with 0(4) show False
      by (cases "m_expected m")
         (auto simp: protocol_work_def event_rank_def Let_def split: if_split_asm)
  qed
  with 0 show ?case by simp
next
  case (Suc n)
  show ?case
  proof (cases "m_complete m")
    case True
    then have "enrollment_model_feed (judging ask good) (m_expected m) (m, c) = (Reject (Model_Error MODEL_ERROR_STATE), m, c)"
      by (simp add: enrollment_model_feed_def)
    moreover have "protocol_work k (protocol_of m) = 0"
      using True Suc.prems(1) by (simp add: model_inv_def protocol_work_def)
    ultimately show ?thesis using Suc.IH [of m] Suc.prems by simp
  next
    case False
    from judged_feed [OF Suc.prems(1) False Suc.prems(2,3), where c = c]
    obtain m1 where f: "enrollment_model_feed (judging ask good) (m_expected m) (m, c) = (Accept, m1, c)"
      and j: "judged_inv ask good k m1"
      by (elim exE conjE)
    have m1: "model_inv m1" "\<not> m_failed m1" "limits m1 = limits m"
      using judging.feed_inv [OF Suc.prems(1) f] judging.feed_accepts [OF f] judging.limits_feed [OF f] by simp_all
    have "protocol_work k (protocol_of m1) < protocol_work k (protocol_of m)"
      by (rule protocol_step_work_below [OF judging.feed_refines [OF Suc.prems(1) f]])
         (use j in \<open>auto simp: judged_inv_def course_def\<close>)
    then have "protocol_work k (protocol_of m1) \<le> n" using Suc.prems(4) by simp
    from Suc.IH [OF m1(1,2) j this] m1(3) f show ?thesis by auto
  qed
qed

section \<open>Properties\<close>

inductive protocol_path :: "nat \<Rightarrow> protocol \<Rightarrow> enrollment_event list \<Rightarrow> protocol \<Rightarrow> bool"
  for limit :: nat where
  path_end: "protocol_path limit p [] p"
| path_step: "protocol_step limit p e q \<Longrightarrow> protocol_path limit q es r \<Longrightarrow>
    protocol_path limit p (e # es) r"

inductive_cases protocol_path_ConsE: "protocol_path limit p (e # es) q"

lemma protocol_path_contacts:
  "protocol_path limit p es q \<Longrightarrow> p_contacts q = p_contacts p + count_list es PRIMARY_B0"
  by (induction rule: protocol_path.induct) (auto dest: protocol_step_contacts)

definition taken :: "enrollment_event list \<Rightarrow> gerror reply list \<Rightarrow> enrollment_event list" where
  "taken es rs = map fst (filter (\<lambda>er. accepted (snd er)) (zip es rs))"

lemma failed_run:
  "m_failed m \<Longrightarrow> m_failed (fst (snd (run_ops (enrollment_model_feed sr) es (m, c))))"
  by (induction es) (simp_all add: feed_terminal)

lemma run_path:
  assumes "stage_callback sr" "model_inv m"
    "run_ops (enrollment_model_feed sr) es (m, c) = (rs, m', c')" "\<not> m_failed m'"
  shows "protocol_path (unat (m_max_physical m)) (protocol_of m) (taken es rs) (protocol_of m')"
  using assms(2-)
proof (induction es arbitrary: m c rs)
  case Nil
  then show ?case by (simp add: taken_def path_end)
next
  case (Cons e es)
  obtain r m1 c1 where f: "enrollment_model_feed sr e (m, c) = (r, m1, c1)"
    by (metis prod_cases3)
  have rest: "run_ops (enrollment_model_feed sr) es (m1, c1) = (tl rs, m', c')" and rs: "rs = r # tl rs"
    using Cons.prems(2) unfolding run_ops.simps(2) f Let_def prod.case
    by (auto split: prod.splits)
  have inv1: "model_inv m1"
    by (rule stage_callback.feed_inv [OF assms(1) Cons.prems(1) f])
  have same: "m_max_physical m1 = m_max_physical m"
    using stage_callback.limits_feed [OF assms(1) f] by (simp add: limits_def)
  note path = Cons.IH [OF inv1 rest Cons.prems(3), unfolded same]
  show ?case
  proof (cases r)
    case Accept
    then have "taken (e # es) rs = e # taken es (tl rs)"
      by (subst rs) (simp add: taken_def)
    with path stage_callback.feed_refines [OF assms(1) Cons.prems(1) f [unfolded Accept]]
    show ?thesis by (auto intro: path_step)
  next
    case (Reject x)
    have "taken (e # es) rs = taken es (tl rs)"
      by (subst rs) (simp add: taken_def Reject)
    moreover have "m1 = m"
    proof (cases "m_complete m \<or> m_failed m")
      case True
      with f show ?thesis by (simp add: feed_terminal)
    next
      case False
      then have "m_failed m1"
        using stage_callback.feed_rejects [OF assms(1) Cons.prems(1) _ _ f [unfolded Reject]] by simp
      then have "m_failed m'"
        using failed_run [of m1 sr es c1] rest by simp
      with Cons.prems(3) show ?thesis by simp
    qed
    ultimately show ?thesis using path by simp
  qed
qed

text \<open>
  Claim C4. Refinement: whatever the image consumer decides, the events an unfailed session
  has accepted so far form a path of the abstract contact protocol, from its start to the
  abstraction of the session's state. In particular contacts are counted by their primary
  images and never exceed the configured maximum.
\<close>

theorem session_follows_protocol:
  assumes "stage_callback sr" "enrollment_model_new config = Inr m"
    and "run_ops (enrollment_model_feed sr) es (m, c) = (rs, m', c')" "\<not> m_failed m'"
  shows "protocol_path (unat (effective_max config)) protocol_start (taken es rs) (protocol_of m') \<and>
    unat (m_observed m') = count_list (taken es rs) PRIMARY_B0 \<and>
    m_observed m' \<le> effective_max config"
proof (intro conjI)
  note inv = model_inv_new [OF assms(2)] and new = new_model_fields [OF assms(2)]
  show path: "protocol_path (unat (effective_max config)) protocol_start (taken es rs) (protocol_of m')"
    using run_path [OF assms(1) inv assms(3,4)] by (simp add: new)
  show "unat (m_observed m') = count_list (taken es rs) PRIMARY_B0"
    using protocol_path_contacts [OF path] by (simp add: protocol_start_def)
  have "model_static m'" "limits m' = limits m"
    using stage_callback.run_inv [OF assms(1) inv assms(3)]
      stage_callback.run_limits [OF assms(1,3)] by (simp_all add: model_inv_def)
  then show "m_observed m' \<le> effective_max config"
    by (simp add: model_static_def limits_def new)
qed

definition two_stages :: model_config where
  "two_stages = \<lparr>cfg_required_stage_count = 2, cfg_max_physical_stage_count = 0,
     cfg_defer_terminal_stage_delivery = False, cfg_defer_terminal_until_release_ready = False,
     cfg_defer_intermediate_until_release_ready = False\<rparr>"

lemma two_stages_new: "\<exists>m. enrollment_model_new two_stages = Inr m"
  by (simp add: enrollment_model_new_def two_stages_def)

lemma session_follows_protocol_witness:
  "\<exists>m m' rs. enrollment_model_new two_stages = Inr m \<and>
     run_ops (enrollment_model_feed take_all) [IRQ2, COMMAND_22] (m, ()) = (rs, m', ()) \<and>
     protocol_path 2 protocol_start (taken [IRQ2, COMMAND_22] rs) (protocol_of m')"
proof -
  obtain m where m: "enrollment_model_new two_stages = Inr m"
    using two_stages_new by blast
  note new = new_model_fields [OF m]
  have e: "m_expected m = IRQ2"
    using new(3) by (simp add: protocol_of_def protocol_start_def)
  obtain rs m' where run: "run_ops (enrollment_model_feed take_all) [IRQ2, COMMAND_22] (m, ()) =
      (rs, m', ())" by (metis old.unit.exhaust prod_cases3)
  moreover from this have "\<not> m_failed m'"
    using new e by (auto simp: run_ops.simps(2) enrollment_model_feed_def)
  ultimately show ?thesis
    using session_follows_protocol [OF take_all.stage_callback_axioms m run] m
    by (auto simp: effective_max_def two_stages_def)
qed

text \<open>
  Claim C5. Accounting: as long as the session has not failed, every contact's image was
  either counted as a stage, retried, or is the one still to be delivered, in natural
  numbers, so none of the 32-bit counters has wrapped and no image was delivered twice or
  lost; the stages never exceed the template's, and a complete session has nothing left to
  deliver.
\<close>

theorem session_accounts_for_images:
  assumes "stage_callback sr" "enrollment_model_new config = Inr m"
    and "run_ops (enrollment_model_feed sr) es (m, c) = (rs, m', c')" "\<not> m_failed m'"
  shows "unat (m_completed m') + unat (ma_retry_stage (m_audit m')) + of_bool (m_delivery_pending m')
      = unat (m_observed m') \<and>
    m_completed m' \<le> cfg_required_stage_count config \<and>
    ma_stage_report (m_audit m') = m_completed m' \<and>
    (m_complete m' \<longrightarrow> \<not> m_delivery_pending m')"
proof -
  note inv = model_inv_new [OF assms(2)] and new = new_model_fields [OF assms(2)]
  have "model_inv m'" "limits m' = limits m"
    using stage_callback.run_inv [OF assms(1) inv assms(3)]
      stage_callback.run_limits [OF assms(1,3)] by simp_all
  with assms(4) show ?thesis
    by (auto simp: model_inv_def model_counts_def limits_def new)
qed

lemma session_accounts_for_images_witness:
  "\<exists>m m' rs. enrollment_model_new two_stages = Inr m \<and>
     run_ops (enrollment_model_feed take_all) [IRQ2] (m, ()) = (rs, m', ()) \<and>
     unat (m_completed m') + unat (ma_retry_stage (m_audit m')) + of_bool (m_delivery_pending m')
      = unat (m_observed m')"
proof -
  obtain m where m: "enrollment_model_new two_stages = Inr m"
    using two_stages_new by blast
  note new = new_model_fields [OF m]
  have e: "m_expected m = IRQ2"
    using new(3) by (simp add: protocol_of_def protocol_start_def)
  obtain rs m' where run: "run_ops (enrollment_model_feed take_all) [IRQ2] (m, ()) =
      (rs, m', ())" by (metis old.unit.exhaust prod_cases3)
  moreover from this have "\<not> m_failed m'"
    using new e by (auto simp: run_ops.simps(2) enrollment_model_feed_def)
  ultimately show ?thesis
    using session_accounts_for_images [OF take_all.stage_callback_axioms m run] m by blast
qed

text \<open>
  Claim C6. Termination: a session accepts at most seventeen events for each contact the
  configuration allows, whatever is fed to it and whatever the image consumer decides.
\<close>

theorem session_bounded:
  assumes "stage_callback sr" "enrollment_model_new config = Inr m"
  shows "length (filter accepted (fst (run_ops (enrollment_model_feed sr) es (m, c))))
    \<le> 17 * unat (effective_max config)"
proof -
  note inv = model_inv_new [OF assms(2)] and new = new_model_fields [OF assms(2)]
  have "effective_max config \<noteq> 0"
    using inv new(1) two_le_pos unfolding model_inv_def model_static_def by force
  then have "0 < unat (effective_max config)"
    by (simp add: unat_gt_0)
  with stage_callback.session_work [OF assms(1) inv, of es c] show ?thesis
    by (simp add: new protocol_start_work)
qed

lemma session_bounded_witness:
  "\<exists>m. enrollment_model_new two_stages = Inr m \<and>
     length (filter accepted (fst (run_ops (enrollment_model_feed take_all)
       (replicate 100 IRQ2) (m, ())))) \<le> 34"
proof -
  obtain m where m: "enrollment_model_new two_stages = Inr m"
    using two_stages_new by blast
  with session_bounded [OF take_all.stage_callback_axioms m, of "replicate 100 IRQ2" "()"]
  show ?thesis by (simp add: effective_max_def two_stages_def)
qed

text \<open>
  Claim C7. Liveness: let the consumer judge each contact, have the poor ones repeated, take the
  good ones and ask to finish with the one that fills the template (or, where it never asks, let the
  template fill at the last contact the configuration allows). If contact \<open>k\<close> is the one that fills
  it and the configuration allows \<open>k\<close> contacts, feeding the expected event seventeen times \<open>k\<close> brings
  the session to completion, without failure, after exactly \<open>k\<close> contacts and the required number of
  stages, the other contacts retried; under every delivery policy.
\<close>

theorem session_completes:
  assumes "enrollment_model_new config = Inr m"
    and "good k" "goods good k = unat (cfg_required_stage_count config)" "k \<le> unat (effective_max config)"
    and "ask \<or> k = unat (effective_max config)" "17 * k \<le> n"
    and "drive (judging ask good) n (m, c) = (m', c')"
  shows "m_complete m' \<and> \<not> m_failed m' \<and> unat (m_observed m') = k \<and>
    m_completed m' = cfg_required_stage_count config \<and>
    unat (ma_retry_stage (m_audit m')) = k - unat (cfg_required_stage_count config)"
proof -
  note inv = model_inv_new [OF assms(1)] and new = new_model_fields [OF assms(1)]
  have "2 \<le> unat (cfg_required_stage_count config)"
    using inv by (simp add: model_inv_def model_static_def new word_le_nat_alt)
  then have k: "0 < k" using assms(3) by (cases k) simp_all
  have "course good k (m_delivery_pending m) m"
    using assms(1) k by (auto simp: enrollment_model_new_def course_def split: if_split_asm)
  then have judged: "judged_inv ask good k m"
    using assms(2-5) k new(3,4) by (simp add: judged_inv_def fills_def new protocol_of_def protocol_start_def)
  have "protocol_work k (protocol_of m) \<le> n" using assms(6) k by (simp add: new protocol_start_work)
  from drive_completes [OF inv new(5) judged this, of c] assms(7) obtain
    fin: "m_complete m'" "\<not> m_failed m'" "judged_inv ask good k m'" "limits m' = limits m" "model_inv m'" by auto
  then have "model_counts m'" "\<not> m_delivery_pending m'" by (simp_all add: model_inv_def)
  with fin assms(3) show ?thesis
    by (auto simp: judged_inv_def course_def model_counts_def limits_def new word_unat_eq_iff)
qed

text \<open>Production has no bound on the contacts and delivers when the finger is lifted.\<close>

definition production_two_stages :: model_config where
  "production_two_stages = \<lparr>cfg_required_stage_count = 2, cfg_max_physical_stage_count = 0xffffffff,
     cfg_defer_terminal_stage_delivery = False, cfg_defer_terminal_until_release_ready = True,
     cfg_defer_intermediate_until_release_ready = True\<rparr>"

lemma session_completes_witness:
  "\<exists>m m'. enrollment_model_new production_two_stages = Inr m \<and>
     drive (judging True (\<lambda>i. i \<noteq> 2)) 51 (m, ()) = (m', ()) \<and> m_complete m' \<and> m_completed m' = 2 \<and> unat (m_observed m') = 3"
proof -
  obtain m where m: "enrollment_model_new production_two_stages = Inr m"
    by (auto simp: enrollment_model_new_def production_two_stages_def)
  obtain m' where run: "drive (judging True (\<lambda>i. i \<noteq> 2)) 51 (m, ()) = (m', ())"
    by (metis old.unit.exhaust prod.exhaust)
  have "m_complete m' \<and> \<not> m_failed m' \<and> unat (m_observed m') = 3 \<and>
      m_completed m' = cfg_required_stage_count production_two_stages \<and>
      unat (ma_retry_stage (m_audit m')) = 3 - unat (cfg_required_stage_count production_two_stages)"
    by (rule session_completes [OF m _ _ _ _ _ run])
       (simp_all add: production_two_stages_def effective_max_def goods_def upt_rec)
  with m run show ?thesis by (auto simp: production_two_stages_def)
qed

text \<open>
  Failure and completion are final: once a session is complete or failed, every
  later event is refused and the state does not change.
\<close>

theorem session_end_is_final:
  assumes "m_complete m \<or> m_failed m"
  shows "snd (run_ops (enrollment_model_feed sr) es (m, c)) = (m, c) \<and>
    list_all (\<lambda>r. \<not> accepted r) (fst (run_ops (enrollment_model_feed sr) es (m, c)))"
  using assms model_terminal.dead_run [of "(m, c)" sr es]
  by (induction es) (simp_all add: feed_terminal)

lemma session_end_is_final_witness:
  "\<exists>m. snd (run_ops (enrollment_model_feed take_all) [IRQ2, NAV] (m, ())) = (m, ())"
proof -
  obtain m where "enrollment_model_new two_stages = Inr m"
    using two_stages_new by blast
  with session_end_is_final [of "m\<lparr>m_failed := True\<rparr>" take_all "[IRQ2, NAV]" "()"]
  show ?thesis by auto
qed

end
