(* ===== verification/Enrollment_Pipeline.thy ===== *)
theory Enrollment_Pipeline
  imports Enrollment_Protocol Fpimage
begin

text \<open>
  The enrollment image pipeline (\<^verbatim>\<open>goodix_enrollment_pipeline.c\<close>): it owns the event model
  and at most one pending image, builds the image when the primary record arrives, and hands
  it to the image consumer when the model delivers the stage. The consumer is a parameter.
  What it does to the pipeline is the list of requests it makes through
  \<^verbatim>\<open>goodix_enrollment_pipeline_retry_current_stage\<close> and
  \<^verbatim>\<open>goodix_enrollment_pipeline_finish_current_stage\<close>, besides its reply and its own state.

  A pipeline is a triple of the model, the remaining fields of the C structure, and the
  consumer's state. As in the model, every caller supplies an audit.
\<close>

record pipeline_audit =
  pa_construct :: u32
  pa_delivery :: u32
  pa_auxiliary_delivery :: u32
  pa_failed :: bool

record pipe =
  pl_pending :: "fpimage_pipeline option"
  pl_retry :: bool
  pl_failed :: bool
  pl_audit :: pipeline_audit

type_synonym 'u pipeline = "enrollment_model \<times> pipe \<times> 'u"

datatype stage_request = Request_Retry | Request_Finish

type_synonym 'u image_func =
  "enrollment_model \<Rightarrow> pipe \<Rightarrow> u32 \<Rightarrow> fp_image \<Rightarrow> 'u \<Rightarrow> stage_request list \<times> callback_reply \<times> 'u"

section \<open>Requests of the consumer\<close>

definition pipeline_retry_current_stage ::
    "enrollment_model \<times> pipe \<Rightarrow> gerror reply \<times> enrollment_model \<times> pipe" where
  "pipeline_retry_current_stage mp =
     (let (m, p) = mp in
      if pl_pending p = None \<or> pl_retry p then (Reject (Pipeline_Error PIPELINE_ERROR_STATE), m, p)
      else case model_retry_current_stage m of
          (Reject e, m') \<Rightarrow> (Reject e, m', p)
        | (Accept, m') \<Rightarrow> (Accept, m', p\<lparr>pl_retry := True\<rparr>))"

definition pipeline_finish_current_stage ::
    "enrollment_model \<times> pipe \<Rightarrow> gerror reply \<times> enrollment_model \<times> pipe" where
  "pipeline_finish_current_stage mp =
     (let (m, p) = mp in
      if pl_pending p = None \<or> pl_retry p then (Reject (Pipeline_Error PIPELINE_ERROR_STATE), m, p)
      else let (r, m') = model_finish_current_stage m in (r, m', p))"

fun run_request :: "stage_request \<Rightarrow> enrollment_model \<times> pipe \<Rightarrow> enrollment_model \<times> pipe" where
  "run_request Request_Retry mp = snd (pipeline_retry_current_stage mp)"
| "run_request Request_Finish mp = snd (pipeline_finish_current_stage mp)"

definition run_requests ::
    "stage_request list \<Rightarrow> enrollment_model \<times> pipe \<Rightarrow> enrollment_model \<times> pipe" where
  "run_requests reqs mp = foldl (\<lambda>mp q. run_request q mp) mp reqs"

section \<open>The model's stage callback\<close>

definition pipeline_stage_ready :: "'u image_func \<Rightarrow> (pipe \<times> 'u) stage_func" where
  "pipeline_stage_ready image_ready m stage_index pu =
     (let (p, u) = pu in
      case pl_pending p of
        None \<Rightarrow> (Callback_False (Some (Pipeline_Error PIPELINE_ERROR_STATE)), m, p, u)
      | Some pending \<Rightarrow>
          let p1 = p\<lparr>pl_retry := False\<rparr>;
              (reqs, reply, u') = image_ready m p1 stage_index (fp_image pending) u;
              (m', p2) = run_requests reqs (m, p1)
          in case reply of
               Callback_False e \<Rightarrow> (Callback_False e, m', p2, u')
             | Callback_True \<Rightarrow>
                 (Callback_True, m',
                  (if pl_retry p2 then p2
                   else p2\<lparr>pl_audit := (pl_audit p2)\<lparr>pa_delivery := pa_delivery (pl_audit p2) + 1\<rparr>\<rparr>),
                  u'))"

section \<open>Operations\<close>

definition pipeline_new :: "model_config \<Rightarrow> 'u \<Rightarrow> gerror + 'u pipeline" where
  "pipeline_new config u =
     (case enrollment_model_new config of
        Inl e \<Rightarrow> Inl e
      | Inr m \<Rightarrow> Inr (m, \<lparr>pl_pending = None, pl_retry = False, pl_failed = False,
          pl_audit = \<lparr>pa_construct = 0, pa_delivery = 0, pa_auxiliary_delivery = 0,
            pa_failed = False\<rparr>\<rparr>, u))"

definition pipe_failed :: "pipe \<Rightarrow> pipe" where
  "pipe_failed p = p\<lparr>pl_pending := None, pl_failed := True,
     pl_audit := (pl_audit p)\<lparr>pa_failed := True\<rparr>\<rparr>"

definition pipeline_fail :: "pipe \<Rightarrow> pipeline_error \<Rightarrow> gerror reply \<times> pipe" where
  "pipeline_fail p code = (Reject (Pipeline_Error code), pipe_failed p)"

text \<open>The second half of \<^verbatim>\<open>goodix_enrollment_pipeline_feed\<close>: feed the model, drop the image.\<close>

definition pipeline_feed_model ::
    "'u image_func \<Rightarrow> enrollment_event \<Rightarrow> 'u pipeline \<Rightarrow> gerror reply \<times> 'u pipeline" where
  "pipeline_feed_model image_ready event mpu =
     (let (m, p, u) = mpu;
          completed_before = m_completed m;
          (reply, m', p', u') =
            enrollment_model_feed (pipeline_stage_ready image_ready) event (m, p, u);
          p2 = (if \<not> accepted reply \<or> pl_retry p' \<or> m_completed m' > completed_before
                then p'\<lparr>pl_pending := None\<rparr> else p');
          p3 = (if accepted reply then p2
                else p2\<lparr>pl_failed := True, pl_audit := (pl_audit p2)\<lparr>pa_failed := True\<rparr>\<rparr>)
      in (reply, m', p3, u'))"

text \<open>Absent samples are a null pointer with count zero.\<close>

definition pipeline_feed ::
    "allocator \<Rightarrow> 'u image_func \<Rightarrow> enrollment_event \<Rightarrow> u16 list option \<Rightarrow> 'u pipeline
       \<Rightarrow> gerror reply \<times> 'u pipeline" where
  "pipeline_feed env image_ready event samples mpu =
     (let (m, p, u) = mpu in
      if pl_failed p \<or> m_complete m
      then (Reject (Pipeline_Error PIPELINE_ERROR_STATE), m, p, u)
      else if event \<noteq> m_expected m \<and> \<not> (event = ZERO_MASK_RECOVERY \<and> m_expected m = IRQ0100)
      then
        let (reply, m', p', u') =
              enrollment_model_feed (pipeline_stage_ready image_ready) event (m, p, u)
        in (reply, m', pipe_failed p', u')
      else if event = PRIMARY_B0 then
        let p0 = p\<lparr>pl_retry := False\<rparr> in
        case samples of
          None \<Rightarrow> let (r, p') = pipeline_fail p0 PIPELINE_ERROR_ARGUMENT in (r, m, p', u)
        | Some ss \<Rightarrow>
            if length ss \<noteq> IMAGE_SAMPLES
            then let (r, p') = pipeline_fail p0 PIPELINE_ERROR_ARGUMENT in (r, m, p', u)
            else
              let (result, pending) = fpimage_pipeline_new env samples (pl_pending p0);
                  p1 = p0\<lparr>pl_pending := pending\<rparr>
              in if result \<noteq> FPIMAGE_PIPELINE_OK \<or>
                    fpimage_pipeline_check_ppmm_requirement pending PPMM_CONSUMER_NBIS
                      \<noteq> FPIMAGE_PIPELINE_OK
                 then let (r, p') = pipeline_fail (p1\<lparr>pl_pending := None\<rparr>) PIPELINE_ERROR_IMAGE
                      in (r, m, p', u)
                 else
                   pipeline_feed_model image_ready event
                     (m, p1\<lparr>pl_audit := (pl_audit p1)\<lparr>pa_construct := pa_construct (pl_audit p1) + 1\<rparr>\<rparr>, u)
      else if samples \<noteq> None
      then let (r, p') = pipeline_fail p PIPELINE_ERROR_ARGUMENT in (r, m, p', u)
      else pipeline_feed_model image_ready event (m, p, u))"

definition pipeline_is_failed :: "'u pipeline \<Rightarrow> bool" where
  "pipeline_is_failed mpu \<longleftrightarrow> pl_failed (fst (snd mpu)) \<or> m_failed (fst mpu)"

definition pipeline_get_pending_source_samples :: "'u pipeline \<Rightarrow> u16 list option" where
  "pipeline_get_pending_source_samples mpu =
     fpimage_pipeline_get_source_samples (pl_pending (fst (snd mpu)))"

section \<open>The callback keeps the model's law\<close>

lemma run_requests_simps [simp]:
  "run_requests [] mp = mp"
  "run_requests (q # qs) mp = run_requests qs (run_request q mp)"
  by (simp_all add: run_requests_def)

lemma request_cases_pipe:
  "run_request q (m, p) = (m, p) \<or>
   (\<exists>b. run_request q (m, p) = (snd (request_stage_decision b m), p\<lparr>pl_retry := b\<rparr>) \<and>
        fst (request_stage_decision b m) = Accept \<and> \<not> pl_retry p) \<or>
   (\<exists>b. run_request q (m, p) = (snd (request_stage_decision b m), p) \<and>
        fst (request_stage_decision b m) \<noteq> Accept)"
proof (cases q)
  case Request_Retry
  show ?thesis
  proof (cases "pl_pending p = None \<or> pl_retry p")
    case True
    then show ?thesis
      unfolding Request_Retry by (auto simp: pipeline_retry_current_stage_def)
  next
    case False
    then show ?thesis
      unfolding Request_Retry
      by (cases "request_stage_decision True m")
         (auto simp: pipeline_retry_current_stage_def model_retry_current_stage_def
           split: reply.splits intro!: exI [of _ True])
  qed
next
  case Request_Finish
  have same: "\<not> pl_retry p \<Longrightarrow> p\<lparr>pl_retry := False\<rparr> = p" by simp
  show ?thesis
  proof (cases "pl_pending p = None \<or> pl_retry p")
    case True
    then show ?thesis
      unfolding Request_Finish by (auto simp: pipeline_finish_current_stage_def)
  next
    case False
    then have "run_request q (m, p) = (snd (request_stage_decision False m), p)"
      unfolding Request_Finish
      by (auto simp: pipeline_finish_current_stage_def model_finish_current_stage_def
          case_prod_beta)
    with False same show ?thesis
      by (cases "fst (request_stage_decision False m)") auto
  qed
qed


lemma decision_reply:
  "fst (request_stage_decision b m) = Accept \<Longrightarrow>
     snd (request_stage_decision b m) = m\<lparr>m_retry_current_stage := b, m_finish_current_stage := \<not> b\<rparr>"
  "fst (request_stage_decision b m) \<noteq> Accept \<Longrightarrow> snd (request_stage_decision b m) = m"
  unfolding request_stage_decision_def
  by (cases "\<not> m_delivering_stage m \<or> m_retry_current_stage m \<or> m_finish_current_stage m";
      cases "\<not> b \<and> m_completed m + 1 > m_required m";
      simp only: if_True if_False fst_conv snd_conv reply.distinct simp_thms)+

lemma run_requests_sync:
  assumes "m_retry_current_stage m = pl_retry p" "run_requests qs (m, p) = (m', p')"
  shows "m_retry_current_stage m' = pl_retry p' \<and> p' = p\<lparr>pl_retry := pl_retry p'\<rparr> \<and>
    (\<exists>rs. m' = run_decisions rs m)"
  using assms
proof (induction qs arbitrary: m p)
  case Nil
  then show ?case by (auto intro: exI [of _ "[]"])
next
  case (Cons q qs)
  obtain m1 p1 where q: "run_request q (m, p) = (m1, p1)" by fastforce
  have step: "m_retry_current_stage m1 = pl_retry p1 \<and> p1 = p\<lparr>pl_retry := pl_retry p1\<rparr> \<and>
      (\<exists>rs. m1 = run_decisions rs m)"
    using request_cases_pipe [of q m p]
  proof (elim disjE exE conjE)
    assume "run_request q (m, p) = (m, p)"
    then show ?thesis using q Cons.prems(1) by (auto intro: exI [of _ "[]"])
  next
    fix b assume r: "run_request q (m, p) = (snd (request_stage_decision b m), p\<lparr>pl_retry := b\<rparr>)"
      and acc: "fst (request_stage_decision b m) = Accept"
    have "m_retry_current_stage (snd (request_stage_decision b m)) = b"
      unfolding decision_reply(1) [OF acc] by simp
    then have "m_retry_current_stage m1 = b" "p1 = p\<lparr>pl_retry := b\<rparr>" "m1 = run_decisions [b] m"
      using q r by simp_all
    then show ?thesis by (metis pipe.select_convs(2) pipe.surjective pipe.update_convs(2))
  next
    fix b assume r: "run_request q (m, p) = (snd (request_stage_decision b m), p)"
      and rej: "fst (request_stage_decision b m) \<noteq> Accept"
    then have "m1 = m" "p1 = p"
      using q decision_reply(2) [OF rej] by simp_all
    then show ?thesis using Cons.prems(1) by (auto intro: exI [of _ "[]"])
  qed
  then obtain rs where rs: "m1 = run_decisions rs m" by blast
  have "run_requests qs (m1, p1) = (m', p')"
    using Cons.prems(2) q by simp
  from Cons.IH [OF _ this] step obtain rs' where
    "m_retry_current_stage m' = pl_retry p'" "p' = p1\<lparr>pl_retry := pl_retry p'\<rparr>"
    "m' = run_decisions rs' m1" by blast
  moreover have "run_decisions rs' m1 = run_decisions (rs @ rs') m"
    by (simp add: rs run_decisions_def)
  moreover have "p1\<lparr>pl_retry := pl_retry p'\<rparr> = p\<lparr>pl_retry := pl_retry p'\<rparr>"
    using step by (metis pipe.surjective pipe.update_convs(2))
  ultimately show ?case by auto
qed

lemma run_requests_decisions: "\<exists>rs. fst (run_requests qs (m, p)) = run_decisions rs m"
proof (induction qs arbitrary: m p)
  case Nil
  have "m = run_decisions [] m" by simp
  then show ?case by (intro exI [of _ "[]"]) simp
next
  case (Cons q qs)
  obtain m1 p1 where q: "run_request q (m, p) = (m1, p1)" by fastforce
  have "\<exists>rs. m1 = run_decisions rs m"
    using request_cases_pipe [of q m p] q
    by (auto intro: exI [of _ "[]"] exI [of _ "[_]"])
  then obtain rs where "m1 = run_decisions rs m" by blast
  moreover obtain rs' where "fst (run_requests qs (m1, p1)) = run_decisions rs' m1"
    using Cons.IH by blast
  ultimately show ?case
    by (intro exI [of _ "rs @ rs'"]) (simp add: q run_decisions_def)
qed

interpretation pipeline_callback: stage_callback "pipeline_stage_ready image_ready" for image_ready
proof
  fix m i and c :: "pipe \<times> 'a"
  show "\<exists>rs. fst (snd (pipeline_stage_ready image_ready m i c)) = run_decisions rs m"
  proof (cases "pl_pending (fst c)")
    case None
    then show ?thesis
      by (intro exI [of _ "[]"]) (simp add: pipeline_stage_ready_def case_prod_beta)
  next
    case (Some pending)
    have "\<exists>qs p. fst (snd (pipeline_stage_ready image_ready m i c)) = fst (run_requests qs (m, p))"
      using Some
      by (auto simp: pipeline_stage_ready_def case_prod_beta Let_def split: callback_reply.splits)
    with run_requests_decisions show ?thesis by metis
  qed
qed


section \<open>Where a feed delivers\<close>

text \<open>An accepted event delivers at most one stage, the pending one or the one it brings.\<close>

definition delivers_once ::
    "'c stage_func \<Rightarrow> enrollment_model \<Rightarrow> 'c \<Rightarrow> enrollment_model \<Rightarrow> 'c \<Rightarrow> bool" where
  "delivers_once sr m c m' c' \<longleftrightarrow>
     (\<exists>i m1 m2. deliver_stage sr i (m1, c) = (Accept, m2, c') \<and> m_completed m1 = m_completed m \<and>
        m_completed m' = m_completed m2 \<and> \<not> m_delivery_pending m')"

definition delivers_none :: "bool \<Rightarrow> enrollment_model \<Rightarrow> 'c \<Rightarrow> enrollment_model \<Rightarrow> 'c \<Rightarrow> bool" where
  "delivers_none pending m c m' c' \<longleftrightarrow>
     c' = c \<and> m_completed m' = m_completed m \<and> m_delivery_pending m' = pending"

lemma feed_unconditional_completed [simp]:
  "m_completed (feed_auxiliary_b0 m) = m_completed m" "m_completed (feed_ack_32 m) = m_completed m"
  "m_delivery_pending (feed_auxiliary_b0 m) = m_delivery_pending m"
  "m_delivery_pending (feed_ack_32 m) = m_delivery_pending m"
  by (simp_all add: feed_auxiliary_b0_def feed_ack_32_def Let_def)

lemma deliver_pending_shape:
  assumes "deliver_pending_stage sr (m, c) = (Accept, m', c')"
  shows "(\<not> m_delivery_pending m \<and> m' = m \<and> c' = c) \<or>
    (m_delivery_pending m \<and> delivers_once sr m c m' c')"
proof -
  obtain r1 m1 c1 where d: "deliver_stage sr (m_observed m) (m, c) = (r1, m1, c1)"
    by (metis prod_cases3)
  show ?thesis
  proof (cases "m_delivery_pending m")
    case True
    with assms d have "r1 = Accept" "m' = m1\<lparr>m_delivery_pending := False\<rparr>" "c' = c1"
      by (cases r1; auto simp: deliver_pending_stage_def)+
    with d True show ?thesis
      unfolding delivers_once_def by (intro disjI2 conjI exI [of _ "m_observed m"] exI [of _ m] exI [of _ m1]) simp_all
  next
    case False
    with assms show ?thesis by (auto simp: deliver_pending_stage_def)
  qed
qed

lemma model_finish_shape:
  assumes "model_finish sr (m, c) = (Accept, m', c')"
  shows "(\<not> m_delivery_pending m \<and> delivers_none False m c m' c') \<or>
    (m_delivery_pending m \<and> delivers_once sr m c m' c')"
proof -
  obtain r1 m1 c1 where d: "deliver_pending_stage sr (m, c) = (r1, m1, c1)"
    by (metis prod_cases3)
  with assms have r1: "r1 = Accept" and eq: "m_completed m' = m_completed m1" "c' = c1"
    "m_delivery_pending m' = m_delivery_pending m1"
    by (cases r1; auto simp: model_finish_def)+
  from deliver_pending_shape [OF d [unfolded r1]] eq show ?thesis
    unfolding delivers_once_def delivers_none_def by auto
qed

lemma delivers_once_from:
  "delivers_once sr m1 c m2 c' \<Longrightarrow> m_completed m1 = m_completed m \<Longrightarrow>
     m_completed m' = m_completed m2 \<Longrightarrow> m_delivery_pending m' = m_delivery_pending m2 \<Longrightarrow>
     delivers_once sr m c m' c'"
  unfolding delivers_once_def by metis

lemma feed_primary_shape:
  assumes "feed_primary_b0 sr (m, c) = (Accept, m', c')" "\<not> m_delivery_pending m"
    "\<And>m1 m2 c2 i. deliver_stage sr i (m1, c) = (Accept, m2, c2) \<Longrightarrow>
       m_delivery_pending m2 = m_delivery_pending m1"
  shows "delivers_none True m c m' c' \<or> delivers_once sr m c m' c'"
proof -
  let ?m1 = "observe_primary m"
  obtain r1 m1 c1 where d: "deliver_stage sr (m_observed ?m1) (?m1, c) = (r1, m1, c1)"
    by (metis prod_cases3)
  have room: "\<not> m_observed m \<ge> m_max_physical m"
    using assms(1) unfolding feed_primary_b0_def Let_def prod.case model_fail_def
    by (auto simp del: not_le)
  show ?thesis
  proof (cases "defers_delivery ?m1")
    case True
    with assms(1) room have "m' = expect COMMAND_34 (?m1\<lparr>m_delivery_pending := True\<rparr>)" "c' = c"
      unfolding feed_primary_b0_def Let_def prod.case by simp_all
    then show ?thesis by (simp add: delivers_none_def)
  next
    case False
    with assms(1) room d have r: "r1 = Accept" "m' = expect COMMAND_34 m1" "c' = c1"
      unfolding feed_primary_b0_def Let_def prod.case
      by (cases r1; auto simp del: observe_primary_fields)+
    with d assms(2) assms(3) [of "m_observed ?m1" ?m1 m1 c1] show ?thesis
      unfolding delivers_once_def
      by (intro disjI2 exI [of _ "m_observed ?m1"] exI [of _ ?m1] exI [of _ m1]) simp
  qed
qed

lemma delivers_once_simps [simp]:
  "delivers_once sr (expect e m) c m' c' = delivers_once sr m c m' c'"
  "delivers_once sr (m\<lparr>m_repeated_after_auxiliary := b\<rparr>) c m' c' = delivers_once sr m c m' c'"
  by (simp_all add: delivers_once_def)

context stage_callback
begin

lemma deliver_stage_keeps_pending:
  "deliver_stage stage_ready i (m1, c) = (Accept, m2, c2) \<Longrightarrow>
     m_delivery_pending m2 = m_delivery_pending m1"
  using deliver_stage_accepted [of i m1 c m2 c2] by (auto simp: retried_def staged_def)

lemma feed_shape:
  assumes inv: "model_inv m" and feed: "enrollment_model_feed stage_ready e (m, c) = (Accept, m', c')"
  shows "delivers_none (m_delivery_pending m \<or> e = PRIMARY_B0) m c m' c' \<or>
    (m_delivery_pending m \<or> e = PRIMARY_B0) \<and> delivers_once stage_ready m c m' c'"
proof -
  have alive: "\<not> m_complete m" "\<not> m_failed m"
    using feed by (cases "m_complete m"; cases "m_failed m"; simp add: feed_terminal)+
  note live = model_inv_live [OF inv alive]
  have expected: "e = m_expected m \<or> (e = ZERO_MASK_RECOVERY \<and> m_expected m = IRQ0100)"
    using feed feed_unexpected [OF alive] by (metis Pair_inject reply.distinct(1))
  then have guard: "(e \<noteq> m_expected m \<and> \<not> (e = ZERO_MASK_RECOVERY \<and> m_expected m = IRQ0100)) = False"
    "(m_complete m \<or> m_failed m) = False"
    using alive by auto
  note feed' = feed [unfolded enrollment_model_feed_def Let_def prod.case guard if_False]
  show ?thesis
  proof (cases e)
    case PRIMARY_B0
    then have "m_expected m = PRIMARY_B0"
      using expected by auto
    with live(3) have "\<not> m_delivery_pending m"
      by (simp add: model_position_def pre_primary_def)
    with feed_primary_shape [of stage_ready m c m' c'] deliver_stage_keeps_pending feed' PRIMARY_B0
    show ?thesis by auto
  next
    case ACK_34
    then have "m' = expect COMMAND_36 m \<and> c' = c \<or> m' = expect IRQ0200 m \<and> c' = c \<or>
        deliver_pending_stage stage_ready (expect IRQ0200 m, c) = (Accept, m', c')"
      using feed' unfolding feed_ack_34_def Let_def prod.case
      by (cases "m_transition m = TRANSITION_FIRST_NAV \<or> m_repeated_after_auxiliary m";
          cases "m_transition m \<noteq> TRANSITION_TERMINAL \<or> m_defer_terminal_until m") simp_all
    with deliver_pending_shape [of stage_ready "expect IRQ0200 m" c m' c'] ACK_34 show ?thesis
      by (auto simp: delivers_none_def intro: delivers_once_from)
  next
    case IRQ0200
    let ?m1 = "m\<lparr>m_repeated_after_auxiliary := False\<rparr>"
    from IRQ0200 have "m' = expect COMMAND_20 ?m1 \<and> c' = c \<or> m' = expect COMMAND_32 ?m1 \<and> c' = c \<or>
        model_finish stage_ready (?m1, c) = (Accept, m', c')"
      using feed' unfolding feed_irq0200_def Let_def prod.case
      by (cases "m_transition m") simp_all
    with model_finish_shape [of stage_ready ?m1 c m' c'] IRQ0200 show ?thesis
      by (auto simp: delivers_none_def intro: delivers_once_from)
  next
    case ZERO_MASK_RECOVERY
    obtain r1 m1 c1 where d: "deliver_pending_stage stage_ready (m, c) = (r1, m1, c1)"
      by (metis prod_cases3)
    have ok: "\<not> (m_observed m < 2 \<or> \<not> m_delivery_pending m \<or> m_repeated_after_auxiliary m)"
    proof
      assume bad: "m_observed m < 2 \<or> \<not> m_delivery_pending m \<or> m_repeated_after_auxiliary m"
      from feed' ZERO_MASK_RECOVERY show False
        unfolding feed_zero_mask_recovery_def Let_def prod.case model_fail_def
        by (simp only: bad if_True enrollment_event.case) simp
    qed
    from feed' ZERO_MASK_RECOVERY d have r1: "r1 = Accept" and
      m': "m' = expect COMMAND_32 m1 \<and> c' = c1 \<or> model_finish stage_ready (m1, c1) = (Accept, m', c')"
      unfolding feed_zero_mask_recovery_def Let_def prod.case
      by (simp_all only: ok if_False enrollment_event.case)
         (cases r1; cases "m_transition m1 = TRANSITION_TERMINAL"; auto)+
    from deliver_pending_shape [OF d [unfolded r1]] ok have once: "delivers_once stage_ready m c m1 c1"
      by blast
    from m' show ?thesis
    proof
      assume "m' = expect COMMAND_32 m1 \<and> c' = c1"
      with once ok show ?thesis by (auto intro: delivers_once_from)
    next
      assume fin: "model_finish stage_ready (m1, c1) = (Accept, m', c')"
      have "\<not> m_delivery_pending m1"
        using once by (auto simp: delivers_once_def)
      with model_finish_shape [OF fin] have "delivers_none False m1 c1 m' c'" by blast
      with once ok \<open>\<not> m_delivery_pending m1\<close> show ?thesis
        by (auto simp: delivers_none_def intro: delivers_once_from)
    qed
  qed (use feed' expected in \<open>auto simp: delivers_none_def model_fail_def\<close>)
qed

end


section \<open>The invariant\<close>

text \<open>
  While the pipeline has not failed it holds an image exactly when the model has one to
  deliver, it has built one image for each contact, and handed over one for each completed
  stage. A failed pipeline holds no image.
\<close>

definition pipe_counts :: "enrollment_model \<Rightarrow> pipe \<Rightarrow> bool" where
  "pipe_counts m p \<longleftrightarrow>
     pa_construct (pl_audit p) = m_observed m \<and>
     pa_delivery (pl_audit p) = m_completed m \<and>
     pa_auxiliary_delivery (pl_audit p) = 0"

definition pipe_inv :: "'u pipeline \<Rightarrow> bool" where
  "pipe_inv mpu \<longleftrightarrow>
     (case mpu of (m, p, u) \<Rightarrow>
        pa_failed (pl_audit p) = pl_failed p \<and>
        (pl_failed p \<longrightarrow> pl_pending p = None) \<and>
        (\<not> pl_failed p \<longrightarrow>
           model_inv m \<and> \<not> m_failed m \<and> pipe_counts m p \<and>
           (pl_pending p \<noteq> None \<longleftrightarrow> m_delivery_pending m) \<and>
           (pl_pending p \<noteq> None \<longrightarrow> \<not> pl_retry p)))"

text \<open>What one accepted delivery does to the pipe.\<close>

lemma pipeline_deliver_accepted:
  assumes "deliver_stage (pipeline_stage_ready image_ready) i (m1, p, u) = (Accept, m2, p2, u2)"
  shows "pl_failed p2 = pl_failed p \<and>
    pa_construct (pl_audit p2) = pa_construct (pl_audit p) \<and>
    pa_auxiliary_delivery (pl_audit p2) = pa_auxiliary_delivery (pl_audit p) \<and>
    pa_failed (pl_audit p2) = pa_failed (pl_audit p) \<and>
    (if pl_retry p2 then m_completed m2 = m_completed m1 \<and>
       pa_delivery (pl_audit p2) = pa_delivery (pl_audit p)
     else m_completed m2 = m_completed m1 + 1 \<and>
       pa_delivery (pl_audit p2) = pa_delivery (pl_audit p) + 1)"
proof -
  let ?m0 = "m1\<lparr>m_delivering_stage := True, m_retry_current_stage := False,
               m_finish_current_stage := False\<rparr>"
  let ?p1 = "p\<lparr>pl_retry := False\<rparr>"
  obtain pending where pend: "pl_pending p = Some pending"
    using assms by (cases "pl_pending p") (simp_all add: deliver_stage_def pipeline_stage_ready_def Let_def)
  obtain reqs rep u' where im: "image_ready ?m0 ?p1 i (fp_image pending) u = (reqs, rep, u')"
    by (metis prod_cases3)
  obtain mr pr where run: "run_requests reqs (?m0, ?p1) = (mr, pr)" by fastforce
  have sync: "m_retry_current_stage mr = pl_retry pr" "pr = ?p1\<lparr>pl_retry := pl_retry pr\<rparr>"
    using run_requests_sync [OF _ run] by simp_all
  have ready: "pipeline_stage_ready image_ready ?m0 i (p, u) =
      (case rep of Callback_False e \<Rightarrow> (Callback_False e, mr, pr, u')
       | Callback_True \<Rightarrow> (Callback_True, mr,
          (if pl_retry pr then pr
           else pr\<lparr>pl_audit := (pl_audit pr)\<lparr>pa_delivery := pa_delivery (pl_audit pr) + 1\<rparr>\<rparr>), u'))"
    by (simp add: pipeline_stage_ready_def pend im run)
  have rep: "rep = Callback_True"
    using assms ready by (cases rep) (simp_all add: deliver_stage_def Let_def)
  have p2: "p2 = (if pl_retry pr then pr
      else pr\<lparr>pl_audit := (pl_audit pr)\<lparr>pa_delivery := pa_delivery (pl_audit pr) + 1\<rparr>\<rparr>)"
    using assms ready rep by (auto simp: deliver_stage_def Let_def split: if_split_asm)
  obtain b where "pr = ?p1\<lparr>pl_retry := b\<rparr>"
    using sync(2) by blast
  then have fields: "pl_failed pr = pl_failed p" "pl_audit pr = pl_audit p"
    by simp_all
  have retry: "m_retry_current_stage m2 = pl_retry pr"
    using assms ready rep sync(1) by (auto simp: deliver_stage_def Let_def split: if_split_asm)
  consider "pl_retry pr" "m2 = retried m1"
    | fin where "\<not> pl_retry pr" "m2 = staged fin m1" "m_completed m1 + 1 \<le> m_required m1"
  proof -
    have "m_retry_current_stage (retried m1)" "\<not> m_retry_current_stage (staged fin m1)" for fin
      by (simp_all add: retried_def staged_def)
    then show thesis
      using pipeline_callback.deliver_stage_accepted [OF assms] retry that by metis
  qed
  then show ?thesis
  proof cases
    case 1
    then show ?thesis using fields p2 by (simp add: retried_def)
  next
    case 2
    then show ?thesis using fields p2 by (simp add: staged_def)
  qed
qed


text \<open>One feed of the model with its image in place.\<close>

lemma completed_room:
  assumes "model_inv m" "\<not> m_failed m" "m_delivery_pending m \<or> m_observed m < m_max_physical m"
  shows "m_completed m < m_completed m + 1"
proof -
  have c: "unat (m_completed m) + unat (ma_retry_stage (m_audit m)) + of_bool (m_delivery_pending m) =
      unat (m_observed m)"
    using assms(1,2) by (simp add: model_inv_def model_counts_def)
  have "unat (m_observed m) < 2 ^ 32" "unat (m_max_physical m) < 2 ^ 32"
    using unsigned_less [of "m_observed m", where 'a = nat]
      unsigned_less [of "m_max_physical m", where 'a = nat] by simp_all
  with c assms(3) have "unat (m_completed m) + 1 < 2 ^ 32"
    by (cases "m_delivery_pending m") (simp_all add: word_less_nat_alt)
  then show ?thesis
    using u32_Suc [of "m_completed m"] by (simp add: word_less_nat_alt)
qed

lemma feed_observed:
  assumes "model_inv m" "enrollment_model_feed (pipeline_stage_ready image_ready) e (m, c) = (Accept, m', c')"
  shows "m_observed m' = m_observed m + of_bool (e = PRIMARY_B0)"
proof -
  have "unat (m_observed m') = unat (m_observed m) + of_bool (e = PRIMARY_B0)"
    using protocol_step_contacts [OF pipeline_callback.feed_refines [OF assms]] by simp
  then have "(of_nat (unat (m_observed m')) :: u32) = of_nat (unat (m_observed m) + of_bool (e = PRIMARY_B0))"
    by simp
  then show ?thesis by simp
qed

lemma pipeline_feed_model_inv:
  assumes inv: "model_inv m" "\<not> m_failed m"
    and aud: "pa_failed (pl_audit p) = pl_failed p" "\<not> pl_failed p"
    and cnt: "pa_construct (pl_audit p) = m_observed m + of_bool (e = PRIMARY_B0)"
      "pa_delivery (pl_audit p) = m_completed m" "pa_auxiliary_delivery (pl_audit p) = 0"
    and pend: "pl_pending p \<noteq> None \<longleftrightarrow> m_delivery_pending m \<or> e = PRIMARY_B0"
      "pl_pending p \<noteq> None \<longrightarrow> \<not> pl_retry p"
    and feed: "pipeline_feed_model image_ready e (m, p, u) = (r, mpu)"
  shows "pipe_inv mpu"
proof -
  let ?sr = "pipeline_stage_ready image_ready"
  obtain rr m' p' u' where f: "enrollment_model_feed ?sr e (m, p, u) = (rr, m', p', u')"
    by (metis prod_cases4)
  show ?thesis
  proof (cases rr)
    case (Reject x)
    with feed f show ?thesis
      by (auto simp: pipeline_feed_model_def Let_def pipe_inv_def)
  next
    case Accept
    note f = f [unfolded Accept]
    have inv': "model_inv m'" "\<not> m_failed m'"
      using pipeline_callback.feed_inv [OF inv(1) f] pipeline_callback.feed_accepts [OF f] by auto
    have obs: "m_observed m' = m_observed m + of_bool (e = PRIMARY_B0)"
      by (rule feed_observed [OF inv(1) f])
    from pipeline_callback.feed_shape [OF inv(1) f] show ?thesis
    proof
      assume none: "delivers_none (m_delivery_pending m \<or> e = PRIMARY_B0) m (p, u) m' (p', u')"
      then have eq: "p' = p" "u' = u" "m_completed m' = m_completed m"
        "m_delivery_pending m' = (m_delivery_pending m \<or> e = PRIMARY_B0)"
        by (auto simp: delivers_none_def)
      have "mpu = (m', (if pl_retry p then p\<lparr>pl_pending := None\<rparr> else p), u)"
        using feed f eq Accept by (auto simp: pipeline_feed_model_def Let_def)
      with inv' obs cnt aud pend eq show ?thesis
        by (auto simp: pipe_inv_def pipe_counts_def)
    next
      assume "(m_delivery_pending m \<or> e = PRIMARY_B0) \<and> delivers_once ?sr m (p, u) m' (p', u')"
      then have room: "m_delivery_pending m \<or> e = PRIMARY_B0" and
        once: "delivers_once ?sr m (p, u) m' (p', u')" by auto
      from once obtain i m1 m2 where d: "deliver_stage ?sr i (m1, p, u) = (Accept, m2, p', u')"
        and eq: "m_completed m1 = m_completed m" "m_completed m' = m_completed m2"
          "\<not> m_delivery_pending m'"
        unfolding delivers_once_def by auto
      note del = pipeline_deliver_accepted [OF d]
      have "m_delivery_pending m \<or> m_observed m < m_max_physical m"
      proof (cases "m_delivery_pending m")
        case False
        with room have "e = PRIMARY_B0" by simp
        with pipeline_callback.feed_refines [OF inv(1) f]
        have "unat (m_observed m) < unat (m_max_physical m)"
          by (auto elim: protocol_step.cases simp: plain_next_cases)
        then show ?thesis by (simp add: word_less_nat_alt)
      qed simp
      from completed_room [OF inv this] have less: "m_completed m < m_completed m + 1" .
      have "mpu = (m', p'\<lparr>pl_pending := None\<rparr>, u')"
        using feed f Accept del eq less
        by (auto simp: pipeline_feed_model_def Let_def split: if_split_asm)
      with inv' obs cnt aud del eq show ?thesis
        by (auto simp: pipe_inv_def pipe_counts_def split: if_split_asm)
    qed
  qed
qed


lemma pipe_failed_inv: "pipe_inv (m, pipe_failed p, u)"
  by (simp add: pipe_inv_def pipe_failed_def)

lemma pipeline_new_inv: "pipeline_new config u = Inr mpu \<Longrightarrow> pipe_inv mpu"
proof (cases "enrollment_model_new config")
  case (Inr m)
  assume new: "pipeline_new config u = Inr mpu"
  have "model_inv m" "\<not> m_failed m"
    using model_inv_new [OF Inr] new_model_fields [OF Inr] by simp_all
  moreover have "m_observed m = 0" "m_completed m = 0" "\<not> m_delivery_pending m"
    using Inr by (auto simp: enrollment_model_new_def split: if_split_asm)
  ultimately show ?thesis
    using new Inr by (auto simp: pipeline_new_def pipe_inv_def pipe_counts_def)
qed (simp add: pipeline_new_def)

lemma pipeline_feed_inv:
  assumes inv: "pipe_inv mpu"
  shows "pipe_inv (snd (pipeline_feed env image_ready e ss mpu))"
proof -
  obtain m p u where mpu: "mpu = (m, p, u)" by (metis prod_cases3)
  show ?thesis
  proof (cases "pl_failed p \<or> m_complete m")
    case True
    with inv show ?thesis by (simp add: mpu pipeline_feed_def)
  next
    case False
    with inv have live: "\<not> pl_failed p" "\<not> m_complete m" "model_inv m" "\<not> m_failed m" "pipe_counts m p"
      "pl_pending p \<noteq> None \<longleftrightarrow> m_delivery_pending m" "pl_pending p \<noteq> None \<longrightarrow> \<not> pl_retry p"
      "pa_failed (pl_audit p) = pl_failed p"
      by (simp_all add: mpu pipe_inv_def)
    let ?bad = "e \<noteq> m_expected m \<and> \<not> (e = ZERO_MASK_RECOVERY \<and> m_expected m = IRQ0100)"
    have head: "pipeline_feed env image_ready e ss mpu =
        (if ?bad then
           (let (reply, m', p', u') = enrollment_model_feed (pipeline_stage_ready image_ready) e (m, p, u)
            in (reply, m', pipe_failed p', u'))
         else snd (pipeline_feed env image_ready e ss mpu, pipeline_feed env image_ready e ss mpu))"
      using live(1,2) by (simp add: mpu pipeline_feed_def)
    show ?thesis
    proof (cases ?bad)
      case True
      then show ?thesis
        by (subst head) (simp add: case_prod_beta pipe_failed_inv)
    next
      case expected: False
      show ?thesis
      proof (cases "e = PRIMARY_B0")
        case False
        with expected live(1,2) have "pipeline_feed env image_ready e ss mpu =
            (if ss \<noteq> None then (Reject (Pipeline_Error PIPELINE_ERROR_ARGUMENT), m, pipe_failed p, u)
             else pipeline_feed_model image_ready e (m, p, u))"
          by (auto simp: mpu pipeline_feed_def pipeline_fail_def)
        moreover have "pipe_inv (snd (pipeline_feed_model image_ready e (m, p, u)))"
        proof (rule pipeline_feed_model_inv [of m p e])
          show "pipeline_feed_model image_ready e (m, p, u) =
              (fst (pipeline_feed_model image_ready e (m, p, u)),
               snd (pipeline_feed_model image_ready e (m, p, u)))" by simp
        qed (use live False in \<open>simp_all add: pipe_counts_def\<close>)
        ultimately show ?thesis
          by (simp add: pipe_failed_inv)
      next
        case True
        have "m_expected m = PRIMARY_B0"
          using expected True by auto
        with model_inv_live(3) [OF live(3,2,4)] have "\<not> m_delivery_pending m"
          by (simp add: model_position_def pre_primary_def)
        with live(6) have none: "pl_pending p = None" by auto
        let ?p0 = "p\<lparr>pl_retry := False\<rparr>"
        let ?p1 = "\<lambda>pending. ?p0\<lparr>pl_pending := pending,
          pl_audit := (pl_audit p)\<lparr>pa_construct := pa_construct (pl_audit p) + 1\<rparr>\<rparr>"
        obtain res pending where new: "fpimage_pipeline_new env ss None = (res, pending)" by fastforce
        have eq: "pipeline_feed env image_ready e ss mpu =
            (if ss = None \<or> length (the ss) \<noteq> IMAGE_SAMPLES
             then (Reject (Pipeline_Error PIPELINE_ERROR_ARGUMENT), m, pipe_failed ?p0, u)
             else if res \<noteq> FPIMAGE_PIPELINE_OK \<or>
               fpimage_pipeline_check_ppmm_requirement pending PPMM_CONSUMER_NBIS \<noteq> FPIMAGE_PIPELINE_OK
             then (Reject (Pipeline_Error PIPELINE_ERROR_IMAGE), m,
                   pipe_failed (?p0\<lparr>pl_pending := pending, pl_pending := None\<rparr>), u)
             else pipeline_feed_model image_ready e (m, ?p1 pending, u))"
          using True \<open>m_expected m = PRIMARY_B0\<close> live(1,2) none new
          by (cases ss) (simp_all add: mpu pipeline_feed_def pipeline_fail_def Let_def)
        have "pipe_inv (snd (pipeline_feed_model image_ready e (m, ?p1 pending, u)))"
          if "fpimage_pipeline_check_ppmm_requirement pending PPMM_CONSUMER_NBIS = FPIMAGE_PIPELINE_OK"
        proof (rule pipeline_feed_model_inv [of m "?p1 pending" e])
          show "pipeline_feed_model image_ready e (m, ?p1 pending, u) =
              (fst (pipeline_feed_model image_ready e (m, ?p1 pending, u)),
               snd (pipeline_feed_model image_ready e (m, ?p1 pending, u)))" by simp
          have "pending \<noteq> None"
            using that by (cases pending) (simp_all add: fpimage_pipeline_check_ppmm_requirement_def)
          then show "pl_pending (?p1 pending) \<noteq> None \<longleftrightarrow> m_delivery_pending m \<or> e = PRIMARY_B0"
            using True by simp
        qed (use live True in \<open>simp_all add: pipe_counts_def\<close>)
        then show ?thesis
          unfolding eq by (auto simp: pipe_failed_inv split: if_split)
      qed
    qed
  qed
qed

section \<open>The pipeline as a machine\<close>

type_synonym pipeline_call = "allocator \<times> enrollment_event \<times> u16 list option"

definition pipeline_machine :: "'u image_func \<Rightarrow> (pipeline_call, gerror, 'u pipeline) machine" where
  "pipeline_machine image_ready call mpu =
     (case call of (env, e, ss) \<Rightarrow> pipeline_feed env image_ready e ss mpu)"

interpretation pipeline_terminal: absorbing_machine
    "pipeline_machine image_ready" "\<lambda>mpu. pl_failed (fst (snd mpu)) \<or> m_complete (fst mpu)"
    for image_ready
  by unfold_locales (auto simp: pipeline_machine_def pipeline_feed_def split: prod.splits)

lemma pipeline_run_inv:
  assumes "pipeline_new config u = Inr mpu"
  shows "pipe_inv (snd (run_ops (pipeline_machine image_ready) calls mpu))"
proof -
  have "machine_invariant (pipeline_machine image_ready) mpu pipe_inv"
    by unfold_locales
       (use pipeline_new_inv [OF assms] pipeline_feed_inv in
        \<open>auto simp: pipeline_machine_def split: prod.split\<close>)
  then show ?thesis by (rule machine_invariant.inv_run)
qed

section \<open>Properties\<close>

text \<open>
  Claim C11. Provenance: after any calls on a new pipeline, while it has not failed, it holds
  an image exactly when a stage is still to be delivered; it has built one image for each
  physical contact and delivered one for each completed stage, and never one from an
  auxiliary record; a failed pipeline holds no image.
\<close>

theorem pipeline_one_image_per_contact:
  assumes "pipeline_new config u = Inr start"
    and "snd (run_ops (pipeline_machine image_ready) calls start) = (m, p, u')"
  shows "(pl_failed p \<longrightarrow> pl_pending p = None) \<and>
    (\<not> pl_failed p \<longrightarrow>
       (pl_pending p \<noteq> None \<longleftrightarrow> m_delivery_pending m) \<and>
       pa_construct (pl_audit p) = m_observed m \<and>
       pa_delivery (pl_audit p) = m_completed m \<and>
       pa_auxiliary_delivery (pl_audit p) = 0 \<and>
       unat (m_completed m) + unat (ma_retry_stage (m_audit m)) + of_bool (m_delivery_pending m) =
         unat (m_observed m) \<and>
       (m_complete m \<longrightarrow> pl_pending p = None))"
  using pipeline_run_inv [OF assms(1), of image_ready calls] assms(2)
  by (auto simp: pipe_inv_def pipe_counts_def model_inv_def model_counts_def)

definition plain_consumer :: "unit image_func" where
  "plain_consumer m p i img u = ([], Callback_True, ())"

lemma pipeline_one_image_per_contact_witness:
  "\<exists>m p start. pipeline_new two_stages () = Inr start \<and>
     snd (run_ops (pipeline_machine plain_consumer)
       [(\<lparr>try_new0_ok = True, fp_image_new_ok = True, try_malloc_ok = True\<rparr>, IRQ2, None)] start) = (m, p, ()) \<and>
     (\<not> pl_failed p \<longrightarrow> pa_construct (pl_audit p) = m_observed m)"
proof -
  obtain m0 where m0: "enrollment_model_new two_stages = Inr m0"
    using two_stages_new by blast
  then obtain start where start: "pipeline_new two_stages () = Inr start"
    by (simp add: pipeline_new_def)
  obtain m p where run: "snd (run_ops (pipeline_machine plain_consumer)
      [(\<lparr>try_new0_ok = True, fp_image_new_ok = True, try_malloc_ok = True\<rparr>, IRQ2, None)] start) = (m, p, ())"
    by (metis old.unit.exhaust prod_cases3)
  with pipeline_one_image_per_contact [OF start run] start show ?thesis by blast
qed

end
