(* ===== verification/Command_Plan.thy ===== *)
theory Command_Plan
  imports Enrollment_Pipeline
begin

text \<open>
  The command intent layer (\<^verbatim>\<open>goodix_enrollment_command_plan.c\<close>): observations are fed to
  the pipeline, commands are first peeked as typed intents and then committed. The intent
  output parameter is the result of \<open>command_plan_peek\<close>.
\<close>

datatype command_purpose =
    PURPOSE_PRIMARY_ACQUIRE | PURPOSE_PRE_AUX_FDT | PURPOSE_AUX_FDT_SCAN
  | PURPOSE_AUXILIARY_TRANSITION | PURPOSE_FINGER_UP | PURPOSE_FIRST_NAV_PREPARE
  | PURPOSE_FIRST_NAV | PURPOSE_INTER_STAGE_REARM | PURPOSE_IRQ80_REARM

datatype body_class = BODY_SIMPLE_01_00 | BODY_FDT_0A01 | BODY_FDT_0901 | BODY_FDT_TIMESTAMP_0801

record command_intent =
  in_event :: enrollment_event
  in_purpose :: command_purpose
  in_body_class :: body_class
  in_stage_index :: u32
  in_control :: u8
  in_wire_frame_serializable :: bool

record plan_audit =
  pn_committed :: u32
  pn_command_20 :: u32
  pn_command_22 :: u32
  pn_command_32 :: u32
  pn_command_34 :: u32
  pn_command_36 :: u32
  pn_command_50 :: u32
  pn_pre_aux_fdt :: u32
  pn_finger_up :: u32
  pn_first_nav_prepare :: u32
  pn_inter_stage_rearm :: u32
  pn_retry :: u32
  pn_serialized :: u32
  pn_audit_failed :: bool

record 'u command_plan =
  cp_pipeline :: "'u pipeline"
  cp_audit :: plan_audit
  cp_last_event :: enrollment_event
  cp_max_physical :: u32
  cp_failed :: bool

definition is_command_event :: "enrollment_event \<Rightarrow> bool" where
  "is_command_event event \<longleftrightarrow>
     event = COMMAND_20 \<or> event = COMMAND_22 \<or> event = COMMAND_32 \<or>
     event = COMMAND_34 \<or> event = COMMAND_36 \<or> event = COMMAND_50"

definition plan_audit_zero :: plan_audit where
  "plan_audit_zero = \<lparr>pn_committed = 0, pn_command_20 = 0, pn_command_22 = 0, pn_command_32 = 0,
     pn_command_34 = 0, pn_command_36 = 0, pn_command_50 = 0, pn_pre_aux_fdt = 0, pn_finger_up = 0,
     pn_first_nav_prepare = 0, pn_inter_stage_rearm = 0, pn_retry = 0, pn_serialized = 0,
     pn_audit_failed = False\<rparr>"

definition command_plan_new :: "model_config \<Rightarrow> 'u \<Rightarrow> gerror + 'u command_plan" where
  "command_plan_new config u =
     (case pipeline_new config u of
        Inl e \<Rightarrow> Inl e
      | Inr pipeline \<Rightarrow> Inr
          \<lparr>cp_pipeline = pipeline, cp_audit = plan_audit_zero, cp_last_event = EVENT_NONE,
           cp_max_physical = effective_max config, cp_failed = False\<rparr>)"

abbreviation plan_model :: "'u command_plan \<Rightarrow> enrollment_model" where
  "plan_model plan \<equiv> fst (cp_pipeline plan)"

definition plan_failed :: "'u command_plan \<Rightarrow> 'u command_plan" where
  "plan_failed plan = plan\<lparr>cp_failed := True, cp_audit := (cp_audit plan)\<lparr>pn_audit_failed := True\<rparr>\<rparr>"

definition plan_fail :: "'u command_plan \<Rightarrow> plan_error \<Rightarrow> gerror reply \<times> 'u command_plan" where
  "plan_fail plan code = (Reject (Plan_Error code), plan_failed plan)"

definition command_plan_observe ::
    "allocator \<Rightarrow> 'u image_func \<Rightarrow> enrollment_event \<Rightarrow> u16 list option \<Rightarrow> 'u command_plan
       \<Rightarrow> gerror reply \<times> 'u command_plan" where
  "command_plan_observe env image_ready event samples plan =
     (if cp_failed plan \<or> m_complete (plan_model plan) then plan_fail plan PLAN_ERROR_STATE
      else if is_command_event event \<or> event = EVENT_NONE then plan_fail plan PLAN_ERROR_ARGUMENT
      else case pipeline_feed env image_ready event samples (cp_pipeline plan) of
          (Reject e, pipeline) \<Rightarrow> (Reject e, plan_failed (plan\<lparr>cp_pipeline := pipeline\<rparr>))
        | (Accept, pipeline) \<Rightarrow>
            (Accept, plan\<lparr>cp_pipeline := pipeline, cp_last_event := event\<rparr>))"

text \<open>The \<^verbatim>\<open>switch\<close> of \<^verbatim>\<open>goodix_enrollment_command_plan_peek\<close>: control, purpose, body class.\<close>

definition planned_command ::
    "'u command_plan \<Rightarrow> enrollment_transition \<Rightarrow> enrollment_event
       \<Rightarrow> (u8 \<times> command_purpose \<times> body_class) option" where
  "planned_command plan transition event =
     (case event of
        COMMAND_20 \<Rightarrow> Some (0x20, PURPOSE_AUXILIARY_TRANSITION, BODY_SIMPLE_01_00)
      | COMMAND_22 \<Rightarrow> Some (0x22, PURPOSE_PRIMARY_ACQUIRE, BODY_SIMPLE_01_00)
      | COMMAND_32 \<Rightarrow> Some (0x32,
          (if transition = TRANSITION_FIRST_NAV \<and> pn_command_50 (cp_audit plan) = 0
           then PURPOSE_FIRST_NAV_PREPARE else PURPOSE_INTER_STAGE_REARM),
          BODY_FDT_TIMESTAMP_0801)
      | COMMAND_34 \<Rightarrow> Some (0x34,
          (if transition \<noteq> TRANSITION_FIRST_NAV \<and> cp_last_event plan = PRIMARY_B0
           then PURPOSE_PRE_AUX_FDT else PURPOSE_FINGER_UP),
          BODY_FDT_0A01)
      | COMMAND_36 \<Rightarrow> Some (0x36, PURPOSE_AUX_FDT_SCAN, BODY_FDT_0901)
      | COMMAND_50 \<Rightarrow> Some (0x50, PURPOSE_FIRST_NAV, BODY_SIMPLE_01_00)
      | _ \<Rightarrow> None)"

definition command_plan_peek :: "'u command_plan \<Rightarrow> command_intent option" where
  "command_plan_peek plan =
     (if cp_failed plan \<or> m_complete (plan_model plan) then None
      else
        let event = m_expected (plan_model plan) in
        if \<not> is_command_event event then None
        else
          let observed = ma_observed_primary (m_audit (plan_model plan));
              stage_index = (if event = COMMAND_22 then observed + 1 else observed);
              transition = (if observed = 1 then TRANSITION_FIRST_NAV
                            else if observed = cp_max_physical plan then TRANSITION_TERMINAL
                            else TRANSITION_REPEATED_REARM)
          in case planned_command plan transition event of
               None \<Rightarrow> None
             | Some (control, purpose, class) \<Rightarrow>
                 Some \<lparr>in_event = event, in_purpose = purpose, in_body_class = class,
                   in_stage_index = stage_index, in_control = control,
                   in_wire_frame_serializable = False\<rparr>)"

definition count_control :: "u8 \<Rightarrow> plan_audit \<Rightarrow> plan_audit" where
  "count_control control a =
     (if control = 0x20 then a\<lparr>pn_command_20 := pn_command_20 a + 1\<rparr>
      else if control = 0x22 then a\<lparr>pn_command_22 := pn_command_22 a + 1\<rparr>
      else if control = 0x32 then a\<lparr>pn_command_32 := pn_command_32 a + 1\<rparr>
      else if control = 0x34 then a\<lparr>pn_command_34 := pn_command_34 a + 1\<rparr>
      else if control = 0x36 then a\<lparr>pn_command_36 := pn_command_36 a + 1\<rparr>
      else if control = 0x50 then a\<lparr>pn_command_50 := pn_command_50 a + 1\<rparr>
      else a)"

definition count_purpose :: "command_purpose \<Rightarrow> plan_audit \<Rightarrow> plan_audit" where
  "count_purpose purpose a =
     (case purpose of
        PURPOSE_PRE_AUX_FDT \<Rightarrow> a\<lparr>pn_pre_aux_fdt := pn_pre_aux_fdt a + 1\<rparr>
      | PURPOSE_FINGER_UP \<Rightarrow> a\<lparr>pn_finger_up := pn_finger_up a + 1\<rparr>
      | PURPOSE_FIRST_NAV_PREPARE \<Rightarrow> a\<lparr>pn_first_nav_prepare := pn_first_nav_prepare a + 1\<rparr>
      | PURPOSE_INTER_STAGE_REARM \<Rightarrow> a\<lparr>pn_inter_stage_rearm := pn_inter_stage_rearm a + 1\<rparr>
      | _ \<Rightarrow> a)"

definition record_intent :: "command_intent \<Rightarrow> plan_audit \<Rightarrow> plan_audit" where
  "record_intent intent a =
     count_purpose (in_purpose intent)
       (count_control (in_control intent) (a\<lparr>pn_committed := pn_committed a + 1\<rparr>))"

definition command_plan_commit ::
    "allocator \<Rightarrow> 'u image_func \<Rightarrow> enrollment_event \<Rightarrow> 'u command_plan
       \<Rightarrow> gerror reply \<times> 'u command_plan" where
  "command_plan_commit env image_ready command_event plan =
     (case command_plan_peek plan of
        None \<Rightarrow> plan_fail plan PLAN_ERROR_STATE
      | Some intent \<Rightarrow>
          if command_event \<noteq> in_event intent
          then plan_fail
                 (plan\<lparr>cp_pipeline :=
                    snd (pipeline_feed env image_ready command_event None (cp_pipeline plan))\<rparr>)
                 PLAN_ERROR_PROTOCOL
          else case pipeline_feed env image_ready command_event None (cp_pipeline plan) of
              (Reject e, pipeline) \<Rightarrow> (Reject e, plan_failed (plan\<lparr>cp_pipeline := pipeline\<rparr>))
            | (Accept, pipeline) \<Rightarrow>
                (Accept, plan\<lparr>cp_pipeline := pipeline, cp_audit := record_intent intent (cp_audit plan),
                   cp_last_event := command_event\<rparr>))"

definition command_plan_is_complete :: "'u command_plan \<Rightarrow> bool" where
  "command_plan_is_complete plan \<longleftrightarrow> \<not> cp_failed plan \<and> m_complete (plan_model plan)"

definition command_plan_is_failed :: "'u command_plan \<Rightarrow> bool" where
  "command_plan_is_failed plan \<longleftrightarrow> cp_failed plan \<or> pipeline_is_failed (cp_pipeline plan)"

definition command_plan_get_expected_event :: "'u command_plan \<Rightarrow> enrollment_event" where
  "command_plan_get_expected_event plan =
     (if cp_failed plan then EVENT_NONE else m_expected (plan_model plan))"

section \<open>Invariant\<close>

text \<open>
  The pipeline's invariant, agreement of the two layers about failure and limits, and the
  balance of the commit counters.
\<close>

definition plan_balance :: "plan_audit \<Rightarrow> bool" where
  "plan_balance a \<longleftrightarrow>
     pn_committed a = pn_command_20 a + pn_command_22 a + pn_command_32 a + pn_command_34 a +
       pn_command_36 a + pn_command_50 a \<and>
     pn_command_34 a = pn_pre_aux_fdt a + pn_finger_up a \<and>
     pn_command_32 a = pn_first_nav_prepare a + pn_inter_stage_rearm a \<and>
     pn_retry a = 0 \<and> pn_serialized a = 0"

definition plan_inv :: "'u command_plan \<Rightarrow> bool" where
  "plan_inv plan \<longleftrightarrow>
     pipe_inv (cp_pipeline plan) \<and> plan_balance (cp_audit plan) \<and>
     pn_audit_failed (cp_audit plan) = cp_failed plan \<and>
     (pl_failed (fst (snd (cp_pipeline plan))) \<longrightarrow> cp_failed plan) \<and>
     cp_max_physical plan = m_max_physical (plan_model plan)"


lemma pipeline_feed_model_limits:
  "limits (fst (snd (pipeline_feed_model image_ready e (m, p, u)))) = limits m"
proof -
  obtain r m' p' u' where f: "enrollment_model_feed (pipeline_stage_ready image_ready) e (m, p, u) = (r, m', p', u')"
    by (metis prod_cases4)
  with pipeline_callback.limits_feed [OF f] show ?thesis
    by (simp add: pipeline_feed_model_def Let_def)
qed

lemma pipeline_feed_limits:
  "limits (fst (snd (pipeline_feed env image_ready e ss (m, p, u)))) = limits m"
proof -
  obtain r m' p' u' where f: "enrollment_model_feed (pipeline_stage_ready image_ready) e (m, p, u) = (r, m', p', u')"
    by (metis prod_cases4)
  obtain res pending where new: "fpimage_pipeline_new env ss (pl_pending p) = (res, pending)" by fastforce
  from pipeline_callback.limits_feed [OF f] show ?thesis
    by (cases ss) (auto simp: pipeline_feed_def f new pipeline_fail_def Let_def
        pipeline_feed_model_limits split: prod.split)
qed

text \<open>An accepted call fed the model exactly once, and left it alive.\<close>

lemma pipeline_feed_accept:
  assumes "pipeline_feed env image_ready e ss (m, p, u) = (Accept, m', p', u')"
  obtains p1 p2 where
    "enrollment_model_feed (pipeline_stage_ready image_ready) e (m, p1, u) = (Accept, m', p2, u')"
    "pl_failed p' = pl_failed p2" "\<not> pl_failed p" "\<not> m_complete m" "pl_failed p1 = pl_failed p"
proof -
  have fed: "pipeline_feed_model image_ready e (m, q, u) = (Accept, m', p', u') \<Longrightarrow>
      \<exists>p2. enrollment_model_feed (pipeline_stage_ready image_ready) e (m, q, u) = (Accept, m', p2, u') \<and>
        pl_failed p' = pl_failed p2" for q
  proof -
    assume h: "pipeline_feed_model image_ready e (m, q, u) = (Accept, m', p', u')"
    obtain r m1 p1 u1 where f: "enrollment_model_feed (pipeline_stage_ready image_ready) e (m, q, u) =
        (r, m1, p1, u1)" by (metis prod_cases4)
    with h have "r = Accept" "m1 = m'" "u1 = u'" "pl_failed p' = pl_failed p1"
      by (auto simp: pipeline_feed_model_def Let_def split: if_split_asm)
    with f show ?thesis by auto
  qed
  have alive: "\<not> (pl_failed p \<or> m_complete m)"
    using assms by (auto simp: pipeline_feed_def)
  have expected: "\<not> (e \<noteq> m_expected m \<and> \<not> (e = ZERO_MASK_RECOVERY \<and> m_expected m = IRQ0100))"
  proof
    assume bad: "e \<noteq> m_expected m \<and> \<not> (e = ZERO_MASK_RECOVERY \<and> m_expected m = IRQ0100)"
    have "fst (enrollment_model_feed (pipeline_stage_ready image_ready) e (m, p, u)) \<noteq> Accept"
    proof (cases "m_failed m")
      case True then show ?thesis by (simp add: feed_terminal)
    next
      case False then show ?thesis
        using alive by (subst feed_unexpected) (use bad in simp_all)
    qed
    with assms alive bad show False
      by (auto simp: pipeline_feed_def Let_def case_prod_beta)
  qed
  obtain res pending where new: "fpimage_pipeline_new env ss (pl_pending p) = (res, pending)" by fastforce
  have "\<exists>q. pipeline_feed_model image_ready e (m, q, u) = (Accept, m', p', u') \<and> pl_failed q = pl_failed p"
    using assms alive expected new
    unfolding pipeline_feed_def Let_def pipeline_fail_def
    by (cases ss; cases "e = PRIMARY_B0"; auto split: if_split_asm)
  with fed alive that show thesis by metis
qed


lemma accepted_not_failed:
  assumes "pipeline_feed env image_ready e ss (m, p, u) = (Accept, m', p', u')"
    "pipe_inv (m, p, u)"
  shows "\<not> pl_failed p'"
proof -
  from assms(1) obtain p1 p2 where
    f: "enrollment_model_feed (pipeline_stage_ready image_ready) e (m, p1, u) = (Accept, m', p2, u')"
    and eq: "pl_failed p' = pl_failed p2" "\<not> pl_failed p" "pl_failed p1 = pl_failed p"
    by (rule pipeline_feed_accept)
  have "model_inv m"
    using assms(2) eq(2) by (simp add: pipe_inv_def)
  from pipeline_callback.feed_shape [OF this f] have "pl_failed p2 = pl_failed p1"
    by (auto simp: delivers_none_def delivers_once_def dest: pipeline_deliver_accepted)
  with eq show ?thesis by simp
qed

lemma plan_failed_inv:
  "plan_inv plan \<Longrightarrow> pipe_inv mpu \<Longrightarrow> limits (fst mpu) = limits (plan_model plan) \<Longrightarrow>
     plan_inv (plan_failed (plan\<lparr>cp_pipeline := mpu\<rparr>))"
  by (simp add: plan_inv_def plan_failed_def plan_balance_def limits_def)

lemma plan_fail_inv: "plan_inv plan \<Longrightarrow> plan_inv (snd (plan_fail plan code))"
  by (simp add: plan_inv_def plan_fail_def plan_failed_def plan_balance_def)

lemma plan_new_inv:
  assumes "command_plan_new config u = Inr plan"
  shows "plan_inv plan"
proof -
  obtain pipeline where p: "pipeline_new config u = Inr pipeline"
    using assms by (cases "pipeline_new config u") (simp_all add: command_plan_new_def)
  obtain m where m: "enrollment_model_new config = Inr m" "fst pipeline = m"
    "\<not> pl_failed (fst (snd pipeline))"
    using p by (cases "enrollment_model_new config") (auto simp: pipeline_new_def)
  have "plan = \<lparr>cp_pipeline = pipeline, cp_audit = plan_audit_zero, cp_last_event = EVENT_NONE,
      cp_max_physical = effective_max config, cp_failed = False\<rparr>"
    using assms p by (simp add: command_plan_new_def)
  with pipeline_new_inv [OF p] m(2,3) new_model_fields(1) [OF m(1)] show ?thesis
    by (simp add: plan_inv_def plan_audit_zero_def plan_balance_def)
qed

lemma feed_step_inv:
  assumes "pipe_inv (m, p, u)" "pipeline_feed env image_ready e ss (m, p, u) = (r, mpu)"
  shows "pipe_inv mpu" "limits (fst mpu) = limits m" "r = Accept \<Longrightarrow> \<not> pl_failed (fst (snd mpu))"
proof -
  show "pipe_inv mpu"
    using pipeline_feed_inv [OF assms(1), of env image_ready e ss] assms(2) by simp
  show "limits (fst mpu) = limits m"
    using pipeline_feed_limits [of env image_ready e ss m p u] assms(2) by simp
  assume "r = Accept"
  with assms(2) obtain m' p' u' where f: "pipeline_feed env image_ready e ss (m, p, u) = (Accept, m', p', u')"
    and mpu: "mpu = (m', p', u')" by (metis prod_cases3)
  show "\<not> pl_failed (fst (snd mpu))"
    using accepted_not_failed [OF f assms(1)] mpu by simp
qed

lemma observe_inv:
  assumes "plan_inv plan"
  shows "plan_inv (snd (command_plan_observe env image_ready e ss plan))"
proof -
  obtain m p u where mpu: "cp_pipeline plan = (m, p, u)" by (metis prod_cases3)
  obtain r q where f: "pipeline_feed env image_ready e ss (m, p, u) = (r, q)" by (metis surj_pair)
  have "pipe_inv (m, p, u)"
    using assms mpu by (simp add: plan_inv_def)
  note st = feed_step_inv [OF this f]
  show ?thesis
  proof (cases "cp_failed plan \<or> m_complete m \<or> is_command_event e \<or> e = EVENT_NONE")
    case True
    then show ?thesis
      using plan_fail_inv [OF assms] by (auto simp: command_plan_observe_def mpu)
  next
    case False
    show ?thesis
    proof (cases r)
      case Accept
      have eq: "command_plan_observe env image_ready e ss plan =
          (Accept, plan\<lparr>cp_pipeline := q, cp_last_event := e\<rparr>)"
        using False f mpu Accept by (simp add: command_plan_observe_def)
      show ?thesis
        unfolding eq using assms st Accept mpu by (simp add: plan_inv_def limits_def)
    next
      case (Reject x)
      have "command_plan_observe env image_ready e ss plan =
          (Reject x, plan_failed (plan\<lparr>cp_pipeline := q\<rparr>))"
        using False f mpu Reject by (simp add: command_plan_observe_def)
      with st(1,2) mpu plan_failed_inv [OF assms, of q] show ?thesis by simp
    qed
  qed
qed

lemma peek_some:
  assumes "command_plan_peek plan = Some intent"
  shows "\<not> cp_failed plan" "\<not> m_complete (plan_model plan)"
    "in_event intent = m_expected (plan_model plan)" "is_command_event (in_event intent)"
    "in_wire_frame_serializable intent = False"
    "in_stage_index intent = (if in_event intent = COMMAND_22
       then ma_observed_primary (m_audit (plan_model plan)) + 1
       else ma_observed_primary (m_audit (plan_model plan)))"
    "\<exists>t. planned_command plan t (in_event intent) =
       Some (in_control intent, in_purpose intent, in_body_class intent)"
  using assms
  by (auto simp: command_plan_peek_def Let_def split: if_split_asm option.splits)

lemma record_intent_balance:
  assumes "plan_balance a" "planned_command plan t e = Some (in_control i, in_purpose i, in_body_class i)"
  shows "plan_balance (record_intent i a) \<and> pn_audit_failed (record_intent i a) = pn_audit_failed a"
  using assms unfolding plan_balance_def
  by (auto simp: planned_command_def record_intent_def count_purpose_def count_control_def
      split: enrollment_event.splits if_split_asm)

lemma commit_inv:
  assumes "plan_inv plan"
  shows "plan_inv (snd (command_plan_commit env image_ready e plan))"
proof -
  obtain m p u where mpu: "cp_pipeline plan = (m, p, u)" by (metis prod_cases3)
  obtain r q where f: "pipeline_feed env image_ready e None (m, p, u) = (r, q)" by (metis surj_pair)
  have "pipe_inv (m, p, u)"
    using assms mpu by (simp add: plan_inv_def)
  note st = feed_step_inv [OF this f]
  show ?thesis
  proof (cases "command_plan_peek plan")
    case None
    then show ?thesis
      using plan_fail_inv [OF assms] by (simp add: command_plan_commit_def)
  next
    case (Some i)
    note peek = peek_some [OF Some]
    consider "e \<noteq> in_event i" | x where "e = in_event i" "r = Reject x" | "e = in_event i" "r = Accept"
      by (cases r) auto
    then show ?thesis
    proof cases
      case 1
      then show ?thesis
        using Some f mpu st(1,2) plan_failed_inv [OF assms, of q]
        by (simp add: command_plan_commit_def plan_fail_def)
    next
      case 2
      then show ?thesis
        using Some f mpu st(1,2) plan_failed_inv [OF assms, of q]
        by (simp add: command_plan_commit_def)
    next
      case 3
      have eq: "command_plan_commit env image_ready e plan = (Accept, plan\<lparr>cp_pipeline := q,
          cp_audit := record_intent i (cp_audit plan), cp_last_event := e\<rparr>)"
        using Some f mpu 3 by (simp add: command_plan_commit_def)
      have "plan_balance (cp_audit plan)" "pn_audit_failed (cp_audit plan) = cp_failed plan"
        using assms by (simp_all add: plan_inv_def)
      with peek(7) record_intent_balance have
        "plan_balance (record_intent i (cp_audit plan))"
        "pn_audit_failed (record_intent i (cp_audit plan)) = cp_failed plan" by blast+
      then show ?thesis
        unfolding eq using assms st 3 mpu by (simp add: plan_inv_def limits_def)
    qed
  qed
qed


section \<open>The plan as a machine\<close>

datatype plan_call =
    Plan_Observe allocator enrollment_event "u16 list option"
  | Plan_Commit allocator enrollment_event

fun plan_machine :: "'u image_func \<Rightarrow> (plan_call, gerror, 'u command_plan) machine" where
  "plan_machine image_ready (Plan_Observe env e ss) plan = command_plan_observe env image_ready e ss plan"
| "plan_machine image_ready (Plan_Commit env e) plan = command_plan_commit env image_ready e plan"

lemma plan_machine_invariant:
  assumes "command_plan_new config u = Inr start"
  shows "machine_invariant (plan_machine image_ready) start plan_inv"
proof
  show "plan_inv start" by (rule plan_new_inv [OF assms])
  show "plan_inv (snd (plan_machine image_ready call plan))" if "plan_inv plan" for call plan
    using that observe_inv commit_inv by (cases call) auto
qed

lemma plan_reach_inv:
  "command_plan_new config u = Inr start \<Longrightarrow> reach (plan_machine image_ready) start plan \<Longrightarrow> plan_inv plan"
  by (rule machine_invariant.inv_reach [OF plan_machine_invariant])

interpretation plan_terminal: absorbing_machine
    "plan_machine image_ready" "\<lambda>plan. cp_failed plan \<or> m_complete (plan_model plan)"
    for image_ready
proof
  fix call and plan :: "'a command_plan"
  assume dead: "cp_failed plan \<or> m_complete (plan_model plan)"
  then have "command_plan_peek plan = None"
    by (auto simp: command_plan_peek_def)
  with dead show "\<not> accepted (fst (plan_machine image_ready call plan))"
    "cp_failed (snd (plan_machine image_ready call plan)) \<or>
     m_complete (plan_model (snd (plan_machine image_ready call plan)))"
    by (cases call; simp add: command_plan_observe_def command_plan_commit_def plan_fail_def
        plan_failed_def)+
qed

lemma two_stages_plan: "\<exists>plan. command_plan_new two_stages u = Inr plan"
  using two_stages_new by (auto simp: command_plan_new_def pipeline_new_def)

end
