(* ===== verification/Command_Body.thy ===== *)
theory Command_Body
  imports Command_Plan
begin

text \<open>
  The inner command bodies (\<^verbatim>\<open>goodix_enrollment_command_body.c\<close>). The fixed 16-byte array of
  the C structure is a list of length 16 with the length in use beside it; the output
  parameter is returned, cleared when the build is refused. The optional material and audit
  pointers are options.
\<close>

datatype table_role = ROLE_NONE | ROLE_STAGE_UP | ROLE_STAGE_AUX_SCAN | ROLE_TRANSITION_DOWN

abbreviation FDT_TABLE_LENGTH :: nat where "FDT_TABLE_LENGTH \<equiv> 12"
abbreviation BODY_MAX_LENGTH :: nat where "BODY_MAX_LENGTH \<equiv> 16"

record command_material =
  mt_stage_index :: u32
  mt_table_role :: table_role
  mt_fdt_table :: bytes
  mt_timestamp :: u16
  mt_has_fdt_table :: bool
  mt_has_timestamp :: bool

record command_body =
  cb_bytes :: bytes
  cb_length :: nat

record body_audit =
  ba_body_build :: u32
  ba_simple_body :: u32
  ba_fdt_body :: u32
  ba_fdt_timestamp_body :: u32
  ba_rejected_material :: u32
  ba_a0_frame_build :: u32
  ba_submit :: u32

definition command_body_clear :: command_body where
  "command_body_clear = \<lparr>cb_bytes = replicate BODY_MAX_LENGTH 0, cb_length = 0\<rparr>"

definition body_fail ::
    "body_audit option \<Rightarrow> body_error \<Rightarrow> gerror reply \<times> command_body \<times> body_audit option" where
  "body_fail audit code =
     (Reject (Body_Error code), command_body_clear,
      map_option (\<lambda>a. a\<lparr>ba_rejected_material := ba_rejected_material a + 1\<rparr>) audit)"

definition intent_contract_valid :: "command_intent \<Rightarrow> bool" where
  "intent_contract_valid intent \<longleftrightarrow>
     in_stage_index intent \<noteq> 0 \<and>
     (case in_event intent of
        COMMAND_20 \<Rightarrow> in_control intent = 0x20 \<and> in_purpose intent = PURPOSE_AUXILIARY_TRANSITION \<and>
          in_body_class intent = BODY_SIMPLE_01_00
      | COMMAND_22 \<Rightarrow> in_control intent = 0x22 \<and> in_purpose intent = PURPOSE_PRIMARY_ACQUIRE \<and>
          in_body_class intent = BODY_SIMPLE_01_00
      | COMMAND_32 \<Rightarrow> in_control intent = 0x32 \<and>
          (in_purpose intent = PURPOSE_FIRST_NAV_PREPARE \<or>
           in_purpose intent = PURPOSE_INTER_STAGE_REARM \<or> in_purpose intent = PURPOSE_IRQ80_REARM) \<and>
          in_body_class intent = BODY_FDT_TIMESTAMP_0801
      | COMMAND_34 \<Rightarrow> in_control intent = 0x34 \<and>
          (in_purpose intent = PURPOSE_PRE_AUX_FDT \<or> in_purpose intent = PURPOSE_FINGER_UP) \<and>
          in_body_class intent = BODY_FDT_0A01
      | COMMAND_36 \<Rightarrow> in_control intent = 0x36 \<and> in_purpose intent = PURPOSE_AUX_FDT_SCAN \<and>
          in_body_class intent = BODY_FDT_0901
      | COMMAND_50 \<Rightarrow> in_control intent = 0x50 \<and> in_purpose intent = PURPOSE_FIRST_NAV \<and>
          in_body_class intent = BODY_SIMPLE_01_00
      | _ \<Rightarrow> False)"

definition material_valid ::
    "command_intent \<Rightarrow> command_material option \<Rightarrow> table_role \<Rightarrow> bool \<Rightarrow> bool" where
  "material_valid intent material role timestamp =
     (case material of
        None \<Rightarrow> False
      | Some m \<Rightarrow> mt_has_fdt_table m \<and> mt_stage_index m = in_stage_index intent \<and>
          mt_table_role m = role \<and> mt_has_timestamp m = timestamp)"

definition body_role :: "body_class \<Rightarrow> table_role" where
  "body_role class =
     (if class = BODY_FDT_0901 then ROLE_STAGE_AUX_SCAN
      else if class = BODY_FDT_TIMESTAMP_0801 then ROLE_TRANSITION_DOWN
      else ROLE_STAGE_UP)"

text \<open>The bytes of a dynamic body: class byte, 0x01, the table, and the timestamp of class 0801.\<close>

definition fdt_body :: "body_class \<Rightarrow> command_material \<Rightarrow> command_body" where
  "fdt_body class m =
     (let head = (if class = BODY_FDT_0A01 then 0x0a else if class = BODY_FDT_0901 then 0x09 else 0x08);
          prefix = [head, 0x01] @ mt_fdt_table m
      in if class = BODY_FDT_TIMESTAMP_0801
         then \<lparr>cb_bytes = prefix @ [lo8 (mt_timestamp m), hi8 (mt_timestamp m)], cb_length = 16\<rparr>
         else \<lparr>cb_bytes = prefix @ [0, 0], cb_length = 14\<rparr>)"

definition simple_body :: command_body where
  "simple_body = \<lparr>cb_bytes = [0x01, 0x00] @ replicate 14 0, cb_length = 2\<rparr>"

definition command_body_build ::
    "command_intent \<Rightarrow> command_material option \<Rightarrow> body_audit option
       \<Rightarrow> gerror reply \<times> command_body \<times> body_audit option" where
  "command_body_build intent material audit =
     (if in_wire_frame_serializable intent \<or> \<not> intent_contract_valid intent
      then body_fail audit BODY_ERROR_INTENT
      else if in_body_class intent = BODY_SIMPLE_01_00 then
        if material \<noteq> None then body_fail audit BODY_ERROR_MATERIAL
        else (Accept, simple_body,
              map_option (\<lambda>a. a\<lparr>ba_simple_body := ba_simple_body a + 1,
                ba_body_build := ba_body_build a + 1\<rparr>) audit)
      else if \<not> material_valid intent material (body_role (in_body_class intent))
                  (in_body_class intent = BODY_FDT_TIMESTAMP_0801)
      then body_fail audit BODY_ERROR_MATERIAL
      else (Accept, fdt_body (in_body_class intent) (the material),
            map_option (\<lambda>a. (if in_body_class intent = BODY_FDT_TIMESTAMP_0801
                then a\<lparr>ba_fdt_timestamp_body := ba_fdt_timestamp_body a + 1\<rparr>
                else a\<lparr>ba_fdt_body := ba_fdt_body a + 1\<rparr>)
              \<lparr>ba_body_build := ba_body_build a + 1\<rparr>) audit))"

section \<open>What a built body looks like\<close>

lemma build_accept:
  assumes "command_body_build intent material audit = (Accept, body, audit')"
  shows "intent_contract_valid intent" "\<not> in_wire_frame_serializable intent"
    "in_body_class intent = BODY_SIMPLE_01_00 \<Longrightarrow> material = None \<and> body = simple_body"
    "in_body_class intent \<noteq> BODY_SIMPLE_01_00 \<Longrightarrow>
       (\<exists>m. material = Some m \<and> body = fdt_body (in_body_class intent) m \<and> mt_has_fdt_table m \<and>
          mt_stage_index m = in_stage_index intent \<and> mt_table_role m = body_role (in_body_class intent) \<and>
          mt_has_timestamp m = (in_body_class intent = BODY_FDT_TIMESTAMP_0801))"
  using assms
  by (auto simp: command_body_build_def body_fail_def material_valid_def
      split: if_split_asm option.splits)

definition body_used :: "command_body \<Rightarrow> bytes" where
  "body_used body = take (cb_length body) (cb_bytes body)"

lemma body_used_eq:
  "body_used simple_body = [0x01, 0x00]"
  "length (mt_fdt_table m) = 12 \<Longrightarrow> body_used (fdt_body BODY_FDT_0A01 m) = [0x0a, 0x01] @ mt_fdt_table m"
  "length (mt_fdt_table m) = 12 \<Longrightarrow> body_used (fdt_body BODY_FDT_0901 m) = [0x09, 0x01] @ mt_fdt_table m"
  "length (mt_fdt_table m) = 12 \<Longrightarrow> body_used (fdt_body BODY_FDT_TIMESTAMP_0801 m) =
     [0x08, 0x01] @ mt_fdt_table m @ [lo8 (mt_timestamp m), hi8 (mt_timestamp m)]"
  by (simp_all add: body_used_def simple_body_def fdt_body_def Let_def)

lemma body_shape:
  "length (cb_bytes simple_body) = 16"
  "length (mt_fdt_table m) = 12 \<Longrightarrow> length (cb_bytes (fdt_body class m)) = 16"
  "cb_length (fdt_body class m) = (if class = BODY_FDT_TIMESTAMP_0801 then 16 else 14)"
  by (simp_all add: simple_body_def fdt_body_def Let_def)

section \<open>Every planned intent satisfies the contract\<close>

lemma plan_inv_live:
  assumes "plan_inv plan" "\<not> cp_failed plan" "\<not> m_complete (plan_model plan)"
  shows "live (plan_model plan)" "model_counts (plan_model plan)" "model_position (plan_model plan)"
    "cp_max_physical plan = m_max_physical (plan_model plan)"
proof -
  obtain m p u where mpu: "cp_pipeline plan = (m, p, u)" by (metis prod_cases3)
  have "model_inv m" "\<not> m_failed m"
    using assms mpu by (auto simp: plan_inv_def pipe_inv_def)
  with model_inv_live [of m] assms(3) mpu
  show "live (plan_model plan)" "model_counts (plan_model plan)" "model_position (plan_model plan)"
    by simp_all
  show "cp_max_physical plan = m_max_physical (plan_model plan)"
    using assms(1) by (simp add: plan_inv_def)
qed

lemma u32_not_less_0: "x < (y :: u32) \<Longrightarrow> x + 1 \<noteq> 0"
  using u32_Suc_le(1) [of x y] by (metis add_is_0 one_neq_zero unat_eq_zero)

lemma peek_contract:
  assumes "plan_inv plan" "command_plan_peek plan = Some intent"
  shows "intent_contract_valid intent"
proof -
  note peek = peek_some [OF assms(2)]
  note live = plan_inv_live [OF assms(1) peek(1,2)]
  let ?m = "plan_model plan"
  have obs: "ma_observed_primary (m_audit ?m) = m_observed ?m"
    using live(1) by (simp add: live_def model_static_def)
  have "in_stage_index intent \<noteq> 0"
  proof (cases "in_event intent = COMMAND_22")
    case True
    then have "m_observed ?m < m_max_physical ?m"
      using live(3) peek(3) by (simp add: model_position_def pre_primary_def)
    with True peek(6) obs show ?thesis
      using u32_not_less_0 by simp
  next
    case False
    then have "\<not> pre_primary (m_expected ?m)"
      using peek(3,4) by (auto simp: pre_primary_def is_command_event_def)
    then have "1 \<le> m_observed ?m"
      using live(3) by (auto simp: model_position_def in_cycle_def)
    with False peek(6) obs show ?thesis by auto
  qed
  with peek(4,7) show ?thesis
    by (auto simp: intent_contract_valid_def planned_command_def is_command_event_def
        split: if_split_asm)
qed

section \<open>Properties\<close>

text \<open>
  Every command the plan offers, in any state reachable through its own
  operations, satisfies the body builder's contract, and committing it counts exactly one
  command of its kind: the total of commits is the sum over the kinds, and the purposes of
  the two FDT commands add up to their counts.
\<close>

theorem planned_intent_buildable:
  assumes "command_plan_new config u = Inr start" "reach (plan_machine image_ready) start plan"
    and peek: "command_plan_peek plan = Some intent"
  shows "intent_contract_valid intent \<and> \<not> in_wire_frame_serializable intent \<and>
    (\<exists>material. fst (command_body_build intent material None) = Accept) \<and>
    plan_balance (cp_audit plan)"
proof -
  have inv: "plan_inv plan" by (rule plan_reach_inv [OF assms(1,2)])
  have valid: "intent_contract_valid intent" by (rule peek_contract [OF inv peek])
  have ser: "\<not> in_wire_frame_serializable intent"
    using peek_some(5) [OF peek] by simp
  let ?m = "\<lparr>mt_stage_index = in_stage_index intent, mt_table_role = body_role (in_body_class intent),
     mt_fdt_table = replicate 12 0, mt_timestamp = 0, mt_has_fdt_table = True,
     mt_has_timestamp = (in_body_class intent = BODY_FDT_TIMESTAMP_0801)\<rparr>"
  have "fst (command_body_build intent
      (if in_body_class intent = BODY_SIMPLE_01_00 then None else Some ?m) None) = Accept"
    using valid ser by (simp add: command_body_build_def material_valid_def)
  with valid ser inv show ?thesis
    by (auto simp: plan_inv_def)
qed

lemma planned_intent_buildable_witness:
  "\<exists>(plan :: unit command_plan) intent. command_plan_peek plan = Some intent \<and> in_control intent = 0x22 \<and>
     intent_contract_valid intent"
proof -
  obtain start where start: "command_plan_new two_stages () = Inr start"
    using two_stages_plan [of "()"] by auto
  let ?env = "\<lparr>try_new0_ok = True, fp_image_new_ok = True, try_malloc_ok = True\<rparr>"
  let ?plan = "snd (plan_machine plain_consumer (Plan_Observe ?env IRQ2 None) start)"
  have r: "reach (plan_machine plain_consumer) start ?plan"
    by (intro reach_step reach_start)
  obtain m where m: "enrollment_model_new two_stages = Inr m"
    using two_stages_new by blast
  note new = new_model_fields [OF m]
  have "m_expected m = IRQ2"
    using new(3) by (simp add: protocol_of_def protocol_start_def)
  note m0 = this new(4,5)
  have "plan_model ?plan = expect COMMAND_22 (m\<lparr>m_transition := TRANSITION_NONE\<rparr>)" "\<not> cp_failed ?plan"
    using start m m0
    by (auto simp: command_plan_new_def pipeline_new_def command_plan_observe_def pipeline_feed_def
        pipeline_feed_model_def is_command_event_def enrollment_model_feed_def Let_def)
  then obtain intent where i: "command_plan_peek ?plan = Some intent" "in_control intent = 0x22"
    using m0 by (auto simp: command_plan_peek_def is_command_event_def planned_command_def Let_def)
  then have "intent_contract_valid intent"
    using planned_intent_buildable [OF start r i(1)] by simp
  with i show ?thesis by blast
qed

end
