(* ===== verification/Fdt_Irq_Policy.thy ===== *)
theory Fdt_Irq_Policy
  imports Prelude
begin

text \<open>
  Finger-detection (FDT) flag policy and table derivation (\<^verbatim>\<open>goodix_fdt_irq_policy.c\<close>).
  A raw report holds one little-endian halfword for each of six channels, a table holds
  the byte 0x80 and a threshold byte for each. The C loops write the caller's table in
  place and stop at the first channel out of range, so a failing derivation may have
  changed the table: the functions return the verdict and the table as left behind.
\<close>

datatype fdt_flags_context =
    BASELINE_SAMPLE | BASELINE_FIRST_SAMPLE | FINGER_DOWN | CONTACT_SAMPLE | FINGER_UP

abbreviation FDT_TOUCH_MASK :: u16 where
  "FDT_TOUCH_MASK \<equiv> 0x003f"

definition fdt_irq_flags_valid :: "fdt_flags_context \<Rightarrow> u16 \<Rightarrow> bool" where
  "fdt_irq_flags_valid context flags =
     (case context of
        BASELINE_SAMPLE \<Rightarrow> flags = 0
      | FINGER_UP \<Rightarrow> flags = 0
      | BASELINE_FIRST_SAMPLE \<Rightarrow> flags AND NOT FDT_TOUCH_MASK = 0
      | FINGER_DOWN \<Rightarrow> flags \<noteq> 0 \<and> flags AND NOT FDT_TOUCH_MASK = 0
      | CONTACT_SAMPLE \<Rightarrow> flags \<noteq> 0 \<and> flags AND NOT FDT_TOUCH_MASK = 0)"

definition fdt_word :: "bytes \<Rightarrow> nat \<Rightarrow> u16" where
  "fdt_word raw i = le16 (raw ! (i * 2)) (raw ! (i * 2 + 1))"

text \<open>
  The loop shared by the derivations: channel by channel, store 0x80 and the channel's
  value, or stop where the channel has none.
\<close>

fun fdt_fill :: "(nat \<Rightarrow> u8 option) \<Rightarrow> nat list \<Rightarrow> bytes \<Rightarrow> bool \<times> bytes" where
  "fdt_fill g [] table = (True, table)"
| "fdt_fill g (i # is) table =
     (case g i of
        None \<Rightarrow> (False, table)
      | Some v \<Rightarrow> fdt_fill g is (table[i * 2 := 0x80, i * 2 + 1 := v]))"

text \<open>The values are at most 32767 + 255, so the 32-bit sum of the code cannot wrap.\<close>

definition up_value :: "bytes \<Rightarrow> u16 \<Rightarrow> u8 \<Rightarrow> nat \<Rightarrow> u8 option" where
  "up_value raw touch_flags delta i =
     (let value = (if touch_flags AND push_bit i 1 \<noteq> 0
                   then unat (drop_bit 1 (fdt_word raw i)) + unat delta
                   else unat delta - 2)
      in if value > 255 then None else Some (of_nat value))"

definition fdt_derive_up_table :: "bytes \<Rightarrow> u16 \<Rightarrow> u8 \<Rightarrow> bytes \<Rightarrow> bool \<times> bytes" where
  "fdt_derive_up_table raw touch_flags delta table =
     (if delta < 2 \<or> \<not> fdt_irq_flags_valid FINGER_DOWN touch_flags then (False, table)
      else fdt_fill (up_value raw touch_flags delta) [0..<6] table)"

definition zero_touch_value :: "bytes \<Rightarrow> nat \<Rightarrow> u8 option" where
  "zero_touch_value raw i =
     (let value = unat (drop_bit 1 (fdt_word raw i))
      in if value > 255 then None else Some (of_nat value))"

definition derive_zero_touch_table :: "bytes \<Rightarrow> bytes \<Rightarrow> bool \<times> bytes" where
  "derive_zero_touch_table raw table = fdt_fill (zero_touch_value raw) [0..<6] table"

definition baseline_value :: "bytes \<Rightarrow> nat \<Rightarrow> u8 option" where
  "baseline_value raw i =
     (let component = ucast (drop_bit 1 (fdt_word raw i) AND 0xff) :: u8
      in if component = 0 \<or> component = 0xff then None else Some component)"

definition derive_baseline_table ::
    "bytes \<Rightarrow> u16 \<Rightarrow> fdt_flags_context \<Rightarrow> bytes \<Rightarrow> bool \<times> bytes" where
  "derive_baseline_table raw touch_flags context table =
     (if \<not> fdt_irq_flags_valid context touch_flags then (False, table)
      else fdt_fill (baseline_value raw) [0..<6] table)"

definition fdt_derive_baseline_table :: "bytes \<Rightarrow> u16 \<Rightarrow> bytes \<Rightarrow> bool \<times> bytes" where
  "fdt_derive_baseline_table raw touch_flags table =
     derive_baseline_table raw touch_flags BASELINE_SAMPLE table"

definition fdt_derive_first_baseline_table :: "bytes \<Rightarrow> u16 \<Rightarrow> bytes \<Rightarrow> bool \<times> bytes" where
  "fdt_derive_first_baseline_table raw touch_flags table =
     derive_baseline_table raw touch_flags BASELINE_FIRST_SAMPLE table"

definition fdt_derive_down_table :: "bytes \<Rightarrow> u16 \<Rightarrow> bytes \<Rightarrow> bool \<times> bytes" where
  "fdt_derive_down_table raw touch_flags table =
     (if fdt_irq_flags_valid FINGER_UP touch_flags then derive_zero_touch_table raw table
      else (False, table))"

section \<open>The fill loop\<close>

lemma length_fdt_fill [simp]: "length (snd (fdt_fill g is t)) = length t"
  by (induction "is" arbitrary: t) (auto split: option.splits)

lemma fdt_fill_verdict: "fst (fdt_fill g is t) \<longleftrightarrow> (\<forall>i \<in> set is. g i \<noteq> None)"
  by (induction "is" arbitrary: t) (auto split: option.splits)

lemma fdt_fill_frame:
  "j div 2 \<notin> set is \<Longrightarrow> snd (fdt_fill g is t) ! j = t ! j"
  by (induction "is" arbitrary: t) (auto split: option.splits)

lemma fdt_fill_nth:
  assumes "fst (fdt_fill g is t)" "distinct is" "i \<in> set is" "i * 2 + 1 < length t"
  shows "snd (fdt_fill g is t) ! (i * 2) = 0x80 \<and>
    g i = Some (snd (fdt_fill g is t) ! (i * 2 + 1))"
  using assms
proof (induction "is" arbitrary: t)
  case (Cons k ks)
  then obtain v where v: "g k = Some v"
    by (auto split: option.splits)
  show ?case
  proof (cases "i = k")
    case True
    with Cons.prems v show ?thesis
      by (simp add: fdt_fill_frame)
  next
    case False
    with Cons v show ?thesis
      by simp
  qed
qed simp

lemma fdt_fill_table:
  assumes "length t = 12" "fdt_fill g [0..<6] t = (True, t')"
  shows "length t' = 12"
    and "i < 6 \<Longrightarrow> t' ! (i * 2) = 0x80"
    and "i < 6 \<Longrightarrow> g i = Some (t' ! (i * 2 + 1))"
  using assms fdt_fill_nth [of g "[0..<6]" t i] length_fdt_fill [of g "[0..<6]" t]
  by auto

lemma fdt_fill_total:
  "\<lbrakk>\<And>i. i < 6 \<Longrightarrow> g i \<noteq> None\<rbrakk> \<Longrightarrow> \<exists>t'. fdt_fill g [0..<6] t = (True, t')"
  using fdt_fill_verdict [of g "[0..<6]" t]
  by (cases "fdt_fill g [0..<6] t") auto

text \<open>The table does not depend on what the buffer held before, when the derivation succeeds.\<close>

lemma fdt_fill_old:
  assumes "length t = 12" "length s = 12" "fdt_fill g [0..<6] t = (True, t')"
  shows "fdt_fill g [0..<6] s = (True, t')"
proof -
  have "\<forall>i\<in>set [0..<6]. g i \<noteq> None"
    using assms(3) fdt_fill_verdict [of g "[0..<6]" t] by simp
  then obtain s' where s': "fdt_fill g [0..<6] s = (True, s')"
    using fdt_fill_verdict [of g "[0..<6]" s] by (cases "fdt_fill g [0..<6] s") auto
  have "s' = t'"
  proof (rule nth_equalityI)
    show "length s' = length t'"
      using fdt_fill_table(1) assms s' by metis
    fix j assume "j < length s'"
    then have j: "j div 2 < 6"
      using fdt_fill_table(1) [OF assms(2) s'] by simp
    have "g (j div 2) = Some (t' ! (j div 2 * 2 + 1))" "t' ! (j div 2 * 2) = 0x80"
      "g (j div 2) = Some (s' ! (j div 2 * 2 + 1))" "s' ! (j div 2 * 2) = 0x80"
      using fdt_fill_table(2,3) [OF assms(1,3), of "j div 2"]
        fdt_fill_table(2,3) [OF assms(2) s', of "j div 2"] j
      by auto
    moreover have "j = j div 2 * 2 \<or> j = j div 2 * 2 + 1"
      by presburger
    ultimately show "s' ! j = t' ! j"
      by (metis option.inject)
  qed
  with s' show ?thesis
    by simp
qed


section \<open>Properties\<close>

lemma bit_and_push: "(w AND push_bit i 1 \<noteq> 0) = bit (w :: u16) i"
proof -
  have "w AND push_bit i 1 = 0 \<longleftrightarrow> \<not> bit w i"
    using bit_imp_le_length [of w i] by (subst bit_eq_iff) (auto simp: bit_simps)
  then show ?thesis by simp
qed

lemma unat_half: "unat (drop_bit (Suc 0) (w :: u16)) = unat w div 2"
  by (simp add: drop_bit_eq_div unat_div_distrib)

text \<open>The threshold of one channel of the up table, as a number.\<close>

definition up_threshold :: "bytes \<Rightarrow> u16 \<Rightarrow> u8 \<Rightarrow> nat \<Rightarrow> nat" where
  "up_threshold raw touch delta i =
     (if bit touch i then unat (fdt_word raw i) div 2 + unat delta else unat delta - 2)"

lemma up_value_threshold:
  "up_value raw touch delta i =
     (if up_threshold raw touch delta i \<le> 255 then Some (of_nat (up_threshold raw touch delta i))
      else None)"
  unfolding up_value_def up_threshold_def Let_def bit_and_push
  by (simp add: unat_half not_le [symmetric])

text \<open>
  Claim C3. The finger-up table is exact and total on its domain: the derivation succeeds
  exactly when the delta is at least 2, the touch mask is a finger-down mask, and every
  touched channel's half reading plus delta fits a byte; then each channel's threshold is
  that sum (touched) or delta - 2 (untouched) with no truncation, next to the constant
  0x80.
\<close>

theorem up_table_exact:
  assumes "length table = 12" and "fdt_derive_up_table raw touch delta table = (ok, table')"
  shows "(ok \<longleftrightarrow> 2 \<le> delta \<and> fdt_irq_flags_valid FINGER_DOWN touch \<and>
           (\<forall>i<6. up_threshold raw touch delta i \<le> 255)) \<and>
         (ok \<longrightarrow> length table' = 12 \<and> (\<forall>i<6. table' ! (i * 2) = 0x80 \<and>
           unat (table' ! (i * 2 + 1)) = up_threshold raw touch delta i))"
proof (intro conjI impI)
  let ?g = "up_value raw touch delta"
  have eq: "(if delta < 2 \<or> \<not> fdt_irq_flags_valid FINGER_DOWN touch then (False, table)
      else fdt_fill ?g [0..<6] table) = (ok, table')"
    using assms(2) by (simp add: fdt_derive_up_table_def)
  then show goal1: "ok \<longleftrightarrow> 2 \<le> delta \<and> fdt_irq_flags_valid FINGER_DOWN touch \<and>
           (\<forall>i<6. up_threshold raw touch delta i \<le> 255)"
    using fdt_fill_verdict [of ?g "[0..<6]" table]
    by (auto simp: up_value_threshold not_less split: if_splits)
  assume ok
  then have fill: "fdt_fill ?g [0..<6] table = (True, table')"
    using eq by (auto split: if_splits)
  note tab = fdt_fill_table [OF assms(1) fill]
  show "length table' = 12"
    by (rule tab(1))
  have "unat (table' ! (i * 2 + 1)) = up_threshold raw touch delta i" if "i < 6" for i
  proof -
    have "up_threshold raw touch delta i \<le> 255"
      "table' ! (i * 2 + 1) = of_nat (up_threshold raw touch delta i)"
      using tab(3) [OF that] by (simp_all add: up_value_threshold split: if_splits)
    then show ?thesis
      by (simp add: unat_of_nat)
  qed
  with tab(2) show "\<forall>i<6. table' ! (i * 2) = 0x80 \<and>
      unat (table' ! (i * 2 + 1)) = up_threshold raw touch delta i"
    by blast
qed

text \<open>Channels 0 and 1 touched, readings 0x0010 and 0x0020, delta 5: thresholds 13, 21, 3 ...\<close>

lemma up_table_exact_witness:
  "\<exists>t'. fdt_derive_up_table ([0x10, 0, 0x20, 0] @ replicate 8 0) 3 5 (replicate 12 0) = (True, t') \<and>
     unat (t' ! 1) = 13 \<and> unat (t' ! 3) = 21 \<and> unat (t' ! 5) = 3"
proof -
  let ?r = "[0x10, 0, 0x20, 0] @ replicate 8 0 :: bytes"
  obtain ok t' where t': "fdt_derive_up_table ?r 3 5 (replicate 12 0) = (ok, t')"
    by fastforce
  have th: "up_threshold ?r 3 5 0 = 13" "up_threshold ?r 3 5 1 = 21" "up_threshold ?r 3 5 2 = 3"
    "up_threshold ?r 3 5 3 = 3" "up_threshold ?r 3 5 4 = 3" "up_threshold ?r 3 5 5 = 3"
    by (simp_all add: up_threshold_def fdt_word_def unat_le16 bit_numeral_rec)
  have "\<forall>i<6. up_threshold ?r 3 5 i \<le> 255"
    using th by (simp add: numeral_eq_Suc All_less_Suc)
  moreover have "fdt_irq_flags_valid FINGER_DOWN 3" "2 \<le> (5 :: u8)"
    by (simp_all add: fdt_irq_flags_valid_def)
  ultimately have "ok" and *: "\<forall>i<6. unat (t' ! (i * 2 + 1)) = up_threshold ?r 3 5 i"
    using up_table_exact [OF _ t'] by simp_all
  with t' th * [rule_format, of 0] * [rule_format, of 1] * [rule_format, of 2] show ?thesis
    by simp
qed

end
