(* ===== verification/Fdt_State.thy ===== *)
theory Fdt_State
  imports Command_Body Fdt_Irq_Policy
begin

text \<open>
  The finger-detection table state of an enrollment (\<^verbatim>\<open>goodix_enrollment_fdt_state.c\<close>): the
  table derived from the last contact's IRQ2 (up) and from its release (down), each with the
  stage it belongs to, and the resolution of the material a planned command needs.
\<close>

record fdt_audit =
  fa_irq2_up :: u32
  fa_irq0200_down :: u32
  fa_stage_up_resolution :: u32
  fa_previous_down_resolution :: u32
  fa_current_down_resolution :: u32
  fa_rejected_resolution :: u32
  fa_retry :: u32
  fa_submit :: u32

record fdt_state =
  fs_current_stage :: u32
  fs_up_stage :: u32
  fs_down_stage :: u32
  fs_up_table :: bytes
  fs_down_table :: bytes
  fs_audit :: fdt_audit
  fs_failed :: bool

definition fdt_audit_zero :: fdt_audit where
  "fdt_audit_zero = \<lparr>fa_irq2_up = 0, fa_irq0200_down = 0, fa_stage_up_resolution = 0,
     fa_previous_down_resolution = 0, fa_current_down_resolution = 0, fa_rejected_resolution = 0,
     fa_retry = 0, fa_submit = 0\<rparr>"

definition fdt_state_new :: fdt_state where
  "fdt_state_new = \<lparr>fs_current_stage = 0, fs_up_stage = 0, fs_down_stage = 0,
     fs_up_table = replicate FDT_TABLE_LENGTH 0, fs_down_table = replicate FDT_TABLE_LENGTH 0,
     fs_audit = fdt_audit_zero, fs_failed = False\<rparr>"

definition fdt_fail :: "fdt_state \<Rightarrow> fdt_error \<Rightarrow> gerror reply \<times> fdt_state" where
  "fdt_fail st code =
     (Reject (Fdt_Error code),
      st\<lparr>fs_failed := True, fs_audit := (fs_audit st)\<lparr>fa_rejected_resolution :=
         fa_rejected_resolution (fs_audit st) + 1\<rparr>\<rparr>)"

text \<open>
  The raw report is absent or has the fixed length of its C array type. The third component
  is the caller's table, written only on success.
\<close>

definition fdt_refresh_irq80 ::
    "bytes option \<Rightarrow> bytes \<Rightarrow> fdt_state \<Rightarrow> gerror reply \<times> fdt_state \<times> bytes" where
  "fdt_refresh_irq80 raw table st =
     (case raw of
        None \<Rightarrow> let (r, st') = fdt_fail st FDT_ERROR_ORDER in (r, st', table)
      | Some raw0 \<Rightarrow>
          if fs_failed st \<or> fs_down_stage st \<noteq> fs_current_stage st
          then let (r, st') = fdt_fail st FDT_ERROR_ORDER in (r, st', table)
          else case fdt_derive_baseline_table raw0 0 (replicate FDT_TABLE_LENGTH 0) of
              (False, _) \<Rightarrow> let (r, st') = fdt_fail st FDT_ERROR_RANGE in (r, st', table)
            | (True, candidate) \<Rightarrow> (Accept, st\<lparr>fs_down_table := candidate\<rparr>, candidate))"

definition fdt_observe_irq2 ::
    "u32 \<Rightarrow> u16 \<Rightarrow> bytes option \<Rightarrow> fdt_state \<Rightarrow> gerror reply \<times> fdt_state" where
  "fdt_observe_irq2 stage_index touch_flags raw st =
     (case raw of
        None \<Rightarrow> fdt_fail st FDT_ERROR_ARGUMENT
      | Some raw0 \<Rightarrow>
          if stage_index = 0 then fdt_fail st FDT_ERROR_ARGUMENT
          else if fs_failed st \<or> stage_index \<noteq> fs_current_stage st + 1
          then fdt_fail st FDT_ERROR_ORDER
          else case fdt_derive_up_table raw0 touch_flags 0x1d (fs_up_table st) of
              (False, t) \<Rightarrow> fdt_fail (st\<lparr>fs_up_table := t\<rparr>) FDT_ERROR_RANGE
            | (True, t) \<Rightarrow>
                (Accept, st\<lparr>fs_up_table := t, fs_current_stage := stage_index,
                   fs_up_stage := stage_index,
                   fs_audit := (fs_audit st)\<lparr>fa_irq2_up := fa_irq2_up (fs_audit st) + 1\<rparr>\<rparr>))"

definition fdt_observe_irq0200 ::
    "u32 \<Rightarrow> u16 \<Rightarrow> bytes option \<Rightarrow> fdt_state \<Rightarrow> gerror reply \<times> fdt_state" where
  "fdt_observe_irq0200 stage_index touch_flags raw st =
     (case raw of
        None \<Rightarrow> fdt_fail st FDT_ERROR_ARGUMENT
      | Some raw0 \<Rightarrow>
          if stage_index = 0 then fdt_fail st FDT_ERROR_ARGUMENT
          else if fs_failed st \<or> stage_index \<noteq> fs_current_stage st \<or>
                  fs_up_stage st \<noteq> stage_index \<or> fs_down_stage st \<ge> stage_index
          then fdt_fail st FDT_ERROR_ORDER
          else case fdt_derive_down_table raw0 touch_flags (fs_down_table st) of
              (False, t) \<Rightarrow> fdt_fail (st\<lparr>fs_down_table := t\<rparr>) FDT_ERROR_RANGE
            | (True, t) \<Rightarrow>
                (Accept, st\<lparr>fs_down_table := t, fs_down_stage := stage_index,
                   fs_audit := (fs_audit st)\<lparr>fa_irq0200_down := fa_irq0200_down (fs_audit st) + 1\<rparr>\<rparr>))"

text \<open>The strict derivation of the zero-mask branch, written out in \<^verbatim>\<open>observe_zero\<close>.\<close>

definition zero_value :: "bytes \<Rightarrow> nat \<Rightarrow> u8 option" where
  "zero_value raw i =
     (let value = unat (fdt_word raw i) div 2
      in if value < 1 \<or> value > 254 then None else Some (of_nat value))"

definition fdt_observe_zero :: "u32 \<Rightarrow> bytes option \<Rightarrow> fdt_state \<Rightarrow> gerror reply \<times> fdt_state" where
  "fdt_observe_zero stage_index raw st =
     (case raw of
        None \<Rightarrow> fdt_fail st FDT_ERROR_ORDER
      | Some raw0 \<Rightarrow>
          if stage_index < 2 \<or> fs_failed st \<or> fs_current_stage st \<noteq> stage_index \<or>
             fs_up_stage st \<noteq> stage_index \<or> fs_down_stage st + 1 \<noteq> stage_index
          then fdt_fail st FDT_ERROR_ORDER
          else case fdt_fill (zero_value raw0) [0..<6] (replicate FDT_TABLE_LENGTH 0) of
              (False, _) \<Rightarrow> fdt_fail st FDT_ERROR_RANGE
            | (True, candidate) \<Rightarrow>
                (Accept, st\<lparr>fs_down_table := candidate, fs_down_stage := stage_index\<rparr>))"

definition fdt_material ::
    "command_intent \<Rightarrow> table_role \<Rightarrow> bytes \<Rightarrow> u16 \<Rightarrow> command_material" where
  "fdt_material intent role table timestamp =
     \<lparr>mt_stage_index = in_stage_index intent, mt_table_role = role, mt_fdt_table = table,
      mt_timestamp = timestamp, mt_has_fdt_table = True,
      mt_has_timestamp = (in_body_class intent = BODY_FDT_TIMESTAMP_0801)\<rparr>"

text \<open>The resolved material is \<open>None\<close> when none is required (or the call is refused).\<close>

definition fdt_resolve ::
    "command_intent \<Rightarrow> u16 \<Rightarrow> bool \<Rightarrow> fdt_state
       \<Rightarrow> gerror reply \<times> fdt_state \<times> command_material option" where
  "fdt_resolve intent timestamp timestamp_available st =
     (let reject = (\<lambda>code. let (r, st') = fdt_fail st code in (r, st', None)) in
      if fs_failed st \<or> in_stage_index intent \<noteq> fs_current_stage st then reject FDT_ERROR_ORDER
      else case in_body_class intent of
          BODY_SIMPLE_01_00 \<Rightarrow>
            if timestamp_available then reject FDT_ERROR_MATERIAL else (Accept, st, None)
        | BODY_FDT_0A01 \<Rightarrow>
            if fs_up_stage st \<noteq> in_stage_index intent \<or> timestamp_available
            then reject FDT_ERROR_MATERIAL
            else (Accept,
                  st\<lparr>fs_audit := (fs_audit st)\<lparr>fa_stage_up_resolution :=
                     fa_stage_up_resolution (fs_audit st) + 1\<rparr>\<rparr>,
                  Some (fdt_material intent ROLE_STAGE_UP (fs_up_table st) timestamp))
        | BODY_FDT_0901 \<Rightarrow>
            if in_stage_index intent < 2 \<or> fs_down_stage st + 1 \<noteq> in_stage_index intent \<or>
               timestamp_available
            then reject FDT_ERROR_MATERIAL
            else (Accept,
                  st\<lparr>fs_audit := (fs_audit st)\<lparr>fa_previous_down_resolution :=
                     fa_previous_down_resolution (fs_audit st) + 1\<rparr>\<rparr>,
                  Some (fdt_material intent ROLE_STAGE_AUX_SCAN (fs_down_table st) timestamp))
        | BODY_FDT_TIMESTAMP_0801 \<Rightarrow>
            if fs_down_stage st \<noteq> in_stage_index intent \<or> \<not> timestamp_available
            then reject FDT_ERROR_MATERIAL
            else (Accept,
                  st\<lparr>fs_audit := (fs_audit st)\<lparr>fa_current_down_resolution :=
                     fa_current_down_resolution (fs_audit st) + 1\<rparr>\<rparr>,
                  Some (fdt_material intent ROLE_TRANSITION_DOWN (fs_down_table st) timestamp)))"

section \<open>Shape of the tables\<close>

text \<open>A table as the device expects it: 0x80 and a threshold for each of six channels.\<close>

definition table_shape :: "bytes \<Rightarrow> bool" where
  "table_shape t \<longleftrightarrow> length t = FDT_TABLE_LENGTH \<and> (\<forall>i<6. t ! (i * 2) = 0x80)"

definition fdt_shapes :: "fdt_state \<Rightarrow> bool" where
  "fdt_shapes st \<longleftrightarrow>
     length (fs_up_table st) = FDT_TABLE_LENGTH \<and> length (fs_down_table st) = FDT_TABLE_LENGTH \<and>
     (\<not> fs_failed st \<longrightarrow>
        (fs_up_stage st \<noteq> 0 \<longrightarrow> table_shape (fs_up_table st)) \<and>
        (fs_down_stage st \<noteq> 0 \<longrightarrow> table_shape (fs_down_table st)))"

lemma fdt_fill_shape:
  "length t = 12 \<Longrightarrow> fdt_fill g [0..<6] t = (True, t') \<Longrightarrow> table_shape t'"
  using fdt_fill_table [of t g t'] by (simp add: table_shape_def)

lemma fdt_fill_length: "fdt_fill g is t = (b, t') \<Longrightarrow> length t' = length t"
  using length_fdt_fill [of g "is" t] by simp

lemma derive_shapes:
  "fdt_derive_up_table raw fl d t = (b, t') \<Longrightarrow> length t = 12 \<Longrightarrow> length t' = 12 \<and> (b \<longrightarrow> table_shape t')"
  "fdt_derive_down_table raw fl t = (b, t') \<Longrightarrow> length t = 12 \<Longrightarrow> length t' = 12 \<and> (b \<longrightarrow> table_shape t')"
  "fdt_derive_baseline_table raw fl t = (b, t') \<Longrightarrow> length t = 12 \<Longrightarrow> length t' = 12 \<and> (b \<longrightarrow> table_shape t')"
  by (auto simp: fdt_derive_up_table_def fdt_derive_down_table_def derive_zero_touch_table_def
      fdt_derive_baseline_table_def derive_baseline_table_def
      split: if_split_asm dest: fdt_fill_shape fdt_fill_length)

lemma fresh_shapes:
  "fdt_fill g [0..<6] (replicate 12 0) = (b, t') \<Longrightarrow> length t' = 12 \<and> (b \<longrightarrow> table_shape t')"
  "fdt_derive_baseline_table raw fl (replicate 12 0) = (b, t') \<Longrightarrow> length t' = 12 \<and> (b \<longrightarrow> table_shape t')"
  using fdt_fill_shape [of "replicate 12 0" g t'] fdt_fill_length [of g "[0..<6]" "replicate 12 0" b t']
    derive_shapes(3) [of raw fl "replicate 12 0" b t'] by auto

lemma fdt_new_shapes: "fdt_shapes fdt_state_new"
  by (simp add: fdt_shapes_def fdt_state_new_def)

lemma fdt_fail_shapes:
  "length (fs_up_table st) = 12 \<Longrightarrow> length (fs_down_table st) = 12 \<Longrightarrow>
     fdt_shapes (snd (fdt_fail st code))"
  by (simp add: fdt_shapes_def fdt_fail_def)

lemma irq2_shapes: "fdt_shapes st \<Longrightarrow> fdt_shapes (snd (fdt_observe_irq2 k fl raw st))"
  by (cases "fdt_derive_up_table (the raw) fl 0x1d (fs_up_table st)")
     (auto simp: fdt_observe_irq2_def fdt_shapes_def fdt_fail_def
       split: option.splits bool.splits dest: derive_shapes)

lemma irq0200_shapes: "fdt_shapes st \<Longrightarrow> fdt_shapes (snd (fdt_observe_irq0200 k fl raw st))"
  by (cases "fdt_derive_down_table (the raw) fl (fs_down_table st)")
     (auto simp: fdt_observe_irq0200_def fdt_shapes_def fdt_fail_def
       split: option.splits bool.splits dest: derive_shapes)

lemma zero_shapes: "fdt_shapes st \<Longrightarrow> fdt_shapes (snd (fdt_observe_zero k raw st))"
  by (cases "fdt_fill (zero_value (the raw)) [0..<6] (replicate 12 0)")
     (auto simp: fdt_observe_zero_def fdt_shapes_def fdt_fail_def
       split: option.splits bool.splits dest: fresh_shapes)

lemma irq80_shapes: "fdt_shapes st \<Longrightarrow> fdt_shapes (fst (snd (fdt_refresh_irq80 raw t st)))"
  by (cases "fdt_derive_baseline_table (the raw) 0 (replicate 12 0)")
     (auto simp: fdt_refresh_irq80_def fdt_shapes_def fdt_fail_def Let_def
       split: option.splits bool.splits dest: fresh_shapes)

lemma resolve_shapes: "fdt_shapes st \<Longrightarrow> fdt_shapes (fst (snd (fdt_resolve i ts av st)))"
  by (cases "in_body_class i")
     (auto simp: fdt_resolve_def fdt_shapes_def fdt_fail_def Let_def split: if_split)

text \<open>
  Whatever material the state resolves for a planned command fits the command's stage, role
  and timestamp flag, carries a table in the device's format, and is accepted by the body
  builder.
\<close>

lemma resolved_material_buildable:
  assumes "fdt_shapes st" "intent_contract_valid intent" "\<not> in_wire_frame_serializable intent"
    and "fdt_resolve intent ts av st = (Accept, st', material)"
  shows "fst (command_body_build intent material audit) = Accept \<and>
    (\<forall>m. material = Some m \<longrightarrow> table_shape (mt_fdt_table m) \<and> mt_stage_index m = in_stage_index intent)"
proof -
  have failed: "\<not> fs_failed st" and stage: "in_stage_index intent = fs_current_stage st"
    using assms(4) by (auto simp: fdt_resolve_def fdt_fail_def split: if_split_asm)
  have nz: "in_stage_index intent \<noteq> 0"
    using assms(2) by (simp add: intent_contract_valid_def)
  show ?thesis
  proof (cases "in_body_class intent")
    case BODY_SIMPLE_01_00
    with assms failed stage show ?thesis
      by (auto simp: fdt_resolve_def fdt_fail_def command_body_build_def split: if_split_asm)
  next
    case BODY_FDT_0A01
    with assms(4) failed stage have up: "fs_up_stage st \<noteq> 0" and
      mat: "material = Some (fdt_material intent ROLE_STAGE_UP (fs_up_table st) ts)"
      using nz by (auto simp: fdt_resolve_def fdt_fail_def split: if_split_asm)
    have "table_shape (fs_up_table st)"
      using assms(1) failed up by (simp add: fdt_shapes_def)
    with BODY_FDT_0A01 assms(2,3) mat show ?thesis
      by (simp add: command_body_build_def material_valid_def fdt_material_def body_role_def)
  next
    case BODY_FDT_0901
    with assms(4) failed stage have two: "\<not> in_stage_index intent < 2" "fs_down_stage st + 1 = in_stage_index intent"
      and mat: "material = Some (fdt_material intent ROLE_STAGE_AUX_SCAN (fs_down_table st) ts)"
      by (auto simp: fdt_resolve_def fdt_fail_def split: if_split_asm)
    have "fs_down_stage st \<noteq> 0"
      using two by (auto simp: word_less_nat_alt)
    then have "table_shape (fs_down_table st)"
      using assms(1) failed by (simp add: fdt_shapes_def)
    with BODY_FDT_0901 assms(2,3) mat show ?thesis
      by (simp add: command_body_build_def material_valid_def fdt_material_def body_role_def)
  next
    case BODY_FDT_TIMESTAMP_0801
    with assms(4) failed stage have down: "fs_down_stage st \<noteq> 0" and
      mat: "material = Some (fdt_material intent ROLE_TRANSITION_DOWN (fs_down_table st) ts)"
      using nz by (auto simp: fdt_resolve_def fdt_fail_def split: if_split_asm)
    have "table_shape (fs_down_table st)"
      using assms(1) failed down by (simp add: fdt_shapes_def)
    with BODY_FDT_TIMESTAMP_0801 assms(2,3) mat show ?thesis
      by (simp add: command_body_build_def material_valid_def fdt_material_def body_role_def)
  qed
qed

end
