(* ===== verification/Lifecycle_Adapter.thy ===== *)
theory Lifecycle_Adapter
  imports Fdt_State
begin

text \<open>
  The transactional composition of command plan, FDT state and body builder
  (\<^verbatim>\<open>goodix_enrollment_lifecycle_adapter.c\<close>): observations are checked against their
  payload contract and feed both the FDT state and the plan; commands are prepared once,
  cached, and committed. The pair \<^verbatim>\<open>cached\<close>/\<^verbatim>\<open>has_cached\<close> is an option (the C code clears
  the structure whenever it clears the flag); the plan's, the FDT state's and the body
  builder's audits are fields of those components.
\<close>

type_synonym 'u timestamp_func = "u32 \<Rightarrow> command_purpose \<Rightarrow> 'u \<Rightarrow> callback_reply \<times> u16 \<times> 'u"

record prepared_command =
  pc_intent :: command_intent
  pc_body :: command_body

record adapter_audit =
  aa_prepared :: u32
  aa_committed_prepared :: u32
  aa_cache_hit :: u32
  aa_timestamp_request :: u32
  aa_rejected :: u32
  aa_retry :: u32
  aa_a0_frame_build :: u32
  aa_submit :: u32
  aa_failed :: bool

record 'u adapter =
  la_plan :: "'u command_plan"
  la_fdt :: fdt_state
  la_body_audit :: body_audit
  la_audit :: adapter_audit
  la_cached :: "prepared_command option"
  la_failed :: bool

definition intent_clear :: command_intent where
  "intent_clear = \<lparr>in_event = EVENT_NONE, in_purpose = PURPOSE_PRIMARY_ACQUIRE,
     in_body_class = BODY_SIMPLE_01_00, in_stage_index = 0, in_control = 0,
     in_wire_frame_serializable = False\<rparr>"

definition prepared_command_clear :: prepared_command where
  "prepared_command_clear = \<lparr>pc_intent = intent_clear, pc_body = command_body_clear\<rparr>"

definition adapter_audit_zero :: adapter_audit where
  "adapter_audit_zero = \<lparr>aa_prepared = 0, aa_committed_prepared = 0, aa_cache_hit = 0,
     aa_timestamp_request = 0, aa_rejected = 0, aa_retry = 0, aa_a0_frame_build = 0,
     aa_submit = 0, aa_failed = False\<rparr>"

definition body_audit_zero :: body_audit where
  "body_audit_zero = \<lparr>ba_body_build = 0, ba_simple_body = 0, ba_fdt_body = 0,
     ba_fdt_timestamp_body = 0, ba_rejected_material = 0, ba_a0_frame_build = 0, ba_submit = 0\<rparr>"

definition lifecycle_adapter_new :: "model_config \<Rightarrow> 'u \<Rightarrow> gerror + 'u adapter" where
  "lifecycle_adapter_new config u =
     (case command_plan_new config u of
        Inl e \<Rightarrow> Inl e
      | Inr plan \<Rightarrow> Inr
          \<lparr>la_plan = plan, la_fdt = fdt_state_new, la_body_audit = body_audit_zero,
           la_audit = adapter_audit_zero, la_cached = None, la_failed = False\<rparr>)"

text \<open>The error a failing callee already set is kept.\<close>

definition adapter_fail ::
    "gerror option \<Rightarrow> adapter_error \<Rightarrow> 'u adapter \<Rightarrow> gerror reply \<times> 'u adapter" where
  "adapter_fail prior code a =
     (Reject (keep_first prior (Adapter_Error code)),
      a\<lparr>la_failed := True,
        la_audit := (la_audit a)\<lparr>aa_failed := True, aa_rejected := aa_rejected (la_audit a) + 1\<rparr>,
        la_cached := None\<rparr>)"

definition payload_contract_valid ::
    "enrollment_event \<Rightarrow> u16 list option \<Rightarrow> bytes option \<Rightarrow> u16 \<Rightarrow> bool" where
  "payload_contract_valid event samples fdt_raw flags =
     (if event = IRQ2 then
        samples = None \<and> (case fdt_raw of None \<Rightarrow> False | Some raw \<Rightarrow> length raw = FDT_TABLE_LENGTH) \<and>
        fdt_irq_flags_valid FINGER_DOWN flags
      else if event = IRQ0200 \<or> event = ZERO_MASK_RECOVERY then
        samples = None \<and> (case fdt_raw of None \<Rightarrow> False | Some raw \<Rightarrow> length raw = FDT_TABLE_LENGTH) \<and>
        fdt_irq_flags_valid FINGER_UP flags
      else if event = PRIMARY_B0 then
        (case samples of None \<Rightarrow> False | Some ss \<Rightarrow> ss \<noteq> []) \<and> fdt_raw = None \<and> flags = 0
      else samples = None \<and> fdt_raw = None \<and> flags = 0)"

definition observed_stage :: "'u adapter \<Rightarrow> u32" where
  "observed_stage a = ma_observed_primary (m_audit (plan_model (la_plan a)))"

text \<open>What an observation does to the FDT state; events without FDT material leave it alone.\<close>

definition observe_fdt ::
    "enrollment_event \<Rightarrow> bytes option \<Rightarrow> u16 \<Rightarrow> u32 \<Rightarrow> fdt_state \<Rightarrow> gerror reply \<times> fdt_state" where
  "observe_fdt event fdt_raw flags stage st =
     (if event = IRQ2 then fdt_observe_irq2 (stage + 1) flags fdt_raw st
      else if event = ZERO_MASK_RECOVERY then fdt_observe_zero stage fdt_raw st
      else if event = IRQ0200 then fdt_observe_irq0200 stage flags fdt_raw st
      else (Accept, st))"

definition lifecycle_adapter_observe ::
    "allocator \<Rightarrow> 'u image_func \<Rightarrow> enrollment_event \<Rightarrow> u16 list option \<Rightarrow> bytes option \<Rightarrow> u16
       \<Rightarrow> 'u adapter \<Rightarrow> gerror reply \<times> 'u adapter" where
  "lifecycle_adapter_observe env image_ready event samples fdt_raw flags a =
     (if la_failed a \<or> la_cached a \<noteq> None \<or> command_plan_is_complete (la_plan a)
      then adapter_fail None ADAPTER_ERROR_STATE a
      else if \<not> payload_contract_valid event samples fdt_raw flags
      then adapter_fail None ADAPTER_ERROR_PAYLOAD a
      else case observe_fdt event fdt_raw flags (observed_stage a) (la_fdt a) of
          (Reject e, st) \<Rightarrow> adapter_fail (Some e) ADAPTER_ERROR_PROTOCOL (a\<lparr>la_fdt := st\<rparr>)
        | (Accept, st) \<Rightarrow>
            case command_plan_observe env image_ready event samples (la_plan a) of
              (Reject e, plan) \<Rightarrow>
                adapter_fail (Some e) ADAPTER_ERROR_PROTOCOL (a\<lparr>la_fdt := st, la_plan := plan\<rparr>)
            | (Accept, plan) \<Rightarrow> (Accept, a\<lparr>la_fdt := st, la_plan := plan\<rparr>))"

text \<open>The timestamp callback runs on the user data that the image consumer shares.\<close>

definition set_user :: "'u \<Rightarrow> 'u adapter \<Rightarrow> 'u adapter" where
  "set_user u a = a\<lparr>la_plan := (la_plan a)\<lparr>cp_pipeline :=
     (plan_model (la_plan a), fst (snd (cp_pipeline (la_plan a))), u)\<rparr>\<rparr>"

definition adapter_user :: "'u adapter \<Rightarrow> 'u" where
  "adapter_user a = snd (snd (cp_pipeline (la_plan a)))"

definition request_timestamp ::
    "'u timestamp_func \<Rightarrow> u32 \<Rightarrow> command_purpose \<Rightarrow> 'u adapter \<Rightarrow> callback_reply \<times> u16 \<times> 'u adapter" where
  "request_timestamp timestamp_ready stage purpose a =
     (let a1 = a\<lparr>la_audit := (la_audit a)\<lparr>aa_timestamp_request := aa_timestamp_request (la_audit a) + 1\<rparr>\<rparr>;
          (r, ts, u) = timestamp_ready stage purpose (adapter_user a1)
      in (r, ts, set_user u a1))"

definition irq80_intent :: "u32 \<Rightarrow> command_intent" where
  "irq80_intent stage = \<lparr>in_event = COMMAND_32, in_purpose = PURPOSE_IRQ80_REARM,
     in_body_class = BODY_FDT_TIMESTAMP_0801, in_stage_index = stage, in_control = 0x32,
     in_wire_frame_serializable = False\<rparr>"

text \<open>The output parameter \<^verbatim>\<open>prepared\<close> is the last argument and component.\<close>

definition lifecycle_adapter_prepare_irq80_rearm ::
    "'u timestamp_func \<Rightarrow> bytes option \<Rightarrow> 'u adapter \<Rightarrow> prepared_command
       \<Rightarrow> gerror reply \<times> 'u adapter \<times> prepared_command" where
  "lifecycle_adapter_prepare_irq80_rearm timestamp_ready raw a prepared =
     (let fail = (\<lambda>prior code a' out. let (r, a'') = adapter_fail prior code a' in (r, a'', out)) in
      if la_failed a \<or> la_cached a \<noteq> None \<or>
         command_plan_get_expected_event (la_plan a) \<noteq> IRQ2
      then fail None ADAPTER_ERROR_STATE a prepared
      else
        let stage = observed_stage a + 1 in
        case fdt_refresh_irq80 raw (replicate FDT_TABLE_LENGTH 0) (la_fdt a) of
          (Reject e, st, table) \<Rightarrow>
            fail (Some e) ADAPTER_ERROR_PROTOCOL (a\<lparr>la_fdt := st\<rparr>) prepared_command_clear
        | (Accept, st, table) \<Rightarrow>
            let intent = irq80_intent stage;
                out = prepared_command_clear\<lparr>pc_intent := intent\<rparr>;
                (r, ts, a1) = request_timestamp timestamp_ready stage (in_purpose intent)
                  (a\<lparr>la_fdt := st\<rparr>)
            in case r of
                Callback_False e \<Rightarrow> fail e ADAPTER_ERROR_TIMESTAMP a1 out
              | Callback_True \<Rightarrow>
                  let material = \<lparr>mt_stage_index = stage, mt_table_role = ROLE_TRANSITION_DOWN,
                        mt_fdt_table = table, mt_timestamp = ts, mt_has_fdt_table = True,
                        mt_has_timestamp = True\<rparr>
                  in case command_body_build intent (Some material) None of
                      (Reject e, body, _) \<Rightarrow>
                        fail (Some e) ADAPTER_ERROR_PROTOCOL a1 (out\<lparr>pc_body := body\<rparr>)
                    | (Accept, body, _) \<Rightarrow> (Accept, a1, out\<lparr>pc_body := body\<rparr>))"

text \<open>The middle part of \<^verbatim>\<open>prepare\<close>: timestamp if the body needs one, material, body.\<close>

definition prepare_body ::
    "command_intent \<Rightarrow> u16 \<Rightarrow> bool \<Rightarrow> 'u adapter \<Rightarrow> gerror reply \<times> 'u adapter \<times> command_body" where
  "prepare_body intent timestamp available a =
     (case fdt_resolve intent timestamp available (la_fdt a) of
        (Reject e, st, _) \<Rightarrow>
          let (r, a') = adapter_fail (Some e) ADAPTER_ERROR_PROTOCOL (a\<lparr>la_fdt := st\<rparr>)
          in (r, a', command_body_clear)
      | (Accept, st, material) \<Rightarrow>
          case command_body_build intent material (Some (la_body_audit a)) of
            (Reject e, body, audit) \<Rightarrow>
              let (r, a') = adapter_fail (Some e) ADAPTER_ERROR_PROTOCOL
                    (a\<lparr>la_fdt := st, la_body_audit := the audit\<rparr>)
              in (r, a', command_body_clear)
          | (Accept, body, audit) \<Rightarrow> (Accept, a\<lparr>la_fdt := st, la_body_audit := the audit\<rparr>, body))"

definition lifecycle_adapter_prepare ::
    "'u timestamp_func \<Rightarrow> 'u adapter \<Rightarrow> gerror reply \<times> 'u adapter \<times> prepared_command" where
  "lifecycle_adapter_prepare timestamp_ready a =
     (let fail = (\<lambda>prior code a'. let (r, a'') = adapter_fail prior code a'
                                  in (r, a'', prepared_command_clear)) in
      if la_failed a \<or> command_plan_is_complete (la_plan a) then fail None ADAPTER_ERROR_STATE a
      else case la_cached a of
          Some cached \<Rightarrow>
            (Accept, a\<lparr>la_audit := (la_audit a)\<lparr>aa_cache_hit := aa_cache_hit (la_audit a) + 1\<rparr>\<rparr>, cached)
        | None \<Rightarrow>
            case command_plan_peek (la_plan a) of
              None \<Rightarrow> fail None ADAPTER_ERROR_STATE a
            | Some intent \<Rightarrow>
                let timed = (in_body_class intent = BODY_FDT_TIMESTAMP_0801);
                    (r, ts, a1) =
                      (if timed then request_timestamp timestamp_ready (in_stage_index intent)
                         (in_purpose intent) a
                       else (Callback_True, 0, a))
                in case r of
                    Callback_False e \<Rightarrow> fail e ADAPTER_ERROR_TIMESTAMP a1
                  | Callback_True \<Rightarrow>
                      case prepare_body intent ts timed a1 of
                        (Reject e, a2, _) \<Rightarrow> (Reject e, a2, prepared_command_clear)
                      | (Accept, a2, body) \<Rightarrow>
                          let cached = \<lparr>pc_intent = intent, pc_body = body\<rparr>
                          in (Accept,
                              a2\<lparr>la_cached := Some cached,
                                 la_audit := (la_audit a2)\<lparr>aa_prepared := aa_prepared (la_audit a2) + 1\<rparr>\<rparr>,
                              cached))"

definition lifecycle_adapter_commit ::
    "allocator \<Rightarrow> 'u image_func \<Rightarrow> enrollment_event \<Rightarrow> 'u adapter \<Rightarrow> gerror reply \<times> 'u adapter" where
  "lifecycle_adapter_commit env image_ready command_event a =
     (if la_failed a then adapter_fail None ADAPTER_ERROR_STATE a
      else case la_cached a of
          None \<Rightarrow> adapter_fail None ADAPTER_ERROR_STATE a
        | Some cached \<Rightarrow>
            if command_event \<noteq> in_event (pc_intent cached)
            then adapter_fail None ADAPTER_ERROR_PROTOCOL a
            else case command_plan_commit env image_ready command_event (la_plan a) of
                (Reject e, plan) \<Rightarrow>
                  adapter_fail (Some e) ADAPTER_ERROR_PROTOCOL (a\<lparr>la_plan := plan\<rparr>)
              | (Accept, plan) \<Rightarrow>
                  (Accept,
                   a\<lparr>la_plan := plan,
                     la_audit := (la_audit a)\<lparr>aa_committed_prepared :=
                       aa_committed_prepared (la_audit a) + 1\<rparr>,
                     la_cached := None\<rparr>))"

definition lifecycle_adapter_is_complete :: "'u adapter \<Rightarrow> bool" where
  "lifecycle_adapter_is_complete a \<longleftrightarrow>
     \<not> la_failed a \<and> la_cached a = None \<and> command_plan_is_complete (la_plan a)"

definition lifecycle_adapter_is_failed :: "'u adapter \<Rightarrow> bool" where
  "lifecycle_adapter_is_failed a \<longleftrightarrow> la_failed a \<or> command_plan_is_failed (la_plan a)"

definition lifecycle_adapter_get_expected_event :: "'u adapter \<Rightarrow> enrollment_event" where
  "lifecycle_adapter_get_expected_event a =
     (if la_failed a then EVENT_NONE else command_plan_get_expected_event (la_plan a))"

section \<open>The FDT stages follow the session\<close>

text \<open>
  How far the finger-detection tables lag behind the contacts: the up table belongs to the
  contact being handled, the down table to the last contact that was released.
\<close>

definition before_release :: "protocol \<Rightarrow> bool" where
  "before_release p \<longleftrightarrow>
     p_event p \<in> {COMMAND_34, ACK_34, COMMAND_36, ACK_36, IRQ0100, IRQ0200} \<or>
     p_event p \<in> {COMMAND_20, ACK_20, AUXILIARY_B0} \<and> p_transition p \<noteq> TRANSITION_FIRST_NAV"

definition before_image :: "protocol \<Rightarrow> bool" where
  "before_image p \<longleftrightarrow> p_event p \<in> {COMMAND_22, ACK_22, PRIMARY_B0}"

definition fdt_stages :: "fdt_state \<Rightarrow> nat \<times> nat \<times> nat" where
  "fdt_stages st = (unat (fs_current_stage st), unat (fs_up_stage st), unat (fs_down_stage st))"

definition stages_ok :: "protocol \<Rightarrow> nat \<times> nat \<times> nat \<Rightarrow> bool" where
  "stages_ok p = (\<lambda>(current, up, down).
     current = p_contacts p + of_bool (before_image p) \<and> up = current \<and>
     down + of_bool (before_release p) = p_contacts p \<and>
     (p_event p \<in> {COMMAND_36, ACK_36, IRQ0100} \<longrightarrow> p_transition p \<noteq> TRANSITION_FIRST_NAV))"

fun stages_after :: "enrollment_event \<Rightarrow> nat \<Rightarrow> nat \<times> nat \<times> nat \<Rightarrow> nat \<times> nat \<times> nat" where
  "stages_after e k (current, up, down) =
     (if e = IRQ2 then (k + 1, k + 1, down)
      else if e = IRQ0200 \<or> e = ZERO_MASK_RECOVERY then (current, up, k)
      else (current, up, down))"

lemma stages_step:
  "protocol_step limit p e q \<Longrightarrow> stages_ok p s \<Longrightarrow> stages_ok q (stages_after e (p_contacts p) s)"
proof (induction rule: protocol_step.induct)
  case (step_plain p e)
  then show ?case
    unfolding plain_next_cases
    by (cases s; simp only: insert_iff empty_iff prod.inject simp_thms)
       (elim disjE conjE; simp add: stages_ok_def before_image_def before_release_def)
qed (cases s; auto simp: stages_ok_def before_image_def before_release_def)+

text \<open>In a configuration that defers deliveries, the first contact always navigates.\<close>

definition first_ok :: "protocol \<Rightarrow> bool" where
  "first_ok p \<longleftrightarrow>
     p_contacts p = 1 \<and>
     p_event p \<in> {COMMAND_34, ACK_34, COMMAND_36, ACK_36, IRQ0100, COMMAND_20, ACK_20, AUXILIARY_B0} \<longrightarrow>
     p_transition p = TRANSITION_FIRST_NAV \<and> p_event p \<notin> {COMMAND_36, ACK_36, IRQ0100}"

lemma first_step:
  "protocol_step limit p e q \<Longrightarrow> first_ok p \<Longrightarrow>
     (e = PRIMARY_B0 \<and> p_contacts p = 0 \<longrightarrow> p_transition q = TRANSITION_FIRST_NAV) \<Longrightarrow> first_ok q"
proof (induction rule: protocol_step.induct)
  case (step_plain p e)
  then show ?case
    unfolding plain_next_cases
    by (simp only: insert_iff empty_iff prod.inject simp_thms)
       (elim disjE conjE; simp add: first_ok_def)
qed (auto simp: first_ok_def)

lemma u32_inc: "x + 1 \<noteq> 0 \<Longrightarrow> unat ((x :: u32) + 1) = Suc (unat x)"
  using unatSuc [of x] by (simp add: add.commute)

lemma observe_fdt_stages:
  assumes "observe_fdt e raw flags stage st = (Accept, st')"
  shows "fdt_stages st' = stages_after e (unat stage) (fdt_stages st) \<and> \<not> fs_failed st'
    \<or> e \<notin> {IRQ2, IRQ0200, ZERO_MASK_RECOVERY} \<and> st' = st"
  using assms
  by (auto simp: observe_fdt_def fdt_observe_irq2_def fdt_observe_zero_def fdt_observe_irq0200_def
      fdt_fail_def fdt_stages_def u32_inc split: if_split_asm option.splits prod.splits bool.splits)

lemma observe_fdt_shapes: "fdt_shapes st \<Longrightarrow> fdt_shapes (snd (observe_fdt e raw flags stage st))"
  by (simp add: observe_fdt_def irq2_shapes irq0200_shapes zero_shapes)

lemma fdt_refresh_stages:
  assumes "fdt_refresh_irq80 raw table st = (Accept, st', table')"
  shows "fdt_stages st' = fdt_stages st" "\<not> fs_failed st'"
    "length table' = FDT_TABLE_LENGTH"
  using assms
  by (auto simp: fdt_refresh_irq80_def fdt_fail_def fdt_stages_def
      split: if_split_asm option.splits prod.splits bool.splits dest: fresh_shapes)

lemma fdt_resolve_stages:
  assumes "fdt_resolve i ts av st = (Accept, st', material)"
  shows "fdt_stages st' = fdt_stages st" "fs_failed st' = fs_failed st"
    "fs_up_table st' = fs_up_table st" "fs_down_table st' = fs_down_table st"
  using assms
  by (auto simp: fdt_resolve_def fdt_fail_def fdt_stages_def Let_def
      split: if_split_asm body_class.splits)

section \<open>An accepted call of the plan is a step of the protocol\<close>

lemma primary_deferred:
  assumes "enrollment_model_feed sr PRIMARY_B0 (m, c) = (Accept, m', c')"
    and "m_defer_intermediate_until m" "m_observed m = 0"
  shows "m_transition m' = TRANSITION_FIRST_NAV"
proof -
  have "feed_primary_b0 sr (m, c) = (Accept, m', c')"
    using assms(1) by (auto simp: enrollment_model_feed_def model_fail_def split: if_split_asm prod.splits)
  moreover have "defers_delivery (observe_primary m)"
    using assms(2,3) by (simp add: defers_delivery_def)
  ultimately show ?thesis
    using assms(3) by (auto simp: feed_primary_b0_def model_fail_def Let_def split: if_split_asm)
qed

definition plan_position :: "'u command_plan \<Rightarrow> protocol" where
  "plan_position plan = protocol_of (plan_model plan)"

definition plan_defers :: "'u command_plan \<Rightarrow> bool" where
  "plan_defers plan = m_defer_intermediate_until (plan_model plan)"

lemma pipeline_accept_step:
  assumes "pipe_inv mpu" "pipeline_feed env image_ready e ss mpu = (Accept, mpu')"
  shows "protocol_step (unat (m_max_physical (fst mpu))) (protocol_of (fst mpu)) e (protocol_of (fst mpu'))"
    "m_defer_intermediate_until (fst mpu) \<Longrightarrow>
       e = PRIMARY_B0 \<and> p_contacts (protocol_of (fst mpu)) = 0 \<longrightarrow>
       p_transition (protocol_of (fst mpu')) = TRANSITION_FIRST_NAV"
    "limits (fst mpu') = limits (fst mpu)"
proof -
  obtain m p u m' p' u' where mpu: "mpu = (m, p, u)" "mpu' = (m', p', u')"
    by (metis prod_cases3)
  note feed = assms(2) [unfolded mpu]
  from feed obtain p1 p2 where
    f: "enrollment_model_feed (pipeline_stage_ready image_ready) e (m, p1, u) = (Accept, m', p2, u')"
    and alive: "\<not> pl_failed p"
    by (rule pipeline_feed_accept)
  have "model_inv m"
    using assms(1) alive mpu(1) by (simp add: pipe_inv_def)
  from pipeline_callback.feed_refines [OF this f]
  show "protocol_step (unat (m_max_physical (fst mpu))) (protocol_of (fst mpu)) e (protocol_of (fst mpu'))"
    by (simp add: mpu)
  show "m_defer_intermediate_until (fst mpu) \<Longrightarrow>
       e = PRIMARY_B0 \<and> p_contacts (protocol_of (fst mpu)) = 0 \<longrightarrow>
       p_transition (protocol_of (fst mpu')) = TRANSITION_FIRST_NAV"
    using primary_deferred [of _ m "(p1, u)" m' "(p2, u')"] f by (auto simp: mpu unat_eq_0)
  show "limits (fst mpu') = limits (fst mpu)"
    using pipeline_feed_limits [of env image_ready e ss m p u] feed by (simp add: mpu)
qed

lemma observe_accept:
  assumes "command_plan_observe env image_ready e ss plan = (Accept, plan')"
  shows "\<not> cp_failed plan" "\<not> cp_failed plan'"
    "pipeline_feed env image_ready e ss (cp_pipeline plan) = (Accept, cp_pipeline plan')"
  using assms
  by (auto simp: command_plan_observe_def plan_fail_def split: if_split_asm prod.splits reply.splits)

lemma commit_accept:
  assumes "command_plan_commit env image_ready e plan = (Accept, plan')"
  shows "\<not> cp_failed plan" "\<not> cp_failed plan'"
    "pipeline_feed env image_ready e None (cp_pipeline plan) = (Accept, cp_pipeline plan')"
    "\<exists>i. command_plan_peek plan = Some i \<and> in_event i = e"
  using assms
  by (auto simp: command_plan_commit_def plan_fail_def command_plan_peek_def Let_def
      split: if_split_asm prod.splits reply.splits option.splits)

lemma plan_accept_step:
  assumes "plan_inv plan" "pipeline_feed env image_ready e ss (cp_pipeline plan) = (Accept, cp_pipeline plan')"
  shows "protocol_step (unat (cp_max_physical plan)) (plan_position plan) e (plan_position plan')"
    "plan_defers plan \<Longrightarrow> first_ok (plan_position plan) \<Longrightarrow> first_ok (plan_position plan')"
    "plan_defers plan' = plan_defers plan"
proof -
  have inv: "pipe_inv (cp_pipeline plan)" and limit: "cp_max_physical plan = m_max_physical (plan_model plan)"
    using assms(1) by (simp_all add: plan_inv_def)
  note st = pipeline_accept_step [OF inv assms(2)]
  show step: "protocol_step (unat (cp_max_physical plan)) (plan_position plan) e (plan_position plan')"
    using st(1) limit by (simp add: plan_position_def)
  show "plan_defers plan \<Longrightarrow> first_ok (plan_position plan) \<Longrightarrow> first_ok (plan_position plan')"
    using first_step [OF step] st(2) by (simp add: plan_defers_def plan_position_def)
  show "plan_defers plan' = plan_defers plan"
    using st(3) by (simp add: plan_defers_def limits_def)
qed

section \<open>Invariant\<close>

text \<open>A prepared command carries the body that the builder makes for its intent.\<close>

definition well_built :: "prepared_command \<Rightarrow> bool" where
  "well_built c \<longleftrightarrow>
     (\<exists>material. command_body_build (pc_intent c) material None = (Accept, pc_body c, None) \<and>
        (\<forall>m. material = Some m \<longrightarrow> length (mt_fdt_table m) = FDT_TABLE_LENGTH))"

definition adapter_live :: "'u adapter \<Rightarrow> bool" where
  "adapter_live a \<longleftrightarrow>
     \<not> cp_failed (la_plan a) \<and> \<not> fs_failed (la_fdt a) \<and>
     stages_ok (plan_position (la_plan a)) (fdt_stages (la_fdt a)) \<and>
     (plan_defers (la_plan a) \<longrightarrow> first_ok (plan_position (la_plan a))) \<and>
     (\<forall>c. la_cached a = Some c \<longrightarrow>
        command_plan_peek (la_plan a) = Some (pc_intent c) \<and> well_built c) \<and>
     aa_prepared (la_audit a) = aa_committed_prepared (la_audit a) + of_bool (la_cached a \<noteq> None)"

definition adapter_inv :: "'u adapter \<Rightarrow> bool" where
  "adapter_inv a \<longleftrightarrow>
     plan_inv (la_plan a) \<and> fdt_shapes (la_fdt a) \<and>
     (la_failed a \<longrightarrow> la_cached a = None) \<and> aa_failed (la_audit a) = la_failed a \<and>
     (\<not> la_failed a \<longrightarrow> adapter_live a)"

lemma adapter_invI:
  assumes "plan_inv (la_plan a)" "fdt_shapes (la_fdt a)" "\<not> la_failed a" "\<not> aa_failed (la_audit a)"
    "adapter_live a"
  shows "adapter_inv a"
  using assms by (simp add: adapter_inv_def)

lemma adapter_fail_fields [simp]:
  "fst (adapter_fail prior code a) \<noteq> Accept"
  "la_failed (snd (adapter_fail prior code a))"
  by (simp_all add: adapter_fail_def)

lemma adapter_fail_inv:
  "plan_inv (la_plan a) \<Longrightarrow> fdt_shapes (la_fdt a) \<Longrightarrow> adapter_inv (snd (adapter_fail prior code a))"
  by (simp add: adapter_inv_def adapter_fail_def)

lemma adapter_new_inv:
  assumes "lifecycle_adapter_new config u = Inr a"
  shows "adapter_inv a"
proof -
  obtain plan where plan: "command_plan_new config u = Inr plan" and
    a: "a = \<lparr>la_plan = plan, la_fdt = fdt_state_new, la_body_audit = body_audit_zero,
           la_audit = adapter_audit_zero, la_cached = None, la_failed = False\<rparr>"
    using assms by (auto simp: lifecycle_adapter_new_def split: sum.splits)
  obtain m p where m: "enrollment_model_new config = Inr m" and mp: "cp_pipeline plan = (m, p, u)"
    and alive: "\<not> cp_failed plan"
    using plan by (auto simp: command_plan_new_def pipeline_new_def split: sum.splits)
  have "plan_position plan = protocol_start"
    using new_model_fields [OF m] mp by (simp add: plan_position_def)
  then show ?thesis
    using plan_new_inv [OF plan] alive fdt_new_shapes
    by (intro adapter_invI) (auto simp: a adapter_live_def adapter_audit_zero_def stages_ok_def
        fdt_stages_def fdt_state_new_def protocol_start_def before_image_def before_release_def
        first_ok_def)
qed

lemma observe_keeps:
  assumes "adapter_inv a"
  shows "adapter_inv (snd (lifecycle_adapter_observe env image_ready e ss raw flags a))"
proof -
  note inv = assms [unfolded adapter_inv_def]
  obtain r st where o1: "observe_fdt e raw flags (observed_stage a) (la_fdt a) = (r, st)"
    by (metis surj_pair)
  obtain r2 plan where o2: "command_plan_observe env image_ready e ss (la_plan a) = (r2, plan)"
    by (metis surj_pair)
  have shapes: "fdt_shapes st"
    using observe_fdt_shapes [of "la_fdt a" e raw flags "observed_stage a"] inv o1 by simp
  have plan: "plan_inv plan"
    using observe_inv [of "la_plan a" env image_ready e ss] inv o2 by simp
  show ?thesis
  proof (cases "la_failed a \<or> la_cached a \<noteq> None \<or> command_plan_is_complete (la_plan a) \<or>
      \<not> payload_contract_valid e ss raw flags")
    case True
    then show ?thesis
      using inv by (auto simp: lifecycle_adapter_observe_def intro!: adapter_fail_inv)
  next
    case False
    note eq = lifecycle_adapter_observe_def [of env image_ready e ss raw flags a]
    show ?thesis
    proof (cases "r = Accept \<and> r2 = Accept")
      case True
      note acc = observe_accept [OF o2 [unfolded True [THEN conjunct2]]]
      have live: "adapter_live a" using inv False by simp
      note step = plan_accept_step [OF _ acc(3)]
      have k: "unat (observed_stage a) = p_contacts (plan_position (la_plan a))"
        using plan_inv_live [of "la_plan a"] inv live False
        by (auto simp: observed_stage_def plan_position_def live_def model_static_def adapter_live_def
            command_plan_is_complete_def)
      have "stages_ok (plan_position plan) (stages_after e (unat (observed_stage a)) (fdt_stages (la_fdt a)))"
        using stages_step [OF step(1)] inv live k by (simp add: adapter_live_def)
      moreover have "fdt_stages st = stages_after e (unat (observed_stage a)) (fdt_stages (la_fdt a))"
        "\<not> fs_failed st"
        using observe_fdt_stages [OF o1 [unfolded True [THEN conjunct1]]] live
        by (auto simp: adapter_live_def fdt_stages_def)
      ultimately have "adapter_live (a\<lparr>la_fdt := st, la_plan := plan\<rparr>)"
        using live acc step(2,3) inv False by (simp add: adapter_live_def)
      then show ?thesis
        unfolding eq using False o1 o2 True inv shapes plan
        by (auto intro: adapter_invI)
    next
      case other: False
      then show ?thesis
        unfolding eq using False o1 o2 inv shapes plan
        by (cases r; cases r2) (auto intro!: adapter_fail_inv)
    qed
  qed
qed

lemma set_user_fields [simp]:
  "la_fdt (set_user u a) = la_fdt a" "la_audit (set_user u a) = la_audit a"
  "la_cached (set_user u a) = la_cached a" "la_failed (set_user u a) = la_failed a"
  "la_body_audit (set_user u a) = la_body_audit a"
  "cp_failed (la_plan (set_user u a)) = cp_failed (la_plan a)"
  "plan_model (la_plan (set_user u a)) = plan_model (la_plan a)"
  "command_plan_peek (la_plan (set_user u a)) = command_plan_peek (la_plan a)"
  "plan_position (la_plan (set_user u a)) = plan_position (la_plan a)"
  "plan_defers (la_plan (set_user u a)) = plan_defers (la_plan a)"
  "adapter_user (set_user u a) = u"
  by (simp_all add: set_user_def command_plan_peek_def planned_command_def plan_position_def
      plan_defers_def adapter_user_def Let_def cong: if_cong)

lemma set_user_plan_inv [simp]: "plan_inv (la_plan (set_user u a)) = plan_inv (la_plan a)"
proof -
  obtain m p u' where "cp_pipeline (la_plan a) = (m, p, u')" by (metis prod_cases3)
  then show ?thesis by (simp add: plan_inv_def set_user_def pipe_inv_def)
qed

lemma set_user_live [simp]: "adapter_live (set_user u a) = adapter_live a"
  by (simp add: adapter_live_def)

lemma request_timestamp_fields:
  assumes "request_timestamp ts stage purpose a = (r, t, a')"
  shows "la_fdt a' = la_fdt a" "la_cached a' = la_cached a" "la_failed a' = la_failed a"
    "la_body_audit a' = la_body_audit a"
    "aa_prepared (la_audit a') = aa_prepared (la_audit a)"
    "aa_committed_prepared (la_audit a') = aa_committed_prepared (la_audit a)"
    "aa_failed (la_audit a') = aa_failed (la_audit a)"
    "plan_inv (la_plan a') = plan_inv (la_plan a)"
    "command_plan_peek (la_plan a') = command_plan_peek (la_plan a)"
    "adapter_live a' = adapter_live a"
    "fst (ts stage purpose (adapter_user a)) = r"
  using assms
  by (auto simp: request_timestamp_def Let_def adapter_user_def split: prod.splits)
     (simp_all add: adapter_live_def)

lemma well_built_irq80:
  assumes "command_body_build intent (Some m) None = (Accept, body, x)" "length (mt_fdt_table m) = 12"
  shows "well_built \<lparr>pc_intent = intent, pc_body = body\<rparr>"
  unfolding well_built_def using assms
  by (intro exI [of _ "Some m"])
     (auto simp: command_body_build_def body_fail_def split: if_split_asm)

lemma irq80_keeps:
  assumes "adapter_inv a"
    and call: "lifecycle_adapter_prepare_irq80_rearm ts raw a out = (r, a', out')"
  shows "adapter_inv a'" "r = Accept \<Longrightarrow> well_built out' \<and> \<not> la_failed a'"
proof -
  note inv = assms(1) [unfolded adapter_inv_def]
  let ?stage = "observed_stage a + 1"
  obtain r1 st table where f: "fdt_refresh_irq80 raw (replicate FDT_TABLE_LENGTH 0) (la_fdt a) = (r1, st, table)"
    by (metis prod_cases3)
  obtain r2 t a1 where q: "request_timestamp ts ?stage PURPOSE_IRQ80_REARM (a\<lparr>la_fdt := st\<rparr>) = (r2, t, a1)"
    by (metis prod_cases3)
  let ?m = "\<lparr>mt_stage_index = ?stage, mt_table_role = ROLE_TRANSITION_DOWN, mt_fdt_table = table,
      mt_timestamp = t, mt_has_fdt_table = True, mt_has_timestamp = True\<rparr>"
  obtain r3 body x where b: "command_body_build (irq80_intent ?stage) (Some ?m) None = (r3, body, x)"
    by (metis prod_cases3)
  note qf = request_timestamp_fields [OF q]
  have shapes: "fdt_shapes st"
    using irq80_shapes [of "la_fdt a" raw "replicate FDT_TABLE_LENGTH 0"] inv f by simp
  define guard where "guard = (la_failed a \<or> la_cached a \<noteq> None \<or>
      command_plan_get_expected_event (la_plan a) \<noteq> IRQ2)"
  note eq = lifecycle_adapter_prepare_irq80_rearm_def [of ts raw a out, folded guard_def]
  have purpose: "in_purpose (irq80_intent s) = PURPOSE_IRQ80_REARM" for s
    by (simp add: irq80_intent_def)
  have "adapter_inv a' \<and> (r = Accept \<longrightarrow> well_built out' \<and> \<not> la_failed a')"
  proof (cases "\<not> guard \<and> r1 = Accept \<and> r2 = Callback_True \<and> r3 = Accept")
    case True
    then have out: "r = Accept" "a' = a1" "out' = \<lparr>pc_intent = irq80_intent ?stage, pc_body = body\<rparr>"
      using call f q b by (auto simp: eq Let_def purpose prepared_command_clear_def)
    note fr = fdt_refresh_stages [OF f [unfolded conjunct1 [OF conjunct2 [OF True]]]]
    have "adapter_live (a\<lparr>la_fdt := st\<rparr>)"
      using inv True fr by (simp add: adapter_live_def guard_def)
    then show ?thesis
      using out b True fr qf inv shapes well_built_irq80 [of "irq80_intent ?stage" ?m body x]
      by (auto intro!: adapter_invI simp: guard_def)
  next
    case False
    with inv shapes qf f q b show ?thesis
      unfolding call [symmetric, unfolded eq, THEN arg_cong [where f = "\<lambda>x. fst (snd x)"], simplified]
        call [symmetric, unfolded eq, THEN arg_cong [where f = fst], simplified]
      by (cases guard; cases r1; cases r2; cases r3)
         (auto simp: Let_def purpose case_prod_beta intro!: adapter_fail_inv)
  qed
  then show "adapter_inv a'" "r = Accept \<Longrightarrow> well_built out' \<and> \<not> la_failed a'" by simp_all
qed

lemma build_audit_free:
  "command_body_build i material (Some au) = (Accept, body, x) \<Longrightarrow>
     command_body_build i material None = (Accept, body, None)"
  by (auto simp: command_body_build_def body_fail_def split: if_split_asm)

lemma plan_inv_peek:
  assumes "plan_inv plan" "command_plan_peek plan = Some i"
  shows "intent_contract_valid i" "\<not> in_wire_frame_serializable i"
  using peek_contract [OF assms] peek_some(5) [OF assms(2)] by simp_all

lemma prepare_body_accept:
  assumes inv: "plan_inv (la_plan a)" "fdt_shapes (la_fdt a)" "command_plan_peek (la_plan a) = Some i"
    and call: "prepare_body i t av a = (Accept, a', body)"
  shows "well_built \<lparr>pc_intent = i, pc_body = body\<rparr>" "fdt_shapes (la_fdt a')"
    "fdt_stages (la_fdt a') = fdt_stages (la_fdt a)" "fs_failed (la_fdt a') = fs_failed (la_fdt a)"
    "la_plan a' = la_plan a" "la_audit a' = la_audit a" "la_failed a' = la_failed a"
    "la_cached a' = la_cached a"
proof -
  obtain r st mat where f: "fdt_resolve i t av (la_fdt a) = (r, st, mat)" by (metis prod_cases3)
  obtain r2 body2 x where b: "command_body_build i mat (Some (la_body_audit a)) = (r2, body2, x)"
    by (metis prod_cases3)
  have acc: "r = Accept" "r2 = Accept" "body = body2"
    and a': "a' = a\<lparr>la_fdt := st, la_body_audit := the x\<rparr>"
    using call f b by (cases r; cases r2; auto simp: prepare_body_def adapter_fail_def)+
  note valid = plan_inv_peek [OF inv(1,3)]
  have "\<forall>m. mat = Some m \<longrightarrow> length (mt_fdt_table m) = 12"
    using resolved_material_buildable [OF inv(2) valid f [unfolded acc(1)], of None]
    by (auto simp: table_shape_def)
  then show "well_built \<lparr>pc_intent = i, pc_body = body\<rparr>"
    using build_audit_free [OF b [unfolded acc(2)]] by (auto simp: well_built_def acc)
  show "fdt_shapes (la_fdt a')"
    using resolve_shapes [OF inv(2), of i t av] f a' by simp
  show "fdt_stages (la_fdt a') = fdt_stages (la_fdt a)" "fs_failed (la_fdt a') = fs_failed (la_fdt a)"
    "la_plan a' = la_plan a" "la_audit a' = la_audit a" "la_failed a' = la_failed a"
    "la_cached a' = la_cached a"
    using fdt_resolve_stages [OF f [unfolded acc(1)]] by (simp_all add: a')
qed

lemma prepare_body_reject:
  assumes "plan_inv (la_plan a)" "fdt_shapes (la_fdt a)" "prepare_body i t av a = (Reject e, a', body)"
  shows "adapter_inv a'"
proof -
  obtain r st mat where f: "fdt_resolve i t av (la_fdt a) = (r, st, mat)" by (metis prod_cases3)
  obtain r2 body2 x where b: "command_body_build i mat (Some (la_body_audit a)) = (r2, body2, x)"
    by (metis prod_cases3)
  have "fdt_shapes st"
    using resolve_shapes [OF assms(2), of i t av] f by simp
  moreover have "a' = fst (snd (prepare_body i t av a))"
    using assms(3) by simp
  moreover have "\<not> (r = Accept \<and> r2 = Accept)"
    using assms(3) f b by (auto simp: prepare_body_def)
  ultimately show ?thesis
    using assms f b
    by (cases r; cases r2) (auto simp: prepare_body_def case_prod_beta Let_def intro!: adapter_fail_inv)
qed

lemma adapter_live_complete:
  assumes "adapter_live a"
  shows "command_plan_is_complete (la_plan a) \<longleftrightarrow> m_complete (plan_model (la_plan a))"
  using assms by (simp add: adapter_live_def command_plan_is_complete_def)

lemma prepare_keeps:
  assumes "adapter_inv a" and call: "lifecycle_adapter_prepare ts a = (r, a', out)"
  shows "adapter_inv a'"
    "r = Accept \<Longrightarrow> \<not> la_failed a' \<and> la_cached a' = Some out \<and> well_built out"
proof -
  note inv = assms(1) [unfolded adapter_inv_def]
  have a': "r = fst (lifecycle_adapter_prepare ts a)" "a' = fst (snd (lifecycle_adapter_prepare ts a))"
    "out = snd (snd (lifecycle_adapter_prepare ts a))"
    using call by simp_all
  define dead where "dead = (la_failed a \<or> command_plan_is_complete (la_plan a))"
  note eq = lifecycle_adapter_prepare_def [of ts a, folded dead_def]
  have "adapter_inv a' \<and> (r = Accept \<longrightarrow> \<not> la_failed a' \<and> la_cached a' = Some out \<and> well_built out)"
  proof (cases "dead \<or> la_cached a = None \<and> command_plan_peek (la_plan a) = None")
    case True
    then show ?thesis
      unfolding a' using inv
      by (auto simp: eq dead_def Let_def case_prod_beta intro!: adapter_fail_inv)
  next
    case alive: False
    show ?thesis
    proof (cases "la_cached a")
      case (Some c)
      with alive inv show ?thesis
        unfolding a' by (auto simp: eq Let_def dead_def adapter_live_def intro!: adapter_invI)
    next
      case None
      with alive obtain i where i: "command_plan_peek (la_plan a) = Some i" by auto
      define timed where "timed = (in_body_class i = BODY_FDT_TIMESTAMP_0801)"
      obtain q t a1 where q: "(if timed then request_timestamp ts (in_stage_index i) (in_purpose i) a
          else (Callback_True, 0, a)) = (q, t, a1)" by (metis prod_cases3)
      have a1: "la_fdt a1 = la_fdt a" "la_cached a1 = None" "la_failed a1 = la_failed a"
        "aa_prepared (la_audit a1) = aa_prepared (la_audit a)" 
        "aa_committed_prepared (la_audit a1) = aa_committed_prepared (la_audit a)"
        "aa_failed (la_audit a1) = aa_failed (la_audit a)" "plan_inv (la_plan a1)"
        "command_plan_peek (la_plan a1) = Some i" "adapter_live a1 = adapter_live a"
        using q request_timestamp_fields [of ts "in_stage_index i" "in_purpose i" a q t a1] None i inv
        by (auto split: if_split_asm)
      obtain r2 a2 body where p: "prepare_body i t timed a1 = (r2, a2, body)" by (metis prod_cases3)
      note eq' = eq [unfolded Let_def None i option.case if_not_P [OF conjunct1 [OF alive [unfolded de_Morgan_disj]]]
          timed_def [symmetric] q prod.case p]
      show ?thesis
      proof (cases "q = Callback_True \<and> r2 = Accept")
        case True
        note pb = prepare_body_accept [OF a1(7) _ a1(8) p [unfolded True [THEN conjunct2]]]
        let ?c = "\<lparr>pc_intent = i, pc_body = body\<rparr>"
        have out: "r = Accept" "out = ?c" "a' = a2\<lparr>la_cached := Some ?c,
            la_audit := (la_audit a2)\<lparr>aa_prepared := aa_prepared (la_audit a2) + 1\<rparr>\<rparr>"
          unfolding a' eq' using True by simp_all
        have "fdt_shapes (la_fdt a1)" using a1(1) inv by simp
        note pb = pb [OF this]
        have "adapter_live a1" "\<not> la_failed a" using alive inv a1(9) by (simp_all add: dead_def)
        then have "adapter_live a'"
          using pb a1(2,4,5,8) unfolding out(3) by (simp add: adapter_live_def)
        with pb a1 inv alive show ?thesis
          unfolding out by (auto intro!: adapter_invI simp: dead_def)
      next
        case False
        have "fdt_shapes (la_fdt a1)" using a1(1) inv by simp
        then show ?thesis
          unfolding a' eq' using False a1 p
          by (cases q; cases r2)
             (auto simp: case_prod_beta intro!: adapter_fail_inv intro: prepare_body_reject)
      qed
    qed
  qed
  then show "adapter_inv a'"
    "r = Accept \<Longrightarrow> \<not> la_failed a' \<and> la_cached a' = Some out \<and> well_built out" by simp_all
qed

lemma commit_keeps:
  assumes "adapter_inv a"
  shows "adapter_inv (snd (lifecycle_adapter_commit env image_ready e a))"
proof -
  note inv = assms [unfolded adapter_inv_def]
  obtain r plan where c: "command_plan_commit env image_ready e (la_plan a) = (r, plan)"
    by (metis surj_pair)
  have plan: "plan_inv plan"
    using commit_inv [of "la_plan a" env image_ready e] inv c by simp
  show ?thesis
  proof (cases "\<not> la_failed a \<and> (\<exists>x. la_cached a = Some x \<and> e = in_event (pc_intent x)) \<and> r = Accept")
    case True
    then obtain x where x: "la_cached a = Some x" "e = in_event (pc_intent x)" "\<not> la_failed a" "r = Accept"
      by auto
    have live: "adapter_live a" using inv x(3) by simp
    note acc = commit_accept [OF c [unfolded x(4)]]
    note step = plan_accept_step [OF _ acc(3)]
    have "e \<notin> {IRQ2, IRQ0200, ZERO_MASK_RECOVERY}"
      using acc(4) peek_some(4) [of "la_plan a"] by (auto simp: is_command_event_def)
    then have "stages_ok (plan_position plan) (fdt_stages (la_fdt a))"
      using stages_step [OF step(1), of "fdt_stages (la_fdt a)"] inv live
      by (cases "fdt_stages (la_fdt a)") (simp add: adapter_live_def)
    then have "adapter_live (a\<lparr>la_plan := plan, la_audit := (la_audit a)\<lparr>aa_committed_prepared :=
                       aa_committed_prepared (la_audit a) + 1\<rparr>, la_cached := None\<rparr>)"
      using live acc step(2,3) inv x(1) by (simp add: adapter_live_def)
    then show ?thesis
      using x c inv plan by (auto simp: lifecycle_adapter_commit_def intro!: adapter_invI)
  next
    case False
    then show ?thesis
      using inv plan c
      by (cases r; cases "la_cached a")
         (auto simp: lifecycle_adapter_commit_def intro!: adapter_fail_inv)
  qed
qed

section \<open>The adapter as a machine\<close>

datatype adapter_call =
    Adapter_Observe allocator enrollment_event "u16 list option" "bytes option" u16
  | Adapter_Prepare
  | Adapter_Irq80 "bytes option"
  | Adapter_Commit allocator enrollment_event

fun adapter_machine ::
    "'u image_func \<Rightarrow> 'u timestamp_func \<Rightarrow> (adapter_call, gerror, 'u adapter) machine" where
  "adapter_machine ir ts (Adapter_Observe env e ss raw flags) a =
     lifecycle_adapter_observe env ir e ss raw flags a"
| "adapter_machine ir ts Adapter_Prepare a =
     (let (r, a', out) = lifecycle_adapter_prepare ts a in (r, a'))"
| "adapter_machine ir ts (Adapter_Irq80 raw) a =
     (let (r, a', out) = lifecycle_adapter_prepare_irq80_rearm ts raw a prepared_command_clear in (r, a'))"
| "adapter_machine ir ts (Adapter_Commit env e) a = lifecycle_adapter_commit env ir e a"

lemma adapter_machine_keeps: "adapter_inv a \<Longrightarrow> adapter_inv (snd (adapter_machine ir ts call a))"
proof (cases call)
  case Adapter_Prepare
  assume "adapter_inv a"
  then show ?thesis
    by (cases "lifecycle_adapter_prepare ts a") (simp add: Adapter_Prepare prepare_keeps(1))
next
  case (Adapter_Irq80 raw)
  assume "adapter_inv a"
  then show ?thesis
    by (cases "lifecycle_adapter_prepare_irq80_rearm ts raw a prepared_command_clear")
       (simp add: Adapter_Irq80 irq80_keeps(1))
qed (simp_all add: observe_keeps commit_keeps)

lemma adapter_reach_inv:
  assumes "lifecycle_adapter_new config u = Inr start" "reach (adapter_machine ir ts) start a"
  shows "adapter_inv a"
proof -
  have "machine_invariant (adapter_machine ir ts) start adapter_inv"
    by unfold_locales (use adapter_new_inv [OF assms(1)] adapter_machine_keeps in auto)
  then show ?thesis
    using assms(2) by (rule machine_invariant.inv_reach)
qed

interpretation adapter_terminal: absorbing_machine "adapter_machine ir ts" la_failed for ir ts
proof
  fix call and a :: "'a adapter"
  assume "la_failed a"
  then show "\<not> accepted (fst (adapter_machine ir ts call a))" "la_failed (snd (adapter_machine ir ts call a))"
    by (cases call; simp add: lifecycle_adapter_observe_def lifecycle_adapter_prepare_def
        lifecycle_adapter_prepare_irq80_rearm_def lifecycle_adapter_commit_def adapter_fail_def)+
qed

text \<open>The delivery policy of the configuration stays in force.\<close>

lemma adapter_fail_plan [simp]: "la_plan (snd (adapter_fail prior code a)) = la_plan a"
  by (simp add: adapter_fail_def)

lemma request_timestamp_defers [simp]:
  "plan_defers (la_plan (snd (snd (request_timestamp ts stage purpose a)))) = plan_defers (la_plan a)"
  by (simp add: request_timestamp_def Let_def case_prod_beta)

lemma prepare_body_plan [simp]: "la_plan (fst (snd (prepare_body i t av a))) = la_plan a"
  by (simp add: prepare_body_def Let_def case_prod_beta split: reply.split)

lemma prepare_defers:
  "plan_defers (la_plan (fst (snd (lifecycle_adapter_prepare ts a)))) = plan_defers (la_plan a)"
  by (simp add: lifecycle_adapter_prepare_def Let_def case_prod_beta
      split: option.split callback_reply.split reply.split)

lemma irq80_defers:
  "plan_defers (la_plan (fst (snd (lifecycle_adapter_prepare_irq80_rearm ts raw a out)))) =
     plan_defers (la_plan a)"
proof -
  let ?stage = "observed_stage a + 1"
  obtain r1 st table where f: "fdt_refresh_irq80 raw (replicate FDT_TABLE_LENGTH 0) (la_fdt a) = (r1, st, table)"
    by (metis prod_cases3)
  obtain r2 t a1 where q: "request_timestamp ts ?stage PURPOSE_IRQ80_REARM (a\<lparr>la_fdt := st\<rparr>) = (r2, t, a1)"
    by (metis prod_cases3)
  have same: "plan_defers (la_plan a1) = plan_defers (la_plan a)"
    using request_timestamp_defers [of ts ?stage PURPOSE_IRQ80_REARM "a\<lparr>la_fdt := st\<rparr>"] q by simp
  obtain r3 body x where b: "command_body_build (irq80_intent ?stage)
      (Some \<lparr>mt_stage_index = ?stage, mt_table_role = ROLE_TRANSITION_DOWN, mt_fdt_table = table,
      mt_timestamp = t, mt_has_fdt_table = True, mt_has_timestamp = True\<rparr>) None = (r3, body, x)"
    by (metis prod_cases3)
  have "in_purpose (irq80_intent s) = PURPOSE_IRQ80_REARM" for s
    by (simp add: irq80_intent_def)
  then show ?thesis
    using f q b same
    by (cases r1; cases r2; cases r3)
       (simp_all add: lifecycle_adapter_prepare_irq80_rearm_def Let_def case_prod_beta)
qed

lemma adapter_machine_defers:
  assumes "adapter_inv a" "\<not> la_failed (snd (adapter_machine ir ts call a))"
  shows "plan_defers (la_plan (snd (adapter_machine ir ts call a))) = plan_defers (la_plan a)"
proof (cases call)
  case (Adapter_Observe env e ss raw flags)
  obtain r st where o1: "observe_fdt e raw flags (observed_stage a) (la_fdt a) = (r, st)"
    by (metis surj_pair)
  obtain r2 plan where o2: "command_plan_observe env ir e ss (la_plan a) = (r2, plan)"
    by (metis surj_pair)
  have "r2 = Accept" "la_plan (snd (adapter_machine ir ts call a)) = plan"
    using assms(2) o1 o2 Adapter_Observe
    by (cases r; cases r2; auto simp: lifecycle_adapter_observe_def split: if_split_asm)+
  moreover from this have "plan_defers plan = plan_defers (la_plan a)"
    using plan_accept_step(3) [OF _ observe_accept(3)] o2 assms(1) unfolding adapter_inv_def by blast
  ultimately show ?thesis by simp
next
  case (Adapter_Commit env e)
  obtain r plan where c: "command_plan_commit env ir e (la_plan a) = (r, plan)"
    by (metis surj_pair)
  have "r = Accept" "la_plan (snd (adapter_machine ir ts call a)) = plan"
    using assms(2) c Adapter_Commit
    by (cases r; cases "la_cached a"; auto simp: lifecycle_adapter_commit_def split: if_split_asm)+
  moreover from this have "plan_defers plan = plan_defers (la_plan a)"
    using plan_accept_step(3) [OF _ commit_accept(3)] c assms(1) unfolding adapter_inv_def by blast
  ultimately show ?thesis by simp
next
  case Adapter_Prepare
  show ?thesis
    using prepare_defers [of ts a] by (simp add: Adapter_Prepare case_prod_beta)
next
  case (Adapter_Irq80 raw)
  show ?thesis
    using irq80_defers [of ts raw a] by (simp add: Adapter_Irq80 case_prod_beta)
qed

lemma adapter_reach_defers:
  assumes "lifecycle_adapter_new config u = Inr start" "reach (adapter_machine ir ts) start a"
    and "\<not> la_failed a"
  shows "plan_defers (la_plan a) = cfg_defer_intermediate_until_release_ready config"
  using assms(2,3)
proof (induction rule: reach.induct)
  case reach_start
  obtain plan m p where "command_plan_new config u = Inr plan" "la_plan start = plan"
    "enrollment_model_new config = Inr m" "plan_model plan = m"
    using assms(1) by (auto simp: lifecycle_adapter_new_def command_plan_new_def pipeline_new_def
        split: sum.splits)
  moreover have "m_defer_intermediate_until m = cfg_defer_intermediate_until_release_ready config"
    using \<open>enrollment_model_new config = Inr m\<close>
    by (auto simp: enrollment_model_new_def split: if_split_asm)
  ultimately show ?case by (simp add: plan_defers_def)
next
  case (reach_step a call)
  have "\<not> la_failed a"
    using reach_step.prems adapter_terminal.dead_stays by blast
  with reach_step adapter_machine_defers [OF adapter_reach_inv [OF assms(1) reach_step.hyps], of ir ts call]
  show ?case by simp
qed

section \<open>Every planned command has its material\<close>

lemma u32_pred: "unat d + 1 = unat s \<Longrightarrow> d + 1 = (s :: u32)"
proof -
  assume "unat d + 1 = unat s"
  then have "s = of_nat (unat d + 1)" by simp
  also have "\<dots> = d + 1" by simp
  finally show "d + 1 = s" by simp
qed

lemma peek_shape:
  assumes "command_plan_peek plan = Some i"
  shows "in_body_class i = BODY_FDT_0A01 \<longleftrightarrow> in_event i = COMMAND_34"
    "in_body_class i = BODY_FDT_0901 \<longleftrightarrow> in_event i = COMMAND_36"
    "in_body_class i = BODY_FDT_TIMESTAMP_0801 \<longleftrightarrow> in_event i = COMMAND_32"
  using peek_some(4,7) [OF assms]
  by (auto simp: planned_command_def is_command_event_def split: if_split_asm)

lemma peek_stage:
  assumes "plan_inv plan" "command_plan_peek plan = Some i"
  shows "unat (in_stage_index i) = p_contacts (plan_position plan) + of_bool (before_image (plan_position plan))"
    "in_event i = p_event (plan_position plan)"
proof -
  note peek = peek_some [OF assms(2)]
  note live = plan_inv_live [OF assms(1) peek(1,2)]
  show ev: "in_event i = p_event (plan_position plan)"
    using peek(3) by (simp add: plan_position_def)
  have "m_observed (plan_model plan) < m_max_physical (plan_model plan)" if "in_event i = COMMAND_22"
    using that live(3) peek(3) by (simp add: model_position_def pre_primary_def)
  then show "unat (in_stage_index i) = p_contacts (plan_position plan) + of_bool (before_image (plan_position plan))"
    using peek(3,4,6) live(1) u32_Suc_le
    by (auto simp: plan_position_def before_image_def live_def model_static_def is_command_event_def)
qed

lemma resolve_ready:
  assumes "adapter_inv a" "\<not> la_failed a" "plan_defers (la_plan a)"
    and peek: "command_plan_peek (la_plan a) = Some i"
  shows "fst (fdt_resolve i t (in_body_class i = BODY_FDT_TIMESTAMP_0801) (la_fdt a)) = Accept"
proof -
  let ?p = "plan_position (la_plan a)" and ?st = "la_fdt a"
  have inv: "plan_inv (la_plan a)" and live: "adapter_live a"
    using assms(1,2) by (simp_all add: adapter_inv_def)
  note stage = peek_stage [OF inv peek]
  have ok: "\<not> fs_failed ?st" "first_ok ?p"
    "unat (fs_current_stage ?st) = unat (in_stage_index i)"
    "unat (fs_up_stage ?st) = unat (in_stage_index i)"
    "unat (fs_down_stage ?st) + of_bool (before_release ?p) = p_contacts ?p"
    using live assms(3) stage(1) by (simp_all add: adapter_live_def stages_ok_def fdt_stages_def)
  have cur: "in_stage_index i = fs_current_stage ?st" "fs_up_stage ?st = in_stage_index i"
    using ok(3,4) by (simp_all add: word_unat_eq_iff)
  note shape = peek_shape [OF peek]
  show ?thesis
  proof (cases "in_body_class i")
    case BODY_SIMPLE_01_00
    with ok cur show ?thesis by (simp add: fdt_resolve_def)
  next
    case BODY_FDT_0A01
    with ok cur show ?thesis by (simp add: fdt_resolve_def)
  next
    case BODY_FDT_0901
    then have e: "p_event ?p = COMMAND_36" using shape(2) stage(2) by simp
    then have down: "unat (fs_down_stage ?st) + 1 = unat (in_stage_index i)"
      using ok(5) stage(1) by (simp add: before_release_def before_image_def)
    have "p_contacts ?p \<noteq> 1"
      using ok(2) e by (auto simp: first_ok_def)
    then have "2 \<le> unat (in_stage_index i)"
      using down stage(1) e by (simp add: before_image_def)
    then have "\<not> in_stage_index i < 2"
      by (simp add: word_less_nat_alt)
    with BODY_FDT_0901 ok cur u32_pred [OF down] show ?thesis by (simp add: fdt_resolve_def)
  next
    case BODY_FDT_TIMESTAMP_0801
    then have e: "p_event ?p = COMMAND_32" using shape(3) stage(2) by simp
    then have "fs_down_stage ?st = in_stage_index i"
      using ok(5) stage(1) by (simp add: before_release_def before_image_def word_unat_eq_iff)
    with BODY_FDT_TIMESTAMP_0801 ok cur show ?thesis by (simp add: fdt_resolve_def)
  qed
qed

text \<open>The table sits in the body between the class bytes and the timestamp.\<close>

definition body_table :: "command_body \<Rightarrow> bytes" where
  "body_table body = take FDT_TABLE_LENGTH (drop 2 (cb_bytes body))"

lemma prepare_body_ready:
  assumes "adapter_inv a" "\<not> la_failed a" "plan_defers (la_plan a)"
    and peek: "command_plan_peek (la_plan a) = Some i"
  obtains a' body where "prepare_body i t (in_body_class i = BODY_FDT_TIMESTAMP_0801) a = (Accept, a', body)"
    "in_body_class i \<noteq> BODY_SIMPLE_01_00 \<Longrightarrow> table_shape (body_table body)"
proof -
  have inv: "plan_inv (la_plan a)" "fdt_shapes (la_fdt a)"
    using assms(1) by (simp_all add: adapter_inv_def)
  let ?timed = "in_body_class i = BODY_FDT_TIMESTAMP_0801"
  obtain st mat where f: "fdt_resolve i t ?timed (la_fdt a) = (Accept, st, mat)"
    using resolve_ready [OF assms, of t] by (metis prod_cases3 fst_conv)
  note valid = plan_inv_peek [OF inv(1) peek]
  note mat = resolved_material_buildable [OF inv(2) valid f, of "Some (la_body_audit a)"]
  obtain body x where b: "command_body_build i mat (Some (la_body_audit a)) = (Accept, body, x)"
    using mat by (metis prod_cases3 fst_conv)
  have "prepare_body i t ?timed a = (Accept, a\<lparr>la_fdt := st, la_body_audit := the x\<rparr>, body)"
    using f b by (simp add: prepare_body_def)
  moreover have "table_shape (body_table body)" if "in_body_class i \<noteq> BODY_SIMPLE_01_00"
    using build_accept(4) [OF b that] mat
    by (auto simp: body_table_def fdt_body_def Let_def table_shape_def nth_append)
  ultimately show thesis by (rule that)
qed

section \<open>A prepared command can be committed\<close>

lemma command_feed:
  assumes "is_command_event e" "m_expected m = e" "\<not> m_failed m" "\<not> m_complete m"
  shows "enrollment_model_feed sr e (m, c) = (Accept, expect (the (plain_next e)) m, c)"
  using assms by (auto simp: enrollment_model_feed_def is_command_event_def)

lemma peek_commits:
  assumes "plan_inv plan" "command_plan_peek plan = Some i"
  obtains plan' where "command_plan_commit env image_ready (in_event i) plan = (Accept, plan')"
    "m_expected (plan_model plan') = the (plain_next (in_event i))" "\<not> cp_failed plan'"
proof -
  obtain m p u where mpu: "cp_pipeline plan = (m, p, u)" by (metis prod_cases3)
  note peek = peek_some [OF assms(2)]
  have alive: "\<not> m_failed m" "\<not> pl_failed p" "\<not> m_complete m" "m_expected m = in_event i"
    using assms(1) peek(1,2,3) mpu by (auto simp: plan_inv_def pipe_inv_def)
  have "in_event i \<noteq> PRIMARY_B0"
    using peek(4) by (auto simp: is_command_event_def)
  then have "pipeline_feed env image_ready (in_event i) None (m, p, u) =
      pipeline_feed_model image_ready (in_event i) (m, p, u)"
    using alive by (simp add: pipeline_feed_def)
  also obtain p' where "\<dots> = (Accept, expect (the (plain_next (in_event i))) m, p', u)"
    using command_feed [OF peek(4) alive(4,1,3), of "pipeline_stage_ready image_ready" "(p, u)"]
    by (simp add: pipeline_feed_model_def Let_def)
  finally have "command_plan_commit env image_ready (in_event i) plan = (Accept, plan
      \<lparr>cp_pipeline := (expect (the (plain_next (in_event i))) m, p', u),
       cp_audit := record_intent i (cp_audit plan), cp_last_event := in_event i\<rparr>)"
    using assms(2) mpu by (simp add: command_plan_commit_def)
  then show thesis
    by (rule that) (simp_all add: peek(1))
qed

section \<open>Properties\<close>

text \<open>
  Claim C12. Liveness of preparation: in a session whose deliveries are deferred to the
  release (the production configuration), in every reachable unfailed state with a command
  planned, the FDT state has the material the command needs, so preparing it succeeds as
  soon as the timestamp source answers; the cached command is the planned one and a dynamic
  body carries a table in the device's format.
\<close>

theorem adapter_prepares_every_command:
  assumes "lifecycle_adapter_new config u = Inr start"
    and "cfg_defer_intermediate_until_release_ready config"
    and "reach (adapter_machine image_ready timestamp_ready) start a"
    and "\<not> la_failed a" "la_cached a = None" "command_plan_peek (la_plan a) = Some intent"
    and "in_body_class intent = BODY_FDT_TIMESTAMP_0801 \<longrightarrow>
      fst (timestamp_ready (in_stage_index intent) (in_purpose intent) (adapter_user a)) = Callback_True"
  shows "\<exists>a' body. lifecycle_adapter_prepare timestamp_ready a =
      (Accept, a', \<lparr>pc_intent = intent, pc_body = body\<rparr>) \<and>
    la_cached a' = Some \<lparr>pc_intent = intent, pc_body = body\<rparr> \<and>
    (in_body_class intent \<noteq> BODY_SIMPLE_01_00 \<longrightarrow> table_shape (body_table body))"
proof -
  note inv = adapter_reach_inv [OF assms(1,3)]
  have defers: "plan_defers (la_plan a)"
    using adapter_reach_defers [OF assms(1,3,4)] assms(2) by simp
  define timed where "timed = (in_body_class intent = BODY_FDT_TIMESTAMP_0801)"
  obtain q t a1 where q: "(if timed then request_timestamp timestamp_ready (in_stage_index intent)
      (in_purpose intent) a else (Callback_True, 0, a)) = (q, t, a1)" by (metis prod_cases3)
  have keeps: "plan_defers (la_plan a1)"
    using q defers request_timestamp_defers [of timestamp_ready "in_stage_index intent" "in_purpose intent" a]
    by (cases timed) simp_all
  have q_ok: "q = Callback_True" and a1: "command_plan_peek (la_plan a1) = Some intent"
    "\<not> la_failed a1" "plan_defers (la_plan a1)" "adapter_inv a1"
    using q assms(4,5,6,7) inv keeps
      request_timestamp_fields [of timestamp_ready "in_stage_index intent" "in_purpose intent" a q t a1]
    by (auto simp: timed_def adapter_inv_def split: if_split_asm)
  obtain a2 body where p: "prepare_body intent t timed a1 = (Accept, a2, body)"
    and table: "in_body_class intent \<noteq> BODY_SIMPLE_01_00 \<Longrightarrow> table_shape (body_table body)"
    using prepare_body_ready [OF a1(4,2,3,1), of t] by (auto simp: timed_def)
  have "\<not> (la_failed a \<or> command_plan_is_complete (la_plan a))"
    using assms(4) peek_some(2) [OF assms(6)] by (simp add: command_plan_is_complete_def)
  then have "lifecycle_adapter_prepare timestamp_ready a = (Accept,
      a2\<lparr>la_cached := Some \<lparr>pc_intent = intent, pc_body = body\<rparr>,
         la_audit := (la_audit a2)\<lparr>aa_prepared := aa_prepared (la_audit a2) + 1\<rparr>\<rparr>,
      \<lparr>pc_intent = intent, pc_body = body\<rparr>)"
    using assms(5,6) q p q_ok by (simp add: lifecycle_adapter_prepare_def Let_def flip: timed_def)
  with table show ?thesis by simp
qed

text \<open>A production-like session on which the properties are exercised.\<close>

definition deferred_two_stages :: model_config where
  "deferred_two_stages = two_stages\<lparr>cfg_defer_terminal_until_release_ready := True,
     cfg_defer_intermediate_until_release_ready := True\<rparr>"

definition steady_clock :: "unit timestamp_func" where
  "steady_clock stage purpose u = (Callback_True, 7, u)"

definition touch_report :: bytes where
  "touch_report = concat (replicate 6 [100, 0])"

definition plenty :: allocator where
  "plenty = \<lparr>try_new0_ok = True, fp_image_new_ok = True, try_malloc_ok = True\<rparr>"

definition started :: "unit adapter" where
  "started = projr (lifecycle_adapter_new deferred_two_stages ())"

definition touched :: "unit adapter" where
  "touched = snd (adapter_machine plain_consumer steady_clock
     (Adapter_Observe plenty IRQ2 None (Some touch_report) 1) started)"

lemma started_new: "lifecycle_adapter_new deferred_two_stages () = Inr started"
  by (simp add: started_def lifecycle_adapter_new_def command_plan_new_def pipeline_new_def
      enrollment_model_new_def deferred_two_stages_def two_stages_def effective_max_def)

lemma touched_state:
  "\<not> la_failed touched \<and> la_cached touched = None \<and>
   map_option in_event (command_plan_peek (la_plan touched)) = Some COMMAND_22"
  by code_simp

lemma adapter_prepares_every_command_witness:
  "\<exists>a' body. lifecycle_adapter_prepare steady_clock touched =
     (Accept, a', \<lparr>pc_intent = the (command_plan_peek (la_plan touched)), pc_body = body\<rparr>)"
proof -
  have r: "reach (adapter_machine plain_consumer steady_clock) started touched"
    unfolding touched_def by (intro reach_step reach_start)
  obtain i where i: "command_plan_peek (la_plan touched) = Some i"
    using touched_state by auto
  show ?thesis
    using adapter_prepares_every_command [OF started_new _ r _ _ i] touched_state i
    by (auto simp: deferred_two_stages_def steady_clock_def)
qed

text \<open>
  A prepared command is held until it is committed: preparing again returns the
  same bytes without asking for another timestamp, committing its own event succeeds and
  the session then waits for that command's acknowledgement, and every observation and
  every other commit is refused.
\<close>

theorem prepared_command_held:
  assumes "lifecycle_adapter_new config u = Inr start"
    and "reach (adapter_machine image_ready timestamp_ready) start a"
    and "\<not> la_failed a" "la_cached a = Some c"
  shows "(\<exists>a'. lifecycle_adapter_prepare clock a = (Accept, a', c) \<and> la_cached a' = Some c \<and>
      la_plan a' = la_plan a \<and> aa_timestamp_request (la_audit a') = aa_timestamp_request (la_audit a)) \<and>
    (\<exists>a'. lifecycle_adapter_commit env image_ready (in_event (pc_intent c)) a = (Accept, a') \<and>
      la_cached a' = None \<and>
      lifecycle_adapter_get_expected_event a' = the (plain_next (in_event (pc_intent c)))) \<and>
    (e \<noteq> in_event (pc_intent c) \<longrightarrow> fst (lifecycle_adapter_commit env image_ready e a) \<noteq> Accept) \<and>
    fst (lifecycle_adapter_observe env image_ready e samples raw flags a) \<noteq> Accept"
proof (intro conjI impI)
  have inv: "plan_inv (la_plan a)" and live: "adapter_live a"
    using adapter_reach_inv [OF assms(1,2)] assms(3) by (simp_all add: adapter_inv_def)
  have peek: "command_plan_peek (la_plan a) = Some (pc_intent c)"
    using live assms(4) by (simp add: adapter_live_def)
  show "\<exists>a'. lifecycle_adapter_prepare clock a = (Accept, a', c) \<and> la_cached a' = Some c \<and>
      la_plan a' = la_plan a \<and> aa_timestamp_request (la_audit a') = aa_timestamp_request (la_audit a)"
    using assms(3,4) peek_some(2) [OF peek]
    by (simp add: lifecycle_adapter_prepare_def command_plan_is_complete_def)
  obtain plan' where "command_plan_commit env image_ready (in_event (pc_intent c)) (la_plan a) = (Accept, plan')"
    "m_expected (plan_model plan') = the (plain_next (in_event (pc_intent c)))" "\<not> cp_failed plan'"
    by (rule peek_commits [OF inv peek])
  with assms(3,4) show "\<exists>a'. lifecycle_adapter_commit env image_ready (in_event (pc_intent c)) a = (Accept, a') \<and>
      la_cached a' = None \<and>
      lifecycle_adapter_get_expected_event a' = the (plain_next (in_event (pc_intent c)))"
    by (simp add: lifecycle_adapter_commit_def lifecycle_adapter_get_expected_event_def
        command_plan_get_expected_event_def)
  show "fst (lifecycle_adapter_commit env image_ready e a) \<noteq> Accept" if "e \<noteq> in_event (pc_intent c)"
    using that assms(3,4) by (simp add: lifecycle_adapter_commit_def)
  show "fst (lifecycle_adapter_observe env image_ready e samples raw flags a) \<noteq> Accept"
    using assms(4) by (simp add: lifecycle_adapter_observe_def)
qed

definition prepared_22 :: "unit adapter" where
  "prepared_22 = snd (adapter_machine plain_consumer steady_clock Adapter_Prepare touched)"

lemma prepared_22_state:
  "\<not> la_failed prepared_22 \<and> map_option (\<lambda>c. in_event (pc_intent c)) (la_cached prepared_22) = Some COMMAND_22"
  by code_simp

lemma prepared_command_held_witness:
  "\<exists>a'. lifecycle_adapter_commit plenty plain_consumer COMMAND_22 prepared_22 = (Accept, a') \<and>
     lifecycle_adapter_get_expected_event a' = ACK_22"
proof -
  have r: "reach (adapter_machine plain_consumer steady_clock) started prepared_22"
    unfolding prepared_22_def touched_def by (intro reach_step reach_start)
  obtain c where "la_cached prepared_22 = Some c" "in_event (pc_intent c) = COMMAND_22"
    using prepared_22_state by auto
  with prepared_command_held [OF started_new r, of c steady_clock plenty COMMAND_22 None None 0]
  show ?thesis using prepared_22_state by auto
qed

end
