(* ===== verification/A0_Protocol.thy ===== *)
theory A0_Protocol
  imports Errors
begin

text \<open>
  The A0 wire codec (\<^verbatim>\<open>goodix_a0_protocol.c\<close>): an outer header with type, payload length
  and an additive tag, an inner header with a control byte and an inner length, the body,
  and one additive checksum byte. A frame is a list of bytes; an absent \<^verbatim>\<open>GBytes\<close> pointer
  is \<open>None\<close>.
\<close>

record a0_message =
  control :: u8
  body :: bytes

definition outer_tag :: "u8 \<Rightarrow> u16 \<Rightarrow> u8" where
  "outer_tag type payload_length = type + lo8 payload_length + hi8 payload_length"

text \<open>The sum is taken in a 32-bit \<^verbatim>\<open>guint\<close> and truncated to a byte at the end.\<close>

definition inner_checksum :: "u8 \<Rightarrow> bytes \<Rightarrow> u8" where
  "inner_checksum ctl bs =
     (let inner_length = of_nat (length bs + 1) :: u16;
          sum0 = (ucast ctl :: u32) + ucast (lo8 inner_length) + ucast (hi8 inner_length);
          sum = foldl (\<lambda>s b. s + ucast b) sum0 bs
      in ucast (0xaa - sum))"

definition a0_build_frame :: "u8 \<Rightarrow> u8 \<Rightarrow> bytes \<Rightarrow> gerror + bytes" where
  "a0_build_frame wire_control checksum_control bs =
     (if length bs > 65535 - 4 then Inl (A0_Error A0_ERROR_ARGUMENT)
      else
        let inner_length = of_nat (length bs + 1) :: u16;
            payload_length = of_nat (length bs + 4) :: u16;
            header = [0xa0, lo8 payload_length, hi8 payload_length, outer_tag 0xa0 payload_length];
            inner = [wire_control, lo8 inner_length, hi8 inner_length];
            checksum = inner_checksum checksum_control bs
        in Inr (header @ inner @ bs @ [checksum]))"

definition a0_parse_frame :: "bytes option \<Rightarrow> u8 \<Rightarrow> gerror + a0_message" where
  "a0_parse_frame frame checksum_control =
     (case frame of
        None \<Rightarrow> Inl (A0_Error A0_ERROR_ARGUMENT)
      | Some data \<Rightarrow>
          if length data < 8 \<or> data ! 0 \<noteq> 0xa0 then Inl (A0_Error A0_ERROR_LENGTH)
          else
            let payload_length = le16 (data ! 1) (data ! 2) in
            if unat payload_length + 4 \<noteq> length data \<or> unat payload_length < 4
            then Inl (A0_Error A0_ERROR_LENGTH)
            else if data ! 3 \<noteq> outer_tag (data ! 0) payload_length
            then Inl (A0_Error A0_ERROR_TAG)
            else
              let inner_length = le16 (data ! 5) (data ! 6) in
              if inner_length = 0 \<or> unat inner_length + 3 \<noteq> unat payload_length
              then Inl (A0_Error A0_ERROR_LENGTH)
              else
                let body_length = unat inner_length - 1;
                    bs = take body_length (drop 7 data) in
                if data ! (length data - 1) \<noteq> inner_checksum checksum_control bs
                then Inl (A0_Error A0_ERROR_CHECKSUM)
                else Inr \<lparr>control = data ! 4, body = bs\<rparr>)"

section \<open>The checksum as a digest\<close>

lemma ucast_u32_sum:
  "(ucast (foldl (\<lambda>s b. s + ucast b) (s :: u32) bs) :: u8) = foldl (+) (ucast s) bs"
  by (induction bs arbitrary: s) (simp_all add: wire_simps)

interpretation sum8: byte_digest "(+) :: u8 \<Rightarrow> u8 \<Rightarrow> u8"
  by unfold_locales simp_all

lemma inner_checksum_sum:
  "inner_checksum ctl bs =
     0xaa - foldl (+) (ctl + lo8 (of_nat (length bs + 1)) + hi8 (of_nat (length bs + 1))) bs"
  by (simp add: inner_checksum_def Let_def wire_simps ucast_u32_sum)

section \<open>What the parser accepts\<close>

lemma a0_parse_Inr_iff:
  "a0_parse_frame (Some d) cc = Inr m \<longleftrightarrow>
     8 \<le> length d \<and> d ! 0 = 0xa0 \<and>
     unat (le16 (d ! 1) (d ! 2)) + 4 = length d \<and>
     d ! 3 = outer_tag (d ! 0) (le16 (d ! 1) (d ! 2)) \<and>
     unat (le16 (d ! 5) (d ! 6)) + 7 = length d \<and>
     d ! (length d - 1) = inner_checksum cc (take (length d - 8) (drop 7 d)) \<and>
     m = \<lparr>control = d ! 4, body = take (length d - 8) (drop 7 d)\<rparr>"
  (is "?P \<longleftrightarrow> ?Q")
proof -
  have pos: "le16 (d ! 5) (d ! 6) = 0 \<longleftrightarrow> unat (le16 (d ! 5) (d ! 6)) = 0"
    by (simp add: unat_eq_0)
  show ?thesis
  proof (cases "unat (le16 (d ! 5) (d ! 6)) + 7 = length d")
    case True
    then have "unat (le16 (d ! 5) (d ! 6)) - 1 = length d - 8"
      by simp
    with True show ?thesis
      unfolding a0_parse_frame_def Let_def pos option.case
      by (auto simp: not_less)
  next
    case False
    then show ?thesis
      unfolding a0_parse_frame_def Let_def pos option.case
      by auto
  qed
qed

lemma a0_frame_nth:
  assumes "d = [0xa0, p, q, t, c, l, h] @ bs @ [k]"
  shows "d ! 0 = 0xa0" "d ! 1 = p" "d ! 2 = q" "d ! 3 = t" "d ! 4 = c" "d ! 5 = l" "d ! 6 = h"
    "d ! (length d - 1) = k" "take (length d - 8) (drop 7 d) = bs" "length d = length bs + 8"
  using assms by (simp_all add: nth_append numeral_eq_Suc)

lemma a0_frame_decompose:
  assumes "8 \<le> length d"
  shows "d = [d ! 0, d ! 1, d ! 2, d ! 3, d ! 4, d ! 5, d ! 6] @
             take (length d - 8) (drop 7 d) @ [d ! (length d - 1)]"
proof (rule nth_equalityI)
  fix i assume i: "i < length d"
  show "d ! i = ([d ! 0, d ! 1, d ! 2, d ! 3, d ! 4, d ! 5, d ! 6] @
             take (length d - 8) (drop 7 d) @ [d ! (length d - 1)]) ! i"
  proof (cases "i < 7")
    case True
    then have "i \<in> {0, 1, 2, 3, 4, 5, 6}"
      by auto
    then show ?thesis
      by (auto simp: nth_append numeral_eq_Suc)
  next
    case False
    with i assms show ?thesis
      by (cases "i = length d - 1") (auto simp: nth_append)
  qed
qed (use assms in simp)

lemma a0_build_eq:
  "a0_build_frame wc cc bs =
     (if 65531 < length bs then Inl (A0_Error A0_ERROR_ARGUMENT)
      else Inr ([0xa0, lo8 (of_nat (length bs + 4)), hi8 (of_nat (length bs + 4)),
                 outer_tag 0xa0 (of_nat (length bs + 4)), wc,
                 lo8 (of_nat (length bs + 1)), hi8 (of_nat (length bs + 1))]
                @ bs @ [inner_checksum cc bs]))"
  by (simp add: a0_build_frame_def Let_def)

lemma a0_build_length: "a0_build_frame wc cc bs = Inr f \<Longrightarrow> length f = length bs + 8"
  by (auto simp: a0_build_frame_def Let_def split: if_splits)

lemma a0_build_nth_4: "a0_build_frame wc cc bs = Inr f \<Longrightarrow> f ! 4 = wc"
  by (auto simp: a0_build_frame_def Let_def split: if_splits)

lemma a0_build_Inr: "length bs \<le> 65531 \<Longrightarrow> \<exists>f. a0_build_frame wc cc bs = Inr f"
  by (simp add: a0_build_frame_def Let_def)

lemma a0_parse_build:
  assumes "a0_build_frame wc cc bs = Inr f"
  shows "a0_parse_frame (Some f) cc = Inr \<lparr>control = wc, body = bs\<rparr>"
proof -
  let ?p = "of_nat (length bs + 4) :: u16" and ?n = "of_nat (length bs + 1) :: u16"
  from assms have small: "length bs \<le> 65531"
    and f: "f = [0xa0, lo8 ?p, hi8 ?p, outer_tag 0xa0 ?p, wc, lo8 ?n, hi8 ?n] @ bs @
              [inner_checksum cc bs]"
    by (auto simp: a0_build_frame_def Let_def split: if_splits)
  note nth = a0_frame_nth [OF f]
  have "unat ?p = length bs + 4" "unat ?n = length bs + 1"
    using small by (simp_all only: unat_of_nat) simp_all
  then show ?thesis
    by (simp only: a0_parse_Inr_iff nth(1-9) le16_lo8_hi8) (simp add: nth(10))
qed

lemma a0_parse_sound:
  assumes "a0_parse_frame (Some f) cc = Inr m"
  shows "a0_build_frame (control m) cc (body m) = Inr f"
proof -
  let ?b = "take (length f - 8) (drop 7 f)"
  have facts: "8 \<le> length f" "f ! 0 = 0xa0" "unat (le16 (f ! 1) (f ! 2)) + 4 = length f"
      "f ! 3 = outer_tag 0xa0 (le16 (f ! 1) (f ! 2))" "unat (le16 (f ! 5) (f ! 6)) + 7 = length f"
      "f ! (length f - 1) = inner_checksum cc ?b" "m = \<lparr>control = f ! 4, body = ?b\<rparr>"
    using assms [unfolded a0_parse_Inr_iff] by simp_all
  have p: "of_nat (length ?b + 4) = le16 (f ! 1) (f ! 2)"
  proof -
    have "length ?b + 4 = unat (le16 (f ! 1) (f ! 2))"
      using facts(1,3) by (simp del: One_nat_def)
    then show ?thesis
      by (simp only: of_nat_unat) simp
  qed
  have n: "of_nat (length ?b + 1) = le16 (f ! 5) (f ! 6)"
  proof -
    have "length ?b + 1 = unat (le16 (f ! 5) (f ! 6))"
      using facts(1,5) by simp
    then show ?thesis
      by (simp only: of_nat_unat) simp
  qed
  have "length ?b \<le> 65531"
    using facts(1,3) unat_u16_less [of "le16 (f ! 1) (f ! 2)"] by (simp del: unat_u16_less)
  moreover have "f = [0xa0, f ! 1, f ! 2, outer_tag 0xa0 (le16 (f ! 1) (f ! 2)), f ! 4, f ! 5, f ! 6]
      @ ?b @ [inner_checksum cc ?b]"
    using a0_frame_decompose [OF facts(1)] facts(2,4,6) by simp
  ultimately show ?thesis
    by (simp only: a0_build_eq p n facts(7) lo8_le16 hi8_le16 a0_message.simps not_less [symmetric])
       simp
qed

section \<open>Corruption\<close>

lemma outer_tag_inject: "outer_tag t p = outer_tag t' p \<Longrightarrow> t = t'"
  by (simp add: outer_tag_def)

lemma inner_checksum_control: "inner_checksum c bs = inner_checksum c' bs \<Longrightarrow> c = c'"
  unfolding inner_checksum_sum by (auto dest: sum8.fold_inject)

lemma inner_checksum_update:
  "i < length bs \<Longrightarrow> inner_checksum c (bs[i := b]) = inner_checksum c bs \<Longrightarrow> bs[i := b] = bs"
  unfolding inner_checksum_sum by (simp add: sum8.update_visible)

lemma a0_body_update:
  assumes "8 \<le> length d" "7 \<le> i" "i < length d - 1"
  shows "take (length d - 8) (drop 7 (d[i := b])) = (take (length d - 8) (drop 7 d))[i - 7 := b]"
  using assms by (simp add: drop_update_swap take_update_swap)

text \<open>
  Changing any one byte of a frame that the receive path accepts (it passes the frame's own
  control byte as checksum control) makes it unacceptable.
\<close>

lemma a0_one_byte_rejected:
  assumes ok: "a0_parse_frame (Some d) (d ! 4) = Inr m"
    and i: "i < length d" and b: "b \<noteq> d ! i"
  shows "\<exists>e. a0_parse_frame (Some (d[i := b])) (d[i := b] ! 4) = Inl e"
proof (rule ccontr)
  let ?d = "d[i := b]"
  assume "\<not> ?thesis"
  then obtain m' where "a0_parse_frame (Some ?d) (?d ! 4) = Inr m'"
    by (cases "a0_parse_frame (Some ?d) (?d ! 4)") auto
  note new = this [unfolded a0_parse_Inr_iff, simplified length_list_update]
  note old = ok [unfolded a0_parse_Inr_iff]
  have big: "8 \<le> length d" and ne: "d \<noteq> []"
    using old by auto
  consider "i = 0" | "i = 1 \<or> i = 2" | "i = 3" | "i = 4" | "i = 5 \<or> i = 6"
    | "7 \<le> i" "i < length d - 1" | "7 \<le> i" "i = length d - 1"
    using i by linarith
  then show False
  proof cases
    case 1
    with old new b big ne show False by simp
  next
    case 2
    have "le16 (?d ! 1) (?d ! 2) = le16 (d ! 1) (d ! 2)"
      using old new by (simp add: word_unat_eq_iff)
    with 2 b big show False by auto
  next
    case 3
    with old new b big ne show False by simp
  next
    case 4
    then have "inner_checksum b (take (length d - 8) (drop 7 d)) =
        inner_checksum (d ! 4) (take (length d - 8) (drop 7 d))"
      using old new big by auto
    with 4 b show False by (auto dest: inner_checksum_control)
  next
    case 5
    have "le16 (?d ! 5) (?d ! 6) = le16 (d ! 5) (d ! 6)"
      using old new by (simp add: word_unat_eq_iff)
    with 5 b big show False by auto
  next
    case 6
    let ?bs = "take (length d - 8) (drop 7 d)"
    have "inner_checksum (d ! 4) (?bs[i - 7 := b]) = inner_checksum (d ! 4) ?bs"
      using old new 6 big by (simp add: a0_body_update)
    moreover have "i - 7 < length ?bs"
      using 6 big by simp
    ultimately have "?bs[i - 7 := b] = ?bs"
      by (rule inner_checksum_update [rotated])
    then have "?bs[i - 7 := b] ! (i - 7) = ?bs ! (i - 7)"
      by simp
    with 6 big b show False by simp
  next
    case 7
    then have "take (length d - 8) (drop 7 ?d) = take (length d - 8) (drop 7 d)"
      using big by (simp add: drop_update_swap)
    with 7 old new b big ne show False by simp
  qed
qed


section \<open>Properties\<close>

text \<open>
  Claim C1. Parser and builder describe the same wire format: a byte string parses to a
  message under a checksum control exactly when building that message with the same
  checksum control gives that byte string. So every frame the host sends is read back
  unchanged, and the parser accepts no other encoding (no slack in lengths, tag, padding
  or checksum).
\<close>

theorem a0_parse_iff_build:
  "a0_parse_frame (Some f) cc = Inr m \<longleftrightarrow> a0_build_frame (control m) cc (body m) = Inr f"
  using a0_parse_sound [of f cc m] a0_parse_build [of "control m" cc "body m" f] by auto

text \<open>
  Claim C2. Changing any one byte of a frame that the parser accepts, with the frame's own control
  byte as checksum control, makes it unacceptable to the parser, whichever byte it is: type,
  lengths, tag, control, body or checksum. The NAV frames of the post-TLS receivers are read by
  another function, which checks their length and fixed bytes only.
\<close>

theorem a0_corruption_detected:
  assumes "a0_parse_frame (Some d) (d ! 4) = Inr m" "i < length d" "b \<noteq> d ! i"
  shows "\<exists>e. a0_parse_frame (Some (d[i := b])) (d[i := b] ! 4) = Inl e"
  using assms by (rule a0_one_byte_rejected)

lemma a0_corruption_detected_witness:
  "\<exists>e. a0_parse_frame (Some ([0xa0, 6, 0, 0xa6, 0x22, 3, 0, 1, 0, 0x84][7 := 9]))
     ([0xa0, 6, 0, 0xa6, 0x22, 3, 0, 1, 0, 0x84 :: u8][7 := 9] ! 4) = Inl e"
  by (rule a0_corruption_detected [where m = "\<lparr>control = 0x22, body = [1, 0]\<rparr>"])
     (simp_all add: a0_parse_frame_def Let_def unat_le16 word_unat_eq_iff [of "le16 _ _"]
        outer_tag_def lo8_def hi8_def inner_checksum_def le16_def)

end
