(* ===== verification/Outbound_Frame.thy ===== *)
theory Outbound_Frame
  imports Lifecycle_Adapter A0_Protocol
begin

text \<open>
  The serializer of prepared commands (\<^verbatim>\<open>goodix_enrollment_outbound_frame.c\<close>): the body is
  checked by building it again from its own bytes, framed by the A0 builder and padded with
  zeroes to the 64 bytes of one USB transfer.
\<close>

record frame_audit =
  fr_frame_build :: u32
  fr_command_20 :: u32
  fr_command_22 :: u32
  fr_command_32 :: u32
  fr_command_34 :: u32
  fr_command_36 :: u32
  fr_command_50 :: u32
  fr_rejected_prepared :: u32
  fr_persistent_family :: u32
  fr_retry :: u32
  fr_submit :: u32

abbreviation FIXED64_LENGTH :: nat where "FIXED64_LENGTH \<equiv> 64"

definition frame_audit_zero :: frame_audit where
  "frame_audit_zero = \<lparr>fr_frame_build = 0, fr_command_20 = 0, fr_command_22 = 0, fr_command_32 = 0,
     fr_command_34 = 0, fr_command_36 = 0, fr_command_50 = 0, fr_rejected_prepared = 0,
     fr_persistent_family = 0, fr_retry = 0, fr_submit = 0\<rparr>"

definition outbound_fail ::
    "gerror option \<Rightarrow> outbound_error \<Rightarrow> frame_audit \<Rightarrow> (gerror + bytes) \<times> frame_audit" where
  "outbound_fail prior code au =
     (Inl (keep_first prior (Outbound_Error code)),
      au\<lparr>fr_rejected_prepared := fr_rejected_prepared au + 1\<rparr>)"

definition allowlisted_control :: "u8 \<Rightarrow> bool" where
  "allowlisted_control c \<longleftrightarrow>
     c = 0x20 \<or> c = 0x22 \<or> c = 0x32 \<or> c = 0x34 \<or> c = 0x36 \<or> c = 0x50"

text \<open>The material that \<^verbatim>\<open>prepared_body_valid\<close> reads back out of the body.\<close>

definition rebuilt_material :: "prepared_command \<Rightarrow> command_material" where
  "rebuilt_material c =
     (let class = in_body_class (pc_intent c); bs = cb_bytes (pc_body c);
          timed = (class = BODY_FDT_TIMESTAMP_0801)
      in \<lparr>mt_stage_index = in_stage_index (pc_intent c),
          mt_table_role = (if class = BODY_FDT_0A01 then ROLE_STAGE_UP
            else if class = BODY_FDT_0901 then ROLE_STAGE_AUX_SCAN else ROLE_TRANSITION_DOWN),
          mt_fdt_table = take FDT_TABLE_LENGTH (drop 2 bs),
          mt_timestamp = (if timed then le16 (bs ! 14) (bs ! 15) else 0),
          mt_has_fdt_table = True, mt_has_timestamp = timed\<rparr>)"

definition prepared_body_valid :: "prepared_command \<Rightarrow> bool" where
  "prepared_body_valid c =
     (let class = in_body_class (pc_intent c);
          required_length = (if class = BODY_FDT_TIMESTAMP_0801 then 16 else 14)
      in if class \<noteq> BODY_SIMPLE_01_00 \<and> cb_length (pc_body c) \<noteq> required_length then False
         else
           let material = (if class \<noteq> BODY_SIMPLE_01_00 then Some (rebuilt_material c) else None);
               (reply, rebuilt, _) = command_body_build (pc_intent c) material None
           in accepted reply \<and> cb_length rebuilt = cb_length (pc_body c) \<and>
              take (cb_length rebuilt) (cb_bytes rebuilt) =
              take (cb_length rebuilt) (cb_bytes (pc_body c)))"

definition record_control :: "u8 \<Rightarrow> frame_audit \<Rightarrow> frame_audit" where
  "record_control c au =
     (if c = 0x20 then au\<lparr>fr_command_20 := fr_command_20 au + 1\<rparr>
      else if c = 0x22 then au\<lparr>fr_command_22 := fr_command_22 au + 1\<rparr>
      else if c = 0x32 then au\<lparr>fr_command_32 := fr_command_32 au + 1\<rparr>
      else if c = 0x34 then au\<lparr>fr_command_34 := fr_command_34 au + 1\<rparr>
      else if c = 0x36 then au\<lparr>fr_command_36 := fr_command_36 au + 1\<rparr>
      else if c = 0x50 then au\<lparr>fr_command_50 := fr_command_50 au + 1\<rparr>
      else au)"

definition outbound_frame_build ::
    "prepared_command \<Rightarrow> frame_audit \<Rightarrow> (gerror + bytes) \<times> frame_audit" where
  "outbound_frame_build c au =
     (let ctl = in_control (pc_intent c) in
      if \<not> allowlisted_control ctl \<or> in_wire_frame_serializable (pc_intent c) \<or>
         \<not> prepared_body_valid c
      then outbound_fail None OUTBOUND_ERROR_CONTRACT au
      else case a0_build_frame ctl (ctl AND 0xfe) (body_used (pc_body c)) of
          Inl e \<Rightarrow> outbound_fail (Some e) OUTBOUND_ERROR_CONTRACT au
        | Inr logical \<Rightarrow>
            if length logical > FIXED64_LENGTH then outbound_fail None OUTBOUND_ERROR_LENGTH au
            else
              (Inr (logical @ replicate (FIXED64_LENGTH - length logical) 0),
               record_control ctl (au\<lparr>fr_frame_build := fr_frame_build au + 1\<rparr>)))"

section \<open>What the serializer accepts\<close>

lemma le16_lo_hi: "le16 (lo8 w) (hi8 w) = w"
  by (simp add: wire_simps)

lemma well_built_valid:
  assumes "well_built c"
  shows "prepared_body_valid c"
proof -
  obtain mat where b: "command_body_build (pc_intent c) mat None = (Accept, pc_body c, None)"
    and len: "\<And>m. mat = Some m \<Longrightarrow> length (mt_fdt_table m) = 12"
    using assms by (auto simp: well_built_def)
  note acc = build_accept [OF b]
  show ?thesis
  proof (cases "in_body_class (pc_intent c) = BODY_SIMPLE_01_00")
    case True
    with acc b show ?thesis by (simp add: prepared_body_valid_def)
  next
    case False
    with acc(4) obtain m where m: "mat = Some m" "pc_body c = fdt_body (in_body_class (pc_intent c)) m"
      "mt_stage_index m = in_stage_index (pc_intent c)" by auto
    note l = len [OF m(1)]
    have "fdt_body (in_body_class (pc_intent c)) (rebuilt_material c) = pc_body c"
      using l by (simp add: m(2) rebuilt_material_def fdt_body_def Let_def nth_append le16_lo_hi)
    moreover have "material_valid (pc_intent c) (Some (rebuilt_material c))
        (body_role (in_body_class (pc_intent c))) (in_body_class (pc_intent c) = BODY_FDT_TIMESTAMP_0801)"
      using False by (cases "in_body_class (pc_intent c)")
        (simp_all add: material_valid_def rebuilt_material_def body_role_def Let_def)
    moreover have "cb_length (pc_body c) = (if in_body_class (pc_intent c) = BODY_FDT_TIMESTAMP_0801 then 16 else 14)"
      by (simp add: m(2) body_shape)
    ultimately show ?thesis
      using False acc(1,2) by (simp add: prepared_body_valid_def command_body_build_def Let_def)
  qed
qed

lemma valid_body_used:
  assumes "prepared_body_valid c"
  obtains material rebuilt where "command_body_build (pc_intent c) material None = (Accept, rebuilt, None)"
    "body_used (pc_body c) = body_used rebuilt" "cb_length (pc_body c) = cb_length rebuilt"
proof -
  define material where "material = (if in_body_class (pc_intent c) \<noteq> BODY_SIMPLE_01_00
    then Some (rebuilt_material c) else None)"
  obtain r b x where b: "command_body_build (pc_intent c) material None = (r, b, x)"
    by (metis prod_cases3)
  have "accepted r" "cb_length b = cb_length (pc_body c)" "body_used (pc_body c) = body_used b"
    using assms b by (auto simp: prepared_body_valid_def body_used_def Let_def material_def [symmetric]
        split: if_split_asm)
  moreover have "x = None"
    using b by (auto simp: command_body_build_def body_fail_def split: if_split_asm)
  ultimately show thesis
    using that [of material b] b by (simp add: accepted_iff)
qed

lemma allowlisted_even: "allowlisted_control c \<Longrightarrow> c AND 0xfe = c"
  by (auto simp: allowlisted_control_def)

lemma contract_allowlisted: "intent_contract_valid i \<Longrightarrow> allowlisted_control (in_control i)"
  by (cases "in_event i") (auto simp: intent_contract_valid_def allowlisted_control_def)

lemma built_length:
  assumes "command_body_build i material None = (Accept, b, x)"
  shows "cb_length b \<le> 16"
  using build_accept(3,4) [OF assms]
  by (cases "in_body_class i = BODY_SIMPLE_01_00") (auto simp: body_shape simple_body_def)

lemma frame_build_accept:
  assumes "outbound_frame_build c au = (Inr f, au')"
  obtains logical where
    "a0_build_frame (in_control (pc_intent c)) (in_control (pc_intent c)) (body_used (pc_body c)) = Inr logical"
    "length logical \<le> 64" "f = logical @ replicate (64 - length logical) 0"
    "prepared_body_valid c" "allowlisted_control (in_control (pc_intent c))"
  using assms
  by (auto simp: outbound_frame_build_def outbound_fail_def Let_def allowlisted_even
      split: if_split_asm sum.splits)

lemma well_built_serializes:
  assumes "well_built c"
  obtains f where "fst (outbound_frame_build c au) = Inr f"
    "fr_frame_build (snd (outbound_frame_build c au)) = fr_frame_build au + 1"
proof -
  obtain material where b: "command_body_build (pc_intent c) material None = (Accept, pc_body c, None)"
    using assms by (auto simp: well_built_def)
  have contract: "allowlisted_control (in_control (pc_intent c))" "\<not> in_wire_frame_serializable (pc_intent c)"
    using build_accept(1,2) [OF b] contract_allowlisted by auto
  have len: "length (body_used (pc_body c)) \<le> 16"
    using built_length [OF b] by (simp add: body_used_def)
  then obtain logical where l: "a0_build_frame (in_control (pc_intent c)) (in_control (pc_intent c))
      (body_used (pc_body c)) = Inr logical"
    using a0_build_Inr [of "body_used (pc_body c)"] by fastforce
  have "length logical \<le> 64"
    using a0_build_length [OF l] len by simp
  then have eq: "outbound_frame_build c au = (Inr (logical @ replicate (64 - length logical) 0),
      record_control (in_control (pc_intent c)) (au\<lparr>fr_frame_build := fr_frame_build au + 1\<rparr>))"
    using contract l well_built_valid [OF assms]
    by (simp add: outbound_frame_build_def Let_def allowlisted_even)
  show thesis
    by (rule that) (simp_all add: eq record_control_def)
qed

section \<open>Properties\<close>

text \<open>
  Claim C13. A serialized command is exactly one 64-byte transfer: an A0 frame that the
  parser reads back to the command's own control byte and body, followed by zeroes only; and
  it is only made for a body that the body builder itself would have built for the intent.
\<close>

theorem outbound_frame_exact:
  assumes "outbound_frame_build c au = (Inr f, au')"
  shows "length f = FIXED64_LENGTH \<and>
    a0_parse_frame (Some (take (length (body_used (pc_body c)) + 8) f)) (in_control (pc_intent c)) =
      Inr \<lparr>control = in_control (pc_intent c), body = body_used (pc_body c)\<rparr> \<and>
    list_all (\<lambda>b. b = 0) (drop (length (body_used (pc_body c)) + 8) f) \<and>
    (\<exists>material rebuilt. command_body_build (pc_intent c) material None = (Accept, rebuilt, None) \<and>
       body_used (pc_body c) = body_used rebuilt)"
proof -
  obtain logical where l: "a0_build_frame (in_control (pc_intent c)) (in_control (pc_intent c))
      (body_used (pc_body c)) = Inr logical" "length logical \<le> 64"
    "f = logical @ replicate (64 - length logical) 0" "prepared_body_valid c"
    using assms by (rule frame_build_accept)
  have parts: "take (length (body_used (pc_body c)) + 8) f = logical"
    "drop (length (body_used (pc_body c)) + 8) f = replicate (64 - length logical) 0"
    "length f = 64"
    using a0_build_length [OF l(1)] l(2) by (simp_all add: l(3))
  obtain material rebuilt where "command_body_build (pc_intent c) material None = (Accept, rebuilt, None)"
    "body_used (pc_body c) = body_used rebuilt"
    by (rule valid_body_used [OF l(4)])
  then show ?thesis
    unfolding parts a0_parse_build [OF l(1)] by (auto simp: list_all_length)
qed

text \<open>
  Claim C14. Nothing that the session prepares is lost at the serializer: every command
  prepared in a reachable state, whatever the device configuration, becomes a frame.
\<close>

theorem prepared_commands_serialize:
  assumes "lifecycle_adapter_new config u = Inr start"
    and "reach (adapter_machine image_ready timestamp_ready) start a"
    and "lifecycle_adapter_prepare timestamp_ready a = (Accept, a', c) \<or>
      lifecycle_adapter_prepare_irq80_rearm timestamp_ready raw a prior = (Accept, a', c)"
  shows "\<exists>f. fst (outbound_frame_build c au) = Inr f \<and>
    fr_frame_build (snd (outbound_frame_build c au)) = fr_frame_build au + 1"
proof -
  have "well_built c"
    using adapter_reach_inv [OF assms(1,2)] assms(3) prepare_keeps(2) irq80_keeps(2) by blast
  from well_built_serializes [OF this, of au] show ?thesis by blast
qed

definition frame_22 :: "prepared_command" where
  "frame_22 = \<lparr>pc_intent = \<lparr>in_event = COMMAND_22, in_purpose = PURPOSE_PRIMARY_ACQUIRE,
     in_body_class = BODY_SIMPLE_01_00, in_stage_index = 1, in_control = 0x22,
     in_wire_frame_serializable = False\<rparr>, pc_body = simple_body\<rparr>"

lemma outbound_frame_exact_witness:
  "\<exists>f au'. outbound_frame_build frame_22 frame_audit_zero = (Inr f, au') \<and> length f = 64"
proof -
  have "well_built frame_22"
    unfolding well_built_def frame_22_def
    by (intro exI [of _ None]) (simp add: command_body_build_def intent_contract_valid_def)
  then obtain f where "fst (outbound_frame_build frame_22 frame_audit_zero) = Inr f"
    by (rule well_built_serializes)
  then show ?thesis
    using outbound_frame_exact [of frame_22 frame_audit_zero] by (metis prod.collapse)
qed

lemma prepared_commands_serialize_witness:
  "\<exists>a' c f. lifecycle_adapter_prepare steady_clock touched = (Accept, a', c) \<and>
     fst (outbound_frame_build c frame_audit_zero) = Inr f"
proof -
  have r: "reach (adapter_machine plain_consumer steady_clock) started touched"
    unfolding touched_def by (intro reach_step reach_start)
  have "fst (lifecycle_adapter_prepare steady_clock touched) = Accept"
    by code_simp
  then obtain a' c where p: "lifecycle_adapter_prepare steady_clock touched = (Accept, a', c)"
    by (metis prod_cases3 fst_conv)
  then show ?thesis
    using prepared_commands_serialize [OF started_new r, of a' c None prepared_command_clear frame_audit_zero]
    by blast
qed

end
