(* ===== verification/Post_Tls_Events.thy ===== *)
theory Post_Tls_Events
  imports Lifecycle_Adapter A0_Protocol Image_Decoder
begin

text \<open>
  The inbound binding from decrypted post-TLS traffic to the enrollment session
  (\<^verbatim>\<open>goodix_enrollment_post_tls_events.c\<close>): which A0 frame is an event of which kind, the
  reassembly of B0 plaintext, the IRQ0080 rearm exception and the zero-mask recovery window.
  Log messages and the wording of diagnostics are not state. The callbacks share the user
  data that the pipeline carries; the contact callback is a null pointer until it is set.
\<close>

record 'u handlers =
  h_image :: "'u image_func"
  h_timestamp :: "'u timestamp_func"
  h_auxiliary :: "bytes \<Rightarrow> 'u \<Rightarrow> callback_reply \<times> 'u"
  h_contact :: "u32 \<Rightarrow> bool \<Rightarrow> 'u \<Rightarrow> callback_reply \<times> 'u"

record zero_audit =
  za_recovered :: u32
  za_late_release :: u32
  za_rearm32 :: u32
  za_stale_window_open :: bool
  za_late_seen :: bool
  za_awaiting_sample_request :: bool

record events_audit =
  ea_parsed_a0 :: u32
  ea_ack :: u32
  ea_irq2 :: u32
  ea_irq0100 :: u32
  ea_irq0200 :: u32
  ea_finger_down :: u32
  ea_finger_up :: u32
  ea_nav :: u32
  ea_primary_b0 :: u32
  ea_auxiliary_b0 :: u32
  ea_plaintext_chunk :: u32
  ea_completed_b0 :: u32
  ea_primary_decode :: u32
  ea_auxiliary_delivery :: u32
  ea_rejected_inbound :: u32
  ea_mismatch_expected :: enrollment_event
  ea_mismatch_control :: u8
  ea_mismatch_classified :: bool
  ea_mismatch_irq :: u16
  ea_mismatch_flags :: u16
  ea_retry :: u32
  ea_a0_frame_build :: u32
  ea_submit :: u32
  ea_failed :: bool

record 'u post_tls =
  pe_lifecycle :: "'u adapter"
  pe_audit :: events_audit
  pe_contact_set :: bool
  pe_pending :: bytes
  pe_failed :: bool
  pe_zero_eligible :: bool
  pe_zero_enabled :: bool
  pe_zero :: zero_audit
  pe_irq80_count :: u32
  pe_irq80_event :: enrollment_event
  pe_irq80_rearm :: prepared_command

abbreviation B0_MAX_PLAINTEXT_LENGTH :: nat where "B0_MAX_PLAINTEXT_LENGTH \<equiv> 8192"
abbreviation IRQ80_PER_WAIT_LIMIT :: u32 where "IRQ80_PER_WAIT_LIMIT \<equiv> 2"

definition events_audit_zero :: events_audit where
  "events_audit_zero = \<lparr>ea_parsed_a0 = 0, ea_ack = 0, ea_irq2 = 0, ea_irq0100 = 0, ea_irq0200 = 0,
     ea_finger_down = 0, ea_finger_up = 0, ea_nav = 0, ea_primary_b0 = 0, ea_auxiliary_b0 = 0,
     ea_plaintext_chunk = 0, ea_completed_b0 = 0, ea_primary_decode = 0, ea_auxiliary_delivery = 0,
     ea_rejected_inbound = 0, ea_mismatch_expected = EVENT_NONE, ea_mismatch_control = 0,
     ea_mismatch_classified = False, ea_mismatch_irq = 0, ea_mismatch_flags = 0,
     ea_retry = 0, ea_a0_frame_build = 0, ea_submit = 0, ea_failed = False\<rparr>"

definition zero_audit_zero :: zero_audit where
  "zero_audit_zero = \<lparr>za_recovered = 0, za_late_release = 0, za_rearm32 = 0,
     za_stale_window_open = False, za_late_seen = False, za_awaiting_sample_request = False\<rparr>"

definition close_zero :: "zero_audit \<Rightarrow> zero_audit" where
  "close_zero z = z\<lparr>za_stale_window_open := False, za_awaiting_sample_request := False,
     za_late_seen := False\<rparr>"

definition events_close_zero_window :: "'u post_tls \<Rightarrow> 'u post_tls" where
  "events_close_zero_window e = e\<lparr>pe_zero := close_zero (pe_zero e)\<rparr>"

definition error_is_unusable_contact :: "gerror option \<Rightarrow> bool" where
  "error_is_unusable_contact error \<longleftrightarrow> error = Some (Events_Error EVENTS_ERROR_UNUSABLE_CONTACT)"

text \<open>The first failure freezes the component; a later one only reports.\<close>

definition events_failed :: "events_error \<Rightarrow> 'u post_tls \<Rightarrow> 'u post_tls" where
  "events_failed code e =
     (if pe_failed e then e
      else
        let e1 = events_close_zero_window
              (e\<lparr>pe_failed := True, pe_irq80_event := EVENT_NONE, pe_irq80_rearm := prepared_command_clear\<rparr>);
            a = (pe_audit e1)\<lparr>ea_failed := True\<rparr>
        in e1\<lparr>pe_audit := (if code \<noteq> EVENTS_ERROR_UNUSABLE_CONTACT
                 then a\<lparr>ea_rejected_inbound := ea_rejected_inbound a + 1\<rparr> else a),
              pe_pending := []\<rparr>)"

definition events_fail ::
    "gerror option \<Rightarrow> events_error \<Rightarrow> 'u post_tls \<Rightarrow> gerror reply \<times> 'u post_tls" where
  "events_fail prior code e = (Reject (keep_first prior (Events_Error code)), events_failed code e)"

definition post_tls_events_new :: "model_config \<Rightarrow> 'u \<Rightarrow> gerror + 'u post_tls" where
  "post_tls_events_new config u =
     (case lifecycle_adapter_new config u of
        Inl x \<Rightarrow> Inl x
      | Inr lifecycle \<Rightarrow> Inr
          \<lparr>pe_lifecycle = lifecycle, pe_audit = events_audit_zero, pe_contact_set = False,
           pe_pending = [], pe_failed = False,
           pe_zero_eligible = (cfg_defer_intermediate_until_release_ready config \<and>
             (cfg_defer_terminal_stage_delivery config \<or> cfg_defer_terminal_until_release_ready config)),
           pe_zero_enabled = False, pe_zero = zero_audit_zero, pe_irq80_count = 0,
           pe_irq80_event = EVENT_NONE, pe_irq80_rearm = prepared_command_clear\<rparr>)"

definition events_set_contact_callback :: "'u post_tls \<Rightarrow> gerror reply \<times> 'u post_tls" where
  "events_set_contact_callback e =
     (if pe_contact_set e \<or> ea_parsed_a0 (pe_audit e) \<noteq> 0 \<or> pe_pending e \<noteq> [] \<or> pe_failed e
      then events_fail None EVENTS_ERROR_STATE e
      else (Accept, e\<lparr>pe_contact_set := True\<rparr>))"

text \<open>\<^verbatim>\<open>g_return_if_fail\<close>: the call has no effect when its precondition does not hold.\<close>

definition events_enable_zero_recovery :: "'u post_tls \<Rightarrow> 'u post_tls" where
  "events_enable_zero_recovery e =
     (if pe_failed e \<or> ea_parsed_a0 (pe_audit e) \<noteq> 0 then e
      else e\<lparr>pe_zero_enabled := pe_zero_eligible e\<rparr>)"

definition events_get_expected_event :: "'u post_tls \<Rightarrow> enrollment_event" where
  "events_get_expected_event e =
     (if pe_failed e then EVENT_NONE
      else if pe_irq80_event e \<noteq> EVENT_NONE then pe_irq80_event e
      else lifecycle_adapter_get_expected_event (pe_lifecycle e))"

definition events_is_complete :: "'u post_tls \<Rightarrow> bool" where
  "events_is_complete e \<longleftrightarrow> \<not> pe_failed e \<and> lifecycle_adapter_is_complete (pe_lifecycle e)"

definition events_is_failed :: "'u post_tls \<Rightarrow> bool" where
  "events_is_failed e \<longleftrightarrow> pe_failed e \<or> lifecycle_adapter_is_failed (pe_lifecycle e)"

definition events_request_zero_sample :: "'u post_tls \<Rightarrow> gerror reply \<times> 'u post_tls" where
  "events_request_zero_sample e =
     (if pe_failed e \<or> \<not> za_awaiting_sample_request (pe_zero e) \<or>
         events_get_expected_event e \<noteq> COMMAND_32
      then events_fail None EVENTS_ERROR_STATE e
      else (Accept, e\<lparr>pe_zero := (pe_zero e)\<lparr>za_awaiting_sample_request := False\<rparr>\<rparr>))"

section \<open>Recognising frames\<close>

fun expected_ack_echo :: "enrollment_event \<Rightarrow> u8 option" where
  "expected_ack_echo ACK_20 = Some 0x20"
| "expected_ack_echo ACK_22 = Some 0x22"
| "expected_ack_echo ACK_32 = Some 0x32"
| "expected_ack_echo ACK_34 = Some 0x34"
| "expected_ack_echo ACK_36 = Some 0x36"
| "expected_ack_echo ACK_50 = Some 0x50"
| "expected_ack_echo _ = None"

definition parse_nav_no_check :: "bytes \<Rightarrow> bool" where
  "parse_nav_no_check d \<longleftrightarrow>
     length d = 2417 \<and> d ! 0 = 0xa0 \<and> d ! 4 = 0x50 \<and>
     le16 (d ! 1) (d ! 2) = 2413 \<and> le16 (d ! 5) (d ! 6) = 2410 \<and>
     d ! 3 = d ! 0 + d ! 1 + d ! 2 \<and>
     d ! 7 = 0x50 \<and> d ! 8 = 0x01 \<and> d ! (length d - 1) = 0x88"

text \<open>The touch flags and the twelve raw bytes of an interrupt frame.\<close>

definition parse_irq ::
    "a0_message \<Rightarrow> u8 \<Rightarrow> u16 \<Rightarrow> fdt_flags_context \<Rightarrow> (u16 \<times> bytes) option" where
  "parse_irq msg ctl irq context =
     (let bs = body msg; flags = le16 (bs ! 2) (bs ! 3) in
      if control msg \<noteq> ctl \<or> length bs \<noteq> 16 then None
      else if le16 (bs ! 0) (bs ! 1) \<noteq> irq \<or> \<not> fdt_irq_flags_valid context flags then None
      else Some (flags, drop 4 bs))"

definition raw_in_bounds :: "bytes \<Rightarrow> bool" where
  "raw_in_bounds bs \<longleftrightarrow>
     list_all (\<lambda>i. let value = unat (le16 (bs ! (4 + 2 * i)) (bs ! (5 + 2 * i))) div 2
                   in 1 \<le> value \<and> value \<le> 254) [0..<6]"

definition is_unusable_zero_contact :: "a0_message \<Rightarrow> bool" where
  "is_unusable_zero_contact msg \<longleftrightarrow>
     (let bs = body msg in
      control msg = 0x36 \<and> length bs = 16 \<and> bs ! 0 = 0 \<and> bs ! 1 = 1 \<and> bs ! 2 = 0 \<and> bs ! 3 = 0 \<and>
      raw_in_bounds bs)"

definition is_irq80 :: "enrollment_event \<Rightarrow> a0_message \<Rightarrow> bool" where
  "is_irq80 expected msg \<longleftrightarrow>
     (let bs = body msg in
      expected = IRQ2 \<and> control msg = 0x32 \<and> length bs = 16 \<and> bs ! 0 = 0x80 \<and> bs ! 1 = 0 \<and>
      bs ! 2 AND NOT 0x3f = 0 \<and> bs ! 3 = 0)"

text \<open>
  A late release inside the zero-mask window. The boolean is \<^verbatim>\<open>*handled\<close>.
\<close>

definition is_late_release :: "bytes \<Rightarrow> bool" where
  "is_late_release bs \<longleftrightarrow>
     length bs = 16 \<and> bs ! 0 = 0 \<and> bs ! 1 = 2 \<and> bs ! 2 = 0 \<and> bs ! 3 = 0 \<and> raw_in_bounds bs"

definition events_consume_stale_release ::
    "bytes option \<Rightarrow> 'u post_tls \<Rightarrow> gerror reply \<times> bool \<times> 'u post_tls" where
  "events_consume_stale_release frame e =
     (case frame of
        None \<Rightarrow> (Accept, False, e)
      | Some wire \<Rightarrow>
          if pe_failed e \<or> \<not> za_stale_window_open (pe_zero e) \<or> length wire < 5 \<or> wire ! 4 \<noteq> 0x34
          then (Accept, False, e)
          else case a0_parse_frame frame 0x34 of
              Inl x \<Rightarrow> let (r, e') = events_fail (Some x) EVENTS_ERROR_FRAME e in (r, True, e')
            | Inr msg \<Rightarrow>
                if \<not> is_late_release (body msg) \<or> za_late_seen (pe_zero e)
                then let (r, e') = events_fail None EVENTS_ERROR_EVENT e in (r, True, e')
                else (Accept, True,
                      e\<lparr>pe_zero := (pe_zero e)\<lparr>za_late_seen := True,
                          za_late_release := za_late_release (pe_zero e) + 1\<rparr>,
                        pe_audit := (pe_audit e)\<lparr>ea_parsed_a0 := ea_parsed_a0 (pe_audit e) + 1\<rparr>\<rparr>))"

definition record_a0_mismatch :: "enrollment_event \<Rightarrow> a0_message \<Rightarrow> 'u post_tls \<Rightarrow> 'u post_tls" where
  "record_a0_mismatch expected msg e =
     (let bs = body msg;
          classified = (length bs = 16 \<and> (control msg = 0x32 \<or> control msg = 0x34 \<or> control msg = 0x36))
      in e\<lparr>pe_audit := (pe_audit e)\<lparr>ea_mismatch_expected := expected,
           ea_mismatch_control := control msg, ea_mismatch_classified := classified,
           ea_mismatch_irq := (if classified then le16 (bs ! 0) (bs ! 1) else 0),
           ea_mismatch_flags := (if classified then le16 (bs ! 2) (bs ! 3) else 0)\<rparr>\<rparr>)"

section \<open>Inbound A0 frames\<close>

text \<open>
  Each branch of \<^verbatim>\<open>handle_a0\<close> gives \<open>accepted\<close> (with the error set, if any), whether the
  frame matched the expected event, and the state at the label \<^verbatim>\<open>out\<close>.
\<close>

type_synonym 'u branch = "callback_reply \<times> bool \<times> 'u post_tls"

definition observe_event ::
    "allocator \<Rightarrow> 'u handlers \<Rightarrow> enrollment_event \<Rightarrow> u16 list option \<Rightarrow> bytes option \<Rightarrow> u16
       \<Rightarrow> 'u post_tls \<Rightarrow> callback_reply \<times> 'u post_tls" where
  "observe_event env h event samples raw flags e =
     (case lifecycle_adapter_observe env (h_image h) event samples raw flags (pe_lifecycle e) of
        (Accept, a) \<Rightarrow> (Callback_True, e\<lparr>pe_lifecycle := a\<rparr>)
      | (Reject x, a) \<Rightarrow> (Callback_False (Some x), e\<lparr>pe_lifecycle := a\<rparr>))"

definition call_contact ::
    "'u handlers \<Rightarrow> u32 \<Rightarrow> bool \<Rightarrow> 'u post_tls \<Rightarrow> callback_reply \<times> 'u post_tls" where
  "call_contact h index present e =
     (if pe_contact_set e then
        let (r, u) = h_contact h index present (adapter_user (pe_lifecycle e));
            e1 = e\<lparr>pe_lifecycle := set_user u (pe_lifecycle e)\<rparr>;
            a = pe_audit e1
        in (case r of
              Callback_False x \<Rightarrow> (r, e1)
            | Callback_True \<Rightarrow>
                (r, e1\<lparr>pe_audit := (if present then a\<lparr>ea_finger_down := ea_finger_down a + 1\<rparr>
                         else a\<lparr>ea_finger_up := ea_finger_up a + 1\<rparr>)\<rparr>))
      else (Callback_True, e))"

definition a0_nav :: "allocator \<Rightarrow> 'u handlers \<Rightarrow> 'u post_tls \<Rightarrow> 'u branch" where
  "a0_nav env h e =
     (case observe_event env h NAV None None 0 e of
        (Callback_False x, e1) \<Rightarrow> (Callback_False x, True, e1)
      | (Callback_True, e1) \<Rightarrow> (Callback_True, True,
           e1\<lparr>pe_audit := (pe_audit e1)\<lparr>ea_parsed_a0 := ea_parsed_a0 (pe_audit e1) + 1,
                ea_nav := ea_nav (pe_audit e1) + 1\<rparr>\<rparr>))"

definition a0_ack ::
    "allocator \<Rightarrow> 'u handlers \<Rightarrow> enrollment_event \<Rightarrow> u8 \<Rightarrow> a0_message \<Rightarrow> 'u post_tls \<Rightarrow> 'u branch" where
  "a0_ack env h expected echo msg e =
     (if control msg \<noteq> 0xb0 \<or> length (body msg) \<noteq> 2 \<or> body msg ! 0 \<noteq> echo \<or> body msg ! 1 \<noteq> 1
      then (Callback_False None, False, e)
      else
        let (r, e1) =
              (if pe_irq80_event e = ACK_32
               then (Callback_True, e\<lparr>pe_irq80_event := EVENT_NONE, pe_irq80_rearm := prepared_command_clear\<rparr>)
               else observe_event env h expected None None 0 e)
        in (case r of
              Callback_False x \<Rightarrow> (r, True, e1)
            | Callback_True \<Rightarrow>
                (r, True, e1\<lparr>pe_audit := (pe_audit e1)\<lparr>ea_ack := ea_ack (pe_audit e1) + 1\<rparr>\<rparr>)))"

definition a0_irq2 ::
    "allocator \<Rightarrow> 'u handlers \<Rightarrow> u16 \<Rightarrow> bytes \<Rightarrow> 'u post_tls \<Rightarrow> 'u branch" where
  "a0_irq2 env h flags raw e =
     (case observe_event env h IRQ2 None (Some raw) flags e of
        (Callback_False x, e1) \<Rightarrow> (Callback_False x, True, e1)
      | (Callback_True, e1) \<Rightarrow>
          let e2 = e1\<lparr>pe_zero := (pe_zero e1)\<lparr>za_stale_window_open := False, za_late_seen := False\<rparr>,
                     pe_audit := (pe_audit e1)\<lparr>ea_irq2 := ea_irq2 (pe_audit e1) + 1\<rparr>\<rparr>
          in case call_contact h (ea_irq2 (pe_audit e2)) True e2 of
               (Callback_False x, e3) \<Rightarrow> (Callback_False x, True, e3)
             | (Callback_True, e3) \<Rightarrow> (Callback_True, True, e3\<lparr>pe_irq80_count := 0\<rparr>))"

definition a0_irq0100 :: "allocator \<Rightarrow> 'u handlers \<Rightarrow> 'u post_tls \<Rightarrow> 'u branch" where
  "a0_irq0100 env h e =
     (case observe_event env h IRQ0100 None None 0 e of
        (Callback_False x, e1) \<Rightarrow> (Callback_False x, True, e1)
      | (Callback_True, e1) \<Rightarrow> (Callback_True, True,
           e1\<lparr>pe_audit := (pe_audit e1)\<lparr>ea_irq0100 := ea_irq0100 (pe_audit e1) + 1\<rparr>\<rparr>))"

definition a0_irq0200 ::
    "allocator \<Rightarrow> 'u handlers \<Rightarrow> u16 \<Rightarrow> bytes \<Rightarrow> 'u post_tls \<Rightarrow> 'u branch" where
  "a0_irq0200 env h flags raw e =
     (case observe_event env h IRQ0200 None (Some raw) flags e of
        (Callback_False x, e1) \<Rightarrow> (Callback_False x, True, e1)
      | (Callback_True, e1) \<Rightarrow>
          let e2 = e1\<lparr>pe_audit := (pe_audit e1)\<lparr>ea_irq0200 := ea_irq0200 (pe_audit e1) + 1\<rparr>\<rparr>
          in case call_contact h (ea_irq0200 (pe_audit e2)) False e2 of (r, e3) \<Rightarrow> (r, True, e3))"

definition protocol_audit :: "'u post_tls \<Rightarrow> model_audit" where
  "protocol_audit e = m_audit (plan_model (la_plan (pe_lifecycle e)))"

definition zero_recovery_possible :: "'u post_tls \<Rightarrow> bool" where
  "zero_recovery_possible e \<longleftrightarrow>
     (let p = protocol_audit e in
      pe_zero_enabled e \<and> \<not> za_stale_window_open (pe_zero e) \<and> ma_observed_primary p \<ge> 2 \<and>
      ma_observed_primary p = ma_completed p + ma_retry_stage p + 1)"

definition a0_zero_contact ::
    "allocator \<Rightarrow> 'u handlers \<Rightarrow> bytes \<Rightarrow> 'u post_tls \<Rightarrow> 'u branch" where
  "a0_zero_contact env h raw e =
     (case observe_event env h ZERO_MASK_RECOVERY None (Some raw) 0 e of
        (Callback_False x, e1) \<Rightarrow> (Callback_False x, True, e1)
      | (Callback_True, e1) \<Rightarrow>
          let open_window = \<not> lifecycle_adapter_is_complete (pe_lifecycle e1);
              e2 = e1\<lparr>pe_audit := (pe_audit e1)\<lparr>ea_irq0100 := ea_irq0100 (pe_audit e1) + 1\<rparr>,
                     pe_zero := (pe_zero e1)\<lparr>za_recovered := za_recovered (pe_zero e1) + 1,
                       za_stale_window_open := open_window,
                       za_awaiting_sample_request := open_window, za_late_seen := False\<rparr>\<rparr>
          in case call_contact h (ma_observed_primary (protocol_audit e2)) False e2 of
               (r, e3) \<Rightarrow> (r, True, e3))"

text \<open>The exception for IRQ0080: returns from \<^verbatim>\<open>handle_a0\<close> directly.\<close>

definition a0_irq80 ::
    "'u handlers \<Rightarrow> a0_message \<Rightarrow> 'u post_tls \<Rightarrow> gerror reply \<times> 'u post_tls" where
  "a0_irq80 h msg e =
     (if pe_irq80_count e \<ge> IRQ80_PER_WAIT_LIMIT then events_fail None EVENTS_ERROR_EVENT e
      else case lifecycle_adapter_prepare_irq80_rearm (h_timestamp h) (Some (drop 4 (body msg)))
                  (pe_lifecycle e) prepared_command_clear of
          (Reject x, a, _) \<Rightarrow> events_fail (Some x) EVENTS_ERROR_EVENT (e\<lparr>pe_lifecycle := a\<rparr>)
        | (Accept, a, rearm) \<Rightarrow>
            (Accept, e\<lparr>pe_lifecycle := a, pe_irq80_rearm := rearm, pe_irq80_event := COMMAND_32,
               pe_irq80_count := pe_irq80_count e + 1\<rparr>))"

definition a0_out :: "enrollment_event \<Rightarrow> a0_message \<Rightarrow> 'u branch \<Rightarrow> gerror reply \<times> 'u post_tls" where
  "a0_out expected msg br =
     (case br of
        (Callback_True, _, e) \<Rightarrow> (Accept, e)
      | (Callback_False x, matched, e) \<Rightarrow>
          events_fail x EVENTS_ERROR_EVENT (if matched then e else record_a0_mismatch expected msg e))"

definition a0_dispatch ::
    "allocator \<Rightarrow> 'u handlers \<Rightarrow> enrollment_event \<Rightarrow> a0_message \<Rightarrow> 'u post_tls
       \<Rightarrow> gerror reply \<times> 'u post_tls" where
  "a0_dispatch env h expected msg e =
     (if is_irq80 expected msg then a0_irq80 h msg e
      else case expected_ack_echo expected of
          Some echo \<Rightarrow> a0_out expected msg (a0_ack env h expected echo msg e)
        | None \<Rightarrow>
            if expected = IRQ2 \<and> parse_irq msg 0x32 0x0002 FINGER_DOWN \<noteq> None then
              (case the (parse_irq msg 0x32 0x0002 FINGER_DOWN) of
                 (flags, raw) \<Rightarrow> a0_out expected msg (a0_irq2 env h flags raw e))
            else if expected = IRQ0100 \<and> is_unusable_zero_contact msg then
              (if zero_recovery_possible e
               then a0_out expected msg (a0_zero_contact env h (drop 4 (body msg)) e)
               else events_fail None EVENTS_ERROR_UNUSABLE_CONTACT e)
            else if expected = IRQ0100 \<and> parse_irq msg 0x36 0x0100 CONTACT_SAMPLE \<noteq> None
            then a0_out expected msg (a0_irq0100 env h e)
            else if expected = IRQ0200 \<and> parse_irq msg 0x34 0x0200 FINGER_UP \<noteq> None then
              (case the (parse_irq msg 0x34 0x0200 FINGER_UP) of
                 (flags, raw) \<Rightarrow> a0_out expected msg (a0_irq0200 env h flags raw e))
            else a0_out expected msg (Callback_False None, False, e))"

definition events_handle_a0 ::
    "allocator \<Rightarrow> 'u handlers \<Rightarrow> bytes option \<Rightarrow> 'u post_tls \<Rightarrow> gerror reply \<times> 'u post_tls" where
  "events_handle_a0 env h frame e =
     (case frame of
        None \<Rightarrow> events_fail None EVENTS_ERROR_ARGUMENT e
      | Some d \<Rightarrow>
          if pe_failed e \<or> pe_pending e \<noteq> [] then events_fail None EVENTS_ERROR_STATE e
          else
            let expected = events_get_expected_event e in
            if expected = NAV then
              (if \<not> parse_nav_no_check d then events_fail None EVENTS_ERROR_FRAME e
               else a0_out expected \<lparr>control = 0, body = []\<rparr> (a0_nav env h e))
            else if length d < 5 then events_fail None EVENTS_ERROR_FRAME e
            else case a0_parse_frame frame (d ! 4) of
                Inl x \<Rightarrow> events_fail (Some x) EVENTS_ERROR_FRAME e
              | Inr msg \<Rightarrow>
                  a0_dispatch env h expected msg
                    (e\<lparr>pe_audit := (pe_audit e)\<lparr>ea_parsed_a0 := ea_parsed_a0 (pe_audit e) + 1\<rparr>\<rparr>))"

section \<open>B0 plaintext\<close>

definition events_handle_primary_samples ::
    "allocator \<Rightarrow> 'u handlers \<Rightarrow> u16 list option \<Rightarrow> 'u post_tls \<Rightarrow> gerror reply \<times> 'u post_tls" where
  "events_handle_primary_samples env h samples e =
     (if pe_failed e \<or> pe_pending e \<noteq> [] then events_fail None EVENTS_ERROR_STATE e
      else case observe_event env h PRIMARY_B0 samples None 0 e of
          (Callback_False x, e1) \<Rightarrow> events_fail x EVENTS_ERROR_EVENT e1
        | (Callback_True, e1) \<Rightarrow>
            (Accept, e1\<lparr>pe_audit := (pe_audit e1)\<lparr>ea_primary_b0 := ea_primary_b0 (pe_audit e1) + 1\<rparr>\<rparr>))"

definition events_handle_auxiliary_b0 ::
    "allocator \<Rightarrow> 'u handlers \<Rightarrow> 'u post_tls \<Rightarrow> gerror reply \<times> 'u post_tls" where
  "events_handle_auxiliary_b0 env h e =
     (if pe_failed e \<or> pe_pending e \<noteq> [] then events_fail None EVENTS_ERROR_STATE e
      else case observe_event env h AUXILIARY_B0 None None 0 e of
          (Callback_False x, e1) \<Rightarrow> events_fail x EVENTS_ERROR_EVENT e1
        | (Callback_True, e1) \<Rightarrow>
            (Accept, e1\<lparr>pe_audit := (pe_audit e1)\<lparr>ea_auxiliary_b0 := ea_auxiliary_b0 (pe_audit e1) + 1\<rparr>\<rparr>))"

text \<open>A complete primary message: decode, release the buffer, deliver the samples.\<close>

definition complete_primary ::
    "u16 list \<Rightarrow> allocator \<Rightarrow> 'u handlers \<Rightarrow> 'u post_tls \<Rightarrow> gerror reply \<times> 'u post_tls" where
  "complete_primary stack env h e =
     (case image_decode_plaintext stack (Some (pe_pending e)) (Some stack) (Some audit_cleared) of
        (Reject x, _, _) \<Rightarrow> events_fail (Some x) EVENTS_ERROR_FRAME (e\<lparr>pe_pending := []\<rparr>)
      | (Accept, samples, _) \<Rightarrow>
          case events_handle_primary_samples env h samples
                 (e\<lparr>pe_pending := [], pe_audit := (pe_audit e)\<lparr>ea_primary_decode :=
                    ea_primary_decode (pe_audit e) + 1\<rparr>\<rparr>) of
            (Reject x, e1) \<Rightarrow> events_fail (Some x) EVENTS_ERROR_EVENT (e1\<lparr>pe_pending := []\<rparr>)
          | (Accept, e1) \<Rightarrow> (Accept, e1\<lparr>pe_pending := []\<rparr>))"

definition complete_auxiliary ::
    "allocator \<Rightarrow> 'u handlers \<Rightarrow> 'u post_tls \<Rightarrow> gerror reply \<times> 'u post_tls" where
  "complete_auxiliary env h e =
     (let (r, u) = h_auxiliary h (pe_pending e) (adapter_user (pe_lifecycle e));
          e1 = e\<lparr>pe_lifecycle := set_user u (pe_lifecycle e), pe_pending := []\<rparr>
      in case r of
          Callback_False x \<Rightarrow> events_fail x EVENTS_ERROR_EVENT e1
        | Callback_True \<Rightarrow>
            case events_handle_auxiliary_b0 env h
                   (e1\<lparr>pe_audit := (pe_audit e1)\<lparr>ea_auxiliary_delivery :=
                      ea_auxiliary_delivery (pe_audit e1) + 1\<rparr>\<rparr>) of
              (Reject x, e2) \<Rightarrow> events_fail (Some x) EVENTS_ERROR_EVENT e2
            | (Accept, e2) \<Rightarrow> (Accept, e2))"

definition events_handle_plaintext_chunk ::
    "u16 list \<Rightarrow> allocator \<Rightarrow> 'u handlers \<Rightarrow> bytes option \<Rightarrow> 'u post_tls
       \<Rightarrow> gerror reply \<times> 'u post_tls" where
  "events_handle_plaintext_chunk stack env h chunk e =
     (case chunk of
        None \<Rightarrow> events_fail None EVENTS_ERROR_ARGUMENT e
      | Some bs \<Rightarrow>
          if pe_failed e then events_fail None EVENTS_ERROR_STATE e
          else
            let expected = events_get_expected_event e in
            if expected \<noteq> PRIMARY_B0 \<and> expected \<noteq> AUXILIARY_B0
            then events_fail None EVENTS_ERROR_STATE e
            else if length bs = 0 \<or> length bs > B0_MAX_PLAINTEXT_LENGTH \<or>
                    length (pe_pending e) > B0_MAX_PLAINTEXT_LENGTH - length bs
            then events_fail None EVENTS_ERROR_FRAME e
            else
              let e1 = e\<lparr>pe_pending := pe_pending e @ bs,
                        pe_audit := (pe_audit e)\<lparr>ea_plaintext_chunk := ea_plaintext_chunk (pe_audit e) + 1\<rparr>\<rparr>;
                  pending = pe_pending e1
              in if length pending < 3 then (Accept, e1)
                 else
                   let declared_length = le16 (pending ! 1) (pending ! 2);
                       expected_length = unat declared_length + 3
                   in if declared_length = 0 \<or> expected_length > B0_MAX_PLAINTEXT_LENGTH \<or>
                         (expected = PRIMARY_B0 \<and> expected_length \<noteq> PLAINTEXT_LENGTH) \<or>
                         length pending > expected_length
                      then events_fail None EVENTS_ERROR_FRAME e1
                      else if length pending < expected_length then (Accept, e1)
                      else
                        let e2 = e1\<lparr>pe_audit := (pe_audit e1)\<lparr>ea_completed_b0 :=
                                   ea_completed_b0 (pe_audit e1) + 1\<rparr>\<rparr>
                        in if expected = PRIMARY_B0 then complete_primary stack env h e2
                           else complete_auxiliary env h e2)"

section \<open>Commands\<close>

definition events_prepare ::
    "'u handlers \<Rightarrow> 'u post_tls \<Rightarrow> gerror reply \<times> 'u post_tls \<times> prepared_command option" where
  "events_prepare h e =
     (let fail = (\<lambda>prior code e'. let (r, e'') = events_fail prior code e' in (r, e'', None)) in
      if pe_failed e \<or> pe_pending e \<noteq> [] \<or> za_awaiting_sample_request (pe_zero e)
      then fail None EVENTS_ERROR_STATE e
      else if pe_irq80_event e = COMMAND_32 then (Accept, e, Some (pe_irq80_rearm e))
      else case lifecycle_adapter_prepare (h_timestamp h) (pe_lifecycle e) of
          (Reject x, a, _) \<Rightarrow> fail (Some x) EVENTS_ERROR_EVENT (e\<lparr>pe_lifecycle := a\<rparr>)
        | (Accept, a, prepared) \<Rightarrow> (Accept, e\<lparr>pe_lifecycle := a\<rparr>, Some prepared))"

definition events_commit ::
    "allocator \<Rightarrow> 'u handlers \<Rightarrow> enrollment_event \<Rightarrow> 'u post_tls \<Rightarrow> gerror reply \<times> 'u post_tls" where
  "events_commit env h command_event e =
     (if pe_failed e \<or> pe_pending e \<noteq> [] then events_fail None EVENTS_ERROR_STATE e
      else if pe_irq80_event e \<noteq> EVENT_NONE then
        (if pe_irq80_event e \<noteq> COMMAND_32 \<or> command_event \<noteq> COMMAND_32
         then events_fail None EVENTS_ERROR_STATE e
         else (Accept, e\<lparr>pe_irq80_event := ACK_32\<rparr>))
      else case lifecycle_adapter_commit env (h_image h) command_event (pe_lifecycle e) of
          (Reject x, a) \<Rightarrow> events_fail (Some x) EVENTS_ERROR_EVENT (e\<lparr>pe_lifecycle := a\<rparr>)
        | (Accept, a) \<Rightarrow>
            let e1 = e\<lparr>pe_lifecycle := a\<rparr>
            in (Accept,
                if command_event = COMMAND_32 \<and> za_stale_window_open (pe_zero e1)
                then e1\<lparr>pe_zero := (pe_zero e1)\<lparr>za_rearm32 := za_rearm32 (pe_zero e1) + 1\<rparr>\<rparr>
                else e1))"

section \<open>What the lifecycle does under the events\<close>

definition adapter_position :: "'u adapter \<Rightarrow> protocol" where
  "adapter_position a = plan_position (la_plan a)"

definition adapter_limit :: "'u adapter \<Rightarrow> nat" where
  "adapter_limit a = unat (cp_max_physical (la_plan a))"

lemma adapter_expected:
  "adapter_inv a \<Longrightarrow> \<not> la_failed a \<Longrightarrow>
     lifecycle_adapter_get_expected_event a = p_event (adapter_position a)"
  by (simp add: adapter_inv_def adapter_live_def lifecycle_adapter_get_expected_event_def
      command_plan_get_expected_event_def adapter_position_def plan_position_def)

lemma adapter_inv_set_user [simp]: "adapter_inv (set_user u a) = adapter_inv a"
  by (simp add: adapter_inv_def)

lemma set_user_position [simp]:
  "adapter_position (set_user u a) = adapter_position a"
  "adapter_limit (set_user u a) = adapter_limit a"
  "lifecycle_adapter_is_complete (set_user u a) = lifecycle_adapter_is_complete a"
  by (simp_all add: adapter_position_def adapter_limit_def set_user_def plan_position_def
      lifecycle_adapter_is_complete_def command_plan_is_complete_def)

lemma observe_ok:
  assumes "adapter_inv a" "lifecycle_adapter_observe env ir e ss raw flags a = (Accept, a')"
  shows "adapter_inv a'" "\<not> la_failed a" "\<not> la_failed a'" "la_cached a' = None" "la_cached a = None"
    "protocol_step (adapter_limit a) (adapter_position a) e (adapter_position a')"
proof -
  show "adapter_inv a'"
    using observe_keeps [OF assms(1), of env ir e ss raw flags] assms(2) by simp
  obtain r st where o1: "observe_fdt e raw flags (observed_stage a) (la_fdt a) = (r, st)"
    by (metis surj_pair)
  obtain r2 plan where o2: "command_plan_observe env ir e ss (la_plan a) = (r2, plan)"
    by (metis surj_pair)
  have res: "\<not> la_failed a \<and> la_cached a = None \<and> r2 = Accept \<and> a' = a\<lparr>la_fdt := st, la_plan := plan\<rparr>"
    using assms(2) o1 o2
    by (cases r; cases r2; auto simp: lifecycle_adapter_observe_def adapter_fail_def split: if_split_asm)
  then have acc: "command_plan_observe env ir e ss (la_plan a) = (Accept, plan)"
    using o2 by simp
  have "protocol_step (adapter_limit a) (adapter_position a) e (plan_position plan)"
    using plan_accept_step(1) [OF _ observe_accept(3) [OF acc]] assms(1)
    by (simp add: adapter_inv_def adapter_limit_def adapter_position_def)
  with res show "\<not> la_failed a" "\<not> la_failed a'" "la_cached a' = None" "la_cached a = None"
    "protocol_step (adapter_limit a) (adapter_position a) e (adapter_position a')"
    by (simp_all add: adapter_position_def)
qed

lemma commit_ok:
  assumes "adapter_inv a" "lifecycle_adapter_commit env ir e a = (Accept, a')"
  shows "adapter_inv a'" "\<not> la_failed a'" "la_cached a' = None" "e = p_event (adapter_position a)"
    "is_command_event e"
    "protocol_step (adapter_limit a) (adapter_position a) e (adapter_position a')" "la_cached a \<noteq> None"
proof -
  show "la_cached a \<noteq> None"
    using assms(2)
    by (cases "la_cached a") (auto simp: lifecycle_adapter_commit_def adapter_fail_def split: if_split_asm)
  show "adapter_inv a'"
    using commit_keeps [OF assms(1), of env ir e] assms(2) by simp
  obtain r plan where c: "command_plan_commit env ir e (la_plan a) = (r, plan)"
    by (metis surj_pair)
  have res: "r = Accept \<and> \<not> la_failed a' \<and> la_cached a' = None \<and> la_plan a' = plan"
    using assms(2) c
    by (cases r; cases "la_cached a";
        auto simp: lifecycle_adapter_commit_def adapter_fail_def split: if_split_asm)
  then show "\<not> la_failed a'" "la_cached a' = None" by simp_all
  have acc: "command_plan_commit env ir e (la_plan a) = (Accept, la_plan a')" using c res by simp
  show "e = p_event (adapter_position a)" "is_command_event e"
    using commit_accept(4) [OF acc] peek_some(3,4) [of "la_plan a"]
    by (auto simp: adapter_position_def plan_position_def)
  show "protocol_step (adapter_limit a) (adapter_position a) e (adapter_position a')"
    using plan_accept_step(1) [OF _ commit_accept(3) [OF acc]] assms(1)
    by (simp add: adapter_inv_def adapter_limit_def adapter_position_def)
qed

lemma request_timestamp_position:
  "adapter_position (snd (snd (request_timestamp ts stage purpose a))) = adapter_position a"
  by (simp add: request_timestamp_def Let_def case_prod_beta) (simp add: adapter_position_def)

lemma prepare_ok:
  assumes "adapter_inv a" "lifecycle_adapter_prepare ts a = (Accept, a', c)"
  shows "adapter_inv a'" "\<not> la_failed a'" "well_built c" "la_cached a' = Some c"
    "adapter_position a' = adapter_position a" "in_event (pc_intent c) = p_event (adapter_position a)"
proof -
  show "adapter_inv a'" "\<not> la_failed a'" "well_built c" and cached: "la_cached a' = Some c"
    using prepare_keeps [OF assms] by simp_all
  have "adapter_position (fst (snd (lifecycle_adapter_prepare ts a))) = adapter_position a"
    using request_timestamp_position [of ts]
    by (simp add: lifecycle_adapter_prepare_def Let_def case_prod_beta adapter_position_def
        split: option.split callback_reply.split reply.split)
  then show pos: "adapter_position a' = adapter_position a"
    using assms(2) by simp
  have "in_event (pc_intent c) = p_event (adapter_position a')"
    using \<open>adapter_inv a'\<close> \<open>\<not> la_failed a'\<close> cached peek_some(3) [of "la_plan a'" "pc_intent c"]
    by (simp add: adapter_inv_def adapter_live_def adapter_position_def plan_position_def)
  then show "in_event (pc_intent c) = p_event (adapter_position a)"
    by (simp add: pos)
qed

lemma irq80_ok:
  assumes "adapter_inv a" "lifecycle_adapter_prepare_irq80_rearm ts raw a out = (Accept, a', c)"
  shows "adapter_inv a'" "\<not> la_failed a'" "well_built c" "la_cached a' = None"
    "adapter_position a' = adapter_position a" "p_event (adapter_position a) = IRQ2"
    "in_event (pc_intent c) = COMMAND_32"
proof -
  show "adapter_inv a'" "\<not> la_failed a'" "well_built c"
    using irq80_keeps [OF assms] by simp_all
  obtain r1 st table where f: "fdt_refresh_irq80 raw (replicate FDT_TABLE_LENGTH 0) (la_fdt a) = (r1, st, table)"
    by (metis prod_cases3)
  let ?stage = "observed_stage a + 1"
  obtain r2 t a1 where q: "request_timestamp ts ?stage PURPOSE_IRQ80_REARM (a\<lparr>la_fdt := st\<rparr>) = (r2, t, a1)"
    by (metis prod_cases3)
  have purpose: "in_purpose (irq80_intent s) = PURPOSE_IRQ80_REARM" for s
    by (simp add: irq80_intent_def)
  have "\<not> la_failed a \<and> la_cached a = None \<and> command_plan_get_expected_event (la_plan a) = IRQ2 \<and> a' = a1 \<and>
      pc_intent c = irq80_intent ?stage"
    using assms(2) f q
    by (cases r1; cases r2)
       (auto simp: lifecycle_adapter_prepare_irq80_rearm_def Let_def purpose adapter_fail_def
         split: if_split_asm prod.splits reply.splits)
  then show "la_cached a' = None" "adapter_position a' = adapter_position a"
    "p_event (adapter_position a) = IRQ2" "in_event (pc_intent c) = COMMAND_32"
    using request_timestamp_fields(2) [OF q]
      request_timestamp_position [of ts ?stage PURPOSE_IRQ80_REARM "a\<lparr>la_fdt := st\<rparr>"] q
    by (auto simp: command_plan_get_expected_event_def adapter_position_def plan_position_def
        irq80_intent_def split: if_split_asm)
qed

section \<open>Invariant of the events\<close>

text \<open>Where the session can be while the window for a late release is open.\<close>

definition in_zero_window :: "protocol \<Rightarrow> bool" where
  "in_zero_window p \<longleftrightarrow>
     p_event p = IRQ2 \<or>
     p_event p \<in> {COMMAND_32, ACK_32} \<and> p_transition p \<noteq> TRANSITION_FIRST_NAV"

definition frozen :: "'u post_tls \<Rightarrow> bool" where
  "frozen e \<longleftrightarrow>
     pe_pending e = [] \<and> pe_irq80_event e = EVENT_NONE \<and> pe_zero e = close_zero (pe_zero e)"

definition events_base :: "'u post_tls \<Rightarrow> bool" where
  "events_base e \<longleftrightarrow>
     adapter_inv (pe_lifecycle e) \<and> ea_failed (pe_audit e) = pe_failed e \<and>
     (pe_failed e \<longrightarrow> frozen e)"

definition irq80_ok_state :: "'u post_tls \<Rightarrow> bool" where
  "irq80_ok_state e \<longleftrightarrow>
     pe_irq80_count e \<le> IRQ80_PER_WAIT_LIMIT \<and>
     pe_irq80_event e \<in> {EVENT_NONE, COMMAND_32, ACK_32} \<and>
     (pe_irq80_event e \<noteq> EVENT_NONE \<longrightarrow>
        p_event (adapter_position (pe_lifecycle e)) = IRQ2 \<and> la_cached (pe_lifecycle e) = None) \<and>
     (pe_irq80_event e = COMMAND_32 \<longrightarrow> well_built (pe_irq80_rearm e) \<and>
        in_event (pc_intent (pe_irq80_rearm e)) = COMMAND_32)"

definition zero_ok_state :: "'u post_tls \<Rightarrow> bool" where
  "zero_ok_state e \<longleftrightarrow>
     (za_stale_window_open (pe_zero e) \<longrightarrow> in_zero_window (adapter_position (pe_lifecycle e))) \<and>
     (za_awaiting_sample_request (pe_zero e) \<longrightarrow> za_stale_window_open (pe_zero e) \<and>
        p_event (adapter_position (pe_lifecycle e)) = COMMAND_32 \<and> la_cached (pe_lifecycle e) = None)"

definition pending_ok_state :: "'u post_tls \<Rightarrow> bool" where
  "pending_ok_state e \<longleftrightarrow>
     length (pe_pending e) \<le> B0_MAX_PLAINTEXT_LENGTH \<and>
     (pe_pending e \<noteq> [] \<longrightarrow>
        p_event (adapter_position (pe_lifecycle e)) \<in> {PRIMARY_B0, AUXILIARY_B0})"

definition events_inv :: "'u post_tls \<Rightarrow> bool" where
  "events_inv e \<longleftrightarrow>
     events_base e \<and>
     (\<not> pe_failed e \<longrightarrow> \<not> la_failed (pe_lifecycle e) \<and> irq80_ok_state e \<and> zero_ok_state e \<and>
        pending_ok_state e)"

lemmas events_inv_defs = events_inv_def events_base_def irq80_ok_state_def zero_ok_state_def
  pending_ok_state_def

lemma events_fail_inv: "events_base e \<Longrightarrow> events_inv (snd (events_fail prior code e))"
  by (simp add: events_fail_def events_failed_def events_inv_def events_base_def frozen_def
      close_zero_def events_close_zero_window_def Let_def)

lemma events_fail_fst [simp]: "fst (events_fail prior code e) \<noteq> Accept"
  by (simp add: events_fail_def)

lemma events_base_live: "\<not> pe_failed e \<Longrightarrow> events_base e \<longleftrightarrow>
    adapter_inv (pe_lifecycle e) \<and> \<not> ea_failed (pe_audit e)"
  by (auto simp: events_base_def)

lemma events_expected:
  assumes "events_inv e" "\<not> pe_failed e"
  shows "events_get_expected_event e =
    (if pe_irq80_event e \<noteq> EVENT_NONE then pe_irq80_event e else p_event (adapter_position (pe_lifecycle e)))"
  using assms by (simp add: events_get_expected_event_def events_inv_def events_base_def adapter_expected)

lemma events_new_inv:
  assumes "post_tls_events_new config u = Inr e"
  shows "events_inv e"
proof -
  obtain a where a: "lifecycle_adapter_new config u = Inr a" "pe_lifecycle e = a"
    using assms by (auto simp: post_tls_events_new_def split: sum.splits)
  moreover have "\<not> la_failed a"
    using a(1) by (auto simp: lifecycle_adapter_new_def split: sum.splits)
  moreover have "pe_pending e = []" "\<not> pe_failed e" "\<not> ea_failed (pe_audit e)"
    "pe_irq80_event e = EVENT_NONE" "pe_irq80_count e = 0" "pe_zero e = zero_audit_zero"
    using assms a(1) by (auto simp: post_tls_events_new_def events_audit_zero_def)
  ultimately show ?thesis
    using adapter_new_inv [OF a(1)] by (simp add: events_inv_defs zero_audit_zero_def)
qed

lemma observe_event_fields:
  assumes "observe_event env h ev ss raw flags e = (r, e')"
  shows "pe_pending e' = pe_pending e" "pe_failed e' = pe_failed e" "pe_zero e' = pe_zero e"
    "pe_irq80_count e' = pe_irq80_count e" "pe_irq80_event e' = pe_irq80_event e"
    "pe_irq80_rearm e' = pe_irq80_rearm e" "pe_audit e' = pe_audit e"
    "pe_contact_set e' = pe_contact_set e" "pe_zero_enabled e' = pe_zero_enabled e"
  using assms by (auto simp: observe_event_def split: prod.splits reply.splits)

lemma observe_event_adapter:
  assumes "adapter_inv (pe_lifecycle e)" "observe_event env h ev ss raw flags e = (r, e')"
  shows "adapter_inv (pe_lifecycle e')"
    "r = Callback_True \<Longrightarrow> \<not> la_failed (pe_lifecycle e') \<and> la_cached (pe_lifecycle e') = None \<and>
       protocol_step (adapter_limit (pe_lifecycle e)) (adapter_position (pe_lifecycle e)) ev
         (adapter_position (pe_lifecycle e'))"
proof -
  obtain r2 a where o: "lifecycle_adapter_observe env (h_image h) ev ss raw flags (pe_lifecycle e) = (r2, a)"
    by (metis surj_pair)
  show "adapter_inv (pe_lifecycle e')"
    using observe_keeps [OF assms(1), of env "h_image h" ev ss raw flags] o assms(2)
    by (cases r2) (auto simp: observe_event_def)
  assume "r = Callback_True"
  then have "r2 = Accept" "pe_lifecycle e' = a"
    using o assms(2) by (cases r2; auto simp: observe_event_def)+
  with observe_ok [OF assms(1) o [unfolded \<open>r2 = Accept\<close>]]
  show "\<not> la_failed (pe_lifecycle e') \<and> la_cached (pe_lifecycle e') = None \<and>
       protocol_step (adapter_limit (pe_lifecycle e)) (adapter_position (pe_lifecycle e)) ev
         (adapter_position (pe_lifecycle e'))" by simp
qed

lemma observe_event_base:
  assumes "events_base e" "observe_event env h ev ss raw flags e = (r, e')"
  shows "events_base e'"
  using observe_event_adapter(1) [OF _ assms(2)] observe_event_fields [OF assms(2)] assms(1)
  by (simp add: events_base_def frozen_def)

lemma call_contact_fields [simp]:
  "pe_pending (snd (call_contact h n b e)) = pe_pending e"
  "pe_failed (snd (call_contact h n b e)) = pe_failed e"
  "pe_zero (snd (call_contact h n b e)) = pe_zero e"
  "pe_irq80_count (snd (call_contact h n b e)) = pe_irq80_count e"
  "pe_irq80_event (snd (call_contact h n b e)) = pe_irq80_event e"
  "pe_irq80_rearm (snd (call_contact h n b e)) = pe_irq80_rearm e"
  "ea_failed (pe_audit (snd (call_contact h n b e))) = ea_failed (pe_audit e)"
  "adapter_inv (pe_lifecycle (snd (call_contact h n b e))) = adapter_inv (pe_lifecycle e)"
  "adapter_position (pe_lifecycle (snd (call_contact h n b e))) = adapter_position (pe_lifecycle e)"
  "adapter_limit (pe_lifecycle (snd (call_contact h n b e))) = adapter_limit (pe_lifecycle e)"
  "la_failed (pe_lifecycle (snd (call_contact h n b e))) = la_failed (pe_lifecycle e)"
  "la_cached (pe_lifecycle (snd (call_contact h n b e))) = la_cached (pe_lifecycle e)"
  by (simp_all add: call_contact_def Let_def case_prod_beta split: callback_reply.split)

lemma call_contact_inv [simp]:
  "events_inv (snd (call_contact h n b e)) = events_inv e"
  "events_base (snd (call_contact h n b e)) = events_base e"
  by (simp_all add: events_inv_defs frozen_def)

lemma a0_out_inv:
  assumes "br = (r, matched, e)" "events_base e" "r = Callback_True \<Longrightarrow> events_inv e"
  shows "events_inv (snd (a0_out expected msg br))"
proof (cases r)
  case (Callback_False x)
  have "events_base (if matched then e else record_a0_mismatch expected msg e)"
    using assms(2) by (simp add: events_base_def frozen_def record_a0_mismatch_def Let_def)
  from events_fail_inv [OF this, of x EVENTS_ERROR_EVENT] show ?thesis
    using Callback_False assms(1) by (simp add: a0_out_def split: if_split_asm)
qed (use assms in \<open>simp add: a0_out_def\<close>)

lemma events_inv_audit [simp]:
  "ea_failed au = ea_failed (pe_audit e) \<Longrightarrow> events_inv (e\<lparr>pe_audit := au\<rparr>) = events_inv e"
  "ea_failed au = ea_failed (pe_audit e) \<Longrightarrow> events_base (e\<lparr>pe_audit := au\<rparr>) = events_base e"
  by (simp_all add: events_inv_defs frozen_def)

lemma window_step:
  assumes "protocol_step limit p ev q" "in_zero_window p" "ev \<noteq> IRQ2"
  shows "in_zero_window q"
  using assms
proof (induction rule: protocol_step.induct)
  case (step_plain p e)
  then show ?case
    by (auto simp: plain_next_cases in_zero_window_def)
qed (auto simp: in_zero_window_def)

lemma observe_advances:
  assumes inv: "events_inv e" and alive: "\<not> pe_failed e"
    and obs: "observe_event env h ev ss raw flags e = (r, e')"
    and quiet: "pe_pending e = []" "pe_irq80_event e = EVENT_NONE"
    and ev: "ev \<notin> {IRQ2, ZERO_MASK_RECOVERY, COMMAND_32}"
  shows "events_base e'" "r = Callback_True \<Longrightarrow> events_inv e'"
proof -
  have base: "events_base e" using inv by (simp add: events_inv_def)
  then have ad: "adapter_inv (pe_lifecycle e)" by (simp add: events_base_def)
  note f = observe_event_fields [OF obs]
  show "events_base e'" by (rule observe_event_base [OF base obs])
  assume "r = Callback_True"
  note o = observe_event_adapter(2) [OF ad obs this]
  then have step: "protocol_step (adapter_limit (pe_lifecycle e)) (adapter_position (pe_lifecycle e)) ev
         (adapter_position (pe_lifecycle e'))" by simp
  have "p_event (adapter_position (pe_lifecycle e)) \<noteq> COMMAND_32"
    using protocol_step_event [OF step] ev by auto
  then have "zero_ok_state e'"
    using inv alive window_step [OF step] ev f by (auto simp: events_inv_def zero_ok_state_def)
  then show "events_inv e'"
    using \<open>events_base e'\<close> o f quiet inv alive
    by (simp add: events_inv_def irq80_ok_state_def pending_ok_state_def)
qed

lemma expected_plain:
  assumes "events_inv e" "\<not> pe_failed e" "events_get_expected_event e = x" "x \<notin> {COMMAND_32, ACK_32}"
  shows "pe_irq80_event e = EVENT_NONE" "p_event (adapter_position (pe_lifecycle e)) = x"
  using assms by (auto simp: events_expected events_inv_def irq80_ok_state_def split: if_split_asm)

lemma a0_nav_inv:
  assumes "events_inv e" "\<not> pe_failed e" "pe_pending e = []" "events_get_expected_event e = NAV"
    and br: "a0_nav env h e = (r, m, e')"
  shows "events_base e'" "r = Callback_True \<Longrightarrow> events_inv e'"
proof -
  obtain r1 e1 where o: "observe_event env h NAV None None 0 e = (r1, e1)" by (metis surj_pair)
  note adv = observe_advances [OF assms(1,2) o assms(3) expected_plain(1) [OF assms(1,2,4)]]
  show "events_base e'" "r = Callback_True \<Longrightarrow> events_inv e'"
    using adv br o by (cases r1; auto simp: a0_nav_def)+
qed

lemma a0_irq0100_inv:
  assumes "events_inv e" "\<not> pe_failed e" "pe_pending e = []" "events_get_expected_event e = IRQ0100"
    and br: "a0_irq0100 env h e = (r, m, e')"
  shows "events_base e'" "r = Callback_True \<Longrightarrow> events_inv e'"
proof -
  obtain r1 e1 where o: "observe_event env h IRQ0100 None None 0 e = (r1, e1)" by (metis surj_pair)
  note adv = observe_advances [OF assms(1,2) o assms(3) expected_plain(1) [OF assms(1,2,4)]]
  show "events_base e'" "r = Callback_True \<Longrightarrow> events_inv e'"
    using adv br o by (cases r1; auto simp: a0_irq0100_def)+
qed

lemma a0_irq0200_inv:
  assumes "events_inv e" "\<not> pe_failed e" "pe_pending e = []" "events_get_expected_event e = IRQ0200"
    and br: "a0_irq0200 env h flags raw e = (r, m, e')"
  shows "events_base e'" "r = Callback_True \<Longrightarrow> events_inv e'"
proof -
  obtain r1 e1 where o: "observe_event env h IRQ0200 None (Some raw) flags e = (r1, e1)" by (metis surj_pair)
  note adv = observe_advances [OF assms(1,2) o assms(3) expected_plain(1) [OF assms(1,2,4)]]
  let ?e2 = "e1\<lparr>pe_audit := (pe_audit e1)\<lparr>ea_irq0200 := ea_irq0200 (pe_audit e1) + 1\<rparr>\<rparr>"
  have "e' = (if r1 = Callback_True then snd (call_contact h (ea_irq0200 (pe_audit ?e2)) False ?e2) else e1)"
    "r = Callback_True \<longrightarrow> r1 = Callback_True"
    using br o by (cases r1; auto simp: a0_irq0200_def Let_def split: prod.splits)+
  with adv show "events_base e'" "r = Callback_True \<Longrightarrow> events_inv e'" by auto
qed

lemma a0_ack_inv:
  assumes "events_inv e" "\<not> pe_failed e" "pe_pending e = []" "events_get_expected_event e = expected"
    and echo: "expected_ack_echo expected = Some echo"
    and br: "a0_ack env h expected echo msg e = (r, m, e')"
  shows "events_base e'" "r = Callback_True \<Longrightarrow> events_inv e'"
proof -
  have ev: "expected \<notin> {IRQ2, ZERO_MASK_RECOVERY, COMMAND_32}"
    using echo by (cases expected) simp_all
  have base: "events_base e" using assms(1) by (simp add: events_inv_def)
  let ?rearmed = "e\<lparr>pe_irq80_event := EVENT_NONE, pe_irq80_rearm := prepared_command_clear\<rparr>"
  have rearmed: "events_inv ?rearmed"
    using assms(1,2) by (simp add: events_inv_defs)
  obtain r1 e1 where o: "observe_event env h expected None None 0 e = (r1, e1)" by (metis surj_pair)
  have none: "pe_irq80_event e \<noteq> ACK_32 \<Longrightarrow> pe_irq80_event e = EVENT_NONE"
    using assms(1,2,4) ev by (auto simp: events_expected events_inv_def irq80_ok_state_def split: if_split_asm)
  note adv = observe_advances [OF assms(1,2) o assms(3) none ev]
  have "\<exists>q. (r = Callback_True \<longrightarrow> events_inv q) \<and> events_base q \<and>
      (e' = q \<or> e' = q\<lparr>pe_audit := (pe_audit q)\<lparr>ea_ack := ea_ack (pe_audit q) + 1\<rparr>\<rparr>)"
  proof (cases "pe_irq80_event e = ACK_32")
    case True
    with br rearmed base show ?thesis
      by (intro exI [of _ "if r = Callback_True then ?rearmed else e"])
         (auto simp: a0_ack_def events_inv_def split: if_split_asm)
  next
    case False
    show ?thesis
    proof (cases "control msg \<noteq> 0xb0 \<or> length (body msg) \<noteq> 2 \<or> body msg ! 0 \<noteq> echo \<or> body msg ! 1 \<noteq> 1")
      case True
      with br base show ?thesis by (intro exI [of _ e]) (auto simp: a0_ack_def)
    next
      case match: False
      with False br o have "(r, e') = (case r1 of Callback_False x \<Rightarrow> (r1, e1) | Callback_True \<Rightarrow>
          (r1, e1\<lparr>pe_audit := (pe_audit e1)\<lparr>ea_ack := ea_ack (pe_audit e1) + 1\<rparr>\<rparr>))"
        by (cases r1) (auto simp: a0_ack_def)
      with adv [OF False] show ?thesis
        by (intro exI [of _ e1]) (cases r1; auto)
    qed
  qed
  then show "events_base e'" "r = Callback_True \<Longrightarrow> events_inv e'" by auto
qed

lemma a0_irq2_inv:
  assumes inv: "events_inv e" "\<not> pe_failed e" "pe_pending e = []" "events_get_expected_event e = IRQ2"
    and br: "a0_irq2 env h flags raw e = (r, m, e')"
  shows "events_base e'" "r = Callback_True \<Longrightarrow> events_inv e'"
proof -
  have base: "events_base e" using inv(1) by (simp add: events_inv_def)
  then have ad: "adapter_inv (pe_lifecycle e)" by (simp add: events_base_def)
  note here = expected_plain [OF inv(1,2,4), simplified]
  obtain r1 e1 where o: "observe_event env h IRQ2 None (Some raw) flags e = (r1, e1)" by (metis surj_pair)
  note f = observe_event_fields [OF o] and b1 = observe_event_base [OF base o]
  define e2 where "e2 = e1\<lparr>pe_zero := (pe_zero e1)\<lparr>za_stale_window_open := False, za_late_seen := False\<rparr>,
                 pe_audit := (pe_audit e1)\<lparr>ea_irq2 := ea_irq2 (pe_audit e1) + 1\<rparr>\<rparr>"
  obtain r3 e3 where c: "call_contact h (ea_irq2 (pe_audit e2)) True e2 = (r3, e3)" by (metis surj_pair)
  have e3: "events_inv e3 = events_inv e2" "events_base e3 = events_base e2"
    using call_contact_inv [of h "ea_irq2 (pe_audit e2)" True e2] c by simp_all
  have cases: "r1 \<noteq> Callback_True \<and> e' = e1 \<and> r \<noteq> Callback_True \<or>
      r1 = Callback_True \<and> r \<noteq> Callback_True \<and> e' = e3 \<or>
      r1 = Callback_True \<and> r = Callback_True \<and> e' = e3\<lparr>pe_irq80_count := 0\<rparr>"
    using br unfolding a0_irq2_def o prod.case Let_def e2_def [symmetric] c
    by (cases r1; cases r3) auto
  have inv2: "events_inv e2" if "r1 = Callback_True"
  proof -
    note st = observe_event_adapter(2) [OF ad o that]
    have "\<not> za_awaiting_sample_request (pe_zero e)"
      using inv(1,2) here by (auto simp: events_inv_def zero_ok_state_def)
    with st f b1 here inv(1,2,3) show ?thesis
      by (simp add: e2_def events_inv_defs)
  qed
  have base2: "events_base e2" using b1 f inv(2) by (simp add: events_base_def e2_def)
  have reset: "events_inv (x\<lparr>pe_irq80_count := 0\<rparr>)" if "events_inv x" for x :: "'a post_tls"
    using that by (simp add: events_inv_defs frozen_def)
  have weaken: "events_base x" if "events_inv x" for x :: "'a post_tls"
    using that by (simp add: events_inv_def)
  show "r = Callback_True \<Longrightarrow> events_inv e'"
    using cases inv2 e3(1) reset by blast
  then show "events_base e'"
    using cases b1 base2 e3(2) weaken by blast
qed

lemma not_complete_expected:
  assumes "adapter_inv a" "\<not> la_failed a" "la_cached a = None" "\<not> lifecycle_adapter_is_complete a"
  shows "p_event (adapter_position a) \<noteq> EVENT_NONE"
proof -
  have live: "plan_inv (la_plan a)" "\<not> cp_failed (la_plan a)"
    using assms(1,2) by (simp_all add: adapter_inv_def adapter_live_def)
  then have "\<not> m_complete (plan_model (la_plan a))"
    using assms by (simp add: lifecycle_adapter_is_complete_def command_plan_is_complete_def)
  then have "model_position (plan_model (la_plan a))"
    by (rule plan_inv_live(3) [OF live])
  then show ?thesis
    by (auto simp: model_position_def adapter_position_def plan_position_def)
qed

lemma zero_step_window:
  assumes "protocol_step limit p ZERO_MASK_RECOVERY q" "p_transition p \<noteq> TRANSITION_FIRST_NAV"
    "p_event q \<noteq> EVENT_NONE"
  shows "in_zero_window q \<and> p_event q = COMMAND_32"
  using assms
  by (cases rule: protocol_step.cases) (auto simp: in_zero_window_def plain_next_cases split: if_split_asm)

lemma a0_zero_contact_inv:
  assumes inv: "events_inv e" "\<not> pe_failed e" "pe_pending e = []" "events_get_expected_event e = IRQ0100"
    and br: "a0_zero_contact env h raw e = (r, m, e')"
  shows "events_base e'" "r = Callback_True \<Longrightarrow> events_inv e'"
proof -
  have base: "events_base e" using inv(1) by (simp add: events_inv_def)
  then have ad: "adapter_inv (pe_lifecycle e)" by (simp add: events_base_def)
  note here = expected_plain [OF inv(1,2,4), simplified]
  obtain r1 e1 where o: "observe_event env h ZERO_MASK_RECOVERY None (Some raw) 0 e = (r1, e1)"
    by (metis surj_pair)
  note f = observe_event_fields [OF o] and b1 = observe_event_base [OF base o]
  define w where "w = (\<not> lifecycle_adapter_is_complete (pe_lifecycle e1))"
  let ?e2 = "e1\<lparr>pe_audit := (pe_audit e1)\<lparr>ea_irq0100 := ea_irq0100 (pe_audit e1) + 1\<rparr>,
       pe_zero := (pe_zero e1)\<lparr>za_recovered := za_recovered (pe_zero e1) + 1,
         za_stale_window_open := w, za_awaiting_sample_request := w, za_late_seen := False\<rparr>\<rparr>"
  have e': "e' = (if r1 = Callback_True then snd (call_contact h (ma_observed_primary (protocol_audit ?e2)) False ?e2) else e1)"
    "r = Callback_True \<longrightarrow> r1 = Callback_True"
    using br o by (cases r1; auto simp: a0_zero_contact_def Let_def w_def split: prod.splits)+
  have "events_inv ?e2" if "r1 = Callback_True"
  proof -
    note st = observe_event_adapter(2) [OF ad o that]
    have "stages_ok (adapter_position (pe_lifecycle e)) (fdt_stages (la_fdt (pe_lifecycle e)))"
      using ad inv(1,2) by (simp add: adapter_inv_def adapter_live_def adapter_position_def events_inv_def)
    then have "p_transition (adapter_position (pe_lifecycle e)) \<noteq> TRANSITION_FIRST_NAV"
      using here by (cases "fdt_stages (la_fdt (pe_lifecycle e))") (simp add: stages_ok_def)
    moreover have "p_event (adapter_position (pe_lifecycle e1)) \<noteq> EVENT_NONE" if w
      using not_complete_expected [of "pe_lifecycle e1"] st b1 that by (simp add: events_base_def w_def)
    ultimately have "w \<longrightarrow> in_zero_window (adapter_position (pe_lifecycle e1)) \<and>
        p_event (adapter_position (pe_lifecycle e1)) = COMMAND_32"
      using zero_step_window st by blast
    with st f b1 here inv(1,2,3) show ?thesis
      by (simp add: events_inv_defs)
  qed
  moreover have "events_base ?e2" using b1 f inv(2) by (simp add: events_base_def)
  ultimately show "events_base e'" "r = Callback_True \<Longrightarrow> events_inv e'"
    using b1 e' by auto
qed

lemma a0_irq80_inv:
  assumes inv: "events_inv e" "\<not> pe_failed e" "pe_pending e = []" "events_get_expected_event e = IRQ2"
  shows "events_inv (snd (a0_irq80 h msg e))"
proof -
  have base: "events_base e" using inv(1) by (simp add: events_inv_def)
  then have ad: "adapter_inv (pe_lifecycle e)" by (simp add: events_base_def)
  note here = expected_plain [OF inv(1,2,4), simplified]
  obtain r a c where p: "lifecycle_adapter_prepare_irq80_rearm (h_timestamp h) (Some (drop 4 (body msg)))
      (pe_lifecycle e) prepared_command_clear = (r, a, c)" by (metis prod_cases3)
  have a: "adapter_inv a" by (rule irq80_keeps(1) [OF ad p])
  then have ba: "events_base (e\<lparr>pe_lifecycle := a\<rparr>)"
    using base inv(2) by (simp add: events_base_def)
  show ?thesis
  proof (cases "pe_irq80_count e \<ge> 2")
    case True
    then show ?thesis using events_fail_inv [OF base] by (simp add: a0_irq80_def)
  next
    case False
    then have room: "pe_irq80_count e + 1 \<le> 2"
      using u32_Suc_le(2) [of "pe_irq80_count e" 2] by simp
    show ?thesis
    proof (cases r)
      case Accept
      note ok = irq80_ok [OF ad p [unfolded Accept]]
      have "snd (a0_irq80 h msg e) = e\<lparr>pe_lifecycle := a, pe_irq80_rearm := c, pe_irq80_event := COMMAND_32,
          pe_irq80_count := pe_irq80_count e + 1\<rparr>"
        using False p Accept by (simp add: a0_irq80_def)
      then show ?thesis
        using ok room base inv here by (simp add: events_inv_defs)
    next
      case (Reject x)
      with False p events_fail_inv [OF ba] show ?thesis by (simp add: a0_irq80_def)
    qed
  qed
qed

lemma a0_dispatch_inv:
  assumes inv: "events_inv e" "\<not> pe_failed e" "pe_pending e = []" "events_get_expected_event e = expected"
  shows "events_inv (snd (a0_dispatch env h expected msg e))"
proof -
  have base: "events_base e" using inv(1) by (simp add: events_inv_def)
  note exits = a0_out_inv
  have out: "events_inv (snd (a0_out expected msg br))"
    if "\<And>r m e'. br = (r, m, e') \<Longrightarrow> events_base e' \<and> (r = Callback_True \<longrightarrow> events_inv e')" for br
    using a0_out_inv that by (metis prod_cases3)
  have ack: "events_inv (snd (a0_out expected msg (a0_ack env h expected echo msg e)))"
    if "expected_ack_echo expected = Some echo" for echo
    by (rule out) (use a0_ack_inv [OF inv that] in blast)
  have irq2: "events_inv (snd (a0_out expected msg (a0_irq2 env h flags raw e)))"
    if "expected = IRQ2" for flags raw
    by (rule out) (use a0_irq2_inv [OF inv(1,2,3)] inv(4) that in blast)
  have zero: "events_inv (snd (a0_out expected msg (a0_zero_contact env h raw e)))"
    if "expected = IRQ0100" for raw
    by (rule out) (use a0_zero_contact_inv [OF inv(1,2,3)] inv(4) that in blast)
  have irq1: "events_inv (snd (a0_out expected msg (a0_irq0100 env h e)))" if "expected = IRQ0100"
    by (rule out) (use a0_irq0100_inv [OF inv(1,2,3)] inv(4) that in blast)
  have irq200: "events_inv (snd (a0_out expected msg (a0_irq0200 env h flags raw e)))"
    if "expected = IRQ0200" for flags raw
    by (rule out) (use a0_irq0200_inv [OF inv(1,2,3)] inv(4) that in blast)
  have none: "events_inv (snd (a0_out expected msg (Callback_False None, False, e)))"
    by (rule out) (use base in simp)
  have irq80: "events_inv (snd (a0_irq80 h msg e))" if "is_irq80 expected msg"
    by (rule a0_irq80_inv [OF inv(1,2,3)]) (use inv(4) that in \<open>simp add: is_irq80_def Let_def\<close>)
  show ?thesis
    unfolding a0_dispatch_def
    using ack irq2 zero irq1 irq200 none irq80 events_fail_inv [OF base]
    by (cases "expected_ack_echo expected") (auto split: prod.split)
qed

lemma events_invD: "events_inv e \<Longrightarrow> events_base e"
  by (simp add: events_inv_def)

lemma handle_a0_inv:
  assumes "events_inv e"
  shows "events_inv (snd (events_handle_a0 env h frame e))"
proof -
  note base = events_invD [OF assms] and fail = events_fail_inv [OF events_invD [OF assms]]
  show ?thesis
  proof (cases "frame = None \<or> pe_failed e \<or> pe_pending e \<noteq> []")
    case True
    then show ?thesis using fail by (auto simp: events_handle_a0_def split: option.split)
  next
    case False
    then obtain d where d: "frame = Some d" and live: "\<not> pe_failed e" "pe_pending e = []" by auto
    let ?x = "events_get_expected_event e"
    let ?e1 = "e\<lparr>pe_audit := (pe_audit e)\<lparr>ea_parsed_a0 := ea_parsed_a0 (pe_audit e) + 1\<rparr>\<rparr>"
    have nav: "events_inv (snd (a0_out NAV msg (a0_nav env h e)))" if "?x = NAV" for msg
      using a0_nav_inv [OF assms live that] a0_out_inv by (metis prod_cases3)
    have "events_get_expected_event ?e1 = ?x"
      by (simp add: events_get_expected_event_def)
    then have disp: "events_inv (snd (a0_dispatch env h ?x msg ?e1))" for msg
      using a0_dispatch_inv [of ?e1 ?x] assms live by simp
    show ?thesis
      unfolding events_handle_a0_def d option.case
      using live nav disp fail
      by (cases "a0_parse_frame (Some d) (d ! 4)") (simp_all add: Let_def)
  qed
qed

text \<open>A B0 event can only be accepted while no rearm is under way.\<close>

lemma b0_event_inv:
  assumes "events_inv e" "\<not> pe_failed e" "pe_pending e = []" "ev \<in> {PRIMARY_B0, AUXILIARY_B0}"
    and o: "observe_event env h ev ss None 0 e = (r, e1)"
  shows "events_base e1" "r = Callback_True \<Longrightarrow> events_inv e1"
proof -
  have base: "events_base e" by (rule events_invD [OF assms(1)])
  show "events_base e1" by (rule observe_event_base [OF base o])
  assume r: "r = Callback_True"
  have "adapter_inv (pe_lifecycle e)" using base by (simp add: events_base_def)
  note step = observe_event_adapter(2) [OF this o r]
  have "p_event (adapter_position (pe_lifecycle e)) \<noteq> IRQ2"
    using protocol_step_event [OF conjunct2 [OF conjunct2 [OF step]]] assms(4) by auto
  then have "pe_irq80_event e = EVENT_NONE"
    using assms(1,2) by (auto simp: events_inv_def irq80_ok_state_def)
  with observe_advances(2) [OF assms(1,2) o assms(3)] assms(4) r show "events_inv e1" by auto
qed

lemma handle_primary_inv:
  assumes "events_inv e"
  shows "events_inv (snd (events_handle_primary_samples env h ss e))"
proof (cases "pe_failed e \<or> pe_pending e \<noteq> []")
  case False
  obtain r e1 where o: "observe_event env h PRIMARY_B0 ss None 0 e = (r, e1)" by (metis surj_pair)
  with b0_event_inv [OF assms _ _ _ o] False show ?thesis
    by (cases r) (simp_all add: events_handle_primary_samples_def events_fail_inv)
qed (use events_fail_inv [OF events_invD [OF assms]] in \<open>simp add: events_handle_primary_samples_def\<close>)

lemma handle_auxiliary_inv:
  assumes "events_inv e"
  shows "events_inv (snd (events_handle_auxiliary_b0 env h e))"
proof (cases "pe_failed e \<or> pe_pending e \<noteq> []")
  case False
  obtain r e1 where o: "observe_event env h AUXILIARY_B0 None None 0 e = (r, e1)" by (metis surj_pair)
  with b0_event_inv [OF assms _ _ _ o] False show ?thesis
    by (cases r) (simp_all add: events_handle_auxiliary_b0_def events_fail_inv)
qed (use events_fail_inv [OF events_invD [OF assms]] in \<open>simp add: events_handle_auxiliary_b0_def\<close>)

lemma clear_pending_inv [simp]:
  assumes "events_inv e"
  shows "events_inv (e\<lparr>pe_pending := []\<rparr>)" "events_base (e\<lparr>pe_pending := []\<rparr>)"
  using assms by (simp_all add: events_inv_defs frozen_def)

lemma set_user_inv [simp]:
  "events_inv e \<Longrightarrow> events_inv (e\<lparr>pe_lifecycle := set_user u (pe_lifecycle e)\<rparr>)"
  by (simp add: events_inv_defs frozen_def)

lemma complete_primary_inv:
  assumes "events_inv e"
  shows "events_inv (snd (complete_primary stack env h e))"
proof -
  obtain r ss x where d: "image_decode_plaintext stack (Some (pe_pending e)) (Some stack)
      (Some audit_cleared) = (r, ss, x)" by (metis prod_cases3)
  let ?e1 = "e\<lparr>pe_pending := [], pe_audit := (pe_audit e)\<lparr>ea_primary_decode := ea_primary_decode (pe_audit e) + 1\<rparr>\<rparr>"
  obtain r2 e2 where p: "events_handle_primary_samples env h ss ?e1 = (r2, e2)" by (metis surj_pair)
  have "events_inv ?e1"
    using clear_pending_inv(1) [OF assms] by (simp add: events_inv_defs frozen_def)
  then have "events_inv e2" using handle_primary_inv [of ?e1 env h ss] p by simp
  with d p assms show ?thesis
    by (cases r; cases r2) (simp_all add: complete_primary_def events_fail_inv)
qed

lemma complete_auxiliary_inv:
  assumes "events_inv e"
  shows "events_inv (snd (complete_auxiliary env h e))"
proof -
  obtain r u where d: "h_auxiliary h (pe_pending e) (adapter_user (pe_lifecycle e)) = (r, u)"
    by (metis surj_pair)
  define e1 where "e1 = e\<lparr>pe_lifecycle := set_user u (pe_lifecycle e), pe_pending := []\<rparr>"
  define e2 where "e2 = e1\<lparr>pe_audit := (pe_audit e1)\<lparr>ea_auxiliary_delivery := ea_auxiliary_delivery (pe_audit e1) + 1\<rparr>\<rparr>"
  obtain r3 e3 where p: "events_handle_auxiliary_b0 env h e2 = (r3, e3)" by (metis surj_pair)
  have "events_inv e1"
    using clear_pending_inv(1) [OF set_user_inv [OF assms, of u]] by (simp add: e1_def)
  moreover from this have "events_inv e2" by (simp add: e2_def)
  then have "events_inv e3" using handle_auxiliary_inv [of e2 env h] p by simp
  ultimately show ?thesis
    using d p unfolding complete_auxiliary_def Let_def d prod.case e1_def [symmetric] e2_def [symmetric]
    by (cases r; cases r3) (simp_all add: events_fail_inv events_invD)
qed

lemma plaintext_chunk_inv:
  assumes "events_inv e"
  shows "events_inv (snd (events_handle_plaintext_chunk stack env h chunk e))"
proof -
  note base = events_invD [OF assms]
  note fail = events_fail_inv [OF base]
  let ?x = "events_get_expected_event e"
  show ?thesis
  proof (cases "chunk = None \<or> pe_failed e \<or> ?x \<noteq> PRIMARY_B0 \<and> ?x \<noteq> AUXILIARY_B0 \<or>
      length (the chunk) > B0_MAX_PLAINTEXT_LENGTH \<or>
      length (pe_pending e) > B0_MAX_PLAINTEXT_LENGTH - length (the chunk)")
    case True
    with fail show ?thesis
      by (auto simp: events_handle_plaintext_chunk_def Let_def split: option.split)
  next
    case False
    then obtain bs where bs: "chunk = Some bs" and live: "\<not> pe_failed e" by auto
    define e1 where "e1 = e\<lparr>pe_pending := pe_pending e @ bs,
      pe_audit := (pe_audit e)\<lparr>ea_plaintext_chunk := ea_plaintext_chunk (pe_audit e) + 1\<rparr>\<rparr>"
    have "p_event (adapter_position (pe_lifecycle e)) \<in> {PRIMARY_B0, AUXILIARY_B0}"
      using False expected_plain(2) [OF assms live] by auto
    moreover have "length (pe_pending e @ bs) \<le> B0_MAX_PLAINTEXT_LENGTH"
      using False bs by auto
    ultimately have e1: "events_inv e1"
      using assms live by (simp add: e1_def events_inv_defs)
    define e2 where "e2 = e1\<lparr>pe_audit := (pe_audit e1)\<lparr>ea_completed_b0 := ea_completed_b0 (pe_audit e1) + 1\<rparr>\<rparr>"
    have e2: "events_inv e2" using e1 by (simp add: e2_def)
    note ends = complete_primary_inv [OF e2, of stack env h] complete_auxiliary_inv [OF e2, of env h]
      events_fail_inv [OF events_invD [OF e1]] fail e1
    show ?thesis
      unfolding events_handle_plaintext_chunk_def bs option.case Let_def e1_def [symmetric] e2_def [symmetric]
      using ends by (simp split: if_split)
  qed
qed

lemma events_prepare_inv:
  assumes "events_inv e"
  shows "events_inv (fst (snd (events_prepare h e)))"
proof (cases "pe_failed e \<or> pe_pending e \<noteq> [] \<or> za_awaiting_sample_request (pe_zero e)")
  case True
  then show ?thesis
    using events_fail_inv [OF events_invD [OF assms]] by (simp add: events_prepare_def Let_def case_prod_beta)
next
  case False
  have ad: "adapter_inv (pe_lifecycle e)" using events_invD [OF assms] by (simp add: events_base_def)
  obtain r a c where p: "lifecycle_adapter_prepare (h_timestamp h) (pe_lifecycle e) = (r, a, c)"
    by (metis prod_cases3)
  have a: "adapter_inv a"
    using prepare_keeps(1) [OF ad p] .
  have ba: "events_base (e\<lparr>pe_lifecycle := a\<rparr>)"
    using events_invD [OF assms] False a by (simp add: events_base_def)
  have "events_inv (e\<lparr>pe_lifecycle := a\<rparr>)" if "r = Accept" "pe_irq80_event e \<noteq> COMMAND_32"
  proof -
    note ok = prepare_ok [OF ad p [unfolded that]]
    have "pe_irq80_event e = EVENT_NONE"
    proof (rule ccontr)
      assume "pe_irq80_event e \<noteq> EVENT_NONE"
      then have "p_event (adapter_position a) = IRQ2"
        using assms False ok(5) by (simp add: events_inv_def irq80_ok_state_def)
      moreover have "command_plan_peek (la_plan a) = Some (pc_intent c)"
        using ok(1,2,4) by (simp add: adapter_inv_def adapter_live_def)
      ultimately show False
        using peek_some(3,4) [of "la_plan a"]
        by (auto simp: adapter_position_def plan_position_def is_command_event_def)
    qed
    with ok ba assms False show ?thesis
      by (simp add: events_inv_def irq80_ok_state_def zero_ok_state_def pending_ok_state_def)
  qed
  with False p assms events_fail_inv [OF ba] show ?thesis
    by (cases r) (simp_all add: events_prepare_def Let_def case_prod_beta)
qed

lemma events_commit_inv:
  assumes "events_inv e"
  shows "events_inv (snd (events_commit env h ev e))"
proof (cases "pe_failed e \<or> pe_pending e \<noteq> []")
  case True
  then show ?thesis
    using events_fail_inv [OF events_invD [OF assms]] by (simp add: events_commit_def)
next
  case False
  note base = events_invD [OF assms]
  have ad: "adapter_inv (pe_lifecycle e)" using base by (simp add: events_base_def)
  obtain r a where p: "lifecycle_adapter_commit env (h_image h) ev (pe_lifecycle e) = (r, a)"
    by (metis surj_pair)
  show ?thesis
  proof (cases "pe_irq80_event e = EVENT_NONE")
    case rearm: False
    then have "events_inv (e\<lparr>pe_irq80_event := ACK_32\<rparr>)"
      using assms False by (auto simp: events_inv_defs)
    with rearm False events_fail_inv [OF base] show ?thesis by (simp add: events_commit_def)
  next
    case plain: True
    have "adapter_inv a" using commit_keeps [OF ad, of env "h_image h" ev] p by simp
    then have ba: "events_base (e\<lparr>pe_lifecycle := a\<rparr>)" using base False by (simp add: events_base_def)
    have "events_inv (e\<lparr>pe_lifecycle := a\<rparr>)" if acc: "r = Accept"
    proof -
      note ok = commit_ok [OF ad p [unfolded acc]]
      have "ev \<noteq> IRQ2" using ok(5) by (auto simp: is_command_event_def)
      with window_step [OF ok(6)] ok plain False assms ba
      show ?thesis
        by (auto simp: events_inv_def irq80_ok_state_def zero_ok_state_def pending_ok_state_def)
    qed
    then have acc: "events_inv (snd (events_commit env h ev e))" if "r = Accept"
      using that plain False p by (simp add: events_commit_def Let_def)
         (simp add: events_inv_defs frozen_def)
    show ?thesis
    proof (cases r)
      case (Reject x)
      with events_fail_inv [OF ba] plain False p show ?thesis by (simp add: events_commit_def)
    qed (rule acc)
  qed
qed

lemma request_zero_inv:
  assumes "events_inv e"
  shows "events_inv (snd (events_request_zero_sample e))"
proof (cases "pe_failed e \<or> \<not> za_awaiting_sample_request (pe_zero e) \<or> events_get_expected_event e \<noteq> COMMAND_32")
  case True
  then show ?thesis
    using events_fail_inv [OF events_invD [OF assms]] by (simp add: events_request_zero_sample_def)
next
  case False
  then have "events_inv (e\<lparr>pe_zero := (pe_zero e)\<lparr>za_awaiting_sample_request := False\<rparr>\<rparr>)"
    using assms False by (auto simp: events_inv_defs)
  with False show ?thesis by (simp add: events_request_zero_sample_def)
qed

lemma stale_release_inv:
  assumes "events_inv e"
  shows "events_inv (snd (snd (events_consume_stale_release frame e)))"
proof -
  note fail = events_fail_inv [OF events_invD [OF assms]]
  let ?e1 = "e\<lparr>pe_zero := (pe_zero e)\<lparr>za_late_seen := True, za_late_release := za_late_release (pe_zero e) + 1\<rparr>\<rparr>"
  have e1: "events_inv ?e1" if "\<not> pe_failed e"
    using assms that by (simp add: events_inv_defs)
  show ?thesis
  proof (cases frame)
    case (Some wire)
    show ?thesis
      by (cases "pe_failed e"; cases "a0_parse_frame frame 0x34")
         (simp_all add: events_consume_stale_release_def Some assms fail e1 case_prod_beta)
  qed (simp add: events_consume_stale_release_def assms)
qed

section \<open>Sessions\<close>

datatype events_call =
    Events_Set_Contact
  | Events_Enable_Zero
  | Events_Close_Zero
  | Events_Request_Zero
  | Events_Stale "bytes option"
  | Events_A0 allocator "bytes option"
  | Events_Primary allocator "u16 list option"
  | Events_Auxiliary allocator
  | Events_Chunk "u16 list" allocator "bytes option"
  | Events_Prepare
  | Events_Commit allocator enrollment_event

fun events_machine :: "'u handlers \<Rightarrow> (events_call, gerror, 'u post_tls) machine" where
  "events_machine h Events_Set_Contact e = events_set_contact_callback e"
| "events_machine h Events_Enable_Zero e = (Accept, events_enable_zero_recovery e)"
| "events_machine h Events_Close_Zero e = (Accept, events_close_zero_window e)"
| "events_machine h Events_Request_Zero e = events_request_zero_sample e"
| "events_machine h (Events_Stale frame) e =
     (let (r, handled, e') = events_consume_stale_release frame e in (r, e'))"
| "events_machine h (Events_A0 env frame) e = events_handle_a0 env h frame e"
| "events_machine h (Events_Primary env ss) e = events_handle_primary_samples env h ss e"
| "events_machine h (Events_Auxiliary env) e = events_handle_auxiliary_b0 env h e"
| "events_machine h (Events_Chunk stack env chunk) e = events_handle_plaintext_chunk stack env h chunk e"
| "events_machine h Events_Prepare e = (let (r, e', c) = events_prepare h e in (r, e'))"
| "events_machine h (Events_Commit env ev) e = events_commit env h ev e"

lemma events_machine_keeps:
  assumes "events_inv e"
  shows "events_inv (snd (events_machine h call e))"
proof (cases call)
  case Events_Set_Contact
  have "events_inv (e\<lparr>pe_contact_set := True\<rparr>)"
    using assms by (simp add: events_inv_defs frozen_def)
  with events_fail_inv [OF events_invD [OF assms]] show ?thesis
    by (simp add: Events_Set_Contact events_set_contact_callback_def)
next
  case Events_Enable_Zero
  have "events_inv (e\<lparr>pe_zero_enabled := pe_zero_eligible e\<rparr>)"
    using assms by (simp add: events_inv_defs frozen_def)
  with assms show ?thesis by (simp add: Events_Enable_Zero events_enable_zero_recovery_def)
next
  case Events_Close_Zero
  have "events_inv (events_close_zero_window e)"
    using assms by (simp add: events_inv_defs frozen_def events_close_zero_window_def close_zero_def)
  then show ?thesis by (simp add: Events_Close_Zero)
next
  case (Events_Stale frame)
  with stale_release_inv [OF assms] show ?thesis by (simp add: case_prod_beta)
next
  case Events_Prepare
  with events_prepare_inv [OF assms] show ?thesis by (simp add: case_prod_beta)
qed (simp_all add: assms request_zero_inv handle_a0_inv handle_primary_inv handle_auxiliary_inv
      plaintext_chunk_inv events_commit_inv)

lemma events_reach_inv:
  assumes "post_tls_events_new config u = Inr start" "reach (events_machine h) start e"
  shows "events_inv e"
proof -
  have "machine_invariant (events_machine h) start events_inv"
    by unfold_locales (use events_new_inv [OF assms(1)] events_machine_keeps in auto)
  then show ?thesis
    using assms(2) by (rule machine_invariant.inv_reach)
qed

section \<open>What an accepted frame did\<close>

text \<open>The message an event stands for on the wire.\<close>

definition event_message :: "enrollment_event \<Rightarrow> a0_message \<Rightarrow> bool" where
  "event_message x m \<longleftrightarrow>
     (case expected_ack_echo x of
        Some echo \<Rightarrow> control m = 0xb0 \<and> body m = [echo, 1]
      | None \<Rightarrow> (x, control m) \<in> {(IRQ2, 0x32), (IRQ0100, 0x36), (IRQ0200, 0x34)} \<and> length (body m) = 16)"

text \<open>How the session moved: by the event it waited for, by the recovery of a contact
  without touch channels, or not at all (the IRQ0080 exception and its acknowledgement).\<close>

definition event_move :: "enrollment_event \<Rightarrow> 'u post_tls \<Rightarrow> 'u post_tls \<Rightarrow> bool" where
  "event_move x e e' \<longleftrightarrow>
     (let step = protocol_step (adapter_limit (pe_lifecycle e)) (adapter_position (pe_lifecycle e));
          position = adapter_position (pe_lifecycle e') in
      step x position \<or> x = IRQ0100 \<and> pe_zero_enabled e \<and> step ZERO_MASK_RECOVERY position \<or>
      position = adapter_position (pe_lifecycle e) \<and>
        (x = IRQ2 \<and> pe_irq80_event e' = COMMAND_32 \<and> pe_irq80_count e' = pe_irq80_count e + 1 \<or>
         x = ACK_32 \<and> pe_irq80_event e = ACK_32 \<and> pe_irq80_event e' = EVENT_NONE))"

lemma event_move_step:
  assumes "adapter_inv (pe_lifecycle e)" "observe_event env h x ss raw flags e = (Callback_True, e1)"
    and "adapter_position (pe_lifecycle e') = adapter_position (pe_lifecycle e1)"
  shows "event_move x e e'"
  using observe_event_adapter(2) [OF assms(1,2)] assms(3) by (simp add: event_move_def)

lemma a0_out_accept: "a0_out x m br = (Accept, e') \<Longrightarrow> \<exists>k. br = (Callback_True, k, e')"
  by (cases br; cases "fst br") (auto simp: a0_out_def events_fail_def split: if_split_asm)

lemma a0_nav_move:
  assumes "adapter_inv (pe_lifecycle e)" "a0_nav env h e = (Callback_True, k, e')"
  shows "event_move NAV e e'"
proof -
  obtain r e1 where o: "observe_event env h NAV None None 0 e = (r, e1)" by (metis surj_pair)
  with assms(2) have "r = Callback_True" "adapter_position (pe_lifecycle e') = adapter_position (pe_lifecycle e1)"
    by (cases r; auto simp: a0_nav_def)+
  with event_move_step [OF assms(1)] o show ?thesis by blast
qed

lemma a0_irq0100_move:
  assumes "adapter_inv (pe_lifecycle e)" "a0_irq0100 env h e = (Callback_True, k, e')"
  shows "event_move IRQ0100 e e'"
proof -
  obtain r e1 where o: "observe_event env h IRQ0100 None None 0 e = (r, e1)" by (metis surj_pair)
  with assms(2) have "r = Callback_True" "adapter_position (pe_lifecycle e') = adapter_position (pe_lifecycle e1)"
    by (cases r; auto simp: a0_irq0100_def)+
  with event_move_step [OF assms(1)] o show ?thesis by blast
qed

lemma a0_ack_move:
  assumes "adapter_inv (pe_lifecycle e)" "a0_ack env h x echo m e = (Callback_True, k, e')"
    and "events_get_expected_event e = x" "\<not> pe_failed e"
  shows "event_move x e e'" "control m = 0xb0" "body m = [echo, 1]"
proof -
  obtain r e1 where o: "observe_event env h x None None 0 e = (r, e1)" by (metis surj_pair)
  have shape: "control m = 0xb0" "length (body m) = 2" "body m ! 0 = echo" "body m ! 1 = 1"
    using assms(2) by (auto simp: a0_ack_def split: if_split_asm)
  then show "control m = 0xb0" "body m = [echo, 1]"
    by (simp_all add: list_eq_iff_nth_eq less_2_cases_iff)
  show "event_move x e e'"
  proof (cases "pe_irq80_event e = ACK_32")
    case True
    with assms shape show ?thesis
      by (auto simp: a0_ack_def event_move_def events_get_expected_event_def)
  next
    case False
    with assms(2) shape o have "r = Callback_True"
      "adapter_position (pe_lifecycle e') = adapter_position (pe_lifecycle e1)"
      by (cases r; auto simp: a0_ack_def)+
    with event_move_step [OF assms(1)] o show ?thesis by blast
  qed
qed

lemma a0_irq2_move:
  assumes "adapter_inv (pe_lifecycle e)" "a0_irq2 env h flags raw e = (Callback_True, k, e')"
  shows "event_move IRQ2 e e'"
proof -
  obtain r e1 where o: "observe_event env h IRQ2 None (Some raw) flags e = (r, e1)" by (metis surj_pair)
  define e2 where "e2 = e1\<lparr>pe_zero := (pe_zero e1)\<lparr>za_stale_window_open := False, za_late_seen := False\<rparr>,
                 pe_audit := (pe_audit e1)\<lparr>ea_irq2 := ea_irq2 (pe_audit e1) + 1\<rparr>\<rparr>"
  obtain r3 e3 where c: "call_contact h (ea_irq2 (pe_audit e2)) True e2 = (r3, e3)" by (metis surj_pair)
  have "r = Callback_True" "e' = e3\<lparr>pe_irq80_count := 0\<rparr>"
    using assms(2) unfolding a0_irq2_def o prod.case Let_def e2_def [symmetric] c
    by (cases r; cases r3; auto)+
  moreover have "pe_lifecycle e2 = pe_lifecycle e1" by (simp add: e2_def)
  then have "adapter_position (pe_lifecycle e3) = adapter_position (pe_lifecycle e1)"
    using call_contact_fields(9) [of h "ea_irq2 (pe_audit e2)" True e2] unfolding c by simp
  ultimately show ?thesis
    using event_move_step [OF assms(1)] o by simp
qed

lemma a0_irq0200_move:
  assumes "adapter_inv (pe_lifecycle e)" "a0_irq0200 env h flags raw e = (Callback_True, k, e')"
  shows "event_move IRQ0200 e e'"
proof -
  obtain r e1 where o: "observe_event env h IRQ0200 None (Some raw) flags e = (r, e1)" by (metis surj_pair)
  let ?e2 = "e1\<lparr>pe_audit := (pe_audit e1)\<lparr>ea_irq0200 := ea_irq0200 (pe_audit e1) + 1\<rparr>\<rparr>"
  have "r = Callback_True" "e' = snd (call_contact h (ea_irq0200 (pe_audit ?e2)) False ?e2)"
    using assms(2) o by (cases r; auto simp: a0_irq0200_def Let_def split: prod.splits)+
  with event_move_step [OF assms(1)] o show ?thesis by simp
qed

lemma a0_zero_contact_move:
  assumes "adapter_inv (pe_lifecycle e)" "a0_zero_contact env h raw e = (Callback_True, k, e')"
    and "zero_recovery_possible e"
  shows "event_move IRQ0100 e e'"
proof -
  obtain r e1 where o: "observe_event env h ZERO_MASK_RECOVERY None (Some raw) 0 e = (r, e1)"
    by (metis surj_pair)
  define w where "w = (\<not> lifecycle_adapter_is_complete (pe_lifecycle e1))"
  let ?e2 = "e1\<lparr>pe_audit := (pe_audit e1)\<lparr>ea_irq0100 := ea_irq0100 (pe_audit e1) + 1\<rparr>,
       pe_zero := (pe_zero e1)\<lparr>za_recovered := za_recovered (pe_zero e1) + 1,
         za_stale_window_open := w, za_awaiting_sample_request := w, za_late_seen := False\<rparr>\<rparr>"
  have r: "r = Callback_True" and e': "e' = snd (call_contact h (ma_observed_primary (protocol_audit ?e2)) False ?e2)"
    using assms(2) o by (cases r; auto simp: a0_zero_contact_def Let_def w_def split: prod.splits)+
  have "adapter_position (pe_lifecycle e') = adapter_position (pe_lifecycle e1)"
    unfolding e' by simp
  with observe_event_adapter(2) [OF assms(1) o r] assms(3) show ?thesis
    by (simp add: event_move_def zero_recovery_possible_def Let_def)
qed

lemma a0_irq80_move:
  assumes "adapter_inv (pe_lifecycle e)" "a0_irq80 h m e = (Accept, e')"
  shows "event_move IRQ2 e e'"
proof -
  obtain r a c where p: "lifecycle_adapter_prepare_irq80_rearm (h_timestamp h) (Some (drop 4 (body m)))
      (pe_lifecycle e) prepared_command_clear = (r, a, c)" by (metis prod_cases3)
  have r: "r = Accept" and e': "e' = e\<lparr>pe_lifecycle := a, pe_irq80_rearm := c, pe_irq80_event := COMMAND_32,
       pe_irq80_count := pe_irq80_count e + 1\<rparr>"
    using assms(2) p by (cases r; auto simp: a0_irq80_def events_fail_def split: if_split_asm)+
  with irq80_ok(5) [OF assms(1) p [unfolded r]] show ?thesis
    by (simp add: event_move_def)
qed

lemma parse_irq_some:
  "parse_irq m c irq ctx = Some (flags, raw) \<Longrightarrow> control m = c \<and> length (body m) = 16"
  by (auto simp: parse_irq_def Let_def split: if_split_asm)

lemma event_move_parsed:
  assumes "event_move x (e\<lparr>pe_audit := a\<rparr>) e'"
  shows "event_move x e e'"
  using assms by (simp add: event_move_def)

lemma dispatch_accept:
  assumes "adapter_inv (pe_lifecycle e)" "\<not> pe_failed e" "events_get_expected_event e = x"
    and "a0_dispatch env h x m e = (Accept, e')"
  shows "event_message x m" "event_move x e e'"
proof -
  note acc = assms(4)
  have "event_message x m \<and> event_move x e e'"
  proof (cases "is_irq80 x m")
    case True
    with acc a0_irq80_move [OF assms(1)] show ?thesis
      by (auto simp: a0_dispatch_def is_irq80_def event_message_def Let_def)
  next
    case irq80: False
    show ?thesis
    proof (cases "expected_ack_echo x")
      case (Some echo)
      with irq80 acc obtain k where "a0_ack env h x echo m e = (Callback_True, k, e')"
        by (auto simp: a0_dispatch_def dest: a0_out_accept)
      from a0_ack_move [OF assms(1) this assms(3,2)] Some show ?thesis
        by (simp add: event_message_def)
    next
      case None
      consider (down) flags raw where "x = IRQ2" "parse_irq m 0x32 0x0002 FINGER_DOWN = Some (flags, raw)"
        | (zero) "x = IRQ0100" "is_unusable_zero_contact m"
        | (sample) flags raw where "x = IRQ0100" "\<not> is_unusable_zero_contact m"
            "parse_irq m 0x36 0x0100 CONTACT_SAMPLE = Some (flags, raw)"
        | (up) flags raw where "x = IRQ0200" "parse_irq m 0x34 0x0200 FINGER_UP = Some (flags, raw)"
        | (other) "a0_dispatch env h x m e = a0_out x m (Callback_False None, False, e)"
        using irq80 None by (fastforce simp: a0_dispatch_def)
      then show ?thesis
      proof cases
        case down
        with irq80 acc obtain k where "a0_irq2 env h flags raw e = (Callback_True, k, e')"
          by (auto simp: a0_dispatch_def dest: a0_out_accept)
        with a0_irq2_move [OF assms(1)] parse_irq_some [OF down(2)] down(1) show ?thesis
          by (simp add: event_message_def)
      next
        case zero
        with irq80 acc obtain k where "a0_zero_contact env h (drop 4 (body m)) e = (Callback_True, k, e')"
          "zero_recovery_possible e"
          by (auto simp: a0_dispatch_def events_fail_def dest: a0_out_accept split: if_split_asm)
        with a0_zero_contact_move [OF assms(1)] zero show ?thesis
          by (auto simp: event_message_def is_unusable_zero_contact_def Let_def)
      next
        case sample
        with irq80 acc obtain k where "a0_irq0100 env h e = (Callback_True, k, e')"
          by (auto simp: a0_dispatch_def dest: a0_out_accept)
        with a0_irq0100_move [OF assms(1)] parse_irq_some [OF sample(3)] sample(1) show ?thesis
          by (simp add: event_message_def)
      next
        case up
        with irq80 acc obtain k where "a0_irq0200 env h flags raw e = (Callback_True, k, e')"
          by (auto simp: a0_dispatch_def dest: a0_out_accept)
        with a0_irq0200_move [OF assms(1)] parse_irq_some [OF up(2)] up(1) show ?thesis
          by (simp add: event_message_def)
      next
        case other
        with acc show ?thesis by (simp add: a0_out_def events_fail_def split: if_split_asm)
      qed
    qed
  qed
  then show "event_message x m" "event_move x e e'" by simp_all
qed

section \<open>Chunks\<close>

text \<open>The state without the count of chunks, which is all that depends on the chunking.\<close>

definition forget_chunks :: "'u post_tls \<Rightarrow> 'u post_tls" where
  "forget_chunks e = e\<lparr>pe_audit := (pe_audit e)\<lparr>ea_plaintext_chunk := 0\<rparr>\<rparr>"

abbreviation forgetting :: "gerror reply \<times> 'u post_tls \<Rightarrow> gerror reply \<times> 'u post_tls" where
  "forgetting res \<equiv> (fst res, forget_chunks (snd res))"

lemma forget_fields [simp]:
  "pe_lifecycle (forget_chunks e) = pe_lifecycle e" "pe_pending (forget_chunks e) = pe_pending e"
  "pe_failed (forget_chunks e) = pe_failed e" "pe_zero (forget_chunks e) = pe_zero e"
  by (simp_all add: forget_chunks_def)

lemma forget_fail:
  "forgetting (events_fail prior code e) = forgetting (events_fail prior code (forget_chunks e))"
  by (simp add: events_fail_def events_failed_def forget_chunks_def events_close_zero_window_def Let_def)

lemma forget_observe:
  "observe_event env h ev ss raw flags (forget_chunks e) =
     (case observe_event env h ev ss raw flags e of (r, e') \<Rightarrow> (r, forget_chunks e'))"
  by (simp add: observe_event_def forget_chunks_def split: prod.split reply.split)

lemma forget_updates:
  "(forget_chunks e)\<lparr>pe_pending := bs\<rparr> = forget_chunks (e\<lparr>pe_pending := bs\<rparr>)"
  "(forget_chunks e)\<lparr>pe_lifecycle := a\<rparr> = forget_chunks (e\<lparr>pe_lifecycle := a\<rparr>)"
  "(forget_chunks e)\<lparr>pe_pending := bs, pe_audit := (pe_audit (forget_chunks e))\<lparr>ea_primary_decode :=
      ea_primary_decode (pe_audit (forget_chunks e)) + 1\<rparr>\<rparr> =
   forget_chunks (e\<lparr>pe_pending := bs, pe_audit := (pe_audit e)\<lparr>ea_primary_decode := ea_primary_decode (pe_audit e) + 1\<rparr>\<rparr>)"
  "(forget_chunks e)\<lparr>pe_audit := (pe_audit (forget_chunks e))\<lparr>ea_auxiliary_delivery :=
      ea_auxiliary_delivery (pe_audit (forget_chunks e)) + 1\<rparr>\<rparr> =
   forget_chunks (e\<lparr>pe_audit := (pe_audit e)\<lparr>ea_auxiliary_delivery := ea_auxiliary_delivery (pe_audit e) + 1\<rparr>\<rparr>)"
  "(forget_chunks e)\<lparr>pe_audit := (pe_audit (forget_chunks e))\<lparr>ea_primary_b0 :=
      ea_primary_b0 (pe_audit (forget_chunks e)) + 1\<rparr>\<rparr> =
   forget_chunks (e\<lparr>pe_audit := (pe_audit e)\<lparr>ea_primary_b0 := ea_primary_b0 (pe_audit e) + 1\<rparr>\<rparr>)"
  "(forget_chunks e)\<lparr>pe_audit := (pe_audit (forget_chunks e))\<lparr>ea_auxiliary_b0 :=
      ea_auxiliary_b0 (pe_audit (forget_chunks e)) + 1\<rparr>\<rparr> =
   forget_chunks (e\<lparr>pe_audit := (pe_audit e)\<lparr>ea_auxiliary_b0 := ea_auxiliary_b0 (pe_audit e) + 1\<rparr>\<rparr>)"
  by (simp_all add: forget_chunks_def)

lemma forget_twice [simp]: "forget_chunks (forget_chunks e) = forget_chunks e"
  by (simp add: forget_chunks_def)

lemma forgettingE:
  assumes "forgetting res = forgetting res'"
  obtains r e e' where "res = (r, e)" "res' = (r, e')" "forget_chunks e = forget_chunks e'"
  using assms by (metis fst_conv snd_conv prod.collapse)

lemma forget_fail_cong:
  "forget_chunks e = forget_chunks e' \<Longrightarrow>
     forgetting (events_fail prior code e) = forgetting (events_fail prior code e')"
  using forget_fail [of prior code e] forget_fail [of prior code e'] by simp

lemma forget_primary:
  "forgetting (events_handle_primary_samples env h ss (forget_chunks e)) =
     forgetting (events_handle_primary_samples env h ss e)"
proof -
  obtain r e1 where o: "observe_event env h PRIMARY_B0 ss None 0 e = (r, e1)" by (metis surj_pair)
  show ?thesis
    unfolding events_handle_primary_samples_def forget_observe o prod.case forget_fields
    using forget_fail_cong [of "forget_chunks e" e] forget_fail_cong [of "forget_chunks e1" e1]
    by (cases r) (simp_all only: callback_reply.case forget_updates(5) forget_twice if_distrib [of fst]
        if_distrib [of snd] if_distrib [of forget_chunks] fst_conv snd_conv prod.inject simp_thms split: if_split)
qed

lemma forget_auxiliary:
  "forgetting (events_handle_auxiliary_b0 env h (forget_chunks e)) =
     forgetting (events_handle_auxiliary_b0 env h e)"
proof -
  obtain r e1 where o: "observe_event env h AUXILIARY_B0 None None 0 e = (r, e1)" by (metis surj_pair)
  show ?thesis
    unfolding events_handle_auxiliary_b0_def forget_observe o prod.case forget_fields
    using forget_fail_cong [of "forget_chunks e" e] forget_fail_cong [of "forget_chunks e1" e1]
    by (cases r) (simp_all only: callback_reply.case forget_updates(6) forget_twice if_distrib [of fst]
        if_distrib [of snd] if_distrib [of forget_chunks] fst_conv snd_conv prod.inject simp_thms split: if_split)
qed

lemma forget_pending_cong:
  "forget_chunks e = forget_chunks e' \<Longrightarrow>
     forget_chunks (e\<lparr>pe_pending := bs\<rparr>) = forget_chunks (e'\<lparr>pe_pending := bs\<rparr>)"
  by (simp flip: forget_updates(1))

lemma forget_complete_primary:
  "forgetting (complete_primary stack env h (forget_chunks e)) = forgetting (complete_primary stack env h e)"
proof -
  obtain r ss x where d: "image_decode_plaintext stack (Some (pe_pending e)) (Some stack)
      (Some audit_cleared) = (r, ss, x)" by (metis prod_cases3)
  define e1 where "e1 = e\<lparr>pe_pending := [], pe_audit := (pe_audit e)\<lparr>ea_primary_decode := ea_primary_decode (pe_audit e) + 1\<rparr>\<rparr>"
  obtain q e2 e2' where p: "events_handle_primary_samples env h ss (forget_chunks e1) = (q, e2)"
    "events_handle_primary_samples env h ss e1 = (q, e2')" "forget_chunks e2 = forget_chunks e2'"
    by (rule forgettingE [OF forget_primary [of env h ss e1]])
  note cong = forget_pending_cong [OF p(3), of "[]"]
  show ?thesis
    unfolding complete_primary_def forget_fields d prod.case forget_updates(3) e1_def [symmetric] p
    using forget_fail_cong [OF cong] cong
      forget_fail_cong [of "(forget_chunks e)\<lparr>pe_pending := []\<rparr>" "e\<lparr>pe_pending := []\<rparr>"]
    by (cases r; cases q) (simp_all add: forget_updates(1))
qed

lemma forget_complete_auxiliary:
  "forgetting (complete_auxiliary env h (forget_chunks e)) = forgetting (complete_auxiliary env h e)"
proof -
  obtain r u where d: "h_auxiliary h (pe_pending e) (adapter_user (pe_lifecycle e)) = (r, u)"
    by (metis surj_pair)
  define e0 where "e0 = e\<lparr>pe_lifecycle := set_user u (pe_lifecycle e), pe_pending := []\<rparr>"
  define e1 where "e1 = e0\<lparr>pe_audit := (pe_audit e0)\<lparr>ea_auxiliary_delivery := ea_auxiliary_delivery (pe_audit e0) + 1\<rparr>\<rparr>"
  have e0: "(forget_chunks e)\<lparr>pe_lifecycle := set_user u (pe_lifecycle e), pe_pending := []\<rparr> = forget_chunks e0"
    by (simp add: e0_def forget_updates(1,2))
  obtain q e2 e2' where p: "events_handle_auxiliary_b0 env h (forget_chunks e1) = (q, e2)"
    "events_handle_auxiliary_b0 env h e1 = (q, e2')" "forget_chunks e2 = forget_chunks e2'"
    by (rule forgettingE [OF forget_auxiliary [of env h e1]])
  show ?thesis
    unfolding complete_auxiliary_def forget_fields d prod.case Let_def e0 e0_def [symmetric]
      forget_updates(4) e1_def [symmetric] p
    using forget_fail_cong [OF p(3)] p(3) forget_fail_cong [of "forget_chunks e0" e0]
    by (cases r; cases q) simp_all
qed

text \<open>A complete B0 message for a slot.\<close>

definition b0_message :: "enrollment_event \<Rightarrow> bytes \<Rightarrow> bool" where
  "b0_message x msg \<longleftrightarrow>
     4 \<le> length msg \<and> length msg \<le> B0_MAX_PLAINTEXT_LENGTH \<and>
     length msg = unat (le16 (msg ! 1) (msg ! 2)) + 3 \<and>
     (x = PRIMARY_B0 \<longrightarrow> length msg = PLAINTEXT_LENGTH)"

definition b0_slot :: "'u post_tls \<Rightarrow> bool" where
  "b0_slot e \<longleftrightarrow> \<not> pe_failed e \<and> events_get_expected_event e \<in> {PRIMARY_B0, AUXILIARY_B0}"

definition with_chunk :: "bytes \<Rightarrow> 'u post_tls \<Rightarrow> 'u post_tls" where
  "with_chunk bs e = e\<lparr>pe_pending := pe_pending e @ bs,
     pe_audit := (pe_audit e)\<lparr>ea_plaintext_chunk := ea_plaintext_chunk (pe_audit e) + 1\<rparr>\<rparr>"

definition with_message :: "'u post_tls \<Rightarrow> 'u post_tls" where
  "with_message e = e\<lparr>pe_audit := (pe_audit e)\<lparr>ea_completed_b0 := ea_completed_b0 (pe_audit e) + 1\<rparr>\<rparr>"

lemma chunk_unfold:
  assumes "b0_slot e" "bs \<noteq> []" "pe_pending e @ bs @ rest = msg" "b0_message (events_get_expected_event e) msg"
  shows "events_handle_plaintext_chunk stack env h (Some bs) e =
    (if rest \<noteq> [] then (Accept, with_chunk bs e)
     else if events_get_expected_event e = PRIMARY_B0
     then complete_primary stack env h (with_message (with_chunk bs e))
     else complete_auxiliary env h (with_message (with_chunk bs e)))"
proof -
  let ?p = "pe_pending e @ bs"
  have lens: "length ?p + length rest = length msg" using assms(3) by auto
  have msg: "4 \<le> length msg" "length msg \<le> 8192" "length msg = unat (le16 (msg ! 1) (msg ! 2)) + 3"
    "events_get_expected_event e = PRIMARY_B0 \<longrightarrow> length msg = PLAINTEXT_LENGTH"
    using assms(4) unfolding b0_message_def by blast+
  have fit: "\<not> (length bs = 0 \<or> length bs > 8192 \<or> length (pe_pending e) > 8192 - length bs)"
    using lens msg(2) assms(2) by simp
  have slot: "\<not> pe_failed e" "\<not> (events_get_expected_event e \<noteq> PRIMARY_B0 \<and> events_get_expected_event e \<noteq> AUXILIARY_B0)"
    using assms(1) by (auto simp: b0_slot_def)
  have pend: "pe_pending (with_chunk bs e) = ?p" by (simp add: with_chunk_def)
  have declared: "le16 (?p ! 1) (?p ! 2) = le16 (msg ! 1) (msg ! 2)" if "3 \<le> length ?p"
  proof -
    have "msg = ?p @ rest" using assms(3) by simp
    then show ?thesis using that by (simp add: nth_append del: append_assoc)
  qed
  have pos: "le16 (msg ! 1) (msg ! 2) \<noteq> 0"
    using msg(1,3) by auto
  have rest: "length ?p < length msg \<longleftrightarrow> rest \<noteq> []" using lens by (cases rest) auto
  show ?thesis
  proof (cases "length ?p < 3")
    case True
    with rest msg(1) slot(1) fit show ?thesis
      unfolding events_handle_plaintext_chunk_def option.case Let_def with_chunk_def [symmetric] pend
        if_not_P [OF slot(2)]
      by simp
  next
    case False
    then have "unat (le16 (?p ! 1) (?p ! 2)) + 3 = length msg" "le16 (?p ! 1) (?p ! 2) \<noteq> 0"
      using declared msg(3) pos by auto
    then have "events_handle_plaintext_chunk stack env h (Some bs) e =
        (if length ?p < length msg then (Accept, with_chunk bs e)
         else if events_get_expected_event e = PRIMARY_B0
         then complete_primary stack env h (with_message (with_chunk bs e))
         else complete_auxiliary env h (with_message (with_chunk bs e)))"
      using False msg(2,4) slot(1) fit lens
      unfolding events_handle_plaintext_chunk_def option.case Let_def with_chunk_def [symmetric]
        with_message_def [symmetric] pend if_not_P [OF slot(2)]
      by auto
    then show ?thesis by (simp only: rest)
  qed
qed

lemma with_chunk_same:
  "b0_slot (with_chunk bs e) = b0_slot e"
  "events_get_expected_event (with_chunk bs e) = events_get_expected_event e"
  "pe_pending (with_chunk bs e) = pe_pending e @ bs"
  by (simp_all add: with_chunk_def b0_slot_def events_get_expected_event_def)

lemma with_chunk_twice:
  "forget_chunks (with_message (with_chunk cs (with_chunk bs e))) =
     forget_chunks (with_message (with_chunk (bs @ cs) e))"
  by (simp add: forget_chunks_def with_chunk_def with_message_def)

lemma complete_cong:
  assumes "forget_chunks e = forget_chunks e'"
  shows "forgetting (complete_primary stack env h e) = forgetting (complete_primary stack env h e')"
    "forgetting (complete_auxiliary env h e) = forgetting (complete_auxiliary env h e')"
  using assms forget_complete_primary forget_complete_auxiliary by metis+

lemma chunks_run:
  assumes "cs \<noteq> []" "[] \<notin> set cs" "b0_slot e"
    and "b0_message (events_get_expected_event e) (pe_pending e @ concat cs)"
  shows "\<exists>r e1 e2. run_ops (events_machine h) (map (\<lambda>c. Events_Chunk stack env (Some c)) cs) e =
      (replicate (length cs - 1) Accept @ [r], e1) \<and>
    events_handle_plaintext_chunk stack env h (Some (concat cs)) e = (r, e2) \<and>
    forget_chunks e1 = forget_chunks e2"
  using assms
proof (induction cs arbitrary: e rule: list_nonempty_induct)
  case (single c)
  then show ?case
    by (cases "events_handle_plaintext_chunk stack env h (Some c) e") (simp add: run_ops.simps(2))
next
  case (cons c cs)
  let ?x = "events_get_expected_event e"
  let ?e1 = "with_chunk c e"
  have ne: "concat cs \<noteq> []" "c \<noteq> []"
    using cons.prems(1) cons.hyps by (cases cs; auto)+
  have one: "events_handle_plaintext_chunk stack env h (Some c) e = (Accept, ?e1)"
    using chunk_unfold [OF cons.prems(2) ne(2), of "concat cs"] cons.prems(3) ne(1) by simp
  obtain r f1 f2 where ih: "run_ops (events_machine h) (map (\<lambda>c. Events_Chunk stack env (Some c)) cs) ?e1 =
      (replicate (length cs - 1) Accept @ [r], f1)"
    "events_handle_plaintext_chunk stack env h (Some (concat cs)) ?e1 = (r, f2)"
    "forget_chunks f1 = forget_chunks f2"
    using cons.IH [of ?e1] cons.prems by (auto simp: with_chunk_same)
  obtain r' g where whole: "events_handle_plaintext_chunk stack env h (Some (concat (c # cs))) e = (r', g)"
    by (metis surj_pair)
  have last: "events_handle_plaintext_chunk stack env h (Some (concat cs)) ?e1 =
      (if ?x = PRIMARY_B0 then complete_primary stack env h (with_message (with_chunk (concat cs) ?e1))
       else complete_auxiliary env h (with_message (with_chunk (concat cs) ?e1)))"
    using chunk_unfold [of ?e1 "concat cs" "[]"] cons.prems ne by (simp add: with_chunk_same)
  have all: "events_handle_plaintext_chunk stack env h (Some (concat (c # cs))) e =
      (if ?x = PRIMARY_B0 then complete_primary stack env h (with_message (with_chunk (c @ concat cs) e))
       else complete_auxiliary env h (with_message (with_chunk (c @ concat cs) e)))"
    using chunk_unfold [of e "c @ concat cs" "[]"] cons.prems ne by simp
  have "forgetting (r, f2) = forgetting (r', g)"
    unfolding ih(2) [symmetric] whole [symmetric] last all
    using complete_cong [OF with_chunk_twice [of "concat cs" c e]] by simp
  then have "r' = r" "forget_chunks f1 = forget_chunks g" using ih(3) by simp_all
  moreover have "Accept # replicate (length cs - 1) Accept @ [r] = replicate (length (c # cs) - 1) Accept @ [r]"
    using cons.hyps by (cases cs) simp_all
  ultimately show ?case
    using one ih(1) whole by (auto simp: run_ops.simps(2))
qed

section \<open>A session up to a recovered contact\<close>

text \<open>
  The session on which the properties are exercised: a first contact with its navigation,
  a second contact that ends in an interrupt without touch channels. The two images are
  arguments of the evaluation, so that no image is ever computed.
\<close>

definition three_contacts :: model_config where
  "three_contacts = \<lparr>cfg_required_stage_count = 3, cfg_max_physical_stage_count = 0,
     cfg_defer_terminal_stage_delivery = False, cfg_defer_terminal_until_release_ready = True,
     cfg_defer_intermediate_until_release_ready = True\<rparr>"

definition quiet :: "unit handlers" where
  "quiet = \<lparr>h_image = plain_consumer, h_timestamp = steady_clock,
     h_auxiliary = (\<lambda>bs u. (Callback_True, u)), h_contact = (\<lambda>n b u. (Callback_True, u))\<rparr>"

text \<open>A short frame, laid out byte by byte.\<close>

definition wire :: "u8 \<Rightarrow> bytes \<Rightarrow> events_call" where
  "wire ctl bs = (let n = of_nat (length bs) in
     Events_A0 plenty (Some ([0xa0, n + 4, 0, n + 0xa4, ctl, n + 1, 0] @ bs @ [inner_checksum ctl bs])))"

definition exchange :: "enrollment_event \<Rightarrow> u8 \<Rightarrow> events_call list" where
  "exchange command echo = [Events_Prepare, Events_Commit plenty command, wire 0xb0 [echo, 1]]"

definition touch :: "events_call list" where
  "touch = wire 0x32 ([2, 0, 1, 0] @ touch_report) # exchange COMMAND_22 0x22"

definition flat_raster :: "u16 list" where
  "flat_raster = replicate IMAGE_SAMPLES 5"

text \<open>What handing over a primary image does to a session that waits for it.\<close>

definition with_image :: "'u handlers \<Rightarrow> fpimage_pipeline \<Rightarrow> 'u post_tls \<Rightarrow> gerror reply \<times> 'u post_tls" where
  "with_image h img e =
     (let a = pe_lifecycle e; plan = la_plan a; (m, p, u) = cp_pipeline plan;
          (r, pipeline) = pipeline_feed_model (h_image h) PRIMARY_B0
            (m, p\<lparr>pl_retry := False, pl_pending := Some img,
               pl_audit := (pl_audit p)\<lparr>pa_construct := pa_construct (pl_audit p) + 1\<rparr>\<rparr>, u)
      in (r, e\<lparr>pe_lifecycle := a\<lparr>la_plan := plan\<lparr>cp_pipeline := pipeline, cp_last_event := PRIMARY_B0\<rparr>\<rparr>,
           pe_audit := (pe_audit e)\<lparr>ea_primary_b0 := ea_primary_b0 (pe_audit e) + 1\<rparr>\<rparr>))"

definition image_awaited :: "'u post_tls \<Rightarrow> bool" where
  "image_awaited e \<longleftrightarrow>
     (let a = pe_lifecycle e; plan = la_plan a; (m, p, u) = cp_pipeline plan in
      \<not> pe_failed e \<and> pe_pending e = [] \<and> \<not> la_failed a \<and> la_cached a = None \<and> \<not> cp_failed plan \<and>
      \<not> pl_failed p \<and> \<not> m_complete m \<and> m_expected m = PRIMARY_B0 \<and> pl_pending p = None)"

lemma primary_hands_over:
  assumes "image_awaited e" "fpimage_pipeline_new env (Some ss) None = (FPIMAGE_PIPELINE_OK, Some img)"
    and "length ss = IMAGE_SAMPLES" "fst (with_image h img e) = Accept"
  shows "snd (events_handle_primary_samples env h (Some ss) e) = snd (with_image h img e)"
proof -
  obtain m p u where mpu: "cp_pipeline (la_plan (pe_lifecycle e)) = (m, p, u)" by (metis prod_cases3)
  have ss: "ss \<noteq> []" using assms(3) by auto
  obtain r q where f: "pipeline_feed_model (h_image h) PRIMARY_B0
      (m, p\<lparr>pl_retry := False, pl_pending := Some img,
         pl_audit := (pl_audit p)\<lparr>pa_construct := pa_construct (pl_audit p) + 1\<rparr>\<rparr>, u) = (r, q)"
    by (metis surj_pair)
  have r: "r = Accept" using assms(4) f mpu by (simp add: with_image_def Let_def)
  have "pipeline_feed env (h_image h) PRIMARY_B0 (Some ss) (m, p, u) = (Accept, q)"
    using assms(1-3) mpu f r
    by (simp add: pipeline_feed_def image_awaited_def Let_def fpimage_pipeline_check_ppmm_requirement_def)
  with assms(1) mpu ss f r show ?thesis
    by (simp add: events_handle_primary_samples_def observe_event_def lifecycle_adapter_observe_def
        payload_contract_valid_def observe_fdt_def command_plan_observe_def command_plan_is_complete_def
        is_command_event_def image_awaited_def with_image_def Let_def)
qed

definition first_touch :: "unit post_tls" where
  "first_touch = snd (run_ops (events_machine quiet) (Events_Enable_Zero # touch)
     (projr (post_tls_events_new three_contacts ())))"

definition first_release :: "events_call list" where
  "first_release = exchange COMMAND_34 0x34 @ [wire 0x34 ([0, 2, 0, 0] @ touch_report)] @
     exchange COMMAND_20 0x20 @ [Events_Auxiliary plenty] @ exchange COMMAND_32 0x32 @
     exchange COMMAND_50 0x50"

definition nav_awaited :: "fpimage_pipeline \<Rightarrow> unit post_tls" where
  "nav_awaited img = snd (run_ops (events_machine quiet) first_release (snd (with_image quiet img first_touch)))"

definition nav_frame :: bytes where
  "nav_frame = [0xa0, 0x6d, 0x09, 0x16, 0x50, 0x6a, 0x09, 0x50, 0x01] @ replicate 2407 0 @ [0x88]"

lemma nav_frame_valid: "parse_nav_no_check nav_frame"
  by (simp add: parse_nav_no_check_def nav_frame_def le16_def nth_append)

definition past_nav :: "unit post_tls \<Rightarrow> unit post_tls" where
  "past_nav e = snd (a0_out NAV \<lparr>control = 0, body = []\<rparr> (a0_nav plenty quiet e))"

lemma nav_step:
  assumes "\<not> pe_failed e \<and> pe_pending e = [] \<and> events_get_expected_event e = NAV"
  shows "snd (events_machine quiet (Events_A0 plenty (Some nav_frame)) e) = past_nav e"
  using assms nav_frame_valid by (simp add: events_handle_a0_def past_nav_def)

definition second_touch :: "fpimage_pipeline \<Rightarrow> unit post_tls" where
  "second_touch img = snd (run_ops (events_machine quiet) (exchange COMMAND_32 0x32 @ touch)
     (past_nav (nav_awaited img)))"

definition probed :: "fpimage_pipeline \<Rightarrow> fpimage_pipeline \<Rightarrow> unit post_tls" where
  "probed img img' = snd (run_ops (events_machine quiet)
     (exchange COMMAND_34 0x34 @ exchange COMMAND_36 0x36)
     (snd (with_image quiet img' (second_touch img))))"

definition recovered :: "fpimage_pipeline \<Rightarrow> fpimage_pipeline \<Rightarrow> unit post_tls" where
  "recovered img img' = snd (events_machine quiet (wire 0x36 ([0, 1, 0, 0] @ touch_report)) (probed img img'))"

definition flat_image :: fpimage_pipeline where
  "flat_image = the (snd (fpimage_pipeline_new plenty (Some flat_raster) None))"

lemma flat_image_new:
  "fpimage_pipeline_new plenty (Some flat_raster) None = (FPIMAGE_PIPELINE_OK, Some flat_image)"
  by (simp add: flat_image_def fpimage_pipeline_new_def plenty_def flat_raster_def u16_to_fpimage_def
      list_ex_iff Let_def fp_image_new_def)

lemma image_step:
  assumes "image_awaited e" "fst (with_image quiet flat_image e) = Accept"
  shows "snd (events_machine quiet (Events_Primary plenty (Some flat_raster)) e) =
    snd (with_image quiet flat_image e)"
  using primary_hands_over [OF assms(1) flat_image_new _ assms(2)] by (simp add: flat_raster_def)

definition session_start :: "unit post_tls" where
  "session_start = projr (post_tls_events_new three_contacts ())"

lemma session_new: "post_tls_events_new three_contacts () = Inr session_start"
  by (simp add: session_start_def post_tls_events_new_def lifecycle_adapter_new_def command_plan_new_def
      pipeline_new_def enrollment_model_new_def three_contacts_def effective_max_def)

lemma first_touch_ready: "image_awaited first_touch \<and> events_get_expected_event first_touch = PRIMARY_B0"
  by code_simp

lemma first_image_fed: "fst (with_image quiet img first_touch) = Accept"
  by code_simp

lemma nav_awaited_ready: "\<not> pe_failed (nav_awaited img) \<and> pe_pending (nav_awaited img) = [] \<and>
    events_get_expected_event (nav_awaited img) = NAV"
  by code_simp

lemma second_touch_ready: "image_awaited (second_touch img) \<and>
    fst (with_image quiet img' (second_touch img)) = Accept"
  by code_simp

lemma recovered_ready: "za_awaiting_sample_request (pe_zero (recovered img img'))"
  by code_simp

lemma recovered_open: "\<not> pe_failed (recovered img img') \<and> za_stale_window_open (pe_zero (recovered img img'))"
  by code_simp

lemma reach_first_touch: "reach (events_machine quiet) session_start first_touch"
  unfolding first_touch_def session_start_def by (intro reach_run_ops reach_start)

lemma reach_nav_awaited: "reach (events_machine quiet) session_start (nav_awaited flat_image)"
  unfolding nav_awaited_def
  by (intro reach_run_ops reach_step [OF reach_first_touch,
      of "Events_Primary plenty (Some flat_raster)",
      unfolded image_step [OF conjunct1 [OF first_touch_ready] first_image_fed]])

lemma reach_second_touch: "reach (events_machine quiet) session_start (second_touch flat_image)"
  unfolding second_touch_def
  by (intro reach_run_ops reach_step [OF reach_nav_awaited, of "Events_A0 plenty (Some nav_frame)",
      unfolded nav_step [OF nav_awaited_ready]])

lemma reach_recovered: "reach (events_machine quiet) session_start (recovered flat_image flat_image)"
  unfolding recovered_def probed_def
  by (intro reach_step reach_run_ops reach_step [OF reach_second_touch,
      of "Events_Primary plenty (Some flat_raster)",
      unfolded image_step [OF conjunct1 [OF second_touch_ready] conjunct2 [OF second_touch_ready]]])

section \<open>Properties\<close>

text \<open>
  Claim C15. Authenticity of an accepted frame: in every reachable state, a frame that is
  accepted is either the device's fixed NAV frame, when the session waits for it, or a
  well-formed A0 frame whose control and body are those of the expected event; and the
  session moves by exactly one step of the enrollment protocol for that event (or for the
  recovery of a contact without touch channels, when that is enabled), or keeps its place in
  the IRQ0080 rearm exception.
\<close>

theorem accepted_frame_authentic:
  assumes "post_tls_events_new config u = Inr start" "reach (events_machine h) start e"
    and "events_handle_a0 env h (Some d) e = (Accept, e')"
  shows "(events_get_expected_event e = NAV \<and> parse_nav_no_check d \<or>
      (\<exists>m. a0_build_frame (control m) (d ! 4) (body m) = Inr d \<and>
         event_message (events_get_expected_event e) m)) \<and>
    event_move (events_get_expected_event e) e e'"
proof -
  let ?x = "events_get_expected_event e"
  have ad: "adapter_inv (pe_lifecycle e)"
    using events_invD [OF events_reach_inv [OF assms(1,2)]] by (simp add: events_base_def)
  have live: "\<not> pe_failed e" "pe_pending e = []"
    using assms(3) by (auto simp: events_handle_a0_def events_fail_def split: if_split_asm)
  show ?thesis
  proof (cases "?x = NAV")
    case True
    with assms(3) live obtain k where "parse_nav_no_check d" "a0_nav env h e = (Callback_True, k, e')"
      by (auto simp: events_handle_a0_def events_fail_def Let_def dest: a0_out_accept split: if_split_asm)
    with a0_nav_move [OF ad] True show ?thesis by simp
  next
    case False
    let ?e1 = "e\<lparr>pe_audit := (pe_audit e)\<lparr>ea_parsed_a0 := ea_parsed_a0 (pe_audit e) + 1\<rparr>\<rparr>"
    obtain m where m: "a0_parse_frame (Some d) (d ! 4) = Inr m" "a0_dispatch env h ?x m ?e1 = (Accept, e')"
      using assms(3) live False
      by (cases "a0_parse_frame (Some d) (d ! 4)")
         (auto simp: events_handle_a0_def events_fail_def Let_def split: if_split_asm)
    have "events_get_expected_event ?e1 = ?x"
      by (simp add: events_get_expected_event_def)
    with dispatch_accept [of ?e1 ?x env h m e'] ad live(1) m(2)
    have "event_message ?x m" "event_move ?x ?e1 e'" by simp_all
    with a0_parse_sound [OF m(1)] event_move_parsed show ?thesis by blast
  qed
qed

lemma accepted_frame_authentic_witness:
  "events_get_expected_event session_start = IRQ2 \<and>
   (\<exists>d e'. events_handle_a0 plenty quiet (Some d) session_start = (Accept, e') \<and>
     event_move IRQ2 session_start e')"
proof -
  define d where "d = [0xa0, 20, 0, 0xb4, 0x32, 17, 0] @ ([2, 0, 1, 0] @ touch_report) @
    [inner_checksum 0x32 ([2, 0, 1, 0] @ touch_report)]"
  have "fst (events_handle_a0 plenty quiet (Some d) session_start) = Accept"
    unfolding d_def session_start_def by code_simp
  then obtain e' where e': "events_handle_a0 plenty quiet (Some d) session_start = (Accept, e')"
    by (metis prod.collapse)
  have x: "events_get_expected_event session_start = IRQ2"
    unfolding session_start_def by code_simp
  from accepted_frame_authentic [OF session_new reach_start e'] x e' show ?thesis by auto
qed

text \<open>
  State invariant of the inbound side: at most two IRQ0080 rearms per wait, and a
  rearm only while the session waits for IRQ2; never more than 8192 bytes of plaintext held,
  and only in a B0 slot; the late-release window open only around the rearm that follows a
  recovered contact; a failed session holds no plaintext, no rearm and no open window.
\<close>

theorem inbound_state_bounded:
  assumes "post_tls_events_new config u = Inr start" "reach (events_machine h) start e"
  shows "length (pe_pending e) \<le> B0_MAX_PLAINTEXT_LENGTH \<and>
    (pe_failed e \<longrightarrow> pe_pending e = [] \<and> pe_irq80_event e = EVENT_NONE \<and>
      \<not> za_stale_window_open (pe_zero e) \<and> \<not> za_awaiting_sample_request (pe_zero e)) \<and>
    (\<not> pe_failed e \<longrightarrow>
      pe_irq80_count e \<le> IRQ80_PER_WAIT_LIMIT \<and>
      (pe_pending e \<noteq> [] \<longrightarrow> p_event (adapter_position (pe_lifecycle e)) \<in> {PRIMARY_B0, AUXILIARY_B0}) \<and>
      (pe_irq80_event e \<noteq> EVENT_NONE \<longrightarrow> p_event (adapter_position (pe_lifecycle e)) = IRQ2) \<and>
      (za_stale_window_open (pe_zero e) \<longrightarrow> in_zero_window (adapter_position (pe_lifecycle e))))"
proof -
  have inv: "events_inv e" by (rule events_reach_inv [OF assms])
  show ?thesis
  proof (cases "pe_failed e")
    case True
    then have "frozen e" using inv by (simp add: events_inv_def events_base_def)
    then have "pe_pending e = []" "pe_irq80_event e = EVENT_NONE"
      "\<not> za_stale_window_open (pe_zero e)" "\<not> za_awaiting_sample_request (pe_zero e)"
      unfolding frozen_def close_zero_def by (auto simp: zero_audit.ext_inject dest: arg_cong [of _ _ za_stale_window_open] arg_cong [of _ _ za_awaiting_sample_request])
    with True show ?thesis by simp
  next
    case False
    with inv show ?thesis
      by (simp add: events_inv_def irq80_ok_state_def zero_ok_state_def pending_ok_state_def)
  qed
qed

lemma inbound_state_bounded_witness:
  "in_zero_window (adapter_position (pe_lifecycle (recovered flat_image flat_image)))"
  using inbound_state_bounded [OF session_new reach_recovered] recovered_open by auto

text \<open>
  The late-release window is safe: in every reachable state, a frame consumed as a
  late release is a release frame with a zero mask, at most one is accepted per window, the
  session was not waiting for a release, and neither its position nor its plaintext nor its
  prepared command changes.
\<close>

theorem late_release_harmless:
  assumes "post_tls_events_new config u = Inr start" "reach (events_machine h) start e"
    and "events_consume_stale_release (Some d) e = (Accept, True, e')"
  shows "(\<exists>bs. a0_build_frame 0x34 0x34 bs = Inr d \<and> is_late_release bs) \<and>
    \<not> za_late_seen (pe_zero e) \<and> za_late_seen (pe_zero e') \<and>
    p_event (adapter_position (pe_lifecycle e)) \<noteq> IRQ0200 \<and>
    pe_lifecycle e' = pe_lifecycle e \<and> pe_pending e' = pe_pending e \<and>
    events_get_expected_event e' = events_get_expected_event e \<and>
    (\<exists>x e''. events_consume_stale_release (Some d) e' = (Reject x, True, e'') \<and> pe_failed e'')"
proof -
  have inv: "events_inv e" by (rule events_reach_inv [OF assms(1,2)])
  obtain m where live: "\<not> pe_failed e" and "open": "za_stale_window_open (pe_zero e)"
    and wire: "\<not> length d < 5" "d ! 4 = 0x34" and m: "a0_parse_frame (Some d) 0x34 = Inr m"
    and late: "is_late_release (body m)" "\<not> za_late_seen (pe_zero e)"
    and e': "e' = e\<lparr>pe_zero := (pe_zero e)\<lparr>za_late_seen := True,
                          za_late_release := za_late_release (pe_zero e) + 1\<rparr>,
                        pe_audit := (pe_audit e)\<lparr>ea_parsed_a0 := ea_parsed_a0 (pe_audit e) + 1\<rparr>\<rparr>"
    using assms(3)
    by (cases "a0_parse_frame (Some d) 0x34")
       (auto simp: events_consume_stale_release_def events_fail_def case_prod_beta split: if_split_asm)
  have "control m = 0x34" using m wire(2) by (simp add: a0_parse_Inr_iff)
  then have "a0_build_frame 0x34 0x34 (body m) = Inr d" using a0_parse_sound [OF m] by simp
  moreover have "p_event (adapter_position (pe_lifecycle e)) \<noteq> IRQ0200"
    using inv live "open" by (auto simp: events_inv_def zero_ok_state_def in_zero_window_def)
  moreover have "\<exists>x e''. events_consume_stale_release (Some d) e' = (Reject x, True, e'') \<and> pe_failed e''"
    using live "open" wire m
    by (simp add: e' events_consume_stale_release_def events_fail_def events_failed_def Let_def
        events_close_zero_window_def)
  ultimately show ?thesis
    using late by (auto simp: e' events_get_expected_event_def)
qed

definition late_release :: bytes where
  "late_release = [0xa0, 20, 0, 0xb4, 0x34, 17, 0] @ ([0, 2, 0, 0] @ touch_report) @
    [inner_checksum 0x34 ([0, 2, 0, 0] @ touch_report)]"

lemma late_release_consumed:
  "case events_consume_stale_release (Some late_release) (recovered img img') of
     (r, handled, e') \<Rightarrow> r = Accept \<and> handled"
  by code_simp

lemma late_release_harmless_witness:
  "\<exists>e'. events_consume_stale_release (Some late_release) (recovered flat_image flat_image) = (Accept, True, e') \<and>
     pe_lifecycle e' = pe_lifecycle (recovered flat_image flat_image)"
proof -
  obtain e' where e': "events_consume_stale_release (Some late_release) (recovered flat_image flat_image) =
      (Accept, True, e')"
    using late_release_consumed [of flat_image flat_image] by (auto split: prod.splits)
  with late_release_harmless [OF session_new reach_recovered e'] show ?thesis by auto
qed

text \<open>
  The gate after a recovered contact is live and exact: in every reachable state
  that awaits the next sample request, no command can be prepared, the request is accepted,
  and afterwards the rearm command is prepared as soon as the lifecycle prepares it.
\<close>

theorem sample_request_gate:
  assumes "post_tls_events_new config u = Inr start" "reach (events_machine h) start e"
    and "za_awaiting_sample_request (pe_zero e)"
  shows "fst (events_prepare h e) \<noteq> Accept \<and>
    (\<exists>e'. events_request_zero_sample e = (Accept, e') \<and>
      \<not> za_awaiting_sample_request (pe_zero e') \<and> pe_lifecycle e' = pe_lifecycle e \<and>
      events_get_expected_event e' = COMMAND_32 \<and>
      (fst (lifecycle_adapter_prepare (h_timestamp h) (pe_lifecycle e)) = Accept \<longrightarrow>
         fst (events_prepare h e') = Accept))"
proof -
  have inv: "events_inv e" by (rule events_reach_inv [OF assms(1,2)])
  have live: "\<not> pe_failed e"
  proof
    assume "pe_failed e"
    then have "pe_zero e = close_zero (pe_zero e)"
      using inv by (simp add: events_inv_def events_base_def frozen_def)
    then have "za_awaiting_sample_request (pe_zero e) = za_awaiting_sample_request (close_zero (pe_zero e))"
      by (rule arg_cong)
    with assms(3) show False by (simp add: close_zero_def)
  qed
  with inv assms(3) have pos: "p_event (adapter_position (pe_lifecycle e)) = COMMAND_32"
    "pe_irq80_event e = EVENT_NONE" "pe_pending e = []"
    by (auto simp: events_inv_def irq80_ok_state_def zero_ok_state_def pending_ok_state_def)
  then have x: "events_get_expected_event e = COMMAND_32"
    using events_expected [OF inv live] by simp
  have refused: "fst (events_prepare h e) \<noteq> Accept"
    using assms(3) by (simp add: events_prepare_def events_fail_def)
  let ?e' = "e\<lparr>pe_zero := (pe_zero e)\<lparr>za_awaiting_sample_request := False\<rparr>\<rparr>"
  have "events_request_zero_sample e = (Accept, ?e')"
    using live assms(3) x by (simp add: events_request_zero_sample_def)
  moreover have "fst (events_prepare h ?e') = Accept"
    if "fst (lifecycle_adapter_prepare (h_timestamp h) (pe_lifecycle e)) = Accept"
    using that live pos
    by (cases "lifecycle_adapter_prepare (h_timestamp h) (pe_lifecycle e)") (simp add: events_prepare_def)
  ultimately show ?thesis
    using refused x live pos by (auto simp: events_get_expected_event_def)
qed

lemma sample_request_gate_witness:
  "fst (events_prepare quiet (recovered flat_image flat_image)) \<noteq> Accept"
  using sample_request_gate [OF session_new reach_recovered recovered_ready] by simp

text \<open>
  Claim C16. Reassembly does not depend on how TLS cut the plaintext: delivering a complete
  B0 message in any non-empty chunks accepts every chunk but the last, and gives for the last
  the reply, and at the end the state (the number of chunks seen apart), that delivering it
  in one piece gives.
\<close>

theorem chunking_irrelevant:
  assumes "cs \<noteq> []" "[] \<notin> set cs" "b0_slot e" "pe_pending e = []"
    and "b0_message (events_get_expected_event e) (concat cs)"
  shows "\<exists>r e1 e2. run_ops (events_machine h) (map (\<lambda>c. Events_Chunk stack env (Some c)) cs) e =
      (replicate (length cs - 1) Accept @ [r], e1) \<and>
    events_handle_plaintext_chunk stack env h (Some (concat cs)) e = (r, e2) \<and>
    forget_chunks e1 = forget_chunks e2"
  by (rule chunks_run [OF assms(1-3)]) (simp add: assms(4,5))

definition some_chunks :: "bytes list" where
  "some_chunks = [[0], [10], [30, 0], replicate 7689 0]"

lemma chunking_irrelevant_witness:
  "\<exists>r e1 e2. run_ops (events_machine quiet)
      (map (\<lambda>c. Events_Chunk [] plenty (Some c)) some_chunks) first_touch = ([Accept, Accept, Accept, r], e1) \<and>
    events_handle_plaintext_chunk [] plenty quiet (Some (concat some_chunks)) first_touch = (r, e2) \<and>
    forget_chunks e1 = forget_chunks e2"
proof -
  have slot: "b0_slot first_touch" "pe_pending first_touch = []"
    using first_touch_ready by (auto simp: b0_slot_def image_awaited_def Let_def split: prod.splits)
  have msg: "b0_message (events_get_expected_event first_touch) (concat some_chunks)"
    unfolding conjunct2 [OF first_touch_ready]
    by (simp add: b0_message_def some_chunks_def le16_def)
  have ne: "some_chunks \<noteq> []" "[] \<notin> set some_chunks"
    by (simp_all add: some_chunks_def)
  have "replicate (length some_chunks - 1) Accept @ [r] = [Accept, Accept, Accept, r]" for r :: "gerror reply"
    by (simp add: some_chunks_def numeral_eq_Suc del: replicate.simps) (simp add: replicate_Suc)
  then show ?thesis
    using chunking_irrelevant [OF ne slot msg, of quiet "[]" plenty] by simp
qed

end
