(* ===== verification/Outbound_Transaction.thy ===== *)
theory Outbound_Transaction
  imports Outbound_Frame Post_Tls_Events
begin

text \<open>
  The completion-gated transaction (\<^verbatim>\<open>goodix_enrollment_outbound_transaction.c\<close>): a prepared
  command is serialized and handed to a frame sink, stays pending until the transport
  reports its completion for the same generation, and is committed only then. The sink is
  an argument that runs on the shared user data and does not call back into the transaction
  (the production sink submits an asynchronous transfer). The pointer \<^verbatim>\<open>events\<close> is the
  component's state itself: the transaction borrows the events, so a call on the events
  made by their owner is a call of the machine below.
\<close>

type_synonym 'u sink_func = "u64 \<Rightarrow> bytes \<Rightarrow> 'u \<Rightarrow> callback_reply \<times> 'u"

record transaction_audit =
  ta_frame :: frame_audit
  ta_sink_call :: u32
  ta_positive_completion :: u32
  ta_committed_after_completion :: u32
  ta_rejected_operation :: u32
  ta_stale_generation :: u32
  ta_transport_error :: u32
  ta_retry :: u32
  ta_real_usb_submit :: u32
  ta_failed :: bool

record 'u transaction =
  ot_events :: "'u post_tls"
  ot_generation :: u64
  ot_audit :: transaction_audit
  ot_prepared :: prepared_command
  ot_pending_frame :: "bytes option"
  ot_pending :: bool
  ot_failed :: bool

definition transaction_audit_zero :: transaction_audit where
  "transaction_audit_zero = \<lparr>ta_frame = frame_audit_zero, ta_sink_call = 0, ta_positive_completion = 0,
     ta_committed_after_completion = 0, ta_rejected_operation = 0, ta_stale_generation = 0,
     ta_transport_error = 0, ta_retry = 0, ta_real_usb_submit = 0, ta_failed = False\<rparr>"

definition clear_pending :: "'u transaction \<Rightarrow> 'u transaction" where
  "clear_pending t = t\<lparr>ot_pending_frame := None, ot_prepared := prepared_command_clear, ot_pending := False\<rparr>"

definition transaction_failed :: "'u transaction \<Rightarrow> 'u transaction" where
  "transaction_failed t =
     (if ot_failed t then t
      else clear_pending (t\<lparr>ot_failed := True,
        ot_audit := (ot_audit t)\<lparr>ta_failed := True,
          ta_rejected_operation := ta_rejected_operation (ot_audit t) + 1\<rparr>\<rparr>))"

definition transaction_fail ::
    "gerror option \<Rightarrow> transaction_error \<Rightarrow> 'u transaction \<Rightarrow> gerror reply \<times> 'u transaction" where
  "transaction_fail prior code t =
     (Reject (keep_first prior (Transaction_Error code)), transaction_failed t)"

definition outbound_transaction_new :: "'u post_tls \<Rightarrow> u64 \<Rightarrow> gerror + 'u transaction" where
  "outbound_transaction_new events generation =
     (if generation = 0 then Inl (Transaction_Error TRANSACTION_ERROR_ARGUMENT)
      else Inr \<lparr>ot_events = events, ot_generation = generation, ot_audit = transaction_audit_zero,
        ot_prepared = prepared_command_clear, ot_pending_frame = None, ot_pending = False,
        ot_failed = False\<rparr>)"

text \<open>The sink runs on the user data shared with the other callbacks.\<close>

definition events_set_user :: "'u \<Rightarrow> 'u post_tls \<Rightarrow> 'u post_tls" where
  "events_set_user u e = e\<lparr>pe_lifecycle := set_user u (pe_lifecycle e)\<rparr>"

definition transaction_submit_next ::
    "'u handlers \<Rightarrow> 'u sink_func \<Rightarrow> 'u transaction \<Rightarrow> gerror reply \<times> 'u transaction" where
  "transaction_submit_next h sink t =
     (if ot_failed t \<or> ot_pending t \<or> events_is_complete (ot_events t)
      then transaction_fail None TRANSACTION_ERROR_STATE t
      else case events_prepare h (ot_events t) of
          (Reject x, e, prepared) \<Rightarrow>
            transaction_fail (Some x) TRANSACTION_ERROR_STATE (t\<lparr>ot_events := e\<rparr>)
        | (Accept, e, prepared) \<Rightarrow>
            let t1 = t\<lparr>ot_events := e, ot_prepared := the prepared\<rparr>
            in case outbound_frame_build (ot_prepared t1) (ta_frame (ot_audit t1)) of
                (Inl x, frame_audit) \<Rightarrow>
                  transaction_fail (Some x) TRANSACTION_ERROR_STATE
                    (t1\<lparr>ot_audit := (ot_audit t1)\<lparr>ta_frame := frame_audit\<rparr>\<rparr>)
              | (Inr frame, frame_audit) \<Rightarrow>
                  let t2 = t1\<lparr>ot_pending_frame := Some frame, ot_pending := True,
                        ot_audit := (ot_audit t1)\<lparr>ta_frame := frame_audit,
                          ta_sink_call := ta_sink_call (ot_audit t1) + 1\<rparr>\<rparr>;
                      (r, u) = sink (ot_generation t2) frame (adapter_user (pe_lifecycle (ot_events t2)));
                      t3 = t2\<lparr>ot_events := events_set_user u (ot_events t2)\<rparr>
                  in case r of
                      Callback_False x \<Rightarrow> transaction_fail x TRANSACTION_ERROR_TRANSPORT t3
                    | Callback_True \<Rightarrow> (Accept, t3))"

text \<open>A completion error is copied to the caller before the transaction fails.\<close>

definition transaction_complete_out ::
    "allocator \<Rightarrow> 'u handlers \<Rightarrow> u64 \<Rightarrow> gerror option \<Rightarrow> 'u transaction
       \<Rightarrow> gerror reply \<times> 'u transaction" where
  "transaction_complete_out env h generation completion_error t =
     (if ot_failed t \<or> \<not> ot_pending t then transaction_fail None TRANSACTION_ERROR_STATE t
      else if generation \<noteq> ot_generation t then
        transaction_fail None TRANSACTION_ERROR_GENERATION
          (t\<lparr>ot_audit := (ot_audit t)\<lparr>ta_stale_generation := ta_stale_generation (ot_audit t) + 1\<rparr>\<rparr>)
      else case completion_error of
          Some x \<Rightarrow>
            transaction_fail (Some x) TRANSACTION_ERROR_TRANSPORT
              (t\<lparr>ot_audit := (ot_audit t)\<lparr>ta_transport_error := ta_transport_error (ot_audit t) + 1\<rparr>\<rparr>)
        | None \<Rightarrow>
            let event = in_event (pc_intent (ot_prepared t));
                t1 = t\<lparr>ot_audit := (ot_audit t)\<lparr>ta_positive_completion :=
                       ta_positive_completion (ot_audit t) + 1\<rparr>\<rparr>
            in case events_commit env h event (ot_events t1) of
                (Reject x, e) \<Rightarrow> transaction_fail (Some x) TRANSACTION_ERROR_STATE (t1\<lparr>ot_events := e\<rparr>)
              | (Accept, e) \<Rightarrow>
                  (Accept, clear_pending (t1\<lparr>ot_events := e,
                     ot_audit := (ot_audit t1)\<lparr>ta_committed_after_completion :=
                       ta_committed_after_completion (ot_audit t1) + 1\<rparr>\<rparr>)))"

definition transaction_cancel :: "'u transaction \<Rightarrow> 'u transaction" where
  "transaction_cancel t = (if ot_failed t then t else transaction_failed t)"

definition transaction_handle_a0 ::
    "allocator \<Rightarrow> 'u handlers \<Rightarrow> bytes option \<Rightarrow> 'u transaction \<Rightarrow> gerror reply \<times> 'u transaction" where
  "transaction_handle_a0 env h frame t =
     (if frame = None then transaction_fail None TRANSACTION_ERROR_ARGUMENT t
      else if ot_failed t \<or> ot_pending t then transaction_fail None TRANSACTION_ERROR_STATE t
      else case events_handle_a0 env h frame (ot_events t) of
          (Reject x, e) \<Rightarrow> transaction_fail (Some x) TRANSACTION_ERROR_STATE (t\<lparr>ot_events := e\<rparr>)
        | (Accept, e) \<Rightarrow> (Accept, t\<lparr>ot_events := e\<rparr>))"

definition transaction_handle_plaintext_chunk ::
    "u16 list \<Rightarrow> allocator \<Rightarrow> 'u handlers \<Rightarrow> bytes option \<Rightarrow> 'u transaction
       \<Rightarrow> gerror reply \<times> 'u transaction" where
  "transaction_handle_plaintext_chunk stack env h chunk t =
     (if chunk = None then transaction_fail None TRANSACTION_ERROR_ARGUMENT t
      else if ot_failed t \<or> ot_pending t then transaction_fail None TRANSACTION_ERROR_STATE t
      else case events_handle_plaintext_chunk stack env h chunk (ot_events t) of
          (Reject x, e) \<Rightarrow> transaction_fail (Some x) TRANSACTION_ERROR_STATE (t\<lparr>ot_events := e\<rparr>)
        | (Accept, e) \<Rightarrow> (Accept, t\<lparr>ot_events := e\<rparr>))"

definition transaction_has_pending :: "'u transaction \<Rightarrow> bool" where
  "transaction_has_pending t \<longleftrightarrow> \<not> ot_failed t \<and> ot_pending t"

definition transaction_is_complete :: "'u transaction \<Rightarrow> bool" where
  "transaction_is_complete t \<longleftrightarrow> \<not> ot_failed t \<and> \<not> ot_pending t \<and> events_is_complete (ot_events t)"

definition transaction_is_failed :: "'u transaction \<Rightarrow> bool" where
  "transaction_is_failed t \<longleftrightarrow> ot_failed t \<or> events_is_failed (ot_events t)"

section \<open>The command in flight\<close>

text \<open>The events hold the command that is in flight and wait for its commit.\<close>

definition in_flight :: "prepared_command \<Rightarrow> 'u post_tls \<Rightarrow> bool" where
  "in_flight c e \<longleftrightarrow>
     pe_pending e = [] \<and>
     (pe_irq80_event e = COMMAND_32 \<and> pe_irq80_rearm e = c \<and> in_event (pc_intent c) = COMMAND_32 \<or>
      pe_irq80_event e = EVENT_NONE \<and> la_cached (pe_lifecycle e) = Some c)"

lemma in_flight_set_user [simp]: "in_flight c (events_set_user u e) = in_flight c e"
  by (simp add: in_flight_def events_set_user_def)

lemma events_set_user_inv [simp]: "events_inv e \<Longrightarrow> events_inv (events_set_user u e)"
  by (simp add: events_set_user_def)

lemma events_set_user_failed [simp]: "pe_failed (events_set_user u e) = pe_failed e"
  by (simp add: events_set_user_def)

lemma prepare_in_flight:
  assumes "events_inv e" "events_prepare h e = (Accept, e', out)"
  shows "events_inv e'" "\<not> pe_failed e'" "out \<noteq> None" "in_flight (the out) e'" "well_built (the out)"
proof -
  show "events_inv e'" using events_prepare_inv [OF assms(1), of h] assms(2) by simp
  have gate: "\<not> pe_failed e" "pe_pending e = []" "\<not> za_awaiting_sample_request (pe_zero e)"
    using assms(2) by (auto simp: events_prepare_def events_fail_def split: if_split_asm)
  have ad: "adapter_inv (pe_lifecycle e)" using events_invD [OF assms(1)] by (simp add: events_base_def)
  obtain r a c where p: "lifecycle_adapter_prepare (h_timestamp h) (pe_lifecycle e) = (r, a, c)"
    by (metis prod_cases3)
  have "\<not> pe_failed e' \<and> out \<noteq> None \<and> in_flight (the out) e' \<and> well_built (the out)"
  proof (cases "pe_irq80_event e = COMMAND_32")
    case True
    then have "e' = e" "out = Some (pe_irq80_rearm e)"
      using assms(2) gate by (auto simp: events_prepare_def)
    with True assms(1) gate show ?thesis
      by (simp add: in_flight_def events_inv_def irq80_ok_state_def)
  next
    case False
    with assms(2) gate p have res: "r = Accept" "e' = e\<lparr>pe_lifecycle := a\<rparr>" "out = Some c"
      by (cases r; auto simp: events_prepare_def events_fail_def)+
    note ok = prepare_ok [OF ad p [unfolded res(1)]]
    have "pe_irq80_event e = EVENT_NONE"
    proof (rule ccontr)
      assume "pe_irq80_event e \<noteq> EVENT_NONE"
      then have "p_event (adapter_position a) = IRQ2"
        using assms(1) gate ok(5) by (simp add: events_inv_def irq80_ok_state_def)
      moreover have "command_plan_peek (la_plan a) = Some (pc_intent c)"
        using ok(1,2,4) by (simp add: adapter_inv_def adapter_live_def)
      ultimately show False
        using peek_some(3,4) [of "la_plan a"]
        by (auto simp: adapter_position_def plan_position_def is_command_event_def)
    qed
    with res ok gate show ?thesis by (simp add: in_flight_def)
  qed
  then show "\<not> pe_failed e'" "out \<noteq> None" "in_flight (the out) e'" "well_built (the out)" by simp_all
qed

lemma commit_in_flight:
  assumes "events_inv e" "\<not> pe_failed e" "in_flight c e"
  obtains e' where "events_commit env h (in_event (pc_intent c)) e = (Accept, e')"
    "events_get_expected_event e' = the (plain_next (in_event (pc_intent c)))" "\<not> pe_failed e'"
proof (cases "pe_irq80_event e = EVENT_NONE")
  case False
  with assms(2,3) have "events_commit env h (in_event (pc_intent c)) e = (Accept, e\<lparr>pe_irq80_event := ACK_32\<rparr>)"
    by (auto simp: in_flight_def events_commit_def)
  moreover have "the (plain_next (in_event (pc_intent c))) = ACK_32"
    using False assms(3) by (auto simp: in_flight_def)
  ultimately show thesis
    by (intro that [of "e\<lparr>pe_irq80_event := ACK_32\<rparr>"]) (simp_all add: events_get_expected_event_def assms(2))
next
  case True
  let ?a = "pe_lifecycle e"
  have cached: "la_cached ?a = Some c" "pe_pending e = []" using True assms(3) by (simp_all add: in_flight_def)
  have live: "plan_inv (la_plan ?a)" "adapter_live ?a" "\<not> la_failed ?a"
    using assms(1,2) by (simp_all add: events_inv_def events_base_def adapter_inv_def)
  then have peek: "command_plan_peek (la_plan ?a) = Some (pc_intent c)"
    using cached by (simp add: adapter_live_def)
  obtain plan' where plan': "command_plan_commit env (h_image h) (in_event (pc_intent c)) (la_plan ?a) = (Accept, plan')"
    "m_expected (plan_model plan') = the (plain_next (in_event (pc_intent c)))" "\<not> cp_failed plan'"
    by (rule peek_commits [OF live(1) peek])
  then obtain a' where a': "lifecycle_adapter_commit env (h_image h) (in_event (pc_intent c)) ?a = (Accept, a')"
    "lifecycle_adapter_get_expected_event a' = the (plain_next (in_event (pc_intent c)))"
    using cached live(3)
    by (simp add: lifecycle_adapter_commit_def lifecycle_adapter_get_expected_event_def
        command_plan_get_expected_event_def)
  obtain e' where e': "events_commit env h (in_event (pc_intent c)) e = (Accept, e')"
    "pe_lifecycle e' = a'" "pe_irq80_event e' = EVENT_NONE" "\<not> pe_failed e'"
    using a'(1) True assms(2) cached(2) by (simp add: events_commit_def Let_def)
  then show thesis
    using that a'(2) by (simp add: events_get_expected_event_def)
qed

section \<open>Invariant\<close>

definition trans_counts :: "transaction_audit \<Rightarrow> bool \<Rightarrow> bool" where
  "trans_counts au pending \<longleftrightarrow>
     ta_sink_call au = ta_committed_after_completion au + of_bool pending \<and>
     ta_positive_completion au = ta_committed_after_completion au"

definition trans_inv :: "'u transaction \<Rightarrow> bool" where
  "trans_inv t \<longleftrightarrow>
     events_inv (ot_events t) \<and> ta_failed (ot_audit t) = ot_failed t \<and>
     (ot_failed t \<longrightarrow> \<not> ot_pending t \<and> ot_pending_frame t = None) \<and>
     (\<not> ot_failed t \<longrightarrow> trans_counts (ot_audit t) (ot_pending t) \<and>
        (ot_pending t \<longrightarrow>
          (\<exists>f au. ot_pending_frame t = Some f \<and> fst (outbound_frame_build (ot_prepared t) au) = Inr f) \<and>
          (\<not> pe_failed (ot_events t) \<longrightarrow> in_flight (ot_prepared t) (ot_events t))))"

lemma transaction_failed_inv:
  assumes "events_inv (ot_events t)" "ta_failed (ot_audit t) = ot_failed t"
    "ot_failed t \<longrightarrow> \<not> ot_pending t \<and> ot_pending_frame t = None"
  shows "trans_inv (transaction_failed t)"
  using assms by (simp add: trans_inv_def transaction_failed_def clear_pending_def)

lemma transaction_fail_inv:
  assumes "events_inv (ot_events t)" "ta_failed (ot_audit t) = ot_failed t"
    "ot_failed t \<longrightarrow> \<not> ot_pending t \<and> ot_pending_frame t = None"
  shows "trans_inv (snd (transaction_fail prior code t))"
  using transaction_failed_inv [OF assms] by (simp add: transaction_fail_def)

lemma transaction_fails:
  "\<not> ot_failed t \<Longrightarrow> events_inv (ot_events t) \<Longrightarrow> \<not> ta_failed (ot_audit t) \<Longrightarrow>
     trans_inv (snd (transaction_fail prior code t))"
  by (rule transaction_fail_inv) simp_all

lemma transaction_fail_same: "trans_inv t \<Longrightarrow> trans_inv (snd (transaction_fail prior code t))"
  by (rule transaction_fail_inv) (auto simp: trans_inv_def)

lemma transaction_fail_fst [simp]: "fst (transaction_fail prior code t) \<noteq> Accept"
  by (simp add: transaction_fail_def)

lemma transaction_new_inv:
  assumes "outbound_transaction_new e generation = Inr t" "events_inv e"
  shows "trans_inv t"
  using assms by (auto simp: outbound_transaction_new_def trans_inv_def transaction_audit_zero_def
      trans_counts_def split: if_split_asm)

lemma submit_inv:
  assumes "trans_inv t"
  shows "trans_inv (snd (transaction_submit_next h sink t))"
proof (cases "ot_failed t \<or> ot_pending t \<or> events_is_complete (ot_events t)")
  case True
  with transaction_fail_same [OF assms] show ?thesis by (simp add: transaction_submit_next_def)
next
  case False
  have inv: "events_inv (ot_events t)" "\<not> ta_failed (ot_audit t)" "trans_counts (ot_audit t) False"
    using assms False by (simp_all add: trans_inv_def)
  obtain r e out where p: "events_prepare h (ot_events t) = (r, e, out)" by (metis prod_cases3)
  have e: "events_inv e" using events_prepare_inv [OF inv(1), of h] p by simp
  show ?thesis
  proof (cases r)
    case (Reject x)
    then show ?thesis
      using False p e inv by (simp add: transaction_submit_next_def transaction_fails)
  next
    case Accept
    note ready = prepare_in_flight [OF inv(1) p [unfolded Accept]]
    define t1 where "t1 = t\<lparr>ot_events := e, ot_prepared := the out\<rparr>"
    obtain f au where b: "outbound_frame_build (ot_prepared t1) (ta_frame (ot_audit t1)) = (f, au)"
      by (metis surj_pair)
    have f1: "ot_prepared t1 = the out" "ot_audit t1 = ot_audit t" "ot_events t1 = e" "\<not> ot_failed t1"
      using False by (simp_all add: t1_def)
    show ?thesis
    proof (cases f)
      case (Inl x)
      then show ?thesis
        unfolding transaction_submit_next_def p Accept prod.case t1_def [symmetric] Let_def reply.case b
        using False f1 e inv(2) by (simp add: transaction_fails)
    next
      case (Inr frame)
      define t2 where "t2 = t1\<lparr>ot_pending_frame := Some frame, ot_pending := True,
          ot_audit := (ot_audit t1)\<lparr>ta_frame := au, ta_sink_call := ta_sink_call (ot_audit t1) + 1\<rparr>\<rparr>"
      obtain q u where s: "sink (ot_generation t2) frame (adapter_user (pe_lifecycle (ot_events t2))) = (q, u)"
        by (metis surj_pair)
      define t3 where "t3 = t2\<lparr>ot_events := events_set_user u (ot_events t2)\<rparr>"
      have "fst (outbound_frame_build (ot_prepared t3) (ta_frame (ot_audit t1))) = Inr frame"
        using b Inr by (simp add: t3_def t2_def)
      then have t3: "trans_inv t3"
        using False f1 e inv(2,3) ready
        by (auto simp: trans_inv_def t3_def t2_def trans_counts_def)
      show ?thesis
        unfolding transaction_submit_next_def p Accept prod.case t1_def [symmetric] Let_def reply.case b
          Inr sum.case t2_def [symmetric] s t3_def [symmetric]
        using False t3 transaction_fail_same [OF t3] by (cases q) simp_all
    qed
  qed
qed

lemma complete_out_inv:
  assumes "trans_inv t"
  shows "trans_inv (snd (transaction_complete_out env h g err t))"
proof (cases "ot_failed t \<or> \<not> ot_pending t \<or> g \<noteq> ot_generation t \<or> err \<noteq> None")
  case True
  have inv: "events_inv (ot_events t)" "ta_failed (ot_audit t) = ot_failed t"
    using assms by (simp_all add: trans_inv_def)
  then have "\<not> ot_failed t \<Longrightarrow> trans_inv (snd (transaction_fail p c (t\<lparr>ot_audit := au\<rparr>)))"
    if "ta_failed au = ot_failed t" for p c au
    using that by (simp add: transaction_fails)
  with True transaction_fail_same [OF assms] inv(2) show ?thesis
    by (cases err) (auto simp: transaction_complete_out_def)
next
  case False
  define t1 where "t1 = t\<lparr>ot_audit := (ot_audit t)\<lparr>ta_positive_completion :=
       ta_positive_completion (ot_audit t) + 1\<rparr>\<rparr>"
  obtain r e where c: "events_commit env h (in_event (pc_intent (ot_prepared t))) (ot_events t1) = (r, e)"
    by (metis surj_pair)
  have inv: "events_inv (ot_events t1)" "\<not> ta_failed (ot_audit t1)" "\<not> ot_failed t1"
    "trans_counts (ot_audit t) True"
    using assms False by (simp_all add: trans_inv_def t1_def)
  have e: "events_inv e" using events_commit_inv [OF inv(1)] c by (metis snd_conv)
  show ?thesis
  proof (cases r)
    case (Reject x)
    with False c e inv show ?thesis
      by (simp add: transaction_complete_out_def Let_def transaction_fails flip: t1_def)
  next
    case Accept
    with False c e inv show ?thesis
      by (simp add: transaction_complete_out_def Let_def trans_inv_def clear_pending_def flip: t1_def)
         (simp add: t1_def trans_counts_def)
  qed
qed

lemma trans_events_inv:
  assumes "trans_inv t" "events_inv e" "\<not> ot_pending t"
  shows "trans_inv (t\<lparr>ot_events := e\<rparr>)"
  using assms by (simp add: trans_inv_def)

lemma handle_inv:
  assumes "trans_inv t"
  shows "trans_inv (snd (transaction_handle_a0 env h frame t))"
    "trans_inv (snd (transaction_handle_plaintext_chunk stack env h chunk t))"
proof -
  have inv: "events_inv (ot_events t)" "ta_failed (ot_audit t) = ot_failed t"
    using assms by (simp_all add: trans_inv_def)
  obtain r e where a: "events_handle_a0 env h frame (ot_events t) = (r, e)" by (metis surj_pair)
  obtain r2 e2 where c: "events_handle_plaintext_chunk stack env h chunk (ot_events t) = (r2, e2)"
    by (metis surj_pair)
  have e: "events_inv e" "events_inv e2"
    using handle_a0_inv [OF inv(1), of env h frame] plaintext_chunk_inv [OF inv(1), of stack env h chunk] a c
    by simp_all
  show "trans_inv (snd (transaction_handle_a0 env h frame t))"
    using transaction_fail_same [OF assms] a e(1) inv trans_events_inv [OF assms e(1)]
    by (cases r) (auto simp: transaction_handle_a0_def transaction_fails)
  show "trans_inv (snd (transaction_handle_plaintext_chunk stack env h chunk t))"
    using transaction_fail_same [OF assms] c e(2) inv trans_events_inv [OF assms e(2)]
    by (cases r2) (auto simp: transaction_handle_plaintext_chunk_def transaction_fails)
qed

text \<open>Calls that the owner of the events makes on them directly.\<close>

lemma owner_call_inv:
  assumes "trans_inv t" "events_inv e"
    and "\<not> pe_failed e \<Longrightarrow> \<not> pe_failed (ot_events t) \<and> pe_pending e = pe_pending (ot_events t) \<and>
      pe_irq80_event e = pe_irq80_event (ot_events t) \<and> pe_irq80_rearm e = pe_irq80_rearm (ot_events t) \<and>
      pe_lifecycle e = pe_lifecycle (ot_events t)"
  shows "trans_inv (t\<lparr>ot_events := e\<rparr>)"
  using assms by (auto simp: trans_inv_def in_flight_def)

section \<open>Sessions\<close>

text \<open>The owner's own calls reach the events past the transaction.\<close>

datatype transaction_call =
    Transaction_Submit
  | Transaction_Complete allocator u64 "gerror option"
  | Transaction_Cancel
  | Transaction_A0 allocator "bytes option"
  | Transaction_Chunk "u16 list" allocator "bytes option"
  | Owner_Stale "bytes option"
  | Owner_Request_Zero
  | Owner_Close_Zero

fun transaction_machine ::
    "'u handlers \<Rightarrow> 'u sink_func \<Rightarrow> (transaction_call, gerror, 'u transaction) machine" where
  "transaction_machine h sink Transaction_Submit t = transaction_submit_next h sink t"
| "transaction_machine h sink (Transaction_Complete env g err) t = transaction_complete_out env h g err t"
| "transaction_machine h sink Transaction_Cancel t = (Accept, transaction_cancel t)"
| "transaction_machine h sink (Transaction_A0 env frame) t = transaction_handle_a0 env h frame t"
| "transaction_machine h sink (Transaction_Chunk stack env chunk) t =
     transaction_handle_plaintext_chunk stack env h chunk t"
| "transaction_machine h sink (Owner_Stale frame) t =
     (let (r, handled, e) = events_consume_stale_release frame (ot_events t) in (r, t\<lparr>ot_events := e\<rparr>))"
| "transaction_machine h sink Owner_Request_Zero t =
     (let (r, e) = events_request_zero_sample (ot_events t) in (r, t\<lparr>ot_events := e\<rparr>))"
| "transaction_machine h sink Owner_Close_Zero t =
     (Accept, t\<lparr>ot_events := events_close_zero_window (ot_events t)\<rparr>)"

lemma events_fail_failed [simp]: "pe_failed (snd (events_fail prior code e))"
  by (simp add: events_fail_def events_failed_def events_close_zero_window_def Let_def)

lemma stale_keeps:
  assumes "\<not> pe_failed (snd (snd (events_consume_stale_release frame e)))"
  shows "\<not> pe_failed e \<and> pe_pending (snd (snd (events_consume_stale_release frame e))) = pe_pending e \<and>
      pe_irq80_event (snd (snd (events_consume_stale_release frame e))) = pe_irq80_event e \<and>
      pe_irq80_rearm (snd (snd (events_consume_stale_release frame e))) = pe_irq80_rearm e \<and>
      pe_lifecycle (snd (snd (events_consume_stale_release frame e))) = pe_lifecycle e"
proof (cases frame)
  case (Some wire)
  with assms show ?thesis
    by (cases "a0_parse_frame frame 0x34")
       (auto simp: events_consume_stale_release_def case_prod_beta split: if_split_asm)
qed (use assms in \<open>simp add: events_consume_stale_release_def\<close>)

lemma transaction_machine_keeps:
  assumes "trans_inv t"
  shows "trans_inv (snd (transaction_machine h sink call t))"
proof (cases call)
  case Transaction_Cancel
  have "trans_inv (transaction_failed t)"
    by (rule transaction_failed_inv) (use assms in \<open>auto simp: trans_inv_def\<close>)
  with assms show ?thesis by (simp add: Transaction_Cancel transaction_cancel_def)
next
  case (Owner_Stale frame)
  have "events_inv (snd (snd (events_consume_stale_release frame (ot_events t))))"
    by (rule stale_release_inv) (use assms in \<open>simp add: trans_inv_def\<close>)
  from owner_call_inv [OF assms this] stale_keeps [of frame "ot_events t"] show ?thesis
    by (simp add: Owner_Stale case_prod_beta)
next
  case Owner_Request_Zero
  have "events_inv (snd (events_request_zero_sample (ot_events t)))"
    by (rule request_zero_inv) (use assms in \<open>simp add: trans_inv_def\<close>)
  moreover have "\<not> pe_failed (snd (events_request_zero_sample (ot_events t))) \<Longrightarrow>
      snd (events_request_zero_sample (ot_events t)) = (ot_events t)
        \<lparr>pe_zero := (pe_zero (ot_events t))\<lparr>za_awaiting_sample_request := False\<rparr>\<rparr>"
    by (simp add: events_request_zero_sample_def split: if_split_asm)
  ultimately show ?thesis
    using owner_call_inv [OF assms] by (fastforce simp: Owner_Request_Zero case_prod_beta)
next
  case Owner_Close_Zero
  have "events_inv (events_close_zero_window (ot_events t))"
    using events_machine_keeps [of "ot_events t" _ Events_Close_Zero] assms by (simp add: trans_inv_def)
  from owner_call_inv [OF assms this] show ?thesis
    by (simp add: Owner_Close_Zero events_close_zero_window_def)
qed (simp_all add: assms submit_inv complete_out_inv handle_inv)

lemma transaction_reach_inv:
  assumes "post_tls_events_new config u = Inr events" "outbound_transaction_new events generation = Inr start"
    and "reach (transaction_machine h sink) start t"
  shows "trans_inv t"
proof -
  have "machine_invariant (transaction_machine h sink) start trans_inv"
    by unfold_locales
      (use transaction_new_inv [OF assms(2) events_new_inv [OF assms(1)]] transaction_machine_keeps in auto)
  then show ?thesis
    using assms(3) by (rule machine_invariant.inv_reach)
qed

text \<open>Every prepared command is serialized, so a ready submission reaches the sink.\<close>

lemma submit_sends:
  assumes "trans_inv t" "\<not> ot_failed t" "\<not> ot_pending t" "\<not> events_is_complete (ot_events t)"
    and "events_prepare h (ot_events t) = (Accept, e, Some c)"
  shows "\<exists>frame au. outbound_frame_build c (ta_frame (ot_audit t)) = (Inr frame, au) \<and>
    (fst (sink (ot_generation t) frame (adapter_user (pe_lifecycle e))) = Callback_True \<longrightarrow>
      (\<exists>t'. transaction_submit_next h sink t = (Accept, t') \<and> \<not> ot_failed t' \<and> ot_pending t' \<and>
         ot_pending_frame t' = Some frame \<and> ot_prepared t' = c \<and> \<not> pe_failed (ot_events t')))"
proof -
  have inv: "events_inv (ot_events t)" using assms(1) by (simp add: trans_inv_def)
  note ready = prepare_in_flight [OF inv assms(5)]
  obtain frame au where b: "outbound_frame_build c (ta_frame (ot_audit t)) = (Inr frame, au)"
    using well_built_serializes [of c "ta_frame (ot_audit t)"] ready(5) by (metis option.sel prod.collapse)
  obtain r u where s: "sink (ot_generation t) frame (adapter_user (pe_lifecycle e)) = (r, u)"
    by (metis surj_pair)
  show ?thesis
    using b s assms(2-5) ready(2) by (auto simp: transaction_submit_next_def Let_def)
qed

section \<open>Properties\<close>

text \<open>
  A command is committed only after its completion: in every reachable unfailed
  state the sink has been called once per committed command, plus once for the command that
  is pending, every positive completion has led to a commit, and a frame is held exactly
  while one is pending; a failed transaction holds none.
\<close>

theorem commit_after_completion:
  assumes "post_tls_events_new config u = Inr events" "outbound_transaction_new events generation = Inr start"
    and "reach (transaction_machine h sink) start t"
  shows "(\<not> ot_failed t \<longrightarrow>
      ta_sink_call (ot_audit t) = ta_committed_after_completion (ot_audit t) + of_bool (ot_pending t) \<and>
      ta_positive_completion (ot_audit t) = ta_committed_after_completion (ot_audit t) \<and>
      (ot_pending t \<longrightarrow> ot_pending_frame t \<noteq> None)) \<and>
    (ot_failed t \<longrightarrow> \<not> ot_pending t \<and> ot_pending_frame t = None)"
  using transaction_reach_inv [OF assms] by (auto simp: trans_inv_def trans_counts_def)

text \<open>
  Claim C17. The completion of a pending command commits that command: in every reachable
  state with a command pending and unfailed events, the frame held is the serialization of
  the prepared command, and a positive completion of the same generation succeeds whatever
  happened meanwhile, clears the pending command, and the session then waits for the
  acknowledgement of exactly that command.
\<close>

theorem completion_commits_sent_command:
  assumes "post_tls_events_new config u = Inr events" "outbound_transaction_new events generation = Inr start"
    and "reach (transaction_machine h sink) start t"
    and "transaction_has_pending t" "\<not> pe_failed (ot_events t)"
  shows "(\<exists>frame au. ot_pending_frame t = Some frame \<and>
      fst (outbound_frame_build (ot_prepared t) au) = Inr frame) \<and>
    (\<exists>t'. transaction_complete_out env h (ot_generation t) None t = (Accept, t') \<and>
      \<not> ot_pending t' \<and> ot_pending_frame t' = None \<and>
      events_get_expected_event (ot_events t') = the (plain_next (in_event (pc_intent (ot_prepared t)))))"
proof -
  have live: "\<not> ot_failed t" "ot_pending t" using assms(4) by (simp_all add: transaction_has_pending_def)
  have inv: "trans_inv t" by (rule transaction_reach_inv [OF assms(1-3)])
  then have e: "events_inv (ot_events t)" "in_flight (ot_prepared t) (ot_events t)"
    "\<exists>frame au. ot_pending_frame t = Some frame \<and> fst (outbound_frame_build (ot_prepared t) au) = Inr frame"
    using live assms(5) by (auto simp: trans_inv_def)
  obtain e' where "events_commit env h (in_event (pc_intent (ot_prepared t))) (ot_events t) = (Accept, e')"
    "events_get_expected_event e' = the (plain_next (in_event (pc_intent (ot_prepared t))))"
    by (rule commit_in_flight [OF e(1) assms(5) e(2)])
  with live have "\<exists>t'. transaction_complete_out env h (ot_generation t) None t = (Accept, t') \<and>
      \<not> ot_pending t' \<and> ot_pending_frame t' = None \<and>
      events_get_expected_event (ot_events t') = the (plain_next (in_event (pc_intent (ot_prepared t))))"
    by (simp add: transaction_complete_out_def Let_def clear_pending_def)
  with e(3) show ?thesis by blast
qed

text \<open>
  Claim C18. Nothing is committed otherwise: in every reachable state, a completion of another generation, a completion
  with an error, an inbound frame or plaintext while a command is pending, and any call on a
  failed transaction are refused, leave the events untouched and leave the transaction
  failed with nothing pending.
\<close>

theorem unconfirmed_command_never_committed:
  assumes "post_tls_events_new config u = Inr events" "outbound_transaction_new events generation = Inr start"
    and "reach (transaction_machine h sink) start t"
    and "ot_failed t \<or> ot_pending t"
    and "call = Transaction_Complete env g err \<and> (ot_failed t \<or> g \<noteq> ot_generation t \<or> err \<noteq> None) \<or>
      call = Transaction_A0 env frame \<or> call = Transaction_Chunk stack env chunk \<or>
      call = Transaction_Submit"
  shows "\<exists>x t'. transaction_machine h sink call t = (Reject x, t') \<and> ot_events t' = ot_events t \<and>
    ot_failed t' \<and> \<not> ot_pending t' \<and> ot_pending_frame t' = None \<and>
    ta_committed_after_completion (ot_audit t') = ta_committed_after_completion (ot_audit t)"
proof -
  have fail: "transaction_fail p c s = (Reject (keep_first p (Transaction_Error c)), transaction_failed s)"
    "ot_events (transaction_failed s) = ot_events s" "ot_failed (transaction_failed s)"
    "\<not> ot_failed s \<or> \<not> ot_pending s \<Longrightarrow> \<not> ot_pending (transaction_failed s)"
    "\<not> ot_failed s \<or> ot_pending_frame s = None \<Longrightarrow> ot_pending_frame (transaction_failed s) = None"
    "ta_committed_after_completion (ot_audit (transaction_failed s)) = ta_committed_after_completion (ot_audit s)"
    for p c and s :: "'a transaction"
    by (auto simp: transaction_fail_def transaction_failed_def clear_pending_def)
  have inv: "ot_failed t \<longrightarrow> \<not> ot_pending t \<and> ot_pending_frame t = None"
    using transaction_reach_inv [OF assms(1-3)] by (simp add: trans_inv_def)
  from assms(5) consider (complete) "call = Transaction_Complete env g err"
      "ot_failed t \<or> g \<noteq> ot_generation t \<or> err \<noteq> None"
    | (inbound) "call = Transaction_A0 env frame \<or> call = Transaction_Chunk stack env chunk \<or> call = Transaction_Submit"
    by blast
  then show ?thesis
  proof cases
    case complete
    then show ?thesis
      using inv assms(4) fail by (cases err) (auto simp: transaction_complete_out_def)
  next
    case inbound
    then show ?thesis
      using inv assms(4) fail
      by (auto simp: transaction_handle_a0_def transaction_handle_plaintext_chunk_def
          transaction_submit_next_def)
  qed
qed

text \<open>A session with its first command in flight.\<close>

definition open_sink :: "unit sink_func" where
  "open_sink generation frame u = (Callback_True, u)"

definition transaction_start :: "unit transaction" where
  "transaction_start = projr (outbound_transaction_new session_start 1)"

lemma transaction_start_new: "outbound_transaction_new session_start 1 = Inr transaction_start"
  by (simp add: transaction_start_def outbound_transaction_new_def)

definition touched_call :: transaction_call where
  "touched_call = (case wire 0x32 ([2, 0, 1, 0] @ touch_report) of Events_A0 env frame \<Rightarrow> Transaction_A0 env frame)"

definition before_submit :: "unit transaction" where
  "before_submit = snd (transaction_machine quiet open_sink touched_call transaction_start)"

definition with_command :: "unit transaction" where
  "with_command = snd (transaction_machine quiet open_sink Transaction_Submit before_submit)"

lemma reach_before: "reach (transaction_machine quiet open_sink) transaction_start before_submit"
  unfolding before_submit_def by (intro reach_step reach_start)

lemma reach_with_command: "reach (transaction_machine quiet open_sink) transaction_start with_command"
  unfolding with_command_def by (intro reach_step reach_before)

lemma before_submit_ready:
  "\<not> ot_failed before_submit \<and> \<not> ot_pending before_submit \<and> \<not> events_is_complete (ot_events before_submit) \<and>
   (case events_prepare quiet (ot_events before_submit) of (r, e, out) \<Rightarrow>
      r = Accept \<and> map_option (\<lambda>c. in_event (pc_intent c)) out = Some COMMAND_22)"
  by code_simp

lemma with_command_pending:
  "transaction_has_pending with_command \<and> \<not> pe_failed (ot_events with_command) \<and>
   in_event (pc_intent (ot_prepared with_command)) = COMMAND_22"
proof -
  have ready: "\<not> ot_failed before_submit" "\<not> ot_pending before_submit"
    "\<not> events_is_complete (ot_events before_submit)"
    using before_submit_ready by simp_all
  obtain e c where p: "events_prepare quiet (ot_events before_submit) = (Accept, e, Some c)"
    "in_event (pc_intent c) = COMMAND_22"
    using before_submit_ready by (auto split: prod.splits)
  have inv: "trans_inv before_submit"
    by (rule transaction_reach_inv [OF session_new transaction_start_new reach_before])
  from submit_sends [OF inv ready p(1), of open_sink] p(2) show ?thesis
    by (auto simp: with_command_def transaction_has_pending_def open_sink_def)
qed

lemma commit_after_completion_witness:
  "ta_sink_call (ot_audit with_command) = ta_committed_after_completion (ot_audit with_command) + 1"
  using commit_after_completion [OF session_new transaction_start_new reach_with_command] with_command_pending
  by (simp add: transaction_has_pending_def)

lemma completion_commits_sent_command_witness:
  "\<exists>t'. transaction_complete_out plenty quiet (ot_generation with_command) None with_command = (Accept, t') \<and>
     events_get_expected_event (ot_events t') = ACK_22"
  using completion_commits_sent_command [OF session_new transaction_start_new reach_with_command, of plenty]
    with_command_pending by auto

lemma unconfirmed_command_never_committed_witness:
  "\<exists>x t'. transaction_machine quiet open_sink Transaction_Submit with_command = (Reject x, t') \<and> ot_failed t'"
  using unconfirmed_command_never_committed [OF session_new transaction_start_new reach_with_command,
      of Transaction_Submit plenty 0 None None "[]" None] with_command_pending by (auto simp: transaction_has_pending_def)

end
