(* ===== verification/Usb_Binding.thy ===== *)
theory Usb_Binding
  imports Outbound_Transaction
begin

text \<open>
  The binding of the enrollment session to the USB backend
  (\<^verbatim>\<open>goodix_enrollment_fpi_usb_binding.c\<close>). It owns the events and their transaction,
  routes inbound frames to them, submits the next command as soon as the session reaches a
  command slot, and asks its owner to arm a receive after each completed transfer. The first
  failure is final. \<^verbatim>\<open>binding->events\<close> and \<^verbatim>\<open>transaction->events\<close> are one pointer, so the
  events are those of the transaction; \<^verbatim>\<open>audit->transaction\<close> is the transaction's audit.
  The backend, the ready callback and the error callback are arguments that work on the
  shared user data; the ready callback can also read the binding.
\<close>

record binding_audit =
  ba_submit_attempt :: u32
  ba_completion :: u32
  ba_completion_error :: u32
  ba_graph_ready_submit :: u32
  ba_cancellation :: u32
  ba_retry :: u32
  ba_terminal :: bool

record 'u usb_binding =
  ub_generation :: u64
  ub_transaction :: "'u transaction"
  ub_audit :: binding_audit
  ub_ready :: bool
  ub_failed :: bool
  ub_terminal :: "gerror option"

record 'u binding_hooks =
  bh_submit :: "'u sink_func"
  bh_cancel :: "'u \<Rightarrow> 'u"
  bh_out_outstanding :: "'u \<Rightarrow> u32"
  bh_ready :: "'u usb_binding \<Rightarrow> 'u \<Rightarrow> callback_reply \<times> 'u"
  bh_failed :: "gerror \<Rightarrow> 'u \<Rightarrow> 'u"

definition binding_audit_zero :: binding_audit where
  "binding_audit_zero = \<lparr>ba_submit_attempt = 0, ba_completion = 0, ba_completion_error = 0,
     ba_graph_ready_submit = 0, ba_cancellation = 0, ba_retry = 0, ba_terminal = False\<rparr>"

definition binding_events :: "'u usb_binding \<Rightarrow> 'u post_tls" where
  "binding_events b = ot_events (ub_transaction b)"

definition binding_set_events :: "'u post_tls \<Rightarrow> 'u usb_binding \<Rightarrow> 'u usb_binding" where
  "binding_set_events e b = b\<lparr>ub_transaction := (ub_transaction b)\<lparr>ot_events := e\<rparr>\<rparr>"

definition binding_user :: "'u usb_binding \<Rightarrow> 'u" where
  "binding_user b = adapter_user (pe_lifecycle (binding_events b))"

definition binding_set_user :: "'u \<Rightarrow> 'u usb_binding \<Rightarrow> 'u usb_binding" where
  "binding_set_user u b = binding_set_events (events_set_user u (binding_events b)) b"

section \<open>Failure\<close>

text \<open>The first failure: close the late-release window and keep the error.\<close>

definition binding_terminate :: "gerror \<Rightarrow> 'u usb_binding \<Rightarrow> 'u usb_binding" where
  "binding_terminate x b =
     (binding_set_events (events_close_zero_window (binding_events b)) b)
       \<lparr>ub_terminal := Some x, ub_audit := (ub_audit b)\<lparr>ba_terminal := True\<rparr>\<rparr>"

definition binding_failed :: "'u usb_binding \<Rightarrow> 'u usb_binding" where
  "binding_failed b =
     (if ub_terminal b = None then binding_terminate (Binding_Error USB_BINDING_ERROR_STATE) b else b)"

definition binding_fail :: "gerror option \<Rightarrow> 'u usb_binding \<Rightarrow> gerror reply \<times> 'u usb_binding" where
  "binding_fail prior b =
     (Reject (keep_first prior (the (ub_terminal (binding_failed b)))), binding_failed b)"

section \<open>Configuration\<close>

definition usb_binding_new :: "'u post_tls \<Rightarrow> u64 \<Rightarrow> gerror + 'u usb_binding" where
  "usb_binding_new events generation =
     (if generation = 0 then Inl (Binding_Error USB_BINDING_ERROR_ARGUMENT)
      else case outbound_transaction_new events generation of
          Inl x \<Rightarrow> Inl x
        | Inr t \<Rightarrow> Inr \<lparr>ub_generation = generation, ub_transaction = t, ub_audit = binding_audit_zero,
            ub_ready = False, ub_failed = False, ub_terminal = None\<rparr>)"

definition binding_set_error_callback :: "bool \<Rightarrow> 'u usb_binding \<Rightarrow> 'u usb_binding" where
  "binding_set_error_callback given b =
     (if \<not> ub_failed b \<and> ba_submit_attempt (ub_audit b) = 0 then b\<lparr>ub_failed := given\<rparr> else b)"

definition binding_set_ready_callback :: "bool \<Rightarrow> 'u usb_binding \<Rightarrow> gerror reply \<times> 'u usb_binding" where
  "binding_set_ready_callback given b =
     (if \<not> given \<or> ub_ready b \<or> ub_terminal b \<noteq> None \<or> ba_submit_attempt (ub_audit b) \<noteq> 0 \<or>
         ta_positive_completion (ot_audit (ub_transaction b)) \<noteq> 0
      then binding_fail None b
      else (Accept, b\<lparr>ub_ready := True\<rparr>))"

section \<open>Queries\<close>

fun expected_event_is_command :: "enrollment_event \<Rightarrow> bool" where
  "expected_event_is_command COMMAND_20 = True"
| "expected_event_is_command COMMAND_22 = True"
| "expected_event_is_command COMMAND_32 = True"
| "expected_event_is_command COMMAND_34 = True"
| "expected_event_is_command COMMAND_36 = True"
| "expected_event_is_command COMMAND_50 = True"
| "expected_event_is_command _ = False"

definition binding_zero_audit :: "'u usb_binding \<Rightarrow> zero_audit" where
  "binding_zero_audit b = pe_zero (binding_events b)"

definition binding_has_pending :: "'u usb_binding \<Rightarrow> bool" where
  "binding_has_pending b \<longleftrightarrow> ub_terminal b = None \<and> transaction_has_pending (ub_transaction b)"

definition binding_is_complete :: "'u usb_binding \<Rightarrow> bool" where
  "binding_is_complete b \<longleftrightarrow> ub_terminal b = None \<and> transaction_is_complete (ub_transaction b)"

definition binding_needs_receive :: "'u usb_binding \<Rightarrow> bool" where
  "binding_needs_receive b \<longleftrightarrow>
     ub_terminal b = None \<and> \<not> transaction_has_pending (ub_transaction b) \<and>
     \<not> transaction_is_complete (ub_transaction b) \<and>
     (za_awaiting_sample_request (binding_zero_audit b) \<or>
      \<not> expected_event_is_command (events_get_expected_event (binding_events b)))"

definition binding_is_failed :: "'u usb_binding \<Rightarrow> bool" where
  "binding_is_failed b \<longleftrightarrow> ub_terminal b \<noteq> None \<or> transaction_is_failed (ub_transaction b)"

definition binding_can_free :: "'u binding_hooks \<Rightarrow> 'u usb_binding \<Rightarrow> bool" where
  "binding_can_free k b \<longleftrightarrow> bh_out_outstanding k (binding_user b) = 0"

section \<open>Operations\<close>

text \<open>\<^verbatim>\<open>backend_sink\<close> counts each attempt: as many as the transaction's sink calls.\<close>

definition backend_sink_counted :: "'u transaction \<Rightarrow> 'u usb_binding \<Rightarrow> 'u usb_binding" where
  "backend_sink_counted t b =
     b\<lparr>ub_transaction := t, ub_audit := (ub_audit b)\<lparr>ba_submit_attempt := ba_submit_attempt (ub_audit b) +
         (ta_sink_call (ot_audit t) - ta_sink_call (ot_audit (ub_transaction b)))\<rparr>\<rparr>"

definition binding_submit_next ::
    "'u handlers \<Rightarrow> 'u binding_hooks \<Rightarrow> 'u usb_binding \<Rightarrow> gerror reply \<times> 'u usb_binding" where
  "binding_submit_next h k b =
     (if ub_terminal b \<noteq> None then binding_fail None b
      else case transaction_submit_next h (bh_submit k) (ub_transaction b) of
          (Reject x, t) \<Rightarrow> binding_fail (Some x) (backend_sink_counted t b)
        | (Accept, t) \<Rightarrow> (Accept, backend_sink_counted t b))"

definition submit_if_graph_ready ::
    "'u handlers \<Rightarrow> 'u binding_hooks \<Rightarrow> 'u usb_binding \<Rightarrow> gerror reply \<times> 'u usb_binding" where
  "submit_if_graph_ready h k b =
     (case ub_terminal b of
        Some x \<Rightarrow> (Reject x, b)
      | None \<Rightarrow>
          if transaction_has_pending (ub_transaction b) \<or> transaction_is_complete (ub_transaction b) \<or>
             za_awaiting_sample_request (binding_zero_audit b)
          then (Accept, b)
          else if \<not> expected_event_is_command (events_get_expected_event (binding_events b))
          then (Accept, b)
          else case binding_submit_next h k b of
              (Reject x, b1) \<Rightarrow> (Reject x, b1)
            | (Accept, b1) \<Rightarrow> (Accept, b1\<lparr>ub_audit := (ub_audit b1)
                \<lparr>ba_graph_ready_submit := ba_graph_ready_submit (ub_audit b1) + 1\<rparr>\<rparr>))"

text \<open>What follows the transaction's own completion, and the report of a terminal error.\<close>

definition out_complete_outcome ::
    "'u binding_hooks \<Rightarrow> gerror reply \<Rightarrow> 'u usb_binding \<Rightarrow> 'u usb_binding" where
  "out_complete_outcome k r b =
     (if r \<noteq> Accept \<and> ub_terminal b = None
      then (case r of Reject x \<Rightarrow> binding_terminate x b | Accept \<Rightarrow> b)
      else if ub_terminal b = None \<and> \<not> transaction_is_complete (ub_transaction b) \<and> ub_ready b
      then (case bh_ready k b (binding_user b) of
          (Callback_True, u) \<Rightarrow> binding_set_user u b
        | (Callback_False x, u) \<Rightarrow>
            binding_terminate (keep_first x (Binding_Error USB_BINDING_ERROR_STATE)) (binding_set_user u b))
      else b)"

definition report_terminal :: "'u binding_hooks \<Rightarrow> 'u usb_binding \<Rightarrow> 'u usb_binding" where
  "report_terminal k b =
     (case ub_terminal b of
        None \<Rightarrow> b
      | Some x \<Rightarrow> if ub_failed b then binding_set_user (bh_failed k x (binding_user b)) b else b)"

definition backend_out_complete ::
    "allocator \<Rightarrow> 'u handlers \<Rightarrow> 'u binding_hooks \<Rightarrow> u64 \<Rightarrow> gerror option \<Rightarrow> 'u usb_binding
       \<Rightarrow> 'u usb_binding" where
  "backend_out_complete env h k generation completion_error b =
     (let b1 = b\<lparr>ub_audit := (ub_audit b)\<lparr>ba_completion := ba_completion (ub_audit b) + 1,
                 ba_completion_error := ba_completion_error (ub_audit b) +
                   of_bool (completion_error \<noteq> None)\<rparr>\<rparr>;
          (r, t) = transaction_complete_out env h generation completion_error (ub_transaction b1)
      in report_terminal k (out_complete_outcome k r (b1\<lparr>ub_transaction := t\<rparr>)))"

definition binding_cancel :: "'u binding_hooks \<Rightarrow> 'u usb_binding \<Rightarrow> 'u usb_binding" where
  "binding_cancel k b =
     (if ub_terminal b \<noteq> None \<or> transaction_is_complete (ub_transaction b) then b
      else
        let b1 = binding_set_events (events_close_zero_window (binding_events b)) b;
            b2 = b1\<lparr>ub_audit := (ub_audit b1)\<lparr>ba_cancellation := ba_cancellation (ub_audit b1) + 1\<rparr>\<rparr>;
            b3 = binding_set_user (bh_cancel k (binding_user b2)) b2;
            b4 = b3\<lparr>ub_transaction := transaction_cancel (ub_transaction b3)\<rparr>
        in snd (binding_fail None b4))"

definition binding_handle_a0 ::
    "allocator \<Rightarrow> 'u handlers \<Rightarrow> 'u binding_hooks \<Rightarrow> bytes option \<Rightarrow> 'u usb_binding
       \<Rightarrow> gerror reply \<times> 'u usb_binding" where
  "binding_handle_a0 env h k frame b =
     (if ub_terminal b \<noteq> None then binding_fail None b
      else case events_consume_stale_release frame (binding_events b) of
          (Reject x, handled, e) \<Rightarrow> binding_fail (Some x) (binding_set_events e b)
        | (Accept, True, e) \<Rightarrow> (Accept, binding_set_events e b)
        | (Accept, False, e) \<Rightarrow>
            let b1 = binding_set_events e b
            in case transaction_handle_a0 env h frame (ub_transaction b1) of
                (Reject x, t) \<Rightarrow> binding_fail (Some x) (b1\<lparr>ub_transaction := t\<rparr>)
              | (Accept, t) \<Rightarrow> submit_if_graph_ready h k (b1\<lparr>ub_transaction := t\<rparr>))"

definition binding_handle_plaintext_chunk ::
    "u16 list \<Rightarrow> allocator \<Rightarrow> 'u handlers \<Rightarrow> 'u binding_hooks \<Rightarrow> bytes option \<Rightarrow> 'u usb_binding
       \<Rightarrow> gerror reply \<times> 'u usb_binding" where
  "binding_handle_plaintext_chunk stack env h k chunk b =
     (if ub_terminal b \<noteq> None then binding_fail None b
      else case transaction_handle_plaintext_chunk stack env h chunk (ub_transaction b) of
          (Reject x, t) \<Rightarrow> binding_fail (Some x) (b\<lparr>ub_transaction := t\<rparr>)
        | (Accept, t) \<Rightarrow> submit_if_graph_ready h k (b\<lparr>ub_transaction := t\<rparr>))"

definition binding_request_zero_sample ::
    "'u handlers \<Rightarrow> 'u binding_hooks \<Rightarrow> 'u usb_binding \<Rightarrow> gerror reply \<times> 'u usb_binding" where
  "binding_request_zero_sample h k b =
     (if ub_terminal b \<noteq> None \<or> binding_has_pending b then binding_fail None b
      else case events_request_zero_sample (binding_events b) of
          (Reject x, e) \<Rightarrow> binding_fail (Some x) (binding_set_events e b)
        | (Accept, e) \<Rightarrow> submit_if_graph_ready h k (binding_set_events e b))"

section \<open>What an accepted call leaves\<close>

lemma expected_command_iff: "expected_event_is_command x = is_command_event x"
  by (cases x) (simp_all add: is_command_event_def)

lemma observe_event_failed [simp]: "pe_failed (snd (observe_event env h x samples raw flags e)) = pe_failed e"
  by (auto simp: observe_event_def split: prod.split reply.split)

lemma call_contact_failed [simp]: "pe_failed (snd (call_contact h i present e)) = pe_failed e"
  by (auto simp: call_contact_def Let_def split: prod.split callback_reply.split)

lemma observe_event_live: "observe_event env h x samples raw flags e = (r, e') \<Longrightarrow> pe_failed e' = pe_failed e"
  using observe_event_failed [of env h x samples raw flags e] by simp

lemma call_contact_live: "call_contact h i present e = (r, e') \<Longrightarrow> pe_failed e' = pe_failed e"
  using call_contact_failed [of h i present e] by simp

lemma branch_failed:
  "pe_failed (snd (snd (a0_nav env h e))) = pe_failed e"
  "pe_failed (snd (snd (a0_ack env h x echo msg e))) = pe_failed e"
  "pe_failed (snd (snd (a0_irq2 env h flags raw e))) = pe_failed e"
  "pe_failed (snd (snd (a0_irq0100 env h e))) = pe_failed e"
  "pe_failed (snd (snd (a0_irq0200 env h flags raw e))) = pe_failed e"
  "pe_failed (snd (snd (a0_zero_contact env h raw e))) = pe_failed e"
  by (auto simp: a0_nav_def a0_ack_def a0_irq2_def a0_irq0100_def a0_irq0200_def a0_zero_contact_def Let_def
      split: prod.split callback_reply.split dest!: observe_event_live call_contact_live)

lemma a0_out_live: "a0_out x msg br = (Accept, e') \<Longrightarrow> snd (snd br) = e'"
  by (auto simp: a0_out_def events_fail_def split: prod.splits callback_reply.splits)

lemma a0_out_keeps:
  "a0_out x msg br = (Accept, e') \<Longrightarrow> \<not> pe_failed (snd (snd br)) \<Longrightarrow> \<not> pe_failed e'"
  using a0_out_live by blast

lemma a0_irq80_live: "a0_irq80 h msg e = (Accept, e') \<Longrightarrow> pe_failed e' = pe_failed e"
  by (auto simp: a0_irq80_def events_fail_def split: if_split_asm prod.splits reply.splits)

lemma a0_dispatch_live:
  assumes "a0_dispatch env h x msg e = (Accept, e')" "\<not> pe_failed e"
  shows "\<not> pe_failed e'"
  using assms
  by (auto simp: a0_dispatch_def events_fail_def branch_failed dest!: a0_irq80_live a0_out_live
      split: if_split_asm option.splits prod.splits)

lemma handle_a0_live:
  assumes "events_handle_a0 env h frame e = (Accept, e')"
  shows "\<not> pe_failed e'"
  using assms
  by (auto simp: events_handle_a0_def events_fail_def Let_def branch_failed dest!: a0_dispatch_live a0_out_live
      split: if_split_asm option.splits sum.splits)

lemma b0_handled_live:
  "events_handle_primary_samples env h samples e = (Accept, e') \<Longrightarrow> \<not> pe_failed e'"
  "events_handle_auxiliary_b0 env h e = (Accept, e') \<Longrightarrow> \<not> pe_failed e'"
  by (auto simp: events_handle_primary_samples_def events_handle_auxiliary_b0_def events_fail_def
      split: if_split_asm prod.splits callback_reply.splits dest!: observe_event_live)

lemma complete_live:
  "complete_primary stack env h e = (Accept, e') \<Longrightarrow> \<not> pe_failed e'"
  "complete_auxiliary env h e = (Accept, e') \<Longrightarrow> \<not> pe_failed e'"
  by (auto simp: complete_primary_def complete_auxiliary_def events_fail_def Let_def
      split: prod.splits reply.splits callback_reply.splits dest!: b0_handled_live)

lemma plaintext_chunk_live:
  assumes "events_handle_plaintext_chunk stack env h chunk e = (Accept, e')"
  shows "\<not> pe_failed e'"
  using assms
  by (auto simp: events_handle_plaintext_chunk_def events_fail_def Let_def
      split: option.splits if_split_asm dest!: complete_live)

lemma complete_expects_nothing:
  assumes "events_inv e" "events_is_complete e"
  shows "p_event (adapter_position (pe_lifecycle e)) = EVENT_NONE"
    "events_get_expected_event e = EVENT_NONE"
proof -
  let ?plan = "la_plan (pe_lifecycle e)"
  have live: "\<not> pe_failed e" "adapter_inv (pe_lifecycle e)" "\<not> la_failed (pe_lifecycle e)"
    "m_complete (plan_model ?plan)"
    using assms by (simp_all add: events_is_complete_def events_inv_def events_base_def
        lifecycle_adapter_is_complete_def command_plan_is_complete_def)
  then have "plan_inv ?plan" "\<not> cp_failed ?plan"
    by (simp_all add: adapter_inv_def adapter_live_def)
  moreover obtain m p u where "cp_pipeline ?plan = (m, p, u)" by (metis prod_cases3)
  ultimately have "m_expected (plan_model ?plan) = EVENT_NONE"
    using live(4) by (auto simp: plan_inv_def pipe_inv_def model_inv_def)
  then show pos: "p_event (adapter_position (pe_lifecycle e)) = EVENT_NONE"
    by (simp add: adapter_position_def plan_position_def)
  then show "events_get_expected_event e = EVENT_NONE"
    using assms(1) live(1) events_expected [OF assms(1) live(1)]
    by (auto simp: events_inv_def irq80_ok_state_def)
qed

lemma in_flight_expected:
  assumes "events_inv e" "\<not> pe_failed e" "in_flight c e"
  shows "in_event (pc_intent c) = events_get_expected_event e" "is_command_event (in_event (pc_intent c))"
proof -
  have "in_event (pc_intent c) = events_get_expected_event e \<and> is_command_event (in_event (pc_intent c))"
  proof (cases "pe_irq80_event e = EVENT_NONE")
    case False
    with assms show ?thesis
      by (auto simp: in_flight_def events_get_expected_event_def is_command_event_def)
  next
    case True
    let ?a = "pe_lifecycle e"
    have "la_cached ?a = Some c" "adapter_live ?a"
      using True assms by (simp_all add: in_flight_def events_inv_def events_base_def adapter_inv_def)
    then have "command_plan_peek (la_plan ?a) = Some (pc_intent c)" by (simp add: adapter_live_def)
    from peek_some(3,4) [OF this] True show ?thesis
      using events_expected [OF assms(1,2)] by (simp add: adapter_position_def plan_position_def)
  qed
  then show "in_event (pc_intent c) = events_get_expected_event e" "is_command_event (in_event (pc_intent c))"
    by blast+
qed

lemma acknowledgement_next:
  "is_command_event x \<Longrightarrow> \<not> is_command_event (the (plain_next x)) \<and> the (plain_next x) \<noteq> EVENT_NONE"
  by (cases x) (simp_all add: is_command_event_def)

text \<open>A completion that the transaction accepts moves the session to the acknowledgement.\<close>

lemma complete_out_accepted:
  assumes "trans_inv t" "transaction_complete_out env h g err t = (Accept, t')"
    and "\<not> pe_failed (ot_events t)"
  shows "\<not> ot_failed t' \<and> \<not> ot_pending t' \<and> \<not> pe_failed (ot_events t') \<and>
    ot_generation t' = ot_generation t \<and> ta_sink_call (ot_audit t') = ta_sink_call (ot_audit t) \<and>
    \<not> is_command_event (events_get_expected_event (ot_events t')) \<and> \<not> transaction_is_complete t'"
proof -
  have inv': "trans_inv t'" using complete_out_inv [OF assms(1), of env h g err] assms(2) by simp
  have live: "\<not> ot_failed t" "ot_pending t" "g = ot_generation t" "err = None"
    using assms(2) by (auto simp: transaction_complete_out_def transaction_fail_def split: if_split_asm option.splits)
  then have e: "events_inv (ot_events t)" "in_flight (ot_prepared t) (ot_events t)"
    using assms(1,3) by (auto simp: trans_inv_def)
  obtain e' where e': "events_commit env h (in_event (pc_intent (ot_prepared t))) (ot_events t) = (Accept, e')"
    "events_get_expected_event e' = the (plain_next (in_event (pc_intent (ot_prepared t))))" "\<not> pe_failed e'"
    by (rule commit_in_flight [OF e(1) assms(3) e(2)])
  have t': "ot_events t' = e'" "\<not> ot_failed t'" "\<not> ot_pending t'" "ot_generation t' = ot_generation t"
    "ta_sink_call (ot_audit t') = ta_sink_call (ot_audit t)"
    using assms(2) live e'(1) by (auto simp: transaction_complete_out_def Let_def clear_pending_def)
  have ack: "\<not> is_command_event (events_get_expected_event e')" "events_get_expected_event e' \<noteq> EVENT_NONE"
    using acknowledgement_next [OF in_flight_expected(2) [OF e(1) assms(3) e(2)]] e'(2) by simp_all
  moreover have "\<not> events_is_complete e'"
    using complete_expects_nothing(2) [of e'] ack(2) inv' t'(1) by (auto simp: trans_inv_def)
  ultimately show ?thesis
    using t' e'(3) by (simp add: transaction_is_complete_def)
qed

lemma submit_accepted:
  assumes "trans_inv t" "transaction_submit_next h sink t = (Accept, t')"
  shows "\<not> ot_failed t' \<and> ot_pending t' \<and> \<not> pe_failed (ot_events t') \<and> ot_generation t' = ot_generation t"
proof -
  have gate: "\<not> (ot_failed t \<or> ot_pending t \<or> events_is_complete (ot_events t))"
    using assms(2) by (auto simp: transaction_submit_next_def transaction_fail_def split: if_split_asm)
  obtain r e out where p: "events_prepare h (ot_events t) = (r, e, out)" by (metis prod_cases3)
  with assms(2) gate have r: "r = Accept"
    by (cases r) (auto simp: transaction_submit_next_def transaction_fail_def)
  note ready = prepare_in_flight [OF _ p [unfolded r]]
  have "events_inv (ot_events t)" using assms(1) by (simp add: trans_inv_def)
  note ready = ready [OF this]
  show ?thesis
    using assms(2) gate ready(2) p r
    by (auto simp: transaction_submit_next_def transaction_fail_def Let_def
        split: sum.splits prod.splits callback_reply.splits)
qed

section \<open>Invariant\<close>

lemma set_events_fields [simp]:
  "ub_transaction (binding_set_events e b) = (ub_transaction b)\<lparr>ot_events := e\<rparr>"
  "binding_events (binding_set_events e b) = e"
  "ub_generation (binding_set_events e b) = ub_generation b"
  "ub_audit (binding_set_events e b) = ub_audit b"
  "ub_terminal (binding_set_events e b) = ub_terminal b"
  "ub_ready (binding_set_events e b) = ub_ready b"
  "ub_failed (binding_set_events e b) = ub_failed b"
  by (simp_all add: binding_set_events_def binding_events_def)

lemma binding_user_fields [simp]:
  "ub_transaction (binding_set_user u b) =
     (ub_transaction b)\<lparr>ot_events := events_set_user u (ot_events (ub_transaction b))\<rparr>"
  "binding_events (binding_set_user u b) = events_set_user u (binding_events b)"
  "ub_generation (binding_set_user u b) = ub_generation b"
  "ub_audit (binding_set_user u b) = ub_audit b"
  "ub_terminal (binding_set_user u b) = ub_terminal b"
  "ub_ready (binding_set_user u b) = ub_ready b"
  "ub_failed (binding_set_user u b) = ub_failed b"
  by (simp_all add: binding_set_user_def binding_events_def)

lemma terminate_fields [simp]:
  "ub_transaction (binding_terminate x b) =
     (ub_transaction b)\<lparr>ot_events := events_close_zero_window (ot_events (ub_transaction b))\<rparr>"
  "ub_generation (binding_terminate x b) = ub_generation b"
  "ub_terminal (binding_terminate x b) = Some x"
  "ba_submit_attempt (ub_audit (binding_terminate x b)) = ba_submit_attempt (ub_audit b)"
  "ba_terminal (ub_audit (binding_terminate x b))"
  by (simp_all add: binding_terminate_def binding_events_def)

lemma events_set_user_fields [simp]:
  "pe_zero (events_set_user u e) = pe_zero e"
  "events_get_expected_event (events_set_user u e) = events_get_expected_event e"
  "events_is_complete (events_set_user u e) = events_is_complete e"
  by (simp_all add: events_set_user_def events_get_expected_event_def events_is_complete_def
      lifecycle_adapter_get_expected_event_def command_plan_get_expected_event_def)

lemma close_window_fields [simp]:
  "\<not> za_stale_window_open (pe_zero (events_close_zero_window e))"
  "pe_failed (events_close_zero_window e) = pe_failed e"
  by (simp_all add: events_close_zero_window_def close_zero_def)

lemma trans_inv_close [simp]:
  "trans_inv t \<Longrightarrow> trans_inv (t\<lparr>ot_events := events_close_zero_window (ot_events t)\<rparr>)"
  using transaction_machine_keeps [of t _ _ Owner_Close_Zero] by simp

lemma trans_inv_user [simp]:
  "trans_inv t \<Longrightarrow> trans_inv (t\<lparr>ot_events := events_set_user u (ot_events t)\<rparr>)"
  by (simp add: trans_inv_def)

text \<open>Calls other than a submission do not reach the sink; none changes the generation.\<close>

lemma transaction_failed_fields [simp]:
  "ot_generation (transaction_failed t) = ot_generation t"
  "ta_sink_call (ot_audit (transaction_failed t)) = ta_sink_call (ot_audit t)"
  "ot_events (transaction_failed t) = ot_events t"
  by (simp_all add: transaction_failed_def clear_pending_def)

lemma transaction_fail_snd [simp]: "snd (transaction_fail prior code t) = transaction_failed t"
  by (simp add: transaction_fail_def)

lemma quiet_calls:
  "ot_generation (snd (transaction_handle_a0 env h frame t)) = ot_generation t"
  "ta_sink_call (ot_audit (snd (transaction_handle_a0 env h frame t))) = ta_sink_call (ot_audit t)"
  "ot_generation (snd (transaction_handle_plaintext_chunk stack env h chunk t)) = ot_generation t"
  "ta_sink_call (ot_audit (snd (transaction_handle_plaintext_chunk stack env h chunk t))) = ta_sink_call (ot_audit t)"
  "ot_generation (snd (transaction_complete_out env h g err t)) = ot_generation t"
  "ta_sink_call (ot_audit (snd (transaction_complete_out env h g err t))) = ta_sink_call (ot_audit t)"
  by (auto simp: transaction_handle_a0_def transaction_handle_plaintext_chunk_def
      transaction_complete_out_def clear_pending_def Let_def split: prod.split reply.split option.split)

lemma submit_generation: "ot_generation (snd (transaction_submit_next h sink t)) = ot_generation t"
  by (auto simp: transaction_submit_next_def Let_def
      split: prod.split reply.split sum.split callback_reply.split)

lemma commit_window_closed:
  assumes "\<not> za_stale_window_open (pe_zero e)"
  shows "\<not> za_stale_window_open (pe_zero (snd (events_commit env h x e)))"
  using assms
  by (auto simp: events_commit_def events_fail_def events_failed_def close_zero_def
      events_close_zero_window_def Let_def split: prod.split reply.split)

lemma complete_out_window_closed:
  assumes "\<not> za_stale_window_open (pe_zero (ot_events t))"
  shows "\<not> za_stale_window_open (pe_zero (ot_events (snd (transaction_complete_out env h g err t))))"
  using commit_window_closed [OF assms, of env h "in_event (pc_intent (ot_prepared t))"] assms
  by (auto simp: transaction_complete_out_def clear_pending_def Let_def
      split: prod.split reply.split option.split)

definition session_waits :: "'u transaction \<Rightarrow> bool" where
  "session_waits t \<longleftrightarrow> \<not> ot_failed t \<and> \<not> pe_failed (ot_events t) \<and>
     (ot_pending t \<or> za_awaiting_sample_request (pe_zero (ot_events t)) \<or>
      \<not> is_command_event (events_get_expected_event (ot_events t)))"

definition binding_base :: "'u usb_binding \<Rightarrow> bool" where
  "binding_base b \<longleftrightarrow>
     trans_inv (ub_transaction b) \<and> ot_generation (ub_transaction b) = ub_generation b \<and>
     ba_submit_attempt (ub_audit b) = ta_sink_call (ot_audit (ub_transaction b)) \<and>
     ba_terminal (ub_audit b) = (ub_terminal b \<noteq> None) \<and>
     (ub_terminal b \<noteq> None \<longrightarrow> \<not> za_stale_window_open (pe_zero (binding_events b)))"

definition binding_inv :: "'u usb_binding \<Rightarrow> bool" where
  "binding_inv b \<longleftrightarrow> binding_base b \<and> (ub_terminal b = None \<longrightarrow> session_waits (ub_transaction b))"

lemma terminate_base: "binding_base b \<Longrightarrow> binding_base (binding_terminate x b)"
  by (simp add: binding_base_def binding_events_def)

lemma terminate_inv: "binding_base b \<Longrightarrow> binding_inv (binding_terminate x b)"
  by (simp add: binding_inv_def terminate_base)

lemma failed_inv: "binding_base b \<Longrightarrow> binding_inv (binding_failed b)"
  by (cases "ub_terminal b") (simp_all add: binding_failed_def terminate_inv, simp add: binding_inv_def)

lemma fail_inv: "binding_base b \<Longrightarrow> binding_inv (snd (binding_fail prior b))"
  by (simp add: binding_fail_def failed_inv)

lemma fail_keeps_inv: "binding_inv b \<Longrightarrow> binding_inv (snd (binding_fail prior b))"
  by (rule fail_inv) (simp add: binding_inv_def)

lemma fail_fst [simp]: "fst (binding_fail prior b) \<noteq> Accept"
  by (simp add: binding_fail_def)

lemma set_user_base: "binding_base b \<Longrightarrow> binding_base (binding_set_user u b)"
  by (simp add: binding_base_def binding_events_def)

lemma binding_user_inv: "binding_inv b \<Longrightarrow> binding_inv (binding_set_user u b)"
  by (simp add: binding_inv_def set_user_base session_waits_def)

lemma counted_base:
  assumes "binding_base b" "transaction_submit_next h sink (ub_transaction b) = (r, t)" "ub_terminal b = None"
  shows "binding_base (backend_sink_counted t b)"
  using assms(1,3) submit_inv [of "ub_transaction b" h sink] submit_generation [of h sink "ub_transaction b"] assms(2)
  by (simp add: binding_base_def backend_sink_counted_def)

lemma counted_terminal [simp]: "ub_terminal (backend_sink_counted t b) = ub_terminal b"
  "ub_transaction (backend_sink_counted t b) = t"
  by (simp_all add: backend_sink_counted_def)

lemma binding_submit_inv:
  assumes "binding_base b"
  shows "binding_inv (snd (binding_submit_next h k b))"
proof (cases "ub_terminal b = None")
  case True
  obtain r t where s: "transaction_submit_next h (bh_submit k) (ub_transaction b) = (r, t)" by (metis surj_pair)
  note base = counted_base [OF assms s True]
  have "session_waits t" if "r = Accept"
    using submit_accepted [of "ub_transaction b" h "bh_submit k" t] s that assms
    by (simp add: binding_base_def session_waits_def)
  then have "binding_inv (backend_sink_counted t b)" if "r = Accept"
    using that base by (simp add: binding_inv_def)
  with True s fail_inv [OF base] show ?thesis
    by (cases r) (simp_all add: binding_submit_next_def)
qed (simp add: binding_submit_next_def fail_inv assms)

lemma graph_ready_inv:
  assumes "binding_base b" "ub_terminal b = None" "\<not> ot_failed (ub_transaction b)"
    "\<not> pe_failed (binding_events b)"
  shows "binding_inv (snd (submit_if_graph_ready h k b))"
proof -
  obtain r b1 where s: "binding_submit_next h k b = (r, b1)" by (metis surj_pair)
  have inv1: "binding_inv b1" using binding_submit_inv [OF assms(1), of h k] s by simp
  define b2 where "b2 = b1\<lparr>ub_audit := (ub_audit b1)
      \<lparr>ba_graph_ready_submit := ba_graph_ready_submit (ub_audit b1) + 1\<rparr>\<rparr>"
  have "binding_inv b2" using inv1 by (simp add: b2_def binding_inv_def binding_base_def binding_events_def)
  have stay: "binding_inv b" if "session_waits (ub_transaction b)"
    using assms that by (simp add: binding_inv_def)
  let ?t = "ub_transaction b"
  have e: "events_inv (ot_events ?t)" using assms(1) by (simp add: binding_base_def trans_inv_def)
  have "session_waits ?t" if "transaction_has_pending ?t \<or> transaction_is_complete ?t \<or>
      za_awaiting_sample_request (binding_zero_audit b) \<or>
      \<not> expected_event_is_command (events_get_expected_event (binding_events b))"
    using that assms(3,4) complete_expects_nothing(2) [OF e]
    by (auto simp: session_waits_def transaction_has_pending_def transaction_is_complete_def
        binding_zero_audit_def binding_events_def expected_command_iff is_command_event_def)
  with stay s inv1 \<open>binding_inv b2\<close> assms(2) show ?thesis
    unfolding submit_if_graph_ready_def by (cases r) (auto simp: b2_def)
qed

lemma with_transaction_base:
  assumes "binding_base b" "trans_inv t" "ot_generation t = ot_generation (ub_transaction b)"
    "ta_sink_call (ot_audit t) = ta_sink_call (ot_audit (ub_transaction b))"
    "ub_terminal b \<noteq> None \<Longrightarrow> \<not> za_stale_window_open (pe_zero (ot_events t))"
  shows "binding_base (b\<lparr>ub_transaction := t\<rparr>)"
  using assms by (simp add: binding_base_def binding_events_def)

lemma audit_base:
  assumes "binding_base b" "ba_submit_attempt au = ba_submit_attempt (ub_audit b)"
    "ba_terminal au = ba_terminal (ub_audit b)"
  shows "binding_base (b\<lparr>ub_audit := au\<rparr>)"
  using assms by (simp add: binding_base_def binding_events_def)

lemma out_complete_inv:
  assumes "binding_inv b"
  shows "binding_inv (backend_out_complete env h k g err b)"
proof -
  have base: "binding_base b" using assms by (simp add: binding_inv_def)
  define b1 where "b1 = b\<lparr>ub_audit := (ub_audit b)\<lparr>ba_completion := ba_completion (ub_audit b) + 1,
      ba_completion_error := ba_completion_error (ub_audit b) + of_bool (err \<noteq> None)\<rparr>\<rparr>"
  have b1: "ub_transaction b1 = ub_transaction b" "ub_terminal b1 = ub_terminal b" by (simp_all add: b1_def)
  obtain r t where c: "transaction_complete_out env h g err (ub_transaction b1) = (r, t)" by (metis surj_pair)
  define b2 where "b2 = b1\<lparr>ub_transaction := t\<rparr>"
  have tr: "trans_inv (ub_transaction b)" using base by (simp add: binding_base_def)
  have base1: "binding_base b1" unfolding b1_def by (rule audit_base [OF base]) simp_all
  have base2: "binding_base b2"
    unfolding b2_def
  proof (rule with_transaction_base [OF base1])
    show "trans_inv t" using complete_out_inv [OF tr, of env h g err] c b1 by simp
    show "ot_generation t = ot_generation (ub_transaction b1)"
      "ta_sink_call (ot_audit t) = ta_sink_call (ot_audit (ub_transaction b1))"
      using quiet_calls(5,6) [of env h g err "ub_transaction b1"] c by simp_all
    show "\<not> za_stale_window_open (pe_zero (ot_events t))" if "ub_terminal b1 \<noteq> None"
      using that base1 complete_out_window_closed [of "ub_transaction b1" env h g err] c
      by (simp add: binding_base_def binding_events_def)
  qed
  have fields: "ub_terminal b2 = ub_terminal b" "ub_transaction b2 = t" by (simp_all add: b2_def b1)
  have ok2: "binding_inv b2" if "r = Accept \<or> ub_terminal b \<noteq> None"
  proof (cases "ub_terminal b")
    case None
    then have "session_waits (ub_transaction b)" "r = Accept" using assms that by (simp_all add: binding_inv_def)
    with complete_out_accepted [OF tr, of env h g err t] c b1 have "session_waits t"
      by (simp add: session_waits_def)
    then show ?thesis using base2 fields by (simp add: binding_inv_def)
  qed (use base2 fields in \<open>simp add: binding_inv_def\<close>)
  obtain q u where rd: "bh_ready k b2 (binding_user b2) = (q, u)" by (metis surj_pair)
  have out: "binding_inv (out_complete_outcome k r b2)"
  proof (cases r)
    case Accept
    then show ?thesis
      using ok2 binding_user_inv [OF ok2] terminate_inv [OF set_user_base [OF base2]]
      by (cases q) (simp_all add: out_complete_outcome_def rd)
  next
    case (Reject x)
    show ?thesis
    proof (cases "ub_terminal b")
      case None
      then show ?thesis
        using Reject fields(1) terminate_inv [OF base2] by (simp add: out_complete_outcome_def)
    next
      case (Some y)
      then show ?thesis
        using ok2 fields(1) by (simp add: out_complete_outcome_def)
    qed
  qed
  have "backend_out_complete env h k g err b = report_terminal k (out_complete_outcome k r b2)"
    unfolding backend_out_complete_def Let_def b1_def [symmetric] c b2_def by simp
  then show ?thesis
    using out binding_user_inv [OF out] by (simp add: report_terminal_def split: option.split)
qed

lemma cancel_inv:
  assumes "binding_inv b"
  shows "binding_inv (binding_cancel k b)"
proof (cases "ub_terminal b \<noteq> None \<or> transaction_is_complete (ub_transaction b)")
  case False
  have base: "binding_base b" using assms by (simp add: binding_inv_def)
  define b1 where "b1 = binding_set_events (events_close_zero_window (binding_events b)) b"
  define b2 where "b2 = b1\<lparr>ub_audit := (ub_audit b1)\<lparr>ba_cancellation := ba_cancellation (ub_audit b1) + 1\<rparr>\<rparr>"
  define b3 where "b3 = binding_set_user (bh_cancel k (binding_user b2)) b2"
  have "binding_base b1" using base by (simp add: b1_def binding_base_def binding_events_def)
  then have "binding_base b2" unfolding b2_def by (rule audit_base) simp_all
  then have base3: "binding_base b3" unfolding b3_def by (rule set_user_base)
  have "binding_base (b3\<lparr>ub_transaction := transaction_cancel (ub_transaction b3)\<rparr>)"
  proof (rule with_transaction_base [OF base3])
    show "trans_inv (transaction_cancel (ub_transaction b3))"
      using transaction_machine_keeps [of "ub_transaction b3" _ _ Transaction_Cancel] base3
      by (simp add: binding_base_def)
    show "\<not> za_stale_window_open (pe_zero (ot_events (transaction_cancel (ub_transaction b3))))"
      if "ub_terminal b3 \<noteq> None" using that base3
      by (simp add: transaction_cancel_def binding_base_def binding_events_def)
  qed (simp_all add: transaction_cancel_def)
  from fail_inv [OF this] False show ?thesis
    by (simp add: binding_cancel_def Let_def flip: b1_def) (simp add: b3_def b2_def)
qed (simp add: binding_cancel_def assms)

lemma graph_ready_after:
  assumes "binding_base b" "ub_terminal b = None" "trans_inv t" "\<not> ot_failed t" "\<not> pe_failed (ot_events t)"
    "ot_generation t = ot_generation (ub_transaction b)"
    "ta_sink_call (ot_audit t) = ta_sink_call (ot_audit (ub_transaction b))"
  shows "binding_inv (snd (submit_if_graph_ready h k (b\<lparr>ub_transaction := t\<rparr>)))"
  by (rule graph_ready_inv) (use assms with_transaction_base [OF assms(1,3,6,7)] in \<open>simp_all add: binding_events_def\<close>)

text \<open>An owner's call on the events.\<close>

lemma owner_base:
  assumes "binding_base b" "ub_terminal b = None" "trans_inv ((ub_transaction b)\<lparr>ot_events := e\<rparr>)"
  shows "binding_base (binding_set_events e b)"
  using assms by (simp add: binding_base_def)

lemma handle_fail:
  "transaction_handle_a0 env h frame t = (Accept, t') \<Longrightarrow> \<not> ot_failed t' \<and> \<not> pe_failed (ot_events t')"
  "transaction_handle_plaintext_chunk stack env h chunk t = (Accept, t') \<Longrightarrow>
     \<not> ot_failed t' \<and> \<not> pe_failed (ot_events t')"
  by (auto simp: transaction_handle_a0_def transaction_handle_plaintext_chunk_def transaction_fail_def
      split: if_split_asm prod.splits reply.splits dest: handle_a0_live plaintext_chunk_live)

lemma binding_chunk_inv:
  assumes "binding_inv b"
  shows "binding_inv (snd (binding_handle_plaintext_chunk stack env h k chunk b))"
proof (cases "ub_terminal b = None")
  case True
  have base: "binding_base b" "trans_inv (ub_transaction b)"
    using assms by (simp_all add: binding_inv_def binding_base_def)
  obtain r t where c: "transaction_handle_plaintext_chunk stack env h chunk (ub_transaction b) = (r, t)"
    by (metis surj_pair)
  have t: "trans_inv t" "ot_generation t = ot_generation (ub_transaction b)"
    "ta_sink_call (ot_audit t) = ta_sink_call (ot_audit (ub_transaction b))"
    using handle_inv(2) [OF base(2), of stack env h chunk] quiet_calls(3,4) [of stack env h chunk "ub_transaction b"] c
    by simp_all
  show ?thesis
  proof (cases r)
    case Accept
    with True c handle_fail(2) [OF c [unfolded Accept]] graph_ready_after [OF base(1) True t(1) _ _ t(2,3)]
    show ?thesis by (simp add: binding_handle_plaintext_chunk_def)
  next
    case (Reject x)
    have "binding_base (b\<lparr>ub_transaction := t\<rparr>)"
      by (rule with_transaction_base [OF base(1) t]) (simp add: True)
    with True c Reject show ?thesis by (simp add: binding_handle_plaintext_chunk_def fail_inv)
  qed
qed (use assms in \<open>simp add: binding_handle_plaintext_chunk_def fail_keeps_inv\<close>)

lemma stale_accept:
  assumes "events_consume_stale_release frame e = (Accept, handled, e')"
  shows "pe_failed e' = pe_failed e" "events_get_expected_event e' = events_get_expected_event e"
    "za_awaiting_sample_request (pe_zero e') = za_awaiting_sample_request (pe_zero e)"
    "\<not> handled \<Longrightarrow> e' = e"
  using assms
  by (auto simp: events_consume_stale_release_def events_fail_def Let_def events_get_expected_event_def
      split: option.splits if_split_asm sum.splits)

lemma binding_a0_inv:
  assumes "binding_inv b"
  shows "binding_inv (snd (binding_handle_a0 env h k frame b))"
proof (cases "ub_terminal b = None")
  case True
  have base: "binding_base b" "trans_inv (ub_transaction b)" and waits: "session_waits (ub_transaction b)"
    using assms True by (simp_all add: binding_inv_def binding_base_def)
  obtain r handled e where s: "events_consume_stale_release frame (binding_events b) = (r, handled, e)"
    by (metis prod_cases3)
  define b1 where "b1 = binding_set_events e b"
  have tr1: "trans_inv (ub_transaction b1)"
    using transaction_machine_keeps [OF base(2), of h "bh_submit k" "Owner_Stale frame"] s
    by (simp add: b1_def binding_events_def)
  have base1: "binding_base b1" unfolding b1_def by (rule owner_base [OF base(1) True]) (use tr1 in \<open>simp add: b1_def\<close>)
  have b1: "ub_terminal b1 = None" using True by (simp add: b1_def)
  obtain q t where c: "transaction_handle_a0 env h frame (ub_transaction b1) = (q, t)" by (metis surj_pair)
  have t: "trans_inv t" "ot_generation t = ot_generation (ub_transaction b1)"
    "ta_sink_call (ot_audit t) = ta_sink_call (ot_audit (ub_transaction b1))"
    using handle_inv(1) [OF tr1, of env h frame] quiet_calls(1,2) [of env h frame "ub_transaction b1"] c
    by simp_all
  have base2: "binding_base (b1\<lparr>ub_transaction := t\<rparr>)"
    by (rule with_transaction_base [OF base1 t]) (simp add: b1)
  have go: "binding_inv (snd (submit_if_graph_ready h k (b1\<lparr>ub_transaction := t\<rparr>)))" if "q = Accept"
    using that c handle_fail(1) [of env h frame "ub_transaction b1" t] graph_ready_after [OF base1 b1 t(1) _ _ t(2,3)]
    by simp
  have "binding_inv b1" if "r = Accept"
    using waits base1 stale_accept(1-3) [OF s [unfolded that]]
    by (simp add: binding_inv_def session_waits_def b1_def binding_events_def)
  with go fail_inv [OF base1] fail_inv [OF base2] True s c show ?thesis
    by (cases r; cases handled; cases q) (simp_all add: binding_handle_a0_def Let_def del: set_events_fields flip: b1_def)
qed (use assms in \<open>simp add: binding_handle_a0_def fail_keeps_inv\<close>)

lemma request_zero_binding_inv:
  assumes "binding_inv b"
  shows "binding_inv (snd (binding_request_zero_sample h k b))"
proof (cases "ub_terminal b \<noteq> None \<or> binding_has_pending b")
  case True
  with assms show ?thesis by (simp add: binding_request_zero_sample_def fail_keeps_inv)
next
  case False
  have base: "binding_base b" "trans_inv (ub_transaction b)" and waits: "session_waits (ub_transaction b)"
    using assms False by (simp_all add: binding_inv_def binding_base_def)
  obtain r e where s: "events_request_zero_sample (binding_events b) = (r, e)" by (metis surj_pair)
  have "trans_inv ((ub_transaction b)\<lparr>ot_events := e\<rparr>)"
    using transaction_machine_keeps [OF base(2), of h "bh_submit k" Owner_Request_Zero] s
    by (simp add: binding_events_def)
  from owner_base [OF base(1) _ this] False have base1: "binding_base (binding_set_events e b)" by simp
  have "\<not> pe_failed e" if "r = Accept"
    using s that by (auto simp: events_request_zero_sample_def events_fail_def split: if_split_asm)
  then have "binding_inv (snd (submit_if_graph_ready h k (binding_set_events e b)))" if "r = Accept"
    using that False waits by (intro graph_ready_inv base1) (simp_all add: session_waits_def)
  with fail_inv [OF base1] False s show ?thesis
    by (cases r) (simp_all add: binding_request_zero_sample_def)
qed

section \<open>Sessions\<close>

datatype binding_call =
    Binding_Set_Error bool
  | Binding_Set_Ready bool
  | Binding_Submit
  | Binding_A0 allocator "bytes option"
  | Binding_Chunk "u16 list" allocator "bytes option"
  | Binding_Request_Zero
  | Binding_Out_Complete allocator u64 "gerror option"
  | Binding_Cancel

text \<open>The last two and the first return nothing.\<close>

fun binding_machine ::
    "'u handlers \<Rightarrow> 'u binding_hooks \<Rightarrow> (binding_call, gerror, 'u usb_binding) machine" where
  "binding_machine h k (Binding_Set_Error given) b = (Accept, binding_set_error_callback given b)"
| "binding_machine h k (Binding_Set_Ready given) b = binding_set_ready_callback given b"
| "binding_machine h k Binding_Submit b = binding_submit_next h k b"
| "binding_machine h k (Binding_A0 env frame) b = binding_handle_a0 env h k frame b"
| "binding_machine h k (Binding_Chunk stack env chunk) b = binding_handle_plaintext_chunk stack env h k chunk b"
| "binding_machine h k Binding_Request_Zero b = binding_request_zero_sample h k b"
| "binding_machine h k (Binding_Out_Complete env g err) b = (Accept, backend_out_complete env h k g err b)"
| "binding_machine h k Binding_Cancel b = (Accept, binding_cancel k b)"

lemma binding_machine_keeps:
  assumes "binding_inv b"
  shows "binding_inv (snd (binding_machine h k call b))"
proof (cases call)
  case (Binding_Set_Error given)
  with assms show ?thesis
    by (simp add: binding_set_error_callback_def binding_inv_def binding_base_def binding_events_def)
next
  case (Binding_Set_Ready given)
  have "binding_inv (b\<lparr>ub_ready := True\<rparr>)"
    using assms by (simp add: binding_inv_def binding_base_def binding_events_def)
  with assms show ?thesis by (simp add: Binding_Set_Ready binding_set_ready_callback_def fail_keeps_inv)
next
  case Binding_Submit
  with assms show ?thesis by (simp add: binding_submit_inv binding_inv_def [of b])
qed (simp_all add: assms out_complete_inv cancel_inv binding_a0_inv binding_chunk_inv request_zero_binding_inv)

text \<open>
  A binding is created over a session that its owner has configured (contact callback, zero
  recovery) and that waits for the first touch.
\<close>

definition binding_started :: "'u handlers \<Rightarrow> 'u usb_binding \<Rightarrow> bool" where
  "binding_started h start \<longleftrightarrow>
     (\<exists>config u first events generation.
        post_tls_events_new config u = Inr first \<and> reach (events_machine h) first events \<and>
        events_get_expected_event events = IRQ2 \<and> usb_binding_new events generation = Inr start)"

lemma binding_start_inv:
  assumes "binding_started h start"
  shows "binding_inv start"
proof -
  obtain config u first events generation where s: "post_tls_events_new config u = Inr first"
    "reach (events_machine h) first events" "events_get_expected_event events = IRQ2"
    "usb_binding_new events generation = Inr start"
    using assms by (auto simp: binding_started_def)
  then obtain t where t: "outbound_transaction_new events generation = Inr t" "ub_transaction start = t"
    "ub_generation start = generation" "ub_audit start = binding_audit_zero" "ub_terminal start = None"
    by (auto simp: usb_binding_new_def split: if_split_asm sum.splits)
  have "events_inv events"
    using events_reach_inv [OF s(1,2)] by simp
  then have "trans_inv t" using transaction_new_inv [OF t(1)] by simp
  moreover have "ot_events t = events" "ot_generation t = generation" "\<not> ot_failed t"
    "ta_sink_call (ot_audit t) = 0"
    using t(1) by (auto simp: outbound_transaction_new_def transaction_audit_zero_def split: if_split_asm)
  moreover have "\<not> pe_failed events"
    using s(3) by (auto simp: events_get_expected_event_def split: if_split_asm)
  ultimately show ?thesis
    using t(2-) s(3)
    by (simp add: binding_inv_def binding_base_def session_waits_def binding_audit_zero_def is_command_event_def)
qed

lemma binding_reach_inv:
  assumes "binding_started h start" "reach (binding_machine h k) start b"
  shows "binding_inv b"
proof -
  have "machine_invariant (binding_machine h k) start binding_inv"
    by unfold_locales (use binding_start_inv [OF assms(1)] binding_machine_keeps in auto)
  then show ?thesis
    using assms(2) by (rule machine_invariant.inv_reach)
qed

section \<open>A terminal binding\<close>

lemma failed_terminal [simp]:
  "ub_terminal b = Some x \<Longrightarrow> binding_failed b = b"
  "ub_terminal b = Some x \<Longrightarrow> binding_fail None b = (Reject x, b)"
  by (simp_all add: binding_failed_def binding_fail_def)

lemma out_complete_terminal:
  assumes "ub_terminal b = Some x"
  shows "ub_terminal (backend_out_complete env h k g err b) = Some x"
    "ta_sink_call (ot_audit (ub_transaction (backend_out_complete env h k g err b))) =
       ta_sink_call (ot_audit (ub_transaction b))"
  using assms quiet_calls(6) [of env h g err "ub_transaction b"]
  by (simp_all add: backend_out_complete_def Let_def case_prod_beta out_complete_outcome_def
      report_terminal_def)

definition void_call :: "binding_call \<Rightarrow> bool" where
  "void_call call \<longleftrightarrow> (case call of Binding_Set_Error _ \<Rightarrow> True | Binding_Out_Complete _ _ _ \<Rightarrow> True
     | Binding_Cancel \<Rightarrow> True | _ \<Rightarrow> False)"

lemma terminal_step:
  assumes "ub_terminal b = Some x"
  shows "ub_terminal (snd (binding_machine h k call b)) = Some x"
    "ta_sink_call (ot_audit (ub_transaction (snd (binding_machine h k call b)))) =
       ta_sink_call (ot_audit (ub_transaction b))"
    "fst (binding_machine h k call b) = (if void_call call then Accept else Reject x)"
  using assms out_complete_terminal [OF assms]
  by (cases call; simp add: void_call_def binding_set_error_callback_def binding_set_ready_callback_def
      binding_submit_next_def binding_handle_a0_def binding_handle_plaintext_chunk_def
      binding_request_zero_sample_def binding_cancel_def)+

lemma terminal_run:
  assumes "ub_terminal b = Some x"
  shows "ub_terminal (snd (run_ops (binding_machine h k) calls b)) = Some x \<and>
    ta_sink_call (ot_audit (ub_transaction (snd (run_ops (binding_machine h k) calls b)))) =
       ta_sink_call (ot_audit (ub_transaction b)) \<and>
    fst (run_ops (binding_machine h k) calls b) =
      map (\<lambda>call. if void_call call then Accept else Reject x) calls"
  using assms
proof (induction calls arbitrary: b)
  case (Cons call calls)
  from Cons.IH [OF terminal_step(1) [OF Cons.prems, of h k call]] terminal_step [OF Cons.prems, of h k call]
  show ?case by simp
qed simp

lemma live_events_not_failed:
  assumes "events_inv e" "\<not> pe_failed e"
  shows "\<not> events_is_failed e"
proof -
  let ?plan = "la_plan (pe_lifecycle e)"
  have a: "adapter_inv (pe_lifecycle e)" "\<not> la_failed (pe_lifecycle e)"
    using assms by (simp_all add: events_inv_def events_base_def)
  then have plan: "plan_inv ?plan" "\<not> cp_failed ?plan" "\<not> fs_failed (la_fdt (pe_lifecycle e))"
    by (simp_all add: adapter_inv_def adapter_live_def)
  obtain m p u where "cp_pipeline ?plan = (m, p, u)" by (metis prod_cases3)
  then have "\<not> command_plan_is_failed ?plan"
    using plan by (auto simp: plan_inv_def pipe_inv_def command_plan_is_failed_def pipeline_is_failed_def)
  then show ?thesis
    using assms(2) a(2) plan(3) by (simp add: events_is_failed_def lifecycle_adapter_is_failed_def)
qed

section \<open>Properties\<close>

text \<open>
  Claim C21. The session never stalls: in every reachable state of a binding that has not
  failed, exactly one of three things holds: a command is in flight, the enrollment is
  complete, or the binding asks for a receive. A command in flight is the one the session
  expects, and its frame is held.
\<close>

theorem binding_never_stalls:
  assumes "binding_started h start" "reach (binding_machine h k) start b" "ub_terminal b = None"
  shows "\<not> binding_is_failed b \<and>
    of_bool (binding_has_pending b) + of_bool (binding_is_complete b) + of_bool (binding_needs_receive b) = (1 :: nat) \<and>
    (binding_has_pending b \<longrightarrow> ot_pending_frame (ub_transaction b) \<noteq> None \<and>
       in_event (pc_intent (ot_prepared (ub_transaction b))) = events_get_expected_event (binding_events b) \<and>
       expected_event_is_command (events_get_expected_event (binding_events b)))"
proof -
  let ?t = "ub_transaction b"
  have inv: "trans_inv ?t" "session_waits ?t"
    using binding_reach_inv [OF assms(1,2)] assms(3) by (simp_all add: binding_inv_def binding_base_def)
  have live: "\<not> ot_failed ?t" "\<not> pe_failed (ot_events ?t)" "events_inv (ot_events ?t)"
    using inv by (simp_all add: session_waits_def trans_inv_def)
  have "\<not> events_is_failed (ot_events ?t)"
    by (rule live_events_not_failed [OF live(3,2)])
  moreover have "ot_pending_frame ?t \<noteq> None \<and>
      in_event (pc_intent (ot_prepared ?t)) = events_get_expected_event (ot_events ?t) \<and>
      is_command_event (events_get_expected_event (ot_events ?t))" if "ot_pending ?t"
  proof -
    have "ot_pending_frame ?t \<noteq> None" "in_flight (ot_prepared ?t) (ot_events ?t)"
      using inv(1) live that by (auto simp: trans_inv_def)
    with in_flight_expected [OF live(3,2)] show ?thesis by metis
  qed
  ultimately show ?thesis
    using assms(3) live(1) inv(2)
    by (auto simp: binding_is_failed_def transaction_is_failed_def binding_has_pending_def
        binding_is_complete_def binding_needs_receive_def transaction_has_pending_def
        transaction_is_complete_def session_waits_def binding_events_def binding_zero_audit_def
        expected_command_iff)
qed

text \<open>
  Failure is final: once a reachable binding has failed with an error, every later
  call that can report is refused with that same error, the sink is never called again, the
  error never changes, the late-release window is closed, and the binding neither holds a
  command nor asks for a receive.
\<close>

theorem terminal_binding_inert:
  assumes "binding_started h start" "reach (binding_machine h k) start b" "ub_terminal b = Some x"
  shows "case run_ops (binding_machine h k) calls b of (replies, b') \<Rightarrow>
    replies = map (\<lambda>call. if void_call call then Accept else Reject x) calls \<and>
    ub_terminal b' = Some x \<and> ba_terminal (ub_audit b') \<and>
    ba_submit_attempt (ub_audit b') = ba_submit_attempt (ub_audit b) \<and>
    \<not> za_stale_window_open (binding_zero_audit b') \<and>
    \<not> binding_has_pending b' \<and> \<not> binding_needs_receive b' \<and> \<not> binding_is_complete b'"
proof -
  let ?b = "snd (run_ops (binding_machine h k) calls b)"
  have inv: "binding_base b" "binding_base ?b"
    using binding_reach_inv [OF assms(1,2)]
      binding_reach_inv [OF assms(1) reach_run_ops [OF assms(2), of calls]]
    by (simp_all add: binding_inv_def)
  from inv terminal_run [OF assms(3), of h k calls] show ?thesis
    by (simp add: case_prod_beta binding_base_def binding_has_pending_def binding_needs_receive_def
        binding_is_complete_def binding_zero_audit_def)
qed

text \<open>
  After a positive completion the session listens: when a reachable binding has a
  command in flight, its completion for the same generation commits it, calls the ready
  callback exactly with a binding that needs a receive, and leaves the binding alive and
  needing a receive; so a ready callback that refuses only a binding that needs none never
  fails the session.
\<close>

theorem completion_wants_receive:
  assumes "binding_started h start" "reach (binding_machine h k) start b" "binding_has_pending b"
    and "\<And>b' u. binding_needs_receive b' \<Longrightarrow> fst (bh_ready k b' u) = Callback_True"
  shows "ub_terminal (backend_out_complete env h k (ub_generation b) None b) = None \<and>
    binding_needs_receive (backend_out_complete env h k (ub_generation b) None b) \<and>
    ta_committed_after_completion (ot_audit (ub_transaction (backend_out_complete env h k (ub_generation b) None b))) =
      ta_committed_after_completion (ot_audit (ub_transaction b)) + 1"
proof -
  let ?t = "ub_transaction b"
  have pend: "ub_terminal b = None" "transaction_has_pending ?t"
    using assms(3) by (simp_all add: binding_has_pending_def)
  then have inv: "trans_inv ?t" "ot_generation ?t = ub_generation b" "session_waits ?t"
    using binding_reach_inv [OF assms(1,2)] by (simp_all add: binding_inv_def binding_base_def)
  have live: "\<not> ot_failed ?t" "ot_pending ?t" "\<not> pe_failed (ot_events ?t)" "events_inv (ot_events ?t)"
    "in_flight (ot_prepared ?t) (ot_events ?t)"
    using pend(2) inv by (auto simp: transaction_has_pending_def session_waits_def trans_inv_def)
  obtain e' where e': "events_commit env h (in_event (pc_intent (ot_prepared ?t))) (ot_events ?t) = (Accept, e')"
    by (rule commit_in_flight [OF live(4,3,5)])
  then obtain t where c: "transaction_complete_out env h (ub_generation b) None ?t = (Accept, t)"
    "ta_committed_after_completion (ot_audit t) = ta_committed_after_completion (ot_audit ?t) + 1"
    using live inv(2) by (simp add: transaction_complete_out_def Let_def clear_pending_def)
  note after = complete_out_accepted [OF inv(1) c(1) live(3)]
  define b1 where "b1 = b\<lparr>ub_audit := (ub_audit b)\<lparr>ba_completion := ba_completion (ub_audit b) + 1\<rparr>\<rparr>"
  define b2 where "b2 = b1\<lparr>ub_transaction := t\<rparr>"
  have b2: "ub_terminal b2 = None" "ub_transaction b2 = t" using pend by (simp_all add: b2_def b1_def)
  have needs: "binding_needs_receive b2"
    using after b2 by (simp add: binding_needs_receive_def transaction_has_pending_def binding_events_def
        expected_command_iff)
  obtain u where rd: "bh_ready k b2 (binding_user b2) = (Callback_True, u)"
    using assms(4) [OF needs, of "binding_user b2"] by (metis prod.collapse)
  have "out_complete_outcome k Accept b2 = b2 \<or> out_complete_outcome k Accept b2 = binding_set_user u b2"
    using b2 rd by (simp add: out_complete_outcome_def)
  moreover have "binding_needs_receive (binding_set_user u b2)"
    using needs by (simp add: binding_needs_receive_def binding_zero_audit_def transaction_has_pending_def
        transaction_is_complete_def)
  moreover have "backend_out_complete env h k (ub_generation b) None b =
      report_terminal k (out_complete_outcome k Accept b2)"
    using c(1) by (simp add: backend_out_complete_def b2_def b1_def)
  ultimately show ?thesis
    using b2 needs c(2) by (auto simp: report_terminal_def)
qed

text \<open>A binding over the session of the earlier witnesses: its first touch, and a cancellation.\<close>

definition open_hooks :: "unit binding_hooks" where
  "open_hooks = \<lparr>bh_submit = open_sink, bh_cancel = (\<lambda>u. u), bh_out_outstanding = (\<lambda>u. 0),
     bh_ready = (\<lambda>b u. (if binding_needs_receive b then Callback_True else Callback_False None, u)),
     bh_failed = (\<lambda>x u. u)\<rparr>"

definition binding_start :: "unit usb_binding" where
  "binding_start = projr (usb_binding_new session_start 1)"

definition first_touch_call :: binding_call where
  "first_touch_call = (case wire 0x32 ([2, 0, 1, 0] @ touch_report) of Events_A0 env frame \<Rightarrow> Binding_A0 env frame)"

definition binding_touched :: "unit usb_binding" where
  "binding_touched = snd (binding_machine quiet open_hooks first_touch_call binding_start)"

definition binding_cancelled :: "unit usb_binding" where
  "binding_cancelled = snd (binding_machine quiet open_hooks Binding_Cancel binding_start)"

lemma binding_start_fields:
  "ub_transaction binding_start = transaction_start" "ub_terminal binding_start = None"
  by (simp_all add: binding_start_def usb_binding_new_def transaction_start_def outbound_transaction_new_def)

lemma binding_start_started: "binding_started quiet binding_start"
proof -
  have "events_get_expected_event session_start = IRQ2" by code_simp
  moreover have "usb_binding_new session_start 1 = Inr binding_start"
    by (simp add: binding_start_def usb_binding_new_def outbound_transaction_new_def)
  ultimately show ?thesis
    using session_new reach_start [of "events_machine quiet" session_start]
    by (auto simp: binding_started_def)
qed

lemma reach_touched: "reach (binding_machine quiet open_hooks) binding_start binding_touched"
  unfolding binding_touched_def by (intro reach_step reach_start)

lemma reach_cancelled: "reach (binding_machine quiet open_hooks) binding_start binding_cancelled"
  unfolding binding_cancelled_def by (intro reach_step reach_start)

lemma touch_no_late_release:
  "za_stale_window_open (pe_zero session_start) = False" "ot_events transaction_start = session_start"
  "events_get_expected_event (ot_events before_submit) = COMMAND_22"
  "za_awaiting_sample_request (pe_zero (ot_events before_submit)) = False"
  "fst (transaction_machine quiet open_sink touched_call transaction_start) = Accept"
  by (code_simp, simp add: transaction_start_def outbound_transaction_new_def, code_simp, code_simp, code_simp)

lemma binding_touched_pending: "binding_has_pending binding_touched"
proof -
  obtain env frame where w: "touched_call = Transaction_A0 env (Some frame)" "first_touch_call = Binding_A0 env (Some frame)"
    by (simp add: touched_call_def first_touch_call_def wire_def)
  have stale: "events_consume_stale_release (Some frame) session_start = (Accept, False, session_start)"
    by (simp add: events_consume_stale_release_def touch_no_late_release(1))
  have a0: "transaction_handle_a0 env quiet (Some frame) transaction_start = (Accept, before_submit)"
    using touch_no_late_release(5) by (simp add: before_submit_def w prod_eq_iff)
  have sub: "transaction_submit_next quiet open_sink before_submit = (Accept, with_command)"
  proof -
    have "fst (transaction_submit_next quiet open_sink before_submit) = Accept"
      using before_submit_ready submit_sends [OF transaction_reach_inv [OF session_new transaction_start_new reach_before],
          of quiet _ _ open_sink]
      by (fastforce simp: open_sink_def)
    then show ?thesis by (simp add: with_command_def prod_eq_iff)
  qed
  define b1 where "b1 = binding_start\<lparr>ub_transaction := before_submit\<rparr>"
  have same: "binding_set_events session_start binding_start = binding_start"
    using binding_start_fields touch_no_late_release(2) by (simp add: binding_set_events_def)
  have step: "binding_touched = snd (submit_if_graph_ready quiet open_hooks b1)"
    using stale a0 same binding_start_fields touch_no_late_release(2)
    by (simp add: binding_touched_def w(2) binding_handle_a0_def binding_events_def b1_def Let_def
        del: set_events_fields)
  have "binding_submit_next quiet open_hooks b1 = (Accept, backend_sink_counted with_command b1)"
    using sub binding_start_fields(2) by (simp add: binding_submit_next_def b1_def open_hooks_def)
  then have "ub_transaction binding_touched = with_command \<and> ub_terminal binding_touched = None"
    unfolding step submit_if_graph_ready_def
    using before_submit_ready touch_no_late_release(3,4) binding_start_fields(2)
    by (simp add: b1_def transaction_has_pending_def transaction_is_complete_def binding_zero_audit_def
        binding_events_def backend_sink_counted_def)
  then show ?thesis using with_command_pending by (simp add: binding_has_pending_def)
qed

lemma binding_never_stalls_witness:
  "\<not> binding_is_failed binding_touched \<and> \<not> binding_needs_receive binding_touched \<and>
   events_get_expected_event (binding_events binding_touched) =
     in_event (pc_intent (ot_prepared (ub_transaction binding_touched)))"
  using binding_never_stalls [OF binding_start_started reach_touched] binding_touched_pending
  by (simp add: binding_has_pending_def)

lemma terminal_binding_inert_witness:
  "run_ops (binding_machine quiet open_hooks) [Binding_Submit, Binding_Cancel] binding_cancelled =
     ([Reject (Binding_Error USB_BINDING_ERROR_STATE), Accept],
      snd (run_ops (binding_machine quiet open_hooks) [Binding_Submit, Binding_Cancel] binding_cancelled))"
proof -
  have "\<not> transaction_is_complete transaction_start" by code_simp
  then have "ub_terminal binding_cancelled = Some (Binding_Error USB_BINDING_ERROR_STATE)"
    using binding_start_fields
    by (simp add: binding_cancelled_def binding_cancel_def Let_def binding_fail_def binding_failed_def)
  from terminal_binding_inert [OF binding_start_started reach_cancelled this, of "[Binding_Submit, Binding_Cancel]"]
  show ?thesis by (simp add: case_prod_beta void_call_def prod_eq_iff)
qed

lemma completion_wants_receive_witness:
  "binding_needs_receive (backend_out_complete plenty quiet open_hooks (ub_generation binding_touched) None binding_touched)"
  using completion_wants_receive [OF binding_start_started reach_touched binding_touched_pending, of plenty]
  by (simp add: open_hooks_def)

end
