(* ===== verification/Usb_Router.thy ===== *)
theory Usb_Router
  imports Errors
begin

text \<open>
  The receive router (\<^verbatim>\<open>goodix_usb_router.c\<close>): it reassembles the byte stream of the bulk
  endpoint into A0/B0 frames and hands each to its consumer. The consumers are arguments;
  a consumer may call back into the router while it runs (request the next receive, cancel,
  begin a generation), so it returns the requests it makes, in order. It can read the
  router, hence it knows the reply of each request it decides to make. Consumers do not
  report a completed receive from inside the callback: that is the backend's task.
\<close>

record usb_router =
  rt_pending :: bytes
  rt_generation :: u64
  rt_outstanding_generation :: u64
  rt_outstanding :: u32
  rt_max_outstanding :: u32
  rt_delivery_count :: u64
  rt_terminal_fence :: bool
  rt_terminal_error :: "router_error option"

datatype router_request = Request_Receive | Request_Cancel | Request_Begin u64

type_synonym 'u consumer = "u8 \<Rightarrow> bytes \<Rightarrow> usb_router \<Rightarrow> 'u \<Rightarrow> router_request list \<times> 'u"

text \<open>The bytes of a completion: a buffer, or a null pointer with a length.\<close>

datatype completion = Received bytes | Absent_Data nat

primrec completion_length :: "completion \<Rightarrow> nat" where
  "completion_length (Received bs) = length bs"
| "completion_length (Absent_Data n) = n"

abbreviation ROUTER_MAX_PAYLOAD :: nat where "ROUTER_MAX_PAYLOAD \<equiv> 32768"
abbreviation G_MAXUINT :: nat where "G_MAXUINT \<equiv> 4294967295"

definition usb_router_new :: usb_router where
  "usb_router_new = \<lparr>rt_pending = [], rt_generation = 0, rt_outstanding_generation = 0,
     rt_outstanding = 0, rt_max_outstanding = 0, rt_delivery_count = 0,
     rt_terminal_fence = False, rt_terminal_error = None\<rparr>"

definition router_fail :: "router_error \<Rightarrow> usb_router \<Rightarrow> usb_router" where
  "router_fail code r = r
     \<lparr>rt_terminal_error := (case rt_terminal_error r of None \<Rightarrow> Some code | Some e \<Rightarrow> Some e),
      rt_terminal_fence := True, rt_outstanding := 0\<rparr>"

text \<open>\<^verbatim>\<open>g_return_if_fail\<close> makes the call without a generation a no-op.\<close>

definition router_begin_generation :: "u64 \<Rightarrow> usb_router \<Rightarrow> usb_router" where
  "router_begin_generation generation r =
     (if generation = 0 then r
      else r\<lparr>rt_generation := generation, rt_terminal_fence := False, rt_outstanding := 0,
             rt_outstanding_generation := 0, rt_pending := [], rt_terminal_error := None\<rparr>)"

definition router_request_receive :: "usb_router \<Rightarrow> router_error reply \<times> usb_router" where
  "router_request_receive r =
     (if rt_terminal_fence r \<or> rt_generation r = 0 then (Reject ROUTER_ERROR_STATE, r)
      else if rt_outstanding r \<noteq> 0 then (Reject ROUTER_ERROR_STATE, r)
      else (Accept, r\<lparr>rt_outstanding := 1, rt_outstanding_generation := rt_generation r,
                      rt_max_outstanding := max (rt_max_outstanding r) 1\<rparr>))"

definition router_cancel :: "usb_router \<Rightarrow> usb_router" where
  "router_cancel r = r\<lparr>rt_terminal_fence := True, rt_outstanding := 0,
     rt_outstanding_generation := 0, rt_pending := []\<rparr>"

fun router_do :: "router_request \<Rightarrow> usb_router \<Rightarrow> usb_router" where
  "router_do Request_Receive r = snd (router_request_receive r)"
| "router_do Request_Cancel r = router_cancel r"
| "router_do (Request_Begin g) r = router_begin_generation g r"

definition router_requests :: "router_request list \<Rightarrow> usb_router \<Rightarrow> usb_router" where
  "router_requests reqs r = foldl (\<lambda>r q. router_do q r) r reqs"

definition router_deliver ::
    "'u consumer option \<Rightarrow> u8 \<Rightarrow> bytes \<Rightarrow> usb_router \<Rightarrow> 'u \<Rightarrow> usb_router \<times> 'u" where
  "router_deliver consumer outer_type frame r u =
     (case consumer of
        None \<Rightarrow> (r, u)
      | Some f \<Rightarrow> let (reqs, u') = f outer_type frame r u in (router_requests reqs r, u'))"

lemma router_do_pending: "length (rt_pending (router_do q r)) \<le> length (rt_pending r)"
  by (cases q) (auto simp: router_request_receive_def router_cancel_def router_begin_generation_def)

lemma router_requests_pending: "length (rt_pending (router_requests reqs r)) \<le> length (rt_pending r)"
proof (induction reqs arbitrary: r)
  case (Cons q reqs)
  from Cons.IH [of "router_do q r"] router_do_pending [of q r] show ?case
    by (simp add: router_requests_def)
qed (simp add: router_requests_def)

lemma router_deliver_pending:
  "length (rt_pending (fst (router_deliver consumer t frame r u))) \<le> length (rt_pending r)"
  by (auto simp: router_deliver_def case_prod_beta Let_def router_requests_pending split: option.split)

lemma router_deliver_shrinks:
  assumes "\<not> length d < n + 4"
  shows "length (rt_pending (fst (router_deliver consumer t frame
    (r\<lparr>rt_pending := drop (n + 4) d, rt_delivery_count := k\<rparr>) u))) < length d"
  using router_deliver_pending [of consumer t frame "r\<lparr>rt_pending := drop (n + 4) d, rt_delivery_count := k\<rparr>" u]
    assms by simp

text \<open>The length field of a header; the loop of \<^verbatim>\<open>parse_pending\<close>.\<close>

definition outer_payload_length :: "bytes \<Rightarrow> nat" where
  "outer_payload_length d = unat (le16 (d ! 1) (d ! 2))"

function parse_pending ::
    "'u consumer option \<Rightarrow> 'u consumer option \<Rightarrow> usb_router \<Rightarrow> 'u \<Rightarrow> bool \<times> usb_router \<times> 'u" where
  "parse_pending a0 b0 r u =
     (let header = rt_pending r; payload_length = outer_payload_length header;
          frame_length = payload_length + 4
      in if length header < 4 then (True, r, u)
         else if header ! 0 \<noteq> 0xa0 \<and> header ! 0 \<noteq> 0xb0
         then (False, router_fail ROUTER_ERROR_MALFORMED r, u)
         else if payload_length = 0 \<or> payload_length > ROUTER_MAX_PAYLOAD
         then (False, router_fail ROUTER_ERROR_MALFORMED r, u)
         else if length header < frame_length then (True, r, u)
         else
           let frame = take frame_length header;
               (r1, u1) = router_deliver (if header ! 0 = 0xa0 then a0 else b0) (header ! 0) frame
                 (r\<lparr>rt_pending := drop frame_length header,
                    rt_delivery_count := rt_delivery_count r + 1\<rparr>) u
           in if rt_terminal_fence r1 then (False, r1, u1) else parse_pending a0 b0 r1 u1)"
  by pat_completeness auto

termination
  by (relation "measure (\<lambda>(a0, b0, r, u). length (rt_pending r))")
     (auto simp: case_prod_beta router_deliver_shrinks)

declare parse_pending.simps [simp del]

definition router_receive_complete ::
    "'u consumer option \<Rightarrow> 'u consumer option \<Rightarrow> u64 \<Rightarrow> completion \<Rightarrow> bool \<Rightarrow> usb_router \<Rightarrow> 'u
       \<Rightarrow> usb_router \<times> 'u" where
  "router_receive_complete a0 b0 generation data transport_error r u =
     (if generation \<noteq> rt_generation r \<or> generation \<noteq> rt_outstanding_generation r then (r, u)
      else if rt_terminal_fence r \<or> rt_outstanding r \<noteq> 1 then (r, u)
      else
        let r1 = r\<lparr>rt_outstanding := 0, rt_outstanding_generation := 0\<rparr> in
        if transport_error then (router_fail ROUTER_ERROR_TRANSPORT r1, u)
        else if completion_length data > G_MAXUINT then (router_fail ROUTER_ERROR_MALFORMED r1, u)
        else case data of
            Absent_Data n \<Rightarrow>
              if n \<noteq> 0 then (router_fail ROUTER_ERROR_MALFORMED r1, u)
              else snd (parse_pending a0 b0 r1 u)
          | Received bs \<Rightarrow>
              snd (parse_pending a0 b0 (r1\<lparr>rt_pending := rt_pending r1 @ bs\<rparr>) u))"

definition router_finalize :: "usb_router \<Rightarrow> router_error reply \<times> usb_router" where
  "router_finalize r =
     (let r1 = (if \<not> rt_terminal_fence r \<and> rt_pending r \<noteq> []
                then router_fail ROUTER_ERROR_TRUNCATED r else r)
      in case rt_terminal_error r1 of Some e \<Rightarrow> (Reject e, r1) | None \<Rightarrow> (Accept, r1))"

definition router_get_receive_owner_count :: "usb_router \<Rightarrow> u32" where
  "router_get_receive_owner_count r = 1"

section \<open>The stream that the router sees\<close>

text \<open>The reference: cut a byte string into frames, a rest, and whether the rest is malformed.\<close>

function split_stream :: "bytes \<Rightarrow> bytes list \<times> bytes \<times> bool" where
  "split_stream d =
     (let n = outer_payload_length d in
      if length d < 4 then ([], d, False)
      else if (d ! 0 \<noteq> 0xa0 \<and> d ! 0 \<noteq> 0xb0) \<or> n = 0 \<or> n > ROUTER_MAX_PAYLOAD then ([], d, True)
      else if length d < n + 4 then ([], d, False)
      else let (fs, rest, bad) = split_stream (drop (n + 4) d) in (take (n + 4) d # fs, rest, bad))"
  by pat_completeness auto

termination
  by (relation "measure length") auto

declare split_stream.simps [simp del]

lemma outer_payload_append: "4 \<le> length d \<Longrightarrow> outer_payload_length (d @ e) = outer_payload_length d"
  by (simp add: outer_payload_length_def nth_append)

lemma split_stream_append:
  "split_stream (d @ e) =
     (case split_stream d of (fs, rest, bad) \<Rightarrow>
        if bad then (fs, rest @ e, True)
        else case split_stream (rest @ e) of (fs', rest', bad') \<Rightarrow> (fs @ fs', rest', bad'))"
proof (induction d rule: split_stream.induct)
  case (1 d)
  let ?n = "outer_payload_length d"
  show ?case
  proof (cases "length d < 4")
    case True
    then show ?thesis by (simp add: split_stream.simps [of d] split: prod.split)
  next
    case long: False
    have pay: "outer_payload_length (d @ e) = ?n" using outer_payload_append [of d e] long by simp
    have hd: "(d @ e) ! 0 = d ! 0" using long by (cases d) (auto simp: nth_append)
    show ?thesis
    proof (cases "(d ! 0 \<noteq> 0xa0 \<and> d ! 0 \<noteq> 0xb0) \<or> ?n = 0 \<or> ?n > ROUTER_MAX_PAYLOAD")
      case True
      have "split_stream d = ([], d, True)"
        unfolding split_stream.simps [of d] Let_def if_not_P [OF long] if_P [OF True] ..
      moreover have "split_stream (d @ e) = ([], d @ e, True)"
        using long True by (simp add: split_stream.simps [of "d @ e"] pay hd Let_def)
      ultimately show ?thesis by simp
    next
      case ok: False
      show ?thesis
      proof (cases "length d < ?n + 4")
        case True
        then have "split_stream d = ([], d, False)"
          unfolding split_stream.simps [of d] Let_def if_not_P [OF long] if_not_P [OF ok] by simp
        then show ?thesis by (simp split: prod.split)
      next
        case full: False
        have "split_stream d = (case split_stream (drop (?n + 4) d) of (fs, rest, bad) \<Rightarrow>
            (take (?n + 4) d # fs, rest, bad))"
          unfolding split_stream.simps [of d] Let_def if_not_P [OF long] if_not_P [OF ok] using full by simp
        moreover have "split_stream (d @ e) = (case split_stream (drop (?n + 4) d @ e) of (fs, rest, bad) \<Rightarrow>
            (take (?n + 4) d # fs, rest, bad))"
          using long ok full by (auto simp: split_stream.simps [of "d @ e"] pay hd Let_def)
        ultimately show ?thesis
          using "1.IH" [OF refl long ok full] by (simp split: prod.split)
      qed
    qed
  qed
qed

definition valid_frame :: "bytes \<Rightarrow> bool" where
  "valid_frame f \<longleftrightarrow>
     4 \<le> length f \<and> (f ! 0 = 0xa0 \<or> f ! 0 = 0xb0) \<and> outer_payload_length f \<noteq> 0 \<and>
     outer_payload_length f \<le> ROUTER_MAX_PAYLOAD \<and> length f = outer_payload_length f + 4"

lemma split_valid_frame: "valid_frame f \<Longrightarrow> split_stream f = ([f], [], False)"
  by (simp add: split_stream.simps [of f] valid_frame_def Let_def) (simp add: split_stream.simps)

lemma split_frames:
  "\<forall>f\<in>set fs. valid_frame f \<Longrightarrow>
     split_stream (concat fs @ tail) = (case split_stream tail of (fs', rest, bad) \<Rightarrow> (fs @ fs', rest, bad))"
  by (induction fs) (simp_all add: split_stream_append [of "_ :: bytes"] split_valid_frame split: prod.split)

section \<open>The loop computes the reference\<close>

definition quiet_consumer :: "'u consumer option \<Rightarrow> bool" where
  "quiet_consumer c \<longleftrightarrow>
     (\<forall>f t frame r u. c = Some f \<longrightarrow>
        set (fst (f t frame r u)) \<subseteq> {Request_Receive} \<and>
        snd (f t frame r u) = snd (f t frame usb_router_new u))"

definition consume :: "'u consumer option \<Rightarrow> 'u consumer option \<Rightarrow> 'u \<Rightarrow> bytes \<Rightarrow> 'u" where
  "consume a0 b0 u frame =
     (case if frame ! 0 = 0xa0 then a0 else b0 of None \<Rightarrow> u
      | Some f \<Rightarrow> snd (f (frame ! 0) frame usb_router_new u))"

text \<open>What a receive request leaves alone.\<close>

definition same_stream :: "usb_router \<Rightarrow> usb_router \<Rightarrow> bool" where
  "same_stream r r' \<longleftrightarrow>
     rt_pending r' = rt_pending r \<and> rt_generation r' = rt_generation r \<and>
     rt_delivery_count r' = rt_delivery_count r \<and> rt_terminal_fence r' = rt_terminal_fence r \<and>
     rt_terminal_error r' = rt_terminal_error r"

lemma request_same_stream: "same_stream r (snd (router_request_receive r))"
  by (simp add: same_stream_def router_request_receive_def)

lemma quiet_requests: "set reqs \<subseteq> {Request_Receive} \<Longrightarrow> same_stream r (router_requests reqs r)"
proof (induction reqs arbitrary: r)
  case (Cons q reqs)
  then have "same_stream (snd (router_request_receive r)) (router_requests (q # reqs) r)"
    by (simp add: router_requests_def)
  with request_same_stream [of r] show ?case by (simp add: same_stream_def)
qed (simp add: router_requests_def same_stream_def)

lemma quiet_deliver:
  assumes "quiet_consumer a0" "quiet_consumer b0"
    and "router_deliver (if f ! 0 = 0xa0 then a0 else b0) (f ! 0) f r u = (r1, u1)"
  shows "same_stream r r1" "u1 = consume a0 b0 u f"
proof -
  define c where "c = (if f ! 0 = 0xa0 then a0 else b0)"
  have q: "quiet_consumer c" using assms(1,2) by (simp add: c_def)
  have d: "router_deliver c (f ! 0) f r u = (r1, u1)" using assms(3) by (simp add: c_def)
  have "same_stream r r1 \<and> u1 = consume a0 b0 u f"
  proof (cases c)
    case None
    with d show ?thesis
      by (auto simp: router_deliver_def consume_def c_def [symmetric] same_stream_def)
  next
    case (Some g)
    have g: "set (fst (g (f ! 0) f r u)) \<subseteq> {Request_Receive}"
      "snd (g (f ! 0) f r u) = snd (g (f ! 0) f usb_router_new u)"
      using q Some by (auto simp: quiet_consumer_def)
    from quiet_requests [OF g(1), of r] d Some g(2) show ?thesis
      by (auto simp: router_deliver_def consume_def c_def [symmetric] case_prod_beta Let_def)
  qed
  then show "same_stream r r1" "u1 = consume a0 b0 u f" by simp_all
qed

lemma parse_pending_split:
  assumes "quiet_consumer a0" "quiet_consumer b0" "\<not> rt_terminal_fence r"
    and "split_stream (rt_pending r) = (fs, rest, bad)" "parse_pending a0 b0 r u = (ok, r', u')"
  shows "u' = foldl (consume a0 b0) u fs \<and> rt_pending r' = rest \<and> rt_terminal_fence r' = bad \<and> ok = (\<not> bad) \<and>
    rt_generation r' = rt_generation r \<and> rt_delivery_count r' = rt_delivery_count r + of_nat (length fs) \<and>
    rt_terminal_error r' = (if bad \<and> rt_terminal_error r = None then Some ROUTER_ERROR_MALFORMED else rt_terminal_error r)"
  using assms(3-)
proof (induction "length (rt_pending r)" arbitrary: r u fs rule: less_induct)
  case (less r u)
  let ?d = "rt_pending r" and ?n = "outer_payload_length (rt_pending r)"
  show ?case
  proof (cases "length ?d < 4")
    case True
    with less.prems show ?thesis by (auto simp: parse_pending.simps [of a0 b0 r] split_stream.simps [of ?d])
  next
    case long: False
    show ?thesis
    proof (cases "(?d ! 0 \<noteq> 0xa0 \<and> ?d ! 0 \<noteq> 0xb0) \<or> ?n = 0 \<or> ?n > ROUTER_MAX_PAYLOAD")
      case True
      then have "split_stream ?d = ([], ?d, True)" "parse_pending a0 b0 r u = (False, router_fail ROUTER_ERROR_MALFORMED r, u)"
        using long by (auto simp: parse_pending.simps [of a0 b0 r] split_stream.simps [of ?d] Let_def)
      with less.prems show ?thesis
        by (auto simp: router_fail_def split: option.split)
    next
      case ok: False
      show ?thesis
      proof (cases "length ?d < ?n + 4")
        case True
        with less.prems ok long show ?thesis
          by (auto simp: parse_pending.simps [of a0 b0 r] split_stream.simps [of ?d] Let_def)
      next
        case full: False
        let ?f = "take (?n + 4) ?d" and ?r0 = "r\<lparr>rt_pending := drop (?n + 4) ?d, rt_delivery_count := rt_delivery_count r + 1\<rparr>"
        have f0: "?f ! 0 = ?d ! 0" using long by simp
        obtain r1 u1 where d: "router_deliver (if ?f ! 0 = 0xa0 then a0 else b0) (?f ! 0) ?f ?r0 u = (r1, u1)"
          by (metis surj_pair)
        note q = quiet_deliver [OF assms(1,2) d]
        have same: "rt_pending r1 = drop (?n + 4) ?d" "rt_terminal_fence r1 = rt_terminal_fence r"
          "rt_generation r1 = rt_generation r" "rt_delivery_count r1 = rt_delivery_count r + 1"
          "rt_terminal_error r1 = rt_terminal_error r"
          using q(1) by (simp_all add: same_stream_def)
        have loop: "parse_pending a0 b0 r u = parse_pending a0 b0 r1 u1"
          using long ok full d same(2) less.prems(1) unfolding f0
          by (auto simp: parse_pending.simps [of a0 b0 r] Let_def)
        obtain fs1 where sp: "split_stream (rt_pending r1) = (fs1, rest, bad)" and fs: "fs = ?f # fs1"
          using less.prems(2) long ok full same(1)
          by (auto simp: split_stream.simps [of ?d] Let_def split: prod.splits)
        have "length (rt_pending r1) < length ?d" using same(1) full long by simp
        from less.hyps [OF this _ sp loop [symmetric, unfolded less.prems(3)]]
        show ?thesis
          using same(2-) less.prems(1) unfolding fs by (simp add: q(2) add.assoc add.commute)
      qed
    qed
  qed
qed

section \<open>Invariant under arbitrary consumers\<close>

definition router_inv :: "usb_router \<Rightarrow> bool" where
  "router_inv r \<longleftrightarrow>
     rt_outstanding r \<in> {0, 1} \<and> rt_max_outstanding r \<in> {0, 1} \<and>
     (rt_outstanding r = 1 \<longrightarrow> \<not> rt_terminal_fence r \<and> rt_outstanding_generation r = rt_generation r \<and>
        rt_generation r \<noteq> 0) \<and>
     (\<not> rt_terminal_fence r \<longrightarrow> rt_terminal_error r = None)"

lemma router_new_inv: "router_inv usb_router_new"
  by (simp add: router_inv_def usb_router_new_def)

lemma router_fail_inv: "router_inv r \<Longrightarrow> router_inv (router_fail code r)"
  by (simp add: router_inv_def router_fail_def)

lemma router_do_inv: "router_inv r \<Longrightarrow> router_inv (router_do q r)"
  by (cases q) (auto simp: router_inv_def router_request_receive_def router_cancel_def
      router_begin_generation_def max_def)

lemma router_requests_inv: "router_inv r \<Longrightarrow> router_inv (router_requests reqs r)"
proof (induction reqs arbitrary: r)
  case (Cons q reqs)
  from Cons.IH [OF router_do_inv [OF Cons.prems]] show ?case by (simp add: router_requests_def)
qed (simp add: router_requests_def)

lemma router_deliver_inv: "router_inv r \<Longrightarrow> router_inv (fst (router_deliver c t f r u))"
  by (auto simp: router_deliver_def case_prod_beta Let_def router_requests_inv split: option.split)

lemma router_inv_stream [simp]:
  "router_inv (r\<lparr>rt_pending := d\<rparr>) = router_inv r"
  "router_inv (r\<lparr>rt_pending := d, rt_delivery_count := n\<rparr>) = router_inv r"
  by (simp_all add: router_inv_def)

lemma parse_pending_inv:
  assumes "router_inv r" "\<not> rt_terminal_fence r"
  shows "router_inv (fst (snd (parse_pending a0 b0 r u)))"
    "\<not> rt_terminal_fence (fst (snd (parse_pending a0 b0 r u))) \<Longrightarrow>
       length (rt_pending (fst (snd (parse_pending a0 b0 r u)))) < ROUTER_MAX_PAYLOAD + 4"
proof -
  have "router_inv (fst (snd (parse_pending a0 b0 r u))) \<and>
    (\<not> rt_terminal_fence (fst (snd (parse_pending a0 b0 r u))) \<longrightarrow>
       length (rt_pending (fst (snd (parse_pending a0 b0 r u)))) < ROUTER_MAX_PAYLOAD + 4)"
    using assms
  proof (induction "length (rt_pending r)" arbitrary: r u rule: less_induct)
    case (less r u)
    let ?d = "rt_pending r" and ?n = "outer_payload_length (rt_pending r)"
    show ?case
    proof (cases "length ?d < 4 \<or> (?d ! 0 \<noteq> 0xa0 \<and> ?d ! 0 \<noteq> 0xb0) \<or> ?n = 0 \<or>
        ?n > ROUTER_MAX_PAYLOAD \<or> length ?d < ?n + 4")
      case True
      with less.prems router_fail_inv [OF less.prems(1)] show ?thesis
        by (auto simp: parse_pending.simps [of a0 b0 r] Let_def router_fail_def)
    next
      case False
      let ?f = "take (?n + 4) ?d" and ?r0 = "r\<lparr>rt_pending := drop (?n + 4) ?d, rt_delivery_count := rt_delivery_count r + 1\<rparr>"
      obtain r1 u1 where d: "router_deliver (if ?d ! 0 = 0xa0 then a0 else b0) (?d ! 0) ?f ?r0 u = (r1, u1)"
        by (metis surj_pair)
      have inv: "router_inv r1"
        using router_deliver_inv [of ?r0] d less.prems(1) by (metis fst_conv router_inv_stream(2))
      have "length (rt_pending r1) < length ?d"
        using router_deliver_shrinks [of ?d ?n] d False by (metis fst_conv)
      with less.hyps [OF this inv] inv False d show ?thesis
        by (auto simp: parse_pending.simps [of a0 b0 r] Let_def)
    qed
  qed
  then show "router_inv (fst (snd (parse_pending a0 b0 r u)))"
    "\<not> rt_terminal_fence (fst (snd (parse_pending a0 b0 r u))) \<Longrightarrow>
       length (rt_pending (fst (snd (parse_pending a0 b0 r u)))) < ROUTER_MAX_PAYLOAD + 4"
    by blast+
qed

definition bounded_pending :: "usb_router \<Rightarrow> bool" where
  "bounded_pending r \<longleftrightarrow> (\<not> rt_terminal_fence r \<longrightarrow> length (rt_pending r) < ROUTER_MAX_PAYLOAD + 4)"

lemma receive_complete_inv:
  assumes "router_inv r" "bounded_pending r"
  shows "router_inv (fst (router_receive_complete a0 b0 g data err r u)) \<and>
    bounded_pending (fst (router_receive_complete a0 b0 g data err r u))"
proof (cases "g \<noteq> rt_generation r \<or> g \<noteq> rt_outstanding_generation r \<or> rt_terminal_fence r \<or> rt_outstanding r \<noteq> 1")
  case True
  with assms show ?thesis by (auto simp: router_receive_complete_def)
next
  case False
  let ?r1 = "r\<lparr>rt_outstanding := 0, rt_outstanding_generation := 0\<rparr>"
  have r1: "router_inv ?r1" "\<not> rt_terminal_fence ?r1" using assms(1) False by (auto simp: router_inv_def)
  have fail: "router_inv (router_fail code ?r1)" "bounded_pending (router_fail code ?r1)" for code
    using router_fail_inv [OF r1(1)] by (simp_all add: bounded_pending_def router_fail_def)
  have parse: "router_inv (fst (snd (parse_pending a0 b0 (?r1\<lparr>rt_pending := d\<rparr>) u))) \<and>
      bounded_pending (fst (snd (parse_pending a0 b0 (?r1\<lparr>rt_pending := d\<rparr>) u)))" for d
    using parse_pending_inv [of "?r1\<lparr>rt_pending := d\<rparr>" a0 b0 u] r1 by (simp add: bounded_pending_def)
  have parse0: "router_inv (fst (snd (parse_pending a0 b0 ?r1 u))) \<and> bounded_pending (fst (snd (parse_pending a0 b0 ?r1 u)))"
    using parse_pending_inv [OF r1, of a0 b0 u] by (simp add: bounded_pending_def)
  show ?thesis
    using False fail parse parse0
    by (cases data) (simp_all add: router_receive_complete_def Let_def)
qed

section \<open>Completed receives\<close>

text \<open>One receive of the current generation: request it, then complete it with the bytes.\<close>

definition router_feed ::
    "'u consumer option \<Rightarrow> 'u consumer option \<Rightarrow> bytes \<Rightarrow> usb_router \<times> 'u \<Rightarrow> usb_router \<times> 'u" where
  "router_feed a0 b0 bs ru =
     (let (r, u) = ru; (reply, r1) = router_request_receive r
      in router_receive_complete a0 b0 (rt_generation r1) (Received bs) False r1 u)"

definition receiving :: "usb_router \<Rightarrow> bool" where
  "receiving r \<longleftrightarrow> router_inv r \<and> rt_generation r \<noteq> 0 \<and> \<not> rt_terminal_fence r"

text \<open>What the consumers and the router have after the reference has cut the stream.\<close>

definition stream_state ::
    "'u consumer option \<Rightarrow> 'u consumer option \<Rightarrow> 'u \<Rightarrow> bytes \<Rightarrow> usb_router \<times> 'u \<Rightarrow> bool" where
  "stream_state a0 b0 u0 stream ru \<longleftrightarrow>
     (case (split_stream stream, ru) of
        ((fs, rest, bad), r, u) \<Rightarrow>
          u = foldl (consume a0 b0) u0 fs \<and>
          (if bad then rt_terminal_fence r \<and> rt_terminal_error r = Some ROUTER_ERROR_MALFORMED
           else rt_pending r = rest \<and> receiving r))"

lemma request_when_receiving:
  assumes "receiving r"
  obtains reply r1 where "router_request_receive r = (reply, r1)"
    "rt_outstanding r1 = 1" "rt_outstanding_generation r1 = rt_generation r" "same_stream r r1" "receiving r1"
proof -
  obtain reply r1 where q: "router_request_receive r = (reply, r1)" by (metis surj_pair)
  have "router_inv r1"
    using router_do_inv [of r Request_Receive] assms q by (simp add: receiving_def)
  with q assms request_same_stream [of r] show thesis
    by (intro that [OF q]) (auto simp: receiving_def router_inv_def same_stream_def router_request_receive_def
        split: if_split_asm)
qed

lemma feed_step:
  assumes quiet: "quiet_consumer a0" "quiet_consumer b0"
    and "stream_state a0 b0 u0 stream ru" "length bs \<le> G_MAXUINT"
  shows "stream_state a0 b0 u0 (stream @ bs) (router_feed a0 b0 bs ru)"
proof -
  obtain r u where ru: "ru = (r, u)" by (metis surj_pair)
  obtain fs rest bad where sp: "split_stream stream = (fs, rest, bad)" by (metis prod_cases3)
  show ?thesis
  proof (cases bad)
    case True
    with assms(3) ru sp have "rt_terminal_fence r" by (simp add: stream_state_def)
    then have "router_feed a0 b0 bs ru = ru"
      by (simp add: ru router_feed_def router_request_receive_def router_receive_complete_def)
    with True assms(3) sp show ?thesis
      by (simp add: stream_state_def split_stream_append)
  next
    case False
    with assms(3) ru sp have st: "u = foldl (consume a0 b0) u0 fs" "rt_pending r = rest" "receiving r"
      by (simp_all add: stream_state_def)
    obtain reply r1 where q: "router_request_receive r = (reply, r1)" "rt_outstanding r1 = 1"
      "rt_outstanding_generation r1 = rt_generation r" "same_stream r r1" "receiving r1"
      using st(3) by (rule request_when_receiving)
    let ?r2 = "r1\<lparr>rt_outstanding := 0, rt_outstanding_generation := 0, rt_pending := rt_pending r1 @ bs\<rparr>"
    obtain ok r' u' where p: "parse_pending a0 b0 ?r2 u = (ok, r', u')" by (metis prod_cases3)
    have feed: "router_feed a0 b0 bs ru = (r', u')"
      using q assms(4) p by (simp add: ru router_feed_def router_receive_complete_def receiving_def same_stream_def)
    have same: "rt_pending r1 = rest" "\<not> rt_terminal_fence r1" "rt_generation r1 \<noteq> 0" "rt_terminal_error r1 = None"
      using q(4,5) st(2) by (auto simp: same_stream_def receiving_def router_inv_def)
    have inv2: "router_inv ?r2" "\<not> rt_terminal_fence ?r2"
      using q(5) by (auto simp: receiving_def router_inv_def)
    obtain fs' rest' bad' where sp': "split_stream (rest @ bs) = (fs', rest', bad')" by (metis prod_cases3)
    have "split_stream (rt_pending ?r2) = (fs', rest', bad')" using sp' same(1) by simp
    from parse_pending_split [OF quiet inv2(2) this p] parse_pending_inv(1) [OF inv2, of a0 b0 u] p
    show ?thesis
      using sp sp' False st(1) same by (simp add: feed stream_state_def split_stream_append receiving_def)
  qed
qed

lemma feed_stream:
  assumes "quiet_consumer a0" "quiet_consumer b0" "receiving r" "rt_pending r = []"
    and "\<forall>bs\<in>set chunks. length bs \<le> G_MAXUINT"
  shows "stream_state a0 b0 u (concat chunks) (foldl (\<lambda>ru bs. router_feed a0 b0 bs ru) (r, u) chunks)"
  using assms(5)
proof (induction chunks rule: rev_induct)
  case Nil
  have "split_stream [] = ([], [], False)" by (simp add: split_stream.simps)
  with assms(3,4) show ?case by (simp add: stream_state_def)
next
  case (snoc bs chunks)
  then show ?case using feed_step [OF assms(1,2)] by simp
qed

section \<open>Sessions\<close>

datatype router_call =
    Router_Begin u64
  | Router_Request
  | Router_Complete u64 completion bool
  | Router_Cancel
  | Router_Finalize

fun router_machine ::
    "'u consumer option \<Rightarrow> 'u consumer option \<Rightarrow> (router_call, router_error, usb_router \<times> 'u) machine" where
  "router_machine a0 b0 (Router_Begin g) (r, u) = (Accept, router_begin_generation g r, u)"
| "router_machine a0 b0 Router_Request (r, u) = (let (q, r1) = router_request_receive r in (q, r1, u))"
| "router_machine a0 b0 (Router_Complete g data err) (r, u) =
     (Accept, router_receive_complete a0 b0 g data err r u)"
| "router_machine a0 b0 Router_Cancel (r, u) = (Accept, router_cancel r, u)"
| "router_machine a0 b0 Router_Finalize (r, u) = (let (q, r1) = router_finalize r in (q, r1, u))"

lemma router_machine_inv:
  assumes "router_inv r" "bounded_pending r"
  shows "router_inv (fst (snd (router_machine a0 b0 call (r, u))))"
    "bounded_pending (fst (snd (router_machine a0 b0 call (r, u))))"
proof -
  have "router_inv (fst (snd (router_machine a0 b0 call (r, u)))) \<and>
      bounded_pending (fst (snd (router_machine a0 b0 call (r, u))))"
  proof (cases call)
    case (Router_Begin g)
    with assms router_do_inv [OF assms(1), of "Request_Begin g"] show ?thesis
      by (simp add: bounded_pending_def router_begin_generation_def)
  next
    case Router_Request
    with assms router_do_inv [OF assms(1), of Request_Receive] show ?thesis
      by (simp add: case_prod_beta bounded_pending_def router_request_receive_def)
  next
    case (Router_Complete g data err)
    with receive_complete_inv [OF assms, of a0 b0 g data err u] show ?thesis by simp
  next
    case Router_Cancel
    with router_do_inv [OF assms(1), of Request_Cancel] show ?thesis
      by (simp add: bounded_pending_def router_cancel_def)
  next
    case Router_Finalize
    with assms router_fail_inv [OF assms(1)] show ?thesis
      by (auto simp: router_finalize_def Let_def bounded_pending_def router_fail_def split: option.split)
  qed
  then show "router_inv (fst (snd (router_machine a0 b0 call (r, u))))"
    "bounded_pending (fst (snd (router_machine a0 b0 call (r, u))))" by simp_all
qed

lemma router_reach_inv:
  assumes "reach (router_machine a0 b0) (usb_router_new, u0) (r, u)"
  shows "router_inv r \<and> bounded_pending r"
proof -
  have "machine_invariant (router_machine a0 b0) (usb_router_new, u0)
      (\<lambda>ru. router_inv (fst ru) \<and> bounded_pending (fst ru))"
  proof
    show "router_inv (fst (usb_router_new, u0)) \<and> bounded_pending (fst (usb_router_new, u0))"
      using router_new_inv by (simp add: bounded_pending_def usb_router_new_def)
    fix call and ru :: "usb_router \<times> 'a"
    assume "router_inv (fst ru) \<and> bounded_pending (fst ru)"
    then show "router_inv (fst (snd (router_machine a0 b0 call ru))) \<and>
        bounded_pending (fst (snd (router_machine a0 b0 call ru)))"
      using router_machine_inv [of "fst ru" a0 b0 call "snd ru"] by simp
  qed
  from machine_invariant.inv_reach [OF this assms] show ?thesis by simp
qed

lemma fenced_call:
  assumes "rt_terminal_fence r" "\<forall>g. call \<noteq> Router_Begin g"
    and "router_machine a0 b0 call (r, u) = (q, r', u')"
  shows "u' = u \<and> rt_terminal_fence r' \<and> rt_delivery_count r' = rt_delivery_count r \<and>
    (call = Router_Request \<longrightarrow> q \<noteq> Accept)"
  using assms
  by (cases call) (auto simp: router_request_receive_def router_receive_complete_def router_cancel_def
      router_finalize_def Let_def split: option.splits if_split_asm)

section \<open>Properties\<close>

text \<open>
  Claim C19. With consumers that from inside a delivery at most ask for the next receive, any
  cutting of the stream delivers the frames that were sent: if the bytes received after a
  generation begins are, in whatever pieces, a sequence of well-formed A0/B0 frames followed by
  the beginning of another one, then the consumers get exactly those frames, whole and in order,
  and the beginning is what the router keeps. No error is recorded, and ending the stream there
  succeeds when nothing was begun and reports a truncated frame otherwise.
\<close>

theorem router_delivers_frames:
  assumes "quiet_consumer a0" "quiet_consumer b0" "receiving r" "rt_pending r = []"
    and "\<forall>bs\<in>set chunks. length bs \<le> G_MAXUINT"
    and "concat chunks = concat frames @ tail" "\<forall>f\<in>set frames. valid_frame f"
    and "split_stream tail = ([], tail, False)"
    and "foldl (\<lambda>ru bs. router_feed a0 b0 bs ru) (r, u) chunks = (r', u')"
  shows "u' = foldl (consume a0 b0) u frames \<and> rt_pending r' = tail \<and> \<not> rt_terminal_fence r' \<and> rt_terminal_error r' = None \<and>
    router_finalize r' = (if tail = [] then (Accept, r')
      else (Reject ROUTER_ERROR_TRUNCATED, router_fail ROUTER_ERROR_TRUNCATED r'))"
proof -
  have state: "u' = foldl (consume a0 b0) u frames" "rt_pending r' = tail" "receiving r'"
    using feed_stream [OF assms(1-5), of u] split_frames [OF assms(7), of tail] assms(6,8,9)
    by (simp_all add: stream_state_def)
  then have "\<not> rt_terminal_fence r'" "rt_terminal_error r' = None"
    by (auto simp: receiving_def router_inv_def)
  with state(1,2) show ?thesis by (simp add: router_finalize_def router_fail_def)
qed

text \<open>
  Claim C20. With consumers that from inside a delivery at most ask for the next receive, what they
  see and whether the router stops does not depend on how the stream was cut, well-formed or not:
  after any sequence of completed receives the consumers have been given the frames of the reference
  splitting of the bytes; the router is fenced, with the error of a malformed frame, exactly when the
  splitting meets one, and otherwise keeps the rest of the splitting. Two sequences with the same bytes
  therefore agree on all of this.
\<close>

theorem router_chunking_irrelevant:
  assumes "quiet_consumer a0" "quiet_consumer b0" "receiving r" "rt_pending r = []"
    and "\<forall>bs\<in>set chunks \<union> set chunks'. length bs \<le> G_MAXUINT" "concat chunks = concat chunks'"
    and "foldl (\<lambda>ru bs. router_feed a0 b0 bs ru) (r, u) chunks = (r1, u1)"
    and "foldl (\<lambda>ru bs. router_feed a0 b0 bs ru) (r, u) chunks' = (r2, u2)"
  shows "(case split_stream (concat chunks) of (frames, rest, bad) \<Rightarrow>
      u1 = foldl (consume a0 b0) u frames \<and> rt_terminal_fence r1 = bad \<and>
      rt_terminal_error r1 = (if bad then Some ROUTER_ERROR_MALFORMED else None) \<and>
      (if bad then True else rt_pending r1 = rest)) \<and>
    u1 = u2 \<and> rt_terminal_fence r1 = rt_terminal_fence r2 \<and>
    rt_terminal_error r1 = rt_terminal_error r2 \<and>
    (\<not> rt_terminal_fence r1 \<longrightarrow> rt_pending r1 = rt_pending r2)"
proof -
  have "stream_state a0 b0 u (concat chunks) (r1, u1)" "stream_state a0 b0 u (concat chunks) (r2, u2)"
    using feed_stream [OF assms(1-4), of chunks u] feed_stream [OF assms(1-4), of chunks' u] assms(5-8)
    by auto
  then show ?thesis
    by (cases "split_stream (concat chunks)")
       (auto simp: stream_state_def receiving_def router_inv_def split: if_split_asm)
qed

text \<open>
  Receive discipline, whatever the consumers do from inside their callbacks: in
  every reachable state at most one receive is outstanding and never more than one was; one
  is outstanding only for the current generation and while the router is not fenced; an
  unfenced router has no error and keeps less than one maximal frame.
\<close>

theorem router_receive_discipline:
  assumes "reach (router_machine a0 b0) (usb_router_new, u0) (r, u)"
  shows "rt_outstanding r \<in> {0, 1} \<and> rt_max_outstanding r \<in> {0, 1} \<and>
    (rt_outstanding r = 1 \<longrightarrow> \<not> rt_terminal_fence r \<and>
       rt_outstanding_generation r = rt_generation r \<and> rt_generation r \<noteq> 0) \<and>
    (\<not> rt_terminal_fence r \<longrightarrow> rt_terminal_error r = None \<and> length (rt_pending r) < ROUTER_MAX_PAYLOAD + 4)"
  using router_reach_inv [OF assms] by (simp add: router_inv_def bounded_pending_def)

text \<open>
  A fenced router is silent: until a generation begins, no call (late completions
  of any generation included) reaches a consumer or counts a delivery, the fence stays, and
  every request to receive is refused.
\<close>

theorem fenced_router_silent:
  assumes "rt_terminal_fence r" "\<forall>g. Router_Begin g \<notin> set calls"
    and "run_ops (router_machine a0 b0) calls (r, u) = (replies, r', u')"
  shows "u' = u \<and> rt_terminal_fence r' \<and> rt_delivery_count r' = rt_delivery_count r \<and>
    (\<forall>i<length calls. calls ! i = Router_Request \<longrightarrow> replies ! i \<noteq> Accept)"
  using assms
proof (induction calls arbitrary: r u replies)
  case (Cons call calls)
  obtain q r1 u1 where step: "router_machine a0 b0 call (r, u) = (q, r1, u1)" by (metis prod_cases3)
  obtain rs where rest: "run_ops (router_machine a0 b0) calls (r1, u1) = (rs, r', u')" "replies = q # rs"
    using Cons.prems(3) step by (auto simp: run_ops.simps(2) Let_def split: prod.splits)
  have one: "u1 = u \<and> rt_terminal_fence r1 \<and> rt_delivery_count r1 = rt_delivery_count r \<and>
      (call = Router_Request \<longrightarrow> q \<noteq> Accept)"
    by (rule fenced_call [OF Cons.prems(1) _ step]) (use Cons.prems(2) in auto)
  have ih: "u' = u1 \<and> rt_terminal_fence r' \<and> rt_delivery_count r' = rt_delivery_count r1 \<and>
      (\<forall>i<length calls. calls ! i = Router_Request \<longrightarrow> rs ! i \<noteq> Accept)"
    by (rule Cons.IH [OF _ _ rest(1)]) (use one Cons.prems(2) in auto)
  with one rest(2) show ?case
    by (auto simp: nth_Cons split: nat.split)
qed simp

definition logging :: "bytes list consumer" where
  "logging t frame r log = ([Request_Receive], log @ [frame])"

definition two_frames :: "bytes list" where
  "two_frames = [[0xa0, 2, 0, 0xa2, 7, 8], [0xb0, 1, 0, 0, 9]]"

lemma logging_quiet: "quiet_consumer (Some logging)"
  by (simp add: quiet_consumer_def logging_def)

lemma fresh_receiving: "receiving (router_begin_generation 1 usb_router_new)"
  by (simp add: receiving_def router_inv_def router_begin_generation_def usb_router_new_def)

lemma router_delivers_frames_witness:
  "\<exists>r'. foldl (\<lambda>ru bs. router_feed (Some logging) (Some logging) bs ru)
      (router_begin_generation 1 usb_router_new, []) [[0xa0, 2], [0, 0xa2, 7, 8, 0xb0], [1, 0, 0, 9, 0xa0]] =
     (r', two_frames) \<and> rt_pending r' = [0xa0] \<and> fst (router_finalize r') = Reject ROUTER_ERROR_TRUNCATED"
proof -
  obtain r' u' where run: "foldl (\<lambda>ru bs. router_feed (Some logging) (Some logging) bs ru)
      (router_begin_generation 1 usb_router_new, []) [[0xa0, 2], [0, 0xa2, 7, 8, 0xb0], [1, 0, 0, 9, 0xa0]] = (r', u')"
    by (metis surj_pair)
  note delivered = router_delivers_frames [OF logging_quiet logging_quiet fresh_receiving _ _ _ _ _ run,
      where frames = two_frames and tail = "[0xa0]"]
  have "u' = foldl (consume (Some logging) (Some logging)) [] two_frames \<and> rt_pending r' = [0xa0] \<and>
      fst (router_finalize r') = Reject ROUTER_ERROR_TRUNCATED"
    using delivered
    by (simp add: router_begin_generation_def two_frames_def valid_frame_def outer_payload_length_def le16_def split_stream.simps)
  with run show ?thesis by (simp add: consume_def logging_def two_frames_def)
qed

lemma router_chunking_irrelevant_witness:
  "snd (foldl (\<lambda>ru bs. router_feed (Some logging) (Some logging) bs ru)
      (router_begin_generation 1 usb_router_new, []) [[0xa0, 2], [0, 1], [7, 8, 5, 5, 5, 5]]) =
   snd (foldl (\<lambda>ru bs. router_feed (Some logging) (Some logging) bs ru)
      (router_begin_generation 1 usb_router_new, []) [[0xa0, 2, 0, 1, 7, 8, 5, 5, 5, 5]])"
proof -
  obtain r1 u1 r2 u2 where run: "foldl (\<lambda>ru bs. router_feed (Some logging) (Some logging) bs ru)
      (router_begin_generation 1 usb_router_new, []) [[0xa0, 2], [0, 1], [7, 8, 5, 5, 5, 5]] = (r1, u1)"
    "foldl (\<lambda>ru bs. router_feed (Some logging) (Some logging) bs ru)
      (router_begin_generation 1 usb_router_new, []) [[0xa0, 2, 0, 1, 7, 8, 5, 5, 5, 5]] = (r2, u2)"
    by (metis surj_pair)
  have "u1 = u2"
    using router_chunking_irrelevant [OF logging_quiet logging_quiet fresh_receiving _ _ _ run]
    by (simp add: router_begin_generation_def)
  with run show ?thesis by simp
qed

lemma router_receive_discipline_witness:
  "\<exists>r. reach (router_machine None None) (usb_router_new, ()) (r, ()) \<and> rt_outstanding r = 1 \<and>
     rt_outstanding_generation r = rt_generation r"
proof -
  let ?r = "snd (router_request_receive (router_begin_generation 1 usb_router_new))"
  have one: "reach (router_machine None None) (usb_router_new, ()) (router_begin_generation 1 usb_router_new, ())"
    using reach_step [OF reach_start, of "router_machine None None" "(usb_router_new, ())" "Router_Begin 1"] by simp
  have r: "reach (router_machine None None) (usb_router_new, ()) (?r, ())"
    using reach_step [OF one, of Router_Request] by (simp add: case_prod_beta)
  have "rt_outstanding ?r = 1"
    by (simp add: router_request_receive_def router_begin_generation_def usb_router_new_def)
  with router_receive_discipline [OF r] r show ?thesis by blast
qed

lemma fenced_router_silent_witness:
  "snd (snd (run_ops (router_machine (Some logging) (Some logging))
     [Router_Complete 1 (Received [0xa0, 1, 0, 0, 9]) False, Router_Request]
     (router_cancel (router_begin_generation 1 usb_router_new), []))) = []"
proof -
  obtain rs r' u' where run: "run_ops (router_machine (Some logging) (Some logging))
     [Router_Complete 1 (Received [0xa0, 1, 0, 0, 9]) False, Router_Request]
     (router_cancel (router_begin_generation 1 usb_router_new), []) = (rs, r', u')"
    by (metis prod_cases3)
  have "u' = [] \<and> rt_terminal_fence r' \<and>
    rt_delivery_count r' = rt_delivery_count (router_cancel (router_begin_generation 1 usb_router_new)) \<and>
    (\<forall>i<length [Router_Complete 1 (Received [0xa0, 1, 0, 0, 9]) False, Router_Request].
      [Router_Complete 1 (Received [0xa0, 1, 0, 0, 9]) False, Router_Request] ! i = Router_Request \<longrightarrow> rs ! i \<noteq> Accept)"
    by (rule fenced_router_silent [OF _ _ run]) (simp_all add: router_cancel_def)
  with run show ?thesis by simp
qed

end
