(* ===== verification/Usb_Backend.thy ===== *)
theory Usb_Backend
  imports Usb_Router
begin

text \<open>
  The USB backend (\<^verbatim>\<open>goodix_fpi_usb_backend.c\<close>) on top of the router: one receive and one
  transmission at most, generations, the pre-session synchronisation receive, the terminal
  fence and the notification that the backend has drained. The world holds the backend, its
  router, the transfers submitted to libfprint and the state of the owner. The owner's
  callbacks and the router's consumers are arguments; each returns the calls it makes, in
  order, and it can read the world, hence knows their replies. The drained callback does not
  cancel. Test seams, and freeing, are not modelled; the backend is never \<^verbatim>\<open>NULL\<close>. A callback
  that is not set is one that does nothing.
\<close>

section \<open>State\<close>

datatype receive_purpose = RECEIVE_NONE | PROTOCOL_RX | PRE_SESSION_SYNC_RX

record transfer_token =
  tr_receive :: bool
  tr_submit_generation :: u64
  tr_timeout_ms :: u32
  tr_bytes :: bytes

text \<open>The cancellable is absent, or present and possibly cancelled.\<close>

record usb_backend =
  bk_cancellable :: "bool option"
  bk_generation :: u64
  bk_in_generation :: u64
  bk_out_generation :: u64
  bk_in_purpose :: receive_purpose
  bk_in_timeout_ms :: u32
  bk_in_outstanding :: u32
  bk_out_outstanding :: u32
  bk_max_outstanding :: u32
  bk_max_out_outstanding :: u32
  bk_delivery_count :: u64
  bk_real_submit_count :: u64
  bk_out_submit_count :: u64
  bk_in_completion_count :: u64
  bk_out_completion_count :: u64
  bk_terminal_fence :: bool
  bk_drain_notified :: bool
  bk_pre_session_sync_active :: bool

record 'u usb_world =
  uw_backend :: usb_backend
  uw_router :: usb_router
  uw_flight :: "transfer_token list"
  uw_user :: 'u

definition usb_backend_new :: usb_backend where
  "usb_backend_new = \<lparr>bk_cancellable = None, bk_generation = 0, bk_in_generation = 0, bk_out_generation = 0,
     bk_in_purpose = RECEIVE_NONE, bk_in_timeout_ms = 0, bk_in_outstanding = 0, bk_out_outstanding = 0,
     bk_max_outstanding = 0, bk_max_out_outstanding = 0, bk_delivery_count = 0, bk_real_submit_count = 0,
     bk_out_submit_count = 0, bk_in_completion_count = 0, bk_out_completion_count = 0,
     bk_terminal_fence = False, bk_drain_notified = False, bk_pre_session_sync_active = False\<rparr>"

definition backend_is_drained :: "usb_backend \<Rightarrow> bool" where
  "backend_is_drained b \<longleftrightarrow> bk_in_outstanding b = 0 \<and> bk_out_outstanding b = 0"

datatype backend_error = Backend_Code nat | Backend_Router router_error

abbreviation set_backend :: "usb_backend \<Rightarrow> 'u usb_world \<Rightarrow> 'u usb_world" where
  "set_backend b w \<equiv> w\<lparr>uw_backend := b\<rparr>"

section \<open>Submissions\<close>

definition pending_new :: "bool \<Rightarrow> u32 \<Rightarrow> bytes \<Rightarrow> usb_backend \<Rightarrow> transfer_token" where
  "pending_new receive timeout bs b =
     \<lparr>tr_receive = receive, tr_submit_generation = bk_generation b, tr_timeout_ms = timeout, tr_bytes = bs\<rparr>"

definition production_submit :: "bool \<Rightarrow> u32 \<Rightarrow> bytes \<Rightarrow> 'u usb_world \<Rightarrow> 'u usb_world" where
  "production_submit receive timeout bs w =
     w\<lparr>uw_backend := (uw_backend w)\<lparr>bk_real_submit_count := bk_real_submit_count (uw_backend w) + 1\<rparr>,
       uw_flight := uw_flight w @ [pending_new receive timeout bs (uw_backend w)]\<rparr>"

definition backend_begin_generation :: "u64 \<Rightarrow> bool option \<Rightarrow> 'u usb_world \<Rightarrow> backend_error reply \<times> 'u usb_world" where
  "backend_begin_generation generation cancellable w =
     (let b = uw_backend w in
      if generation = 0 \<or> \<not> backend_is_drained b then (Reject (Backend_Code 3), w)
      else (Accept, set_backend (b\<lparr>bk_cancellable := cancellable, bk_generation := generation,
        bk_terminal_fence := False, bk_drain_notified := False\<rparr>) w))"

definition backend_arm_receive :: "u64 \<Rightarrow> 'u usb_world \<Rightarrow> backend_error reply \<times> router_request list \<times> 'u usb_world" where
  "backend_arm_receive generation w =
     (let b = uw_backend w in
      if bk_terminal_fence b \<or> bk_pre_session_sync_active b \<or> generation \<noteq> bk_generation b \<or>
         bk_in_outstanding b \<noteq> 0
      then (Reject (Backend_Code 1), [], w)
      else case router_request_receive (uw_router w) of
          (Reject e, r) \<Rightarrow> (Reject (Backend_Router e), [Request_Receive], w\<lparr>uw_router := r\<rparr>)
        | (Accept, r) \<Rightarrow> (Accept, [Request_Receive], production_submit True 0 [] (w\<lparr>uw_router := r,
            uw_backend := b\<lparr>bk_in_outstanding := 1, bk_in_generation := generation, bk_in_purpose := PROTOCOL_RX,
              bk_in_timeout_ms := 0, bk_max_outstanding := max (bk_max_outstanding b) 1\<rparr>\<rparr>)))"

definition backend_begin_pre_session_sync :: "u64 \<Rightarrow> 'u usb_world \<Rightarrow> backend_error reply \<times> 'u usb_world" where
  "backend_begin_pre_session_sync generation w =
     (let b = uw_backend w in
      if bk_terminal_fence b \<or> generation \<noteq> bk_generation b \<or> \<not> backend_is_drained b \<or> bk_pre_session_sync_active b
      then (Reject (Backend_Code 4), w)
      else (Accept, set_backend (b\<lparr>bk_pre_session_sync_active := True\<rparr>) w))"

definition backend_arm_pre_session_sync_receive ::
    "u64 \<Rightarrow> u32 \<Rightarrow> 'u usb_world \<Rightarrow> backend_error reply \<times> 'u usb_world" where
  "backend_arm_pre_session_sync_receive generation timeout w =
     (let b = uw_backend w in
      if bk_terminal_fence b \<or> \<not> bk_pre_session_sync_active b \<or> timeout = 0 \<or> generation \<noteq> bk_generation b \<or>
         bk_in_outstanding b \<noteq> 0 \<or> bk_out_outstanding b \<noteq> 0
      then (Reject (Backend_Code 5), w)
      else (Accept, production_submit True timeout [] (set_backend
        (b\<lparr>bk_in_outstanding := 1, bk_in_generation := generation, bk_in_purpose := PRE_SESSION_SYNC_RX,
           bk_in_timeout_ms := timeout, bk_max_outstanding := max (bk_max_outstanding b) 1\<rparr>) w)))"

definition backend_end_pre_session_sync :: "u64 \<Rightarrow> 'u usb_world \<Rightarrow> backend_error reply \<times> 'u usb_world" where
  "backend_end_pre_session_sync generation w =
     (let b = uw_backend w in
      if \<not> bk_pre_session_sync_active b \<or> generation \<noteq> bk_generation b \<or> \<not> backend_is_drained b
      then (Reject (Backend_Code 6), w)
      else (Accept, set_backend (b\<lparr>bk_pre_session_sync_active := False, bk_in_purpose := RECEIVE_NONE,
        bk_in_timeout_ms := 0\<rparr>) w))"

definition backend_submit_out :: "u64 \<Rightarrow> bytes option \<Rightarrow> 'u usb_world \<Rightarrow> backend_error reply \<times> 'u usb_world" where
  "backend_submit_out generation data w =
     (let b = uw_backend w in
      case data of
        None \<Rightarrow> (Reject (Backend_Code 2), w)
      | Some bs \<Rightarrow>
          if bk_terminal_fence b \<or> bk_pre_session_sync_active b \<or> generation \<noteq> bk_generation b
          then (Reject (Backend_Code 2), w)
          else if bk_out_outstanding b \<noteq> 0 then (Reject (Backend_Code 2), w)
          else (Accept, production_submit False 0 bs (set_backend
            (b\<lparr>bk_out_outstanding := 1, bk_out_generation := generation,
               bk_out_submit_count := bk_out_submit_count b + 1,
               bk_max_out_outstanding := max (bk_max_out_outstanding b) 1\<rparr>) w)))"

definition backend_reset_epoch_audit :: "'u usb_world \<Rightarrow> backend_error reply \<times> 'u usb_world" where
  "backend_reset_epoch_audit w =
     (let b = uw_backend w in
      if \<not> bk_terminal_fence b \<or> \<not> backend_is_drained b \<or> bk_pre_session_sync_active b
      then (Reject (Backend_Code 7), w)
      else (Accept, set_backend (b\<lparr>bk_generation := 0, bk_in_generation := 0, bk_out_generation := 0,
        bk_in_purpose := RECEIVE_NONE, bk_in_timeout_ms := 0, bk_max_outstanding := 0,
        bk_max_out_outstanding := 0, bk_delivery_count := 0, bk_real_submit_count := 0,
        bk_out_submit_count := 0, bk_in_completion_count := 0, bk_out_completion_count := 0,
        bk_drain_notified := False, bk_cancellable := None\<rparr>) w))"

section \<open>Calls of the owner\<close>

text \<open>The calls an owner makes, on the backend or on the router; cancelling is apart.\<close>

datatype basic_call =
    Begin_Generation u64 "bool option" | Arm_Receive u64 | Begin_Sync u64 | Arm_Sync u64 u32 | End_Sync u64
  | Submit_Out u64 "bytes option" | Reset_Epoch | Router_Begin u64

datatype backend_call = Basic basic_call | Cancel_Backend

fun basic_call_run :: "basic_call \<Rightarrow> 'u usb_world \<Rightarrow> backend_error reply \<times> router_request list \<times> 'u usb_world" where
  "basic_call_run (Begin_Generation g c) w = (let (q, w1) = backend_begin_generation g c w in (q, [], w1))"
| "basic_call_run (Arm_Receive g) w = backend_arm_receive g w"
| "basic_call_run (Begin_Sync g) w = (let (q, w1) = backend_begin_pre_session_sync g w in (q, [], w1))"
| "basic_call_run (Arm_Sync g t) w = (let (q, w1) = backend_arm_pre_session_sync_receive g t w in (q, [], w1))"
| "basic_call_run (End_Sync g) w = (let (q, w1) = backend_end_pre_session_sync g w in (q, [], w1))"
| "basic_call_run (Submit_Out g bs) w = (let (q, w1) = backend_submit_out g bs w in (q, [], w1))"
| "basic_call_run Reset_Epoch w = (let (q, w1) = backend_reset_epoch_audit w in (q, [], w1))"
| "basic_call_run (Router_Begin g) w =
     (Accept, [Request_Begin g], w\<lparr>uw_router := router_begin_generation g (uw_router w)\<rparr>)"

fun basic_calls_run :: "basic_call list \<Rightarrow> 'u usb_world \<Rightarrow> router_request list \<times> 'u usb_world" where
  "basic_calls_run [] w = ([], w)"
| "basic_calls_run (c # cs) w =
     (let (q, reqs, w1) = basic_call_run c w; (reqs', w2) = basic_calls_run cs w1 in (reqs @ reqs', w2))"

text \<open>The owner: what its callbacks and the router's consumers do.\<close>

record 'u backend_owner =
  on_drained :: "'u usb_world \<Rightarrow> basic_call list \<times> 'u"
  on_out :: "u64 \<Rightarrow> bool \<Rightarrow> 'u usb_world \<Rightarrow> backend_call list \<times> 'u"
  on_in :: "u64 \<Rightarrow> bool \<Rightarrow> 'u usb_world \<Rightarrow> backend_call list \<times> 'u"
  on_sync :: "u64 \<Rightarrow> completion \<Rightarrow> bool \<Rightarrow> 'u usb_world \<Rightarrow> backend_call list \<times> 'u"
  on_a0 :: "(u8 \<Rightarrow> bytes \<Rightarrow> 'u usb_world \<Rightarrow> backend_call list \<times> 'u) option"
  on_b0 :: "(u8 \<Rightarrow> bytes \<Rightarrow> 'u usb_world \<Rightarrow> backend_call list \<times> 'u) option"

definition maybe_notify_drained :: "'u backend_owner \<Rightarrow> 'u usb_world \<Rightarrow> router_request list \<times> 'u usb_world" where
  "maybe_notify_drained h w =
     (let b = uw_backend w in
      if \<not> bk_terminal_fence b \<or> \<not> backend_is_drained b \<or> bk_drain_notified b then ([], w)
      else
        let w1 = set_backend (b\<lparr>bk_drain_notified := True\<rparr>) w; (calls, u) = on_drained h w1
        in basic_calls_run calls (w1\<lparr>uw_user := u\<rparr>))"

definition backend_cancel :: "'u backend_owner \<Rightarrow> 'u usb_world \<Rightarrow> router_request list \<times> 'u usb_world" where
  "backend_cancel h w =
     (let b = uw_backend w in
      if bk_terminal_fence b then ([], w)
      else
        let b1 = b\<lparr>bk_terminal_fence := True, bk_drain_notified := False,
              bk_cancellable := (case bk_cancellable b of
                 None \<Rightarrow> None
               | Some c \<Rightarrow> Some (c \<or> bk_in_outstanding b \<noteq> 0 \<or> bk_out_outstanding b \<noteq> 0))\<rparr>;
            w1 = w\<lparr>uw_backend := b1, uw_router := router_cancel (uw_router w)\<rparr>;
            (reqs, w2) = maybe_notify_drained h w1
        in (Request_Cancel # reqs, w2))"

fun backend_calls_run :: "'u backend_owner \<Rightarrow> backend_call list \<Rightarrow> 'u usb_world \<Rightarrow> router_request list \<times> 'u usb_world" where
  "backend_calls_run h [] w = ([], w)"
| "backend_calls_run h (Basic c # cs) w =
     (let (q, reqs, w1) = basic_call_run c w; (reqs', w2) = backend_calls_run h cs w1 in (reqs @ reqs', w2))"
| "backend_calls_run h (Cancel_Backend # cs) w =
     (let (reqs, w1) = backend_cancel h w; (reqs', w2) = backend_calls_run h cs w1 in (reqs @ reqs', w2))"

text \<open>A callback with its calls.\<close>

definition call_owner ::
    "'u backend_owner \<Rightarrow> ('u usb_world \<Rightarrow> backend_call list \<times> 'u) \<Rightarrow> 'u usb_world \<Rightarrow> router_request list \<times> 'u usb_world" where
  "call_owner h f w = (let (calls, u) = f w in backend_calls_run h calls (w\<lparr>uw_user := u\<rparr>))"

section \<open>Completions\<close>

text \<open>
  The consumer the router sees: the router it is given is the router of the world, and it
  answers with the router calls that its backend calls lead to.
\<close>

definition backend_consumer ::
    "'u backend_owner \<Rightarrow> (u8 \<Rightarrow> bytes \<Rightarrow> 'u usb_world \<Rightarrow> backend_call list \<times> 'u) \<Rightarrow> 'u usb_world consumer" where
  "backend_consumer h f t frame r w = call_owner h (f t frame) (w\<lparr>uw_router := r\<rparr>)"

definition backend_deliver :: "'u backend_owner \<Rightarrow> u64 \<Rightarrow> completion \<Rightarrow> bool \<Rightarrow> 'u usb_world \<Rightarrow> 'u usb_world" where
  "backend_deliver h generation data failed w =
     (let b = uw_backend w;
          (r, w1) = router_receive_complete (map_option (backend_consumer h) (on_a0 h))
            (map_option (backend_consumer h) (on_b0 h)) generation data failed (uw_router w)
            (set_backend (b\<lparr>bk_delivery_count := bk_delivery_count b + 1\<rparr>) w)
      in w1\<lparr>uw_router := r\<rparr>)"

definition backend_complete_receive :: "'u backend_owner \<Rightarrow> u64 \<Rightarrow> completion \<Rightarrow> bool \<Rightarrow> 'u usb_world \<Rightarrow> 'u usb_world" where
  "backend_complete_receive h submit_generation data failed w =
     (let b = uw_backend w in
      if bk_in_outstanding b = 0 \<or> submit_generation \<noteq> bk_in_generation b then w
      else
        let purpose = bk_in_purpose b;
            w1 = set_backend (b\<lparr>bk_in_outstanding := 0, bk_in_generation := 0, bk_in_purpose := RECEIVE_NONE,
              bk_in_timeout_ms := 0\<rparr>) w;
            w2 = (if \<not> bk_terminal_fence b \<and> submit_generation = bk_generation b \<and> purpose = PROTOCOL_RX
              then backend_deliver h submit_generation data failed w1 else w1);
            b2 = uw_backend w2;
            w3 = set_backend (b2\<lparr>bk_in_completion_count := bk_in_completion_count b2 + 1\<rparr>) w2;
            w4 = (case purpose of
                PRE_SESSION_SYNC_RX \<Rightarrow> snd (call_owner h (on_sync h submit_generation data failed) w3)
              | PROTOCOL_RX \<Rightarrow> snd (call_owner h (on_in h submit_generation failed) w3)
              | RECEIVE_NONE \<Rightarrow> w3)
        in snd (maybe_notify_drained h w4))"

definition backend_complete_out :: "'u backend_owner \<Rightarrow> u64 \<Rightarrow> bool \<Rightarrow> 'u usb_world \<Rightarrow> 'u usb_world" where
  "backend_complete_out h submit_generation failed w =
     (let b = uw_backend w in
      if bk_out_outstanding b = 0 \<or> submit_generation \<noteq> bk_out_generation b then w
      else
        let w1 = set_backend (b\<lparr>bk_out_outstanding := 0, bk_out_generation := 0,
              bk_out_completion_count := bk_out_completion_count b + 1\<rparr>) w;
            w2 = snd (call_owner h (on_out h submit_generation failed) w1)
        in snd (maybe_notify_drained h w2))"

text \<open>
  libfprint reports that a submitted transfer is done: the bytes received, or an error, in
  which case the length is zero.
\<close>

definition transfer_complete_cb :: "'u backend_owner \<Rightarrow> transfer_token \<Rightarrow> bytes \<Rightarrow> bool \<Rightarrow> 'u usb_world \<Rightarrow> 'u usb_world" where
  "transfer_complete_cb h t data failed w =
     (if tr_receive t
      then backend_complete_receive h (tr_submit_generation t) (Received (if failed then [] else data)) failed w
      else backend_complete_out h (tr_submit_generation t) failed w)"

text \<open>A step of the world: a call from the owner's event loop, or a transfer that completes.\<close>

datatype world_event = Owner_Call backend_call | Transfer_Done nat bytes bool

fun world_step :: "'u backend_owner \<Rightarrow> (world_event, backend_error, 'u usb_world) machine" where
  "world_step h (Owner_Call (Basic c)) w = (let (q, reqs, w1) = basic_call_run c w in (q, w1))"
| "world_step h (Owner_Call Cancel_Backend) w = (Accept, snd (backend_cancel h w))"
| "world_step h (Transfer_Done i data failed) w =
     (if i < length (uw_flight w)
      then (Accept, transfer_complete_cb h (uw_flight w ! i) data failed
        (w\<lparr>uw_flight := take i (uw_flight w) @ drop (Suc i) (uw_flight w)\<rparr>))
      else (Accept, w))"

definition usb_world_new :: "'u \<Rightarrow> 'u usb_world" where
  "usb_world_new u = \<lparr>uw_backend = usb_backend_new, uw_router = usb_router_new, uw_flight = [], uw_user = u\<rparr>"

section \<open>The router of the world and the calls on it\<close>

lemma router_requests_simps [simp]:
  "router_requests [] r = r"
  "router_requests (q # qs) r = router_requests qs (router_do q r)"
  "router_requests (qs @ qs') r = router_requests qs' (router_requests qs r)"
  by (simp_all add: router_requests_def)

lemma basic_call_router:
  "basic_call_run c w = (q, reqs, w1) \<Longrightarrow> uw_router w1 = router_requests reqs (uw_router w)"
  by (cases c)
    (auto simp: backend_begin_generation_def backend_arm_receive_def backend_begin_pre_session_sync_def
      backend_arm_pre_session_sync_receive_def backend_end_pre_session_sync_def backend_submit_out_def
      backend_reset_epoch_audit_def production_submit_def Let_def split: if_splits option.splits prod.splits reply.splits)

lemma basic_calls_router: "uw_router (snd (basic_calls_run cs w)) = router_requests (fst (basic_calls_run cs w)) (uw_router w)"
proof (induction cs arbitrary: w)
  case (Cons c cs)
  obtain q reqs w1 where call: "basic_call_run c w = (q, reqs, w1)" by (metis surj_pair)
  with Cons.IH [of w1] basic_call_router [OF call] show ?case by (simp add: case_prod_beta)
qed simp

lemma notify_router:
  "uw_router (snd (maybe_notify_drained h w)) = router_requests (fst (maybe_notify_drained h w)) (uw_router w)"
  by (simp add: maybe_notify_drained_def Let_def case_prod_beta basic_calls_router)

lemma cancel_router: "uw_router (snd (backend_cancel h w)) = router_requests (fst (backend_cancel h w)) (uw_router w)"
  by (simp add: backend_cancel_def Let_def case_prod_beta notify_router)

text \<open>A consumer's answer to the router is exactly what its calls do to the router of the world.\<close>

lemma calls_router:
  "uw_router (snd (backend_calls_run h cs w)) = router_requests (fst (backend_calls_run h cs w)) (uw_router w)"
proof (induction h cs w rule: backend_calls_run.induct)
  case (2 h c cs w)
  obtain q reqs w1 where call: "basic_call_run c w = (q, reqs, w1)" by (metis surj_pair)
  with 2 basic_call_router [OF call] show ?case by (simp add: case_prod_beta)
next
  case (3 h cs w)
  obtain reqs w1 where call: "backend_cancel h w = (reqs, w1)" by (metis surj_pair)
  with 3 cancel_router [of h w] show ?case by (simp add: case_prod_beta)
qed simp

section \<open>Ownership of the transfers\<close>

definition one_in_flight :: "u32 \<Rightarrow> u64 \<Rightarrow> u64 \<Rightarrow> transfer_token list \<Rightarrow> bool" where
  "one_in_flight outstanding gen current ts \<longleftrightarrow>
     (outstanding = 0 \<and> ts = [] \<or>
      outstanding = 1 \<and> gen = current \<and> (\<exists>t. ts = [t] \<and> tr_submit_generation t = gen))"

definition transfers_owned :: "'u usb_world \<Rightarrow> bool" where
  "transfers_owned w \<longleftrightarrow>
     (let b = uw_backend w in
      one_in_flight (bk_in_outstanding b) (bk_in_generation b) (bk_generation b) (filter tr_receive (uw_flight w)) \<and>
      one_in_flight (bk_out_outstanding b) (bk_out_generation b) (bk_generation b) (filter (\<lambda>t. \<not> tr_receive t) (uw_flight w)) \<and>
      (bk_in_outstanding b = 0 \<longleftrightarrow> bk_in_purpose b = RECEIVE_NONE) \<and>
      (if bk_pre_session_sync_active b then bk_out_outstanding b = 0 \<and> bk_in_purpose b \<noteq> PROTOCOL_RX
       else bk_in_purpose b \<noteq> PRE_SESSION_SYNC_RX) \<and>
      bk_max_outstanding b \<le> 1 \<and> bk_max_out_outstanding b \<le> 1 \<and>
      (bk_terminal_fence b \<and> \<not> backend_is_drained b \<longrightarrow> \<not> bk_drain_notified b))"

definition drain_told :: "'u usb_world \<Rightarrow> bool" where
  "drain_told w \<longleftrightarrow> (bk_terminal_fence (uw_backend w) \<and> backend_is_drained (uw_backend w) \<longrightarrow>
     bk_drain_notified (uw_backend w) \<or> bk_generation (uw_backend w) = 0)"

lemma owned_cong [simp]:
  "transfers_owned (w\<lparr>uw_router := r\<rparr>) = transfers_owned w" "transfers_owned (w\<lparr>uw_user := u\<rparr>) = transfers_owned w"
  "drain_told (w\<lparr>uw_router := r\<rparr>) = drain_told w" "drain_told (w\<lparr>uw_user := u\<rparr>) = drain_told w"
  by (simp_all add: transfers_owned_def drain_told_def)

lemma one_in_flight_simps [simp]:
  "one_in_flight 0 g c ts \<longleftrightarrow> ts = []"
  "one_in_flight 1 g c ts \<longleftrightarrow> g = c \<and> (\<exists>t. ts = [t] \<and> tr_submit_generation t = g)"
  by (auto simp: one_in_flight_def)

lemma begin_owned:
  assumes "transfers_owned w"
  shows "transfers_owned (snd (backend_begin_generation g c w))" "drain_told w \<Longrightarrow> drain_told (snd (backend_begin_generation g c w))"
  using assms by (auto simp: backend_begin_generation_def transfers_owned_def drain_told_def backend_is_drained_def Let_def)

lemma arm_owned:
  assumes "transfers_owned w"
  shows "transfers_owned (snd (snd (backend_arm_receive g w)))" "drain_told w \<Longrightarrow> drain_told (snd (snd (backend_arm_receive g w)))"
  using assms
  by (auto simp: backend_arm_receive_def production_submit_def pending_new_def transfers_owned_def drain_told_def
      backend_is_drained_def Let_def split: prod.split reply.split)

lemma sync_owned:
  assumes "transfers_owned w"
  shows "transfers_owned (snd (backend_begin_pre_session_sync g w))"
    "drain_told w \<Longrightarrow> drain_told (snd (backend_begin_pre_session_sync g w))"
    "transfers_owned (snd (backend_arm_pre_session_sync_receive g t w))"
    "drain_told w \<Longrightarrow> drain_told (snd (backend_arm_pre_session_sync_receive g t w))"
    "transfers_owned (snd (backend_end_pre_session_sync g w))"
    "drain_told w \<Longrightarrow> drain_told (snd (backend_end_pre_session_sync g w))"
  using assms
  by (auto simp: backend_begin_pre_session_sync_def backend_arm_pre_session_sync_receive_def
      backend_end_pre_session_sync_def production_submit_def pending_new_def transfers_owned_def drain_told_def
      backend_is_drained_def Let_def)

lemma submit_owned:
  assumes "transfers_owned w"
  shows "transfers_owned (snd (backend_submit_out g bs w))" "drain_told w \<Longrightarrow> drain_told (snd (backend_submit_out g bs w))"
  using assms
  by (auto simp: backend_submit_out_def production_submit_def pending_new_def transfers_owned_def drain_told_def
      backend_is_drained_def Let_def split: option.split)

lemma reset_owned:
  assumes "transfers_owned w"
  shows "transfers_owned (snd (backend_reset_epoch_audit w))" "drain_told w \<Longrightarrow> drain_told (snd (backend_reset_epoch_audit w))"
  using assms
  by (auto simp: backend_reset_epoch_audit_def transfers_owned_def drain_told_def backend_is_drained_def Let_def)

lemma basic_call_owned:
  assumes "basic_call_run c w = (q, reqs, w1)" "transfers_owned w"
  shows "transfers_owned w1" "drain_told w \<Longrightarrow> drain_told w1"
proof -
  note own = begin_owned [OF assms(2)] arm_owned [OF assms(2)] sync_owned [OF assms(2)]
    submit_owned [OF assms(2)] reset_owned [OF assms(2)]
  have "transfers_owned (snd (snd (basic_call_run c w)))"
    using own assms(2) by (cases c) (simp_all add: case_prod_beta Let_def)
  moreover have "drain_told w \<Longrightarrow> drain_told (snd (snd (basic_call_run c w)))"
    using own by (cases c) (simp_all add: case_prod_beta Let_def)
  ultimately show "transfers_owned w1" "drain_told w \<Longrightarrow> drain_told w1" using assms(1) by simp_all
qed

lemma basic_calls_owned:
  assumes "transfers_owned w"
  shows "transfers_owned (snd (basic_calls_run cs w))" "drain_told w \<Longrightarrow> drain_told (snd (basic_calls_run cs w))"
proof -
  have "transfers_owned (snd (basic_calls_run cs w)) \<and> (drain_told w \<longrightarrow> drain_told (snd (basic_calls_run cs w)))"
    using assms
  proof (induction cs arbitrary: w)
    case (Cons c cs)
    obtain q reqs w1 where call: "basic_call_run c w = (q, reqs, w1)" by (metis surj_pair)
    from Cons.IH [of w1] basic_call_owned [OF call Cons.prems] call show ?case by (simp add: case_prod_beta)
  qed simp
  then show "transfers_owned (snd (basic_calls_run cs w))" "drain_told w \<Longrightarrow> drain_told (snd (basic_calls_run cs w))"
    by blast+
qed

lemma notify_owned:
  assumes "transfers_owned w"
  shows "transfers_owned (snd (maybe_notify_drained h w))" "drain_told (snd (maybe_notify_drained h w))"
proof -
  define b where "b = uw_backend w"
  have "transfers_owned (snd (maybe_notify_drained h w)) \<and> drain_told (snd (maybe_notify_drained h w))"
  proof (cases "\<not> bk_terminal_fence b \<or> \<not> backend_is_drained b \<or> bk_drain_notified b")
    case True
    with assms show ?thesis by (auto simp: maybe_notify_drained_def drain_told_def b_def Let_def)
  next
    case False
    define w1 where "w1 = set_backend (b\<lparr>bk_drain_notified := True\<rparr>) w"
    have "transfers_owned w1" "drain_told w1"
      using assms False by (auto simp: w1_def transfers_owned_def drain_told_def b_def backend_is_drained_def Let_def)
    then show ?thesis
      using False basic_calls_owned [of "w1\<lparr>uw_user := snd (on_drained h w1)\<rparr>" "fst (on_drained h w1)"]
      by (simp add: maybe_notify_drained_def Let_def case_prod_beta b_def [symmetric] w1_def [symmetric])
  qed
  then show "transfers_owned (snd (maybe_notify_drained h w))" "drain_told (snd (maybe_notify_drained h w))" by blast+
qed

lemma cancel_owned:
  assumes "transfers_owned w"
  shows "transfers_owned (snd (backend_cancel h w))" "drain_told w \<Longrightarrow> drain_told (snd (backend_cancel h w))"
proof -
  define b1 where "b1 = (uw_backend w)\<lparr>bk_terminal_fence := True, bk_drain_notified := False,
    bk_cancellable := (case bk_cancellable (uw_backend w) of None \<Rightarrow> None
      | Some c \<Rightarrow> Some (c \<or> bk_in_outstanding (uw_backend w) \<noteq> 0 \<or> bk_out_outstanding (uw_backend w) \<noteq> 0))\<rparr>"
  have "transfers_owned (w\<lparr>uw_backend := b1, uw_router := router_cancel (uw_router w)\<rparr>)"
    using assms by (simp add: transfers_owned_def b1_def Let_def)
  note own = notify_owned [OF this]
  show "transfers_owned (snd (backend_cancel h w))" "drain_told w \<Longrightarrow> drain_told (snd (backend_cancel h w))"
    using own assms by (simp_all add: backend_cancel_def Let_def case_prod_beta b1_def [symmetric])
qed

lemma calls_owned: "transfers_owned w \<Longrightarrow> transfers_owned (snd (backend_calls_run h cs w))"
proof (induction h cs w rule: backend_calls_run.induct)
  case (2 h c cs w)
  obtain q reqs w1 where call: "basic_call_run c w = (q, reqs, w1)" by (metis surj_pair)
  with 2 basic_call_owned(1) [OF call] show ?case by (simp add: case_prod_beta)
next
  case (3 h cs w)
  obtain reqs w1 where call: "backend_cancel h w = (reqs, w1)" by (metis surj_pair)
  with 3 cancel_owned(1) [of w h] show ?case by (simp add: case_prod_beta)
qed simp

lemma call_owner_owned: "transfers_owned w \<Longrightarrow> transfers_owned (snd (call_owner h f w))"
  by (simp add: call_owner_def case_prod_beta calls_owned)

text \<open>What the router hands to its consumers keeps whatever the consumers keep.\<close>

lemma parse_pending_keeps:
  assumes step: "\<And>f t d r v. a0 = Some f \<or> b0 = Some f \<Longrightarrow> P v \<Longrightarrow> P (snd (f t d r v))"
    and "P u"
  shows "P (snd (snd (parse_pending a0 b0 r u)))"
  using assms(2)
proof (induction "length (rt_pending r)" arbitrary: r u rule: less_induct)
  case less
  let ?d = "rt_pending r"
  let ?n = "outer_payload_length ?d"
  let ?c = "if ?d ! 0 = 0xa0 then a0 else b0"
  let ?r = "r\<lparr>rt_pending := drop (?n + 4) ?d, rt_delivery_count := rt_delivery_count r + 1\<rparr>"
  obtain r1 u1 where out: "router_deliver ?c (?d ! 0) (take (?n + 4) ?d) ?r u = (r1, u1)"
    by (metis surj_pair)
  have "P u1"
  proof (cases ?c)
    case None
    with out less show ?thesis by (simp add: router_deliver_def)
  next
    case (Some f)
    then have "a0 = Some f \<or> b0 = Some f" by (auto split: if_splits)
    from step [OF this less.prems] out Some show ?thesis
      by (auto simp: router_deliver_def Let_def case_prod_beta)
  qed
  moreover have "length (rt_pending r1) < length ?d" if "\<not> length ?d < ?n + 4"
    using router_deliver_shrinks [OF that, where consumer = ?c and t = "?d ! 0" and frame = "take (?n + 4) ?d" and r = r and u = u
      and k = "rt_delivery_count r + 1"] out by simp
  ultimately have rest: "P (snd (snd (parse_pending a0 b0 r1 u1)))" if "\<not> length ?d < ?n + 4"
    using less.hyps that by blast
  show ?case
  proof (cases "length ?d < 4 \<or> ?d ! 0 \<noteq> 0xa0 \<and> ?d ! 0 \<noteq> 0xb0 \<or> ?n = 0 \<or> ?n > ROUTER_MAX_PAYLOAD \<or> length ?d < ?n + 4")
    case True
    with less.prems show ?thesis by (subst parse_pending.simps) (auto simp: Let_def)
  next
    case False
    then have "parse_pending a0 b0 r u = (if rt_terminal_fence r1 then (False, r1, u1) else parse_pending a0 b0 r1 u1)"
      using out by (subst parse_pending.simps) (auto simp: Let_def)
    with False rest \<open>P u1\<close> show ?thesis by simp
  qed
qed

lemma receive_complete_keeps:
  assumes "\<And>f t d r v. a0 = Some f \<or> b0 = Some f \<Longrightarrow> P v \<Longrightarrow> P (snd (f t d r v))" "P u"
  shows "P (snd (router_receive_complete a0 b0 g data failed r u))"
proof -
  have "P (snd (snd (parse_pending a0 b0 r' u)))" for r'
    by (rule parse_pending_keeps [where P = P]) (use assms in blast)+
  with assms(2) show ?thesis
    by (auto simp: router_receive_complete_def Let_def split: completion.split)
qed

lemma deliver_owned:
  assumes "transfers_owned w"
  shows "transfers_owned (backend_deliver h g data failed w)"
proof -
  let ?w = "set_backend ((uw_backend w)\<lparr>bk_delivery_count := bk_delivery_count (uw_backend w) + 1\<rparr>) w"
  have "transfers_owned ?w" using assms by (simp add: transfers_owned_def backend_is_drained_def Let_def)
  moreover have "transfers_owned (snd (f t d r v))"
    if "map_option (backend_consumer h) (on_a0 h) = Some f \<or> map_option (backend_consumer h) (on_b0 h) = Some f"
      "transfers_owned v" for f t d r v
    using that by (auto simp: backend_consumer_def intro!: call_owner_owned)
  ultimately have "transfers_owned (snd (router_receive_complete (map_option (backend_consumer h) (on_a0 h))
      (map_option (backend_consumer h) (on_b0 h)) g data failed (uw_router w) ?w))"
    by (intro receive_complete_keeps [where P = transfers_owned]) blast+
  then show ?thesis by (simp add: backend_deliver_def Let_def case_prod_beta)
qed

lemma owned_count:
  "transfers_owned (set_backend (b\<lparr>bk_in_completion_count := k\<rparr>) w) = transfers_owned (set_backend b w)"
  by (simp add: transfers_owned_def backend_is_drained_def Let_def)

lemma owned_receive:
  assumes "transfers_owned w" "bk_in_outstanding (uw_backend w) \<noteq> 0"
    and "uw_flight v = filter (\<lambda>t. \<not> tr_receive t) (uw_flight w)"
  shows "transfers_owned (v\<lparr>uw_backend := (uw_backend w)\<lparr>bk_in_outstanding := 0, bk_in_generation := 0,
      bk_in_purpose := RECEIVE_NONE, bk_in_timeout_ms := 0\<rparr>\<rparr>)"
  using assms by (auto simp: transfers_owned_def backend_is_drained_def Let_def)

lemma owned_out:
  assumes "transfers_owned w" "bk_out_outstanding (uw_backend w) \<noteq> 0"
    and "uw_flight v = filter tr_receive (uw_flight w)"
  shows "transfers_owned (v\<lparr>uw_backend := (uw_backend w)\<lparr>bk_out_outstanding := 0, bk_out_generation := 0,
      bk_out_completion_count := k\<rparr>\<rparr>)"
  using assms by (auto simp: transfers_owned_def backend_is_drained_def Let_def)

text \<open>The transfer that completes is the one the backend waits for.\<close>

lemma only_match:
  assumes "i < length xs" "P (xs ! i)" "filter P xs = [t]"
  shows "t = xs ! i" "take i xs @ drop (Suc i) xs = filter (\<lambda>x. \<not> P x) xs"
proof -
  have split: "xs = take i xs @ xs ! i # drop (Suc i) xs" using assms(1) by (rule id_take_nth_drop)
  then have "filter P xs = filter P (take i xs) @ xs ! i # filter P (drop (Suc i) xs)"
    using assms(2) by (metis filter.simps(2) filter_append)
  with assms(3) have none: "filter P (take i xs) = []" "filter P (drop (Suc i) xs) = []" and "t = xs ! i"
    by (auto simp: append_eq_Cons_conv Cons_eq_append_conv)
  then show "t = xs ! i" by blast
  have "filter (\<lambda>x. \<not> P x) (take i xs) = take i xs" "filter (\<lambda>x. \<not> P x) (drop (Suc i) xs) = drop (Suc i) xs"
    using none by (simp_all add: filter_empty_conv filter_id_conv)
  moreover have "filter (\<lambda>x. \<not> P x) xs =
      filter (\<lambda>x. \<not> P x) (take i xs) @ filter (\<lambda>x. \<not> P x) (xs ! i # drop (Suc i) xs)"
    using split by (metis filter_append)
  ultimately show "take i xs @ drop (Suc i) xs = filter (\<lambda>x. \<not> P x) xs" using assms(2) by simp
qed

lemma one_in_flight_match:
  assumes "one_in_flight n g c (filter P xs)" "i < length xs" "P (xs ! i)"
  shows "n = 1" "tr_submit_generation (xs ! i) = g" "g = c" "take i xs @ drop (Suc i) xs = filter (\<lambda>x. \<not> P x) xs"
proof -
  have "xs ! i \<in> set xs" using assms(2) by simp
  then have "filter P xs \<noteq> []" using assms(3) by (auto simp: filter_empty_conv)
  then obtain t where t: "filter P xs = [t]" "n = 1" "g = c" "tr_submit_generation t = g"
    using assms(1) by (auto simp: one_in_flight_def)
  then show "n = 1" "tr_submit_generation (xs ! i) = g" "g = c"
    "take i xs @ drop (Suc i) xs = filter (\<lambda>x. \<not> P x) xs"
    using only_match [of i xs P t] assms(2,3) by auto
qed

lemma receive_keeps_owned:
  assumes "transfers_owned (set_backend ((uw_backend w)\<lparr>bk_in_outstanding := 0, bk_in_generation := 0,
        bk_in_purpose := RECEIVE_NONE, bk_in_timeout_ms := 0\<rparr>) w)" (is "transfers_owned ?w1")
    and "bk_in_outstanding (uw_backend w) \<noteq> 0" "g = bk_in_generation (uw_backend w)"
  shows "transfers_owned (backend_complete_receive h g data failed w)" "drain_told (backend_complete_receive h g data failed w)"
proof -
  define w2 where "w2 = (if \<not> bk_terminal_fence (uw_backend w) \<and> g = bk_generation (uw_backend w) \<and>
      bk_in_purpose (uw_backend w) = PROTOCOL_RX then backend_deliver h g data failed ?w1 else ?w1)"
  define w3 where "w3 = set_backend ((uw_backend w2)\<lparr>bk_in_completion_count := bk_in_completion_count (uw_backend w2) + 1\<rparr>) w2"
  have "transfers_owned w2" using assms(1) by (simp add: w2_def deliver_owned)
  then have w3: "transfers_owned w3" unfolding w3_def owned_count by simp
  have "\<exists>w4. transfers_owned w4 \<and> backend_complete_receive h g data failed w = snd (maybe_notify_drained h w4)"
  proof (intro exI conjI)
    show "transfers_owned (case bk_in_purpose (uw_backend w) of
        PRE_SESSION_SYNC_RX \<Rightarrow> snd (call_owner h (on_sync h g data failed) w3)
      | PROTOCOL_RX \<Rightarrow> snd (call_owner h (on_in h g failed) w3) | RECEIVE_NONE \<Rightarrow> w3)"
      using w3 by (simp add: call_owner_owned split: receive_purpose.split)
    show "backend_complete_receive h g data failed w = snd (maybe_notify_drained h (case bk_in_purpose (uw_backend w) of
        PRE_SESSION_SYNC_RX \<Rightarrow> snd (call_owner h (on_sync h g data failed) w3)
      | PROTOCOL_RX \<Rightarrow> snd (call_owner h (on_in h g failed) w3) | RECEIVE_NONE \<Rightarrow> w3))"
      unfolding backend_complete_receive_def Let_def w3_def w2_def using assms(2,3) by (simp only: simp_thms if_False)
  qed
  then show "transfers_owned (backend_complete_receive h g data failed w)"
    "drain_told (backend_complete_receive h g data failed w)" by (metis notify_owned)+
qed

lemma transfer_done_owned:
  assumes own: "transfers_owned w" and i: "i < length (uw_flight w)"
  shows "transfers_owned (snd (world_step h (Transfer_Done i data failed) w))"
    "drain_told (snd (world_step h (Transfer_Done i data failed) w))"
proof -
  let ?b = "uw_backend w" and ?t = "uw_flight w ! i"
  let ?v = "w\<lparr>uw_flight := take i (uw_flight w) @ drop (Suc i) (uw_flight w)\<rparr>"
  have flights: "one_in_flight (bk_in_outstanding ?b) (bk_in_generation ?b) (bk_generation ?b) (filter tr_receive (uw_flight w))"
    "one_in_flight (bk_out_outstanding ?b) (bk_out_generation ?b) (bk_generation ?b) (filter (\<lambda>t. \<not> tr_receive t) (uw_flight w))"
    using own by (simp_all add: transfers_owned_def Let_def)
  have "transfers_owned (snd (world_step h (Transfer_Done i data failed) w)) \<and>
    drain_told (snd (world_step h (Transfer_Done i data failed) w))"
  proof (cases "tr_receive ?t")
    case True
    note m = one_in_flight_match [OF flights(1) i True]
    have "transfers_owned (set_backend (?b\<lparr>bk_in_outstanding := 0, bk_in_generation := 0,
        bk_in_purpose := RECEIVE_NONE, bk_in_timeout_ms := 0\<rparr>) ?v)"
      by (rule owned_receive [OF own]) (use m in simp_all)
    then show ?thesis
      using receive_keeps_owned [where w = ?v and h = h and g = "tr_submit_generation ?t" and failed = failed] m(1,2) i True
      by (simp add: transfer_complete_cb_def)
  next
    case False
    note m = one_in_flight_match [OF flights(2) i, OF False]
    define w1 where "w1 = set_backend (?b\<lparr>bk_out_outstanding := 0, bk_out_generation := 0,
        bk_out_completion_count := bk_out_completion_count ?b + 1\<rparr>) ?v"
    have "transfers_owned w1" unfolding w1_def by (rule owned_out [OF own]) (use m in simp_all)
    then have "transfers_owned (snd (call_owner h (on_out h (tr_submit_generation ?t) failed) w1))"
      by (rule call_owner_owned)
    moreover have "snd (world_step h (Transfer_Done i data failed) w) =
        snd (maybe_notify_drained h (snd (call_owner h (on_out h (tr_submit_generation ?t) failed) w1)))"
      using i False m(1,2)
      by (simp add: transfer_complete_cb_def backend_complete_out_def Let_def w1_def [symmetric])
    ultimately show ?thesis by (simp add: notify_owned)
  qed
  then show "transfers_owned (snd (world_step h (Transfer_Done i data failed) w))"
    "drain_told (snd (world_step h (Transfer_Done i data failed) w))" by blast+
qed

lemma one_in_flight_count:
  assumes "one_in_flight n g c ts"
  shows "length ts = unat n" "n \<le> 1" "list_all (\<lambda>t. tr_submit_generation t = c) ts" "n = 0 \<longleftrightarrow> ts = []"
  using assms by (auto simp: one_in_flight_def)

lemma owned_counts:
  assumes "transfers_owned w"
  defines "b \<equiv> uw_backend w"
  shows "length (filter tr_receive (uw_flight w)) = unat (bk_in_outstanding b)" "bk_in_outstanding b \<le> 1"
    "length (filter (\<lambda>t. \<not> tr_receive t) (uw_flight w)) = unat (bk_out_outstanding b)" "bk_out_outstanding b \<le> 1"
    "list_all (\<lambda>t. tr_submit_generation t = bk_generation b) (uw_flight w)"
    "backend_is_drained b \<longleftrightarrow> uw_flight w = []"
proof -
  have o: "one_in_flight (bk_in_outstanding b) (bk_in_generation b) (bk_generation b) (filter tr_receive (uw_flight w))"
    "one_in_flight (bk_out_outstanding b) (bk_out_generation b) (bk_generation b) (filter (\<lambda>t. \<not> tr_receive t) (uw_flight w))"
    using assms by (simp_all add: transfers_owned_def Let_def)
  note i = one_in_flight_count [OF o(1)] and t = one_in_flight_count [OF o(2)]
  show "length (filter tr_receive (uw_flight w)) = unat (bk_in_outstanding b)" "bk_in_outstanding b \<le> 1"
    "length (filter (\<lambda>t. \<not> tr_receive t) (uw_flight w)) = unat (bk_out_outstanding b)" "bk_out_outstanding b \<le> 1"
    using i t by blast+
  show "list_all (\<lambda>t. tr_submit_generation t = bk_generation b) (uw_flight w)"
    using i(3) t(3) by (auto simp: list_all_iff)
  show "backend_is_drained b \<longleftrightarrow> uw_flight w = []"
    using i(4) t(4) by (auto simp: backend_is_drained_def filter_empty_conv)
qed

lemma world_start_owned: "transfers_owned (usb_world_new u) \<and> drain_told (usb_world_new u)"
  by (simp add: transfers_owned_def drain_told_def usb_world_new_def usb_backend_new_def)

interpretation usb_world: machine_invariant "world_step h" "usb_world_new u" "\<lambda>w. transfers_owned w \<and> drain_told w"
  for h :: "'u backend_owner" and u :: 'u
proof
  show "transfers_owned (usb_world_new u) \<and> drain_told (usb_world_new u)" by (rule world_start_owned)
  fix x and w :: "'u usb_world"
  assume w: "transfers_owned w \<and> drain_told w"
  show "transfers_owned (snd (world_step h x w)) \<and> drain_told (snd (world_step h x w))"
  proof (cases x)
    case (Owner_Call c)
    show ?thesis
    proof (cases c)
      case (Basic c')
      obtain q reqs w1 where call: "basic_call_run c' w = (q, reqs, w1)" by (metis surj_pair)
      show ?thesis using basic_call_owned [OF call] w Owner_Call Basic call by simp
    next
      case Cancel_Backend
      then show ?thesis using Owner_Call w cancel_owned [of w h] by simp
    qed
  next
    case (Transfer_Done i data failed)
    then show ?thesis
      using w transfer_done_owned [of w i h data failed] by (cases "i < length (uw_flight w)") simp_all
  qed
qed

text \<open>
  Claim C32. Whatever the owner's callbacks and the router's consumers do, after any calls and
  completions the transfers libfprint holds are exactly the ones the backend counts: at most
  one receive and at most one transmission, each of the current generation; during the
  pre-session synchronisation nothing is transmitted; and a backend that was fenced has told
  its owner that it drained exactly when no transfer is left in flight.
\<close>

theorem backend_owns_transfers:
  "let w = snd (run_ops (world_step h) xs (usb_world_new u)); b = uw_backend w in
     length (filter tr_receive (uw_flight w)) = unat (bk_in_outstanding b) \<and> bk_in_outstanding b \<le> 1 \<and>
     length (filter (\<lambda>t. \<not> tr_receive t) (uw_flight w)) = unat (bk_out_outstanding b) \<and> bk_out_outstanding b \<le> 1 \<and>
     bk_max_outstanding b \<le> 1 \<and> bk_max_out_outstanding b \<le> 1 \<and>
     list_all (\<lambda>t. tr_submit_generation t = bk_generation b) (uw_flight w) \<and>
     (bk_pre_session_sync_active b \<longrightarrow> list_all tr_receive (uw_flight w) \<and> bk_in_purpose b \<noteq> PROTOCOL_RX) \<and>
     (\<not> bk_pre_session_sync_active b \<longrightarrow> bk_in_purpose b \<noteq> PRE_SESSION_SYNC_RX) \<and>
     (bk_terminal_fence b \<and> bk_generation b \<noteq> 0 \<longrightarrow> bk_drain_notified b = (uw_flight w = []))"
proof -
  define w where "w = snd (run_ops (world_step h) xs (usb_world_new u))"
  have "transfers_owned w \<and> drain_told w" unfolding w_def by (rule usb_world.inv_run)
  then have own: "transfers_owned w" and told: "drain_told w" by blast+
  let ?b = "uw_backend w"
  note counts = owned_counts [OF own]
  have sync: "bk_pre_session_sync_active ?b \<longrightarrow> list_all tr_receive (uw_flight w) \<and> bk_in_purpose ?b \<noteq> PROTOCOL_RX"
    "\<not> bk_pre_session_sync_active ?b \<longrightarrow> bk_in_purpose ?b \<noteq> PRE_SESSION_SYNC_RX"
    "bk_max_outstanding ?b \<le> 1" "bk_max_out_outstanding ?b \<le> 1"
    using own by (auto simp: transfers_owned_def Let_def list_all_iff filter_empty_conv)
  have "bk_drain_notified ?b = (uw_flight w = [])" if "bk_terminal_fence ?b" "bk_generation ?b \<noteq> 0"
    using own told that counts(6) by (auto simp: transfers_owned_def drain_told_def Let_def)
  with counts sync show ?thesis by (simp add: w_def [symmetric])
qed

definition counting_owner :: "nat backend_owner" where
  "counting_owner = \<lparr>on_drained = (\<lambda>w. ([], uw_user w + 1)), on_out = (\<lambda>g e w. ([], uw_user w)),
     on_in = (\<lambda>g e w. ([], uw_user w)), on_sync = (\<lambda>g d e w. ([], uw_user w)), on_a0 = None, on_b0 = None\<rparr>"

definition fenced_session :: "world_event list" where
  "fenced_session = [Owner_Call (Basic (Router_Begin 5)), Owner_Call (Basic (Begin_Generation 5 None)),
     Owner_Call (Basic (Arm_Receive 5)), Owner_Call (Basic (Submit_Out 5 (Some [1]))), Owner_Call Cancel_Backend]"

definition drained_session :: "world_event list" where
  "drained_session = fenced_session @ [Transfer_Done 1 [] False, Transfer_Done 0 [0xa0] False]"

lemmas session_run_simps =
  counting_owner_def fenced_session_def drained_session_def usb_world_new_def usb_backend_new_def usb_router_new_def
  router_begin_generation_def router_request_receive_def backend_begin_generation_def backend_arm_receive_def
  backend_submit_out_def backend_cancel_def maybe_notify_drained_def backend_is_drained_def production_submit_def
  pending_new_def router_cancel_def transfer_complete_cb_def backend_complete_out_def backend_complete_receive_def
  call_owner_def

lemma fenced_session_evaluated:
  "let w = snd (run_ops (world_step counting_owner) fenced_session (usb_world_new 0)) in
     uw_flight w = [\<lparr>tr_receive = True, tr_submit_generation = 5, tr_timeout_ms = 0, tr_bytes = []\<rparr>,
       \<lparr>tr_receive = False, tr_submit_generation = 5, tr_timeout_ms = 0, tr_bytes = [1]\<rparr>] \<and>
     bk_terminal_fence (uw_backend w) \<and> bk_generation (uw_backend w) = 5 \<and>
     \<not> bk_pre_session_sync_active (uw_backend w) \<and> uw_user w = 0"
  by (simp add: session_run_simps Let_def)

theorem backend_owns_transfers_witness:
  "let w = snd (run_ops (world_step counting_owner) fenced_session (usb_world_new 0));
       w' = snd (run_ops (world_step counting_owner) drained_session (usb_world_new 0)) in
     bk_terminal_fence (uw_backend w) \<and> bk_generation (uw_backend w) = 5 \<and> length (uw_flight w) = 2 \<and>
     \<not> bk_drain_notified (uw_backend w) \<and>
     bk_terminal_fence (uw_backend w') \<and> uw_flight w' = [] \<and> bk_drain_notified (uw_backend w') \<and> uw_user w' = 1"
proof -
  let ?s = "fenced_session" and ?t = drained_session
  have "uw_flight (snd (run_ops (world_step counting_owner) ?t (usb_world_new 0))) = []"
    "bk_terminal_fence (uw_backend (snd (run_ops (world_step counting_owner) ?t (usb_world_new 0))))"
    "bk_generation (uw_backend (snd (run_ops (world_step counting_owner) ?t (usb_world_new 0)))) = 5"
    "uw_user (snd (run_ops (world_step counting_owner) ?t (usb_world_new 0))) = 1"
    by (simp_all add: session_run_simps Let_def)
  then show ?thesis
    using backend_owns_transfers [of counting_owner ?s 0] backend_owns_transfers [of counting_owner ?t 0] fenced_session_evaluated
    by (simp add: Let_def)
qed

end
