(* ===== verification/Enrollment_Diversity.thy ===== *)
theory Enrollment_Diversity
  imports Prelude
begin

text \<open>
  The fixed-21 enrollment policy (\<^verbatim>\<open>goodix_enrollment_diversity.c\<close>): a quality gate, the
  diagnostic comparison with the samples accepted so far, and completion at the 21st
  accepted sample. The policy object is never \<^verbatim>\<open>NULL\<close>; a frame and its size are one list.
  The used entries of the C array \<^verbatim>\<open>accepted\<close> are a list, and whether the copy of a frame can
  be allocated is an argument.
\<close>

section \<open>State\<close>

abbreviation REQUIRED_ACCEPTED_SAMPLES :: nat where "REQUIRED_ACCEPTED_SAMPLES \<equiv> 21"

datatype diversity_decision =
    DIVERSITY_ACCEPT | DIVERSITY_RETRY_POOR | DIVERSITY_ACCEPT_TERMINAL | DIVERSITY_FAILED

record sample_metrics =
  sm_keypoints :: u32
  sm_coverage_mask :: u64

record observation =
  ob_decision :: diversity_decision
  ob_physical_attempt_count :: u32
  ob_accepted_sample_count :: u32
  ob_sigfm_keypoints :: u32
  ob_sigfm_coverage_cells :: u32
  ob_aggregate_coverage_cells :: u32
  ob_raster_range :: u32
  ob_raster_contrast :: u32
  ob_nearest_mad :: u32
  ob_nearest_coverage_percent :: u32
  ob_exact_duplicate :: bool
  ob_near_duplicate :: bool

record accepted_sample =
  as_frame :: bytes
  as_keypoints :: u32
  as_coverage_mask :: u64
  as_raster_contrast :: u32

record diversity =
  dv_frame_size :: nat
  dv_accepted :: "accepted_sample list"
  dv_accepted_count :: u32
  dv_physical_attempt_count :: u32
  dv_template_stage_target :: u32
  dv_aggregate_coverage_mask :: u64
  dv_last :: observation
  dv_terminal :: bool

text \<open>The zeroed observation; the first decision of the enumeration has value zero.\<close>

definition observation_zero :: observation where
  "observation_zero = \<lparr>ob_decision = DIVERSITY_ACCEPT, ob_physical_attempt_count = 0,
     ob_accepted_sample_count = 0, ob_sigfm_keypoints = 0, ob_sigfm_coverage_cells = 0,
     ob_aggregate_coverage_cells = 0, ob_raster_range = 0, ob_raster_contrast = 0, ob_nearest_mad = 0,
     ob_nearest_coverage_percent = 0, ob_exact_duplicate = False, ob_near_duplicate = False\<rparr>"

definition diversity_new :: "nat \<Rightarrow> diversity option" where
  "diversity_new frame_size =
     (if frame_size = 0 \<or> frame_size > (2 ^ 64 - 1) div 255 then None
      else Some \<lparr>dv_frame_size = frame_size, dv_accepted = [], dv_accepted_count = 0,
        dv_physical_attempt_count = 0, dv_template_stage_target = 0, dv_aggregate_coverage_mask = 0,
        dv_last = observation_zero, dv_terminal = False\<rparr>)"

section \<open>Measures\<close>

text \<open>The loop clears the lowest set bit until none is left.\<close>

function count_bits :: "u64 \<Rightarrow> u32" where
  "count_bits v = (if v = 0 then 0 else count_bits (v AND (v - 1)) + 1)"
  by auto
termination
proof (relation "measure unat")
  fix v :: u64
  assume "v \<noteq> 0"
  have "unat (v AND (v - 1)) \<le> unat (v - 1)"
    by (metis word_and_le1 word_le_nat_alt)
  also have "unat (v - 1) < unat v"
    using \<open>v \<noteq> 0\<close> by (simp add: unat_minus_one unat_gt_0 [symmetric])
  finally show "(v AND (v - 1), v) \<in> measure unat" by simp
qed simp

declare count_bits.simps [simp del]

text \<open>C: \<^verbatim>\<open>(guint64) ABS ((gint) a - (gint) b)\<close> of two values that fit a byte or a \<^verbatim>\<open>guint\<close>.\<close>

definition abs_difference :: "int \<Rightarrow> int \<Rightarrow> u64" where
  "abs_difference a b = of_int \<bar>a - b\<bar>"

definition rounded_quotient :: "u64 \<Rightarrow> nat \<Rightarrow> u32" where
  "rounded_quotient s n = ucast ((s + of_nat (n div 2)) div of_nat n)"

definition raster_quality :: "bytes \<Rightarrow> u32 \<times> u32" where
  "raster_quality frame =
     (let minimum = foldl min 255 frame;
          maximum = foldl max 0 frame;
          byte_sum = foldl (\<lambda>s b. s + ucast b) (0 :: u64) frame;
          mean = rounded_quotient byte_sum (length frame);
          deviation_sum = foldl (\<lambda>s b. s + abs_difference (uint b) (sint mean)) 0 frame
      in (ucast maximum - ucast minimum, rounded_quotient deviation_sum (length frame)))"

definition mean_absolute_difference :: "bytes \<Rightarrow> bytes \<Rightarrow> u32" where
  "mean_absolute_difference left right =
     rounded_quotient (foldl (\<lambda>s (l, r). s + abs_difference (uint l) (uint r)) 0 (zip left right)) (length left)"

definition coverage_similarity_percent :: "u64 \<Rightarrow> u64 \<Rightarrow> u32" where
  "coverage_similarity_percent left right =
     (let union_count = count_bits (left OR right) in
      if union_count = 0 then 0 else count_bits (left AND right) * 100 div union_count)"

definition keypoints_are_near :: "u32 \<Rightarrow> u32 \<Rightarrow> bool" where
  "keypoints_are_near left right \<longleftrightarrow>
     (let maximum = max left right; difference = maximum - min left right in
      maximum \<noteq> 0 \<and> difference * 100 \<le> maximum * 25)"

section \<open>Observing a sample\<close>

definition classify_one :: "bytes \<Rightarrow> sample_metrics \<Rightarrow> observation \<Rightarrow> accepted_sample \<Rightarrow> observation" where
  "classify_one frame metrics ob a =
     (let mad = mean_absolute_difference frame (as_frame a);
          coverage = coverage_similarity_percent (sm_coverage_mask metrics) (as_coverage_mask a)
      in ob\<lparr>ob_nearest_mad := min (ob_nearest_mad ob) mad,
           ob_nearest_coverage_percent := max (ob_nearest_coverage_percent ob) coverage,
           ob_exact_duplicate := ob_exact_duplicate ob \<or> mad < 4,
           ob_near_duplicate := ob_near_duplicate ob \<or> mad < 24 \<and> coverage \<ge> 75 \<and>
             keypoints_are_near (sm_keypoints metrics) (as_keypoints a)\<rparr>)"

definition classify_duplicate :: "bytes \<Rightarrow> sample_metrics \<Rightarrow> diversity \<Rightarrow> observation \<Rightarrow> observation" where
  "classify_duplicate frame metrics d ob =
     (if dv_accepted_count d = 0 then ob
      else foldl (classify_one frame metrics) (ob\<lparr>ob_nearest_mad := - 1\<rparr>)
        (take (unat (dv_accepted_count d)) (dv_accepted d)))"

definition is_poor :: "diversity \<Rightarrow> sample_metrics \<Rightarrow> u32 \<Rightarrow> bool" where
  "is_poor d metrics coverage_cells \<longleftrightarrow>
     sm_keypoints metrics < 25 \<or> coverage_cells < 4 \<or> ob_raster_range (dv_last d) < 48 \<or>
     ob_raster_contrast (dv_last d) < 12"

definition record_decision :: "diversity_decision \<Rightarrow> diversity \<Rightarrow> diversity" where
  "record_decision decision d =
     d\<lparr>dv_last := (dv_last d)\<lparr>ob_decision := decision,
         ob_physical_attempt_count := dv_physical_attempt_count d,
         ob_accepted_sample_count := dv_accepted_count d,
         ob_aggregate_coverage_cells := count_bits (dv_aggregate_coverage_mask d)\<rparr>\<rparr>"

text \<open>The sample is stored at index \<^verbatim>\<open>accepted_count\<close>.\<close>

definition store_sample :: "bytes \<Rightarrow> sample_metrics \<Rightarrow> diversity \<Rightarrow> diversity" where
  "store_sample frame metrics d =
     d\<lparr>dv_accepted := dv_accepted d @ [\<lparr>as_frame = frame, as_keypoints = sm_keypoints metrics,
           as_coverage_mask = sm_coverage_mask metrics, as_raster_contrast = ob_raster_contrast (dv_last d)\<rparr>],
       dv_accepted_count := dv_accepted_count d + 1,
       dv_aggregate_coverage_mask := dv_aggregate_coverage_mask d OR sm_coverage_mask metrics\<rparr>"

definition diversity_observe ::
    "bool \<Rightarrow> bytes option \<Rightarrow> sample_metrics option \<Rightarrow> diversity \<Rightarrow> diversity_decision \<times> diversity" where
  "diversity_observe allocated frame metrics d =
     (case (frame, metrics) of
        (Some f, Some m) \<Rightarrow>
          if length f \<noteq> dv_frame_size d \<or> dv_terminal d then (DIVERSITY_FAILED, d)
          else
            let coverage_cells = count_bits (sm_coverage_mask m);
                (range, contrast) = raster_quality f;
                d1 = d\<lparr>dv_physical_attempt_count := dv_physical_attempt_count d + 1,
                  dv_last := observation_zero\<lparr>ob_sigfm_keypoints := sm_keypoints m,
                    ob_sigfm_coverage_cells := coverage_cells, ob_raster_range := range,
                    ob_raster_contrast := contrast\<rparr>\<rparr> in
            if is_poor d1 m coverage_cells
            then (DIVERSITY_RETRY_POOR, record_decision DIVERSITY_RETRY_POOR d1)
            else
              let d2 = d1\<lparr>dv_last := classify_duplicate f m d1 (dv_last d1)\<rparr> in
              if \<not> allocated
              then (DIVERSITY_FAILED, record_decision DIVERSITY_FAILED (d2\<lparr>dv_terminal := True\<rparr>))
              else
                let d3 = store_sample f m d2 in
                if dv_accepted_count d3 = of_nat REQUIRED_ACCEPTED_SAMPLES
                then (DIVERSITY_ACCEPT_TERMINAL, record_decision DIVERSITY_ACCEPT_TERMINAL
                  (d3\<lparr>dv_template_stage_target := dv_accepted_count d3, dv_terminal := True\<rparr>))
                else (DIVERSITY_ACCEPT, record_decision DIVERSITY_ACCEPT d3)
      | _ \<Rightarrow> (DIVERSITY_FAILED, d))"

section \<open>Counting bits\<close>

lemma clear_lowest_bit:
  fixes v :: "'a :: len word"
  assumes "v \<noteq> 0"
  shows "\<exists>k. bit v k \<and> (\<forall>j < k. \<not> bit v j) \<and> (\<forall>n. bit (v AND (v - 1)) n \<longleftrightarrow> bit v n \<and> n \<noteq> k)"
proof -
  define k where "k = (LEAST k. bit v k)"
  have "\<exists>k. bit v k" using assms by (metis bit_0_eq bit_word_eqI bot_apply bot_bool_def)
  then have k: "bit v k" "\<forall>j < k. \<not> bit v j"
    unfolding k_def by (auto intro: LeastI_ex dest: not_less_Least)
  have kl: "k < LENGTH('a)" using k(1) by (rule bit_imp_le_length)
  have "take_bit k v = 0" using k(2) by (intro bit_word_eqI) (auto simp: bit_simps)
  define u where "u = drop_bit k v"
  have v: "v = push_bit k u" using \<open>take_bit k v = 0\<close> unfolding u_def by (metis add.right_neutral bits_ident)
  have odd: "odd u" using k(1) unfolding u_def by (simp add: bit_iff_odd_drop_bit)
  have below: "v - 1 = push_bit k (u - 1) OR mask k"
  proof -
    have "push_bit k (u - 1) AND mask k = 0" by (rule bit_word_eqI) (auto simp: bit_simps)
    then have "push_bit k (u - 1) OR mask k = push_bit k (u - 1) + mask k"
      by (simp add: disjunctive_add_eq_or)
    also have "\<dots> = v - 1"
      unfolding v by (simp add: push_bit_eq_mult mask_eq_exp_minus_1 algebra_simps)
    finally show ?thesis by simp
  qed
  have "bit (u - 1) n \<longleftrightarrow> bit u n \<and> n \<noteq> 0" for n
  proof -
    have "(u AND NOT 1) AND 1 = 0" by (rule bit_word_eqI) (auto simp: bit_simps)
    then have "(u AND NOT 1) + 1 = (u AND NOT 1) OR 1" by (simp only: disjunctive_add_eq_or)
    also have "\<dots> = u" using odd by (intro bit_word_eqI) (auto simp: bit_simps bit_0)
    finally have "u - 1 = u AND NOT 1" by (metis add_diff_cancel_right')
    then show ?thesis using bit_imp_le_length [of u n] by (auto simp: bit_simps)
  qed
  then have "bit (v AND (v - 1)) n \<longleftrightarrow> bit v n \<and> n \<noteq> k" for n
    unfolding below using k(2) by (subst v, subst v) (auto simp: bit_simps)
  with k show ?thesis by blast
qed

text \<open>The reference: the number of bits set.\<close>

lemma finite_bits: "finite {n. bit (v :: u64) n}"
  by (rule finite_subset [of _ "{..<64}"]) (auto dest: bit_imp_le_length)

lemma count_bits_card: "count_bits v = of_nat (card {n. bit v n})"
proof (induction v rule: count_bits.induct)
  case (1 v)
  show ?case
  proof (cases "v = 0")
    case False
    from clear_lowest_bit [OF this] obtain k where
      k: "bit v k" "{n. bit (v AND (v - 1)) n} = {n. bit v n} - {k}" by blast
    have "card {n. bit v n} = Suc (card ({n. bit v n} - {k}))"
      using card_Suc_Diff1 [OF finite_bits, of k v] k(1) by (simp del: card_Diff_insert card_Diff_singleton)
    with 1 False k(2) show ?thesis by (subst count_bits.simps) simp
  qed (simp add: count_bits.simps)
qed

lemma card_bits_le: "card {n. bit (v :: u64) n} \<le> 64"
proof -
  have "{n. bit v n} \<subseteq> {..<64}" by (auto dest: bit_imp_le_length)
  then show ?thesis using card_mono [of "{..<64 :: nat}" "{n. bit v n}"] by simp
qed

lemma unat_count_bits: "unat (count_bits v) = card {n. bit v n}"
  using card_bits_le [of v] by (simp add: count_bits_card unat_of_nat)

lemma unat_small: "n < 2 ^ 32 \<Longrightarrow> unat (of_nat n :: u32) = n"
  by (simp add: unat_of_nat)

lemma unat_large: "n < 2 ^ 64 \<Longrightarrow> unat (of_nat n :: u64) = n"
  by (simp add: unat_of_nat)

section \<open>Sums and quotients\<close>

lemma sum_no_wrap:
  fixes s :: u64
  assumes "unat s + sum_list (map (\<lambda>x. unat (g x)) xs) < 2 ^ 64"
  shows "unat (foldl (\<lambda>s x. s + g x) s xs) = unat s + sum_list (map (\<lambda>x. unat (g x)) xs)"
  using assms
proof (induction xs arbitrary: s)
  case (Cons x xs)
  then have "unat (s + g x) = unat s + unat (g x)" by (simp add: unat_add_lem [symmetric])
  with Cons.prems show ?case by (simp add: Cons.IH)
qed simp

lemma rounded_quotient_exact:
  assumes "0 < n" "n < 2 ^ 55" "unat s \<le> 255 * n"
  shows "unat (rounded_quotient s n) = (unat s + n div 2) div n" "(unat s + n div 2) div n \<le> 255"
proof -
  have small: "unat s + n div 2 < 2 ^ 64" using assms by simp
  then have "unat (s + of_nat (n div 2)) = unat s + n div 2"
    using assms(2) unat_large [of "n div 2"] unat_add_lem [of s "of_nat (n div 2)"] by simp
  moreover have "unat (of_nat n :: u64) = n" using assms(2) by (intro unat_large) simp
  ultimately have q: "unat ((s + of_nat (n div 2)) div of_nat n) = (unat s + n div 2) div n"
    by (simp add: unat_div_distrib)
  have "(unat s + n div 2) div n < 256"
    using assms by (subst div_less_iff_less_mult) auto
  then show "(unat s + n div 2) div n \<le> 255" by simp
  with q show "unat (rounded_quotient s n) = (unat s + n div 2) div n"
    unfolding rounded_quotient_def by (simp add: unsigned_ucast_eq take_bit_nat_eq_self)
qed

lemma abs_difference_exact:
  assumes "0 \<le> a" "a \<le> 255" "0 \<le> b" "b \<le> 255"
  shows "unat (abs_difference a b) = nat \<bar>a - b\<bar>" "unat (abs_difference a b) \<le> 255"
proof -
  define n where "n = nat \<bar>a - b\<bar>"
  have "abs_difference a b = of_nat n" by (simp add: abs_difference_def n_def)
  moreover have "n \<le> 255" using assms unfolding n_def by linarith
  ultimately show "unat (abs_difference a b) = nat \<bar>a - b\<bar>" "unat (abs_difference a b) \<le> 255"
    unfolding n_def [symmetric] by (simp_all add: unat_large)
qed

lemma sum_list_bounded: "(\<And>x. x \<in> set xs \<Longrightarrow> f x \<le> (k :: nat)) \<Longrightarrow> sum_list (map f xs) \<le> k * length xs"
  by (induction xs) (auto intro: add_mono)

lemma uint_byte: "0 \<le> uint (b :: u8)" "uint (b :: u8) \<le> 255"
proof -
  have "uint b = int (unat b)" by (rule uint_nat)
  with unat_u8_less [of b] show "0 \<le> uint b" "uint b \<le> 255" by linarith+
qed

lemma byte_sum_exact:
  assumes "length xs < 2 ^ 55" "\<And>x. unat (g x :: u64) \<le> 255"
  shows "unat (foldl (\<lambda>s x. s + g x) 0 xs) = sum_list (map (\<lambda>x. unat (g x)) xs)"
    "sum_list (map (\<lambda>x. unat (g x)) xs) \<le> 255 * length xs"
proof -
  show bound: "sum_list (map (\<lambda>x. unat (g x)) xs) \<le> 255 * length xs"
    using assms(2) by (intro sum_list_bounded)
  also have "\<dots> < 2 ^ 64" using assms(1) by simp
  finally show "unat (foldl (\<lambda>s x. s + g x) 0 xs) = sum_list (map (\<lambda>x. unat (g x)) xs)"
    using sum_no_wrap [of 0 g xs] by simp
qed

text \<open>The measures over the natural numbers.\<close>

definition mean_of :: "bytes \<Rightarrow> nat" where
  "mean_of f = (sum_list (map unat f) + length f div 2) div length f"

definition contrast_of :: "bytes \<Rightarrow> nat" where
  "contrast_of f =
     (sum_list (map (\<lambda>b. nat \<bar>int (unat b) - int (mean_of f)\<bar>) f) + length f div 2) div length f"

definition mad_of :: "bytes \<Rightarrow> bytes \<Rightarrow> nat" where
  "mad_of f g = (sum_list (map (\<lambda>(l, r). nat \<bar>int (unat l) - int (unat r)\<bar>) (zip f g)) + length f div 2) div length f"

lemma sint_small: "uint (w :: u32) < 2 ^ 31 \<Longrightarrow> sint w = uint w"
proof -
  assume "uint w < 2 ^ 31"
  moreover have "- (2 ^ 31) \<le> uint w" by (rule order_trans [of _ 0]) simp_all
  ultimately show ?thesis using signed_take_bit_int_eq_self [of 31 "uint w"] by (simp add: sint_uint)
qed

lemma contrast_exact:
  assumes "f \<noteq> []" "length f < 2 ^ 55"
  shows "unat (snd (raster_quality f)) = contrast_of f" "contrast_of f \<le> 255"
proof -
  let ?s = "foldl (\<lambda>s b. s + ucast b) (0 :: u64) f"
  define mean where "mean = rounded_quotient ?s (length f)"
  have "unat (ucast b :: u64) = unat b" for b :: u8
    using order.strict_trans [OF unat_u8_less [of b], of "2 ^ 64"] by (simp add: unsigned_ucast_eq take_bit_nat_eq_self)
  moreover have "unat b \<le> 255" for b :: u8 using unat_u8_less [of b] by linarith
  ultimately have "unat ?s = sum_list (map unat f)" "unat ?s \<le> 255 * length f"
    using byte_sum_exact [OF assms(2), of ucast] by simp_all
  then have mean: "unat mean = mean_of f" "mean_of f \<le> 255"
    using rounded_quotient_exact [of "length f" ?s] assms by (simp_all add: mean_def mean_of_def)
  have m: "uint mean = int (mean_of f)" using mean(1) uint_nat [of mean] by (simp only:)
  have "uint mean < 2 ^ 31" unfolding m using mean(2) by simp
  then have sint_mean: "sint mean = int (mean_of f)" using sint_small [of mean] m by simp
  let ?d = "foldl (\<lambda>s b. s + abs_difference (uint b) (sint mean)) 0 f"
  have diff: "unat (abs_difference (uint b) (sint mean)) = nat \<bar>int (unat b) - int (mean_of f)\<bar>"
    "unat (abs_difference (uint b) (sint mean)) \<le> 255" for b :: u8
    using abs_difference_exact [of "uint b" "sint mean"] uint_byte [of b] mean(2)
    by (simp_all add: sint_mean)
  then have "unat ?d = sum_list (map (\<lambda>b. nat \<bar>int (unat b) - int (mean_of f)\<bar>) f)" "unat ?d \<le> 255 * length f"
    using byte_sum_exact [OF assms(2), of "\<lambda>b. abs_difference (uint b) (sint mean)"] by simp_all
  then show "unat (snd (raster_quality f)) = contrast_of f" "contrast_of f \<le> 255"
    using rounded_quotient_exact [of "length f" ?d] assms
    by (simp_all add: raster_quality_def Let_def mean_def [symmetric] contrast_of_def)
qed

lemma mad_exact:
  assumes "f \<noteq> []" "length f < 2 ^ 55" "length g = length f"
  shows "unat (mean_absolute_difference f g) = mad_of f g" "mad_of f g \<le> 255"
proof -
  define diff where "diff = (\<lambda>(l, r). abs_difference (uint (l :: u8)) (uint (r :: u8)))"
  have diff: "unat (diff x) = (case x of (l, r) \<Rightarrow> nat \<bar>int (unat l) - int (unat r)\<bar>)" "unat (diff x) \<le> 255" for x
    using abs_difference_exact [of "uint (fst x)" "uint (snd x)"] uint_byte [of "fst x"] uint_byte [of "snd x"]
    by (cases x; simp add: diff_def)+
  have len: "length (zip f g) = length f" using assms(3) by simp
  let ?d = "foldl (\<lambda>s x. s + diff x) 0 (zip f g)"
  have "unat ?d = sum_list (map (\<lambda>(l, r). nat \<bar>int (unat l) - int (unat r)\<bar>) (zip f g))" "unat ?d \<le> 255 * length f"
    using byte_sum_exact [of "zip f g" diff, unfolded len, OF assms(2) diff(2)] by (simp_all add: diff(1))
  moreover have "foldl (\<lambda>s (l, r). s + abs_difference (uint l) (uint r)) 0 (zip f g) = ?d"
    by (simp add: diff_def case_prod_unfold)
  ultimately show "unat (mean_absolute_difference f g) = mad_of f g" "mad_of f g \<le> 255"
    using rounded_quotient_exact [of "length f" ?d] assms(1,2)
    by (simp_all add: mean_absolute_difference_def mad_of_def)
qed

lemma foldl_extremes:
  fixes a :: "'a :: linorder"
  shows "foldl min a f = Min (insert a (set f))" "foldl max a f = Max (insert a (set f))"
proof -
  have "Min (insert (min a x) S) = Min (insert a (insert x S))"
    "Max (insert (max a x) S) = Max (insert a (insert x S))" if "finite S" for a x :: 'a and S
    using that by (cases "S = {}"; simp add: min.assoc max.assoc)+
  then show "foldl min a f = Min (insert a (set f))" "foldl max a f = Max (insert a (set f))"
    by (induction f arbitrary: a) simp_all
qed

lemma range_exact:
  assumes "f \<noteq> []"
  shows "unat (fst (raster_quality f)) = unat (Max (set f)) - unat (Min (set f))"
proof -
  have "foldl min 255 f = Min (set f)" "foldl max 0 f = Max (set f)"
  proof -
    have "(255 :: u8) = - 1" by simp
    then have "Min (set f) \<le> 255" by (metis word_n1_ge)
    then show "foldl min 255 f = Min (set f)" using assms by (simp add: foldl_extremes min.absorb2)
    have "0 \<le> Max (set f)" by simp
    then show "foldl max 0 f = Max (set f)" using assms by (simp add: foldl_extremes max.absorb2)
  qed
  then have fst: "fst (raster_quality f) = ucast (Max (set f)) - ucast (Min (set f))"
    by (simp add: raster_quality_def Let_def)
  have wide: "unat (ucast b :: u32) = unat b" for b :: u8
    using order.strict_trans [OF unat_u8_less [of b], of "2 ^ 32"] by (simp add: unsigned_ucast_eq take_bit_nat_eq_self)
  have "Min (set f) \<le> Max (set f)" using assms by (meson List.finite_set Max_ge Min_in order_refl set_empty Min_le Max_in)
  then have "unat (Min (set f)) \<le> unat (Max (set f))" by (simp add: word_le_nat_alt)
  then show ?thesis unfolding fst by (subst unat_sub) (simp_all add: wide word_le_nat_alt)
qed

lemma coverage_exact:
  "unat (coverage_similarity_percent a b) =
     card {n. bit a n \<and> bit b n} * 100 div card {n. bit a n \<or> bit b n}"
  "unat (coverage_similarity_percent a b) \<le> 100"
proof -
  define i u where "i = card {n. bit a n \<and> bit b n}" and "u = card {n. bit a n \<or> bit b n}"
  have iu: "i = card {n. bit (a AND b) n}" "u = card {n. bit (a OR b) n}"
    by (simp_all add: i_def u_def bit_simps)
  have le: "i \<le> u" "u \<le> 64"
  proof -
    have "{n. bit (a AND b) n} \<subseteq> {n. bit (a OR b) n}" by (auto simp: bit_simps)
    then show "i \<le> u" unfolding iu by (rule card_mono [OF finite_bits])
    show "u \<le> 64" unfolding iu by (rule card_bits_le)
  qed
  have counts: "count_bits (a AND b) = of_nat i" "count_bits (a OR b) = of_nat u"
    by (simp_all add: count_bits_card iu)
  have "unat (coverage_similarity_percent a b) = i * 100 div u"
  proof (cases "u = 0")
    case False
    then have "(of_nat u :: u32) \<noteq> 0" using le unat_small [of u] by force
    moreover have eq: "(of_nat i * 100 :: u32) = of_nat (i * 100)" by simp
    have "unat (of_nat i * 100 :: u32) = i * 100" unfolding eq by (rule unat_small) (use le in simp)
    ultimately show ?thesis
      using le unat_small [of u]
      by (simp add: coverage_similarity_percent_def counts Let_def unat_div_distrib)
  qed (simp add: coverage_similarity_percent_def counts Let_def)
  then show "unat (coverage_similarity_percent a b) =
     card {n. bit a n \<and> bit b n} * 100 div card {n. bit a n \<or> bit b n}"
    by (simp add: i_def u_def)
  have "i * 100 div u \<le> 100"
    using le by (cases "u = 0") (auto intro: order_trans [OF div_le_mono [of "i * 100" "u * 100"]])
  with \<open>unat (coverage_similarity_percent a b) = i * 100 div u\<close>
  show "unat (coverage_similarity_percent a b) \<le> 100" by simp
qed

section \<open>The policy, abstractly\<close>

text \<open>Whether a sample passes the quality gate depends on the sample alone.\<close>

definition usable_sample :: "bytes \<Rightarrow> sample_metrics \<Rightarrow> bool" where
  "usable_sample f m \<longleftrightarrow> 25 \<le> sm_keypoints m \<and> 4 \<le> count_bits (sm_coverage_mask m) \<and>
     48 \<le> fst (raster_quality f) \<and> 12 \<le> snd (raster_quality f)"

text \<open>
  An attempt: whether its copy can be allocated, the frame and the metrics. What the policy
  looks at: a frame or metrics may be missing or the frame of another size; the sample may be
  poor; and a usable sample may find no memory for its copy.
\<close>

type_synonym attempt = "bool \<times> bytes option \<times> sample_metrics option"

datatype attempt_class = Malformed_Attempt | Poor_Attempt | Unstored_Attempt | Usable_Attempt

definition attempt_kind :: "nat \<Rightarrow> attempt \<Rightarrow> attempt_class" where
  "attempt_kind n x =
     (case x of
        (allocated, Some f, Some m) \<Rightarrow>
          if length f \<noteq> n then Malformed_Attempt
          else if \<not> usable_sample f m then Poor_Attempt
          else if \<not> allocated then Unstored_Attempt else Usable_Attempt
      | _ \<Rightarrow> Malformed_Attempt)"

text \<open>The decisions, given whether the enrollment has ended and how many samples are in.\<close>

fun fixed_policy :: "bool \<Rightarrow> nat \<Rightarrow> attempt_class list \<Rightarrow> diversity_decision list" where
  "fixed_policy ended k [] = []"
| "fixed_policy ended k (x # rest) =
     (if ended then DIVERSITY_FAILED # fixed_policy ended k rest
      else case x of
          Malformed_Attempt \<Rightarrow> DIVERSITY_FAILED # fixed_policy ended k rest
        | Poor_Attempt \<Rightarrow> DIVERSITY_RETRY_POOR # fixed_policy ended k rest
        | Unstored_Attempt \<Rightarrow> DIVERSITY_FAILED # fixed_policy True k rest
        | Usable_Attempt \<Rightarrow>
            (if k + 1 = REQUIRED_ACCEPTED_SAMPLES then DIVERSITY_ACCEPT_TERMINAL # fixed_policy True (k + 1) rest
             else DIVERSITY_ACCEPT # fixed_policy False (k + 1) rest))"

text \<open>The samples that count: the usable ones before the first that could not be stored.\<close>

definition countable_attempts :: "nat \<Rightarrow> attempt list \<Rightarrow> attempt list" where
  "countable_attempts n xs = filter (\<lambda>x. attempt_kind n x = Usable_Attempt)
     (takeWhile (\<lambda>x. attempt_kind n x \<noteq> Unstored_Attempt) xs)"

definition attempt_frame :: "attempt \<Rightarrow> bytes" where
  "attempt_frame x = (case x of (allocated, Some f, m) \<Rightarrow> f | _ \<Rightarrow> [])"

definition attempt_mask :: "attempt \<Rightarrow> u64" where
  "attempt_mask x = (case x of (allocated, f, Some m) \<Rightarrow> sm_coverage_mask m | _ \<Rightarrow> 0)"

fun observe_all :: "attempt list \<Rightarrow> diversity \<Rightarrow> diversity_decision list \<times> diversity" where
  "observe_all [] d = ([], d)"
| "observe_all ((allocated, f, m) # xs) d =
     (let (decision, d1) = diversity_observe allocated f m d; (ds, d2) = observe_all xs d1
      in (decision # ds, d2))"

definition diversity_inv :: "diversity \<Rightarrow> bool" where
  "diversity_inv d \<longleftrightarrow> length (dv_accepted d) \<le> REQUIRED_ACCEPTED_SAMPLES \<and>
     dv_accepted_count d = of_nat (length (dv_accepted d)) \<and>
     (length (dv_accepted d) = REQUIRED_ACCEPTED_SAMPLES \<longrightarrow> dv_terminal d) \<and>
     dv_template_stage_target d =
       (if length (dv_accepted d) = REQUIRED_ACCEPTED_SAMPLES then of_nat REQUIRED_ACCEPTED_SAMPLES else 0)"

lemma record_decision_fields [simp]:
  "dv_frame_size (record_decision x d) = dv_frame_size d" "dv_accepted (record_decision x d) = dv_accepted d"
  "dv_accepted_count (record_decision x d) = dv_accepted_count d" "dv_terminal (record_decision x d) = dv_terminal d"
  "dv_template_stage_target (record_decision x d) = dv_template_stage_target d"
  "dv_aggregate_coverage_mask (record_decision x d) = dv_aggregate_coverage_mask d"
  by (simp_all add: record_decision_def)

text \<open>What an attempt does to the state, by its kind.\<close>

lemma observe_ended: "dv_terminal d \<Longrightarrow> diversity_observe allocated f m d = (DIVERSITY_FAILED, d)"
  by (simp add: diversity_observe_def split: option.split)

lemma observe_malformed:
  "attempt_kind (dv_frame_size d) (allocated, f, m) = Malformed_Attempt \<Longrightarrow>
   diversity_observe allocated f m d = (DIVERSITY_FAILED, d)"
  by (auto simp: attempt_kind_def diversity_observe_def split: option.splits if_splits)

definition same_enrollment :: "diversity \<Rightarrow> diversity \<Rightarrow> bool" where
  "same_enrollment d d1 \<longleftrightarrow> dv_frame_size d1 = dv_frame_size d \<and> dv_accepted d1 = dv_accepted d \<and>
     dv_accepted_count d1 = dv_accepted_count d \<and> dv_template_stage_target d1 = dv_template_stage_target d \<and>
     dv_aggregate_coverage_mask d1 = dv_aggregate_coverage_mask d"

text \<open>The sample measured: the first part of the observation of a well-formed frame.\<close>

definition measured :: "bytes \<Rightarrow> sample_metrics \<Rightarrow> diversity \<Rightarrow> diversity" where
  "measured f m d = d\<lparr>dv_physical_attempt_count := dv_physical_attempt_count d + 1,
     dv_last := observation_zero\<lparr>ob_sigfm_keypoints := sm_keypoints m,
       ob_sigfm_coverage_cells := count_bits (sm_coverage_mask m), ob_raster_range := fst (raster_quality f),
       ob_raster_contrast := snd (raster_quality f)\<rparr>\<rparr>"

lemma measured_fields [simp]:
  "dv_frame_size (measured f m d) = dv_frame_size d" "dv_accepted (measured f m d) = dv_accepted d"
  "dv_accepted_count (measured f m d) = dv_accepted_count d" "dv_terminal (measured f m d) = dv_terminal d"
  "dv_template_stage_target (measured f m d) = dv_template_stage_target d"
  "dv_aggregate_coverage_mask (measured f m d) = dv_aggregate_coverage_mask d"
  by (simp_all add: measured_def)

lemma observe_measured:
  assumes "\<not> dv_terminal d" "length f = dv_frame_size d"
  shows "diversity_observe allocated (Some f) (Some m) d =
    (if \<not> usable_sample f m then (DIVERSITY_RETRY_POOR, record_decision DIVERSITY_RETRY_POOR (measured f m d))
     else
       let d2 = (measured f m d)\<lparr>dv_last := classify_duplicate f m (measured f m d) (dv_last (measured f m d))\<rparr>;
           d3 = store_sample f m d2 in
       if \<not> allocated then (DIVERSITY_FAILED, record_decision DIVERSITY_FAILED (d2\<lparr>dv_terminal := True\<rparr>))
       else if dv_accepted_count d3 = of_nat REQUIRED_ACCEPTED_SAMPLES
       then (DIVERSITY_ACCEPT_TERMINAL, record_decision DIVERSITY_ACCEPT_TERMINAL
         (d3\<lparr>dv_template_stage_target := dv_accepted_count d3, dv_terminal := True\<rparr>))
       else (DIVERSITY_ACCEPT, record_decision DIVERSITY_ACCEPT d3))"
proof -
  have "is_poor (measured f m d) m (count_bits (sm_coverage_mask m)) \<longleftrightarrow> \<not> usable_sample f m"
    by (auto simp: is_poor_def usable_sample_def measured_def not_le)
  then show ?thesis
    using assms unfolding diversity_observe_def by (simp add: Let_def case_prod_beta measured_def [symmetric])
qed

lemma observe_poor:
  assumes "\<not> dv_terminal d" "attempt_kind (dv_frame_size d) (allocated, f, m) = Poor_Attempt"
  obtains d1 where "diversity_observe allocated f m d = (DIVERSITY_RETRY_POOR, d1)" "same_enrollment d d1" "\<not> dv_terminal d1"
proof -
  obtain g k where g: "f = Some g" "m = Some k" "length g = dv_frame_size d" "\<not> usable_sample g k"
    using assms(2) by (auto simp: attempt_kind_def split: option.splits if_splits)
  show thesis
    by (rule that [of "record_decision DIVERSITY_RETRY_POOR (measured g k d)"])
       (use assms(1) g observe_measured [OF assms(1) g(3)] in \<open>simp_all add: same_enrollment_def\<close>)
qed

lemma observe_unstored:
  assumes "\<not> dv_terminal d" "attempt_kind (dv_frame_size d) (allocated, f, m) = Unstored_Attempt"
  obtains d1 where "diversity_observe allocated f m d = (DIVERSITY_FAILED, d1)" "same_enrollment d d1" "dv_terminal d1"
proof -
  obtain g k where g: "f = Some g" "m = Some k" "length g = dv_frame_size d" "usable_sample g k" "\<not> allocated"
    using assms(2) by (auto simp: attempt_kind_def split: option.splits if_splits)
  define d2 where "d2 = (measured g k d)\<lparr>dv_last := classify_duplicate g k (measured g k d) (dv_last (measured g k d)), dv_terminal := True\<rparr>"
  have "diversity_observe allocated f m d = (DIVERSITY_FAILED, record_decision DIVERSITY_FAILED d2)"
    using g observe_measured [OF assms(1) g(3)] by (simp add: Let_def d2_def)
  then show thesis by (rule that) (simp_all add: same_enrollment_def d2_def)
qed

lemma observe_usable:
  assumes "\<not> dv_terminal d" "attempt_kind (dv_frame_size d) x = Usable_Attempt" "diversity_inv d" "x = (allocated, f, m)"
  obtains d1 a where "length (dv_accepted d) < REQUIRED_ACCEPTED_SAMPLES"
    "diversity_observe allocated f m d =
       (if length (dv_accepted d) + 1 = REQUIRED_ACCEPTED_SAMPLES then DIVERSITY_ACCEPT_TERMINAL else DIVERSITY_ACCEPT, d1)"
    "diversity_inv d1" "dv_frame_size d1 = dv_frame_size d" "dv_accepted d1 = dv_accepted d @ [a]" "as_frame a = attempt_frame x"
    "dv_aggregate_coverage_mask d1 = dv_aggregate_coverage_mask d OR attempt_mask x"
    "dv_terminal d1 \<longleftrightarrow> length (dv_accepted d) + 1 = REQUIRED_ACCEPTED_SAMPLES"
proof -
  obtain g k where g: "f = Some g" "m = Some k" "length g = dv_frame_size d" "usable_sample g k" "allocated"
    using assms(2,4) by (auto simp: attempt_kind_def split: option.splits if_splits)
  note inv = assms(3) [unfolded diversity_inv_def]
  have lt: "length (dv_accepted d) < 21" using assms(1) inv by (auto simp: nat_less_le)
  define d2 where "d2 = (measured g k d)\<lparr>dv_last := classify_duplicate g k (measured g k d) (dv_last (measured g k d))\<rparr>"
  define d3 where "d3 = store_sample g k d2"
  have d3: "dv_frame_size d3 = dv_frame_size d" "dv_terminal d3 = dv_terminal d"
    "dv_template_stage_target d3 = dv_template_stage_target d" "dv_accepted_count d3 = dv_accepted_count d + 1"
    "dv_aggregate_coverage_mask d3 = dv_aggregate_coverage_mask d OR attempt_mask x"
    by (simp_all add: d3_def d2_def store_sample_def attempt_mask_def assms(4) g(2))
  obtain a where a: "dv_accepted d3 = dv_accepted d @ [a]" "as_frame a = attempt_frame x"
    by (simp add: d3_def d2_def store_sample_def attempt_frame_def assms(4) g(1))
  have count: "dv_accepted_count d3 = of_nat (length (dv_accepted d) + 1)" using inv d3(4) by simp
  have eq: "dv_accepted_count d3 = 21 \<longleftrightarrow> length (dv_accepted d) + 1 = 21"
  proof
    assume "dv_accepted_count d3 = 21"
    then have "unat (of_nat (length (dv_accepted d) + 1) :: u32) = unat (21 :: u32)" unfolding count by (rule arg_cong)
    then show "length (dv_accepted d) + 1 = 21" using lt unat_small [of "length (dv_accepted d) + 1"] by simp
  qed (use count in simp)
  have obs: "diversity_observe allocated f m d =
      (if dv_accepted_count d3 = of_nat REQUIRED_ACCEPTED_SAMPLES
       then (DIVERSITY_ACCEPT_TERMINAL, record_decision DIVERSITY_ACCEPT_TERMINAL
         (d3\<lparr>dv_template_stage_target := dv_accepted_count d3, dv_terminal := True\<rparr>))
       else (DIVERSITY_ACCEPT, record_decision DIVERSITY_ACCEPT d3))"
    using g observe_measured [OF assms(1) g(3)] by (simp add: Let_def d2_def d3_def)
  show thesis
  proof (cases "dv_accepted_count d3 = 21")
    case True
    with obs have "diversity_observe allocated f m d =
        (if length (dv_accepted d) + 1 = REQUIRED_ACCEPTED_SAMPLES then DIVERSITY_ACCEPT_TERMINAL else DIVERSITY_ACCEPT,
         record_decision DIVERSITY_ACCEPT_TERMINAL (d3\<lparr>dv_template_stage_target := dv_accepted_count d3, dv_terminal := True\<rparr>))"
      using eq by simp
    then show thesis
      by (rule that [rotated]) (use True lt eq d3 a count in \<open>simp_all add: diversity_inv_def\<close>)
  next
    case False
    with obs have "diversity_observe allocated f m d =
        (if length (dv_accepted d) + 1 = REQUIRED_ACCEPTED_SAMPLES then DIVERSITY_ACCEPT_TERMINAL else DIVERSITY_ACCEPT,
         record_decision DIVERSITY_ACCEPT d3)"
      using eq by simp
    then show thesis
      by (rule that [rotated]) (use False lt eq d3 a count inv assms(1) in \<open>simp_all add: diversity_inv_def\<close>)
  qed
qed

lemma fixed_policy_ended: "fixed_policy True k xs = replicate (length xs) DIVERSITY_FAILED"
  by (induction xs) simp_all

lemma observe_all_ended:
  "dv_terminal d \<Longrightarrow> observe_all xs d = (replicate (length xs) DIVERSITY_FAILED, d)"
  by (induction xs) (auto simp: observe_ended)

lemma same_inv: "same_enrollment d d1 \<Longrightarrow> (dv_terminal d \<longrightarrow> dv_terminal d1) \<Longrightarrow> diversity_inv d \<Longrightarrow> diversity_inv d1"
  by (simp add: same_enrollment_def diversity_inv_def)

lemma observe_all_refines:
  assumes "diversity_inv d" "\<not> dv_terminal d" "dv_frame_size d = n"
  shows "fst (observe_all xs d) = fixed_policy False (length (dv_accepted d)) (map (attempt_kind n) xs) \<and>
    diversity_inv (snd (observe_all xs d)) \<and>
    map as_frame (dv_accepted (snd (observe_all xs d))) =
      take REQUIRED_ACCEPTED_SAMPLES (map as_frame (dv_accepted d) @ map attempt_frame (countable_attempts n xs)) \<and>
    dv_aggregate_coverage_mask (snd (observe_all xs d)) =
      foldl (OR) (dv_aggregate_coverage_mask d)
        (map attempt_mask (take (REQUIRED_ACCEPTED_SAMPLES - length (dv_accepted d)) (countable_attempts n xs)))"
  using assms
proof (induction xs arbitrary: d)
  case Nil
  then show ?case by (simp add: diversity_inv_def countable_attempts_def)
next
  case (Cons x xs)
  obtain allocated f m where x: "x = (allocated, f, m)" by (cases x)
  note n = Cons.prems(3)
  have le: "length (dv_accepted d) \<le> 21" using Cons.prems(1) by (simp add: diversity_inv_def)
  show ?case
  proof (cases "attempt_kind n x")
    case Malformed_Attempt
    then have "diversity_observe allocated f m d = (DIVERSITY_FAILED, d)" using observe_malformed n x by simp
    with Malformed_Attempt Cons.IH [OF Cons.prems] x show ?thesis
      by (simp add: Let_def case_prod_beta countable_attempts_def)
  next
    case Poor_Attempt
    then obtain d1 where d1: "diversity_observe allocated f m d = (DIVERSITY_RETRY_POOR, d1)" "same_enrollment d d1" "\<not> dv_terminal d1"
      using observe_poor [OF Cons.prems(2), of allocated f m] n x by auto
    have "diversity_inv d1" using same_inv [OF d1(2)] Cons.prems(1,2) by simp
    from Cons.IH [OF this d1(3)] d1 n Poor_Attempt x show ?thesis
      by (simp add: Let_def case_prod_beta countable_attempts_def same_enrollment_def)
  next
    case Unstored_Attempt
    then obtain d1 where d1: "diversity_observe allocated f m d = (DIVERSITY_FAILED, d1)" "same_enrollment d d1" "dv_terminal d1"
      using observe_unstored [OF Cons.prems(2), of allocated f m] n x by auto
    have "diversity_inv d1" using same_inv [OF d1(2)] Cons.prems(1) d1(3) by simp
    with d1 Unstored_Attempt x le show ?thesis
      by (simp add: Let_def case_prod_beta countable_attempts_def same_enrollment_def observe_all_ended fixed_policy_ended)
  next
    case Usable_Attempt
    with n have "attempt_kind (dv_frame_size d) x = Usable_Attempt" by simp
    from observe_usable [OF Cons.prems(2) this Cons.prems(1) x] obtain d1 a where
      lt: "length (dv_accepted d) < REQUIRED_ACCEPTED_SAMPLES" and
      ob: "diversity_observe allocated f m d =
        (if length (dv_accepted d) + 1 = REQUIRED_ACCEPTED_SAMPLES then DIVERSITY_ACCEPT_TERMINAL else DIVERSITY_ACCEPT, d1)" and
      d1: "diversity_inv d1" "dv_frame_size d1 = dv_frame_size d" "dv_accepted d1 = dv_accepted d @ [a]" "as_frame a = attempt_frame x"
        "dv_aggregate_coverage_mask d1 = dv_aggregate_coverage_mask d OR attempt_mask x"
        "dv_terminal d1 \<longleftrightarrow> length (dv_accepted d) + 1 = REQUIRED_ACCEPTED_SAMPLES" .
    have good: "countable_attempts n (x # xs) = x # countable_attempts n xs"
      using Usable_Attempt by (simp add: countable_attempts_def)
    show ?thesis
    proof (cases "length (dv_accepted d) + 1 = REQUIRED_ACCEPTED_SAMPLES")
      case True
      with ob d1 lt Usable_Attempt x good show ?thesis
        by (simp add: Let_def case_prod_beta observe_all_ended fixed_policy_ended)
    next
      case False
      have rest: "REQUIRED_ACCEPTED_SAMPLES - length (dv_accepted d) = Suc (REQUIRED_ACCEPTED_SAMPLES - length (dv_accepted d1))"
        using lt d1(3) by simp
      from False ob d1 lt Usable_Attempt x good n Cons.IH [of d1] show ?thesis
        by (simp add: Let_def case_prod_beta rest del: diff_Suc_1)
    qed
  qed
qed

section \<open>Properties\<close>

text \<open>
  Claim C33. Enrollment is a fixed count: on any sequence of attempts the decisions are those of
  the abstract policy. An attempt without a frame or metrics or of another size fails and
  changes nothing; a poor one is to be retried; a usable one is accepted, the 21st ending the
  enrollment, however similar it is to others; a usable one whose copy cannot be allocated fails
  and ends it; after the end every attempt fails. The template is made of the first 21 frames
  that count in order, its coverage is the union of theirs, and the stage target is 21 exactly
  when there are 21.
\<close>

lemma enrollment_fixed_21:
  assumes "diversity_new n = Some d"
  shows "let (decisions, d1) = observe_all attempts d; good = countable_attempts n attempts in
    decisions = fixed_policy False 0 (map (attempt_kind n) attempts) \<and>
    map as_frame (dv_accepted d1) = map attempt_frame (take REQUIRED_ACCEPTED_SAMPLES good) \<and>
    unat (dv_accepted_count d1) = min REQUIRED_ACCEPTED_SAMPLES (length good) \<and>
    dv_aggregate_coverage_mask d1 = foldl (OR) 0 (map attempt_mask (take REQUIRED_ACCEPTED_SAMPLES good)) \<and>
    dv_template_stage_target d1 = (if REQUIRED_ACCEPTED_SAMPLES \<le> length good then 21 else 0)"
proof -
  have new: "diversity_inv d" "\<not> dv_terminal d" "dv_frame_size d = n" "dv_accepted d = []" "dv_aggregate_coverage_mask d = 0"
    using assms(1) by (auto simp: diversity_new_def diversity_inv_def split: if_splits)
  let ?out = "observe_all attempts d" and ?good = "countable_attempts n attempts"
  from observe_all_refines [OF new(1-3), of attempts] new
  have run: "fst ?out = fixed_policy False 0 (map (attempt_kind n) attempts)" "diversity_inv (snd ?out)"
    "map as_frame (dv_accepted (snd ?out)) = take REQUIRED_ACCEPTED_SAMPLES (map attempt_frame ?good)"
    "dv_aggregate_coverage_mask (snd ?out) = foldl (OR) 0 (map attempt_mask (take REQUIRED_ACCEPTED_SAMPLES ?good))"
    by simp_all
  have "length (dv_accepted (snd ?out)) = min REQUIRED_ACCEPTED_SAMPLES (length ?good)"
    using arg_cong [OF run(3), of length] by simp
  with run show ?thesis
    by (simp add: case_prod_beta Let_def take_map diversity_inv_def unat_small)
qed

definition sample_attempt :: attempt where
  "sample_attempt = (True, Some [0, 100], Some \<lparr>sm_keypoints = 30, sm_coverage_mask = 15\<rparr>)"

lemma sample_attempt_usable:
  "attempt_kind 2 sample_attempt = Usable_Attempt" "attempt_kind 2 (False, snd sample_attempt) = Unstored_Attempt"
  by (simp_all add: attempt_kind_def usable_sample_def sample_attempt_def raster_quality_def rounded_quotient_def
      abs_difference_def count_bits.simps Let_def)

lemma enrollment_fixed_21_witness:
  "fst (observe_all (replicate 22 sample_attempt) (the (diversity_new 2))) =
     replicate 20 DIVERSITY_ACCEPT @ [DIVERSITY_ACCEPT_TERMINAL, DIVERSITY_FAILED] \<and>
   fst (observe_all [(True, None, None), sample_attempt, (False, snd sample_attempt), sample_attempt] (the (diversity_new 2))) =
     [DIVERSITY_FAILED, DIVERSITY_ACCEPT, DIVERSITY_FAILED, DIVERSITY_FAILED]"
proof -
  have new: "diversity_new 2 = Some (the (diversity_new 2))" by (simp add: diversity_new_def)
  have "fixed_policy False 0 (map (attempt_kind 2) (replicate 22 sample_attempt)) =
      replicate 20 DIVERSITY_ACCEPT @ [DIVERSITY_ACCEPT_TERMINAL, DIVERSITY_FAILED]"
    using sample_attempt_usable by (simp add: numeral_eq_Suc)
  moreover have "fixed_policy False 0 (map (attempt_kind 2) [(True, None, None), sample_attempt, (False, snd sample_attempt), sample_attempt]) =
     [DIVERSITY_FAILED, DIVERSITY_ACCEPT, DIVERSITY_FAILED, DIVERSITY_FAILED]"
    using sample_attempt_usable by (simp add: attempt_kind_def)
  ultimately show ?thesis
    using enrollment_fixed_21 [OF new, of "replicate 22 sample_attempt"]
      enrollment_fixed_21 [OF new, of "[(True, None, None), sample_attempt, (False, snd sample_attempt), sample_attempt]"]
    by (simp only: Let_def case_prod_beta)
qed

text \<open>
  The diagnostic measures are exact: for a raster that fits in memory the range, the
  contrast and the mean absolute difference are the rounded natural-number values and fit a
  byte, with no wrap-around in the 64-bit sums, and the coverage similarity is the percentage
  of shared cells among all cells, at most 100.
\<close>

lemma quality_measures_exact:
  assumes "f \<noteq> []" and "length f < 2 ^ 55" and "length g = length f"
  shows "unat (fst (raster_quality f)) = unat (Max (set f)) - unat (Min (set f)) \<and>
    unat (snd (raster_quality f)) = contrast_of f \<and> contrast_of f \<le> 255 \<and>
    unat (mean_absolute_difference f g) = mad_of f g \<and> mad_of f g \<le> 255 \<and>
    unat (coverage_similarity_percent a b) =
      card {n. bit a n \<and> bit b n} * 100 div card {n. bit a n \<or> bit b n} \<and>
    unat (coverage_similarity_percent a b) \<le> 100 \<and> unat (count_bits a) = card {n. bit a n}"
  using contrast_exact [OF assms(1,2)] mad_exact [OF assms] range_exact [OF assms(1)]
    coverage_exact [of a b] unat_count_bits [of a] by blast

lemma quality_measures_exact_witness:
  "unat (snd (raster_quality [0, 100])) = 50 \<and> unat (mean_absolute_difference [0, 100] [10, 70]) = 20"
proof -
  have two: "length [x, y] = 2" for x y :: u8 by simp
  show ?thesis
    using quality_measures_exact [of "[0, 100]" "[10, 70]" 0 0]
    by (simp only: contrast_of_def mad_of_def mean_of_def two) simp
qed

end
