(* ===== verification/Self_State.thy ===== *)
theory Self_State
  imports Prelude
begin

text \<open>
  The crash-safe pairing state (\<^verbatim>\<open>goodix_self_state.c\<close>): two slots of a directory, each a
  secret file and a receipt file authenticated with the secret, written through temporaries,
  file syncs, renames and directory syncs. HMAC-SHA256 is an argument (it comes from OpenSSL).
  The directory is modelled with what a loss of power can leave of it: for each name, the
  entries it may have since the last directory sync, and file contents that are not yet
  synced. Every system call may fail, as an environment decides, those that read included: a file
  that cannot be read makes its slot look invalid, as in the code.
  The build is the production build: the policy has no fault function, so that \<^verbatim>\<open>fault_now\<close>
  is always false; an interruption at its points is one of the crashes considered.
\<close>

abbreviation PSK_LENGTH :: nat where "PSK_LENGTH \<equiv> 32"
abbreviation DIGEST_LENGTH :: nat where "DIGEST_LENGTH \<equiv> 32"
abbreviation FDT_LENGTH :: nat where "FDT_LENGTH \<equiv> 12"
abbreviation APP_MAX :: nat where "APP_MAX \<equiv> 32"
abbreviation SECRET_SIZE :: nat where "SECRET_SIZE \<equiv> 48"
abbreviation RECEIPT_PREFIX_SIZE :: nat where "RECEIPT_PREFIX_SIZE \<equiv> 232"
abbreviation RECEIPT_SIZE :: nat where "RECEIPT_SIZE \<equiv> 264"

section \<open>Data\<close>

text \<open>\<^verbatim>\<open>decode_receipt\<close> casts any byte to the phase.\<close>

datatype self_phase = PHASE_PREPARED | PHASE_ACTIVE | PHASE_RECOVERY_REQUIRED | PHASE_INVALID u8

definition phase_of_byte :: "u8 \<Rightarrow> self_phase" where
  "phase_of_byte b = (if b = 1 then PHASE_PREPARED else if b = 2 then PHASE_ACTIVE
     else if b = 3 then PHASE_RECOVERY_REQUIRED else PHASE_INVALID b)"

fun byte_of_phase :: "self_phase \<Rightarrow> u8" where
  "byte_of_phase PHASE_PREPARED = 1"
| "byte_of_phase PHASE_ACTIVE = 2"
| "byte_of_phase PHASE_RECOVERY_REQUIRED = 3"
| "byte_of_phase (PHASE_INVALID b) = b"

record self_binding =
  sb_vid :: u16
  sb_pid :: u16
  sb_chip_profile :: u16
  sb_app :: bytes
  sb_otp_sha256 :: bytes
  sb_config90_sha256 :: bytes

record self_record =
  sr_phase :: self_phase
  sr_generation :: u64
  sr_expected_validator :: bytes
  sr_prior_present :: bool
  sr_prior_validator :: bytes
  sr_fdt_present :: bool
  sr_fdt_table :: bytes
  sr_migrated_legacy :: bool
  sr_legacy_source_sha256 :: bytes
  sr_bb_present :: bool
  sr_bb_sha256 :: bytes
  sr_e0_attempted :: bool
  sr_terminal_proof :: bool

record self_state =
  ss_binding :: self_binding
  ss_record :: self_record
  ss_psk :: bytes

record slot =
  sl_final :: bool
  sl_temp :: bool
  sl_content :: "self_state option"

datatype state_error = STATE_EINVAL | STATE_EPERM | STATE_EIO | STATE_IO string

type_synonym hmac = "bytes \<Rightarrow> bytes \<Rightarrow> bytes option"

text \<open>What the code relies on: HMAC-SHA256 gives 32 bytes.\<close>

definition hmac_sized :: "hmac \<Rightarrow> bool" where
  "hmac_sized f \<longleftrightarrow> (\<forall>k m mac. f k m = Some mac \<longrightarrow> length mac = DIGEST_LENGTH)"

section \<open>Bytes\<close>

definition put_u16_le :: "u16 \<Rightarrow> bytes" where
  "put_u16_le v = [ucast (v AND 0xff), ucast (drop_bit 8 v)]"

definition get_u16_le :: "bytes \<Rightarrow> u16" where
  "get_u16_le d = ucast (d ! 0) OR push_bit 8 (ucast (d ! 1))"

definition put_u64_le :: "u64 \<Rightarrow> bytes" where
  "put_u64_le v = map (\<lambda>i. ucast (drop_bit (i * 8) v)) [0..<8]"

definition get_u64_le :: "bytes \<Rightarrow> u64" where
  "get_u64_le d = foldl (\<lambda>v i. v OR push_bit (i * 8) (ucast (d ! i))) 0 [0..<8]"

text \<open>\<^verbatim>\<open>memcpy (buffer + offset, source, length)\<close>, and the bytes at an offset.\<close>

definition put_at :: "nat \<Rightarrow> bytes \<Rightarrow> bytes \<Rightarrow> bytes" where
  "put_at offset source buffer = store_all (\<lambda>i. offset + i) (\<lambda>i. source ! i) buffer [0..<length source]"

definition get_at :: "nat \<Rightarrow> nat \<Rightarrow> bytes \<Rightarrow> bytes" where
  "get_at offset n buffer = take n (drop offset buffer)"

text \<open>The length of a C string in a buffer, as \<^verbatim>\<open>strnlen\<close> counts it.\<close>

definition c_strlen :: "bytes \<Rightarrow> nat" where
  "c_strlen s = length (takeWhile (\<lambda>b. b \<noteq> 0) s)"

definition c_string :: "bytes \<Rightarrow> bytes" where
  "c_string s = takeWhile (\<lambda>b. b \<noteq> 0) s"

section \<open>Validity\<close>

definition binding_valid :: "self_binding option \<Rightarrow> bool" where
  "binding_valid binding = (case binding of None \<Rightarrow> False
     | Some b \<Rightarrow> c_strlen (take APP_MAX (sb_app b)) > 0 \<and> c_strlen (take APP_MAX (sb_app b)) < APP_MAX)"

definition binding_equal :: "self_binding \<Rightarrow> self_binding \<Rightarrow> bool" where
  "binding_equal left right \<longleftrightarrow>
     sb_vid left = sb_vid right \<and> sb_pid left = sb_pid right \<and>
     sb_chip_profile left = sb_chip_profile right \<and>
     c_string (sb_app left) = c_string (sb_app right) \<and>
     sb_otp_sha256 left = sb_otp_sha256 right \<and> sb_config90_sha256 left = sb_config90_sha256 right"

definition record_valid :: "self_record option \<Rightarrow> bool" where
  "record_valid record = (case record of None \<Rightarrow> False
     | Some r \<Rightarrow> sr_generation r \<noteq> 0 \<and>
         (sr_phase r = PHASE_PREPARED \<or> sr_phase r = PHASE_ACTIVE \<or> sr_phase r = PHASE_RECOVERY_REQUIRED) \<and>
         \<not> (sr_migrated_legacy r \<and> sr_bb_present r) \<and>
         (sr_terminal_proof r \<longleftrightarrow> sr_phase r = PHASE_ACTIVE))"

record self_policy =
  po_owner_uid :: u32
  po_owner_gid :: u32
  po_directory_mode :: u32
  po_file_mode :: u32
  po_fault :: bool

text \<open>The modes are \<^verbatim>\<open>0700\<close> and \<^verbatim>\<open>0600\<close>.\<close>

definition self_state_policy_for_owner :: "u32 \<Rightarrow> u32 \<Rightarrow> self_policy" where
  "self_state_policy_for_owner uid gid = \<lparr>po_owner_uid = uid, po_owner_gid = gid,
     po_directory_mode = 0x1c0, po_file_mode = 0x180, po_fault = False\<rparr>"

definition policy_valid :: "self_policy option \<Rightarrow> bool" where
  "policy_valid policy = (case policy of None \<Rightarrow> False
     | Some p \<Rightarrow> po_directory_mode p = 0x1c0 \<and> po_file_mode p = 0x180 \<and>
         po_owner_uid p = 0 \<and> po_owner_gid p = 0 \<and> \<not> po_fault p)"

section \<open>The receipt\<close>

definition secret_magic :: bytes where
  "secret_magic = [0x47, 0x44, 0x58, 0x50, 0x53, 0x4b, 0x32, 0]"

definition receipt_magic :: bytes where
  "receipt_magic = [0x47, 0x44, 0x58, 0x53, 0x54, 0x41, 0x32, 0]"

definition flag :: "nat \<Rightarrow> bool \<Rightarrow> u8" where
  "flag i on = (if on then push_bit i 1 else 0)"

definition receipt_flags :: "self_record \<Rightarrow> u8" where
  "receipt_flags r = flag 0 (sr_prior_present r) OR flag 1 (sr_fdt_present r) OR
     flag 2 (sr_migrated_legacy r) OR flag 3 (sr_e0_attempted r) OR
     flag 4 (sr_terminal_proof r) OR flag 5 (sr_bb_present r)"

definition receipt_prefix :: "self_binding \<Rightarrow> self_record \<Rightarrow> bytes" where
  "receipt_prefix b r =
     (let app_length = c_strlen (sb_app b);
          d = replicate RECEIPT_SIZE 0;
          d = put_at 0 receipt_magic d;
          d = put_at 8 [2] d;
          d = put_at 9 [byte_of_phase (sr_phase r)] d;
          d = put_at 10 [receipt_flags r] d;
          d = put_at 12 (put_u64_le (sr_generation r)) d;
          d = put_at 20 (put_u16_le (sb_vid b)) d;
          d = put_at 22 (put_u16_le (sb_pid b)) d;
          d = put_at 24 (put_u16_le (sb_chip_profile b)) d;
          d = put_at 26 [of_nat app_length] d;
          d = put_at 28 (take app_length (sb_app b)) d;
          d = put_at 60 (sb_otp_sha256 b) d;
          d = put_at 92 (sb_config90_sha256 b) d;
          d = put_at 124 (sr_expected_validator r) d;
          d = put_at 156 (sr_prior_validator r) d;
          d = put_at 188 (sr_fdt_table r) d
      in put_at 200 (if sr_bb_present r then sr_bb_sha256 r else sr_legacy_source_sha256 r) d)"

definition encode_receipt :: "hmac \<Rightarrow> self_binding \<Rightarrow> self_record \<Rightarrow> bytes \<Rightarrow> bytes option" where
  "encode_receipt hmac b r psk =
     (let d = receipt_prefix b r in
      case hmac psk (take RECEIPT_PREFIX_SIZE d) of
        None \<Rightarrow> None
      | Some mac \<Rightarrow> Some (put_at RECEIPT_PREFIX_SIZE mac d))"

definition decoded_binding :: "bytes \<Rightarrow> self_binding" where
  "decoded_binding d =
     (let app_length = unat (d ! 26) in
      \<lparr>sb_vid = get_u16_le (get_at 20 2 d), sb_pid = get_u16_le (get_at 22 2 d),
       sb_chip_profile = get_u16_le (get_at 24 2 d),
       sb_app = get_at 28 app_length d @ replicate (APP_MAX - app_length) 0,
       sb_otp_sha256 = get_at 60 DIGEST_LENGTH d, sb_config90_sha256 = get_at 92 DIGEST_LENGTH d\<rparr>)"

definition decoded_record :: "bytes \<Rightarrow> self_record" where
  "decoded_record d =
     (let flags = d ! 10; digest = get_at 200 DIGEST_LENGTH d; zero = replicate DIGEST_LENGTH 0 in
      \<lparr>sr_phase = phase_of_byte (d ! 9), sr_generation = get_u64_le (get_at 12 8 d),
       sr_expected_validator = get_at 124 DIGEST_LENGTH d,
       sr_prior_present = (bit flags 0), sr_prior_validator = get_at 156 DIGEST_LENGTH d,
       sr_fdt_present = (bit flags 1), sr_fdt_table = get_at 188 FDT_LENGTH d,
       sr_migrated_legacy = (bit flags 2),
       sr_legacy_source_sha256 = (if bit flags 5 then zero else digest),
       sr_bb_present = (bit flags 5), sr_bb_sha256 = (if bit flags 5 then digest else zero),
       sr_e0_attempted = (bit flags 3), sr_terminal_proof = (bit flags 4)\<rparr>)"

definition decode_receipt :: "hmac \<Rightarrow> bytes \<Rightarrow> bytes \<Rightarrow> (self_binding \<times> self_record) option" where
  "decode_receipt hmac d psk =
     (if get_at 0 8 d \<noteq> receipt_magic \<or> d ! 8 \<noteq> 2 \<or> d ! 11 \<noteq> 0 \<or> d ! 27 \<noteq> 0 then None
      else if d ! 10 AND NOT 0x3f \<noteq> 0 \<or> d ! 26 = 0 \<or> unat (d ! 26) \<ge> APP_MAX then None
      else case hmac psk (take RECEIPT_PREFIX_SIZE d) of
          None \<Rightarrow> None
        | Some expected_hmac \<Rightarrow>
            if expected_hmac \<noteq> get_at RECEIPT_PREFIX_SIZE DIGEST_LENGTH d then None
            else if d ! (28 + unat (d ! 26)) \<noteq> 0 then None
            else if binding_valid (Some (decoded_binding d)) \<and> record_valid (Some (decoded_record d))
            then Some (decoded_binding d, decoded_record d)
            else None)"

section \<open>What a decoder gives back\<close>

text \<open>The sizes that the C arrays have.\<close>

definition binding_sized :: "self_binding \<Rightarrow> bool" where
  "binding_sized b \<longleftrightarrow> length (sb_app b) = APP_MAX \<and> length (sb_otp_sha256 b) = DIGEST_LENGTH \<and>
     length (sb_config90_sha256 b) = DIGEST_LENGTH"

definition record_sized :: "self_record \<Rightarrow> bool" where
  "record_sized r \<longleftrightarrow> length (sr_expected_validator r) = DIGEST_LENGTH \<and>
     length (sr_prior_validator r) = DIGEST_LENGTH \<and> length (sr_fdt_table r) = FDT_LENGTH \<and>
     length (sr_legacy_source_sha256 r) = DIGEST_LENGTH \<and> length (sr_bb_sha256 r) = DIGEST_LENGTH"

text \<open>
  What a binding and a record look like once stored and read: the rest of the application
  name is cleared, and of the two source digests only the marked one is stored.
\<close>

definition stored_binding :: "self_binding \<Rightarrow> self_binding" where
  "stored_binding b = b\<lparr>sb_app := c_string (sb_app b) @ replicate (APP_MAX - c_strlen (sb_app b)) 0\<rparr>"

definition stored_record :: "self_record \<Rightarrow> self_record" where
  "stored_record r = (if sr_bb_present r then r\<lparr>sr_legacy_source_sha256 := replicate DIGEST_LENGTH 0\<rparr>
     else r\<lparr>sr_bb_sha256 := replicate DIGEST_LENGTH 0\<rparr>)"

lemma stored_generation [simp]: "sr_generation (stored_record r) = sr_generation r"
  by (simp add: stored_record_def)

section \<open>Bytes at offsets\<close>

named_theorems at_simps "reading what was stored at an offset"

lemma length_put_at [simp]: "length (put_at off src d) = length d"
  by (simp add: put_at_def)

lemma put_at_other: "i < off \<or> off + length src \<le> i \<Longrightarrow> put_at off src d ! i = d ! i"
  unfolding put_at_def by (rule store_all_other) auto

lemma put_at_inside:
  assumes "j < length src" "off + j < length d"
  shows "put_at off src d ! (off + j) = src ! j"
  unfolding put_at_def by (rule store_all_nth) (use assms in \<open>auto simp: inj_on_def\<close>)

lemma put_at_nth [at_simps]:
  "i < off \<Longrightarrow> put_at off src d ! i = d ! i"
  "off + length src \<le> i \<Longrightarrow> put_at off src d ! i = d ! i"
  by (simp_all add: put_at_other)

lemma put_at_byte [at_simps]: "off < length d \<Longrightarrow> put_at off [b] d ! off = b"
  using put_at_inside [of 0 "[b]" off d] by simp

lemma length_get_at [simp]: "length (get_at i n d) = min n (length d - i)"
  by (simp add: get_at_def)

lemma get_at_nth: "j < n \<Longrightarrow> i + j < length d \<Longrightarrow> get_at i n d ! j = d ! (i + j)"
  by (simp add: get_at_def)

lemma get_put_same [at_simps]:
  "off + length src \<le> length d \<Longrightarrow> length src = n \<Longrightarrow> get_at off n (put_at off src d) = src"
  by (rule nth_equalityI) (auto simp: get_at_nth put_at_inside)

lemma get_put_before [at_simps]: "i + n \<le> off \<Longrightarrow> get_at i n (put_at off src d) = get_at i n d"
  by (rule nth_equalityI) (auto simp: get_at_nth put_at_other)

lemma get_put_after [at_simps]: "off + length src \<le> i \<Longrightarrow> get_at i n (put_at off src d) = get_at i n d"
  by (rule nth_equalityI) (auto simp: get_at_nth put_at_other)

lemma take_put_at [at_simps]: "n \<le> off \<Longrightarrow> take n (put_at off src d) = take n d"
  by (rule nth_equalityI) (auto simp: put_at_other)

lemma get_at_take [at_simps]: "i + n \<le> m \<Longrightarrow> get_at i n (take m d) = get_at i n d"
  by (simp add: get_at_def take_drop min_def)

lemma low_byte: "(ucast (v AND 0xff :: u16) :: u8) = ucast v"
proof -
  have "v AND 0xff = take_bit 8 v" by (simp add: take_bit_eq_mask mask_eq_exp_minus_1)
  moreover have "(ucast (take_bit 8 v) :: u8) = ucast v"
    by (rule bit_word_eqI) (auto simp: bit_simps)
  ultimately show ?thesis by (simp only:)
qed

lemma get_u16_put [simp]: "get_u16_le (put_u16_le v) = v"
  using le16_lo8_hi8 [of v] by (simp add: get_u16_le_def put_u16_le_def low_byte le16_def lo8_def hi8_def del: le16_lo8_hi8)

lemma put_u16_length [simp]: "length (put_u16_le v) = 2"
  by (simp add: put_u16_le_def)

lemma put_u64_length [simp]: "length (put_u64_le v) = 8"
  by (simp add: put_u64_le_def)

lemma upt_8: "[0..<8] = [0, 1, 2, 3, 4, 5, 6, 7 :: nat]"
  by (simp add: upt_rec)

lemma get_u64_put [simp]: "get_u64_le (put_u64_le v) = v"
proof (rule bit_word_eqI)
  fix n assume "n < LENGTH(64)"
  then have n: "n < 64" by simp
  consider "n < 8" | "8 \<le> n \<and> n < 16" | "16 \<le> n \<and> n < 24" | "24 \<le> n \<and> n < 32"
    | "32 \<le> n \<and> n < 40" | "40 \<le> n \<and> n < 48" | "48 \<le> n \<and> n < 56" | "56 \<le> n"
    by linarith
  then show "bit (get_u64_le (put_u64_le v)) n = bit v n"
    unfolding get_u64_le_def put_u64_le_def upt_8
    by cases (use n in \<open>cases "bit v n"; simp add: bit_simps less_diff_conv2\<close>)+
qed

lemma phase_byte [simp]:
  "p \<in> {PHASE_PREPARED, PHASE_ACTIVE, PHASE_RECOVERY_REQUIRED} \<Longrightarrow> phase_of_byte (byte_of_phase p) = p"
  by (auto simp: phase_of_byte_def)

lemma receipt_flags_bits:
  "bit (receipt_flags r) 0 = sr_prior_present r" "bit (receipt_flags r) 1 = sr_fdt_present r"
  "bit (receipt_flags r) 2 = sr_migrated_legacy r" "bit (receipt_flags r) 3 = sr_e0_attempted r"
  "bit (receipt_flags r) 4 = sr_terminal_proof r" "bit (receipt_flags r) 5 = sr_bb_present r"
  by (simp_all add: receipt_flags_def flag_def bit_simps)

lemma receipt_flags_known: "receipt_flags r AND NOT 0x3f = 0"
  by (cases "sr_prior_present r"; cases "sr_fdt_present r"; cases "sr_migrated_legacy r";
      cases "sr_e0_attempted r"; cases "sr_terminal_proof r"; cases "sr_bb_present r";
      simp add: receipt_flags_def flag_def)

lemma c_strlen_le: "c_strlen s \<le> length s"
  by (simp add: c_strlen_def length_takeWhile_le)

lemma c_string_take: "take (c_strlen s) s = c_string s"
  unfolding c_strlen_def c_string_def by (metis takeWhile_eq_take)

lemma c_string_length [simp]: "length (c_string s) = c_strlen s"
  by (simp add: c_string_def c_strlen_def)

lemma take_c_strlen:
  assumes "length s = n"
  shows "c_strlen (take n s) = c_strlen s"
  using assms by simp

lemma get_at_byte: "i < length d \<Longrightarrow> d ! i = hd (get_at i 1 d)"
  by (simp add: get_at_def hd_drop_conv_nth take_Suc)

lemma prefix_length:
  assumes "binding_sized b" "record_sized r" "c_strlen (sb_app b) < APP_MAX"
  shows "length (receipt_prefix b r) = RECEIPT_SIZE"
  using assms by (simp add: receipt_prefix_def Let_def at_simps binding_sized_def record_sized_def c_string_take
      receipt_magic_def)

lemma prefix_fields:
  assumes "binding_sized b" "record_sized r" "c_strlen (sb_app b) < APP_MAX"
  shows "get_at 0 8 (receipt_prefix b r) = receipt_magic" "receipt_prefix b r ! 8 = 2"
    "receipt_prefix b r ! 9 = byte_of_phase (sr_phase r)" "receipt_prefix b r ! 10 = receipt_flags r"
    "receipt_prefix b r ! 11 = 0" "get_at 12 8 (receipt_prefix b r) = put_u64_le (sr_generation r)"
    "get_at 20 2 (receipt_prefix b r) = put_u16_le (sb_vid b)"
    "get_at 22 2 (receipt_prefix b r) = put_u16_le (sb_pid b)"
    "get_at 24 2 (receipt_prefix b r) = put_u16_le (sb_chip_profile b)"
    "receipt_prefix b r ! 26 = of_nat (c_strlen (sb_app b))" "receipt_prefix b r ! 27 = 0"
    "get_at 28 (c_strlen (sb_app b)) (receipt_prefix b r) = c_string (sb_app b)"
    "receipt_prefix b r ! (28 + c_strlen (sb_app b)) = 0"
    "get_at 60 DIGEST_LENGTH (receipt_prefix b r) = sb_otp_sha256 b"
    "get_at 92 DIGEST_LENGTH (receipt_prefix b r) = sb_config90_sha256 b"
    "get_at 124 DIGEST_LENGTH (receipt_prefix b r) = sr_expected_validator r"
    "get_at 156 DIGEST_LENGTH (receipt_prefix b r) = sr_prior_validator r"
    "get_at 188 FDT_LENGTH (receipt_prefix b r) = sr_fdt_table r"
    "get_at 200 DIGEST_LENGTH (receipt_prefix b r) =
       (if sr_bb_present r then sr_bb_sha256 r else sr_legacy_source_sha256 r)"
  using assms by (simp_all add: receipt_prefix_def Let_def at_simps binding_sized_def record_sized_def c_string_take
      receipt_magic_def)

lemma stored_app:
  assumes "binding_sized b" "c_strlen (sb_app b) < APP_MAX"
  shows "length (sb_app (stored_binding b)) = APP_MAX" "c_string (sb_app (stored_binding b)) = c_string (sb_app b)"
    "c_strlen (sb_app (stored_binding b)) = c_strlen (sb_app b)"
proof -
  have nz: "\<forall>x \<in> set (c_string (sb_app b)). x \<noteq> 0"
    by (auto simp: c_string_def dest: set_takeWhileD)
  show "length (sb_app (stored_binding b)) = APP_MAX"
    using assms by (simp add: stored_binding_def)
  show str: "c_string (sb_app (stored_binding b)) = c_string (sb_app b)"
  proof -
    have "c_string (c_string (sb_app b) @ replicate n 0) = c_string (sb_app b)" for n
      using nz by (cases n) (auto simp: c_string_def takeWhile_append2)
    then show ?thesis by (simp add: stored_binding_def)
  qed
  then show "c_strlen (sb_app (stored_binding b)) = c_strlen (sb_app b)"
    by (metis c_string_length)
qed

lemma stored_binding_equal: 
  assumes "binding_sized b" "c_strlen (sb_app b) < APP_MAX"
  shows "binding_equal (stored_binding b) x = binding_equal b x"
  using stored_app(2) [OF assms] by (simp add: binding_equal_def) (simp add: stored_binding_def)

lemma decode_encode:
  assumes "binding_sized b" "record_sized r" "binding_valid (Some b)" "record_valid (Some r)"
    and "encode_receipt hmac b r psk = Some receipt" "hmac_sized hmac"
  shows "decode_receipt hmac receipt psk = Some (stored_binding b, stored_record r)" "length receipt = RECEIPT_SIZE"
proof -
  let ?d = "receipt_prefix b r" and ?n = "c_strlen (sb_app b)"
  have n: "?n < APP_MAX" "0 < ?n" using assms(1,3) by (simp_all add: binding_valid_def binding_sized_def)
  obtain mac where mac: "hmac psk (take RECEIPT_PREFIX_SIZE ?d) = Some mac"
    "receipt = put_at RECEIPT_PREFIX_SIZE mac ?d" "length mac = DIGEST_LENGTH"
    using assms(5,6) by (auto simp: encode_receipt_def hmac_sized_def Let_def split: option.splits)
  note len = prefix_length [OF assms(1,2) n(1)] and f = prefix_fields [OF assms(1,2) n(1)]
  show "length receipt = RECEIPT_SIZE" using mac(2) len by simp
  have byte: "unat (of_nat ?n :: u8) = ?n" using n(1) by (simp add: unat_of_nat)
  have body: "i + k \<le> RECEIPT_PREFIX_SIZE \<Longrightarrow> get_at i k receipt = get_at i k ?d"
    "i < RECEIPT_PREFIX_SIZE \<Longrightarrow> receipt ! i = ?d ! i" for i k
    unfolding mac(2) by (simp_all add: at_simps)
  have tag: "get_at RECEIPT_PREFIX_SIZE DIGEST_LENGTH receipt = mac"
    unfolding mac(2) using mac(3) len by (simp add: at_simps)
  have pre: "take RECEIPT_PREFIX_SIZE receipt = take RECEIPT_PREFIX_SIZE ?d"
    unfolding mac(2) by (simp add: at_simps)
  have b: "decoded_binding receipt = stored_binding b"
    using n f byte by (simp add: decoded_binding_def Let_def body stored_binding_def)
  have ph: "phase_of_byte (byte_of_phase (sr_phase r)) = sr_phase r"
    using assms(4) by (simp add: record_valid_def)
  have r: "decoded_record receipt = stored_record r"
    by (rule self_record.equality)
       (use f ph in \<open>simp_all add: decoded_record_def Let_def body stored_record_def receipt_flags_bits
          receipt_flags_bits(2) [unfolded One_nat_def]\<close>)
  have "binding_valid (Some (stored_binding b))"
    using n stored_app [OF assms(1) n(1)] by (simp add: binding_valid_def)
  moreover have "record_valid (Some (stored_record r))"
    using assms(4) by (auto simp: record_valid_def stored_record_def)
  moreover have "(of_nat ?n :: u8) \<noteq> 0" using byte n(2) by (metis unat_0 less_irrefl)
  ultimately show "decode_receipt hmac receipt psk = Some (stored_binding b, stored_record r)"
    using f n byte b r mac(1) receipt_flags_known [of r]
    by (simp add: decode_receipt_def body tag pre)
qed

section \<open>The directory\<close>

datatype file_kind = Regular_File | Directory_File | Other_File

record disk_file =
  fl_kind :: file_kind
  fl_nlink :: nat
  fl_uid :: u32
  fl_gid :: u32
  fl_mode :: u32
  fl_bytes :: bytes
  fl_synced :: bool

text \<open>
  The entries as the system shows them, and for each name the entries that a loss of power
  can leave: the current one first, then those it had since the last directory sync.
\<close>

record folder =
  fd_entries :: "string \<Rightarrow> disk_file option"
  fd_possible :: "string \<Rightarrow> disk_file option list"
  fd_uid :: u32
  fd_gid :: u32
  fd_mode :: u32

definition set_entry :: "string \<Rightarrow> disk_file option \<Rightarrow> folder \<Rightarrow> folder" where
  "set_entry name f d = d\<lparr>fd_entries := (fd_entries d)(name := f),
     fd_possible := (fd_possible d)(name := f # fd_possible d name)\<rparr>"

definition sync_folder :: "folder \<Rightarrow> folder" where
  "sync_folder d = d\<lparr>fd_possible := (\<lambda>name. [fd_entries d name])\<rparr>"

text \<open>
  Which system calls succeed, how much a failing write wrote, and who runs the code. A read that
  was interrupted by a signal is repeated by the code, so \<open>Call_Read\<close> is the loop of reads.
\<close>

datatype file_call =
    Call_Open_Directory
  | Call_Stat_Directory
  | Call_Probe string
  | Call_Open string
  | Call_Stat string
  | Call_Read string
  | Call_Read_End string
  | Call_Close_Read string
  | Call_Unlink string
  | Call_Create string
  | Call_Chmod string
  | Call_Write string
  | Call_Sync string
  | Call_Close string
  | Call_Rename string
  | Call_Sync_Directory string

record storage =
  se_ok :: "file_call \<Rightarrow> bool"
  se_written :: "string \<Rightarrow> nat"
  se_uid :: u32
  se_gid :: u32
  se_umask :: u32

datatype opened = Open_Error state_error | Open_Absent | Open_Folder folder

definition open_directory :: "storage \<Rightarrow> self_policy \<Rightarrow> bool \<Rightarrow> folder option \<Rightarrow> opened" where
  "open_directory env policy absent_ok directory =
     (case directory of
        None \<Rightarrow> if absent_ok then Open_Absent else Open_Error (STATE_IO ''directory open'')
      | Some d \<Rightarrow>
          if \<not> se_ok env Call_Open_Directory then Open_Error (STATE_IO ''directory open'')
          else if \<not> se_ok env Call_Stat_Directory then Open_Error (STATE_IO ''directory stat'')
          else if fd_uid d \<noteq> po_owner_uid policy \<or> fd_gid d \<noteq> po_owner_gid policy \<or>
                  fd_mode d AND 0xfff \<noteq> po_directory_mode policy
          then Open_Error STATE_EPERM
          else Open_Folder d)"

definition artifact_exists :: "storage \<Rightarrow> folder \<Rightarrow> string \<Rightarrow> bool" where
  "artifact_exists env d name \<longleftrightarrow> se_ok env (Call_Probe name) \<and> fd_entries d name \<noteq> None"

definition read_exact_file :: "storage \<Rightarrow> self_policy \<Rightarrow> folder \<Rightarrow> string \<Rightarrow> nat \<Rightarrow> bytes option" where
  "read_exact_file env policy d name output_length =
     (case fd_entries d name of
        None \<Rightarrow> None
      | Some f \<Rightarrow>
          if \<not> se_ok env (Call_Open name) then None
          else if \<not> se_ok env (Call_Stat name) \<or> fl_kind f \<noteq> Regular_File \<or> fl_nlink f \<noteq> 1 \<or>
             fl_uid f \<noteq> po_owner_uid policy \<or> fl_gid f \<noteq> po_owner_gid policy \<or>
             fl_mode f AND 0xfff \<noteq> po_file_mode policy \<or> length (fl_bytes f) \<noteq> output_length
          then None
          else if \<not> se_ok env (Call_Read name) \<or> \<not> se_ok env (Call_Read_End name) then None
          else if \<not> se_ok env (Call_Close_Read name) then None
          else Some (fl_bytes f))"

definition secret_names :: "string list" where "secret_names = [''secret-a.bin'', ''secret-b.bin'']"
definition receipt_names :: "string list" where "receipt_names = [''receipt-a.bin'', ''receipt-b.bin'']"
definition secret_temps :: "string list" where "secret_temps = [''.secret-a.tmp'', ''.secret-b.tmp'']"
definition receipt_temps :: "string list" where "receipt_temps = [''.receipt-a.tmp'', ''.receipt-b.tmp'']"

definition slot_content :: "hmac \<Rightarrow> bytes option \<Rightarrow> bytes option \<Rightarrow> self_state option" where
  "slot_content hmac secret receipt =
     (case secret of
        None \<Rightarrow> None
      | Some secret \<Rightarrow> case receipt of
          None \<Rightarrow> None
        | Some receipt \<Rightarrow>
            if get_at 0 8 secret \<noteq> secret_magic then None
            else case decode_receipt hmac receipt (get_at 16 PSK_LENGTH secret) of
                None \<Rightarrow> None
              | Some (b, r) \<Rightarrow>
                  if get_u64_le (get_at 8 8 secret) \<noteq> sr_generation r then None
                  else Some \<lparr>ss_binding = b, ss_record = r, ss_psk = get_at 16 PSK_LENGTH secret\<rparr>)"

definition load_slot :: "hmac \<Rightarrow> storage \<Rightarrow> self_policy \<Rightarrow> folder \<Rightarrow> nat \<Rightarrow> slot" where
  "load_slot hmac env policy d index =
     \<lparr>sl_final = artifact_exists env d (secret_names ! index) \<or> artifact_exists env d (receipt_names ! index),
      sl_temp = artifact_exists env d (secret_temps ! index) \<or> artifact_exists env d (receipt_temps ! index),
      sl_content = slot_content hmac (read_exact_file env policy d (secret_names ! index) SECRET_SIZE)
        (read_exact_file env policy d (receipt_names ! index) RECEIPT_SIZE)\<rparr>"

section \<open>Writing\<close>

definition new_file :: "storage \<Rightarrow> self_policy \<Rightarrow> disk_file" where
  "new_file env policy = \<lparr>fl_kind = Regular_File, fl_nlink = 1, fl_uid = se_uid env, fl_gid = se_gid env,
     fl_mode = po_file_mode policy AND NOT (se_umask env), fl_bytes = [], fl_synced = False\<rparr>"

text \<open>A failing call ends the operation; closing a file descriptor then changes nothing.\<close>

definition write_component ::
    "storage \<Rightarrow> self_policy \<Rightarrow> string \<Rightarrow> string \<Rightarrow> bytes \<Rightarrow> folder \<Rightarrow> state_error reply \<times> folder" where
  "write_component env policy temp_name final_name contents d =
     (let is_folder = (\<lambda>name. map_option fl_kind (fd_entries d name) = Some Directory_File) in
      if \<not> se_ok env (Call_Unlink temp_name) \<or> is_folder temp_name
      then (Reject (STATE_IO ''stale temporary removal''), d)
      else
        let d1 = (if fd_entries d temp_name = None then d else set_entry temp_name None d) in
        if \<not> se_ok env (Call_Create temp_name) then (Reject (STATE_IO ''temporary create''), d1)
        else
          let f2 = new_file env policy; d2 = set_entry temp_name (Some f2) d1 in
          if \<not> se_ok env (Call_Chmod temp_name) then (Reject (STATE_IO ''temporary write''), d2)
          else
            let f3 = f2\<lparr>fl_mode := po_file_mode policy\<rparr>; ok = se_ok env (Call_Write temp_name);
                f4 = f3\<lparr>fl_bytes := (if ok then contents else take (se_written env temp_name) contents)\<rparr>;
                d4 = set_entry temp_name (Some f4) (set_entry temp_name (Some f3) d2)
            in if \<not> ok then (Reject (STATE_IO ''temporary write''), d4)
               else if \<not> se_ok env (Call_Sync temp_name) then (Reject (STATE_IO ''file sync''), d4)
               else
                 let f5 = f4\<lparr>fl_synced := True\<rparr>; d5 = set_entry temp_name (Some f5) d4 in
                 if \<not> se_ok env (Call_Close temp_name) then (Reject (STATE_IO ''file close''), d5)
                 else if \<not> se_ok env (Call_Rename temp_name) \<or> is_folder final_name
                 then (Reject (STATE_IO ''atomic rename''), d5)
                 else
                   let d6 = set_entry final_name (Some f5) (set_entry temp_name None d5) in
                   if \<not> se_ok env (Call_Sync_Directory final_name)
                   then (Reject (STATE_IO ''directory sync''), d6)
                   else (Accept, sync_folder d6))"

text \<open>\<^verbatim>\<open>Inl\<close> is the error; the slot that the write replaces otherwise.\<close>

definition choose_slot :: "slot \<Rightarrow> slot \<Rightarrow> state_error + nat" where
  "choose_slot s0 s1 =
     (case (sl_content s0, sl_content s1) of
        (Some x, Some y) \<Rightarrow>
          Inr (if sr_generation (ss_record x) \<le> sr_generation (ss_record y) then 0 else 1)
      | (Some x, None) \<Rightarrow> Inr 1
      | (None, Some y) \<Rightarrow> Inr 0
      | (None, None) \<Rightarrow>
          if (sl_final s0 \<or> sl_temp s0) \<and> (sl_final s1 \<or> sl_temp s1) then Inl STATE_EIO
          else if sl_final s0 \<or> sl_temp s0 then Inr 1
          else Inr 0)"

definition secret_bytes :: "u64 \<Rightarrow> bytes \<Rightarrow> bytes" where
  "secret_bytes generation psk =
     put_at 16 psk (put_at 8 (put_u64_le generation) (put_at 0 secret_magic (replicate SECRET_SIZE 0)))"

definition slot_mismatch :: "self_binding \<Rightarrow> slot \<Rightarrow> bool" where
  "slot_mismatch binding s = (case sl_content s of None \<Rightarrow> False
     | Some x \<Rightarrow> \<not> binding_equal (ss_binding x) binding)"

definition slot_not_older :: "u64 \<Rightarrow> slot \<Rightarrow> bool" where
  "slot_not_older generation s = (case sl_content s of None \<Rightarrow> False
     | Some x \<Rightarrow> generation \<le> sr_generation (ss_record x))"

definition write_state ::
    "hmac \<Rightarrow> storage \<Rightarrow> self_binding option \<Rightarrow> self_record option \<Rightarrow> bytes option \<Rightarrow> self_policy option
       \<Rightarrow> folder option \<Rightarrow> state_error reply \<times> folder option" where
  "write_state hmac env binding record psk policy directory =
     (if \<not> binding_valid binding \<or> \<not> record_valid record \<or> psk = None \<or> \<not> policy_valid policy
      then (Reject STATE_EINVAL, directory)
      else
        let b = the binding; r = the record; k = the psk; p = the policy in
        case open_directory env p False directory of
          Open_Error x \<Rightarrow> (Reject x, directory)
        | Open_Absent \<Rightarrow> (Reject STATE_EIO, directory)
        | Open_Folder d \<Rightarrow>
            let s0 = load_slot hmac env p d 0; s1 = load_slot hmac env p d 1 in
            if slot_mismatch b s0 \<or> slot_mismatch b s1 then (Reject STATE_EPERM, directory)
            else case choose_slot s0 s1 of
                Inl x \<Rightarrow> (Reject x, directory)
              | Inr target \<Rightarrow>
                  if slot_not_older (sr_generation r) s0 \<or> slot_not_older (sr_generation r) s1
                  then (Reject STATE_EINVAL, directory)
                  else case encode_receipt hmac b r k of
                      None \<Rightarrow> (Reject STATE_EIO, directory)
                    | Some receipt \<Rightarrow>
                        case write_component env p (secret_temps ! target) (secret_names ! target)
                               (secret_bytes (sr_generation r) k) d of
                          (Reject x, d1) \<Rightarrow> (Reject x, Some d1)
                        | (Accept, d1) \<Rightarrow>
                            case write_component env p (receipt_temps ! target) (receipt_names ! target)
                                   receipt d1 of
                              (q, d2) \<Rightarrow> (q, Some d2))"

section \<open>Loading and the life of a record\<close>

datatype load_result = LOAD_ABSENT | LOAD_VALID self_state | LOAD_INCOMPLETE | LOAD_BINDING_MISMATCH

definition select_slot :: "slot \<Rightarrow> slot \<Rightarrow> self_state option" where
  "select_slot s0 s1 =
     (case (sl_content s0, sl_content s1) of
        (None, y) \<Rightarrow> y
      | (Some x, None) \<Rightarrow> Some x
      | (Some x, Some y) \<Rightarrow>
          Some (if sr_generation (ss_record y) > sr_generation (ss_record x) then y else x))"

definition self_state_load ::
    "hmac \<Rightarrow> storage \<Rightarrow> self_binding option \<Rightarrow> self_policy option \<Rightarrow> folder option \<Rightarrow> load_result" where
  "self_state_load hmac env binding policy directory =
     (if \<not> binding_valid binding \<or> \<not> policy_valid policy then LOAD_INCOMPLETE
      else case open_directory env (the policy) True directory of
          Open_Error x \<Rightarrow> LOAD_INCOMPLETE
        | Open_Absent \<Rightarrow> LOAD_ABSENT
        | Open_Folder d \<Rightarrow>
            let s0 = load_slot hmac env (the policy) d 0; s1 = load_slot hmac env (the policy) d 1;
                any_artifact = (sl_final s0 \<or> sl_temp s0 \<or> sl_final s1 \<or> sl_temp s1)
            in if slot_mismatch (the binding) s0 \<or> slot_mismatch (the binding) s1 then LOAD_BINDING_MISMATCH
               else case select_slot s0 s1 of
                   Some x \<Rightarrow> LOAD_VALID x
                 | None \<Rightarrow> if any_artifact then LOAD_INCOMPLETE else LOAD_ABSENT)"

definition self_state_write_prepared ::
    "hmac \<Rightarrow> storage \<Rightarrow> self_binding option \<Rightarrow> self_record option \<Rightarrow> bytes option \<Rightarrow> self_policy option
       \<Rightarrow> folder option \<Rightarrow> state_error reply \<times> folder option" where
  "self_state_write_prepared hmac env binding record psk policy directory =
     (case record of
        None \<Rightarrow> (Reject STATE_EINVAL, directory)
      | Some r \<Rightarrow>
          if sr_phase r \<noteq> PHASE_PREPARED \<or> sr_terminal_proof r then (Reject STATE_EINVAL, directory)
          else write_state hmac env binding record psk policy directory)"

definition self_state_import_legacy ::
    "hmac \<Rightarrow> storage \<Rightarrow> self_binding option \<Rightarrow> bytes option \<Rightarrow> bytes option \<Rightarrow> bytes option \<Rightarrow> bytes option
       \<Rightarrow> self_policy option \<Rightarrow> folder option \<Rightarrow> state_error reply \<times> folder option" where
  "self_state_import_legacy hmac env binding psk validator legacy_source_sha256 fdt_table policy directory =
     (case (validator, legacy_source_sha256) of
        (Some v, Some l) \<Rightarrow>
          self_state_write_prepared hmac env binding
            (Some \<lparr>sr_phase = PHASE_PREPARED, sr_generation = 1, sr_expected_validator = v,
               sr_prior_present = False, sr_prior_validator = replicate DIGEST_LENGTH 0,
               sr_fdt_present = (fdt_table \<noteq> None),
               sr_fdt_table = (case fdt_table of None \<Rightarrow> replicate FDT_LENGTH 0 | Some t \<Rightarrow> t),
               sr_migrated_legacy = True, sr_legacy_source_sha256 = l, sr_bb_present = False,
               sr_bb_sha256 = replicate DIGEST_LENGTH 0, sr_e0_attempted = False, sr_terminal_proof = False\<rparr>)
            psk policy directory
      | _ \<Rightarrow> (Reject STATE_EINVAL, directory))"




section \<open>Interruptions\<close>

text \<open>
  What a stop of the machine leaves: each name has one of its possible entries; a file whose
  contents were not synced is some file. Afterwards everything on disk is stable. A process
  that dies leaves the current entries, which is one of these directories.
\<close>

fun survives :: "disk_file option \<Rightarrow> disk_file option \<Rightarrow> bool" where
  "survives None x \<longleftrightarrow> x = None"
| "survives (Some f) x \<longleftrightarrow> (if fl_synced f then x = Some f else \<exists>g. x = Some g)"

definition settled :: "folder \<Rightarrow> bool" where
  "settled d \<longleftrightarrow> (\<forall>name. fd_possible d name = [fd_entries d name] \<and>
     (\<forall>f. fd_entries d name = Some f \<longrightarrow> fl_synced f))"

definition crash_image :: "folder \<Rightarrow> folder \<Rightarrow> bool" where
  "crash_image d d' \<longleftrightarrow> fd_uid d' = fd_uid d \<and> fd_gid d' = fd_gid d \<and> fd_mode d' = fd_mode d \<and> settled d' \<and>
     (\<forall>name. \<exists>f \<in> set (fd_possible d name). survives f (fd_entries d' name))"

lemma settled_survives: "settled d \<Longrightarrow> survives (fd_entries d n) x \<Longrightarrow> x = fd_entries d n"
  by (cases "fd_entries d n") (auto simp: settled_def)

lemma stable_entry:
  assumes "settled d" "fd_possible d1 n = [fd_entries d n]" "crash_image d1 d2"
  shows "fd_entries d2 n = fd_entries d n"
proof -
  obtain f where "f \<in> set (fd_possible d1 n)" "survives f (fd_entries d2 n)"
    using assms(3) unfolding crash_image_def by blast
  with assms(2) settled_survives [OF assms(1)] show ?thesis by simp
qed

lemma settled_crash:
  assumes "settled d" "crash_image d d'"
  shows "fd_entries d' = fd_entries d"
  by (rule ext, rule stable_entry [OF assms(1) _ assms(2)]) (use assms(1) in \<open>simp add: settled_def\<close>)

definition written_file :: "storage \<Rightarrow> self_policy \<Rightarrow> bytes \<Rightarrow> disk_file" where
  "written_file env policy contents = \<lparr>fl_kind = Regular_File, fl_nlink = 1, fl_uid = se_uid env,
     fl_gid = se_gid env, fl_mode = po_file_mode policy, fl_bytes = contents, fl_synced = True\<rparr>"

lemma set_entry_fields [simp]:
  "fd_entries (set_entry n f d) = (fd_entries d)(n := f)"
  "fd_possible (set_entry n f d) = (fd_possible d)(n := f # fd_possible d n)"
  "fd_uid (set_entry n f d) = fd_uid d" "fd_gid (set_entry n f d) = fd_gid d"
  "fd_mode (set_entry n f d) = fd_mode d"
  "fd_entries (sync_folder d) = fd_entries d" "fd_possible (sync_folder d) = (\<lambda>n. [fd_entries d n])"
  "fd_uid (sync_folder d) = fd_uid d" "fd_gid (sync_folder d) = fd_gid d"
  "fd_mode (sync_folder d) = fd_mode d"
  by (simp_all add: set_entry_def sync_folder_def)

lemma new_file_written [simp]:
  "new_file env policy\<lparr>fl_mode := po_file_mode policy, fl_bytes := contents, fl_synced := True\<rparr> =
     written_file env policy contents"
  by (simp add: new_file_def written_file_def)

lemma component_frame:
  assumes "write_component env policy temp name contents d = (q, d1)"
  shows "fd_uid d1 = fd_uid d" "fd_gid d1 = fd_gid d" "fd_mode d1 = fd_mode d"
    "n \<noteq> temp \<Longrightarrow> n \<noteq> name \<Longrightarrow> fd_entries d1 n = fd_entries d n"
    "q \<noteq> Accept \<Longrightarrow> n \<noteq> temp \<Longrightarrow> n \<noteq> name \<Longrightarrow> fd_possible d1 n = fd_possible d n"
  using assms by (auto simp: write_component_def Let_def split: if_split_asm)

lemma component_final:
  assumes "write_component env policy temp name contents d = (q, d1)" "temp \<noteq> name"
  shows "q \<noteq> Accept \<Longrightarrow> set (fd_possible d1 name) \<subseteq> insert (Some (written_file env policy contents)) (set (fd_possible d name))"
    "q = Accept \<Longrightarrow> fd_entries d1 name = Some (written_file env policy contents) \<and>
       fd_entries d1 temp = None \<and> fd_possible d1 = (\<lambda>n. [fd_entries d1 n])"
  using assms by (auto simp: write_component_def Let_def split: if_split_asm)

lemma component_settled:
  assumes d: "settled d" and w: "write_component env policy temp name contents d = (q, d1)"
    and ne: "temp \<noteq> name" and "q = Accept"
  shows "settled d1"
  unfolding settled_def
proof (intro allI conjI impI)
  fix n f
  show "fd_possible d1 n = [fd_entries d1 n]" using component_final(2) [OF w ne assms(4)] by simp
  assume "fd_entries d1 n = Some f"
  then show "fl_synced f"
    using component_final(2) [OF w ne assms(4)] component_frame(4) [OF w, of n] d
    by (cases "n = temp"; cases "n = name") (auto simp: settled_def written_file_def)
qed

text \<open>One component, interrupted anywhere: its name has the old entry or the complete new file.\<close>

lemma component_crash:
  assumes d: "settled d" and w: "write_component env policy temp name contents d = (q, d1)"
    and ne: "temp \<noteq> name" and c: "crash_image d1 d2"
  shows "n \<noteq> temp \<Longrightarrow> n \<noteq> name \<Longrightarrow> fd_entries d2 n = fd_entries d n"
    "fd_entries d2 name = fd_entries d name \<or> fd_entries d2 name = Some (written_file env policy contents)"
    "q = Accept \<Longrightarrow> fd_entries d2 name = Some (written_file env policy contents)"
proof -
  note old = settled_survives [OF d] and ok = component_settled [OF d w ne]
  show new: "fd_entries d2 name = Some (written_file env policy contents)" if "q = Accept"
    using settled_crash [OF ok [OF that] c] component_final(2) [OF w ne that] by simp
  show "fd_entries d2 n = fd_entries d n" if "n \<noteq> temp" "n \<noteq> name"
  proof (cases "q = Accept")
    case True
    then show ?thesis using settled_crash [OF ok c] component_frame(4) [OF w that] by simp
  next
    case False
    then have "fd_possible d1 n = [fd_entries d n]"
      using component_frame(5) [OF w False that] d by (simp add: settled_def)
    then show ?thesis by (rule stable_entry [OF d _ c])
  qed
  show "fd_entries d2 name = fd_entries d name \<or> fd_entries d2 name = Some (written_file env policy contents)"
  proof (cases "q = Accept")
    case False
    have "set (fd_possible d1 name) \<subseteq> {Some (written_file env policy contents), fd_entries d name}"
      using component_final(1) [OF w ne False] d by (auto simp: settled_def)
    moreover obtain f where "f \<in> set (fd_possible d1 name)" "survives f (fd_entries d2 name)"
      using c unfolding crash_image_def by blast
    ultimately show ?thesis
      using old [of name] by (auto simp: written_file_def)
  qed (simp add: new)
qed

section \<open>Slots under a write\<close>

lemmas names_defs = secret_names_def receipt_names_def secret_temps_def receipt_temps_def

definition slot_entries :: "folder \<Rightarrow> nat \<Rightarrow> disk_file option \<times> disk_file option" where
  "slot_entries d i = (fd_entries d (secret_names ! i), fd_entries d (receipt_names ! i))"

lemma choose_slot_index: "choose_slot s0 s1 = Inr target \<Longrightarrow> target = 0 \<or> target = 1"
  by (auto simp: choose_slot_def split: option.splits if_split_asm)

text \<open>A slot that is written goes through three states; the other slot stays.\<close>

lemma components_crash:
  assumes d: "settled d" and t: "target = 0 \<or> target = 1"
    and w1: "write_component env p (secret_temps ! target) (secret_names ! target) c1 d = (q1, e)"
    and w2: "q1 = Accept \<Longrightarrow> write_component env p (receipt_temps ! target) (receipt_names ! target) c2 e = (q, d1)"
    and r1: "q1 \<noteq> Accept \<Longrightarrow> d1 = e \<and> q \<noteq> Accept"
    and c: "crash_image d1 d2"
  shows "i < 2 \<Longrightarrow> i \<noteq> target \<Longrightarrow> slot_entries d2 i = slot_entries d i"
    "slot_entries d2 target \<in> {slot_entries d target,
       (Some (written_file env p c1), snd (slot_entries d target)),
       (Some (written_file env p c1), Some (written_file env p c2))}"
    "q = Accept \<Longrightarrow> slot_entries d2 target = (Some (written_file env p c1), Some (written_file env p c2))"
proof -
  have ne: "secret_temps ! target \<noteq> secret_names ! target" "receipt_temps ! target \<noteq> receipt_names ! target"
    using t by (auto simp: names_defs)
  have all: "(\<forall>i < 2. i \<noteq> target \<longrightarrow> slot_entries d2 i = slot_entries d i) \<and>
    slot_entries d2 target \<in> {slot_entries d target,
       (Some (written_file env p c1), snd (slot_entries d target)),
       (Some (written_file env p c1), Some (written_file env p c2))} \<and>
    (q = Accept \<longrightarrow> slot_entries d2 target = (Some (written_file env p c1), Some (written_file env p c2)))"
  proof (cases "q1 = Accept")
    case False
    with r1 have d1: "d1 = e" "q \<noteq> Accept" by simp_all
    note wc = component_crash [OF d w1 ne(1) c [unfolded d1(1)]]
    from wc(1) wc(2) d1(2) t show ?thesis
      by (auto simp: slot_entries_def names_defs less_2_cases_iff)
  next
    case True
    have e: "settled e" by (rule component_settled [OF d w1 ne(1) True])
    note wc = component_crash [OF e w2 [OF True] ne(2) c]
    have same: "fd_entries e n = fd_entries d n" if "n \<noteq> secret_temps ! target" "n \<noteq> secret_names ! target" for n
      by (rule component_frame(4) [OF w1 that])
    have "fd_entries e (secret_names ! target) = Some (written_file env p c1)"
      using component_final(2) [OF w1 ne(1) True] by simp
    with wc(1-3) same t show ?thesis
      by (auto simp: slot_entries_def names_defs less_2_cases_iff)
  qed
  then show "i < 2 \<Longrightarrow> i \<noteq> target \<Longrightarrow> slot_entries d2 i = slot_entries d i"
    "slot_entries d2 target \<in> {slot_entries d target,
       (Some (written_file env p c1), snd (slot_entries d target)),
       (Some (written_file env p c1), Some (written_file env p c2))}"
    "q = Accept \<Longrightarrow> slot_entries d2 target = (Some (written_file env p c1), Some (written_file env p c2))"
    by blast+
qed

abbreviation state_generation :: "self_state \<Rightarrow> u64" where
  "state_generation x \<equiv> sr_generation (ss_record x)"

text \<open>
  What the files hold: the contents of a slot as reads that succeed give them. A slot whose
  reads do not all succeed looks invalid.
\<close>

definition stored_file :: "self_policy \<Rightarrow> folder \<Rightarrow> string \<Rightarrow> nat \<Rightarrow> bytes option" where
  "stored_file p d name n =
     (case fd_entries d name of
        None \<Rightarrow> None
      | Some f \<Rightarrow>
          if fl_kind f \<noteq> Regular_File \<or> fl_nlink f \<noteq> 1 \<or> fl_uid f \<noteq> po_owner_uid p \<or>
             fl_gid f \<noteq> po_owner_gid p \<or> fl_mode f AND 0xfff \<noteq> po_file_mode p \<or> length (fl_bytes f) \<noteq> n
          then None
          else Some (fl_bytes f))"

definition readable :: "storage \<Rightarrow> string \<Rightarrow> bool" where
  "readable env name \<longleftrightarrow> se_ok env (Call_Open name) \<and> se_ok env (Call_Stat name) \<and> se_ok env (Call_Read name) \<and>
     se_ok env (Call_Read_End name) \<and> se_ok env (Call_Close_Read name)"

definition slot_readable :: "storage \<Rightarrow> nat \<Rightarrow> bool" where
  "slot_readable env i \<longleftrightarrow> readable env (secret_names ! i) \<and> readable env (receipt_names ! i)"

lemma read_stored: "read_exact_file env p d name n = (if readable env name then stored_file p d name n else None)"
  by (simp add: read_exact_file_def stored_file_def readable_def split: option.split)

definition content :: "hmac \<Rightarrow> self_policy \<Rightarrow> folder \<Rightarrow> nat \<Rightarrow> self_state option" where
  "content hmac p d i = slot_content hmac (stored_file p d (secret_names ! i) SECRET_SIZE)
     (stored_file p d (receipt_names ! i) RECEIPT_SIZE)"

lemma slot_content_None [simp]: "slot_content hmac None r = None" "slot_content hmac s None = None"
  by (simp_all add: slot_content_def split: option.split)

lemma load_slot_content:
  "sl_content (load_slot hmac env p d i) = (if slot_readable env i then content hmac p d i else None)"
  by (simp add: load_slot_def read_stored slot_readable_def content_def)

definition receipt_of :: "self_policy \<Rightarrow> folder \<Rightarrow> nat \<Rightarrow> bytes option" where
  "receipt_of p d i = stored_file p d (receipt_names ! i) RECEIPT_SIZE"

definition receipt_generation :: "bytes \<Rightarrow> u64" where
  "receipt_generation c = get_u64_le (get_at 12 8 c)"

definition clean_slot :: "hmac \<Rightarrow> self_policy \<Rightarrow> folder \<Rightarrow> nat \<Rightarrow> slot" where
  "clean_slot hmac p d i = \<lparr>sl_final = True, sl_temp = True, sl_content = content hmac p d i\<rparr>"

lemma clean_slot_content [simp]: "sl_content (clean_slot hmac p d i) = content hmac p d i"
  by (simp add: clean_slot_def)

definition selected :: "hmac \<Rightarrow> self_policy \<Rightarrow> folder \<Rightarrow> self_state option" where
  "selected hmac p d = select_slot (clean_slot hmac p d 0) (clean_slot hmac p d 1)"

text \<open>The slot with the current state can be read.\<close>

definition newest_readable :: "hmac \<Rightarrow> self_policy \<Rightarrow> storage \<Rightarrow> folder \<Rightarrow> bool" where
  "newest_readable hmac p env d \<longleftrightarrow>
     (\<forall>i < 2. content hmac p d i \<noteq> None \<and> content hmac p d i = selected hmac p d \<longrightarrow> slot_readable env i)"

lemma content_cong:
  assumes "slot_entries d i = slot_entries d' i"
  shows "content hmac p d i = content hmac p d' i" "receipt_of p d i = receipt_of p d' i"
  using assms by (simp_all add: content_def receipt_of_def stored_file_def slot_entries_def)

lemma decode_generation: "decode_receipt hmac c k = Some (b, r) \<Longrightarrow> sr_generation r = receipt_generation c"
  by (auto simp: decode_receipt_def decoded_record_def receipt_generation_def Let_def
      split: if_split_asm option.splits)

lemma content_receipt:
  assumes "content hmac p d i = Some x"
  shows "\<exists>c. receipt_of p d i = Some c \<and> receipt_generation c = state_generation x"
  using assms decode_generation
  by (fastforce simp: content_def slot_content_def receipt_of_def
      split: option.splits if_split_asm)

lemma secret_parts:
  assumes "length k = PSK_LENGTH"
  shows "length (secret_bytes g k) = SECRET_SIZE" "get_at 0 8 (secret_bytes g k) = secret_magic"
    "get_at 8 8 (secret_bytes g k) = put_u64_le g" "get_at 16 PSK_LENGTH (secret_bytes g k) = k"
  using assms by (simp_all add: secret_bytes_def at_simps secret_magic_def)

lemma mixed_content:
  assumes "length k = PSK_LENGTH" "receipt_generation c \<noteq> g"
  shows "slot_content hmac (Some (secret_bytes g k)) (Some c) = None"
  using secret_parts [OF assms(1), of g] assms(2) decode_generation [of hmac c k]
  by (auto simp: slot_content_def split: option.split)

lemma new_content:
  assumes "length k = PSK_LENGTH" "decode_receipt hmac c k = Some (b, r)"
  shows "slot_content hmac (Some (secret_bytes (sr_generation r) k)) (Some c) =
    Some \<lparr>ss_binding = b, ss_record = r, ss_psk = k\<rparr>"
  using secret_parts [OF assms(1), of "sr_generation r"] assms(2) by (simp add: slot_content_def)

lemma read_written:
  assumes "policy_valid (Some p)" "se_uid env = po_owner_uid p" "se_gid env = po_owner_gid p" "length c = n"
    and "fd_entries d name = Some (written_file env p c)"
  shows "stored_file p d name n = Some c"
  using assms by (simp add: stored_file_def written_file_def policy_valid_def)

lemma selected_is_content:
  "select_slot s0 s1 = Some x \<Longrightarrow> sl_content s0 = Some x \<or> sl_content s1 = Some x"
  by (auto simp: select_slot_def split: option.splits if_split_asm)

lemma selected_max:
  assumes "content hmac p d n = Some x" "n < 2"
  shows "\<exists>y. selected hmac p d = Some y \<and> state_generation x \<le> state_generation y"
  using assms by (auto simp: selected_def select_slot_def less_2_cases_iff not_less split: option.split)

lemma selected_at:
  assumes "selected hmac p d = Some y"
  shows "\<exists>i < 2. content hmac p d i = Some y"
proof -
  have "content hmac p d 0 = Some y \<or> content hmac p d 1 = Some y"
    using selected_is_content [OF assms [unfolded selected_def]] by simp
  then show ?thesis
  proof
    assume "content hmac p d 0 = Some y"
    then show ?thesis by (intro exI [of _ 0]) simp
  next
    assume "content hmac p d 1 = Some y"
    then show ?thesis by (intro exI [of _ 1]) simp
  qed
qed

text \<open>The write replaces the slot that is not selected.\<close>

lemma written_slot:
  assumes "choose_slot (load_slot hmac env p d 0) (load_slot hmac env p d 1) = Inr target"
    "newest_readable hmac p env d"
    "\<And>x y. content hmac p d 0 = Some x \<Longrightarrow> content hmac p d 1 = Some y \<Longrightarrow> state_generation x \<noteq> state_generation y"
  shows "target = 0 \<and> selected hmac p d = content hmac p d 1 \<or> target = 1 \<and> selected hmac p d = content hmac p d 0"
proof -
  have t: "target = 0 \<or> target = 1" using assms(1) by (rule choose_slot_index)
  have r: "content hmac p d 0 = Some x \<Longrightarrow> selected hmac p d = Some x \<Longrightarrow> slot_readable env 0"
    "content hmac p d 1 = Some x \<Longrightarrow> selected hmac p d = Some x \<Longrightarrow> slot_readable env 1" for x
    using assms(2) by (simp_all add: newest_readable_def)
  show ?thesis
  proof (cases "content hmac p d 0"; cases "content hmac p d 1")
    fix x y assume c: "content hmac p d 0 = Some x" "content hmac p d 1 = Some y"
    show ?thesis
    proof (cases "state_generation x < state_generation y")
      case True
      with c have "selected hmac p d = Some y" by (simp add: selected_def select_slot_def)
      with c r(2) [of y] assms(1) True show ?thesis
        by (auto simp: choose_slot_def load_slot_content split: if_split_asm)
    next
      case False
      with c assms(3) [OF c] have "selected hmac p d = Some x" "\<not> state_generation x \<le> state_generation y"
        by (auto simp: selected_def select_slot_def)
      with c r(1) [of x] assms(1) show ?thesis
        by (auto simp: choose_slot_def load_slot_content split: if_split_asm)
    qed
  next
    fix x assume c: "content hmac p d 0 = Some x" "content hmac p d 1 = None"
    then have "selected hmac p d = Some x" by (simp add: selected_def select_slot_def)
    with c r(1) [of x] assms(1) show ?thesis by (auto simp: choose_slot_def load_slot_content split: if_split_asm)
  next
    fix y assume c: "content hmac p d 0 = None" "content hmac p d 1 = Some y"
    then have "selected hmac p d = Some y" by (simp add: selected_def select_slot_def)
    with c r(2) [of y] assms(1) show ?thesis by (auto simp: choose_slot_def load_slot_content split: if_split_asm)
  next
    assume "content hmac p d 0 = None" "content hmac p d 1 = None"
    with t show ?thesis by (auto simp: selected_def select_slot_def)
  qed
qed

lemma written_newer:
  assumes "newest_readable hmac p env d" "content hmac p d n = Some x" "n < 2"
    "\<not> slot_not_older g (load_slot hmac env p d 0)" "\<not> slot_not_older g (load_slot hmac env p d 1)"
  shows "state_generation x < g"
proof -
  obtain y where y: "selected hmac p d = Some y" "state_generation x \<le> state_generation y"
    using selected_max [OF assms(2,3)] by blast
  then obtain i where i: "i < 2" "content hmac p d i = Some y"
    using selected_at by blast
  with assms(1) y(1) have "slot_readable env i" by (simp add: newest_readable_def)
  with i assms(4,5) have "state_generation y < g"
    by (auto simp: slot_not_older_def load_slot_content less_2_cases_iff)
  with y(2) show ?thesis by (rule order_le_less_trans)
qed

definition kept :: "hmac \<Rightarrow> self_policy \<Rightarrow> self_binding \<Rightarrow> folder \<Rightarrow> bool" where
  "kept hmac p b d \<longleftrightarrow>
     settled d \<and> fd_uid d = po_owner_uid p \<and> fd_gid d = po_owner_gid p \<and>
     fd_mode d AND 0xfff = po_directory_mode p \<and>
     (\<forall>i < 2. \<forall>x. content hmac p d i = Some x \<longrightarrow> binding_equal (ss_binding x) b) \<and>
     (\<forall>x y. content hmac p d 0 = Some x \<longrightarrow> content hmac p d 1 = Some y \<longrightarrow>
        state_generation x \<noteq> state_generation y) \<and>
     (\<forall>i < 2. \<forall>c. receipt_of p d i = Some c \<longrightarrow>
        (\<exists>x. selected hmac p d = Some x \<and> receipt_generation c \<le> state_generation x))"

lemma kept_same:
  assumes "kept hmac p b d" "\<And>i. i < 2 \<Longrightarrow> slot_entries d2 i = slot_entries d i"
    "fd_uid d2 = fd_uid d" "fd_gid d2 = fd_gid d" "fd_mode d2 = fd_mode d" "settled d2"
  shows "kept hmac p b d2 \<and> selected hmac p d2 = selected hmac p d"
proof -
  have c: "content hmac p d2 i = content hmac p d i" "receipt_of p d2 i = receipt_of p d i" if "i < 2" for i
    using content_cong [OF assms(2) [OF that]] by simp_all
  then have s: "selected hmac p d2 = selected hmac p d"
    using c(1) [of 0] c(1) [of 1] by (simp add: selected_def select_slot_def)
  then show ?thesis
    using assms(1,3-) c unfolding kept_def by simp
qed

lemma write_cases:
  assumes w: "write_state hmac env (Some b) (Some r) (Some k) (Some p) (Some d) = (q, Some d1)"
    and d: "settled d" and c: "crash_image d1 d2"
  shows "fd_uid d2 = fd_uid d \<and> fd_gid d2 = fd_gid d \<and> fd_mode d2 = fd_mode d \<and>
    (q \<noteq> Accept \<and> (\<forall>i < 2. slot_entries d2 i = slot_entries d i) \<or>
     (\<exists>target receipt. binding_valid (Some b) \<and> record_valid (Some r) \<and> policy_valid (Some p) \<and>
        choose_slot (load_slot hmac env p d 0) (load_slot hmac env p d 1) = Inr target \<and>
        \<not> slot_not_older (sr_generation r) (load_slot hmac env p d 0) \<and>
        \<not> slot_not_older (sr_generation r) (load_slot hmac env p d 1) \<and>
        encode_receipt hmac b r k = Some receipt \<and>
        (\<forall>i < 2. i \<noteq> target \<longrightarrow> slot_entries d2 i = slot_entries d i) \<and>
        slot_entries d2 target \<in> {slot_entries d target,
          (Some (written_file env p (secret_bytes (sr_generation r) k)), snd (slot_entries d target)),
          (Some (written_file env p (secret_bytes (sr_generation r) k)), Some (written_file env p receipt))} \<and>
        (q = Accept \<longrightarrow> slot_entries d2 target =
          (Some (written_file env p (secret_bytes (sr_generation r) k)), Some (written_file env p receipt)))))"
proof (cases "q \<noteq> Accept \<and> d1 = d")
  case True
  have "slot_entries d2 i = slot_entries d i" for i
    using settled_crash [OF d] True c by (simp add: slot_entries_def)
  with True c show ?thesis by (simp add: crash_image_def)
next
  case False
  let ?s0 = "load_slot hmac env p d 0" and ?s1 = "load_slot hmac env p d 1"
  have checks: "binding_valid (Some b)" "record_valid (Some r)" "policy_valid (Some p)"
    "open_directory env p False (Some d) = Open_Folder d"
    using w False by (auto simp: write_state_def open_directory_def Let_def split: if_split_asm)
  then have guards: "\<not> (slot_mismatch b ?s0 \<or> slot_mismatch b ?s1)"
    using w False by (auto simp: write_state_def Let_def split: if_split_asm)
  then obtain target where t: "choose_slot ?s0 ?s1 = Inr target"
    using w False checks by (auto simp: write_state_def Let_def split: sum.splits)
  have old: "\<not> (slot_not_older (sr_generation r) ?s0 \<or> slot_not_older (sr_generation r) ?s1)"
    using w False checks guards t by (auto simp: write_state_def Let_def split: if_split_asm)
  obtain receipt where rc: "encode_receipt hmac b r k = Some receipt"
    using w False checks guards t old by (auto simp: write_state_def Let_def split: option.splits)
  obtain q1 e where w1: "write_component env p (secret_temps ! target) (secret_names ! target)
      (secret_bytes (sr_generation r) k) d = (q1, e)" by (metis surj_pair)
  obtain q2 e2 where w2: "write_component env p (receipt_temps ! target) (receipt_names ! target) receipt e = (q2, e2)"
    by (metis surj_pair)
  have run: "if q1 = Accept then q = q2 \<and> d1 = e2 else q \<noteq> Accept \<and> d1 = e"
    using w checks guards t old rc w1 w2 by (cases q1) (auto simp: write_state_def Let_def)
  have meta: "fd_uid d1 = fd_uid d \<and> fd_gid d1 = fd_gid d \<and> fd_mode d1 = fd_mode d"
    using run component_frame(1-3) [OF w1] component_frame(1-3) [OF w2] by (auto split: if_split_asm)
  have after: "(\<forall>i < 2. i \<noteq> target \<longrightarrow> slot_entries d2 i = slot_entries d i) \<and>
      slot_entries d2 target \<in> {slot_entries d target,
        (Some (written_file env p (secret_bytes (sr_generation r) k)), snd (slot_entries d target)),
        (Some (written_file env p (secret_bytes (sr_generation r) k)), Some (written_file env p receipt))} \<and>
      (q = Accept \<longrightarrow> slot_entries d2 target =
        (Some (written_file env p (secret_bytes (sr_generation r) k)), Some (written_file env p receipt)))"
    using components_crash [OF d choose_slot_index [OF t] w1 _ _ c, of receipt q] w2 run
    by (auto split: if_split_asm)
  show ?thesis
    using meta c checks(1-3) t old rc after by (intro conjI disjI2) (auto simp: crash_image_def)
qed

lemma select_pair:
  assumes "i = 0 \<and> j = 1 \<or> i = 1 \<and> j = (0 :: nat)"
  shows "content hmac p d i = None \<Longrightarrow> selected hmac p d = content hmac p d j"
    "content hmac p d i = Some x \<Longrightarrow> (\<And>y. content hmac p d j = Some y \<Longrightarrow> state_generation y < state_generation x) \<Longrightarrow>
       selected hmac p d = Some x"
    "content hmac p d i = Some x \<Longrightarrow> content hmac p d j = Some y \<Longrightarrow> state_generation x < state_generation y \<Longrightarrow>
       selected hmac p d = Some y"
  using assms by (auto simp: selected_def select_slot_def not_less split: option.split)

lemma kept_write:
  assumes kept: "kept hmac p b d"
    and size: "binding_sized b" "record_sized r" "length k = PSK_LENGTH"
    and mac: "hmac_sized hmac"
    and own: "se_uid env = po_owner_uid p" "se_gid env = po_owner_gid p"
    and newest: "newest_readable hmac p env d"
    and w: "write_state hmac env (Some b) (Some r) (Some k) (Some p) (Some d) = (q, Some d1)"
    and c: "crash_image d1 d2"
  defines "new \<equiv> \<lparr>ss_binding = stored_binding b, ss_record = stored_record r, ss_psk = k\<rparr>"
  shows "kept hmac p b d2 \<and>
    (q \<noteq> Accept \<and> selected hmac p d2 = selected hmac p d \<or>
     selected hmac p d2 = Some new \<and>
       (\<forall>x. selected hmac p d = Some x \<longrightarrow> state_generation x < state_generation new))"
proof -
  have d: "settled d" using kept by (simp add: kept_def)
  have frame: "fd_uid d2 = fd_uid d" "fd_gid d2 = fd_gid d" "fd_mode d2 = fd_mode d" "settled d2"
    using write_cases [OF w d c] c by (simp_all add: crash_image_def)
  have same: "kept hmac p b d2 \<and> selected hmac p d2 = selected hmac p d"
    if "\<And>i. i < 2 \<Longrightarrow> slot_entries d2 i = slot_entries d i"
    by (rule kept_same [OF kept that frame])
  from write_cases [OF w d c] consider
      (unchanged) "q \<noteq> Accept" "\<forall>i < 2. slot_entries d2 i = slot_entries d i"
    | (written) i receipt where "binding_valid (Some b)" "record_valid (Some r)" "policy_valid (Some p)"
        "choose_slot (load_slot hmac env p d 0) (load_slot hmac env p d 1) = Inr i"
        "\<not> slot_not_older (sr_generation r) (load_slot hmac env p d 0)"
        "\<not> slot_not_older (sr_generation r) (load_slot hmac env p d 1)"
        "encode_receipt hmac b r k = Some receipt" "\<forall>j < 2. j \<noteq> i \<longrightarrow> slot_entries d2 j = slot_entries d j"
        "slot_entries d2 i \<in> {slot_entries d i,
          (Some (written_file env p (secret_bytes (sr_generation r) k)), snd (slot_entries d i)),
          (Some (written_file env p (secret_bytes (sr_generation r) k)), Some (written_file env p receipt))}"
        "q = Accept \<longrightarrow> slot_entries d2 i =
          (Some (written_file env p (secret_bytes (sr_generation r) k)), Some (written_file env p receipt))"
    by blast
  then show ?thesis
  proof cases
    case unchanged
    with same show ?thesis by blast
  next
    case written
    let ?g = "sr_generation r" and ?sec = "written_file env p (secret_bytes (sr_generation r) k)"
    define j where "j = 1 - i"
    have ij: "i = 0 \<and> j = 1 \<or> i = 1 \<and> j = 0" using choose_slot_index [OF written(4)] by (auto simp: j_def)
    then have i2: "i < 2" "j < 2" "j \<noteq> i" by auto
    have sel: "selected hmac p d = content hmac p d j"
      using written_slot [OF written(4) newest] kept ij by (auto simp: kept_def)
    have older: "content hmac p d n = Some x \<Longrightarrow> n < 2 \<Longrightarrow> state_generation x < ?g" for n x
      using written_newer [OF newest _ _ written(5,6)] by blast
    have j: "content hmac p d2 j = content hmac p d j" "receipt_of p d2 j = receipt_of p d j"
      using content_cong(1) [of d2 j d hmac p] content_cong(2) [of d2 j d p] written(8) i2 by simp_all
    note dec = decode_encode [OF size(1,2) written(1,2,7) mac]
    have gnew: "state_generation new = ?g" by (simp add: new_def)
    have receipts: "receipt_of p d n = Some c \<Longrightarrow> n < 2 \<Longrightarrow>
        \<exists>x. selected hmac p d = Some x \<and> receipt_generation c \<le> state_generation x" for n c
      using kept unfolding kept_def by blast
    have old_receipt: "receipt_generation c < ?g" if c: "receipt_of p d n = Some c" "n < 2" for n c
    proof -
      obtain x where x: "selected hmac p d = Some x" "receipt_generation c \<le> state_generation x"
        using receipts [OF c] by blast
      with sel older [of j x] i2 have "state_generation x < ?g" by simp
      with x(2) show ?thesis by (rule order_le_less_trans)
    qed
    have mis: "content hmac p d j = Some x \<Longrightarrow> binding_equal (ss_binding x) b" for x using kept i2(2) by (simp add: kept_def)
    show ?thesis
    proof (cases "slot_entries d2 i = (Some ?sec, Some (written_file env p receipt))")
      case True
      then have e: "fd_entries d2 (secret_names ! i) = Some ?sec"
        "fd_entries d2 (receipt_names ! i) = Some (written_file env p receipt)"
        by (simp_all add: slot_entries_def)
      have rd: "stored_file p d2 (secret_names ! i) SECRET_SIZE = Some (secret_bytes ?g k)"
        "receipt_of p d2 i = Some receipt"
        unfolding receipt_of_def
        using read_written [OF written(3) own _ e(1)] read_written [OF written(3) own _ e(2)]
          secret_parts(1) [OF size(3)] dec(2) by simp_all
      have ci: "content hmac p d2 i = Some new"
        using rd new_content [OF size(3) dec(1)]
        by (simp add: content_def receipt_of_def new_def)
      have new_sel: "selected hmac p d2 = Some new"
        by (rule select_pair(2) [OF ij ci]) (use older i2 j gnew in auto)
      have "binding_equal (stored_binding b) b"
        using stored_binding_equal [OF size(1), of b] written(1) size(1)
        by (simp add: binding_valid_def binding_sized_def binding_equal_def)
      then have mism: "\<forall>n < 2. \<forall>x. content hmac p d2 n = Some x \<longrightarrow> binding_equal (ss_binding x) b"
        using ci j(1) mis ij by (auto simp: less_2_cases_iff new_def)
      have grec: "receipt_generation receipt = ?g"
        using decode_generation [OF dec(1)] by simp
      have rec: "receipt_generation c \<le> ?g" if "receipt_of p d2 n = Some c" "n < 2" for n c
      proof (cases "n = i")
        case True
        with that rd(2) grec show ?thesis by simp
      next
        case False
        with that ij j(2) have "receipt_of p d j = Some c" by (auto simp: less_2_cases_iff)
        from old_receipt [OF this i2(2)] show ?thesis by simp
      qed
      have "state_generation x \<noteq> state_generation y"
        if "content hmac p d2 0 = Some x" "content hmac p d2 1 = Some y" for x y
      proof -
        have "x = new \<and> content hmac p d j = Some y \<or> y = new \<and> content hmac p d j = Some x"
          using ij
        proof
          assume "i = 0 \<and> j = 1"
          with that ci j(1) show ?thesis by simp
        next
          assume "i = 1 \<and> j = 0"
          with that ci j(1) show ?thesis by simp
        qed
        with older [OF _ i2(2)] gnew show ?thesis by (metis order_less_irrefl)
      qed
      then have "kept hmac p b d2"
        using kept frame mism ij new_sel rec gnew unfolding kept_def by auto
      with new_sel sel older [of j] i2 gnew show ?thesis by auto
    next
      case False
      with written(10) have q: "q \<noteq> Accept" by blast
      show ?thesis
      proof (cases "slot_entries d2 i = slot_entries d i")
        case True
        then have "slot_entries d2 n = slot_entries d n" if "n < 2" for n
          using written(8) that by (cases "n = i") auto
        with same q show ?thesis by blast
      next
        case changed: False
        with False written(9) have e: "fd_entries d2 (secret_names ! i) = Some ?sec"
          "fd_entries d2 (receipt_names ! i) = fd_entries d (receipt_names ! i)"
          by (auto simp: slot_entries_def)
        then have ri: "receipt_of p d2 i = receipt_of p d i" by (simp add: receipt_of_def stored_file_def)
        have rd: "stored_file p d2 (secret_names ! i) SECRET_SIZE = Some (secret_bytes ?g k)"
          using read_written [OF written(3) own _ e(1)] secret_parts(1) [OF size(3)] by simp
        have ci: "content hmac p d2 i = None"
        proof (cases "receipt_of p d i")
          case None
          then show ?thesis using ri
            by (simp add: content_def receipt_of_def)
        next
          case (Some c)
          from old_receipt [OF this i2(1)] have "receipt_generation c \<noteq> ?g" by simp
          from mixed_content [OF size(3) this] rd Some ri show ?thesis
            by (simp add: content_def receipt_of_def)
        qed
        have new_sel: "selected hmac p d2 = selected hmac p d"
          using select_pair(1) [OF ij ci] j(1) sel by simp
        have mism: "\<forall>n < 2. \<forall>x. content hmac p d2 n = Some x \<longrightarrow> binding_equal (ss_binding x) b"
          using ci j(1) mis ij by (auto simp: less_2_cases_iff)
        have "receipt_of p d2 n = receipt_of p d n" if "n < 2" for n
          using that ij j(2) ri by (auto simp: less_2_cases_iff)
        then have "kept hmac p b d2"
          using kept frame mism ij new_sel ci unfolding kept_def by auto
        with new_sel q show ?thesis by blast
      qed
    qed
  qed
qed

section \<open>The life of the directory\<close>

definition empty_folder :: "self_policy \<Rightarrow> folder \<Rightarrow> bool" where
  "empty_folder p d \<longleftrightarrow> fd_entries d = (\<lambda>name. None) \<and> fd_possible d = (\<lambda>name. [None]) \<and>
     fd_uid d = po_owner_uid p \<and> fd_gid d = po_owner_gid p \<and> fd_mode d AND 0xfff = po_directory_mode p"

text \<open>
  Writes for one device, each interrupted anywhere, by a process that is the owner and can read
  the current state; any other system call may fail.
\<close>

inductive later :: "hmac \<Rightarrow> self_policy \<Rightarrow> self_binding \<Rightarrow> folder \<Rightarrow> folder \<Rightarrow> bool"
  for hmac p b d where
  later_now: "later hmac p b d d"
| later_write: "later hmac p b d e \<Longrightarrow> record_sized r \<Longrightarrow> length k = PSK_LENGTH \<Longrightarrow>
    se_uid env = po_owner_uid p \<Longrightarrow> se_gid env = po_owner_gid p \<Longrightarrow> newest_readable hmac p env e \<Longrightarrow>
    write_state hmac env (Some b) (Some r) (Some k) (Some p) (Some e) = (q, Some f) \<Longrightarrow>
    crash_image f g \<Longrightarrow> later hmac p b d g"

text \<open>What a load whose own calls succeed finds.\<close>

definition loads_ok :: "storage \<Rightarrow> bool" where
  "loads_ok env \<longleftrightarrow> se_ok env Call_Open_Directory \<and> se_ok env Call_Stat_Directory \<and> (\<forall>i < 2. slot_readable env i)"

definition loaded :: "hmac \<Rightarrow> storage \<Rightarrow> self_binding \<Rightarrow> self_policy \<Rightarrow> folder \<Rightarrow> self_state option" where
  "loaded hmac env b p d =
     (case self_state_load hmac env (Some b) (Some p) (Some d) of LOAD_VALID x \<Rightarrow> Some x | _ \<Rightarrow> None)"

lemma empty_kept:
  assumes "empty_folder p d"
  shows "kept hmac p b d" "selected hmac p d = None"
proof -
  have "content hmac p d i = None" "receipt_of p d i = None" for i
    using assms by (simp_all add: empty_folder_def content_def receipt_of_def stored_file_def)
  then show "kept hmac p b d" "selected hmac p d = None"
    using assms by (simp_all add: kept_def empty_folder_def settled_def selected_def select_slot_def)
qed

lemma later_kept:
  assumes "later hmac p b d e" "kept hmac p b d" "hmac_sized hmac" "binding_sized b"
  shows "kept hmac p b e" "selected hmac p d = Some x \<Longrightarrow>
    \<exists>y. selected hmac p e = Some y \<and> (y = x \<or> state_generation x < state_generation y)"
proof -
  have "kept hmac p b e \<and> (\<forall>x. selected hmac p d = Some x \<longrightarrow>
    (\<exists>y. selected hmac p e = Some y \<and> (y = x \<or> state_generation x < state_generation y)))"
    using assms
  proof (induction rule: later.induct)
    case (later_write e r k env q f g)
    then have ih: "kept hmac p b e" "\<forall>x. selected hmac p d = Some x \<longrightarrow>
        (\<exists>y. selected hmac p e = Some y \<and> (y = x \<or> state_generation x < state_generation y))" by blast+
    from kept_write [OF ih(1) later_write.prems(3) later_write.hyps(2,3) later_write.prems(2)
        later_write.hyps(4,5,6,7,8)] ih(2)
    show ?case by (auto dest: less_trans)
  qed simp
  then show "kept hmac p b e" "selected hmac p d = Some x \<Longrightarrow>
    \<exists>y. selected hmac p e = Some y \<and> (y = x \<or> state_generation x < state_generation y)" by blast+
qed

lemma loaded_selected:
  assumes "fd_uid d = po_owner_uid p" "fd_gid d = po_owner_gid p" "fd_mode d AND 0xfff = po_directory_mode p"
    and "\<And>i x. i < 2 \<Longrightarrow> content hmac p d i = Some x \<Longrightarrow> binding_equal (ss_binding x) b"
    and "binding_valid (Some b)" "policy_valid (Some p)" "loads_ok env"
  shows "loaded hmac env b p d = selected hmac p d"
proof -
  have "open_directory env p True (Some d) = Open_Folder d"
    using assms(1-3,7) by (simp add: open_directory_def loads_ok_def)
  moreover have c: "sl_content (load_slot hmac env p d i) = content hmac p d i" if "i < 2" for i
    using assms(7) that by (simp add: load_slot_content loads_ok_def)
  moreover have "\<not> slot_mismatch b (load_slot hmac env p d i)" if "i < 2" for i
    using assms(4) c [OF that] that by (simp add: slot_mismatch_def split: option.split)
  moreover have "select_slot (load_slot hmac env p d 0) (load_slot hmac env p d 1) = selected hmac p d"
    using c by (simp add: select_slot_def selected_def)
  ultimately show ?thesis
    using assms(5,6) by (simp add: loaded_def self_state_load_def Let_def split: option.split)
qed

lemma kept_loaded:
  assumes "kept hmac p b d" "binding_valid (Some b)" "policy_valid (Some p)" "loads_ok env"
  shows "loaded hmac env b p d = selected hmac p d"
  by (rule loaded_selected) (use assms in \<open>auto simp: kept_def\<close>)




lemma rejected_component:
  assumes "later hmac p b d0 d" "empty_folder p d0" "hmac_sized hmac" "binding_sized b"
  shows "kept hmac p b d" "settled d"
  using later_kept(1) [OF assms(1) empty_kept(1) [OF assms(2)] assms(3,4)] by (simp_all add: kept_def)


section \<open>Properties\<close>

text \<open>
  Claim C25. Round trip: the receipt of a valid record for a valid binding has the fixed size,
  decodes under the same secret to the binding and the record it was made from (with the
  application name cleared after its end and the source digest that is not marked cleared),
  and together with its secret file it makes a valid slot for an equal binding.
\<close>

theorem receipt_roundtrip:
  assumes "hmac_sized hmac" "binding_sized b" "record_sized r" "length k = PSK_LENGTH"
    and "binding_valid (Some b)" "record_valid (Some r)" "encode_receipt hmac b r k = Some receipt"
  shows "length receipt = RECEIPT_SIZE \<and>
    decode_receipt hmac receipt k = Some (stored_binding b, stored_record r) \<and>
    slot_content hmac (Some (secret_bytes (sr_generation r) k)) (Some receipt) =
      Some \<lparr>ss_binding = stored_binding b, ss_record = stored_record r, ss_psk = k\<rparr> \<and>
    binding_equal (stored_binding b) b"
proof -
  note dec = decode_encode [OF assms(2,3,5,6,7,1)]
  have "binding_equal (stored_binding b) b"
    using stored_binding_equal [OF assms(2), of b] assms(2,5)
    by (simp add: binding_valid_def binding_sized_def binding_equal_def)
  with dec new_content [OF assms(4) dec(1)] show ?thesis by simp
qed




section \<open>Writes on working storage\<close>

definition plain_entries :: "folder \<Rightarrow> bool" where
  "plain_entries d \<longleftrightarrow> (\<forall>n f. fd_entries d n = Some f \<longrightarrow> fl_kind f \<noteq> Directory_File)"

lemma component_accepts:
  assumes "\<And>c. se_ok env c" "plain_entries d"
  shows "\<exists>e. write_component env p temp name contents d = (Accept, e) \<and> plain_entries e"
  using assms
  by (auto simp: write_component_def Let_def plain_entries_def new_file_def map_option_case split: option.splits)

lemma working_reads:
  assumes "\<And>c. se_ok env c"
  shows "slot_readable env i" "loads_ok env" "newest_readable hmac p env d"
    "sl_content (load_slot hmac env p d i) = content hmac p d i"
  using assms by (simp_all add: slot_readable_def readable_def loads_ok_def newest_readable_def load_slot_content)

lemma write_accepts:
  assumes "kept hmac p b d" "\<And>c. se_ok env c" "plain_entries d"
    and "binding_valid (Some b)" "record_valid (Some r)" "policy_valid (Some p)"
    and "encode_receipt hmac b r k = Some receipt"
    and "choose_slot (load_slot hmac env p d 0) (load_slot hmac env p d 1) = Inr target"
    and "\<not> slot_not_older (sr_generation r) (load_slot hmac env p d 0)"
    and "\<not> slot_not_older (sr_generation r) (load_slot hmac env p d 1)"
  shows "\<exists>d1. write_state hmac env (Some b) (Some r) (Some k) (Some p) (Some d) = (Accept, Some d1) \<and>
    crash_image d1 d1 \<and> plain_entries d1"
proof -
  obtain e where w1: "write_component env p (secret_temps ! target) (secret_names ! target)
      (secret_bytes (sr_generation r) k) d = (Accept, e)" "plain_entries e"
    using component_accepts [OF assms(2,3)] by blast
  obtain d1 where w2: "write_component env p (receipt_temps ! target) (receipt_names ! target) receipt e = (Accept, d1)"
    "plain_entries d1"
    using component_accepts [OF assms(2) w1(2)] by blast
  have ne: "secret_temps ! target \<noteq> secret_names ! target" "receipt_temps ! target \<noteq> receipt_names ! target"
    using choose_slot_index [OF assms(8)] by (auto simp: names_defs)
  have "settled d1"
    using component_settled [OF component_settled [OF _ w1(1) ne(1)] w2(1) ne(2)] assms(1) by (simp add: kept_def)
  then have "crash_image d1 d1"
    unfolding crash_image_def settled_def
    by (auto split: option.split) (metis option.exhaust survives.simps)
  moreover have "write_state hmac env (Some b) (Some r) (Some k) (Some p) (Some d) = (Accept, Some d1)"
  proof -
    have "\<not> slot_mismatch b (load_slot hmac env p d i)" if "i < 2" for i
      using assms(1) that working_reads(4) [OF assms(2)] by (simp add: slot_mismatch_def kept_def split: option.split)
    then have "\<not> slot_mismatch b (load_slot hmac env p d 0)" "\<not> slot_mismatch b (load_slot hmac env p d 1)" by simp_all
    with assms(1,2,4-10) w1(1) w2(1) show ?thesis
      by (simp add: write_state_def open_directory_def kept_def Let_def)
  qed
  ultimately show ?thesis using w2(2) by blast
qed

text \<open>A device paired once, promoted, and a checksum in the place of the HMAC.\<close>

definition sum_hmac :: hmac where
  "sum_hmac k m = Some (replicate DIGEST_LENGTH (foldl (+) 0 (k @ m)))"

definition owner :: self_policy where
  "owner = self_state_policy_for_owner 0 0"

definition target_5125 :: self_binding where
  "target_5125 = \<lparr>sb_vid = 0x27c6, sb_pid = 0x5125, sb_chip_profile = 0x2504,
     sb_app = [0x41, 0x50, 0x50, 0x31, 0x32, 0x35, 0x30, 0x39] @ replicate 24 0,
     sb_otp_sha256 = replicate 32 1, sb_config90_sha256 = replicate 32 2\<rparr>"

definition first_record :: self_record where
  "first_record = \<lparr>sr_phase = PHASE_PREPARED, sr_generation = 1, sr_expected_validator = replicate 32 3,
     sr_prior_present = False, sr_prior_validator = replicate 32 0, sr_fdt_present = False,
     sr_fdt_table = replicate 12 0, sr_migrated_legacy = False, sr_legacy_source_sha256 = replicate 32 0,
     sr_bb_present = False, sr_bb_sha256 = replicate 32 0, sr_e0_attempted = False, sr_terminal_proof = False\<rparr>"

definition first_psk :: bytes where
  "first_psk = replicate 32 7"

definition fresh_folder :: folder where
  "fresh_folder = \<lparr>fd_entries = (\<lambda>name. None), fd_possible = (\<lambda>name. [None]), fd_uid = 0, fd_gid = 0,
     fd_mode = 0x1c0\<rparr>"

definition working :: storage where
  "working = \<lparr>se_ok = (\<lambda>c. True), se_written = (\<lambda>n. 0), se_uid = 0, se_gid = 0, se_umask = 0x3f\<rparr>"

definition first_state :: self_state where
  "first_state = \<lparr>ss_binding = stored_binding target_5125, ss_record = stored_record first_record, ss_psk = first_psk\<rparr>"

lemma pairing_facts:
  "hmac_sized sum_hmac" "binding_sized target_5125" "record_sized first_record" "length first_psk = PSK_LENGTH"
  "binding_valid (Some target_5125)" "record_valid (Some first_record)" "policy_valid (Some owner)"
  "empty_folder owner fresh_folder" "se_ok working c" "se_uid working = po_owner_uid owner"
  "se_gid working = po_owner_gid owner" "plain_entries fresh_folder"
  "loads_ok working" "newest_readable hmac p working d"
  by (simp_all add: hmac_sized_def sum_hmac_def binding_sized_def target_5125_def record_sized_def first_record_def
      first_psk_def binding_valid_def c_strlen_def record_valid_def policy_valid_def owner_def
      self_state_policy_for_owner_def empty_folder_def fresh_folder_def working_def plain_entries_def
      loads_ok_def slot_readable_def readable_def newest_readable_def)

lemma sum_encodes: "\<exists>receipt. encode_receipt sum_hmac b r k = Some receipt"
  by (simp add: encode_receipt_def sum_hmac_def Let_def)

lemma first_write:
  "\<exists>d1. write_state sum_hmac working (Some target_5125) (Some first_record) (Some first_psk) (Some owner)
     (Some fresh_folder) = (Accept, Some d1) \<and> crash_image d1 d1 \<and> plain_entries d1"
proof -
  have none: "load_slot sum_hmac working owner fresh_folder i = \<lparr>sl_final = False, sl_temp = False, sl_content = None\<rparr>" for i
    by (simp add: load_slot_def artifact_exists_def slot_content_def read_exact_file_def fresh_folder_def)
  obtain receipt where "encode_receipt sum_hmac target_5125 first_record first_psk = Some receipt"
    using sum_encodes by blast
  from write_accepts [OF empty_kept(1) [OF pairing_facts(8)] pairing_facts(9,12,5,6,7) this]
  show ?thesis by (simp add: none choose_slot_def slot_not_older_def)
qed

definition paired :: folder where
  "paired = the (snd (write_state sum_hmac working (Some target_5125) (Some first_record) (Some first_psk)
     (Some owner) (Some fresh_folder)))"

lemma paired_written:
  "write_state sum_hmac working (Some target_5125) (Some first_record) (Some first_psk) (Some owner)
     (Some fresh_folder) = (Accept, Some paired)" "crash_image paired paired" "plain_entries paired"
  using first_write by (auto simp: paired_def)

lemma paired_later: "later sum_hmac owner target_5125 fresh_folder paired"
  by (rule later_write [OF later_now pairing_facts(3,4,10,11,14) paired_written(1,2)])

lemma paired_loaded: "loaded sum_hmac working target_5125 owner paired = Some first_state"
proof -
  have "kept sum_hmac owner target_5125 fresh_folder" by (rule empty_kept(1) [OF pairing_facts(8)])
  from kept_write [OF this pairing_facts(2,3,4,1,10,11,14) paired_written(1,2)] kept_loaded [OF _ pairing_facts(5,7,13)]
  show ?thesis by (simp add: first_state_def)
qed

lemma receipt_roundtrip_witness:
  "decode_receipt sum_hmac (the (encode_receipt sum_hmac target_5125 first_record first_psk)) first_psk =
     Some (stored_binding target_5125, stored_record first_record)"
  using receipt_roundtrip [OF pairing_facts(1-6)] sum_encodes [of target_5125 first_record first_psk] by auto


lemma newer_write_ready:
  assumes "selected hmac p d = Some x" "state_generation x < g" "\<And>c. se_ok env c"
  shows "\<exists>target. choose_slot (load_slot hmac env p d 0) (load_slot hmac env p d 1) = Inr target"
    "\<not> slot_not_older g (load_slot hmac env p d 0)" "\<not> slot_not_older g (load_slot hmac env p d 1)"
proof -
  note r = working_reads(4) [OF assms(3)]
  obtain i where "i < 2" "content hmac p d i = Some x" using selected_at [OF assms(1)] by blast
  then show "\<exists>target. choose_slot (load_slot hmac env p d 0) (load_slot hmac env p d 1) = Inr target"
    using r by (auto simp: choose_slot_def less_2_cases_iff split: option.split)
  have "state_generation y < g" if "content hmac p d n = Some y" "n < 2" for n y
    using selected_max [OF that] assms(1,2) by auto
  then have "\<not> slot_not_older g (load_slot hmac env p d n)" if "n < 2" for n
    using that r by (auto simp: slot_not_older_def not_le split: option.split)
  then show "\<not> slot_not_older g (load_slot hmac env p d 0)" "\<not> slot_not_older g (load_slot hmac env p d 1)" by simp_all
qed

definition promoted_record :: self_record where
  "promoted_record = (stored_record first_record)\<lparr>sr_phase := PHASE_ACTIVE, sr_generation := 2, sr_terminal_proof := True\<rparr>"

lemma paired_selected: "kept sum_hmac owner target_5125 paired" "selected sum_hmac owner paired = Some first_state"
proof -
  show kept: "kept sum_hmac owner target_5125 paired"
    by (rule rejected_component(1) [OF paired_later pairing_facts(8,1,2)])
  show "selected sum_hmac owner paired = Some first_state"
    using paired_loaded kept_loaded [OF kept pairing_facts(5,7,13)] by simp
qed




section \<open>When the current state cannot be read\<close>

text \<open>
  The condition on the reads is necessary. When reading the newer of two valid slots fails, the
  code takes that slot for an invalid one and writes to it; if the write then stops between its
  two files, the current state is lost and the older one loads.
\<close>

lemma second_write:
  obtains e i where "later sum_hmac owner target_5125 fresh_folder e" "i < 2" "plain_entries e"
    "content sum_hmac owner e (1 - i) = Some first_state"
    "content sum_hmac owner e i = Some \<lparr>ss_binding = stored_binding target_5125,
       ss_record = stored_record promoted_record, ss_psk = first_psk\<rparr>"
proof -
  have size: "record_sized promoted_record" by (simp add: promoted_record_def stored_record_def record_sized_def first_record_def)
  obtain receipt where rc: "encode_receipt sum_hmac target_5125 promoted_record first_psk = Some receipt"
    using sum_encodes by blast
  have facts: "record_valid (Some promoted_record)" "state_generation first_state < sr_generation promoted_record"
    by (simp_all add: record_valid_def promoted_record_def stored_record_def first_record_def first_state_def)
  obtain target where t: "choose_slot (load_slot sum_hmac working owner paired 0) (load_slot sum_hmac working owner paired 1) = Inr target"
    using newer_write_ready(1) [OF paired_selected(2) facts(2), of working] pairing_facts(9) by blast
  obtain e where e: "write_state sum_hmac working (Some target_5125) (Some promoted_record)
      (Some first_psk) (Some owner) (Some paired) = (Accept, Some e)" "crash_image e e" "plain_entries e"
    using write_accepts [OF paired_selected(1) pairing_facts(9) paired_written(3) pairing_facts(5) facts(1) pairing_facts(7) rc t]
      newer_write_ready(2,3) [OF paired_selected(2) facts(2), of working] pairing_facts(9) by blast
  have "later sum_hmac owner target_5125 fresh_folder e"
    by (rule later_write [OF paired_later size pairing_facts(4,10,11,14) e(1,2)])
  let ?new = "\<lparr>ss_binding = stored_binding target_5125, ss_record = stored_record promoted_record, ss_psk = first_psk\<rparr>"
  have sel: "selected sum_hmac owner e = Some ?new"
    using kept_write [OF paired_selected(1) pairing_facts(2) size pairing_facts(4,1,10,11,14) e(1,2)] by simp
  have d: "settled paired" using paired_selected(1) by (simp add: kept_def)
  from write_cases [OF e(1) d e(2)] t
  have other: "\<forall>n < 2. n \<noteq> target \<longrightarrow> slot_entries e n = slot_entries paired n" by auto
  have ts: "target = 0 \<and> selected sum_hmac owner paired = content sum_hmac owner paired 1 \<or>
      target = 1 \<and> selected sum_hmac owner paired = content sum_hmac owner paired 0"
    by (rule written_slot [OF t pairing_facts(14)]) (use paired_selected(1) in \<open>auto simp: kept_def\<close>)
  then have "content sum_hmac owner paired (1 - target) = Some first_state" "target < 2" "1 - target < 2" "1 - target \<noteq> target"
    using paired_selected(2) by auto
  moreover from this have old: "content sum_hmac owner e (1 - target) = Some first_state"
    using content_cong(1) [of e "1 - target" paired sum_hmac owner] other by simp
  moreover obtain n where "n < 2" "content sum_hmac owner e n = Some ?new"
    using selected_at [OF sel] by blast
  moreover have "first_state \<noteq> ?new" by (simp add: first_state_def promoted_record_def stored_record_def first_record_def)
  ultimately have "content sum_hmac owner e target = Some ?new"
    using ts by (cases "n = target") (auto simp: less_2_cases_iff)
  then show thesis using that \<open>later sum_hmac owner target_5125 fresh_folder e\<close> \<open>target < 2\<close> e(3) old by blast
qed

definition blind :: "nat \<Rightarrow> storage" where
  "blind i = working\<lparr>se_ok := (\<lambda>c. c \<noteq> Call_Read (secret_names ! i) \<and> c \<noteq> Call_Create (receipt_temps ! i))\<rparr>"

definition third_record :: self_record where
  "third_record = promoted_record\<lparr>sr_generation := 3\<rparr>"

lemma blind_slots:
  assumes "i < 2"
  shows "\<not> slot_readable (blind i) i" "slot_readable (blind i) (1 - i)" "se_ok (blind i) Call_Open_Directory"
    "se_ok (blind i) Call_Stat_Directory" "\<not> se_ok (blind i) (Call_Create (receipt_temps ! i))"
    "se_uid (blind i) = po_owner_uid owner" "se_gid (blind i) = po_owner_gid owner"
  using assms pairing_facts(10,11) by (auto simp: blind_def slot_readable_def readable_def names_defs less_2_cases_iff working_def)

lemma blind_secret:
  assumes "i < 2" "plain_entries d"
  shows "\<exists>d1. write_component (blind i) p (secret_temps ! i) (secret_names ! i) contents d = (Accept, d1)"
  using assms
  by (auto simp: write_component_def Let_def plain_entries_def new_file_def map_option_case blind_def working_def names_defs
      less_2_cases_iff split: option.splits)

lemma blind_receipt:
  assumes "i < 2" "settled d" "write_component (blind i) p (receipt_temps ! i) (receipt_names ! i) contents d = (q, d1)"
  shows "q \<noteq> Accept \<and> fd_entries d1 (secret_names ! n) = fd_entries d (secret_names ! n) \<and>
    fd_entries d1 (receipt_names ! n) = fd_entries d (receipt_names ! n) \<or> \<not> n < 2"
    "crash_image d1 (sync_folder d1)"
proof -
  have "d1 = d \<or> d1 = set_entry (receipt_temps ! i) None d"
    using assms(3) blind_slots(5) [OF assms(1)] by (auto simp: write_component_def Let_def split: if_split_asm)
  moreover have "crash_image d (sync_folder d)" "crash_image (set_entry t None d) (sync_folder (set_entry t None d))" for t
    using assms(2) by (auto simp: crash_image_def settled_def) (metis not_None_eq survives.simps)+
  ultimately show "crash_image d1 (sync_folder d1)" by auto
  show "q \<noteq> Accept \<and> fd_entries d1 (secret_names ! n) = fd_entries d (secret_names ! n) \<and>
    fd_entries d1 (receipt_names ! n) = fd_entries d (receipt_names ! n) \<or> \<not> n < 2"
    using assms(1,3) blind_slots(5) [OF assms(1)]
    by (auto simp: write_component_def Let_def names_defs less_2_cases_iff split: if_split_asm)
qed

theorem unread_state_lost:
  "\<exists>e env q d1 d2. later sum_hmac owner target_5125 fresh_folder e \<and> se_uid env = po_owner_uid owner \<and>
     map_option (\<lambda>x. state_generation x) (loaded sum_hmac working target_5125 owner e) = Some 2 \<and>
     write_state sum_hmac env (Some target_5125) (Some third_record) (Some first_psk) (Some owner) (Some e) = (q, Some d1) \<and>
     crash_image d1 d2 \<and> loaded sum_hmac working target_5125 owner d2 = Some first_state"
proof -
  obtain e i where e: "later sum_hmac owner target_5125 fresh_folder e" "i < 2" "plain_entries e"
    "content sum_hmac owner e (1 - i) = Some first_state"
    "content sum_hmac owner e i = Some \<lparr>ss_binding = stored_binding target_5125,
       ss_record = stored_record promoted_record, ss_psk = first_psk\<rparr>"
    by (rule second_write)
  note kept = rejected_component [OF e(1) pairing_facts(8,1,2)] and b = blind_slots [OF e(2)]
  define j where "j = 1 - i"
  have ij: "i = 0 \<and> j = 1 \<or> i = 1 \<and> j = 0" using e(2) by (auto simp: j_def)
  have gens: "state_generation first_state = 1" "sr_generation promoted_record = 2" "sr_generation third_record = 3"
    by (simp_all add: first_state_def stored_record_def first_record_def promoted_record_def third_record_def)
  have slots: "sl_content (load_slot sum_hmac (blind i) owner e i) = None"
    "sl_content (load_slot sum_hmac (blind i) owner e j) = Some first_state"
    using b(1,2) e(4) by (simp_all add: load_slot_content j_def)
  have eq: "binding_equal (ss_binding first_state) target_5125"
  proof -
    have "1 - i < 2" using e(2) by simp
    with kept(1) e(4) show ?thesis unfolding kept_def by blast
  qed
  have lt: "\<not> (3 :: u64) \<le> 1" by (simp add: word_le_nat_alt)
  have choice: "choose_slot (load_slot sum_hmac (blind i) owner e 0) (load_slot sum_hmac (blind i) owner e 1) = Inr i"
    "\<not> slot_mismatch target_5125 (load_slot sum_hmac (blind i) owner e n)" "\<not> slot_not_older 3 (load_slot sum_hmac (blind i) owner e n)"
    if "n < 2" for n
    using ij slots eq gens(1) lt that by (auto simp: choose_slot_def slot_mismatch_def slot_not_older_def less_2_cases_iff)
  obtain receipt where rc: "encode_receipt sum_hmac target_5125 third_record first_psk = Some receipt"
    using sum_encodes by blast
  obtain d0 where w1: "write_component (blind i) owner (secret_temps ! i) (secret_names ! i) (secret_bytes 3 first_psk) e = (Accept, d0)"
    using blind_secret [OF e(2,3)] by blast
  obtain q d1 where w2: "write_component (blind i) owner (receipt_temps ! i) (receipt_names ! i) receipt d0 = (q, d1)"
    by (metis surj_pair)
  have ne: "secret_temps ! i \<noteq> secret_names ! i" using ij by (auto simp: names_defs)
  have d0: "settled d0" by (rule component_settled [OF kept(2) w1 ne refl])
  note r = blind_receipt [OF e(2) d0 w2]
  have "record_valid (Some third_record)"
    by (simp add: record_valid_def third_record_def promoted_record_def stored_record_def first_record_def)
  then have w: "write_state sum_hmac (blind i) (Some target_5125) (Some third_record) (Some first_psk) (Some owner) (Some e) = (q, Some d1)"
    using pairing_facts(5,7) b(3,4) kept(1) choice [of 0] choice [of 1] rc w1 w2 gens(3)
    by (simp add: write_state_def open_directory_def kept_def Let_def)
  let ?d2 = "sync_folder d1"
  have sec: "fd_entries ?d2 (secret_names ! i) = Some (written_file (blind i) owner (secret_bytes 3 first_psk))"
    using component_final(2) [OF w1 ne refl] r(1) [of i] e(2) by simp
  have same: "slot_entries ?d2 j = slot_entries e j" "fd_entries ?d2 (receipt_names ! i) = fd_entries e (receipt_names ! i)"
    using ij r(1) [of i] r(1) [of j] component_frame(4) [OF w1] by (auto simp: slot_entries_def names_defs)
  have cj: "content sum_hmac owner ?d2 j = Some first_state" using content_cong(1) [OF same(1)] e(4) by (simp add: j_def)
  have ci: "content sum_hmac owner ?d2 i = None"
  proof -
    obtain c where c: "receipt_of owner e i = Some c" "receipt_generation c = 2"
      using content_receipt [OF e(5)] gens(2) by auto
    have "stored_file owner ?d2 (secret_names ! i) SECRET_SIZE = Some (secret_bytes 3 first_psk)"
      by (rule read_written [OF pairing_facts(7) b(6,7) _ sec]) (simp add: secret_parts(1) [OF pairing_facts(4)])
    moreover have "stored_file owner ?d2 (receipt_names ! i) RECEIPT_SIZE = Some c"
      using c(1) same(2) by (simp add: receipt_of_def stored_file_def)
    ultimately show ?thesis
      using mixed_content [OF pairing_facts(4), of c 3 sum_hmac] c(2) by (simp add: content_def)
  qed
  have "loaded sum_hmac working target_5125 owner ?d2 = selected sum_hmac owner ?d2"
  proof (rule loaded_selected [OF _ _ _ _ pairing_facts(5,7,13)])
    show "fd_uid ?d2 = po_owner_uid owner" "fd_gid ?d2 = po_owner_gid owner" "fd_mode ?d2 AND 0xfff = po_directory_mode owner"
      using kept(1) component_frame(1-3) [OF w1] component_frame(1-3) [OF w2] by (simp_all add: kept_def)
    show "binding_equal (ss_binding x) target_5125" if "n < 2" "content sum_hmac owner ?d2 n = Some x" for n x
      using ij that ci cj eq by (auto simp: less_2_cases_iff)
  qed
  moreover have "selected sum_hmac owner ?d2 = Some first_state" using select_pair(1) [OF ij ci] cj by simp
  moreover have "loaded sum_hmac working target_5125 owner e = content sum_hmac owner e i"
    using kept_loaded [OF kept(1) pairing_facts(5,7,13)] select_pair(2) [OF ij e(5)] e(4,5) gens by (simp add: j_def)
  ultimately show ?thesis
    using e(1,5) w r(2) b(6) gens(2) by (intro exI [of _ e] exI [of _ "blind i"] exI [of _ q] exI [of _ d1] exI [of _ ?d2]) simp
qed

end
