(* ===== verification/Config90.thy ===== *)
theory Config90
  imports Prelude
begin

text \<open>
  The sensor configuration derived from the factory OTP (\<^verbatim>\<open>goodix_config90.c\<close>): group
  checksums over the 64 OTP bytes, the calibration values decoded from them, the template
  patched register by register, and the final halfword that makes the sum of all halfwords
  zero. The output and calibration pointers are always given.
\<close>

abbreviation CONFIG90_LENGTH :: nat where "CONFIG90_LENGTH \<equiv> 224"
abbreviation CONFIG90_OTP_LENGTH :: nat where "CONFIG90_OTP_LENGTH \<equiv> 64"

datatype config90_error =
    CONFIG90_ERROR_ARGUMENT | CONFIG90_ERROR_PROFILE | CONFIG90_ERROR_OTP | CONFIG90_ERROR_TEMPLATE

record calibration =
  cal_dac_registers :: "u16 list"
  cal_tcode :: u16
  cal_delta :: u8
  cal_fdt_offset :: u8

definition type12_template :: bytes where
  "type12_template = [
     0x70, 0x11, 0x74, 0x85, 0x00, 0x85, 0x2c, 0xb1, 0x18, 0xc9, 0x14, 0xdd, 0x00, 0xdd, 0x00, 0xdd,
     0x00, 0xba, 0x00, 0x01, 0x80, 0xca, 0x00, 0x04, 0x00, 0x84, 0x00, 0x15, 0xb3, 0x86, 0x00, 0x00,
     0xc4, 0x88, 0x00, 0x00, 0xba, 0x8a, 0x00, 0x00, 0xb2, 0x8c, 0x00, 0x00, 0xaa, 0x8e, 0x00, 0x00,
     0xc1, 0x90, 0x00, 0xbb, 0xbb, 0x92, 0x00, 0xb1, 0xb1, 0x94, 0x00, 0x00, 0xa8, 0x96, 0x00, 0x00,
     0xb6, 0x98, 0x00, 0x00, 0x00, 0x9a, 0x00, 0x00, 0x00, 0xd2, 0x00, 0x00, 0x00, 0xd4, 0x00, 0x00,
     0x00, 0xd6, 0x00, 0x00, 0x00, 0xd8, 0x00, 0x00, 0x00, 0x50, 0x00, 0x01, 0x05, 0xd0, 0x00, 0x00,
     0x00, 0x70, 0x00, 0x00, 0x00, 0x72, 0x00, 0x78, 0x56, 0x74, 0x00, 0x34, 0x12, 0x20, 0x00, 0x10,
     0x40, 0x5c, 0x00, 0x80, 0x01, 0x20, 0x02, 0x08, 0x08, 0x36, 0x02, 0x80, 0x00, 0x38, 0x02, 0x80,
     0x00, 0x3a, 0x02, 0x80, 0x00, 0x2a, 0x01, 0x82, 0x03, 0x22, 0x00, 0x01, 0x20, 0x24, 0x00, 0x14,
     0x00, 0x80, 0x00, 0x01, 0x00, 0x5c, 0x00, 0x00, 0x01, 0x56, 0x00, 0x04, 0x20, 0x58, 0x00, 0x03,
     0x02, 0x32, 0x00, 0x0c, 0x02, 0x66, 0x00, 0x03, 0x00, 0x7c, 0x00, 0x00, 0x58, 0x82, 0x00, 0x80,
     0x15, 0x2a, 0x01, 0x08, 0x00, 0x54, 0x00, 0x10, 0x01, 0x62, 0x00, 0x04, 0x03, 0x64, 0x00, 0x19,
     0x00, 0x66, 0x00, 0x03, 0x00, 0x7c, 0x00, 0x00, 0x58, 0x2a, 0x01, 0x08, 0x00, 0x52, 0x00, 0x08,
     0x00, 0x54, 0x00, 0x00, 0x01, 0x66, 0x00, 0x03, 0x00, 0x7c, 0x00, 0x00, 0x58, 0x00, 0x00, 0x00]"

section \<open>Checksums\<close>

definition otp_crc_bit :: "u8 \<Rightarrow> u8" where
  "otp_crc_bit crc = (let shifted = push_bit 1 (ucast crc :: u32) in
     ucast (if crc AND 0x80 \<noteq> 0 then shifted XOR 0x07 else shifted))"

definition otp_crc_step :: "u8 \<Rightarrow> u8 \<Rightarrow> u8" where
  "otp_crc_step crc b = (otp_crc_bit ^^ 8) (crc XOR b)"

definition otp_crc8 :: "bytes \<Rightarrow> u8" where
  "otp_crc8 d = NOT (foldl otp_crc_step 0 d)"

definition otp_range :: "bytes \<Rightarrow> nat \<Rightarrow> nat \<Rightarrow> bytes" where
  "otp_range otp i n = take n (drop i otp)"

definition validate_group_crcs :: "bytes \<Rightarrow> bool" where
  "validate_group_crcs otp \<longleftrightarrow>
     otp_crc8 (otp_range otp 0 11 @ otp_range otp 36 4) = otp ! 60 \<and>
     otp_crc8 (otp_range otp 11 9 @ [otp ! 28] @ otp_range otp 50 4 @ otp_range otp 56 4 @ [otp ! 62]) = otp ! 61 \<and>
     otp_crc8 (otp_range otp 20 8 @ otp_range otp 29 7 @ otp_range otp 40 10 @ otp_range otp 54 2) = otp ! 63"

section \<open>Patching the template\<close>

definition config_le16 :: "bytes \<Rightarrow> nat \<Rightarrow> u16" where
  "config_le16 config i = le16 (config ! i) (config ! (i + 1))"

text \<open>The loop over the register entries: the match so far, or a second match.\<close>

datatype search = No_Match | Match nat | Second_Match

primrec search_register :: "bytes \<Rightarrow> nat \<Rightarrow> u16 \<Rightarrow> nat list \<Rightarrow> search \<Rightarrow> search" where
  "search_register config offset reg [] found = found"
| "search_register config offset reg (i # is) found =
     (if config_le16 config (offset + i) = reg
      then (case found of
              No_Match \<Rightarrow> search_register config offset reg is (Match (offset + i + 2))
            | _ \<Rightarrow> Second_Match)
      else search_register config offset reg is found)"

definition patch_position :: "bytes \<Rightarrow> nat \<Rightarrow> u16 \<Rightarrow> nat option" where
  "patch_position config section_index reg =
     (if section_index > 7 then None
      else
        let offset = unat (config ! (2 * section_index + 1)); count = unat (config ! (2 * section_index + 2)) in
        if count = 0 \<or> count mod 4 \<noteq> 0 \<or> offset > CONFIG90_LENGTH \<or> count > CONFIG90_LENGTH - offset then None
        else case search_register config offset reg (map (\<lambda>i. 4 * i) [0..<count div 4]) No_Match of
            Match m \<Rightarrow> Some m
          | _ \<Rightarrow> None)"

definition patch_unique :: "bytes \<Rightarrow> nat \<Rightarrow> u16 \<Rightarrow> u16 \<Rightarrow> nat \<Rightarrow> bytes option" where
  "patch_unique config section_index reg v byte_mode =
     (case patch_position config section_index reg of
        None \<Rightarrow> None
      | Some m \<Rightarrow>
          let c1 = (if byte_mode = 0 \<or> byte_mode = 1 then config[m := lo8 v] else config)
          in Some (if byte_mode = 0 \<or> byte_mode = 2 then c1[m + 1 := hi8 v] else c1))"

definition halfword_sum :: "bytes \<Rightarrow> nat \<Rightarrow> u16" where
  "halfword_sum config n = foldl (\<lambda>s i. s + config_le16 config (2 * i)) 0xa5a5 [0..<n]"

definition fix_finalizer :: "bytes \<Rightarrow> bytes" where
  "fix_finalizer config = (let s = - halfword_sum config 111 in config[222 := lo8 s, 223 := hi8 s])"

section \<open>Calibration\<close>

definition decode_fdt_offset :: "u8 \<Rightarrow> u8 option" where
  "decode_fdt_offset encoded =
     (if encoded = 0 then Some 0
      else
        let low = encoded AND 3; high = drop_bit 4 encoded AND 3; inverted = drop_bit 2 (NOT encoded) AND 3 in
        if low = high \<or> low = inverted then Some low
        else if high = inverted then Some high
        else None)"

definition decode_tcode_diff :: "bytes \<Rightarrow> u8 option" where
  "decode_tcode_diff otp =
     (if otp ! 42 \<noteq> 0 \<and> otp ! 42 = NOT (otp ! 43) then Some (otp ! 42)
      else if otp ! 45 \<noteq> 0 \<and> otp ! 45 = NOT (otp ! 43) then Some (otp ! 45)
      else if otp ! 42 \<noteq> 0 \<and> otp ! 45 = otp ! 42 then Some (otp ! 42)
      else None)"

text \<open>The arithmetic is on 32-bit unsigned values, then narrowed.\<close>

definition tcode_of :: "u8 \<Rightarrow> u16" where
  "tcode_of diff = ucast (16 * ((drop_bit 4 (ucast diff) AND 0x0f) + 1) + 64 :: u32)"

definition delta_of :: "u8 \<Rightarrow> u16 \<Rightarrow> u8" where
  "delta_of diff tcode =
     ucast (drop_bit 4 (push_bit 8 (100 * ((ucast diff AND 0x0f) + 2) :: u32) div ucast tcode div 3))"

definition calibrate :: "bytes \<Rightarrow> calibration option" where
  "calibrate otp =
     (if otp ! 50 = 0 \<or> otp ! 51 = 0 \<or> otp ! 52 = 0 \<or> otp ! 53 = 0 \<or>
         otp_crc8 (otp_range otp 50 4) \<noteq> otp ! 62
      then None
      else case decode_tcode_diff otp of
          None \<Rightarrow> None
        | Some diff \<Rightarrow> case decode_fdt_offset (otp ! 27) of
            None \<Rightarrow> None
          | Some fdt \<Rightarrow> Some
              \<lparr>cal_dac_registers = [ucast (16 * ucast (otp ! 50) OR 8 :: u32), ucast (otp ! 51),
                 ucast (otp ! 52), ucast (otp ! 53)],
               cal_tcode = tcode_of diff, cal_delta = delta_of diff (tcode_of diff), cal_fdt_offset = fdt\<rparr>)"

definition patch_all :: "calibration \<Rightarrow> bytes \<Rightarrow> bytes option" where
  "patch_all cal c0 =
     Option.bind (patch_unique c0 0 0x0220 (cal_dac_registers cal ! 0) 0) (\<lambda>c1.
     Option.bind (patch_unique c1 0 0x0236 (cal_dac_registers cal ! 1) 0) (\<lambda>c2.
     Option.bind (patch_unique c2 0 0x0238 (cal_dac_registers cal ! 2) 0) (\<lambda>c3.
     Option.bind (patch_unique c3 0 0x023a (cal_dac_registers cal ! 3) 0) (\<lambda>c4.
     Option.bind (patch_unique c4 0 0x005c (cal_tcode cal) 0) (\<lambda>c5.
     Option.bind (patch_unique c5 2 0x0082 (push_bit 8 (ucast (cal_delta cal))) 2) (\<lambda>c6.
       if cal_fdt_offset cal \<noteq> 0 then patch_unique c6 2 0x0056 (ucast (cal_fdt_offset cal) + 4) 1
       else Some c6))))))"

definition calibration_zero :: calibration where
  "calibration_zero = \<lparr>cal_dac_registers = [0, 0, 0, 0], cal_tcode = 0, cal_delta = 0, cal_fdt_offset = 0\<rparr>"

definition config90_derive ::
    "u16 \<Rightarrow> bytes option \<Rightarrow> config90_error reply \<times> bytes \<times> calibration" where
  "config90_derive chip_id otp =
     (let refuse = (\<lambda>code. (Reject code, replicate CONFIG90_LENGTH 0, calibration_zero)) in
      case otp of
        None \<Rightarrow> refuse CONFIG90_ERROR_ARGUMENT
      | Some d \<Rightarrow>
          if chip_id \<noteq> 0x2503 \<and> chip_id \<noteq> 0x2504 then refuse CONFIG90_ERROR_PROFILE
          else if length d \<noteq> CONFIG90_OTP_LENGTH \<or> \<not> validate_group_crcs d then refuse CONFIG90_ERROR_OTP
          else case calibrate d of
              None \<Rightarrow> refuse CONFIG90_ERROR_OTP
            | Some cal \<Rightarrow> case patch_all cal type12_template of
                None \<Rightarrow> refuse CONFIG90_ERROR_TEMPLATE
              | Some candidate \<Rightarrow> (Accept, fix_finalizer candidate, cal))"

section \<open>The OTP checksum is a byte digest\<close>

lemma otp_crc_bits:
  "bit (otp_crc_bit c) n \<longleftrightarrow> n < 8 \<and> ((0 < n \<and> bit c (n - 1)) \<noteq> (bit c 7 \<and> bit (0x07 :: u8) n))"
proof -
  have "(0x80 :: u8) = push_bit 7 1" by simp
  then have top: "bit (0x80 :: u8) k \<longleftrightarrow> k = 7" for k
    by (simp only: bit_push_bit_iff bit_1_iff) auto
  have "c AND 0x80 = 0 \<longleftrightarrow> \<not> bit c 7"
  proof -
    have "bit (c AND 0x80) k \<longleftrightarrow> k = 7 \<and> bit c 7" for k
      unfolding bit_and_iff top by auto
    moreover have "c AND 0x80 = 0 \<longleftrightarrow> (\<forall>k. \<not> bit (c AND 0x80) k)"
      by (metis bit_0_eq bot_bool_def bot_fun_def bit_eqI)
    ultimately show ?thesis by simp
  qed
  moreover have narrow: "(ucast (w XOR 0x07 :: u32) :: u8) = ucast w XOR 0x07" for w
    by transfer (simp add: take_bit_xor)
  moreover have shift: "(ucast (push_bit 1 (ucast c :: u32)) :: u8) = push_bit 1 c"
    by (rule bit_word_eqI) (simp only: bit_unsigned_iff bit_push_bit_iff, auto dest: bit_imp_le_length)
  moreover have "bit (push_bit 1 c) n \<longleftrightarrow> n < 8 \<and> 0 < n \<and> bit c (n - 1)"
    by (simp only: bit_push_bit_iff) (auto dest: bit_imp_le_length simp: Suc_le_eq)
  moreover have "bit (0x07 :: u8) n \<Longrightarrow> n < 8"
    using bit_imp_le_length [of "0x07 :: u8" n] by simp
  ultimately show ?thesis
    unfolding otp_crc_bit_def Let_def by (simp only: bit_xor_iff split: if_split) blast
qed

lemma otp_crc_bit_inject:
  assumes "otp_crc_bit c = otp_crc_bit d"
  shows "c = d"
proof -
  have bits: "bit (otp_crc_bit c) n = bit (otp_crc_bit d) n" for n using assms by simp
  have top: "bit c 7 = bit d 7"
    using bits [of 0] unfolding otp_crc_bits by (simp add: bit_0)
  then have "bit c n = bit d n" if "n < 7" for n
    using bits [of "Suc n"] that unfolding otp_crc_bits by auto
  with top have "bit c n = bit d n" if "n < 8" for n
    using that by (cases "n = 7") simp_all
  then show ?thesis by (intro bit_word_eqI) simp
qed

lemma otp_crc_bits_inject: "(otp_crc_bit ^^ n) c = (otp_crc_bit ^^ n) d \<Longrightarrow> c = d"
  by (induction n) (auto dest: otp_crc_bit_inject)

interpretation otp_crc: byte_digest otp_crc_step
proof
  have cancel: "(x :: u8) XOR a = x XOR b \<Longrightarrow> a = b" for x a b
    by (metis xor.assoc xor_self_eq xor.left_neutral)
  show "d = d'" if "otp_crc_step d b = otp_crc_step d' b" for d d' b
    using that cancel unfolding otp_crc_step_def by (metis otp_crc_bits_inject xor.commute)
  show "b = b'" if "otp_crc_step d b = otp_crc_step d b'" for d b b'
    using that cancel unfolding otp_crc_step_def by (metis otp_crc_bits_inject)
qed

text \<open>The OTP bytes of each group, by index.\<close>

definition otp_group :: "nat \<Rightarrow> nat list" where
  "otp_group g = (if g = 0 then [0..<11] @ [36..<40]
     else if g = 1 then [11..<20] @ [28] @ [50..<54] @ [56..<60] @ [62]
     else [20..<28] @ [29..<36] @ [40..<50] @ [54..<56])"

definition group_checksum :: "nat \<Rightarrow> nat" where
  "group_checksum g = (if g = 0 then 60 else if g = 1 then 61 else 63)"

lemma otp_range_index: "i + n \<le> length d \<Longrightarrow> otp_range d i n = map ((!) d) [i..<i + n]"
  by (rule nth_equalityI) (auto simp: otp_range_def)

lemma validate_groups:
  assumes "length d = CONFIG90_OTP_LENGTH"
  shows "validate_group_crcs d \<longleftrightarrow>
    (\<forall>g < 3. otp_crc8 (map ((!) d) (otp_group g)) = d ! group_checksum g)"
proof -
  have three: "(\<forall>g < 3. P g) \<longleftrightarrow> P 0 \<and> P 1 \<and> P (2 :: nat)" for P
    by (auto simp: less_Suc_eq numeral_3_eq_3 numeral_2_eq_2)
  show ?thesis
    unfolding three using assms
    by (simp add: validate_group_crcs_def otp_group_def group_checksum_def otp_range_index)
qed

lemma every_byte_checked:
  assumes "i < CONFIG90_OTP_LENGTH"
  shows "\<exists>g < 3. i \<in> set (otp_group g) \<or> i = group_checksum g"
proof -
  have in_group: ?thesis if "i \<in> set (otp_group g) \<or> i = group_checksum g" "g < 3" for g
    using that by blast
  have "i \<in> set (otp_group 0) \<union> set (otp_group 1) \<union> set (otp_group 2) \<union> {60, 61, 63}"
    using assms by (simp add: otp_group_def) presburger
  then show ?thesis
  proof (elim UnE)
    assume "i \<in> {60, 61, 63}"
    then have "i = group_checksum 0 \<or> i = group_checksum 1 \<or> i = group_checksum 2"
      by (auto simp: group_checksum_def)
    then show ?thesis by (elim disjE) (rule in_group, erule disjI2, simp)+
  qed (auto intro: in_group)
qed

lemma otp_group_fields:
  assumes "g < 3"
  shows "distinct (otp_group g)" "\<forall>j \<in> set (otp_group g). j < CONFIG90_OTP_LENGTH"
    "\<forall>h < 3. group_checksum h \<notin> set (otp_group g)" "group_checksum g < CONFIG90_OTP_LENGTH"
proof -
  have g: "g = 0 \<or> g = 1 \<or> g = 2" using assms by auto
  show "distinct (otp_group g)" "\<forall>j \<in> set (otp_group g). j < CONFIG90_OTP_LENGTH"
    "\<forall>h < 3. group_checksum h \<notin> set (otp_group g)" "group_checksum g < CONFIG90_OTP_LENGTH"
    using g by (elim disjE, auto simp: otp_group_def group_checksum_def)+
qed

lemma map_nth_update:
  assumes "distinct xs" "k < length xs" "xs ! k < length d"
  shows "map ((!) (d[xs ! k := b])) xs = (map ((!) d) xs)[k := b]"
  using assms by (intro nth_equalityI) (auto simp: nth_list_update nth_eq_iff_index_eq)

lemma map_nth_untouched: "i \<notin> set xs \<Longrightarrow> map ((!) (d[i := b])) xs = map ((!) d) xs"
  by (auto intro!: nth_list_update_neq)

lemma byte_change_breaks_group:
  assumes d: "length d = CONFIG90_OTP_LENGTH" "validate_group_crcs d"
    and i: "i < CONFIG90_OTP_LENGTH" "b \<noteq> d ! i"
  shows "\<not> validate_group_crcs (d[i := b])"
proof -
  obtain g where g: "g < 3" "i \<in> set (otp_group g) \<or> i = group_checksum g"
    using every_byte_checked [OF i(1)] by blast
  have old: "otp_crc8 (map ((!) d) (otp_group g)) = d ! group_checksum g"
    using d g(1) by (simp add: validate_groups)
  have "otp_crc8 (map ((!) (d[i := b])) (otp_group g)) \<noteq> d[i := b] ! group_checksum g"
  proof (cases "i = group_checksum g")
    case True
    then have "i \<notin> set (otp_group g)" using otp_group_fields(3) [OF g(1)] g(1) by blast
    then show ?thesis using True old i d(1) by (simp add: map_nth_untouched)
  next
    case False
    with g obtain k where k: "k < length (otp_group g)" "otp_group g ! k = i"
      by (metis in_set_conv_nth)
    then have "map ((!) (d[i := b])) (otp_group g) = (map ((!) d) (otp_group g))[k := b]"
      using map_nth_update [OF otp_group_fields(1) [OF g(1)] k(1), of d b] i(1) d(1) by simp
    moreover have "otp_crc8 ((map ((!) d) (otp_group g))[k := b]) \<noteq> otp_crc8 (map ((!) d) (otp_group g))"
    proof
      assume "otp_crc8 ((map ((!) d) (otp_group g))[k := b]) = otp_crc8 (map ((!) d) (otp_group g))"
      then have same: "foldl otp_crc_step 0 ((map ((!) d) (otp_group g))[k := b]) =
          foldl otp_crc_step 0 (map ((!) d) (otp_group g))"
        by (simp add: otp_crc8_def)
      have "(map ((!) d) (otp_group g))[k := b] = map ((!) d) (otp_group g)"
        by (rule otp_crc.update_visible [OF _ same]) (use k in simp)
      then have "(map ((!) d) (otp_group g))[k := b] ! k = map ((!) d) (otp_group g) ! k" by (rule arg_cong)
      with k i(2) show False by simp
    qed
    ultimately show ?thesis using False old by simp
  qed
  with g(1) d(1) show ?thesis by (simp only: validate_groups length_list_update) blast
qed

section \<open>The patched template\<close>

lemma patch_uniqueI:
  "patch_position config section_index reg = Some m \<Longrightarrow>
   patch_unique config section_index reg v 0 = Some (config[m := lo8 v, m + 1 := hi8 v]) \<and>
   patch_unique config section_index reg v 1 = Some (config[m := lo8 v]) \<and>
   patch_unique config section_index reg v 2 = Some (config[m + 1 := hi8 v])"
  by (simp add: patch_unique_def)

definition patched :: "calibration \<Rightarrow> bytes" where
  "patched cal = type12_template[
     119 := lo8 (cal_dac_registers cal ! 0), 120 := hi8 (cal_dac_registers cal ! 0),
     123 := lo8 (cal_dac_registers cal ! 1), 124 := hi8 (cal_dac_registers cal ! 1),
     127 := lo8 (cal_dac_registers cal ! 2), 128 := hi8 (cal_dac_registers cal ! 2),
     131 := lo8 (cal_dac_registers cal ! 3), 132 := hi8 (cal_dac_registers cal ! 3),
     115 := lo8 (cal_tcode cal), 116 := hi8 (cal_tcode cal),
     176 := cal_delta cal,
     155 := (if cal_fdt_offset cal = 0 then 4 else cal_fdt_offset cal + 4)]"

lemma positions:
  "patch_position type12_template 0 0x0220 = Some 119"
  "patch_position (type12_template[119 := a, 120 := b]) 0 0x0236 = Some 123"
  "patch_position (type12_template[119 := a, 120 := b, 123 := c, 124 := d]) 0 0x0238 = Some 127"
  "patch_position (type12_template[119 := a, 120 := b, 123 := c, 124 := d, 127 := e, 128 := f]) 0 0x023a = Some 131"
  "patch_position (type12_template[119 := a, 120 := b, 123 := c, 124 := d, 127 := e, 128 := f,
      131 := g, 132 := h]) 0 0x005c = Some 115"
  "patch_position (type12_template[119 := a, 120 := b, 123 := c, 124 := d, 127 := e, 128 := f,
      131 := g, 132 := h, 115 := i, 116 := j]) 2 0x0082 = Some 175"
  "patch_position (type12_template[119 := a, 120 := b, 123 := c, 124 := d, 127 := e, 128 := f,
      131 := g, 132 := h, 115 := i, 116 := j, 176 := k]) 2 0x0056 = Some 155"
  by code_simp+

lemma template_fdt_byte: "type12_template ! 155 = 4"
  by (simp add: type12_template_def)

lemma hi8_push: "hi8 (push_bit 8 (ucast v)) = v"
  unfolding hi8_def by (rule bit_word_eqI) (auto simp: bit_simps dest: bit_imp_le_length)

lemma lo8_offset: "lo8 (ucast v + 4) = v + 4"
  unfolding lo8_def by transfer (simp add: take_bit_eq_mod mod_simps)

lemma update_same: "xs ! i = v \<Longrightarrow> xs[i := v] = xs"
  by auto

lemma patch_all_template: "patch_all cal type12_template = Some (patched cal)"
proof -
  note step = positions [THEN patch_uniqueI, simplified]
  show ?thesis
    by (cases "cal_fdt_offset cal = 0")
      (simp_all add: patch_all_def patched_def step hi8_push lo8_offset update_same template_fdt_byte)
qed

lemma length_patched [simp]: "length (patched cal) = CONFIG90_LENGTH"
  by (simp add: patched_def type12_template_def)

lemma patched_register:
  "config_le16 (patched cal) 119 = cal_dac_registers cal ! 0"
  "config_le16 (patched cal) 123 = cal_dac_registers cal ! 1"
  "config_le16 (patched cal) 127 = cal_dac_registers cal ! 2"
  "config_le16 (patched cal) 131 = cal_dac_registers cal ! 3"
  "config_le16 (patched cal) 115 = cal_tcode cal"
  "patched cal ! 176 = cal_delta cal"
  "patched cal ! 155 = (if cal_fdt_offset cal = 0 then 4 else cal_fdt_offset cal + 4)"
proof -
  have [simp]: "length type12_template = 224" by (simp add: type12_template_def)
  show "config_le16 (patched cal) 119 = cal_dac_registers cal ! 0"
    "config_le16 (patched cal) 123 = cal_dac_registers cal ! 1"
    "config_le16 (patched cal) 127 = cal_dac_registers cal ! 2"
    "config_le16 (patched cal) 131 = cal_dac_registers cal ! 3"
    "config_le16 (patched cal) 115 = cal_tcode cal"
    "patched cal ! 176 = cal_delta cal"
    "patched cal ! 155 = (if cal_fdt_offset cal = 0 then 4 else cal_fdt_offset cal + 4)"
    by (simp_all add: patched_def config_le16_def nth_list_update)
qed

definition calibrated_bytes :: "nat list" where
  "calibrated_bytes = [115, 116, 119, 120, 123, 124, 127, 128, 131, 132, 155, 176]"

lemma patched_other: "i \<notin> set calibrated_bytes \<Longrightarrow> patched cal ! i = type12_template ! i"
  by (simp add: patched_def calibrated_bytes_def)

section \<open>The finalizer\<close>

lemma halfword_sum_cong:
  assumes "\<And>j. j < 2 * n \<Longrightarrow> c ! j = d ! j"
  shows "halfword_sum c n = halfword_sum d n"
  unfolding halfword_sum_def
  by (intro foldl_cong) (auto simp: config_le16_def assms)

lemma halfword_sum_step: "m = Suc n \<Longrightarrow> halfword_sum d m = halfword_sum d n + config_le16 d (2 * n)"
  by (simp add: halfword_sum_def)

lemma fix_finalizer_fields:
  assumes "length c = CONFIG90_LENGTH"
  shows "length (fix_finalizer c) = CONFIG90_LENGTH"
    "i < 222 \<Longrightarrow> fix_finalizer c ! i = c ! i"
    "halfword_sum (fix_finalizer c) 112 = 0"
proof -
  show len: "length (fix_finalizer c) = CONFIG90_LENGTH" using assms by (simp add: fix_finalizer_def Let_def)
  show keep: "i < 222 \<Longrightarrow> fix_finalizer c ! i = c ! i" for i
    by (simp add: fix_finalizer_def Let_def)
  have "halfword_sum (fix_finalizer c) 111 = halfword_sum c 111"
    by (rule halfword_sum_cong) (rule keep, simp)
  moreover have "config_le16 (fix_finalizer c) 222 = - halfword_sum c 111"
    using assms by (simp add: fix_finalizer_def Let_def config_le16_def)
  moreover have "halfword_sum d 112 = halfword_sum d 111 + config_le16 d 222" for d
    using halfword_sum_step [of 112 111 d] by simp
  ultimately show "halfword_sum (fix_finalizer c) 112 = 0" by simp
qed

section \<open>The calibration arithmetic\<close>

lemma unat_narrow: "unat (w :: u32) < 2 ^ LENGTH('a :: len) \<Longrightarrow> unat (ucast w :: 'a word) = unat w"
  by (simp add: unsigned_ucast_eq take_bit_nat_eq_self)

lemma nibble_values:
  "drop_bit 4 (ucast (diff :: u8) :: u32) AND 0x0f = of_nat (unat diff div 16)"
  "(ucast diff :: u32) AND 0x0f = of_nat (unat diff mod 16)"
proof -
  have mask: "w AND 0x0f = take_bit 4 w" for w :: u32
    by (simp add: take_bit_eq_mask mask_eq_exp_minus_1)
  have byte: "(ucast diff :: u32) = of_nat (unat diff)" by simp
  have "unat diff div 16 < 16" using unat_u8_less [of diff] by linarith
  then show "drop_bit 4 (ucast diff :: u32) AND 0x0f = of_nat (unat diff div 16)"
    unfolding mask byte
    by (intro word_unat_eq_iff [THEN iffD2], simp only: unsigned_take_bit_eq unsigned_drop_bit_eq unat_of_nat)
      (simp add: drop_bit_eq_div take_bit_eq_mod)
  show "(ucast diff :: u32) AND 0x0f = of_nat (unat diff mod 16)"
    unfolding mask byte
    by (intro word_unat_eq_iff [THEN iffD2])
      (simp only: unsigned_take_bit_eq unat_of_nat, simp add: take_bit_eq_mod mod_mod_cancel)
qed

lemma unat_of_nat_small: "n < 2 ^ 32 \<Longrightarrow> unat (of_nat n :: u32) = n"
  by (simp add: unat_of_nat)

lemma calibration_arithmetic:
  "unat (tcode_of diff) = 16 * (unat diff div 16 + 1) + 64"
  "unat (delta_of diff (tcode_of diff)) =
     25600 * (unat diff mod 16 + 2) div (16 * (unat diff div 16 + 1) + 64) div 3 div 16"
proof -
  define h l where "h = unat diff div 16" and "l = unat diff mod 16"
  have small: "h < 16" "l < 16" using unat_u8_less [of diff] unfolding h_def l_def by linarith+
  have "16 * (of_nat h + 1) + 64 = (of_nat (16 * (h + 1) + 64) :: u32)" by simp
  then have "unat (16 * (of_nat h + 1) + 64 :: u32) = 16 * (h + 1) + 64"
    using small unat_of_nat_small [of "16 * (h + 1) + 64"] by simp
  then show t: "unat (tcode_of diff) = 16 * (unat diff div 16 + 1) + 64"
    unfolding tcode_of_def nibble_values h_def [symmetric] using small
    by (subst unat_narrow) simp_all
  then have wide: "unat (ucast (tcode_of diff) :: u32) = 16 * (h + 1) + 64"
    using small by (simp add: unsigned_ucast_eq take_bit_nat_eq_self flip: h_def)
  have "push_bit 8 (100 * (of_nat l + 2) :: u32) = of_nat (25600 * (l + 2))"
    by (simp add: push_bit_eq_mult algebra_simps)
  then have top: "unat (push_bit 8 (100 * (of_nat l + 2) :: u32)) = 25600 * (l + 2)"
    using small unat_of_nat_small [of "25600 * (l + 2)"] by simp
  have val: "unat (drop_bit 4 (push_bit 8 (100 * (of_nat l + 2) :: u32) div ucast (tcode_of diff) div 3)) =
      25600 * (l + 2) div (16 * (h + 1) + 64) div 3 div 16"
  proof -
    have "25600 * (l + 2) div (16 * (h + 1) + 64) div 3 \<le> 25600 * (l + 2)"
      by (meson div_le_dividend order_trans)
    also have "\<dots> < 2 ^ 32" using small by simp
    finally show ?thesis
      by (simp only: unsigned_drop_bit_eq unat_div_distrib top wide unat_numeral)
        (simp add: drop_bit_eq_div take_bit_nat_eq_self)
  qed
  have "25600 * (l + 2) div (16 * (h + 1) + 64) \<le> 25600 * (l + 2) div 80"
    by (rule div_le_mono2) simp_all
  also have "\<dots> \<le> 25600 * 17 div 80" using small by (intro div_le_mono) simp
  finally have "25600 * (l + 2) div (16 * (h + 1) + 64) \<le> 5440" by simp
  then have "25600 * (l + 2) div (16 * (h + 1) + 64) div 3 div 16 < 256" by linarith
  then show "unat (delta_of diff (tcode_of diff)) =
     25600 * (unat diff mod 16 + 2) div (16 * (unat diff div 16 + 1) + 64) div 3 div 16"
    unfolding delta_of_def nibble_values l_def [symmetric] using val
    by (simp add: unat_narrow h_def)
qed

lemma calibrate_source:
  assumes "calibrate d = Some cal"
  obtains diff where "diff \<in> {d ! 42, d ! 45}"
    "cal_tcode cal = tcode_of diff" "cal_delta cal = delta_of diff (tcode_of diff)"
proof -
  obtain diff where diff: "decode_tcode_diff d = Some diff"
    and "cal_tcode cal = tcode_of diff" "cal_delta cal = delta_of diff (tcode_of diff)"
    using assms by (auto simp: calibrate_def split: if_splits option.splits)
  moreover from diff have "diff \<in> {d ! 42, d ! 45}"
    unfolding decode_tcode_diff_def by (simp split: if_splits)
  ultimately show ?thesis using that by blast
qed

section \<open>Properties\<close>

definition sample_otp :: bytes where
  "sample_otp = [0, 0, 0, 0, 0, 0, 0, 0, 0, 0, 0, 0, 0, 0, 0, 0,
     0, 0, 0, 0, 0, 0, 0, 0, 0, 0, 0, 0, 0, 0, 0, 0,
     0, 0, 0, 0, 0, 0, 0, 0, 0, 0, 90, 165, 0, 90, 0, 0,
     0, 0, 85, 102, 119, 136, 0, 0, 0, 0, 0, 0, 255, 15, 141, 212]"

text \<open>
  Claim C26. One changed byte of a factory OTP never goes unnoticed: when the derivation accepts
  an OTP, the same OTP with any single byte changed, checksum bytes included, is refused with
  the OTP error and leaves a zeroed configuration and calibration.
\<close>

lemma otp_corruption_detected:
  assumes "fst (config90_derive chip (Some d)) = Accept"
    and "i < CONFIG90_OTP_LENGTH" and "b \<noteq> d ! i"
  shows "config90_derive chip (Some (d[i := b])) =
    (Reject CONFIG90_ERROR_OTP, replicate CONFIG90_LENGTH 0, calibration_zero)"
proof -
  have "chip = 0x2503 \<or> chip = 0x2504" "length d = CONFIG90_OTP_LENGTH" "validate_group_crcs d"
    using assms(1) by (auto simp: config90_derive_def Let_def split: if_splits)
  with byte_change_breaks_group [OF _ _ assms(2,3)] show ?thesis
    by (auto simp: config90_derive_def Let_def)
qed

lemma otp_crc_step_eval:
  "otp_crc_step 0 0 = 0"
  "otp_crc_step crc b = otp_crc_bit (otp_crc_bit (otp_crc_bit (otp_crc_bit
     (otp_crc_bit (otp_crc_bit (otp_crc_bit (otp_crc_bit (crc XOR b))))))))"
  by (simp_all add: otp_crc_step_def otp_crc_bit_def numeral_eq_Suc)

lemma sample_steps:
  "otp_crc_step 0 85 = 172"
  "otp_crc_step 172 102 = 120"
  "otp_crc_step 120 119 = 45"
  "otp_crc_step 45 136 = 114"
  "otp_crc_step 114 0 = 89"
  "otp_crc_step 89 0 = 136"
  "otp_crc_step 136 0 = 177"
  "otp_crc_step 177 0 = 30"
  "otp_crc_step 30 141 = 240"
  "otp_crc_step 0 90 = 129"
  "otp_crc_step 129 165 = 252"
  "otp_crc_step 252 0 = 250"
  "otp_crc_step 250 90 = 105"
  "otp_crc_step 105 0 = 24"
  "otp_crc_step 24 0 = 72"
  "otp_crc_step 72 0 = 255"
  "otp_crc_step 255 0 = 243"
  "otp_crc_step 243 0 = 215"
  "otp_crc_step 215 0 = 43"
  by (simp_all add: otp_crc_step_eval(2) otp_crc_bit_def)

lemma sample_groups: "validate_group_crcs sample_otp"
  by (simp add: validate_group_crcs_def otp_range_def sample_otp_def otp_crc8_def
      otp_crc_step_eval(1) sample_steps)

lemma sample_calibrated: "calibrate sample_otp \<noteq> None"
  by code_simp

lemma sample_accepted: "fst (config90_derive 0x2504 (Some sample_otp)) = Accept"
proof -
  have "length sample_otp = CONFIG90_OTP_LENGTH" by (simp add: sample_otp_def)
  then show ?thesis
    using sample_groups sample_calibrated by (auto simp: config90_derive_def Let_def patch_all_template)
qed

lemma otp_corruption_detected_witness:
  "config90_derive 0x2504 (Some (sample_otp[43 := 1])) =
    (Reject CONFIG90_ERROR_OTP, replicate CONFIG90_LENGTH 0, calibration_zero)"
proof -
  have "sample_otp ! 43 = 165" by (simp add: sample_otp_def)
  then show ?thesis using otp_corruption_detected [OF sample_accepted, of 43 1] by simp
qed

text \<open>
  Claim C27. What the derivation returns: it never fails on its own template; an accepted OTP
  yields 224 bytes whose 112 halfwords and the seed sum to zero, with the DAC registers, the
  tcode, the delta and the FDT offset of the OTP at their registers and the template
  everywhere else before the finalizer; the tcode and the delta are the exact integer
  quotients, with no wrap-around; and a refusal leaves both outputs zeroed.
\<close>

lemma config90_derived:
  assumes "config90_derive chip otp = (r, config, cal)"
  shows "r \<noteq> Reject CONFIG90_ERROR_TEMPLATE \<and>
    (if r = Accept then
       calibrate (the otp) = Some cal \<and> length config = CONFIG90_LENGTH \<and> halfword_sum config 112 = 0 \<and>
       map (config_le16 config) [119, 123, 127, 131] = map ((!) (cal_dac_registers cal)) [0, 1, 2, 3] \<and>
       config_le16 config 115 = cal_tcode cal \<and> config ! 176 = cal_delta cal \<and>
       config ! 155 = (if cal_fdt_offset cal = 0 then 4 else cal_fdt_offset cal + 4) \<and>
       filter (\<lambda>i. config ! i \<noteq> type12_template ! i \<and> i \<notin> set calibrated_bytes) [0..<222] = [] \<and>
       (\<exists>diff \<in> {the otp ! 42, the otp ! 45}.
          unat (cal_tcode cal) = 16 * (unat diff div 16 + 1) + 64 \<and>
          unat (cal_delta cal) = 25600 * (unat diff mod 16 + 2) div unat (cal_tcode cal) div 3 div 16)
     else config = replicate CONFIG90_LENGTH 0 \<and> cal = calibration_zero)"
proof (cases "\<exists>d c. otp = Some d \<and> calibrate d = Some c \<and> validate_group_crcs d \<and>
    length d = CONFIG90_OTP_LENGTH \<and> (chip = 0x2503 \<or> chip = 0x2504)")
  case False
  with assms show ?thesis
    by (auto simp: config90_derive_def Let_def patch_all_template split: option.splits if_splits)
next
  case True
  then obtain d where d: "otp = Some d" "calibrate d = Some cal" and "r = Accept"
    and config: "config = fix_finalizer (patched cal)"
    using assms by (auto simp: config90_derive_def Let_def patch_all_template)
  moreover have keep: "i < 222 \<Longrightarrow> config ! i = patched cal ! i" for i
    unfolding config by (rule fix_finalizer_fields) simp_all
  moreover have "i + 1 < 222 \<Longrightarrow> config_le16 config i = config_le16 (patched cal) i" for i
    by (simp add: config_le16_def keep)
  moreover obtain diff where "diff \<in> {d ! 42, d ! 45}"
    "cal_tcode cal = tcode_of diff" "cal_delta cal = delta_of diff (tcode_of diff)"
    using calibrate_source [OF d(2)] by blast
  then have "\<exists>diff \<in> {d ! 42, d ! 45}.
      unat (cal_tcode cal) = 16 * (unat diff div 16 + 1) + 64 \<and>
      unat (cal_delta cal) = 25600 * (unat diff mod 16 + 2) div unat (cal_tcode cal) div 3 div 16"
    by (intro bexI [of _ diff]) (simp_all add: calibration_arithmetic)
  moreover have "filter (\<lambda>i. config ! i \<noteq> type12_template ! i \<and> i \<notin> set calibrated_bytes) [0..<222] = []"
    unfolding filter_empty_conv using keep patched_other by auto
  ultimately show ?thesis
    using fix_finalizer_fields [of "patched cal"] by (simp add: patched_register config)
qed

lemma config90_derived_witness:
  "config90_derive 0x2504 (Some sample_otp) = (Accept, fst (snd (config90_derive 0x2504 (Some sample_otp))),
     snd (snd (config90_derive 0x2504 (Some sample_otp)))) \<and>
   halfword_sum (fst (snd (config90_derive 0x2504 (Some sample_otp)))) 112 = 0"
proof -
  obtain config cal where out: "config90_derive 0x2504 (Some sample_otp) = (Accept, config, cal)"
    using sample_accepted by (metis prod.collapse)
  show ?thesis using config90_derived [OF out] by (simp add: out)
qed

end
