(* ===== verification/Bb010002.thy ===== *)
theory Bb010002
  imports Prelude
begin

text \<open>
  The protected PSK envelope of the sensor (\<^verbatim>\<open>goodix_bb010002.c\<close>): 332 bytes holding a
  Windows DPAPI blob of 324 bytes and an opaque trailer. The validator walks the blob with
  a cursor; the cursor is \<open>None\<close> once a step has failed.
\<close>

abbreviation BB010002_LENGTH :: nat where "BB010002_LENGTH \<equiv> 332"
abbreviation DPAPI_BLOB_LENGTH :: nat where "DPAPI_BLOB_LENGTH \<equiv> 324"

datatype bb010002_error = BB010002_ERROR_ARGUMENT | BB010002_ERROR_LENGTH | BB010002_ERROR_STRUCTURE

record bb010002_info =
  blob_version :: u32
  masterkey_version :: u32
  info_flags :: u32
  crypt_algorithm :: u32
  crypt_bits :: u32
  hash_algorithm :: u32
  hash_bits :: u32
  blob_length :: nat
  trailer_length :: nat

definition bb010002_info_zero :: bb010002_info where
  "bb010002_info_zero = \<lparr>blob_version = 0, masterkey_version = 0, info_flags = 0, crypt_algorithm = 0,
     crypt_bits = 0, hash_algorithm = 0, hash_bits = 0, blob_length = 0, trailer_length = 0\<rparr>"

definition dpapi_provider_guid :: bytes where
  "dpapi_provider_guid = [
     0xd0, 0x8c, 0x9d, 0xdf, 0x01, 0x15, 0xd1, 0x11, 0x8c, 0x7a, 0, 0xc0, 0x4f, 0xc2, 0x97, 0xeb]"

definition expected_description :: bytes where
  "expected_description = [
     0x54, 0, 0x68, 0, 0x69, 0, 0x73, 0, 0x20, 0, 0x69, 0, 0x73, 0, 0x20, 0,
     0x74, 0, 0x68, 0, 0x65, 0, 0x20, 0, 0x64, 0, 0x65, 0, 0x73, 0, 0x63, 0,
     0x72, 0, 0x69, 0, 0x70, 0, 0x74, 0, 0x69, 0, 0x6f, 0, 0x6e, 0, 0x20, 0,
     0x73, 0, 0x74, 0, 0x72, 0, 0x69, 0, 0x6e, 0, 0x67, 0, 0x2e, 0, 0, 0]"

definition read_le32 :: "bytes \<Rightarrow> nat \<Rightarrow> u32" where
  "read_le32 d i = ucast (d ! i) OR push_bit 8 (ucast (d ! (i + 1))) OR
     push_bit 16 (ucast (d ! (i + 2))) OR push_bit 24 (ucast (d ! (i + 3)))"

definition is_all_zero :: "bytes \<Rightarrow> bool" where
  "is_all_zero d \<longleftrightarrow> foldl (OR) 0 d = 0"

definition expect_u32 :: "bytes \<Rightarrow> u32 \<Rightarrow> nat \<Rightarrow> nat option" where
  "expect_u32 d expected cursor =
     (if cursor > DPAPI_BLOB_LENGTH - 4 \<or> read_le32 d cursor \<noteq> expected then None else Some (cursor + 4))"

definition expect_bytes :: "bytes \<Rightarrow> bytes \<Rightarrow> nat \<Rightarrow> nat option" where
  "expect_bytes d expected cursor =
     (if cursor > DPAPI_BLOB_LENGTH \<or> length expected > DPAPI_BLOB_LENGTH - cursor \<or>
         take (length expected) (drop cursor d) \<noteq> expected
      then None else Some (cursor + length expected))"

definition skip_bytes :: "nat \<Rightarrow> nat \<Rightarrow> nat option" where
  "skip_bytes n cursor =
     (if cursor > DPAPI_BLOB_LENGTH \<or> n > DPAPI_BLOB_LENGTH - cursor then None else Some (cursor + n))"

text \<open>The master key identifier at the cursor must not be all zero.\<close>

definition expect_nonzero :: "bytes \<Rightarrow> nat \<Rightarrow> nat option" where
  "expect_nonzero d cursor =
     (if cursor > DPAPI_BLOB_LENGTH - 16 \<or> is_all_zero (take 16 (drop cursor d)) then None else Some cursor)"

definition bb010002_expected :: bb010002_info where
  "bb010002_expected = \<lparr>blob_version = 1, masterkey_version = 1, info_flags = 4, crypt_algorithm = 0x6610,
     crypt_bits = 256, hash_algorithm = 0x800e, hash_bits = 512, blob_length = DPAPI_BLOB_LENGTH,
     trailer_length = BB010002_LENGTH - DPAPI_BLOB_LENGTH\<rparr>"

text \<open>The steps joined by \<^verbatim>\<open>||\<close>, in order.\<close>

definition dpapi_walk :: "bb010002_info \<Rightarrow> bytes \<Rightarrow> nat option" where
  "dpapi_walk info d = foldl Option.bind (Some 0)
     [expect_u32 d (blob_version info), expect_bytes d dpapi_provider_guid,
      expect_u32 d (masterkey_version info), expect_nonzero d, skip_bytes 16,
      expect_u32 d (info_flags info), expect_u32 d (of_nat (length expected_description)),
      expect_bytes d expected_description,
      expect_u32 d (crypt_algorithm info), expect_u32 d (crypt_bits info),
      expect_u32 d 32, skip_bytes 32, expect_u32 d 0,
      expect_u32 d (hash_algorithm info), expect_u32 d (hash_bits info),
      expect_u32 d 32, skip_bytes 32, expect_u32 d 48, skip_bytes 48, expect_u32 d 64, skip_bytes 64]"

definition bb010002_validate :: "bytes option \<Rightarrow> bb010002_error reply \<times> bb010002_info" where
  "bb010002_validate bb =
     (case bb of
        None \<Rightarrow> (Reject BB010002_ERROR_ARGUMENT, bb010002_info_zero)
      | Some d \<Rightarrow>
          if length d \<noteq> BB010002_LENGTH then (Reject BB010002_ERROR_LENGTH, bb010002_info_zero)
          else if dpapi_walk bb010002_expected d \<noteq> Some DPAPI_BLOB_LENGTH
          then (Reject BB010002_ERROR_STRUCTURE, bb010002_info_zero)
          else (Accept, bb010002_expected))"

section \<open>The layout the walk accepts\<close>

text \<open>Every fixed field of the envelope, with its offset.\<close>

definition dpapi_fields :: "(nat \<times> bytes) list" where
  "dpapi_fields = [(0, [1, 0, 0, 0]), (4, dpapi_provider_guid), (20, [1, 0, 0, 0]), (40, [4, 0, 0, 0]),
     (44, [64, 0, 0, 0]), (48, expected_description), (112, [0x10, 0x66, 0, 0]), (116, [0, 1, 0, 0]),
     (120, [32, 0, 0, 0]), (156, [0, 0, 0, 0]), (160, [0x0e, 0x80, 0, 0]), (164, [0, 2, 0, 0]),
     (168, [32, 0, 0, 0]), (204, [48, 0, 0, 0]), (256, [64, 0, 0, 0])]"

lemma is_all_zero_iff: "is_all_zero d \<longleftrightarrow> (\<forall>b \<in> set d. b = 0)"
proof -
  have step: "foldl (OR) a d = 0 \<longleftrightarrow> a = 0 \<and> (\<forall>b \<in> set d. b = 0)" for a :: u8
    by (induction d arbitrary: a) (auto simp: or_eq_0_iff)
  show ?thesis by (simp add: is_all_zero_def step)
qed

lemma read_le32_bytes:
  "read_le32 d i = v \<longleftrightarrow>
     [d ! i, d ! (i + 1), d ! (i + 2), d ! (i + 3)] =
     [ucast v, ucast (drop_bit 8 v), ucast (drop_bit 16 v), ucast (drop_bit 24 v)]"
proof
  assume "read_le32 d i = v"
  then have v: "v = read_le32 d i" ..
  have "ucast v = d ! i" "ucast (drop_bit 8 v) = d ! (i + 1)"
    "ucast (drop_bit 16 v) = d ! (i + 2)" "ucast (drop_bit 24 v) = d ! (i + 3)"
    unfolding v read_le32_def
    by (rule bit_word_eqI, auto simp: bit_simps dest: bit_imp_le_length)+
  then show "[d ! i, d ! (i + 1), d ! (i + 2), d ! (i + 3)] =
     [ucast v, ucast (drop_bit 8 v), ucast (drop_bit 16 v), ucast (drop_bit 24 v)]" by simp
next
  assume bytes: "[d ! i, d ! (i + 1), d ! (i + 2), d ! (i + 3)] =
     [ucast v, ucast (drop_bit 8 v), ucast (drop_bit 16 v), ucast (drop_bit 24 v)]"
  show "read_le32 d i = v"
    unfolding read_le32_def
  proof (intro bit_word_eqI)
    fix n assume "n < LENGTH(32)"
    then consider "n < 8" | "8 \<le> n" "n < 16" | "16 \<le> n" "n < 24" | "24 \<le> n" "n < 32" by fastforce
    then show "bit (ucast (d ! i) OR push_bit 8 (ucast (d ! (i + 1))) OR
        push_bit 16 (ucast (d ! (i + 2))) OR push_bit 24 (ucast (d ! (i + 3))) :: u32) n = bit v n"
      by cases (use bytes in \<open>auto simp: bit_simps\<close>)
  qed
qed

lemma take_drop4: "i + 4 \<le> length d \<Longrightarrow> take 4 (drop i d) = [d ! i, d ! (i + 1), d ! (i + 2), d ! (i + 3)]"
  by (rule nth_equalityI) (auto simp: less_Suc_eq numeral_eq_Suc)

lemma read_le32_take:
  assumes "length d = BB010002_LENGTH" "i \<le> 320"
  shows "read_le32 d i = v \<longleftrightarrow>
    take 4 (drop i d) = [ucast v, ucast (drop_bit 8 v), ucast (drop_bit 16 v), ucast (drop_bit 24 v)]"
  using assms by (simp only: read_le32_bytes take_drop4)

lemma length_description: "length expected_description = 64" "length dpapi_provider_guid = 16"
  by (simp_all add: expected_description_def dpapi_provider_guid_def)

lemma foldl_bind_None: "foldl Option.bind None fs = None"
  by (induction fs) simp_all

lemma dpapi_walk_iff:
  assumes "length d = BB010002_LENGTH"
  shows "dpapi_walk bb010002_expected d = Some DPAPI_BLOB_LENGTH \<longleftrightarrow>
    list_all (\<lambda>(i, bs). take (length bs) (drop i d) = bs) dpapi_fields \<and>
    \<not> list_all (\<lambda>b. b = 0) (take 16 (drop 24 d))"
proof -
  note field = read_le32_take [OF assms]
  have u32: "foldl Option.bind (Some i) (expect_u32 d v # fs) = Some n \<longleftrightarrow> i \<le> 320 \<and>
      take 4 (drop i d) = [ucast v, ucast (drop_bit 8 v), ucast (drop_bit 16 v), ucast (drop_bit 24 v)] \<and>
      foldl Option.bind (Some (i + 4)) fs = Some n" for v i fs n
    using field [of i v] by (cases "i \<le> 320") (auto simp: expect_u32_def foldl_bind_None)
  have bytes: "foldl Option.bind (Some i) (expect_bytes d bs # fs) = Some n \<longleftrightarrow> i + length bs \<le> 324 \<and>
      take (length bs) (drop i d) = bs \<and> foldl Option.bind (Some (i + length bs)) fs = Some n" for bs i fs n
    by (auto simp: expect_bytes_def foldl_bind_None)
  have skip: "foldl Option.bind (Some i) (skip_bytes k # fs) = Some n \<longleftrightarrow> i + k \<le> 324 \<and>
      foldl Option.bind (Some (i + k)) fs = Some n" for k i fs n
    by (auto simp: skip_bytes_def foldl_bind_None)
  have nonzero: "foldl Option.bind (Some i) (expect_nonzero d # fs) = Some n \<longleftrightarrow> i \<le> 308 \<and>
      \<not> list_all (\<lambda>b. b = 0) (take 16 (drop i d)) \<and> foldl Option.bind (Some i) fs = Some n" for i fs n
    by (auto simp: expect_nonzero_def is_all_zero_iff list_all_iff foldl_bind_None)
  have narrow: "(26128 :: u8) = 16" "(256 :: u8) = 0" "(32782 :: u8) = 14" "(512 :: u8) = 0"
    "Suc (Suc (Suc (Suc 0))) = 4" by simp_all
  show ?thesis
    unfolding dpapi_walk_def u32 bytes skip nonzero
    by (simp add: bb010002_expected_def dpapi_fields_def length_description narrow) blast
qed

section \<open>Properties\<close>

text \<open>
  Claim C28. The cursor walk accepts exactly the envelopes with the fixed fields of the layout:
  332 bytes, each fixed field at its offset, a master key identifier that is not all zero;
  every other byte, the trailer included, is opaque and is not looked at. The reported
  fields are the expected ones on acceptance and all zero on refusal.
\<close>

lemma envelope_layout:
  "bb010002_validate bb =
    (case bb of
       None \<Rightarrow> (Reject BB010002_ERROR_ARGUMENT, bb010002_info_zero)
     | Some d \<Rightarrow>
         if length d \<noteq> BB010002_LENGTH then (Reject BB010002_ERROR_LENGTH, bb010002_info_zero)
         else if list_all (\<lambda>(i, bs). take (length bs) (drop i d) = bs) dpapi_fields \<and>
             \<not> list_all (\<lambda>b. b = 0) (take 16 (drop 24 d))
         then (Accept, bb010002_expected)
         else (Reject BB010002_ERROR_STRUCTURE, bb010002_info_zero))"
  by (auto simp: bb010002_validate_def dpapi_walk_iff split: option.split)

end
