(* ===== verification/Live_Preflight.thy ===== *)
theory Live_Preflight
  imports A0_Protocol Config90 Bb010002
begin

text \<open>
  The read-only discovery of the sensor before pairing (\<^verbatim>\<open>goodix_live_preflight.c\<close>): seven
  request and response phases that gather the firmware identity, the protected PSK envelope,
  its validator, the chip profile and the OTP, and derive the configuration. The object is
  never \<^verbatim>\<open>NULL\<close> and its audit is always given; an error message is not modelled, only its code.
\<close>

section \<open>State\<close>

datatype preflight_phase =
    REENTRY_A2 | APP_A8 | BB010002_E4 | VALIDATOR_E4 | COLD_A2 | CHIP_82 | OTP_A6 | STOP | TERMINAL

datatype preflight_error = PREFLIGHT_STATE | PREFLIGHT_PROTOCOL | PREFLIGHT_TARGET | PREFLIGHT_TRANSPORT

text \<open>The error an operation reports: its own, or the codec's.\<close>

datatype live_error = Live_Error preflight_error | Codec_Error gerror

record preflight_evidence =
  ev_chip_id :: u16
  ev_a2_response :: bytes
  ev_chip_response :: bytes
  ev_otp :: bytes
  ev_bb010002 :: bytes
  ev_validator :: bytes
  ev_config90 :: bytes
  ev_calibration :: calibration
  ev_identity :: bytes
  ev_identity_length :: nat
  ev_app :: bytes

record preflight_audit =
  pa_command_count :: u32
  pa_ack_count :: u32
  pa_typed_response_count :: u32
  pa_retry_count :: u32
  pa_persistent_write_count :: u32
  pa_exact_app :: bool
  pa_supported_chip_profile :: bool
  pa_otp_valid :: bool
  pa_bb010002_valid :: bool
  pa_config90_derived :: bool
  pa_complete :: bool

record preflight =
  pf_phase :: preflight_phase
  pf_evidence :: preflight_evidence
  pf_audit :: preflight_audit
  pf_request_submitted :: bool
  pf_out_pending :: bool
  pf_ack_seen :: bool
  pf_logical_done :: bool
  pf_error :: "preflight_error option"

definition evidence_zero :: preflight_evidence where
  "evidence_zero = \<lparr>ev_chip_id = 0, ev_a2_response = replicate 3 0, ev_chip_response = replicate 4 0,
     ev_otp = replicate CONFIG90_OTP_LENGTH 0, ev_bb010002 = replicate BB010002_LENGTH 0,
     ev_validator = replicate 32 0, ev_config90 = replicate CONFIG90_LENGTH 0,
     ev_calibration = calibration_zero, ev_identity = replicate 32 0, ev_identity_length = 0,
     ev_app = replicate 16 0\<rparr>"

definition preflight_new :: preflight where
  "preflight_new = \<lparr>pf_phase = REENTRY_A2, pf_evidence = evidence_zero,
     pf_audit = \<lparr>pa_command_count = 0, pa_ack_count = 0, pa_typed_response_count = 0, pa_retry_count = 0,
       pa_persistent_write_count = 0, pa_exact_app = False, pa_supported_chip_profile = False,
       pa_otp_valid = False, pa_bb010002_valid = False, pa_config90_derived = False, pa_complete = False\<rparr>,
     pf_request_submitted = False, pf_out_pending = False, pf_ack_seen = False, pf_logical_done = False,
     pf_error = None\<rparr>"

section \<open>Phases\<close>

definition phase_control :: "preflight_phase \<Rightarrow> u8" where
  "phase_control p = (case p of
     REENTRY_A2 \<Rightarrow> 0xa2 | COLD_A2 \<Rightarrow> 0xa2 | APP_A8 \<Rightarrow> 0xa8 | BB010002_E4 \<Rightarrow> 0xe4 | VALIDATOR_E4 \<Rightarrow> 0xe4
   | CHIP_82 \<Rightarrow> 0x82 | OTP_A6 \<Rightarrow> 0xa6 | _ \<Rightarrow> 0)"

text \<open>C: \<^verbatim>\<open>phase >= GOODIX_LIVE_PREFLIGHT_STOP\<close>, and \<^verbatim>\<open>phase++\<close>.\<close>

definition phase_ended :: "preflight_phase \<Rightarrow> bool" where
  "phase_ended p \<longleftrightarrow> p = STOP \<or> p = TERMINAL"

definition next_phase :: "preflight_phase \<Rightarrow> preflight_phase" where
  "next_phase p = (case p of
     REENTRY_A2 \<Rightarrow> APP_A8 | APP_A8 \<Rightarrow> BB010002_E4 | BB010002_E4 \<Rightarrow> VALIDATOR_E4 | VALIDATOR_E4 \<Rightarrow> COLD_A2
   | COLD_A2 \<Rightarrow> CHIP_82 | CHIP_82 \<Rightarrow> OTP_A6 | OTP_A6 \<Rightarrow> STOP | _ \<Rightarrow> TERMINAL)"

definition phase_body :: "preflight_phase \<Rightarrow> bytes" where
  "phase_body p = (case p of
     APP_A8 \<Rightarrow> [0x00, 0x00]
   | BB010002_E4 \<Rightarrow> [0x02, 0x00, 0x01, 0xbb, 0, 0, 0, 0]
   | VALIDATOR_E4 \<Rightarrow> [0x03, 0x00, 0x02, 0xbb, 0, 0, 0, 0]
   | CHIP_82 \<Rightarrow> [0, 0, 0, 4, 0]
   | OTP_A6 \<Rightarrow> [0, 0]
   | _ \<Rightarrow> [0x01, 0x14])"

definition preflight_fail :: "preflight_error \<Rightarrow> preflight \<Rightarrow> preflight" where
  "preflight_fail code s =
     (if pf_phase s = TERMINAL then s else s\<lparr>pf_phase := TERMINAL, pf_error := Some code\<rparr>)"

definition maybe_advance :: "preflight \<Rightarrow> preflight" where
  "maybe_advance s =
     (if \<not> pf_logical_done s \<or> pf_out_pending s \<or> phase_ended (pf_phase s) then s
      else
        let p = next_phase (pf_phase s);
            s1 = s\<lparr>pf_phase := p, pf_request_submitted := False, pf_ack_seen := False, pf_logical_done := False\<rparr>
        in if p = STOP then s1\<lparr>pf_audit := (pf_audit s1)\<lparr>pa_complete := True\<rparr>\<rparr> else s1)"

section \<open>Requests\<close>

definition next_request :: "preflight \<Rightarrow> (live_error + bytes option) \<times> preflight" where
  "next_request s =
     (if pf_phase s = TERMINAL then (Inl (Live_Error PREFLIGHT_STATE), s)
      else if pf_phase s = STOP \<or> pf_request_submitted s \<or> pf_out_pending s then (Inr None, s)
      else
        let control = phase_control (pf_phase s) in
        case a0_build_frame control control (phase_body (pf_phase s)) of
          Inl e \<Rightarrow> (Inl (Codec_Error e), preflight_fail PREFLIGHT_STATE s)
        | Inr request \<Rightarrow> (Inr (Some request),
            s\<lparr>pf_request_submitted := True, pf_out_pending := True,
              pf_audit := (pf_audit s)\<lparr>pa_command_count := pa_command_count (pf_audit s) + 1\<rparr>\<rparr>))"

text \<open>The argument says whether the transport reports an error.\<close>

definition out_complete :: "bool \<Rightarrow> preflight \<Rightarrow> preflight" where
  "out_complete failed s =
     (if phase_ended (pf_phase s) \<or> \<not> pf_out_pending s then s
      else
        let s1 = s\<lparr>pf_out_pending := False\<rparr> in
        if failed then preflight_fail PREFLIGHT_TRANSPORT s1 else maybe_advance s1)"

section \<open>Responses\<close>

text \<open>C: \<^verbatim>\<open>memcpy (destination, source, length)\<close> into an array at least that long.\<close>

definition copy_prefix :: "bytes \<Rightarrow> bytes \<Rightarrow> bytes" where
  "copy_prefix source destination = source @ drop (length source) destination"

definition parse_e4 :: "bytes \<Rightarrow> preflight \<Rightarrow> bool \<times> preflight" where
  "parse_e4 bs s =
     (let bb = (pf_phase s = BB010002_E4);
          expected_type = (if bb then 0xbb010002 else 0xbb020003 :: u32);
          expected_length = (if bb then BB010002_LENGTH else 32) in
      if length bs \<noteq> 9 + expected_length \<or> bs ! 0 \<noteq> 0 \<or> read_le32 bs 1 \<noteq> expected_type \<or>
         read_le32 bs 5 \<noteq> of_nat expected_length
      then (False, s)
      else
        let payload = take expected_length (drop 9 bs) in
        if bb then
          let s1 = s\<lparr>pf_evidence := (pf_evidence s)\<lparr>ev_bb010002 := copy_prefix payload (ev_bb010002 (pf_evidence s))\<rparr>\<rparr> in
          if fst (bb010002_validate (Some (ev_bb010002 (pf_evidence s1)))) \<noteq> Accept then (False, s1)
          else (True, s1\<lparr>pf_audit := (pf_audit s1)\<lparr>pa_bb010002_valid := True\<rparr>\<rparr>)
        else (True,
          s\<lparr>pf_evidence := (pf_evidence s)\<lparr>ev_validator := copy_prefix payload (ev_validator (pf_evidence s))\<rparr>\<rparr>))"

text \<open>The firmware identities with their terminating zero byte, and the names recorded for them.\<close>

definition app12509 :: bytes where
  "app12509 = [0x47, 0x46, 0x5f, 0x53, 0x54, 0x34, 0x31, 0x31, 0x53, 0x45, 0x43, 0x5f, 0x41, 0x50, 0x50, 0x5f, 0x31, 0x32, 0x35, 0x30, 0x39, 0]"

definition app12508 :: bytes where
  "app12508 = [0x47, 0x46, 0x5f, 0x53, 0x54, 0x34, 0x31, 0x31, 0x53, 0x45, 0x43, 0x5f, 0x41, 0x50, 0x50, 0x5f, 0x31, 0x32, 0x35, 0x30, 0x38, 0]"

definition app_name12509 :: bytes where
  "app_name12509 = [0x41, 0x50, 0x50, 0x31, 0x32, 0x35, 0x30, 0x39, 0]"

definition app_name12508 :: bytes where
  "app_name12508 = [0x41, 0x50, 0x50, 0x31, 0x32, 0x35, 0x30, 0x38, 0]"

definition record_app :: "bytes \<Rightarrow> bytes \<Rightarrow> preflight \<Rightarrow> preflight" where
  "record_app identity name s =
     s\<lparr>pf_evidence := (pf_evidence s)\<lparr>ev_identity := copy_prefix identity (ev_identity (pf_evidence s)),
         ev_identity_length := length identity, ev_app := copy_prefix name (ev_app (pf_evidence s))\<rparr>,
       pf_audit := (pf_audit s)\<lparr>pa_exact_app := True\<rparr>\<rparr>"

definition accept_typed :: "bytes \<Rightarrow> preflight \<Rightarrow> bool \<times> preflight" where
  "accept_typed bs s = (case pf_phase s of
     REENTRY_A2 \<Rightarrow>
       if length bs \<noteq> 3 then (False, s)
       else (True, s\<lparr>pf_evidence := (pf_evidence s)\<lparr>ev_a2_response := copy_prefix bs (ev_a2_response (pf_evidence s))\<rparr>\<rparr>)
   | APP_A8 \<Rightarrow>
       if bs = app12509 then (True, record_app app12509 app_name12509 s)
       else if bs = app12508 then (True, record_app app12508 app_name12508 s)
       else (False, s)
   | BB010002_E4 \<Rightarrow> parse_e4 bs s
   | VALIDATOR_E4 \<Rightarrow> parse_e4 bs s
   | COLD_A2 \<Rightarrow> (length bs = 3 \<and> bs = take (length bs) (ev_a2_response (pf_evidence s)), s)
   | CHIP_82 \<Rightarrow>
       if length bs \<noteq> 4 then (False, s)
       else
         let chip_id = le16 (bs ! 1) (bs ! 2) in
         if chip_id \<noteq> 0x2503 \<and> chip_id \<noteq> 0x2504 then (False, s)
         else (True,
           s\<lparr>pf_evidence := (pf_evidence s)\<lparr>ev_chip_response := copy_prefix bs (ev_chip_response (pf_evidence s)),
               ev_chip_id := chip_id\<rparr>,
             pf_audit := (pf_audit s)\<lparr>pa_supported_chip_profile := True\<rparr>\<rparr>)
   | OTP_A6 \<Rightarrow>
       if length bs \<noteq> CONFIG90_OTP_LENGTH then (False, s)
       else
         let (r, config, cal) = config90_derive (ev_chip_id (pf_evidence s)) (Some bs);
             s1 = s\<lparr>pf_evidence := (pf_evidence s)\<lparr>ev_config90 := config\<rparr>\<rparr> in
         if r \<noteq> Accept then (False, s1)
         else (True,
           s1\<lparr>pf_evidence := (pf_evidence s1)\<lparr>ev_otp := copy_prefix bs (ev_otp (pf_evidence s1)), ev_calibration := cal\<rparr>,
              pf_audit := (pf_audit s1)\<lparr>pa_otp_valid := True, pa_config90_derived := True\<rparr>\<rparr>)
   | _ \<Rightarrow> (False, s))"

text \<open>The error a refusal reports is the stored one when the object already failed.\<close>

definition stored_error :: "preflight \<Rightarrow> live_error" where
  "stored_error s = (case pf_error s of Some e \<Rightarrow> Live_Error e | None \<Rightarrow> Live_Error PREFLIGHT_STATE)"

definition handle_a0 :: "bytes option \<Rightarrow> preflight \<Rightarrow> live_error reply \<times> preflight" where
  "handle_a0 frame s =
     (let refuse = (\<lambda>code s. let s1 = preflight_fail code s in (Reject (stored_error s1), s1)) in
      if frame = None \<or> phase_ended (pf_phase s) \<or> \<not> pf_request_submitted s \<or> pf_logical_done s \<or>
         length (the frame) < 5
      then refuse PREFLIGHT_STATE s
      else case a0_parse_frame frame (the frame ! 4) of
          Inl e \<Rightarrow> (Reject (Codec_Error e), preflight_fail PREFLIGHT_PROTOCOL s)
        | Inr message \<Rightarrow>
            let bs = body message; expected = phase_control (pf_phase s) in
            if control message = 0xb0 then
              if pf_ack_seen s \<or> length bs \<noteq> 2 \<or> bs ! 0 \<noteq> expected \<or> (bs ! 1 \<noteq> 0x01 \<and> bs ! 1 \<noteq> 0x07)
              then refuse PREFLIGHT_TARGET s
              else (Accept, s\<lparr>pf_ack_seen := True,
                pf_audit := (pf_audit s)\<lparr>pa_ack_count := pa_ack_count (pf_audit s) + 1\<rparr>\<rparr>)
            else if \<not> pf_ack_seen s \<or> control message \<noteq> expected then refuse PREFLIGHT_TARGET s
            else
              let (ok, s1) = accept_typed bs s in
              if \<not> ok then refuse PREFLIGHT_TARGET s1
              else (Accept, maybe_advance (s1\<lparr>pf_logical_done := True,
                pf_audit := (pf_audit s1)\<lparr>pa_typed_response_count := pa_typed_response_count (pf_audit s1) + 1\<rparr>\<rparr>)))"

section \<open>Queries\<close>

definition preflight_copy_evidence :: "preflight \<Rightarrow> bool \<times> preflight_evidence" where
  "preflight_copy_evidence s =
     (if pf_phase s \<noteq> STOP then (False, evidence_zero) else (True, pf_evidence s))"

definition preflight_needs_receive :: "preflight \<Rightarrow> bool" where
  "preflight_needs_receive s \<longleftrightarrow> \<not> phase_ended (pf_phase s)"

datatype preflight_call = Next_Request | Out_Complete bool | Handle_A0 "bytes option"

primrec preflight_step :: "(preflight_call, live_error, preflight) machine" where
  "preflight_step Next_Request s =
     (let (r, s1) = next_request s in ((case r of Inl e \<Rightarrow> Reject e | Inr _ \<Rightarrow> Accept), s1))"
| "preflight_step (Out_Complete failed) s = (Accept, out_complete failed s)"
| "preflight_step (Handle_A0 frame) s = handle_a0 frame s"

section \<open>What every state satisfies\<close>

definition phase_index :: "preflight_phase \<Rightarrow> nat" where
  "phase_index p = (case p of
     REENTRY_A2 \<Rightarrow> 0 | APP_A8 \<Rightarrow> 1 | BB010002_E4 \<Rightarrow> 2 | VALIDATOR_E4 \<Rightarrow> 3 | COLD_A2 \<Rightarrow> 4 | CHIP_82 \<Rightarrow> 5
   | OTP_A6 \<Rightarrow> 6 | STOP \<Rightarrow> 7 | TERMINAL \<Rightarrow> 8)"

text \<open>The arrays of the evidence have the sizes of the C declarations.\<close>

definition evidence_shape :: "preflight_evidence \<Rightarrow> bool" where
  "evidence_shape e \<longleftrightarrow> length (ev_a2_response e) = 3 \<and> length (ev_chip_response e) = 4 \<and>
     length (ev_otp e) = CONFIG90_OTP_LENGTH \<and> length (ev_bb010002 e) = BB010002_LENGTH \<and>
     length (ev_validator e) = 32 \<and> length (ev_config90 e) = CONFIG90_LENGTH \<and>
     length (cal_dac_registers (ev_calibration e)) = 4 \<and> length (ev_identity e) = 32 \<and>
     ev_identity_length e \<le> 32 \<and> length (ev_app e) = 16"

text \<open>The evidence and the audit flags after the first \<open>k\<close> responses have been accepted.\<close>

definition gathered :: "nat \<Rightarrow> preflight_evidence \<Rightarrow> preflight_audit \<Rightarrow> bool" where
  "gathered k e a \<longleftrightarrow>
     (2 \<le> k \<longrightarrow> pa_exact_app a \<and> ev_identity_length e = 22 \<and>
        (take 22 (ev_identity e), take 9 (ev_app e)) \<in> {(app12509, app_name12509), (app12508, app_name12508)}) \<and>
     (3 \<le> k \<longrightarrow> pa_bb010002_valid a \<and> bb010002_validate (Some (ev_bb010002 e)) = (Accept, bb010002_expected)) \<and>
     (6 \<le> k \<longrightarrow> pa_supported_chip_profile a \<and> ev_chip_id e \<in> {0x2503, 0x2504} \<and>
        ev_chip_id e = le16 (ev_chip_response e ! 1) (ev_chip_response e ! 2)) \<and>
     (7 \<le> k \<longrightarrow> pa_otp_valid a \<and> pa_config90_derived a \<and>
        config90_derive (ev_chip_id e) (Some (ev_otp e)) = (Accept, ev_config90 e, ev_calibration e))"

definition responses_accepted :: "preflight \<Rightarrow> nat" where
  "responses_accepted s = phase_index (pf_phase s) + of_bool (pf_logical_done s)"

definition preflight_inv :: "preflight \<Rightarrow> bool" where
  "preflight_inv s \<longleftrightarrow> evidence_shape (pf_evidence s) \<and>
     (pf_phase s = TERMINAL \<longleftrightarrow> pf_error s \<noteq> None) \<and>
     pa_retry_count (pf_audit s) = 0 \<and> pa_persistent_write_count (pf_audit s) = 0 \<and>
     (pf_phase s \<noteq> TERMINAL \<longrightarrow>
        pa_command_count (pf_audit s) = of_nat (phase_index (pf_phase s) + of_bool (pf_request_submitted s)) \<and>
        pa_ack_count (pf_audit s) = of_nat (phase_index (pf_phase s) + of_bool (pf_ack_seen s)) \<and>
        pa_typed_response_count (pf_audit s) = of_nat (responses_accepted s) \<and>
        (pf_out_pending s \<longrightarrow> pf_request_submitted s) \<and> (pf_ack_seen s \<longrightarrow> pf_request_submitted s) \<and>
        (pf_logical_done s \<longrightarrow> pf_ack_seen s \<and> pf_out_pending s) \<and>
        (pf_phase s = STOP \<longrightarrow> \<not> pf_request_submitted s) \<and>
        (pa_complete (pf_audit s) \<longleftrightarrow> pf_phase s = STOP) \<and>
        gathered (responses_accepted s) (pf_evidence s) (pf_audit s))"

lemma phase_index_next: "\<not> phase_ended p \<Longrightarrow> phase_index (next_phase p) = phase_index p + 1"
  by (cases p) (simp_all add: phase_index_def next_phase_def phase_ended_def)

lemma phase_index_STOP: "p \<noteq> TERMINAL \<Longrightarrow> phase_index p = 7 \<longleftrightarrow> p = STOP"
  by (cases p) (simp_all add: phase_index_def)

lemma next_phase_not_terminal: "\<not> phase_ended p \<Longrightarrow> next_phase p \<noteq> TERMINAL"
  by (cases p) (simp_all add: next_phase_def phase_ended_def)

lemma length_copy_prefix [simp]:
  "length (copy_prefix source destination) = max (length source) (length destination)"
  by (simp add: copy_prefix_def)

lemma copy_prefix_whole [simp]: "length destination \<le> length source \<Longrightarrow> copy_prefix source destination = source"
  by (simp add: copy_prefix_def)

lemma take_copy_prefix [simp]: "length source = n \<Longrightarrow> take n (copy_prefix source destination) = source"
  by (simp add: copy_prefix_def)

lemma gathered_cong:
  assumes "gathered k e a" "pa_exact_app a' = pa_exact_app a" "pa_bb010002_valid a' = pa_bb010002_valid a"
    "pa_supported_chip_profile a' = pa_supported_chip_profile a" "pa_otp_valid a' = pa_otp_valid a"
    "pa_config90_derived a' = pa_config90_derived a"
  shows "gathered k e a'"
  using assms(1) unfolding gathered_def assms(2-) .

lemma preflight_fail_inv: "evidence_shape (pf_evidence s) \<Longrightarrow> pa_retry_count (pf_audit s) = 0 \<Longrightarrow>
    pa_persistent_write_count (pf_audit s) = 0 \<Longrightarrow> (pf_phase s = TERMINAL \<longleftrightarrow> pf_error s \<noteq> None) \<Longrightarrow>
    preflight_inv (preflight_fail code s)"
  by (auto simp: preflight_fail_def preflight_inv_def)

lemma preflight_inv_start: "preflight_inv preflight_new"
  by (simp add: preflight_inv_def preflight_new_def evidence_zero_def evidence_shape_def calibration_zero_def
      responses_accepted_def phase_index_def gathered_def)

lemma preflight_next_inv:
  assumes "preflight_inv s"
  shows "preflight_inv (snd (next_request s))"
proof (cases "phase_ended (pf_phase s) \<or> pf_request_submitted s \<or> pf_out_pending s")
  case True
  with assms show ?thesis by (auto simp: next_request_def phase_ended_def)
next
  case False
  have "length (phase_body p) \<le> 65531" for p by (cases p) (simp_all add: phase_body_def)
  then obtain f where "a0_build_frame (phase_control (pf_phase s)) (phase_control (pf_phase s)) (phase_body (pf_phase s)) = Inr f"
    using a0_build_Inr by blast
  with assms False show ?thesis
    by (auto simp: next_request_def phase_ended_def preflight_inv_def responses_accepted_def Let_def
        intro: gathered_cong)
qed

lemma maybe_advance_inv:
  assumes "preflight_inv (s\<lparr>pf_out_pending := True\<rparr>)"
  shows "preflight_inv (maybe_advance s)"
proof (cases "\<not> pf_logical_done s \<or> pf_out_pending s \<or> phase_ended (pf_phase s)")
  case True
  with assms show ?thesis
    by (cases "pf_out_pending s") (auto simp: maybe_advance_def preflight_inv_def responses_accepted_def phase_ended_def)
next
  case False
  define p where "p = next_phase (pf_phase s)"
  have p: "phase_index p = phase_index (pf_phase s) + 1" "p \<noteq> TERMINAL" "pf_phase s \<noteq> TERMINAL" "pf_phase s \<noteq> STOP"
    using False phase_index_next next_phase_not_terminal unfolding p_def by (auto simp: phase_ended_def)
  have "gathered (phase_index p) (pf_evidence s) (pf_audit s)"
    using assms False p by (simp add: preflight_inv_def responses_accepted_def)
  then have "gathered (phase_index p) (pf_evidence s) (pf_audit s\<lparr>pa_complete := True\<rparr>)"
    by (rule gathered_cong) simp_all
  with assms False p show ?thesis
    by (auto simp: maybe_advance_def preflight_inv_def responses_accepted_def Let_def p_def [symmetric])
qed

lemma preflight_out_inv:
  assumes "preflight_inv s"
  shows "preflight_inv (snd (preflight_step (Out_Complete failed) s))"
proof (cases "phase_ended (pf_phase s) \<or> \<not> pf_out_pending s")
  case True
  with assms show ?thesis by (auto simp: out_complete_def)
next
  case False
  then have "s\<lparr>pf_out_pending := False\<rparr>\<lparr>pf_out_pending := True\<rparr> = s" by simp
  then have "preflight_inv (maybe_advance (s\<lparr>pf_out_pending := False\<rparr>))"
    using assms by (intro maybe_advance_inv) simp
  moreover have "preflight_inv (preflight_fail PREFLIGHT_TRANSPORT (s\<lparr>pf_out_pending := False\<rparr>))"
    using assms by (intro preflight_fail_inv) (auto simp: preflight_inv_def)
  ultimately show ?thesis using False by (auto simp: out_complete_def Let_def)
qed

section \<open>Accepting a typed response\<close>

text \<open>What a typed response cannot change: everything but the evidence and the audit flags.\<close>

lemma parse_e4_frame:
  assumes "parse_e4 bs s = (ok, s1)"
  shows "pf_phase s1 = pf_phase s" "pf_request_submitted s1 = pf_request_submitted s"
    "pf_out_pending s1 = pf_out_pending s" "pf_ack_seen s1 = pf_ack_seen s"
    "pf_logical_done s1 = pf_logical_done s" "pf_error s1 = pf_error s"
    "pa_command_count (pf_audit s1) = pa_command_count (pf_audit s)"
    "pa_ack_count (pf_audit s1) = pa_ack_count (pf_audit s)"
    "pa_typed_response_count (pf_audit s1) = pa_typed_response_count (pf_audit s)"
    "pa_retry_count (pf_audit s1) = pa_retry_count (pf_audit s)"
    "pa_persistent_write_count (pf_audit s1) = pa_persistent_write_count (pf_audit s)"
    "pa_complete (pf_audit s1) = pa_complete (pf_audit s)"
  using assms by (auto simp: parse_e4_def Let_def split: if_splits)

lemma accept_typed_frame:
  assumes "accept_typed bs s = (ok, s1)"
  shows "pf_phase s1 = pf_phase s" "pf_request_submitted s1 = pf_request_submitted s"
    "pf_out_pending s1 = pf_out_pending s" "pf_ack_seen s1 = pf_ack_seen s"
    "pf_logical_done s1 = pf_logical_done s" "pf_error s1 = pf_error s"
    "pa_command_count (pf_audit s1) = pa_command_count (pf_audit s)"
    "pa_ack_count (pf_audit s1) = pa_ack_count (pf_audit s)"
    "pa_typed_response_count (pf_audit s1) = pa_typed_response_count (pf_audit s)"
    "pa_retry_count (pf_audit s1) = pa_retry_count (pf_audit s)"
    "pa_persistent_write_count (pf_audit s1) = pa_persistent_write_count (pf_audit s)"
    "pa_complete (pf_audit s1) = pa_complete (pf_audit s)"
proof -
  have "pf_phase s1 = pf_phase s \<and> pf_request_submitted s1 = pf_request_submitted s \<and>
    pf_out_pending s1 = pf_out_pending s \<and> pf_ack_seen s1 = pf_ack_seen s \<and>
    pf_logical_done s1 = pf_logical_done s \<and> pf_error s1 = pf_error s \<and>
    pa_command_count (pf_audit s1) = pa_command_count (pf_audit s) \<and>
    pa_ack_count (pf_audit s1) = pa_ack_count (pf_audit s) \<and>
    pa_typed_response_count (pf_audit s1) = pa_typed_response_count (pf_audit s) \<and>
    pa_retry_count (pf_audit s1) = pa_retry_count (pf_audit s) \<and>
    pa_persistent_write_count (pf_audit s1) = pa_persistent_write_count (pf_audit s) \<and>
    pa_complete (pf_audit s1) = pa_complete (pf_audit s)"
  proof (cases "pf_phase s = BB010002_E4 \<or> pf_phase s = VALIDATOR_E4")
    case True
    with assms have "parse_e4 bs s = (ok, s1)" by (auto simp: accept_typed_def)
    then show ?thesis by (simp add: parse_e4_frame)
  next
    case False
    with assms show ?thesis
      by (cases "pf_phase s") (auto simp: accept_typed_def record_app_def Let_def case_prod_beta split: if_splits)
  qed
  then show "pf_phase s1 = pf_phase s" "pf_request_submitted s1 = pf_request_submitted s"
    "pf_out_pending s1 = pf_out_pending s" "pf_ack_seen s1 = pf_ack_seen s"
    "pf_logical_done s1 = pf_logical_done s" "pf_error s1 = pf_error s"
    "pa_command_count (pf_audit s1) = pa_command_count (pf_audit s)"
    "pa_ack_count (pf_audit s1) = pa_ack_count (pf_audit s)"
    "pa_typed_response_count (pf_audit s1) = pa_typed_response_count (pf_audit s)"
    "pa_retry_count (pf_audit s1) = pa_retry_count (pf_audit s)"
    "pa_persistent_write_count (pf_audit s1) = pa_persistent_write_count (pf_audit s)"
    "pa_complete (pf_audit s1) = pa_complete (pf_audit s)" by blast+
qed

lemma config90_derive_shape:
  assumes "config90_derive chip otp = (r, config, cal)"
  shows "length config = CONFIG90_LENGTH" "length (cal_dac_registers cal) = 4"
proof -
  have "length (cal_dac_registers c) = 4" if "calibrate d = Some c" for d c
    using that by (auto simp: calibrate_def split: if_splits option.splits)
  with assms show "length config = CONFIG90_LENGTH" "length (cal_dac_registers cal) = 4"
    by (auto simp: config90_derive_def Let_def calibration_zero_def patch_all_template
        intro!: fix_finalizer_fields split: option.splits if_splits)
qed

lemma parse_e4_evidence:
  assumes "parse_e4 bs s = (ok, s1)" "evidence_shape (pf_evidence s)"
    "pf_phase s = BB010002_E4 \<or> pf_phase s = VALIDATOR_E4"
  shows "evidence_shape (pf_evidence s1)"
    "ok \<Longrightarrow> gathered (phase_index (pf_phase s)) (pf_evidence s) (pf_audit s) \<Longrightarrow>
       gathered (phase_index (pf_phase s) + 1) (pf_evidence s1) (pf_audit s1)"
proof -
  show "evidence_shape (pf_evidence s1)"
    using assms by (auto simp: parse_e4_def evidence_shape_def Let_def split: if_splits)
  have valid: "bb010002_validate (Some d) = (Accept, bb010002_expected)"
    if "fst (bb010002_validate (Some d)) = Accept" for d
    using that by (auto simp: bb010002_validate_def split: if_splits)
  show "ok \<Longrightarrow> gathered (phase_index (pf_phase s)) (pf_evidence s) (pf_audit s) \<Longrightarrow>
       gathered (phase_index (pf_phase s) + 1) (pf_evidence s1) (pf_audit s1)"
    using assms by (auto simp: parse_e4_def gathered_def phase_index_def evidence_shape_def Let_def valid split: if_splits)
qed

lemma length_app [simp]: "length app12509 = 22" "length app12508 = 22"
  "length app_name12509 = 9" "length app_name12508 = 9"
  by (simp_all add: app12509_def app12508_def app_name12509_def app_name12508_def)

lemma accept_typed_evidence:
  assumes "accept_typed bs s = (ok, s1)" "evidence_shape (pf_evidence s)"
  shows "evidence_shape (pf_evidence s1)"
    "ok \<Longrightarrow> gathered (phase_index (pf_phase s)) (pf_evidence s) (pf_audit s) \<Longrightarrow>
       gathered (phase_index (pf_phase s) + 1) (pf_evidence s1) (pf_audit s1)"
proof -
  note d = assms(1) [unfolded accept_typed_def]
  obtain r config cal where derive:
    "config90_derive (ev_chip_id (pf_evidence s)) (Some bs) = (r, config, cal)" by (metis surj_pair)
  note shape = config90_derive_shape [OF derive]
  have "evidence_shape (pf_evidence s1) \<and> (ok \<longrightarrow> gathered (phase_index (pf_phase s)) (pf_evidence s) (pf_audit s) \<longrightarrow>
       gathered (phase_index (pf_phase s) + 1) (pf_evidence s1) (pf_audit s1))"
  proof (cases "pf_phase s = BB010002_E4 \<or> pf_phase s = VALIDATOR_E4")
    case True
    with d have "parse_e4 bs s = (ok, s1)" by auto
    from parse_e4_evidence [OF this assms(2) True] show ?thesis by blast
  next
    case False
    with d assms(2) shape derive show ?thesis
      by (cases "pf_phase s")
        (auto simp: record_app_def evidence_shape_def gathered_def phase_index_def Let_def split: if_splits)
  qed
  then show "evidence_shape (pf_evidence s1)"
    "ok \<Longrightarrow> gathered (phase_index (pf_phase s)) (pf_evidence s) (pf_audit s) \<Longrightarrow>
       gathered (phase_index (pf_phase s) + 1) (pf_evidence s1) (pf_audit s1)" by blast+
qed

lemma handle_a0_cases:
  obtains (failed) s1 r code where "handle_a0 frame s = (Reject r, preflight_fail code s1)"
      "s1 = s \<or> (\<exists>bs. \<not> phase_ended (pf_phase s) \<and> accept_typed bs s = (False, s1))"
  | (acknowledged) "handle_a0 frame s = (Accept, s\<lparr>pf_ack_seen := True,
        pf_audit := (pf_audit s)\<lparr>pa_ack_count := pa_ack_count (pf_audit s) + 1\<rparr>\<rparr>)"
      "\<not> phase_ended (pf_phase s)" "pf_request_submitted s" "\<not> pf_ack_seen s" "\<not> pf_logical_done s"
  | (typed) bs s1 where "accept_typed bs s = (True, s1)"
      "handle_a0 frame s = (Accept, maybe_advance (s1\<lparr>pf_logical_done := True,
        pf_audit := (pf_audit s1)\<lparr>pa_typed_response_count := pa_typed_response_count (pf_audit s1) + 1\<rparr>\<rparr>))"
      "\<not> phase_ended (pf_phase s)" "pf_request_submitted s" "pf_ack_seen s" "\<not> pf_logical_done s"
proof (cases "frame = None \<or> phase_ended (pf_phase s) \<or> \<not> pf_request_submitted s \<or> pf_logical_done s \<or>
    length (the frame) < 5")
  case True
  then have "handle_a0 frame s = (Reject (stored_error (preflight_fail PREFLIGHT_STATE s)), preflight_fail PREFLIGHT_STATE s)"
    by (simp add: handle_a0_def Let_def)
  then show thesis by (rule failed) simp
next
  case open_phase: False
  then obtain f where f: "frame = Some f" by auto
  show thesis
  proof (cases "a0_parse_frame frame (the frame ! 4)")
    case (Inl e)
    then have "handle_a0 frame s = (Reject (Codec_Error e), preflight_fail PREFLIGHT_PROTOCOL s)"
      using open_phase f by (simp add: handle_a0_def Let_def)
    then show thesis by (rule failed) simp
  next
    case (Inr message)
    obtain ok s1 where typed_reply: "accept_typed (body message) s = (ok, s1)" by (metis surj_pair)
    show thesis
    proof (cases "control message = 0xb0")
      case True
      show thesis
      proof (cases "pf_ack_seen s \<or> length (body message) \<noteq> 2 \<or> body message ! 0 \<noteq> phase_control (pf_phase s) \<or>
          (body message ! 1 \<noteq> 0x01 \<and> body message ! 1 \<noteq> 0x07)")
        case bad: True
        then have "handle_a0 frame s =
            (Reject (stored_error (preflight_fail PREFLIGHT_TARGET s)), preflight_fail PREFLIGHT_TARGET s)"
          using True Inr open_phase f by (simp add: handle_a0_def Let_def)
        then show thesis by (rule failed) simp
      next
        case good: False
        then have "handle_a0 frame s = (Accept, s\<lparr>pf_ack_seen := True,
            pf_audit := (pf_audit s)\<lparr>pa_ack_count := pa_ack_count (pf_audit s) + 1\<rparr>\<rparr>)"
          using True Inr open_phase f by (simp add: handle_a0_def Let_def)
        then show thesis by (rule acknowledged) (use open_phase good in auto)
      qed
    next
      case False
      consider "\<not> pf_ack_seen s \<or> control message \<noteq> phase_control (pf_phase s)"
        | "pf_ack_seen s" "control message = phase_control (pf_phase s)" "\<not> ok"
        | "pf_ack_seen s" "control message = phase_control (pf_phase s)" "ok" by blast
      then show thesis
      proof cases
        case 1
        then have "handle_a0 frame s =
            (Reject (stored_error (preflight_fail PREFLIGHT_TARGET s)), preflight_fail PREFLIGHT_TARGET s)"
          using False Inr open_phase f by (simp add: handle_a0_def Let_def)
        then show thesis by (rule failed) simp
      next
        case 2
        then have "handle_a0 frame s =
            (Reject (stored_error (preflight_fail PREFLIGHT_TARGET s1)), preflight_fail PREFLIGHT_TARGET s1)"
          using False Inr open_phase f typed_reply by (simp add: handle_a0_def Let_def)
        then show thesis by (rule failed) (use typed_reply 2 open_phase in auto)
      next
        case 3
        then have "handle_a0 frame s = (Accept, maybe_advance (s1\<lparr>pf_logical_done := True,
            pf_audit := (pf_audit s1)\<lparr>pa_typed_response_count := pa_typed_response_count (pf_audit s1) + 1\<rparr>\<rparr>))"
          using False Inr open_phase f typed_reply by (simp add: handle_a0_def Let_def)
        with 3 typed_reply show thesis by (intro typed [of "body message" s1]) (use open_phase in auto)
      qed
    qed
  qed
qed

lemma preflight_handle_inv:
  assumes inv: "preflight_inv s"
  shows "preflight_inv (snd (handle_a0 frame s))"
proof (cases frame s rule: handle_a0_cases)
  case (failed s1 r code)
  have "evidence_shape (pf_evidence s1) \<and> pa_retry_count (pf_audit s1) = 0 \<and>
    pa_persistent_write_count (pf_audit s1) = 0 \<and> (pf_phase s1 = TERMINAL \<longleftrightarrow> pf_error s1 \<noteq> None)"
    using failed(2) inv accept_typed_frame accept_typed_evidence(1)
    by (auto simp: preflight_inv_def)
  with failed show ?thesis by (simp add: preflight_fail_inv)
next
  case acknowledged
  with inv show ?thesis
    by (auto simp: preflight_inv_def responses_accepted_def phase_ended_def intro: gathered_cong)
next
  case (typed bs s1)
  note frame = accept_typed_frame [OF typed(1)]
  let ?s = "s1\<lparr>pf_logical_done := True,
    pf_audit := (pf_audit s1)\<lparr>pa_typed_response_count := pa_typed_response_count (pf_audit s1) + 1\<rparr>\<rparr>"
  have "gathered (phase_index (pf_phase s) + 1) (pf_evidence s1) (pf_audit s1)"
    using accept_typed_evidence(2) [OF typed(1)] inv typed by (simp add: preflight_inv_def responses_accepted_def phase_ended_def)
  then have "gathered (phase_index (pf_phase s) + 1) (pf_evidence s1) (pf_audit ?s)"
    by (rule gathered_cong) simp_all
  moreover have "evidence_shape (pf_evidence s1)"
    using accept_typed_evidence(1) [OF typed(1)] inv by (simp add: preflight_inv_def)
  ultimately have "preflight_inv (?s\<lparr>pf_out_pending := True\<rparr>)"
    using inv typed frame by (auto simp: preflight_inv_def responses_accepted_def phase_ended_def)
  then show ?thesis using typed(2) by (simp add: maybe_advance_inv)
qed

interpretation preflight: machine_invariant preflight_step preflight_new preflight_inv
proof
  show "preflight_inv preflight_new" by (rule preflight_inv_start)
  show "preflight_inv (snd (preflight_step x s))" if "preflight_inv s" for x s
    using that preflight_next_inv preflight_handle_inv preflight_out_inv
    by (cases x) (auto simp: Let_def case_prod_beta)
qed

section \<open>A sensor that answers\<close>

text \<open>
  A sensor is described by what it stores; its answer to the request of a phase is one A0
  frame. The three schedules of a phase differ in when the transport reports the request as
  sent: before the acknowledgement, between the acknowledgement and the response, or last.
\<close>

record sensor =
  sn_a2 :: bytes
  sn_app :: bytes
  sn_envelope :: bytes
  sn_validator :: bytes
  sn_chip :: bytes
  sn_otp :: bytes

definition sensor_sound :: "sensor \<Rightarrow> bool" where
  "sensor_sound d \<longleftrightarrow> length (sn_a2 d) = 3 \<and> sn_app d \<in> {app12509, app12508} \<and>
     fst (bb010002_validate (Some (sn_envelope d))) = Accept \<and> length (sn_validator d) = 32 \<and>
     length (sn_chip d) = 4 \<and>
     fst (config90_derive (le16 (sn_chip d ! 1) (sn_chip d ! 2)) (Some (sn_otp d))) = Accept"

definition sensor_answer :: "sensor \<Rightarrow> preflight_phase \<Rightarrow> bytes" where
  "sensor_answer d p = (case p of
     APP_A8 \<Rightarrow> sn_app d
   | BB010002_E4 \<Rightarrow> [0, 0x02, 0x00, 0x01, 0xbb, 0x4c, 0x01, 0, 0] @ sn_envelope d
   | VALIDATOR_E4 \<Rightarrow> [0, 0x03, 0x00, 0x02, 0xbb, 0x20, 0, 0, 0] @ sn_validator d
   | CHIP_82 \<Rightarrow> sn_chip d
   | OTP_A6 \<Rightarrow> sn_otp d
   | _ \<Rightarrow> sn_a2 d)"

definition sensor_frame :: "u8 \<Rightarrow> bytes \<Rightarrow> bytes option" where
  "sensor_frame c bs = (case a0_build_frame c c bs of Inr f \<Rightarrow> Some f | Inl _ \<Rightarrow> None)"

definition exchange :: "u8 \<Rightarrow> sensor \<Rightarrow> nat \<Rightarrow> preflight_phase \<Rightarrow> preflight_call list" where
  "exchange status d k p =
     (let ack = Handle_A0 (sensor_frame 0xb0 [phase_control p, status]);
          answer = Handle_A0 (sensor_frame (phase_control p) (sensor_answer d p)) in
      Next_Request # (if k = 0 then [Out_Complete False, ack, answer]
        else if k = 1 then [ack, Out_Complete False, answer] else [ack, answer, Out_Complete False]))"

primrec exchanges :: "u8 \<Rightarrow> sensor \<Rightarrow> nat list \<Rightarrow> preflight_phase \<Rightarrow> preflight_call list" where
  "exchanges status d [] p = []"
| "exchanges status d (k # ks) p = exchange status d k p @ exchanges status d ks (next_phase p)"

text \<open>The evidence holds the sensor's data of the first \<open>k\<close> responses.\<close>

definition collected :: "nat \<Rightarrow> sensor \<Rightarrow> preflight_evidence \<Rightarrow> bool" where
  "collected k d e \<longleftrightarrow>
     (1 \<le> k \<longrightarrow> ev_a2_response e = sn_a2 d) \<and>
     (2 \<le> k \<longrightarrow> take (ev_identity_length e) (ev_identity e) = sn_app d) \<and>
     (3 \<le> k \<longrightarrow> ev_bb010002 e = sn_envelope d) \<and> (4 \<le> k \<longrightarrow> ev_validator e = sn_validator d) \<and>
     (6 \<le> k \<longrightarrow> ev_chip_response e = sn_chip d \<and> ev_chip_id e = le16 (sn_chip d ! 1) (sn_chip d ! 2)) \<and>
     (7 \<le> k \<longrightarrow> ev_otp e = sn_otp d \<and>
        config90_derive (ev_chip_id e) (Some (sn_otp d)) = (Accept, ev_config90 e, ev_calibration e))"

lemma e4_header:
  "read_le32 ([0, 0x02, 0x00, 0x01, 0xbb, 0x4c, 0x01, 0, 0] @ xs) (Suc 0) = 0xbb010002"
  "read_le32 ([0, 0x02, 0x00, 0x01, 0xbb, 0x4c, 0x01, 0, 0] @ xs) 5 = 332"
  "read_le32 ([0, 0x03, 0x00, 0x02, 0xbb, 0x20, 0, 0, 0] @ xs) (Suc 0) = 0xbb020003"
  "read_le32 ([0, 0x03, 0x00, 0x02, 0xbb, 0x20, 0, 0, 0] @ xs) 5 = 32"
  by (simp_all add: read_le32_def)

lemma envelope_length: "fst (bb010002_validate (Some d)) = Accept \<Longrightarrow> length d = BB010002_LENGTH"
  by (auto simp: bb010002_validate_def split: if_splits)

lemma config90_accepts:
  assumes "fst (config90_derive chip (Some otp)) = Accept"
  shows "chip = 0x2503 \<or> chip = 0x2504" "length otp = CONFIG90_OTP_LENGTH"
  using assms by (auto simp: config90_derive_def Let_def split: if_splits)

lemma sensor_answer_accepted:
  assumes d: "sensor_sound d" and s: "\<not> phase_ended (pf_phase s)" "evidence_shape (pf_evidence s)"
    "collected (phase_index (pf_phase s)) d (pf_evidence s)"
  obtains s1 where "accept_typed (sensor_answer d (pf_phase s)) s = (True, s1)"
    "collected (phase_index (pf_phase s) + 1) d (pf_evidence s1)"
proof -
  obtain config cal where derive:
    "config90_derive (le16 (sn_chip d ! 1) (sn_chip d ! 2)) (Some (sn_otp d)) = (Accept, config, cal)"
    using d unfolding sensor_sound_def by (metis prod.collapse)
  note chip = config90_accepts [of "le16 (sn_chip d ! 1) (sn_chip d ! 2)" "sn_otp d", unfolded derive, simplified]
  have env: "length (sn_envelope d) = 332" using d envelope_length by (simp add: sensor_sound_def)
  have "\<exists>s1. accept_typed (sensor_answer d (pf_phase s)) s = (True, s1) \<and>
      collected (phase_index (pf_phase s) + 1) d (pf_evidence s1)"
  proof (cases "pf_phase s")
    case BB010002_E4
    with d s env show ?thesis
      by (simp add: accept_typed_def sensor_answer_def parse_e4_def e4_header [simplified] sensor_sound_def
          collected_def phase_index_def evidence_shape_def)
  next
    case VALIDATOR_E4
    with d s env show ?thesis
      by (simp add: accept_typed_def sensor_answer_def parse_e4_def e4_header [simplified] sensor_sound_def
          collected_def phase_index_def evidence_shape_def)
  next
    case OTP_A6
    with d s derive chip show ?thesis
      by (simp add: accept_typed_def sensor_answer_def sensor_sound_def
          collected_def phase_index_def evidence_shape_def Let_def)
  next
    case CHIP_82
    with d s chip show ?thesis
      by (simp add: accept_typed_def sensor_answer_def sensor_sound_def
          collected_def phase_index_def evidence_shape_def Let_def)
  qed (use d s in \<open>auto simp: accept_typed_def sensor_answer_def sensor_sound_def record_app_def
          collected_def phase_index_def evidence_shape_def phase_ended_def\<close>)
  then show thesis using that by blast
qed

text \<open>A state in which the request of the current phase has not been made.\<close>

definition fresh :: "preflight \<Rightarrow> bool" where
  "fresh s \<longleftrightarrow> \<not> pf_request_submitted s \<and> \<not> pf_out_pending s \<and> \<not> pf_ack_seen s \<and> \<not> pf_logical_done s"

lemma sensor_frame_parsed:
  assumes "length bs \<le> 65531"
  obtains f where "sensor_frame c bs = Some f" "5 \<le> length f" "f ! 4 = c"
    "a0_parse_frame (Some f) c = Inr \<lparr>control = c, body = bs\<rparr>"
proof -
  obtain f where "a0_build_frame c c bs = Inr f" using a0_build_Inr [OF assms] by blast
  then show thesis
    using that a0_parse_build a0_build_length a0_build_nth_4 by (simp add: sensor_frame_def)
qed

lemma request_made:
  assumes "fresh s" "\<not> phase_ended (pf_phase s)"
  shows "preflight_step Next_Request s = (Accept, s\<lparr>pf_request_submitted := True, pf_out_pending := True,
    pf_audit := (pf_audit s)\<lparr>pa_command_count := pa_command_count (pf_audit s) + 1\<rparr>\<rparr>)"
proof -
  have "length (phase_body p) \<le> 65531" for p by (cases p) (simp_all add: phase_body_def)
  then obtain f where "a0_build_frame (phase_control (pf_phase s)) (phase_control (pf_phase s)) (phase_body (pf_phase s)) = Inr f"
    using a0_build_Inr by blast
  with assms show ?thesis by (simp add: next_request_def fresh_def phase_ended_def)
qed

lemma ack_taken:
  assumes "\<not> phase_ended (pf_phase s)" "pf_request_submitted s" "\<not> pf_ack_seen s" "\<not> pf_logical_done s"
    "status = 1 \<or> status = 7"
  shows "preflight_step (Handle_A0 (sensor_frame 0xb0 [phase_control (pf_phase s), status])) s =
    (Accept, s\<lparr>pf_ack_seen := True, pf_audit := (pf_audit s)\<lparr>pa_ack_count := pa_ack_count (pf_audit s) + 1\<rparr>\<rparr>)"
proof -
  obtain f where "sensor_frame 0xb0 [phase_control (pf_phase s), status] = Some f" "5 \<le> length f" "f ! 4 = 0xb0"
    "a0_parse_frame (Some f) 0xb0 = Inr \<lparr>control = 0xb0, body = [phase_control (pf_phase s), status]\<rparr>"
    by (rule sensor_frame_parsed [of "[phase_control (pf_phase s), status]" "0xb0"]) simp_all
  with assms show ?thesis by (auto simp: handle_a0_def Let_def)
qed

lemma sensor_answer_length: "sensor_sound d \<Longrightarrow> length (sensor_answer d p) \<le> 65531"
  by (cases p) (auto simp: sensor_sound_def sensor_answer_def dest: envelope_length config90_accepts(2))

lemma answer_taken:
  assumes d: "sensor_sound d" and s: "\<not> phase_ended (pf_phase s)" "evidence_shape (pf_evidence s)"
    "collected (phase_index (pf_phase s)) d (pf_evidence s)"
    and flags: "pf_request_submitted s" "pf_ack_seen s" "\<not> pf_logical_done s"
  obtains s1 where "preflight_step (Handle_A0 (sensor_frame (phase_control (pf_phase s)) (sensor_answer d (pf_phase s)))) s =
      (Accept, maybe_advance s1)" "pf_logical_done s1"
    "pf_phase s1 = pf_phase s" "pf_out_pending s1 = pf_out_pending s" "evidence_shape (pf_evidence s1)"
    "collected (phase_index (pf_phase s) + 1) d (pf_evidence s1)"
proof -
  let ?c = "phase_control (pf_phase s)" and ?bs = "sensor_answer d (pf_phase s)"
  obtain f where f: "sensor_frame ?c ?bs = Some f" "5 \<le> length f" "f ! 4 = ?c"
    "a0_parse_frame (Some f) ?c = Inr \<lparr>control = ?c, body = ?bs\<rparr>"
    by (rule sensor_frame_parsed [OF sensor_answer_length [OF d]])
  obtain s1 where s1: "accept_typed ?bs s = (True, s1)" "collected (phase_index (pf_phase s) + 1) d (pf_evidence s1)"
    by (rule sensor_answer_accepted [OF d s])
  have "?c \<noteq> 0xb0" using s(1) by (cases "pf_phase s") (simp_all add: phase_control_def phase_ended_def)
  with f s(1) flags s1(1) have "preflight_step (Handle_A0 (sensor_frame ?c ?bs)) s = (Accept, maybe_advance (s1\<lparr>pf_logical_done := True,
      pf_audit := (pf_audit s1)\<lparr>pa_typed_response_count := pa_typed_response_count (pf_audit s1) + 1\<rparr>\<rparr>))"
    by (simp add: handle_a0_def Let_def)
  then show thesis
    by (rule that) (use accept_typed_frame [OF s1(1)] accept_typed_evidence(1) [OF s1(1) s(2)] s1(2) in simp_all)
qed

lemma advance_fresh:
  assumes "pf_logical_done s" "\<not> pf_out_pending s" "\<not> phase_ended (pf_phase s)"
  shows "fresh (maybe_advance s)" "pf_phase (maybe_advance s) = next_phase (pf_phase s)"
    "pf_evidence (maybe_advance s) = pf_evidence s"
  using assms by (simp_all add: maybe_advance_def Let_def fresh_def)

lemma request_sent:
  assumes "\<not> phase_ended (pf_phase s)" "pf_out_pending s"
  shows "preflight_step (Out_Complete False) s = (Accept, maybe_advance (s\<lparr>pf_out_pending := False\<rparr>))"
  using assms by (simp add: out_complete_def)

lemma not_advanced: "\<not> pf_logical_done s \<or> pf_out_pending s \<Longrightarrow> maybe_advance s = s"
  by (auto simp: maybe_advance_def)

lemma exchange_completes:
  assumes d: "sensor_sound d" "status = 1 \<or> status = 7"
    and s: "fresh s" "\<not> phase_ended (pf_phase s)" "evidence_shape (pf_evidence s)"
      "collected (phase_index (pf_phase s)) d (pf_evidence s)"
  obtains s1 where "run_ops preflight_step (exchange status d k (pf_phase s)) s = (replicate 4 Accept, s1)"
    "fresh s1" "pf_phase s1 = next_phase (pf_phase s)" "evidence_shape (pf_evidence s1)"
    "collected (phase_index (pf_phase s) + 1) d (pf_evidence s1)"
proof -
  let ?p = "pf_phase s"
  let ?ack = "Handle_A0 (sensor_frame 0xb0 [phase_control ?p, status])"
  let ?answer = "Handle_A0 (sensor_frame (phase_control ?p) (sensor_answer d ?p))"
  define r where "r = s\<lparr>pf_request_submitted := True, pf_out_pending := True,
    pf_audit := (pf_audit s)\<lparr>pa_command_count := pa_command_count (pf_audit s) + 1\<rparr>\<rparr>"
  have r: "preflight_step Next_Request s = (Accept, r)" using request_made [OF s(1,2)] by (simp add: r_def)
  have r_fields: "pf_phase r = ?p" "pf_evidence r = pf_evidence s" "pf_request_submitted r" "pf_out_pending r"
    "\<not> pf_ack_seen r" "\<not> pf_logical_done r" using s(1) by (simp_all add: r_def fresh_def)
  obtain before where before: "(if k = 0 then run_ops preflight_step [Next_Request, Out_Complete False, ?ack] s
      else if k = 1 then run_ops preflight_step [Next_Request, ?ack, Out_Complete False] s
      else (Accept # fst (run_ops preflight_step [Next_Request, ?ack] s), snd (run_ops preflight_step [Next_Request, ?ack] s)))
      = ([Accept, Accept, Accept], before)"
    "pf_phase before = ?p" "pf_evidence before = pf_evidence s" "pf_request_submitted before" "pf_ack_seen before"
    "\<not> pf_logical_done before" "pf_out_pending before \<longleftrightarrow> 1 < k"
  proof -
    let ?sent = "r\<lparr>pf_out_pending := False\<rparr>"
    let ?acked = "\<lambda>t. t\<lparr>pf_ack_seen := True, pf_audit := (pf_audit t)\<lparr>pa_ack_count := pa_ack_count (pf_audit t) + 1\<rparr>\<rparr>"
    have sent: "preflight_step (Out_Complete False) r = (Accept, ?sent)"
      "preflight_step (Out_Complete False) (?acked r) = (Accept, (?acked r)\<lparr>pf_out_pending := False\<rparr>)"
      using s(2) r_fields request_sent [of r] request_sent [of "?acked r"] by (simp_all add: not_advanced)
    have acked: "preflight_step ?ack r = (Accept, ?acked r)" "preflight_step ?ack ?sent = (Accept, ?acked ?sent)"
      using s(2) r_fields ack_taken [of r status] ack_taken [of ?sent status] d(2) by simp_all
    define before where "before = (if k = 0 then ?acked ?sent
      else if k = 1 then (?acked r)\<lparr>pf_out_pending := False\<rparr> else ?acked r)"
    show thesis
      by (rule that [of before], cases "k = 0"; cases "k = 1")
        (simp_all add: run_ops.simps(2) r sent acked before_def r_fields del: preflight_step.simps)
  qed
  have "\<not> phase_ended (pf_phase before)" using before s by simp
  from answer_taken [OF d(1) this] before s obtain s1 where
    s1: "preflight_step ?answer before = (Accept, maybe_advance s1)" "pf_logical_done s1"
    "pf_phase s1 = ?p" "pf_out_pending s1 \<longleftrightarrow> 1 < k" "evidence_shape (pf_evidence s1)"
    "collected (phase_index ?p + 1) d (pf_evidence s1)" by auto
  define last where "last = s1\<lparr>pf_out_pending := False\<rparr>"
  have last: "fresh (maybe_advance last)" "pf_phase (maybe_advance last) = next_phase ?p"
    "pf_evidence (maybe_advance last) = pf_evidence s1"
    using advance_fresh [of last] s(2) s1(2,3) by (simp_all add: last_def)
  have "run_ops preflight_step (exchange status d k ?p) s = (replicate 4 Accept, maybe_advance last)"
  proof (cases "1 < k")
    case True
    with s1 have "preflight_step ?answer before = (Accept, s1)" by (simp add: not_advanced del: preflight_step.simps)
    moreover have "preflight_step (Out_Complete False) s1 = (Accept, maybe_advance last)"
      using request_sent [of s1] s(2) s1(3,4) True by (simp add: last_def del: preflight_step.simps)
    moreover have "run_ops preflight_step [Next_Request, ?ack] s = ([Accept, Accept], before)"
      using before(1) True by (cases "run_ops preflight_step [Next_Request, ?ack] s") auto
    ultimately show ?thesis using True
      by (auto simp: exchange_def Let_def run_ops.simps(2) numeral_eq_Suc simp del: preflight_step.simps
          split: prod.splits)
  next
    case False
    then have "last = s1" using s1(4) by (simp add: last_def)
    with s1 have answer: "preflight_step ?answer before = (Accept, maybe_advance last)"
      by (simp del: preflight_step.simps)
    from False consider "k = 0" | "k = 1" by linarith
    then show ?thesis
      by cases (use before(1) answer in
        \<open>auto simp: exchange_def Let_def run_ops.simps(2) numeral_eq_Suc simp del: preflight_step.simps
          split: prod.splits\<close>)
  qed
  then show thesis using last s1 that by metis
qed

lemma exchanges_complete:
  assumes "sensor_sound d" "status = 1 \<or> status = 7"
    and "fresh s" "evidence_shape (pf_evidence s)" "collected (phase_index (pf_phase s)) d (pf_evidence s)"
      "phase_index (pf_phase s) + length order \<le> 7"
  shows "list_all (\<lambda>r. r = Accept) (fst (run_ops preflight_step (exchanges status d order (pf_phase s)) s)) \<and>
    phase_index (pf_phase (snd (run_ops preflight_step (exchanges status d order (pf_phase s)) s))) =
      phase_index (pf_phase s) + length order \<and>
    collected (phase_index (pf_phase s) + length order) d
      (pf_evidence (snd (run_ops preflight_step (exchanges status d order (pf_phase s)) s)))"
  using assms(3-6)
proof (induction order arbitrary: s)
  case (Cons k ks)
  have on: "\<not> phase_ended (pf_phase s)"
    using Cons.prems(4) by (cases "pf_phase s") (simp_all add: phase_index_def phase_ended_def)
  from Cons.prems on obtain s1 where
    s1: "run_ops preflight_step (exchange status d k (pf_phase s)) s = (replicate 4 Accept, s1)"
    "fresh s1" "pf_phase s1 = next_phase (pf_phase s)" "evidence_shape (pf_evidence s1)"
    "collected (phase_index (pf_phase s) + 1) d (pf_evidence s1)"
    using exchange_completes [OF assms(1,2), of s k] by blast
  have "phase_index (pf_phase s1) = phase_index (pf_phase s) + 1" using s1(3) phase_index_next [OF on] by simp
  with Cons.IH [of s1] s1 Cons.prems(4) show ?case
    by (simp add: run_ops_append case_prod_beta list_all_iff)
qed simp

lemma stopped_counts:
  assumes "preflight_inv s" "pf_phase s = STOP"
  shows "pa_command_count (pf_audit s) = 7" "pa_ack_count (pf_audit s) = 7"
    "pa_typed_response_count (pf_audit s) = 7" "pa_complete (pf_audit s)"
    "pa_retry_count (pf_audit s) = 0" "pa_persistent_write_count (pf_audit s) = 0"
    "gathered 7 (pf_evidence s) (pf_audit s)"
proof -
  have flags: "\<not> pf_request_submitted s" "\<not> pf_ack_seen s" "\<not> pf_logical_done s"
    using assms by (auto simp: preflight_inv_def)
  with assms show "pa_command_count (pf_audit s) = 7" "pa_ack_count (pf_audit s) = 7"
    "pa_typed_response_count (pf_audit s) = 7" "pa_complete (pf_audit s)"
    "pa_retry_count (pf_audit s) = 0" "pa_persistent_write_count (pf_audit s) = 0"
    "gathered 7 (pf_evidence s) (pf_audit s)"
    by (simp_all add: preflight_inv_def responses_accepted_def phase_index_def)
qed

lemma collected_all:
  assumes "collected 7 d e"
  shows "ev_a2_response e = sn_a2 d" "take (ev_identity_length e) (ev_identity e) = sn_app d"
    "ev_bb010002 e = sn_envelope d" "ev_validator e = sn_validator d" "ev_chip_response e = sn_chip d"
    "ev_otp e = sn_otp d"
    "config90_derive (le16 (sn_chip d ! 1) (sn_chip d ! 2)) (Some (sn_otp d)) = (Accept, ev_config90 e, ev_calibration e)"
  using assms by (auto simp: collected_def)

lemma sensor_run:
  assumes "sensor_sound d" "status = 1 \<or> status = 7" "length order = 7"
  defines "out \<equiv> run_ops preflight_step (exchanges status d order REENTRY_A2) preflight_new"
  shows "list_all (\<lambda>r. r = Accept) (fst out)" "pf_phase (snd out) = STOP"
    "preflight_copy_evidence (snd out) = (True, pf_evidence (snd out))"
    "collected 7 d (pf_evidence (snd out))"
proof -
  have start: "fresh preflight_new" "evidence_shape (pf_evidence preflight_new)"
    "collected (phase_index (pf_phase preflight_new)) d (pf_evidence preflight_new)"
    "phase_index (pf_phase preflight_new) + length order \<le> 7" "pf_phase preflight_new = REENTRY_A2"
    using assms(3) preflight_inv_start
    by (simp_all add: fresh_def preflight_new_def collected_def phase_index_def preflight_inv_def)
  note run = exchanges_complete [OF assms(1,2) start(1-4), unfolded start(5), folded out_def]
  then show "list_all (\<lambda>r. r = Accept) (fst out)" "collected 7 d (pf_evidence (snd out))"
    using assms(3) by (simp_all add: phase_index_def [of REENTRY_A2])
  have "phase_index (pf_phase (snd out)) = 7" using run assms(3) by (simp add: phase_index_def [of REENTRY_A2])
  then show "pf_phase (snd out) = STOP" by (cases "pf_phase (snd out)") (simp_all add: phase_index_def)
  then show "preflight_copy_evidence (snd out) = (True, pf_evidence (snd out))"
    by (simp add: preflight_copy_evidence_def)
qed

definition sample_sensor :: sensor where
  "sample_sensor = \<lparr>sn_a2 = [1, 2, 3], sn_app = app12509,
     sn_envelope = [1, 0, 0, 0] @ dpapi_provider_guid @ [1, 0, 0, 0] @ [9, 0, 0, 0, 0, 0, 0, 0, 0, 0, 0, 0, 0, 0, 0, 0] @
       [4, 0, 0, 0] @ [64, 0, 0, 0] @ expected_description @ [0x10, 0x66, 0, 0] @ [0, 1, 0, 0] @ [32, 0, 0, 0] @
       replicate 32 0 @ [0, 0, 0, 0] @ [0x0e, 0x80, 0, 0] @ [0, 2, 0, 0] @ [32, 0, 0, 0] @ replicate 32 0 @
       [48, 0, 0, 0] @ replicate 48 0 @ [64, 0, 0, 0] @ replicate 72 0,
     sn_validator = replicate 32 0, sn_chip = [0, 0x04, 0x25, 0], sn_otp = sample_otp\<rparr>"

lemma sample_sensor_sound: "sensor_sound sample_sensor"
proof -
  have "length (sn_envelope sample_sensor) = 332"
    by (simp add: sample_sensor_def length_description)
  moreover have "dpapi_walk bb010002_expected (sn_envelope sample_sensor) = Some DPAPI_BLOB_LENGTH"
    unfolding dpapi_walk_iff [OF calculation]
    by (simp add: sample_sensor_def dpapi_fields_def length_description)
  moreover have "le16 0x04 0x25 = 0x2504" by (simp add: le16_def)
  ultimately show ?thesis
    using sample_accepted by (simp add: sensor_sound_def bb010002_validate_def sample_sensor_def)
qed

definition sample_calls :: "preflight_call list" where
  "sample_calls = exchanges 7 sample_sensor [0, 1, 2, 0, 1, 2, 0] REENTRY_A2"

definition sample_evidence :: preflight_evidence where
  "sample_evidence = pf_evidence (snd (run_ops preflight_step sample_calls preflight_new))"

lemma sample_run:
  "preflight_copy_evidence (snd (run_ops preflight_step sample_calls preflight_new)) = (True, sample_evidence)"
  "collected 7 sample_sensor sample_evidence"
  unfolding sample_calls_def sample_evidence_def by (rule sensor_run [OF sample_sensor_sound]; simp)+

section \<open>Properties\<close>

text \<open>
  Claim C31. Every call on a discovery object leaves a well-formed object: the evidence arrays
  keep their declared sizes whatever frame arrives, no retry and no persistent write is ever
  counted, and an error is stored exactly in the terminal phase.
\<close>

lemma preflight_shape:
  "let s = snd (run_ops preflight_step calls preflight_new) in
    evidence_shape (pf_evidence s) \<and> pa_retry_count (pf_audit s) = 0 \<and>
    pa_persistent_write_count (pf_audit s) = 0 \<and> (pf_phase s = TERMINAL) = (pf_error s \<noteq> None)"
  using preflight.inv_run [of calls] by (auto simp: preflight_inv_def Let_def)

text \<open>
  Claim C29. Evidence is handed out only when it is complete and consistent: after any calls, if
  the evidence can be copied then exactly seven requests, acknowledgements and responses were
  counted, the identity is one of the two known firmwares with its matching name, the envelope
  is a valid one, the chip identifier is the one in the stored chip response and is supported,
  and the configuration and calibration are those derived from the stored OTP for that chip.
\<close>

lemma preflight_evidence_complete:
  assumes "preflight_copy_evidence (snd (run_ops preflight_step calls preflight_new)) = (True, e)"
  shows "let a = pf_audit (snd (run_ops preflight_step calls preflight_new)) in
    pa_command_count a = 7 \<and> pa_ack_count a = 7 \<and> pa_typed_response_count a = 7 \<and> pa_complete a \<and>
    pa_exact_app a \<and> pa_supported_chip_profile a \<and> pa_otp_valid a \<and> pa_bb010002_valid a \<and> pa_config90_derived a \<and>
    (take (ev_identity_length e) (ev_identity e), take 9 (ev_app e)) \<in>
      {(app12509, app_name12509), (app12508, app_name12508)} \<and>
    bb010002_validate (Some (ev_bb010002 e)) = (Accept, bb010002_expected) \<and>
    ev_chip_id e = le16 (ev_chip_response e ! 1) (ev_chip_response e ! 2) \<and> ev_chip_id e \<in> {0x2503, 0x2504} \<and>
    config90_derive (ev_chip_id e) (Some (ev_otp e)) = (Accept, ev_config90 e, ev_calibration e)"
proof -
  let ?s = "snd (run_ops preflight_step calls preflight_new)"
  have s: "pf_phase ?s = STOP" "pf_evidence ?s = e"
    using assms(1) by (auto simp: preflight_copy_evidence_def split: if_splits)
  note counts = stopped_counts [OF preflight.inv_run s(1), unfolded s(2)]
  from counts(7) show ?thesis
    unfolding Let_def by (intro conjI) (simp_all only: counts gathered_def, auto)
qed

lemma preflight_evidence_complete_witness:
  "config90_derive 0x2504 (Some sample_otp) = (Accept, ev_config90 sample_evidence, ev_calibration sample_evidence)"
proof -
  have "le16 0x04 0x25 = 0x2504" by (simp add: le16_def)
  then have "ev_chip_id sample_evidence = 0x2504" "ev_otp sample_evidence = sample_otp"
    using sample_run(2) by (simp_all add: collected_def) (simp_all add: sample_sensor_def)
  then show ?thesis
    using preflight_evidence_complete [OF sample_run(1)] by (simp add: Let_def)
qed

text \<open>
  Claim C30. Discovery succeeds on a sound sensor: whatever of the three orders the transport
  completion takes in each of the seven phases, and with either acknowledgement status, every
  call is accepted, the object stops, and the evidence handed out is the sensor's data with the
  configuration derived from it.
\<close>

lemma preflight_completes:
  assumes "sensor_sound d" and "status = 1 \<or> status = 7" and "length order = 7"
  shows "\<exists>s e. run_ops preflight_step (exchanges status d order REENTRY_A2) preflight_new =
      (replicate 28 Accept, s) \<and> preflight_copy_evidence s = (True, e) \<and> \<not> preflight_needs_receive s \<and>
    ev_a2_response e = sn_a2 d \<and> take (ev_identity_length e) (ev_identity e) = sn_app d \<and>
    ev_bb010002 e = sn_envelope d \<and> ev_validator e = sn_validator d \<and> ev_chip_response e = sn_chip d \<and>
    ev_otp e = sn_otp d \<and>
    config90_derive (le16 (sn_chip d ! 1) (sn_chip d ! 2)) (Some (sn_otp d)) = (Accept, ev_config90 e, ev_calibration e)"
proof -
  let ?out = "run_ops preflight_step (exchanges status d order REENTRY_A2) preflight_new"
  note run = sensor_run [OF assms]
  have "length (exchanges status d ks p) = 4 * length ks" for ks p
    by (induction ks arbitrary: p) (simp_all add: exchange_def Let_def)
  then have "length (fst ?out) = 28" using assms(3) by simp
  then have "fst ?out = replicate 28 Accept"
    using run(1) by (intro nth_equalityI) (auto simp: list_all_length)
  then have "?out = (replicate 28 Accept, snd ?out)" by (metis prod.collapse)
  then show ?thesis
    using run(2,3) collected_all [OF run(4)]
    by (intro exI [of _ "snd ?out"] exI [of _ "pf_evidence (snd ?out)"])
      (simp add: preflight_needs_receive_def phase_ended_def)
qed

lemma preflight_completes_witness:
  "\<exists>s e. run_ops preflight_step (exchanges 1 sample_sensor [2, 2, 2, 2, 2, 2, 2] REENTRY_A2) preflight_new =
      (replicate 28 Accept, s) \<and> preflight_copy_evidence s = (True, e) \<and> ev_a2_response e = [1, 2, 3]"
proof -
  have "sn_a2 sample_sensor = [1, 2, 3]" by (simp add: sample_sensor_def)
  then show ?thesis
    using preflight_completes [OF sample_sensor_sound, of 1 "[2, 2, 2, 2, 2, 2, 2]"] by (auto simp del: run_ops.simps)
qed

end
