(* ===== verification/Tls_Server.thy ===== *)
theory Tls_Server
  imports Prelude
begin

text \<open>
  The TLS server of the driver (\<^verbatim>\<open>goodix_tls_server.c\<close>): it feeds OpenSSL through memory
  BIOs, hands the project secret over once, cuts the output of OpenSSL into TLS records and
  delivers plaintext. OpenSSL is a parameter. The server object and its audit always exist,
  and both callbacks are given. A callback works on the server and on the data of the owner;
  the only call it makes on the server is a cancellation.
\<close>

section \<open>OpenSSL\<close>

text \<open>
  A call of OpenSSL may ask the PSK callback: the identity it received and the room for the
  secret; the secret it gets back (empty when refused) decides how it goes on.
\<close>

datatype ('s, 'r) ssl_run = Ssl_Return 'r 's | Ssl_Ask_Psk "string option" nat "bytes \<Rightarrow> ('s, 'r) ssl_run"

datatype ssl_result = Ssl_Complete | Ssl_Want | Ssl_Zero_Return | Ssl_Failed

text \<open>
  What the server uses of OpenSSL on the state \<open>'s\<close> of an \<^verbatim>\<open>SSL\<close> object and its BIOs: the
  setup; \<^verbatim>\<open>BIO_write\<close>; \<^verbatim>\<open>SSL_do_handshake\<close>; \<^verbatim>\<open>SSL_read_ex\<close> called until it does not
  succeed, with the pieces read and the last result; \<^verbatim>\<open>BIO_read\<close> called while output is
  pending, with the pieces read and whether a read failed. The input BIO holds finitely many
  bytes, so the calls of a loop are a finite list.
\<close>

record 's ssl_engine =
  ssl_setup :: "'s option"
  bio_write :: "bytes \<Rightarrow> 's \<Rightarrow> int \<times> 's"
  ssl_do_handshake :: "'s \<Rightarrow> ('s, ssl_result) ssl_run"
  ssl_read_all :: "'s \<Rightarrow> ('s, bytes list \<times> ssl_result) ssl_run"
  bio_read_pending :: "'s \<Rightarrow> (bytes list \<times> bool) \<times> 's"

section \<open>State\<close>

datatype tls_state = TLS_STATE_HANDSHAKE | TLS_STATE_ESTABLISHED | TLS_STATE_TERMINAL

record tls_audit =
  tl_secret_handoff_count :: u32
  tl_handshake_count :: u32
  tl_plaintext_delivery_count :: u32
  tl_terminal_completion_count :: u32
  tl_project_secret_zeroized :: bool
  tl_second_handoff_rejected :: bool

record 's tls_server =
  tl_ssl :: 's
  tl_psk :: "bytes option"
  tl_handed_off :: bool
  tl_state :: tls_state
  tl_output_pending :: bytes
  tl_audit :: tls_audit

text \<open>The code of the error domain.\<close>

datatype tls_error = Tls_Error nat

type_synonym ('s, 'w) tls_callback = "bytes \<Rightarrow> 's tls_server \<times> 'w \<Rightarrow> 's tls_server \<times> 'w"

definition TLS_IDENTITY :: string where
  "TLS_IDENTITY = ''Client_identity''"

definition tls_audit_zero :: tls_audit where
  "tls_audit_zero = \<lparr>tl_secret_handoff_count = 0, tl_handshake_count = 0, tl_plaintext_delivery_count = 0,
     tl_terminal_completion_count = 0, tl_project_secret_zeroized = False, tl_second_handoff_rejected = False\<rparr>"

definition tls_server_new :: "'s ssl_engine \<Rightarrow> bytes option \<Rightarrow> tls_audit \<Rightarrow> tls_error + 's tls_server" where
  "tls_server_new e psk audit =
     (case psk of
        None \<Rightarrow> Inl (Tls_Error 2)
      | Some secret \<Rightarrow>
          if secret = [] \<or> length secret > 2 ^ 32 - 1 then Inl (Tls_Error 2)
          else case ssl_setup e of
              None \<Rightarrow> Inl (Tls_Error 3)
            | Some ssl \<Rightarrow> Inr \<lparr>tl_ssl = ssl, tl_psk = Some secret, tl_handed_off = False,
                tl_state = TLS_STATE_HANDSHAKE, tl_output_pending = [], tl_audit = audit\<rparr>)"

section \<open>The secret\<close>

definition tls_terminal :: "'s tls_server \<Rightarrow> 's tls_server" where
  "tls_terminal t =
     (if tl_state t \<noteq> TLS_STATE_TERMINAL
      then t\<lparr>tl_state := TLS_STATE_TERMINAL, tl_audit := (tl_audit t)\<lparr>tl_terminal_completion_count :=
             tl_terminal_completion_count (tl_audit t) + 1\<rparr>\<rparr>
      else t)"

definition cleanse_project_secret :: "'s tls_server \<Rightarrow> 's tls_server" where
  "cleanse_project_secret t =
     (if tl_psk t \<noteq> None
      then t\<lparr>tl_psk := None, tl_audit := (tl_audit t)\<lparr>tl_project_secret_zeroized := True\<rparr>\<rparr>
      else t)"

definition psk_cb :: "string option \<Rightarrow> nat \<Rightarrow> 's tls_server \<Rightarrow> bytes \<times> 's tls_server" where
  "psk_cb identity room t =
     (case tl_psk t of
        Some secret \<Rightarrow>
          if tl_handed_off t \<or> identity \<noteq> Some TLS_IDENTITY \<or> length secret > room
          then ([], if tl_handed_off t
            then t\<lparr>tl_audit := (tl_audit t)\<lparr>tl_second_handoff_rejected := True\<rparr>\<rparr> else t)
          else (secret, cleanse_project_secret (t\<lparr>tl_handed_off := True, tl_audit := (tl_audit t)
            \<lparr>tl_secret_handoff_count := tl_secret_handoff_count (tl_audit t) + 1\<rparr>\<rparr>))
      | None \<Rightarrow> ([], if tl_handed_off t
            then t\<lparr>tl_audit := (tl_audit t)\<lparr>tl_second_handoff_rejected := True\<rparr>\<rparr> else t))"

primrec run_ssl :: "('s, 'r) ssl_run \<Rightarrow> 's tls_server \<Rightarrow> 'r \<times> 's tls_server" where
  "run_ssl (Ssl_Return r ssl) t = (r, t\<lparr>tl_ssl := ssl\<rparr>)"
| "run_ssl (Ssl_Ask_Psk identity room k) t = (let (reply, t1) = psk_cb identity room t in run_ssl (k reply) t1)"

section \<open>Output and plaintext\<close>

definition tls_record_length :: "bytes \<Rightarrow> nat" where
  "tls_record_length d = 5 + unat (d ! 3) * 256 + unat (d ! 4)"

text \<open>
  Every complete record at the head of the pending output is handed to the callback. The
  bytes stay pending while the callback runs, and the callback does not touch them.
\<close>

function deliver_records ::
    "('s, 'w) tls_callback \<Rightarrow> bytes \<Rightarrow> 's tls_server \<times> 'w \<Rightarrow> bool \<times> 's tls_server \<times> 'w" where
  "deliver_records out pending (t, w) =
     (let t0 = t\<lparr>tl_output_pending := pending\<rparr>; n = tls_record_length pending in
      if length pending < 5 then (True, t0, w)
      else if n > 65535 + 5 then (False, tls_terminal t0, w)
      else if length pending < n then (True, t0, w)
      else deliver_records out (drop n pending) (out (take n pending) (t0, w)))"
  by pat_completeness auto
termination
  by (relation "measure (\<lambda>(out, pending, tw). length pending)") (auto simp: tls_record_length_def)

declare deliver_records.simps [simp del]

definition drain_output :: "'s ssl_engine \<Rightarrow> ('s, 'w) tls_callback \<Rightarrow> 's tls_server \<times> 'w \<Rightarrow> bool \<times> 's tls_server \<times> 'w" where
  "drain_output e out tw =
     (let (t, w) = tw; ((pieces, failed), ssl) = bio_read_pending e (tl_ssl t);
          pending = tl_output_pending t @ concat pieces
      in if failed then (False, tls_terminal (t\<lparr>tl_ssl := ssl, tl_output_pending := pending\<rparr>), w)
         else deliver_records out pending (t\<lparr>tl_ssl := ssl\<rparr>, w))"

definition read_plaintext ::
    "'s ssl_engine \<Rightarrow> ('s, 'w) tls_callback \<Rightarrow> ('s, 'w) tls_callback \<Rightarrow> 's tls_server \<times> 'w \<Rightarrow> bool \<times> 's tls_server \<times> 'w" where
  "read_plaintext e out plain tw =
     (let (t, w) = tw; ((pieces, result), t1) = run_ssl (ssl_read_all e (tl_ssl t)) t; plaintext = concat pieces in
      if result \<noteq> Ssl_Want then (False, tls_terminal t1, w)
      else drain_output e out
        (if plaintext \<noteq> []
         then let (t2, w2) = plain plaintext (t1, w)
              in (t2\<lparr>tl_audit := (tl_audit t2)\<lparr>tl_plaintext_delivery_count := tl_plaintext_delivery_count (tl_audit t2) + 1\<rparr>\<rparr>, w2)
         else (t1, w)))"

section \<open>Operations\<close>

text \<open>A refusal always carries the error of \<^verbatim>\<open>terminal\<close>.\<close>

definition tls_reply :: "bool \<Rightarrow> tls_error reply" where
  "tls_reply ok = (if ok then Accept else Reject (Tls_Error 1))"

definition tls_server_push ::
    "'s ssl_engine \<Rightarrow> ('s, 'w) tls_callback \<Rightarrow> ('s, 'w) tls_callback \<Rightarrow> bytes \<Rightarrow> 's tls_server \<times> 'w
       \<Rightarrow> tls_error reply \<times> 's tls_server \<times> 'w" where
  "tls_server_push e out plain data tw =
     (let (t, w) = tw in
      if tl_state t = TLS_STATE_TERMINAL \<or> data = [] \<or> length data > 2 ^ 31 - 1
      then (tls_reply False, tls_terminal t, w)
      else
        let (written, ssl) = bio_write e data (tl_ssl t); t1 = t\<lparr>tl_ssl := ssl\<rparr> in
        if written \<noteq> int (length data) then (tls_reply False, tls_terminal t1, w)
        else if tl_state t1 = TLS_STATE_ESTABLISHED
        then let (ok, tw2) = read_plaintext e out plain (t1, w) in (tls_reply ok, tw2)
        else
          let (result, t2) = run_ssl (ssl_do_handshake e (tl_ssl t1)) t1;
              (drained, t3, w3) = drain_output e out (t2, w) in
          if \<not> drained then (tls_reply False, t3, w3)
          else if result = Ssl_Complete then
            let t4 = t3\<lparr>tl_state := TLS_STATE_ESTABLISHED, tl_audit := (tl_audit t3)
                  \<lparr>tl_handshake_count := tl_handshake_count (tl_audit t3) + 1\<rparr>\<rparr>;
                (ok, tw5) = read_plaintext e out plain (t4, w3)
            in (tls_reply ok, tw5)
          else if result = Ssl_Want then (Accept, t3, w3)
          else (tls_reply False, tls_terminal t3, w3))"

definition tls_server_eof :: "'s tls_server \<Rightarrow> tls_error reply \<times> 's tls_server" where
  "tls_server_eof t = (tls_reply False, tls_terminal t)"

definition tls_server_cancel :: "'s tls_server \<Rightarrow> 's tls_server" where
  "tls_server_cancel t = tls_terminal t"

end
