(* ===== verification/Secure_Session.thy ===== *)
theory Secure_Session
  imports Tls_Server A0_Protocol
begin

text \<open>
  The secure session (\<^verbatim>\<open>goodix_secure_session.c\<close>): fourteen strictly ordered commands with
  their acknowledgements and pinned responses, then the TLS handshake carried in B0 messages
  of 64-byte transfers, one record at a time with a pause between records. The session, its
  audit and the frame pointers' targets exist; messages of errors are left out, their codes
  are kept. The backend is an argument that works on the user data: a submission is
  asynchronous (the synchronous seam of the tests, and the check behind it, are left out).
  The owner's callbacks are arguments too; the phase callback makes the calls on the session
  that the driver's makes. Audit fields that the code never writes are left out.
\<close>

section \<open>Phases\<close>

datatype secure_phase =
    SECURE_REENTRY_RECOVERY_A2 | SECURE_A8 | SECURE_E4 | SECURE_OEM_COLD_START_A2_1 | SECURE_CHIP_82
  | SECURE_OTP_A6 | SECURE_OEM_COLD_START_A2_2 | SECURE_MODE_70 | SECURE_DAC_220 | SECURE_DAC_236
  | SECURE_DAC_238 | SECURE_DAC_23A | SECURE_CONFIG_90 | SECURE_D1 | SECURE_TLS | SECURE_STOP | SECURE_TERMINAL

definition secure_phases :: "secure_phase list" where
  "secure_phases = [SECURE_REENTRY_RECOVERY_A2, SECURE_A8, SECURE_E4, SECURE_OEM_COLD_START_A2_1, SECURE_CHIP_82,
     SECURE_OTP_A6, SECURE_OEM_COLD_START_A2_2, SECURE_MODE_70, SECURE_DAC_220, SECURE_DAC_236, SECURE_DAC_238,
     SECURE_DAC_23A, SECURE_CONFIG_90, SECURE_D1, SECURE_TLS, SECURE_STOP, SECURE_TERMINAL]"

text \<open>The value of an enumeration constant; the phases are compared by it.\<close>

primrec secure_number :: "secure_phase \<Rightarrow> nat" where
  "secure_number SECURE_REENTRY_RECOVERY_A2 = 0" | "secure_number SECURE_A8 = 1" | "secure_number SECURE_E4 = 2"
| "secure_number SECURE_OEM_COLD_START_A2_1 = 3" | "secure_number SECURE_CHIP_82 = 4" | "secure_number SECURE_OTP_A6 = 5"
| "secure_number SECURE_OEM_COLD_START_A2_2 = 6" | "secure_number SECURE_MODE_70 = 7" | "secure_number SECURE_DAC_220 = 8"
| "secure_number SECURE_DAC_236 = 9" | "secure_number SECURE_DAC_238 = 10" | "secure_number SECURE_DAC_23A = 11"
| "secure_number SECURE_CONFIG_90 = 12" | "secure_number SECURE_D1 = 13" | "secure_number SECURE_TLS = 14"
| "secure_number SECURE_STOP = 15" | "secure_number SECURE_TERMINAL = 16"

datatype out_kind = OUT_KIND_NONE | OUT_KIND_A0 | OUT_KIND_B0

datatype protocol_failure_kind =
    FAILURE_ACK_STATUS_REJECTED | FAILURE_ACK_ECHO_MISMATCH | FAILURE_ACK_SHAPE_MISMATCH
  | FAILURE_TYPED_CONTROL_MISMATCH | FAILURE_TYPED_SHAPE_MISMATCH | FAILURE_TYPED_VALUE_MISMATCH
  | FAILURE_UNEXPECTED_OUTER_CLASS | FAILURE_MALFORMED_FRAME

datatype e4_contract =
    E4_CONTRACT_NOT_EVALUATED | E4_CONTRACT_BODY_LENGTH_MISMATCH | E4_CONTRACT_PREFIX_MISMATCH
  | E4_CONTRACT_VALIDATOR_MISMATCH | E4_CONTRACT_DIGEST_MISMATCH | E4_CONTRACT_MATCH

datatype recovery_class =
    RECOVERY_NOT_STARTED | RECOVERY_SUBMITTED | RECOVERY_ACK_STRICT | RECOVERY_STRICT_MATCH | RECOVERY_FAIL_CLOSED

datatype secure_error =
    SECURE_ERROR_MATERIAL | SECURE_ERROR_STATE | SECURE_ERROR_PROTOCOL | SECURE_ERROR_TRANSPORT | SECURE_ERROR_TLS

datatype session_error = Session_Error secure_error | Session_Tls tls_error | Session_Other gerror

section \<open>State\<close>

record secure_material =
  mt_expected_identity :: "bytes option"
  mt_e4_validator :: "bytes option"
  mt_e4_validator_sha256 :: bytes
  mt_a2_response_sha256 :: bytes
  mt_chip82_response_sha256 :: bytes
  mt_otp_a6_response_sha256 :: bytes
  mt_dac_values :: "(u8 \<times> u8) list"
  mt_config90 :: "bytes option"
  mt_config90_sha256 :: bytes
  mt_psk :: "bytes option"

text \<open>What the audit records of the first protocol failure; \<open>-1\<close> is a value not observed.\<close>

record protocol_failure =
  fl_phase :: secure_phase
  fl_kind :: protocol_failure_kind
  fl_outer_type :: int
  fl_a0_control :: int
  fl_ack_echo :: int
  fl_ack_status :: int
  fl_body_length :: int

record secure_audit =
  sa_command_count :: u32
  sa_ack_count :: u32
  sa_typed_response_count :: u32
  sa_recovery_a2_submit_count :: u32
  sa_recovery_a2_ack_count :: u32
  sa_recovery_a2_typed_count :: u32
  sa_target_prefix_completed :: bool
  sa_recovery_class :: recovery_class
  sa_a8_submit_count :: u32
  sa_a8_ack_count :: u32
  sa_a8_typed_count :: u32
  sa_a8_app12509_pin_match :: bool
  sa_e4_submit_count :: u32
  sa_cold_start_1_submit_count :: u32
  sa_cold_start_2_submit_count :: u32
  sa_tls_record_count :: u32
  sa_b0_physical_submit_count :: u32
  sa_pacing_schedule_count :: u32
  sa_tls_established :: bool
  sa_generation :: u64
  sa_failure :: "protocol_failure option"
  sa_e4_contract_result :: e4_contract

record ('s, 'u) secure_session =
  ss_generation :: u64
  ss_phase :: secure_phase
  ss_material :: secure_material
  ss_tls :: "'s tls_server"
  ss_audit :: secure_audit
  ss_error :: "session_error option"
  ss_started :: bool
  ss_ack_seen :: bool
  ss_logical_done :: bool
  ss_command_submitted :: bool
  ss_out_pending :: bool
  ss_out_kind :: out_kind
  ss_tls_records :: "bytes list"
  ss_tls_record_count :: u32
  ss_b0_logical :: "bytes option"
  ss_b0_offset :: nat
  ss_pace_pending :: bool
  ss_d1_server_flight_seen :: bool
  ss_backend_callback_owned :: bool
  ss_pace_source :: bool
  ss_pace_generation :: u64
  ss_plaintext_callback :: bool
  ss_user :: 'u

text \<open>What the phase callback does: calls on the session, or work of the owner's own.\<close>

datatype 'u phase_action = Set_Plaintext_Callback bool | Handoff_Backend | Owner_Work "'u \<Rightarrow> 'u"

record ('s, 'u) session_hooks =
  sh_engine :: "'s ssl_engine"
  sh_sha256 :: "bytes \<Rightarrow> bytes"
  sh_submit :: "u64 \<Rightarrow> bytes \<Rightarrow> 'u \<Rightarrow> gerror reply \<times> 'u"
  sh_cancel_backend :: "'u \<Rightarrow> 'u"
  sh_out_outstanding :: "'u \<Rightarrow> u32"
  sh_schedule :: "(u64 \<Rightarrow> 'u \<Rightarrow> 'u) option"
  sh_terminal :: "session_error \<Rightarrow> 'u \<Rightarrow> 'u"
  sh_phase :: "('s, 'u) secure_session \<Rightarrow> 'u phase_action list"
  sh_plaintext :: "bytes \<Rightarrow> 'u \<Rightarrow> 'u"

section \<open>Material\<close>

definition secure_identity12509 :: bytes where
  "secure_identity12509 = [0x47, 0x46, 0x5f, 0x53, 0x54, 0x34, 0x31, 0x31, 0x53, 0x45, 0x43, 0x5f, 0x41, 0x50, 0x50,
     0x5f, 0x31, 0x32, 0x35, 0x30, 0x39, 0]"

definition secure_identity12508 :: bytes where
  "secure_identity12508 = [0x47, 0x46, 0x5f, 0x53, 0x54, 0x34, 0x31, 0x31, 0x53, 0x45, 0x43, 0x5f, 0x41, 0x50, 0x50,
     0x5f, 0x31, 0x32, 0x35, 0x30, 0x38, 0]"

definition is_supported_identity :: "bytes \<Rightarrow> bool" where
  "is_supported_identity d \<longleftrightarrow> d = secure_identity12509 \<or> d = secure_identity12508"

definition dac_registers :: "u16 list" where
  "dac_registers = [0x0220, 0x0236, 0x0238, 0x023a]"

definition config_dac_offsets :: "nat list" where
  "config_dac_offsets = [117, 121, 125, 129]"

definition digest_matches :: "(bytes \<Rightarrow> bytes) \<Rightarrow> bytes \<Rightarrow> bytes \<Rightarrow> bool" where
  "digest_matches sha256 data expected \<longleftrightarrow> length (sha256 data) = 32 \<and> sha256 data = expected"

definition digest_present :: "bytes \<Rightarrow> bool" where
  "digest_present digest \<longleftrightarrow> foldl (OR) 0 digest \<noteq> 0"

definition validate_config_finalizer :: "bytes \<Rightarrow> bool" where
  "validate_config_finalizer config =
     (let s = foldl (\<lambda>s i. s + ucast (le16 (config ! (i * 2)) (config ! (i * 2 + 1)))) (0 :: u32) [0..<111];
          expected = ucast (0 - 0xa5a5 - s) :: u16
      in le16 (config ! 222) (config ! 223) = expected)"

definition dac_correlated :: "bytes \<Rightarrow> (u8 \<times> u8) list \<Rightarrow> nat \<Rightarrow> bool" where
  "dac_correlated config dacs i =
     (let offset = config_dac_offsets ! i in
      config ! offset = lo8 (dac_registers ! i) \<and> config ! (offset + 1) = hi8 (dac_registers ! i) \<and>
      config ! (offset + 2) = fst (dacs ! i) \<and> config ! (offset + 3) = snd (dacs ! i))"

definition validate_material :: "(bytes \<Rightarrow> bytes) \<Rightarrow> secure_material \<Rightarrow> bool" where
  "validate_material sha256 m \<longleftrightarrow>
     (case mt_expected_identity m of None \<Rightarrow> False | Some d \<Rightarrow> is_supported_identity d) \<and>
     (case mt_e4_validator m of None \<Rightarrow> False
      | Some v \<Rightarrow> length v = 32 \<and> digest_present (mt_e4_validator_sha256 m) \<and>
          digest_matches sha256 v (mt_e4_validator_sha256 m)) \<and>
     digest_present (mt_a2_response_sha256 m) \<and> digest_present (mt_chip82_response_sha256 m) \<and>
     digest_present (mt_otp_a6_response_sha256 m) \<and>
     (case mt_config90 m of None \<Rightarrow> False
      | Some config \<Rightarrow> length config = 224 \<and> digest_present (mt_config90_sha256 m) \<and>
          digest_matches sha256 config (mt_config90_sha256 m) \<and> validate_config_finalizer config \<and>
          list_all (dac_correlated config (mt_dac_values m)) [0..<4]) \<and>
     (case mt_psk m of None \<Rightarrow> False | Some psk \<Rightarrow> length psk = 32)"

definition secure_audit_zero :: "u64 \<Rightarrow> secure_audit" where
  "secure_audit_zero generation = \<lparr>sa_command_count = 0, sa_ack_count = 0, sa_typed_response_count = 0,
     sa_recovery_a2_submit_count = 0, sa_recovery_a2_ack_count = 0, sa_recovery_a2_typed_count = 0,
     sa_target_prefix_completed = False, sa_recovery_class = RECOVERY_NOT_STARTED, sa_a8_submit_count = 0,
     sa_a8_ack_count = 0, sa_a8_typed_count = 0, sa_a8_app12509_pin_match = False, sa_e4_submit_count = 0,
     sa_cold_start_1_submit_count = 0, sa_cold_start_2_submit_count = 0, sa_tls_record_count = 0,
     sa_b0_physical_submit_count = 0, sa_pacing_schedule_count = 0, sa_tls_established = False,
     sa_generation = generation, sa_failure = None, sa_e4_contract_result = E4_CONTRACT_NOT_EVALUATED\<rparr>"

text \<open>A refusal without an error leaves the caller's error pointer as it is.\<close>

definition secure_session_new ::
    "('s, 'u) session_hooks \<Rightarrow> u64 \<Rightarrow> secure_material \<Rightarrow> tls_audit \<Rightarrow> 'u \<Rightarrow>
       session_error option + ('s, 'u) secure_session" where
  "secure_session_new h generation m audit u =
     (if generation = 0 then Inl None
      else if \<not> validate_material (sh_sha256 h) m then Inl (Some (Session_Error SECURE_ERROR_MATERIAL))
      else case tls_server_new (sh_engine h) (mt_psk m) audit of
          Inl e \<Rightarrow> Inl (Some (Session_Tls e))
        | Inr t \<Rightarrow> Inr \<lparr>ss_generation = generation, ss_phase = SECURE_REENTRY_RECOVERY_A2,
            ss_material = m\<lparr>mt_psk := None\<rparr>, ss_tls = t, ss_audit = secure_audit_zero generation,
            ss_error = None, ss_started = False, ss_ack_seen = False, ss_logical_done = False,
            ss_command_submitted = False, ss_out_pending = False, ss_out_kind = OUT_KIND_NONE,
            ss_tls_records = [], ss_tls_record_count = 0, ss_b0_logical = None, ss_b0_offset = 0,
            ss_pace_pending = False, ss_d1_server_flight_seen = False, ss_backend_callback_owned = True,
            ss_pace_source = False, ss_pace_generation = 0, ss_plaintext_callback = False, ss_user = u\<rparr>)"

section \<open>Notification and failure\<close>

definition session_handoff_backend :: "('s, 'u) session_hooks \<Rightarrow> ('s, 'u) secure_session \<Rightarrow> session_error reply \<times> ('s, 'u) secure_session" where
  "session_handoff_backend h s =
     (if ss_phase s \<noteq> SECURE_STOP \<or> ss_out_pending s \<or> ss_b0_logical s \<noteq> None \<or> ss_tls_records s \<noteq> [] \<or>
         ss_pace_pending s \<or> \<not> ss_backend_callback_owned s \<or> sh_out_outstanding h (ss_user s) \<noteq> 0
      then (Reject (Session_Error SECURE_ERROR_STATE), s)
      else (Accept, s\<lparr>ss_backend_callback_owned := False\<rparr>))"

fun phase_action_run :: "('s, 'u) session_hooks \<Rightarrow> ('s, 'u) secure_session \<Rightarrow> 'u phase_action \<Rightarrow> ('s, 'u) secure_session" where
  "phase_action_run h s (Set_Plaintext_Callback given) = s\<lparr>ss_plaintext_callback := given\<rparr>"
| "phase_action_run h s Handoff_Backend = snd (session_handoff_backend h s)"
| "phase_action_run h s (Owner_Work f) = s\<lparr>ss_user := f (ss_user s)\<rparr>"

definition notify_phase :: "('s, 'u) session_hooks \<Rightarrow> ('s, 'u) secure_session \<Rightarrow> ('s, 'u) secure_session" where
  "notify_phase h s = foldl (phase_action_run h) s (sh_phase h s)"

definition clear_record_queue :: "('s, 'u) secure_session \<Rightarrow> ('s, 'u) secure_session" where
  "clear_record_queue s = s\<lparr>ss_tls_records := [], ss_b0_logical := None, ss_b0_offset := 0\<rparr>"

definition session_fail :: "('s, 'u) session_hooks \<Rightarrow> session_error \<Rightarrow> ('s, 'u) secure_session \<Rightarrow> ('s, 'u) secure_session" where
  "session_fail h e s =
     (if ss_phase s = SECURE_TERMINAL then s
      else
        let s1 = (if ss_phase s = SECURE_REENTRY_RECOVERY_A2 \<and> sa_recovery_class (ss_audit s) \<noteq> RECOVERY_STRICT_MATCH
              then s\<lparr>ss_audit := (ss_audit s)\<lparr>sa_recovery_class := RECOVERY_FAIL_CLOSED\<rparr>\<rparr> else s);
            s2 = notify_phase h (s1\<lparr>ss_phase := SECURE_TERMINAL\<rparr>);
            error = (case ss_error s2 of None \<Rightarrow> e | Some e0 \<Rightarrow> e0);
            s3 = clear_record_queue (s2\<lparr>ss_error := Some error, ss_pace_source := False, ss_pace_pending := False\<rparr>);
            s4 = s3\<lparr>ss_tls := tls_server_cancel (ss_tls s3), ss_user := sh_cancel_backend h (ss_user s3)\<rparr>
        in s4\<lparr>ss_user := sh_terminal h error (ss_user s4)\<rparr>)"

text \<open>The first protocol failure is recorded with the phase it met.\<close>

definition record_protocol_failure ::
    "protocol_failure_kind \<Rightarrow> int \<Rightarrow> int \<Rightarrow> int \<Rightarrow> int \<Rightarrow> int \<Rightarrow> ('s, 'u) secure_session \<Rightarrow> ('s, 'u) secure_session" where
  "record_protocol_failure kind outer ctl echo status len s =
     (if sa_failure (ss_audit s) \<noteq> None then s
      else s\<lparr>ss_audit := (ss_audit s)\<lparr>sa_failure := Some \<lparr>fl_phase = ss_phase s, fl_kind = kind, fl_outer_type = outer,
        fl_a0_control = ctl, fl_ack_echo = echo, fl_ack_status = status, fl_body_length = len\<rparr>\<rparr>\<rparr>)"

definition observed_byte :: "bytes \<Rightarrow> nat \<Rightarrow> int" where
  "observed_byte d i = (if i < length d then uint (d ! i) else - 1)"

definition record_malformed_frame :: "bytes \<Rightarrow> ('s, 'u) secure_session \<Rightarrow> ('s, 'u) secure_session" where
  "record_malformed_frame d s =
     record_protocol_failure FAILURE_MALFORMED_FRAME (observed_byte d 0) (observed_byte d 4) (- 1) (- 1) (- 1) s"

section \<open>Commands\<close>

definition phase_ack_policies :: "(secure_phase \<times> u8 \<times> u8) list" where
  "phase_ack_policies = [(SECURE_REENTRY_RECOVERY_A2, 0x01, 0x07), (SECURE_A8, 0x01, 0x07), (SECURE_E4, 0x01, 0x07),
     (SECURE_OEM_COLD_START_A2_1, 0x01, 0x07), (SECURE_CHIP_82, 0x01, 0x07), (SECURE_OTP_A6, 0x01, 0x07),
     (SECURE_OEM_COLD_START_A2_2, 0x01, 0x07), (SECURE_MODE_70, 0x01, 0x07), (SECURE_DAC_220, 0x01, 0x07),
     (SECURE_DAC_236, 0x01, 0x07), (SECURE_DAC_238, 0x01, 0x07), (SECURE_DAC_23A, 0x01, 0x07),
     (SECURE_CONFIG_90, 0x01, 0x07)]"

definition phase_ack_status_allowed :: "secure_phase \<Rightarrow> u8 \<Rightarrow> bool" where
  "phase_ack_status_allowed p status =
     (case map_of phase_ack_policies p of None \<Rightarrow> False | Some (a, b) \<Rightarrow> status = a \<or> status = b)"

definition phase_ack_only :: "secure_phase \<Rightarrow> bool" where
  "phase_ack_only p \<longleftrightarrow> p = SECURE_MODE_70 \<or>
     (secure_number p \<ge> secure_number SECURE_DAC_220 \<and> secure_number p \<le> secure_number SECURE_DAC_23A)"

definition secure_control :: "secure_phase \<Rightarrow> u8" where
  "secure_control p = (case p of
     SECURE_REENTRY_RECOVERY_A2 \<Rightarrow> 0xa2 | SECURE_A8 \<Rightarrow> 0xa8 | SECURE_E4 \<Rightarrow> 0xe4
   | SECURE_OEM_COLD_START_A2_1 \<Rightarrow> 0xa2 | SECURE_OEM_COLD_START_A2_2 \<Rightarrow> 0xa2
   | SECURE_CHIP_82 \<Rightarrow> 0x82 | SECURE_OTP_A6 \<Rightarrow> 0xa6 | SECURE_MODE_70 \<Rightarrow> 0x70
   | SECURE_DAC_220 \<Rightarrow> 0x80 | SECURE_DAC_236 \<Rightarrow> 0x80 | SECURE_DAC_238 \<Rightarrow> 0x80 | SECURE_DAC_23A \<Rightarrow> 0x80
   | SECURE_CONFIG_90 \<Rightarrow> 0x90 | SECURE_D1 \<Rightarrow> 0xd1 | _ \<Rightarrow> 0)"

definition dac_body :: "secure_material \<Rightarrow> nat \<Rightarrow> bytes" where
  "dac_body m i = [lo8 (dac_registers ! i), hi8 (dac_registers ! i), 2, fst (mt_dac_values m ! i), snd (mt_dac_values m ! i)]"

text \<open>The body of a phase's request and its checksum control; no request after D1.\<close>

definition phase_request :: "secure_material \<Rightarrow> secure_phase \<Rightarrow> (bytes \<times> u8) option" where
  "phase_request m p = (case p of
     SECURE_REENTRY_RECOVERY_A2 \<Rightarrow> Some ([0x01, 0x14], secure_control p)
   | SECURE_A8 \<Rightarrow> Some ([0x00, 0x00], secure_control p)
   | SECURE_E4 \<Rightarrow> Some ([0x03, 0x00, 0x02, 0xbb, 0, 0, 0, 0], secure_control p)
   | SECURE_OEM_COLD_START_A2_1 \<Rightarrow> Some ([0x01, 0x14], secure_control p)
   | SECURE_OEM_COLD_START_A2_2 \<Rightarrow> Some ([0x01, 0x14], secure_control p)
   | SECURE_CHIP_82 \<Rightarrow> Some ([0, 0, 0, 4, 0], secure_control p)
   | SECURE_OTP_A6 \<Rightarrow> Some ([0, 0], secure_control p)
   | SECURE_MODE_70 \<Rightarrow> Some ([0x14, 0], secure_control p)
   | SECURE_DAC_220 \<Rightarrow> Some (dac_body m 0, secure_control p)
   | SECURE_DAC_236 \<Rightarrow> Some (dac_body m 1, secure_control p)
   | SECURE_DAC_238 \<Rightarrow> Some (dac_body m 2, secure_control p)
   | SECURE_DAC_23A \<Rightarrow> Some (dac_body m 3, secure_control p)
   | SECURE_CONFIG_90 \<Rightarrow> Some (the (mt_config90 m), secure_control p)
   | SECURE_D1 \<Rightarrow> Some ([0, 0], 0xd0)
   | _ \<Rightarrow> None)"

definition build_phase_frame :: "secure_material \<Rightarrow> secure_phase \<Rightarrow> session_error + bytes" where
  "build_phase_frame m p =
     (case phase_request m p of
        None \<Rightarrow> Inl (Session_Error SECURE_ERROR_STATE)
      | Some (bs, checksum_control) \<Rightarrow>
          case a0_build_frame (secure_control p) checksum_control bs of
            Inl e \<Rightarrow> Inl (Session_Other e) | Inr frame \<Rightarrow> Inr frame)"

text \<open>The counters of a submission, and of one that the backend refused.\<close>

definition audit_submitted :: "secure_phase \<Rightarrow> secure_audit \<Rightarrow> secure_audit" where
  "audit_submitted p a =
     (let a1 = a\<lparr>sa_command_count := sa_command_count a + 1\<rparr> in
      case p of
        SECURE_REENTRY_RECOVERY_A2 \<Rightarrow> a1\<lparr>sa_recovery_a2_submit_count := sa_recovery_a2_submit_count a + 1,
          sa_recovery_class := RECOVERY_SUBMITTED\<rparr>
      | SECURE_A8 \<Rightarrow> a1\<lparr>sa_a8_submit_count := sa_a8_submit_count a + 1\<rparr>
      | SECURE_E4 \<Rightarrow> a1\<lparr>sa_e4_submit_count := sa_e4_submit_count a + 1\<rparr>
      | SECURE_OEM_COLD_START_A2_1 \<Rightarrow> a1\<lparr>sa_cold_start_1_submit_count := sa_cold_start_1_submit_count a + 1\<rparr>
      | SECURE_OEM_COLD_START_A2_2 \<Rightarrow> a1\<lparr>sa_cold_start_2_submit_count := sa_cold_start_2_submit_count a + 1\<rparr>
      | _ \<Rightarrow> a1)"

definition audit_refused :: "secure_phase \<Rightarrow> secure_audit \<Rightarrow> secure_audit" where
  "audit_refused p a =
     (let a1 = a\<lparr>sa_command_count := sa_command_count a - 1\<rparr> in
      case p of
        SECURE_REENTRY_RECOVERY_A2 \<Rightarrow> a1\<lparr>sa_recovery_a2_submit_count := sa_recovery_a2_submit_count a - 1,
          sa_recovery_class := RECOVERY_FAIL_CLOSED\<rparr>
      | SECURE_A8 \<Rightarrow> a1\<lparr>sa_a8_submit_count := sa_a8_submit_count a - 1\<rparr>
      | SECURE_E4 \<Rightarrow> a1\<lparr>sa_e4_submit_count := sa_e4_submit_count a - 1\<rparr>
      | SECURE_OEM_COLD_START_A2_1 \<Rightarrow> a1\<lparr>sa_cold_start_1_submit_count := sa_cold_start_1_submit_count a - 1\<rparr>
      | SECURE_OEM_COLD_START_A2_2 \<Rightarrow> a1\<lparr>sa_cold_start_2_submit_count := sa_cold_start_2_submit_count a - 1\<rparr>
      | _ \<Rightarrow> a1)"

text \<open>Ownership of the transfer is published before it is submitted.\<close>

definition try_submit_phase :: "('s, 'u) session_hooks \<Rightarrow> ('s, 'u) secure_session \<Rightarrow> session_error reply \<times> ('s, 'u) secure_session" where
  "try_submit_phase h s =
     (if secure_number (ss_phase s) \<ge> secure_number SECURE_TLS \<or> ss_command_submitted s then (Accept, s)
      else if ss_out_pending s then (Accept, s)
      else case build_phase_frame (ss_material s) (ss_phase s) of
          Inl e \<Rightarrow> (Reject e, s)
        | Inr frame \<Rightarrow>
            let s1 = s\<lparr>ss_out_pending := True, ss_out_kind := OUT_KIND_A0, ss_command_submitted := True,
                  ss_audit := audit_submitted (ss_phase s) (ss_audit s)\<rparr>;
                (r, u) = sh_submit h (ss_generation s) frame (ss_user s1);
                s2 = s1\<lparr>ss_user := u\<rparr> in
            case r of
              Accept \<Rightarrow> (Accept, s2)
            | Reject e \<Rightarrow> (Reject (Session_Other e), s2\<lparr>ss_out_pending := False, ss_out_kind := OUT_KIND_NONE,
                ss_command_submitted := False, ss_audit := audit_refused (ss_phase s) (ss_audit s2)\<rparr>))"

section \<open>Records on the wire\<close>

definition schedule_next_record :: "('s, 'u) session_hooks \<Rightarrow> ('s, 'u) secure_session \<Rightarrow> ('s, 'u) secure_session" where
  "schedule_next_record h s =
     (if ss_pace_pending s \<or> ss_phase s = SECURE_TERMINAL then s
      else
        let s1 = s\<lparr>ss_pace_pending := True, ss_pace_generation := ss_generation s,
              ss_audit := (ss_audit s)\<lparr>sa_pacing_schedule_count := sa_pacing_schedule_count (ss_audit s) + 1\<rparr>\<rparr>
        in case sh_schedule h of
            Some schedule \<Rightarrow> s1\<lparr>ss_user := schedule (ss_generation s) (ss_user s1)\<rparr>
          | None \<Rightarrow> s1\<lparr>ss_pace_source := True\<rparr>)"

definition b0_record_message :: "bytes \<Rightarrow> bytes" where
  "b0_record_message record =
     (let n = of_nat (length record) :: u16 in [0xb0, lo8 n, hi8 n, 0xb0 + lo8 n + hi8 n] @ record)"

text \<open>The next 64-byte transfer of a message, filled up with zeroes.\<close>

definition b0_chunk :: "bytes \<Rightarrow> nat \<Rightarrow> bytes" where
  "b0_chunk logical offset =
     (let copied = min (length logical - offset) 64
      in take copied (drop offset logical) @ replicate (64 - copied) 0)"

definition submit_b0_chunk :: "('s, 'u) session_hooks \<Rightarrow> ('s, 'u) secure_session \<Rightarrow> session_error reply \<times> ('s, 'u) secure_session" where
  "submit_b0_chunk h s =
     (case ss_b0_logical s of
        None \<Rightarrow> (Accept, s)
      | Some logical \<Rightarrow>
          if ss_out_pending s then (Accept, s)
          else
            let offset = ss_b0_offset s; copied = min (length logical - offset) 64;
                s1 = s\<lparr>ss_b0_offset := offset + copied, ss_out_pending := True, ss_out_kind := OUT_KIND_B0,
                  ss_audit := (ss_audit s)\<lparr>sa_b0_physical_submit_count := sa_b0_physical_submit_count (ss_audit s) + 1\<rparr>\<rparr>;
                (r, u) = sh_submit h (ss_generation s) (b0_chunk logical offset) (ss_user s1);
                s2 = s1\<lparr>ss_user := u\<rparr> in
            case r of
              Accept \<Rightarrow> (Accept, s2)
            | Reject e \<Rightarrow> (Reject (Session_Other e), s2\<lparr>ss_b0_offset := ss_b0_offset s2 - copied, ss_out_pending := False,
                ss_out_kind := OUT_KIND_NONE, ss_audit := (ss_audit s2)\<lparr>sa_b0_physical_submit_count :=
                  sa_b0_physical_submit_count (ss_audit s2) - 1\<rparr>\<rparr>))"

text \<open>A refused submission fails the session.\<close>

definition or_fail :: "('s, 'u) session_hooks \<Rightarrow> session_error reply \<times> ('s, 'u) secure_session \<Rightarrow> ('s, 'u) secure_session" where
  "or_fail h result = (case result of (Accept, s) \<Rightarrow> s | (Reject e, s) \<Rightarrow> session_fail h e s)"

definition start_next_record_now :: "('s, 'u) session_hooks \<Rightarrow> ('s, 'u) secure_session \<Rightarrow> ('s, 'u) secure_session" where
  "start_next_record_now h s =
     (if ss_b0_logical s \<noteq> None \<or> ss_out_pending s \<or> ss_tls_records s = [] \<or> ss_pace_pending s \<or>
         ss_phase s = SECURE_TERMINAL
      then s
      else
        let record = hd (ss_tls_records s); s1 = s\<lparr>ss_tls_records := tl (ss_tls_records s)\<rparr> in
        if length record = 0 \<or> length record > 65535 then session_fail h (Session_Error SECURE_ERROR_TLS) s1
        else or_fail h (submit_b0_chunk h (s1\<lparr>ss_b0_logical := Some (b0_record_message record), ss_b0_offset := 0\<rparr>)))"

definition maybe_start_b0 :: "('s, 'u) session_hooks \<Rightarrow> ('s, 'u) secure_session \<Rightarrow> ('s, 'u) secure_session" where
  "maybe_start_b0 h s =
     (if secure_number (ss_phase s) < secure_number SECURE_TLS \<or> ss_out_pending s \<or> ss_b0_logical s \<noteq> None \<or>
         ss_tls_records s = []
      then s
      else if ss_tls_record_count s \<noteq> 0 then schedule_next_record h s
      else start_next_record_now h s)"

definition maybe_finish_tls :: "('s, 'u) session_hooks \<Rightarrow> ('s, 'u) secure_session \<Rightarrow> ('s, 'u) secure_session" where
  "maybe_finish_tls h s =
     (if ss_phase s \<noteq> SECURE_TLS \<or> tl_state (ss_tls s) \<noteq> TLS_STATE_ESTABLISHED then s
      else
        let s1 = s\<lparr>ss_audit := (ss_audit s)\<lparr>sa_tls_established := True\<rparr>\<rparr> in
        if \<not> ss_out_pending s1 \<and> ss_b0_logical s1 = None \<and> ss_tls_records s1 = [] \<and> \<not> ss_pace_pending s1
        then notify_phase h (s1\<lparr>ss_phase := SECURE_STOP\<rparr>)
        else s1)"

section \<open>Progress\<close>

text \<open>C: \<^verbatim>\<open>phase++\<close> before D1.\<close>

definition advance_phase :: "('s, 'u) session_hooks \<Rightarrow> ('s, 'u) secure_session \<Rightarrow> ('s, 'u) secure_session" where
  "advance_phase h s =
     (if \<not> ss_logical_done s \<or> ss_out_pending s then s
      else if secure_number (ss_phase s) > secure_number SECURE_D1 then s
      else
        let next = (if ss_phase s = SECURE_D1 then SECURE_TLS else secure_phases ! (secure_number (ss_phase s) + 1));
            s1 = (notify_phase h (s\<lparr>ss_phase := next\<rparr>))
              \<lparr>ss_ack_seen := False, ss_logical_done := False, ss_command_submitted := False\<rparr> in
        if secure_number (ss_phase s1) < secure_number SECURE_TLS then or_fail h (try_submit_phase h s1)
        else maybe_finish_tls h (maybe_start_b0 h s1))"

definition session_out_complete ::
    "('s, 'u) session_hooks \<Rightarrow> u64 \<Rightarrow> gerror option \<Rightarrow> ('s, 'u) secure_session \<Rightarrow> ('s, 'u) secure_session" where
  "session_out_complete h generation error s =
     (if generation \<noteq> ss_generation s \<or> \<not> ss_out_pending s \<or> ss_phase s = SECURE_TERMINAL then s
      else
        let kind = ss_out_kind s; s1 = s\<lparr>ss_out_pending := False, ss_out_kind := OUT_KIND_NONE\<rparr> in
        case error of
          Some e \<Rightarrow> session_fail h (Session_Other e) s1
        | None \<Rightarrow>
            if kind = OUT_KIND_A0 then
              let s2 = advance_phase h s1 in if ss_phase s2 = SECURE_TLS then maybe_start_b0 h s2 else s2
            else if kind = OUT_KIND_B0 then
              if ss_b0_offset s1 < length (the (ss_b0_logical s1)) then or_fail h (submit_b0_chunk h s1)
              else
                let count = ss_tls_record_count s1 + 1;
                    s2 = s1\<lparr>ss_b0_logical := None, ss_b0_offset := 0, ss_tls_record_count := count,
                      ss_audit := (ss_audit s1)\<lparr>sa_tls_record_count := count\<rparr>\<rparr>;
                    s3 = (if ss_tls_records s2 \<noteq> [] then schedule_next_record h s2 else s2)
                in maybe_finish_tls h s3
            else s1)"

section \<open>TLS callbacks\<close>

definition session_tls_output :: "('s, 'u) session_hooks \<Rightarrow> bytes \<Rightarrow> ('s, 'u) secure_session \<Rightarrow> ('s, 'u) secure_session" where
  "session_tls_output h record s =
     (if ss_phase s = SECURE_TERMINAL \<or> ss_phase s = SECURE_STOP then s
      else
        let s1 = (if ss_phase s = SECURE_D1 then s\<lparr>ss_d1_server_flight_seen := True\<rparr> else s);
            s2 = s1\<lparr>ss_tls_records := ss_tls_records s1 @ [record]\<rparr>
        in if ss_phase s2 \<noteq> SECURE_D1 then maybe_start_b0 h s2 else s2)"

definition session_tls_plaintext :: "('s, 'u) session_hooks \<Rightarrow> bytes \<Rightarrow> ('s, 'u) secure_session \<Rightarrow> ('s, 'u) secure_session" where
  "session_tls_plaintext h bs s =
     (if ss_phase s = SECURE_STOP \<and> ss_plaintext_callback s then s\<lparr>ss_user := sh_plaintext h bs (ss_user s)\<rparr>
      else session_fail h (Session_Error SECURE_ERROR_TLS) s)"

text \<open>The server that calls back is the server of the session.\<close>

definition on_session :: "(bytes \<Rightarrow> ('s, 'u) secure_session \<Rightarrow> ('s, 'u) secure_session) \<Rightarrow> ('s, ('s, 'u) secure_session) tls_callback" where
  "on_session f bs ts = (let (t, s) = ts; s1 = f bs (s\<lparr>ss_tls := t\<rparr>) in (ss_tls s1, s1))"

section \<open>Responses\<close>

definition e4_prefix :: bytes where
  "e4_prefix = [0x00, 0x03, 0x00, 0x02, 0xbb, 0x20, 0x00, 0x00, 0x00]"

definition check_e4_contract :: "(bytes \<Rightarrow> bytes) \<Rightarrow> bytes \<Rightarrow> bytes \<Rightarrow> bytes \<Rightarrow> e4_contract" where
  "check_e4_contract sha256 bs validator validator_sha256 =
     (if length bs \<noteq> 9 + 32 then E4_CONTRACT_BODY_LENGTH_MISMATCH
      else if take 9 bs \<noteq> e4_prefix then E4_CONTRACT_PREFIX_MISMATCH
      else if drop 9 bs \<noteq> validator then E4_CONTRACT_VALIDATOR_MISMATCH
      else if \<not> digest_matches sha256 (drop 9 bs) validator_sha256 then E4_CONTRACT_DIGEST_MISMATCH
      else E4_CONTRACT_MATCH)"

definition e4_contract_failure_kind :: "e4_contract \<Rightarrow> protocol_failure_kind" where
  "e4_contract_failure_kind r =
     (if r = E4_CONTRACT_VALIDATOR_MISMATCH \<or> r = E4_CONTRACT_DIGEST_MISMATCH then FAILURE_TYPED_VALUE_MISMATCH
      else FAILURE_TYPED_SHAPE_MISMATCH)"

text \<open>The verdict, the E4 result and the session with that result in its audit.\<close>

definition validate_typed ::
    "(bytes \<Rightarrow> bytes) \<Rightarrow> u8 \<Rightarrow> bytes \<Rightarrow> ('s, 'u) secure_session \<Rightarrow> bool \<times> e4_contract \<times> ('s, 'u) secure_session" where
  "validate_typed sha256 ctl bs s =
     (let m = ss_material s; plain = (\<lambda>ok. (ok, E4_CONTRACT_NOT_EVALUATED, s)) in
      if ctl \<noteq> secure_control (ss_phase s) then plain False
      else case ss_phase s of
          SECURE_REENTRY_RECOVERY_A2 \<Rightarrow> plain (length bs = 3 \<and> digest_matches sha256 bs (mt_a2_response_sha256 m))
        | SECURE_A8 \<Rightarrow> plain (mt_expected_identity m = Some bs)
        | SECURE_E4 \<Rightarrow>
            let r = check_e4_contract sha256 bs (the (mt_e4_validator m)) (mt_e4_validator_sha256 m)
            in (r = E4_CONTRACT_MATCH, r, s\<lparr>ss_audit := (ss_audit s)\<lparr>sa_e4_contract_result := r\<rparr>\<rparr>)
        | SECURE_OEM_COLD_START_A2_1 \<Rightarrow> plain (length bs = 3 \<and> digest_matches sha256 bs (mt_a2_response_sha256 m))
        | SECURE_OEM_COLD_START_A2_2 \<Rightarrow> plain (length bs = 3 \<and> digest_matches sha256 bs (mt_a2_response_sha256 m))
        | SECURE_CHIP_82 \<Rightarrow> plain (length bs = 4 \<and> digest_matches sha256 bs (mt_chip82_response_sha256 m))
        | SECURE_OTP_A6 \<Rightarrow> plain (length bs = 64 \<and> digest_matches sha256 bs (mt_otp_a6_response_sha256 m))
        | SECURE_CONFIG_90 \<Rightarrow> plain (length bs = 2 \<and> bs ! 0 = 1 \<and> bs ! 1 = 0)
        | _ \<Rightarrow> plain False)"

definition refuse_frame ::
    "('s, 'u) session_hooks \<Rightarrow> protocol_failure_kind \<Rightarrow> int \<Rightarrow> int \<Rightarrow> int \<Rightarrow> int \<Rightarrow> int \<Rightarrow> ('s, 'u) secure_session \<Rightarrow> ('s, 'u) secure_session" where
  "refuse_frame h kind outer ctl echo status len s =
     session_fail h (Session_Error SECURE_ERROR_PROTOCOL) (record_protocol_failure kind outer ctl echo status len s)"

text \<open>The acknowledgement branch and the typed branch of the A0 handler.\<close>

definition session_ack :: "('s, 'u) session_hooks \<Rightarrow> bytes \<Rightarrow> ('s, 'u) secure_session \<Rightarrow> ('s, 'u) secure_session" where
  "session_ack h bs s =
     (if ss_ack_seen s \<or> length bs \<noteq> 2
      then refuse_frame h FAILURE_ACK_SHAPE_MISMATCH 0xa0 0xb0 (observed_byte bs 0) (observed_byte bs 1) (int (length bs)) s
      else if bs ! 0 \<noteq> secure_control (ss_phase s)
      then refuse_frame h FAILURE_ACK_ECHO_MISMATCH 0xa0 0xb0 (uint (bs ! 0)) (uint (bs ! 1)) (int (length bs)) s
      else if \<not> phase_ack_status_allowed (ss_phase s) (bs ! 1)
      then refuse_frame h FAILURE_ACK_STATUS_REJECTED 0xa0 0xb0 (uint (bs ! 0)) (uint (bs ! 1)) (int (length bs)) s
      else
        let a = (ss_audit s)\<lparr>sa_ack_count := sa_ack_count (ss_audit s) + 1\<rparr>;
            a1 = (if ss_phase s = SECURE_REENTRY_RECOVERY_A2
              then a\<lparr>sa_recovery_a2_ack_count := sa_recovery_a2_ack_count a + 1, sa_recovery_class := RECOVERY_ACK_STRICT\<rparr>
              else if ss_phase s = SECURE_A8 then a\<lparr>sa_a8_ack_count := sa_a8_ack_count a + 1\<rparr> else a);
            s1 = s\<lparr>ss_ack_seen := True, ss_audit := a1\<rparr>
        in if phase_ack_only (ss_phase s1) then advance_phase h (s1\<lparr>ss_logical_done := True\<rparr>) else s1)"

definition session_typed :: "('s, 'u) session_hooks \<Rightarrow> u8 \<Rightarrow> bytes \<Rightarrow> ('s, 'u) secure_session \<Rightarrow> ('s, 'u) secure_session" where
  "session_typed h ctl bs s =
     (let refuse = (\<lambda>kind s. refuse_frame h kind 0xa0 (uint ctl) (- 1) (- 1) (int (length bs)) s) in
      if \<not> ss_ack_seen s then refuse FAILURE_TYPED_SHAPE_MISMATCH s
      else if phase_ack_only (ss_phase s) then refuse FAILURE_TYPED_SHAPE_MISMATCH s
      else if ctl \<noteq> secure_control (ss_phase s) then refuse FAILURE_TYPED_CONTROL_MISMATCH s
      else
        let (ok, e4, s1) = validate_typed (sh_sha256 h) ctl bs s in
        if \<not> ok then refuse (if ss_phase s = SECURE_E4 then e4_contract_failure_kind e4 else FAILURE_TYPED_SHAPE_MISMATCH) s1
        else
          let a = (ss_audit s1)\<lparr>sa_typed_response_count := sa_typed_response_count (ss_audit s1) + 1\<rparr>;
              a1 = (if ss_phase s = SECURE_REENTRY_RECOVERY_A2
                then a\<lparr>sa_recovery_a2_typed_count := sa_recovery_a2_typed_count a + 1, sa_target_prefix_completed := True,
                  sa_recovery_class := RECOVERY_STRICT_MATCH\<rparr>
                else if ss_phase s = SECURE_A8
                then a\<lparr>sa_a8_typed_count := sa_a8_typed_count a + 1, sa_a8_app12509_pin_match := True\<rparr> else a)
          in advance_phase h (s1\<lparr>ss_audit := a1, ss_logical_done := True\<rparr>))"

definition session_handle_a0 :: "('s, 'u) session_hooks \<Rightarrow> bytes option \<Rightarrow> ('s, 'u) secure_session \<Rightarrow> ('s, 'u) secure_session" where
  "session_handle_a0 h frame s =
     (case frame of
        None \<Rightarrow> s
      | Some d \<Rightarrow>
          if ss_phase s = SECURE_TERMINAL then s
          else if secure_number (ss_phase s) \<ge> secure_number SECURE_D1
          then refuse_frame h FAILURE_UNEXPECTED_OUTER_CLASS (observed_byte d 0) (observed_byte d 4) (- 1) (- 1) (- 1) s
          else if ss_logical_done s
          then refuse_frame h FAILURE_TYPED_SHAPE_MISMATCH (observed_byte d 0) (observed_byte d 4) (- 1) (- 1) (- 1) s
          else if length d < 5
          then session_fail h (Session_Error SECURE_ERROR_PROTOCOL) (record_malformed_frame d s)
          else case a0_parse_frame frame (d ! 4) of
              Inl e \<Rightarrow> session_fail h (Session_Other e) (record_malformed_frame d s)
            | Inr message \<Rightarrow>
                if control message = 0xb0 then session_ack h (body message) s
                else session_typed h (control message) (body message) s)"

definition session_handle_b0 :: "('s, 'u) session_hooks \<Rightarrow> bytes option \<Rightarrow> ('s, 'u) secure_session \<Rightarrow> ('s, 'u) secure_session" where
  "session_handle_b0 h frame s =
     (case frame of
        None \<Rightarrow> s
      | Some d \<Rightarrow>
          if ss_phase s = SECURE_TERMINAL then s
          else if secure_number (ss_phase s) < secure_number SECURE_D1 \<or>
            (ss_phase s = SECURE_STOP \<and> \<not> ss_plaintext_callback s)
          then refuse_frame h FAILURE_UNEXPECTED_OUTER_CLASS (observed_byte d 0) (- 1) (- 1) (- 1) (- 1) s
          else if length d < 9 \<or> d ! 0 \<noteq> 0xb0 \<or> unat (le16 (d ! 1) (d ! 2)) + 4 \<noteq> length d \<or>
            d ! 3 \<noteq> d ! 0 + d ! 1 + d ! 2
          then session_fail h (Session_Error SECURE_ERROR_PROTOCOL) (record_malformed_frame d s)
          else
            let (r, t, s0) = tls_server_push (sh_engine h) (on_session (session_tls_output h))
                  (on_session (session_tls_plaintext h)) (drop 4 d) (ss_tls s, s);
                s1 = s0\<lparr>ss_tls := t\<rparr> in
            case r of
              Reject e \<Rightarrow> session_fail h (Session_Tls e) s1
            | Accept \<Rightarrow>
                let s2 = (if ss_phase s1 = SECURE_D1 \<and> ss_d1_server_flight_seen s1
                  then advance_phase h (s1\<lparr>ss_logical_done := True\<rparr>) else s1)
                in maybe_finish_tls h (maybe_start_b0 h s2))"

section \<open>The remaining operations\<close>

definition secure_session_start :: "('s, 'u) session_hooks \<Rightarrow> ('s, 'u) secure_session \<Rightarrow> session_error reply \<times> ('s, 'u) secure_session" where
  "secure_session_start h s =
     (if ss_started s \<or> ss_phase s \<noteq> SECURE_REENTRY_RECOVERY_A2
      then (Reject (Session_Error SECURE_ERROR_STATE),
        if ss_phase s \<noteq> SECURE_TERMINAL then session_fail h (Session_Error SECURE_ERROR_STATE) s else s)
      else try_submit_phase h (notify_phase h (s\<lparr>ss_started := True\<rparr>)))"

definition session_pacing_ready :: "('s, 'u) session_hooks \<Rightarrow> u64 \<Rightarrow> ('s, 'u) secure_session \<Rightarrow> ('s, 'u) secure_session" where
  "session_pacing_ready h generation s =
     (if \<not> ss_pace_pending s \<or> generation \<noteq> ss_generation s \<or> generation \<noteq> ss_pace_generation s \<or>
         ss_phase s = SECURE_TERMINAL
      then s
      else maybe_finish_tls h (start_next_record_now h (s\<lparr>ss_pace_pending := False, ss_pace_generation := 0\<rparr>)))"

definition pace_timeout_cb :: "('s, 'u) session_hooks \<Rightarrow> ('s, 'u) secure_session \<Rightarrow> ('s, 'u) secure_session" where
  "pace_timeout_cb h s = session_pacing_ready h (ss_pace_generation s) (s\<lparr>ss_pace_source := False\<rparr>)"

definition secure_session_cancel :: "('s, 'u) session_hooks \<Rightarrow> ('s, 'u) secure_session \<Rightarrow> ('s, 'u) secure_session" where
  "secure_session_cancel h s = session_fail h (Session_Error SECURE_ERROR_STATE) s"

definition session_needs_receive :: "('s, 'u) secure_session \<Rightarrow> bool" where
  "session_needs_receive s \<longleftrightarrow> ss_started s \<and> ss_phase s \<noteq> SECURE_STOP \<and> ss_phase s \<noteq> SECURE_TERMINAL"

text \<open>
  The events of a session. The backend reports a completion only while its callback is the
  session's, and the timer fires only while it is armed.
\<close>

datatype session_event =
    Session_Start | Session_Out u64 "gerror option" | Session_A0 "bytes option" | Session_B0 "bytes option"
  | Session_Pacing u64 | Session_Timer | Session_Cancel | Session_Set_Plaintext bool | Session_Handoff

fun session_step :: "('s, 'u) session_hooks \<Rightarrow> (session_event, session_error, ('s, 'u) secure_session) machine" where
  "session_step h Session_Start s = secure_session_start h s"
| "session_step h (Session_Out g e) s = (Accept, if ss_backend_callback_owned s then session_out_complete h g e s else s)"
| "session_step h (Session_A0 frame) s = (Accept, session_handle_a0 h frame s)"
| "session_step h (Session_B0 frame) s = (Accept, session_handle_b0 h frame s)"
| "session_step h (Session_Pacing g) s = (Accept, session_pacing_ready h g s)"
| "session_step h Session_Timer s = (Accept, if ss_pace_source s then pace_timeout_cb h s else s)"
| "session_step h Session_Cancel s = (Accept, secure_session_cancel h s)"
| "session_step h (Session_Set_Plaintext given) s = (Accept, s\<lparr>ss_plaintext_callback := given\<rparr>)"
| "session_step h Session_Handoff s = session_handoff_backend h s"

end
