(* ===== verification/Secure_Order.thy ===== *)
theory Secure_Order
  imports Secure_Session
begin

text \<open>
  What every state of a started secure session satisfies: the counters tell the phase, the
  project secret is handed over at most once and only after the fourteen commands and their
  pinned responses, and the session is never stuck: it waits for a transfer, for its pause,
  or for a frame.
\<close>

section \<open>The TLS server on its own\<close>

definition psk_kept :: "'s tls_server \<Rightarrow> bool" where
  "psk_kept t \<longleftrightarrow> (tl_psk t = None \<longleftrightarrow> tl_handed_off t) \<and>
     tl_secret_handoff_count (tl_audit t) = of_bool (tl_handed_off t) \<and>
     (tl_project_secret_zeroized (tl_audit t) \<longleftrightarrow> tl_handed_off t)"

lemma psk_kept_cb: "psk_kept t \<Longrightarrow> psk_kept (snd (psk_cb i n t))"
  by (auto simp: psk_kept_def psk_cb_def cleanse_project_secret_def split: option.split)

lemma psk_kept_simps [simp]:
  "psk_kept (t\<lparr>tl_ssl := x\<rparr>) = psk_kept t"
  "psk_kept (t\<lparr>tl_state := st\<rparr>) = psk_kept t"
  "psk_kept (t\<lparr>tl_output_pending := p\<rparr>) = psk_kept t"
  "psk_kept (tls_terminal t) = psk_kept t"
  "psk_kept (tls_server_cancel t) = psk_kept t"
  "psk_kept (t\<lparr>tl_audit := (tl_audit t)\<lparr>tl_plaintext_delivery_count := k\<rparr>\<rparr>) = psk_kept t"
  "psk_kept (t\<lparr>tl_state := st, tl_audit := (tl_audit t)\<lparr>tl_handshake_count := k\<rparr>\<rparr>) = psk_kept t"
  by (simp_all add: psk_kept_def tls_terminal_def tls_server_cancel_def)

lemma handed_off_simps [simp]:
  "tl_handed_off (tls_terminal t) = tl_handed_off t" "tl_handed_off (tls_server_cancel t) = tl_handed_off t"
  "tl_state (tls_terminal t) = TLS_STATE_TERMINAL" "tl_state (tls_server_cancel t) = TLS_STATE_TERMINAL"
  by (simp_all add: tls_terminal_def tls_server_cancel_def)

text \<open>
  Interface: a condition \<open>P\<close> on the server and its owner's data that the callbacks keep, and a
  weaker one \<open>Q\<close> for a server that has refused. Whatever OpenSSL does, an accepted push keeps
  \<open>P\<close> and a refused one leaves \<open>Q\<close>.
\<close>

locale tls_callbacks =
  fixes out :: "('s, 'w) tls_callback" and plain :: "('s, 'w) tls_callback"
    and P :: "'s tls_server \<times> 'w \<Rightarrow> bool" and Q :: "'s tls_server \<times> 'w \<Rightarrow> bool"
  assumes keep_out: "P tw \<Longrightarrow> P (out bs tw)"
    and keep_plain: "P tw \<Longrightarrow> P (plain bs tw)"
    and keep_ssl: "P (t, w) \<Longrightarrow> P (t\<lparr>tl_ssl := ssl\<rparr>, w)"
    and keep_pending: "P (t, w) \<Longrightarrow> P (t\<lparr>tl_output_pending := bs\<rparr>, w)"
    and keep_psk: "P (t, w) \<Longrightarrow> P (snd (psk_cb i n t), w)"
    and keep_delivered: "P (t, w) \<Longrightarrow> P (t\<lparr>tl_audit := (tl_audit t)\<lparr>tl_plaintext_delivery_count := k\<rparr>\<rparr>, w)"
    and keep_established: "P (t, w) \<Longrightarrow>
      P (t\<lparr>tl_state := TLS_STATE_ESTABLISHED, tl_audit := (tl_audit t)\<lparr>tl_handshake_count := k\<rparr>\<rparr>, w)"
    and refused: "P (t, w) \<Longrightarrow> Q (tls_terminal t, w)"
begin

lemma run_ssl_keeps: "P (t, w) \<Longrightarrow> P (snd (run_ssl p t), w)"
proof (induction p arbitrary: t)
  case (Ssl_Return r ssl)
  then show ?case by (simp add: keep_ssl)
next
  case (Ssl_Ask_Psk i n k)
  from Ssl_Ask_Psk.IH [OF _ keep_psk [OF Ssl_Ask_Psk.prems]] show ?case
    by (simp add: case_prod_beta)
qed

text \<open>What a step that reports success or failure leaves.\<close>

abbreviation leaves :: "bool \<times> 's tls_server \<times> 'w \<Rightarrow> bool" where
  "leaves r \<equiv> if fst r then P (snd r) else Q (snd r)"

lemma deliver_records_keeps: "P tw \<Longrightarrow> leaves (deliver_records out bs tw)"
proof (induction "length bs" arbitrary: bs tw rule: less_induct)
  case less
  obtain t w where tw: "tw = (t, w)" by (cases tw)
  have p0: "P (t\<lparr>tl_output_pending := bs\<rparr>, w)" using less.prems tw by (simp add: keep_pending)
  have "leaves (deliver_records out (drop (tls_record_length bs) bs) (out (take (tls_record_length bs) bs) (t\<lparr>tl_output_pending := bs\<rparr>, w)))"
    if "5 \<le> length bs"
    by (rule less.hyps [OF _ keep_out [OF p0]]) (use that in \<open>simp add: tls_record_length_def\<close>)
  with p0 show ?case unfolding tw by (subst (1 2 3) deliver_records.simps) (simp add: Let_def refused)
qed

lemma drain_output_keeps: "P tw \<Longrightarrow> leaves (drain_output e out tw)"
proof -
  assume "P tw"
  obtain t w where tw: "tw = (t, w)" by (cases tw)
  obtain pieces failed ssl where io: "bio_read_pending e (tl_ssl t) = ((pieces, failed), ssl)" by (metis surj_pair)
  have p: "P (t\<lparr>tl_ssl := ssl\<rparr>, w)" using \<open>P tw\<close> by (simp add: tw keep_ssl)
  have "Q (tls_terminal (t\<lparr>tl_ssl := ssl, tl_output_pending := tl_output_pending t @ concat pieces\<rparr>), w)"
    using keep_pending [OF p] by (intro refused) simp
  with io p deliver_records_keeps show ?thesis by (simp add: drain_output_def tw Let_def)
qed

lemma read_plaintext_keeps: "P tw \<Longrightarrow> leaves (read_plaintext e out plain tw)"
proof -
  assume "P tw"
  obtain t w where tw: "tw = (t, w)" by (cases tw)
  obtain pieces result t1 where rd: "run_ssl (ssl_read_all e (tl_ssl t)) t = ((pieces, result), t1)" by (metis surj_pair)
  have p1: "P (t1, w)" using run_ssl_keeps [of t w "ssl_read_all e (tl_ssl t)"] \<open>P tw\<close> by (simp add: tw rd)
  obtain t2 w2 where pl: "plain (concat pieces) (t1, w) = (t2, w2)" by (metis surj_pair)
  have "P (t2\<lparr>tl_audit := (tl_audit t2)\<lparr>tl_plaintext_delivery_count := tl_plaintext_delivery_count (tl_audit t2) + 1\<rparr>\<rparr>, w2)"
    using keep_plain [OF p1, of "concat pieces"] by (simp add: pl keep_delivered)
  with p1 pl show ?thesis
    using drain_output_keeps [of _ e] by (simp add: read_plaintext_def tw Let_def rd refused)
qed

lemma push_keeps:
  assumes "P tw"
  shows "if fst (tls_server_push e out plain data tw) = Accept then P (snd (tls_server_push e out plain data tw))
    else Q (snd (tls_server_push e out plain data tw))"
proof -
  obtain t w where tw: "tw = (t, w)" by (cases tw)
  obtain written ssl where io: "bio_write e data (tl_ssl t) = (written, ssl)" by (metis surj_pair)
  have p1: "P (t\<lparr>tl_ssl := ssl\<rparr>, w)" using assms by (simp add: tw keep_ssl)
  obtain result t2 where hs: "run_ssl (ssl_do_handshake e ssl) (t\<lparr>tl_ssl := ssl\<rparr>) = (result, t2)" by (metis surj_pair)
  have p2: "P (t2, w)" using run_ssl_keeps [OF p1, of "ssl_do_handshake e ssl"] by (simp add: hs)
  obtain drained t3 w3 where dr: "drain_output e out (t2, w) = (drained, t3, w3)" by (metis surj_pair)
  note d = drain_output_keeps [OF p2, of e, unfolded dr]
  define t4 where "t4 = t3\<lparr>tl_state := TLS_STATE_ESTABLISHED, tl_audit := (tl_audit t3)
      \<lparr>tl_handshake_count := tl_handshake_count (tl_audit t3) + 1\<rparr>\<rparr>"
  have p4: "P (t4, w3)" if drained using d that by (simp add: t4_def keep_established)
  obtain ok t5 w5 where rd: "read_plaintext e out plain (t4, w3) = (ok, t5, w5)" by (metis surj_pair)
  obtain ok' t6 w6 where rd1: "read_plaintext e out plain (t\<lparr>tl_ssl := ssl\<rparr>, w) = (ok', t6, w6)" by (metis surj_pair)
  have d1: "drained \<Longrightarrow> P (t3, w3)" "\<not> drained \<Longrightarrow> Q (t3, w3)" using d by simp_all
  have r1: "drained \<Longrightarrow> ok \<Longrightarrow> P (t5, w5)" "drained \<Longrightarrow> \<not> ok \<Longrightarrow> Q (t5, w5)"
    using read_plaintext_keeps [OF p4, of e] by (simp_all add: rd)
  have r2: "ok' \<Longrightarrow> P (t6, w6)" "\<not> ok' \<Longrightarrow> Q (t6, w6)"
    using read_plaintext_keeps [OF p1, of e] by (simp_all add: rd1)
  have refusals: "Q (tls_terminal t, w)" "Q (tls_terminal (t\<lparr>tl_ssl := ssl\<rparr>), w)" "drained \<Longrightarrow> Q (tls_terminal t3, w3)"
    using assms p1 d1 by (simp_all add: tw refused)
  have "tls_server_push e out plain data tw =
      (if tl_state t = TLS_STATE_TERMINAL \<or> data = [] \<or> length data > 2 ^ 31 - 1 then (tls_reply False, tls_terminal t, w)
       else if written \<noteq> int (length data) then (tls_reply False, tls_terminal (t\<lparr>tl_ssl := ssl\<rparr>), w)
       else if tl_state t = TLS_STATE_ESTABLISHED then (tls_reply ok', t6, w6)
       else if \<not> drained then (tls_reply False, t3, w3)
       else if result = Ssl_Complete then (tls_reply ok, t5, w5)
       else if result = Ssl_Want then (Accept, t3, w3) else (tls_reply False, tls_terminal t3, w3))"
    by (simp add: tls_server_push_def tw Let_def io hs dr rd1 rd [unfolded t4_def])
  then show ?thesis using refusals d1 r1 r2 by (auto simp: tls_reply_def)
qed

end

section \<open>What the session's state satisfies\<close>

definition evidence :: "secure_audit \<Rightarrow> bool" where
  "evidence a \<longleftrightarrow> sa_command_count a = 14 \<and> sa_ack_count a = 13 \<and> sa_typed_response_count a = 8 \<and>
     sa_a8_app12509_pin_match a \<and> sa_e4_contract_result a = E4_CONTRACT_MATCH"

definition typed_before :: "nat \<Rightarrow> nat" where
  "typed_before n = (if n \<le> 7 then n else if n \<le> 12 then 7 else 8)"

text \<open>The secret is kept until it is handed over, and handed over only with the evidence complete.\<close>

definition sealed :: "('s, 'u) secure_session \<Rightarrow> bool" where
  "sealed s \<longleftrightarrow> psk_kept (ss_tls s) \<and> (tl_handed_off (ss_tls s) \<longrightarrow> evidence (ss_audit s))"

text \<open>The counters are those of the phase.\<close>

definition counted :: "('s, 'u) secure_session \<Rightarrow> bool" where
  "counted s \<longleftrightarrow>
     (let n = secure_number (ss_phase s); a = ss_audit s in
      sa_command_count a = of_nat (min n 14 + of_bool (ss_command_submitted s)) \<and>
      sa_ack_count a = of_nat (min n 13 + of_bool (ss_ack_seen s)) \<and>
      sa_typed_response_count a =
        of_nat (typed_before n + of_bool (ss_logical_done s \<and> n \<le> 12 \<and> \<not> phase_ack_only (ss_phase s))) \<and>
      (ss_command_submitted s \<longrightarrow> n \<le> 13) \<and> (ss_ack_seen s \<longrightarrow> n \<le> 12) \<and>
      (ss_logical_done s \<longrightarrow> n \<le> 13 \<and> (n \<le> 12 \<longrightarrow> ss_ack_seen s)) \<and>
      (2 \<le> n \<or> n = 1 \<and> ss_logical_done s \<longrightarrow> sa_a8_app12509_pin_match a) \<and>
      (3 \<le> n \<or> n = 2 \<and> ss_logical_done s \<longrightarrow> sa_e4_contract_result a = E4_CONTRACT_MATCH))"

text \<open>What may be in flight in each phase.\<close>

definition wired :: "('s, 'u) secure_session \<Rightarrow> bool" where
  "wired s \<longleftrightarrow>
     (let n = secure_number (ss_phase s) in
      (n \<le> 13 \<longrightarrow> (ss_out_pending s \<longrightarrow> ss_out_kind s = OUT_KIND_A0) \<and> ss_b0_logical s = None \<and> \<not> ss_pace_pending s) \<and>
      (n \<le> 12 \<longrightarrow> ss_tls_records s = [] \<and> \<not> ss_d1_server_flight_seen s) \<and>
      (n = 14 \<longrightarrow> (ss_out_pending s \<longleftrightarrow> ss_b0_logical s \<noteq> None) \<and>
         (ss_out_pending s \<longrightarrow> ss_out_kind s = OUT_KIND_B0 \<and> \<not> ss_pace_pending s \<and> 0 < ss_b0_offset s \<and>
            ss_b0_offset s \<le> length (the (ss_b0_logical s))) \<and>
         (ss_pace_pending s \<longrightarrow> ss_pace_generation s = ss_generation s)) \<and>
      (n = 15 \<longrightarrow> \<not> ss_out_pending s \<and> ss_b0_logical s = None \<and> ss_tls_records s = [] \<and> \<not> ss_pace_pending s \<and>
         tl_state (ss_tls s) = TLS_STATE_ESTABLISHED))"

text \<open>Records wait only for the transfer in flight or for the pause.\<close>

definition served :: "('s, 'u) secure_session \<Rightarrow> bool" where
  "served s \<longleftrightarrow> (ss_tls_records s \<noteq> [] \<longrightarrow> ss_out_pending s \<or> ss_pace_pending s)"

definition phase_settled :: "('s, 'u) secure_session \<Rightarrow> bool" where
  "phase_settled s \<longleftrightarrow>
     (let n = secure_number (ss_phase s) in
      (n \<le> 13 \<longrightarrow> ss_command_submitted s) \<and> (ss_logical_done s \<longrightarrow> ss_out_pending s) \<and>
      (n = 13 \<and> ss_d1_server_flight_seen s \<longrightarrow> ss_logical_done s) \<and>
      (n = 14 \<longrightarrow> served s \<and> (tl_state (ss_tls s) = TLS_STATE_ESTABLISHED \<longrightarrow> ss_out_pending s \<or> ss_pace_pending s)))"

definition dead :: "('s, 'u) secure_session \<Rightarrow> bool" where
  "dead s \<longleftrightarrow> ss_phase s = SECURE_TERMINAL \<and> ss_error s \<noteq> None \<and> ss_tls_records s = [] \<and> ss_b0_logical s = None \<and>
     \<not> ss_pace_pending s \<and> \<not> ss_pace_source s"

definition going :: "('s, 'u) secure_session \<Rightarrow> bool" where
  "going s \<longleftrightarrow> ss_phase s \<noteq> SECURE_TERMINAL \<and> ss_error s = None \<and> counted s \<and> wired s"

definition session_inv :: "('s, 'u) secure_session \<Rightarrow> bool" where
  "session_inv s \<longleftrightarrow> sealed s \<and> ss_started s \<and> (dead s \<or> going s \<and> phase_settled s)"

lemmas session_state_defs = sealed_def counted_def wired_def served_def phase_settled_def dead_def going_def session_inv_def

lemma secure_number_iff:
  "secure_number p = 0 \<longleftrightarrow> p = SECURE_REENTRY_RECOVERY_A2" "secure_number p = 13 \<longleftrightarrow> p = SECURE_D1"
  "secure_number p = 14 \<longleftrightarrow> p = SECURE_TLS" "secure_number p = 15 \<longleftrightarrow> p = SECURE_STOP"
  "secure_number p \<le> 15 \<longleftrightarrow> p \<noteq> SECURE_TERMINAL"
  by (cases p; simp)+

lemma secure_number_next:
  "secure_number p < 13 \<Longrightarrow> secure_number (secure_phases ! (Suc (secure_number p))) = Suc (secure_number p)"
  by (cases p) (simp_all add: secure_phases_def)

lemma typed_before_next:
  "secure_number p \<le> 12 \<Longrightarrow> typed_before (Suc (secure_number p)) = typed_before (secure_number p) + of_bool (\<not> phase_ack_only p)"
  by (cases p) (simp_all add: typed_before_def phase_ack_only_def)

lemma counted_evidence:
  assumes "counted s" "ss_phase s \<noteq> SECURE_TERMINAL"
    "secure_number (ss_phase s) \<ge> 14 \<or> ss_phase s = SECURE_D1 \<and> ss_command_submitted s"
  shows "evidence (ss_audit s)"
proof -
  have "ss_phase s = SECURE_D1 \<and> ss_command_submitted s \<or> ss_phase s = SECURE_TLS \<or> ss_phase s = SECURE_STOP"
    using assms(2,3) by (cases "ss_phase s") simp_all
  with assms(1) show ?thesis
    by (elim disjE conjE) (simp_all add: counted_def evidence_def typed_before_def Let_def)
qed

lemma counted_not_handed_off:
  assumes "sealed s" "counted s" "secure_number (ss_phase s) + of_bool (ss_command_submitted s) < 14"
  shows "\<not> tl_handed_off (ss_tls s)"
proof -
  have "of_nat (secure_number (ss_phase s) + of_bool (ss_command_submitted s)) \<noteq> (14 :: u32)"
    using assms(3) by (cases "ss_phase s") auto
  then show ?thesis using assms by (auto simp: sealed_def evidence_def counted_def Let_def min_def)
qed

text \<open>The fields that callbacks of the owner change are in none of these.\<close>

lemma owner_sealed [simp]:
  "sealed (s\<lparr>ss_plaintext_callback := p, ss_backend_callback_owned := q, ss_user := u\<rparr>) = sealed s"
  "sealed (s\<lparr>ss_user := u\<rparr>) = sealed s"
  "sealed (s\<lparr>ss_plaintext_callback := p\<rparr>) = sealed s"
  "sealed (s\<lparr>ss_backend_callback_owned := q\<rparr>) = sealed s"
  by (simp_all add: sealed_def)

lemma owner_counted [simp]:
  "counted (s\<lparr>ss_plaintext_callback := p, ss_backend_callback_owned := q, ss_user := u\<rparr>) = counted s"
  "counted (s\<lparr>ss_user := u\<rparr>) = counted s"
  "counted (s\<lparr>ss_plaintext_callback := p\<rparr>) = counted s"
  "counted (s\<lparr>ss_backend_callback_owned := q\<rparr>) = counted s"
  by (simp_all add: counted_def)

lemma owner_wired [simp]:
  "wired (s\<lparr>ss_plaintext_callback := p, ss_backend_callback_owned := q, ss_user := u\<rparr>) = wired s"
  "wired (s\<lparr>ss_user := u\<rparr>) = wired s"
  "wired (s\<lparr>ss_plaintext_callback := p\<rparr>) = wired s"
  "wired (s\<lparr>ss_backend_callback_owned := q\<rparr>) = wired s"
  by (simp_all add: wired_def)

lemma owner_served [simp]:
  "served (s\<lparr>ss_plaintext_callback := p, ss_backend_callback_owned := q, ss_user := u\<rparr>) = served s"
  "served (s\<lparr>ss_user := u\<rparr>) = served s"
  "served (s\<lparr>ss_plaintext_callback := p\<rparr>) = served s"
  "served (s\<lparr>ss_backend_callback_owned := q\<rparr>) = served s"
  by (simp_all add: served_def)

lemma owner_settled [simp]:
  "phase_settled (s\<lparr>ss_plaintext_callback := p, ss_backend_callback_owned := q, ss_user := u\<rparr>) = phase_settled s"
  "phase_settled (s\<lparr>ss_user := u\<rparr>) = phase_settled s"
  "phase_settled (s\<lparr>ss_plaintext_callback := p\<rparr>) = phase_settled s"
  "phase_settled (s\<lparr>ss_backend_callback_owned := q\<rparr>) = phase_settled s"
  by (simp_all add: phase_settled_def)

lemma owner_dead [simp]:
  "dead (s\<lparr>ss_plaintext_callback := p, ss_backend_callback_owned := q, ss_user := u\<rparr>) = dead s"
  "dead (s\<lparr>ss_user := u\<rparr>) = dead s"
  "dead (s\<lparr>ss_plaintext_callback := p\<rparr>) = dead s"
  "dead (s\<lparr>ss_backend_callback_owned := q\<rparr>) = dead s"
  by (simp_all add: dead_def)

lemma owner_going [simp]:
  "going (s\<lparr>ss_plaintext_callback := p, ss_backend_callback_owned := q, ss_user := u\<rparr>) = going s"
  "going (s\<lparr>ss_user := u\<rparr>) = going s"
  "going (s\<lparr>ss_plaintext_callback := p\<rparr>) = going s"
  "going (s\<lparr>ss_backend_callback_owned := q\<rparr>) = going s"
  by (simp_all add: going_def)

lemma owner_session_inv [simp]:
  "session_inv (s\<lparr>ss_plaintext_callback := p, ss_backend_callback_owned := q, ss_user := u\<rparr>) = session_inv s"
  "session_inv (s\<lparr>ss_user := u\<rparr>) = session_inv s"
  "session_inv (s\<lparr>ss_plaintext_callback := p\<rparr>) = session_inv s"
  "session_inv (s\<lparr>ss_backend_callback_owned := q\<rparr>) = session_inv s"
  by (simp_all add: session_inv_def)

lemma notify_shape:
  obtains p q u where "notify_phase h s = s\<lparr>ss_plaintext_callback := p, ss_backend_callback_owned := q, ss_user := u\<rparr>"
proof -
  have "\<exists>p q u. foldl (phase_action_run h) s xs = s\<lparr>ss_plaintext_callback := p, ss_backend_callback_owned := q, ss_user := u\<rparr>" for xs
  proof (induction xs arbitrary: s)
    case Nil
    show ?case by (rule exI [of _ "ss_plaintext_callback s"], rule exI [of _ "ss_backend_callback_owned s"],
      rule exI [of _ "ss_user s"]) simp
  next
    case (Cons x xs)
    obtain p q u where x: "phase_action_run h s x = s\<lparr>ss_plaintext_callback := p, ss_backend_callback_owned := q, ss_user := u\<rparr>"
    proof (cases x)
      case (Set_Plaintext_Callback g)
      show thesis by (rule that [where p = g and q = "ss_backend_callback_owned s" and u = "ss_user s"]) (simp add: Set_Plaintext_Callback)
    next
      case Handoff_Backend
      show thesis
        by (rule that [where p = "ss_plaintext_callback s" and q = "ss_backend_callback_owned (snd (session_handoff_backend h s))" and u = "ss_user s"])
          (simp add: Handoff_Backend session_handoff_backend_def)
    next
      case (Owner_Work f)
      show thesis by (rule that [where p = "ss_plaintext_callback s" and q = "ss_backend_callback_owned s" and u = "f (ss_user s)"]) (simp add: Owner_Work)
    qed
    from Cons.IH [of "phase_action_run h s x"] show ?case by (auto simp: x)
  qed
  from this [of "sh_phase h s"] that show thesis by (auto simp: notify_phase_def)
qed

section \<open>Failure\<close>

lemma session_fail_inv:
  assumes "sealed s" "ss_started s" "ss_phase s = SECURE_TERMINAL \<Longrightarrow> dead s"
  shows "session_inv (session_fail h e s)"
proof (cases "ss_phase s = SECURE_TERMINAL")
  case True
  with assms show ?thesis by (simp add: session_fail_def session_inv_def)
next
  case False
  define s1 where "s1 = (if ss_phase s = SECURE_REENTRY_RECOVERY_A2 \<and> sa_recovery_class (ss_audit s) \<noteq> RECOVERY_STRICT_MATCH
      then s\<lparr>ss_audit := (ss_audit s)\<lparr>sa_recovery_class := RECOVERY_FAIL_CLOSED\<rparr>\<rparr> else s)"
  obtain p q u where n: "notify_phase h (s1\<lparr>ss_phase := SECURE_TERMINAL\<rparr>) =
      s1\<lparr>ss_phase := SECURE_TERMINAL, ss_plaintext_callback := p, ss_backend_callback_owned := q, ss_user := u\<rparr>"
    by (rule notify_shape)
  have "sealed s1" "ss_started s1"
    using assms(1,2) by (simp_all add: s1_def sealed_def evidence_def)
  then show ?thesis
    using False unfolding session_fail_def Let_def s1_def [symmetric] n
    by (simp add: session_inv_def sealed_def dead_def clear_record_queue_def)
qed

lemma live_fail_inv:
  "sealed s \<Longrightarrow> ss_started s \<Longrightarrow> ss_phase s \<noteq> SECURE_TERMINAL \<Longrightarrow> session_inv (session_fail h e s)"
  by (rule session_fail_inv) simp_all

lemma or_fail_inv:
  assumes "fst r = Accept \<Longrightarrow> session_inv (snd r)"
    and "fst r \<noteq> Accept \<Longrightarrow> sealed (snd r) \<and> ss_started (snd r) \<and> ss_phase (snd r) \<noteq> SECURE_TERMINAL"
  shows "session_inv (or_fail h r)"
  using assms by (cases r) (auto simp: or_fail_def intro!: session_fail_inv split: reply.split)

lemma recorded [simp]:
  "sealed (record_protocol_failure k a b c d e s) = sealed s"
  "ss_started (record_protocol_failure k a b c d e s) = ss_started s"
  "ss_phase (record_protocol_failure k a b c d e s) = ss_phase s"
  by (simp_all add: record_protocol_failure_def sealed_def evidence_def)

lemma refuse_frame_inv:
  "sealed s \<Longrightarrow> ss_started s \<Longrightarrow> ss_phase s \<noteq> SECURE_TERMINAL \<Longrightarrow> session_inv (refuse_frame h k a b c d e s)"
  unfolding refuse_frame_def by (rule session_fail_inv) simp_all

section \<open>Commands\<close>

lemma try_submit_inv:
  assumes "sealed s" "ss_started s" "going s" "secure_number (ss_phase s) \<le> 13" "\<not> ss_command_submitted s"
    "\<not> ss_out_pending s" "\<not> ss_logical_done s" "\<not> ss_d1_server_flight_seen s"
  shows "fst (try_submit_phase h s) = Accept \<Longrightarrow> session_inv (snd (try_submit_phase h s))"
    "fst (try_submit_phase h s) \<noteq> Accept \<Longrightarrow> sealed (snd (try_submit_phase h s)) \<and> ss_started (snd (try_submit_phase h s)) \<and>
       ss_phase (snd (try_submit_phase h s)) \<noteq> SECURE_TERMINAL"
proof -
  have off: "\<not> tl_handed_off (ss_tls s)" using assms by (intro counted_not_handed_off) (auto simp: going_def)
  have "phase_request (ss_material s) (ss_phase s) \<noteq> None"
    using assms(4) by (cases "ss_phase s") (simp_all add: phase_request_def)
  have sub: "sa_command_count (audit_submitted p a) = sa_command_count a + 1"
    "sa_ack_count (audit_submitted p a) = sa_ack_count a" "sa_typed_response_count (audit_submitted p a) = sa_typed_response_count a"
    "sa_a8_app12509_pin_match (audit_submitted p a) = sa_a8_app12509_pin_match a"
    "sa_e4_contract_result (audit_submitted p a) = sa_e4_contract_result a" for p a
    by (cases p; simp add: audit_submitted_def)+
  have "(fst (try_submit_phase h s) = Accept \<longrightarrow> session_inv (snd (try_submit_phase h s))) \<and>
    (fst (try_submit_phase h s) \<noteq> Accept \<longrightarrow> sealed (snd (try_submit_phase h s)) \<and> ss_started (snd (try_submit_phase h s)) \<and>
       ss_phase (snd (try_submit_phase h s)) \<noteq> SECURE_TERMINAL)"
  proof (cases "build_phase_frame (ss_material s) (ss_phase s)")
    case (Inl e)
    with assms show ?thesis by (simp add: try_submit_phase_def going_def)
  next
    case (Inr frame)
    obtain r u where sub_u: "sh_submit h (ss_generation s) frame (ss_user s) = (r, u)" by (metis surj_pair)
    define s1 where "s1 = s\<lparr>ss_out_pending := True, ss_out_kind := OUT_KIND_A0, ss_command_submitted := True,
      ss_audit := audit_submitted (ss_phase s) (ss_audit s)\<rparr>"
    have "session_inv s1"
      using assms off by (auto simp: s1_def session_state_defs Let_def sub min_def)
    moreover have "sealed (s1\<lparr>ss_user := u, ss_out_pending := False, ss_out_kind := OUT_KIND_NONE, ss_command_submitted := False,
        ss_audit := audit_refused (ss_phase s) (ss_audit s1)\<rparr>)"
      using assms off by (simp add: s1_def sealed_def)
    moreover have "try_submit_phase h s = (case r of
        Accept \<Rightarrow> (Accept, s1\<lparr>ss_user := u\<rparr>)
      | Reject e \<Rightarrow> (Reject (Session_Other e), s1\<lparr>ss_user := u, ss_out_pending := False, ss_out_kind := OUT_KIND_NONE,
          ss_command_submitted := False, ss_audit := audit_refused (ss_phase s) (ss_audit s1)\<rparr>))"
      using assms(4-6) Inr by (cases r) (simp_all add: try_submit_phase_def Let_def sub_u s1_def)
    moreover have "ss_started s1" "ss_phase s1 \<noteq> SECURE_TERMINAL" using assms(2,3) by (simp_all add: s1_def going_def)
    ultimately show ?thesis by (cases r) simp_all
  qed
  then show "fst (try_submit_phase h s) = Accept \<Longrightarrow> session_inv (snd (try_submit_phase h s))"
    "fst (try_submit_phase h s) \<noteq> Accept \<Longrightarrow> sealed (snd (try_submit_phase h s)) \<and> ss_started (snd (try_submit_phase h s)) \<and>
       ss_phase (snd (try_submit_phase h s)) \<noteq> SECURE_TERMINAL" by blast+
qed

section \<open>The TLS phase\<close>

definition tls_mid :: "('s, 'u) secure_session \<Rightarrow> bool" where
  "tls_mid s \<longleftrightarrow> sealed s \<and> ss_started s \<and> going s \<and> ss_phase s = SECURE_TLS"

definition tls_ok :: "'s tls_server \<Rightarrow> ('s, 'u) secure_session \<Rightarrow> bool" where
  "tls_ok t s \<longleftrightarrow> session_inv s \<and> evidence (ss_audit s) \<and> ss_phase s = SECURE_TERMINAL \<or>
     tls_mid s \<and> served s \<and> ss_tls s = t"

lemma evidence_simps [simp]:
  "evidence (a\<lparr>sa_pacing_schedule_count := k\<rparr>) = evidence a" "evidence (a\<lparr>sa_b0_physical_submit_count := k\<rparr>) = evidence a"
  "evidence (a\<lparr>sa_tls_record_count := k\<rparr>) = evidence a" "evidence (a\<lparr>sa_tls_established := b\<rparr>) = evidence a"
  "evidence (a\<lparr>sa_recovery_class := c\<rparr>) = evidence a" "evidence (a\<lparr>sa_failure := f\<rparr>) = evidence a"
  by (simp_all add: evidence_def)

text \<open>After D1 the counters are final.\<close>

lemma counted_final:
  assumes "ss_phase s = SECURE_TLS \<or> ss_phase s = SECURE_STOP"
  shows "counted s \<longleftrightarrow> evidence (ss_audit s) \<and> \<not> ss_command_submitted s \<and> \<not> ss_ack_seen s \<and> \<not> ss_logical_done s"
  using assms by (elim disjE) (auto simp: counted_def evidence_def typed_before_def Let_def)

lemma tls_mid_iff:
  "tls_mid s \<longleftrightarrow> ss_phase s = SECURE_TLS \<and> psk_kept (ss_tls s) \<and> evidence (ss_audit s) \<and> ss_started s \<and> ss_error s = None \<and>
     \<not> ss_command_submitted s \<and> \<not> ss_ack_seen s \<and> \<not> ss_logical_done s \<and>
     (ss_out_pending s \<longleftrightarrow> ss_b0_logical s \<noteq> None) \<and>
     (ss_out_pending s \<longrightarrow> ss_out_kind s = OUT_KIND_B0 \<and> \<not> ss_pace_pending s \<and> 0 < ss_b0_offset s \<and>
        ss_b0_offset s \<le> length (the (ss_b0_logical s))) \<and>
     (ss_pace_pending s \<longrightarrow> ss_pace_generation s = ss_generation s)"
  by (cases "ss_phase s = SECURE_TLS") (auto simp: tls_mid_def sealed_def going_def counted_final wired_def)

lemma inv_tls_iff:
  "ss_phase s = SECURE_TLS \<Longrightarrow> session_inv s \<longleftrightarrow> tls_mid s \<and> served s \<and>
     (tl_state (ss_tls s) = TLS_STATE_ESTABLISHED \<longrightarrow> ss_out_pending s \<or> ss_pace_pending s)"
  by (auto simp: session_inv_def tls_mid_def phase_settled_def dead_def going_def counted_final)

lemma inv_stop_iff:
  "ss_phase s = SECURE_STOP \<Longrightarrow> session_inv s \<longleftrightarrow> psk_kept (ss_tls s) \<and> evidence (ss_audit s) \<and> ss_started s \<and>
     ss_error s = None \<and> \<not> ss_command_submitted s \<and> \<not> ss_ack_seen s \<and> \<not> ss_logical_done s \<and> \<not> ss_out_pending s \<and>
     ss_b0_logical s = None \<and> ss_tls_records s = [] \<and> \<not> ss_pace_pending s \<and> tl_state (ss_tls s) = TLS_STATE_ESTABLISHED"
  by (auto simp: session_inv_def phase_settled_def dead_def going_def counted_final wired_def sealed_def)

lemma inv_terminal: "ss_phase s = SECURE_TERMINAL \<Longrightarrow> session_inv s \<longleftrightarrow> sealed s \<and> ss_started s \<and> dead s"
  by (auto simp: session_inv_def going_def)

lemma owner_tls_mid [simp]: "tls_mid (s\<lparr>ss_user := u\<rparr>) = tls_mid s" "tls_ok t (s\<lparr>ss_user := u\<rparr>) = tls_ok t s"
  by (simp_all add: tls_mid_def tls_ok_def)

lemma session_fail_fields [simp]:
  "ss_phase (session_fail h e s) = SECURE_TERMINAL" "evidence (ss_audit (session_fail h e s)) = evidence (ss_audit s)"
proof -
  have "ss_phase (session_fail h e s) = SECURE_TERMINAL \<and> evidence (ss_audit (session_fail h e s)) = evidence (ss_audit s)"
proof (cases "ss_phase s = SECURE_TERMINAL")
  case False
  define s1 where "s1 = (if ss_phase s = SECURE_REENTRY_RECOVERY_A2 \<and> sa_recovery_class (ss_audit s) \<noteq> RECOVERY_STRICT_MATCH
      then s\<lparr>ss_audit := (ss_audit s)\<lparr>sa_recovery_class := RECOVERY_FAIL_CLOSED\<rparr>\<rparr> else s)"
  obtain p q u where n: "notify_phase h (s1\<lparr>ss_phase := SECURE_TERMINAL\<rparr>) =
      s1\<lparr>ss_phase := SECURE_TERMINAL, ss_plaintext_callback := p, ss_backend_callback_owned := q, ss_user := u\<rparr>"
    by (rule notify_shape)
  show ?thesis using False unfolding session_fail_def Let_def s1_def [symmetric] n
    by (simp add: clear_record_queue_def s1_def)
qed (simp add: session_fail_def)
  then show "ss_phase (session_fail h e s) = SECURE_TERMINAL" "evidence (ss_audit (session_fail h e s)) = evidence (ss_audit s)"
    by blast+
qed

lemma fail_tls_ok:
  "evidence (ss_audit s) \<Longrightarrow> sealed s \<Longrightarrow> ss_started s \<Longrightarrow> ss_phase s \<noteq> SECURE_TERMINAL \<Longrightarrow> tls_ok t (session_fail h e s)"
  by (simp add: tls_ok_def) (blast intro: session_fail_inv)

lemma schedule_mid:
  assumes "tls_mid s" "\<not> ss_out_pending s"
  shows "tls_mid (schedule_next_record h s)" "served (schedule_next_record h s)"
    "ss_tls (schedule_next_record h s) = ss_tls s" "ss_pace_pending (schedule_next_record h s)"
  using assms by (auto simp: schedule_next_record_def tls_mid_iff served_def Let_def split: option.split)

lemma chunk_ok:
  assumes "ss_phase s = SECURE_TLS" "psk_kept (ss_tls s)" "evidence (ss_audit s)" "ss_started s" "ss_error s = None"
    "\<not> ss_command_submitted s" "\<not> ss_ack_seen s" "\<not> ss_logical_done s"
    "ss_b0_logical s = Some l" "ss_b0_offset s < length l" "\<not> ss_out_pending s" "\<not> ss_pace_pending s"
  shows "tls_ok (ss_tls s) (or_fail h (submit_b0_chunk h s))" "session_inv (or_fail h (submit_b0_chunk h s))"
proof -
  define s1 where "s1 = s\<lparr>ss_b0_offset := ss_b0_offset s + min (length l - ss_b0_offset s) 64, ss_out_pending := True,
    ss_out_kind := OUT_KIND_B0, ss_audit := (ss_audit s)\<lparr>sa_b0_physical_submit_count := sa_b0_physical_submit_count (ss_audit s) + 1\<rparr>\<rparr>"
  define s2 where "s2 = s1\<lparr>ss_b0_offset := ss_b0_offset s1 - min (length l - ss_b0_offset s) 64, ss_out_pending := False,
    ss_out_kind := OUT_KIND_NONE, ss_audit := (ss_audit s1)\<lparr>sa_b0_physical_submit_count := sa_b0_physical_submit_count (ss_audit s1) - 1\<rparr>\<rparr>"
  obtain r u where sub: "sh_submit h (ss_generation s) (b0_chunk l (ss_b0_offset s)) (ss_user s) = (r, u)" by (metis surj_pair)
  have "tls_ok (ss_tls s) s1"
    using assms by (auto simp: s1_def tls_ok_def tls_mid_iff served_def min_def)
  moreover have "tls_ok (ss_tls s) (session_fail h (Session_Other e) (s2\<lparr>ss_user := u\<rparr>))" for e
    by (rule fail_tls_ok) (use assms in \<open>simp_all add: s2_def s1_def sealed_def\<close>)
  moreover have "submit_b0_chunk h s = (case r of Accept \<Rightarrow> (Accept, s1\<lparr>ss_user := u\<rparr>)
      | Reject e \<Rightarrow> (Reject (Session_Other e), s2\<lparr>ss_user := u\<rparr>))"
    using assms by (cases r) (simp_all add: submit_b0_chunk_def Let_def sub s1_def s2_def)
  ultimately have "tls_ok (ss_tls s) (or_fail h (submit_b0_chunk h s)) \<and>
      (ss_phase (or_fail h (submit_b0_chunk h s)) = SECURE_TERMINAL \<or> ss_out_pending (or_fail h (submit_b0_chunk h s)))"
    by (cases r) (simp_all add: or_fail_def s1_def)
  then show "tls_ok (ss_tls s) (or_fail h (submit_b0_chunk h s))" "session_inv (or_fail h (submit_b0_chunk h s))"
    by (auto simp: tls_ok_def tls_mid_def inv_tls_iff)
qed

lemma start_next_ok:
  assumes "tls_mid s" "\<not> ss_pace_pending s"
  shows "tls_ok (ss_tls s) (start_next_record_now h s)"
proof (cases "ss_b0_logical s \<noteq> None \<or> ss_out_pending s \<or> ss_tls_records s = []")
  case True
  then have "start_next_record_now h s = s" by (auto simp: start_next_record_now_def)
  with True assms show ?thesis by (auto simp: tls_ok_def served_def tls_mid_iff)
next
  case False
  define s1 where "s1 = s\<lparr>ss_tls_records := tl (ss_tls_records s)\<rparr>"
  let ?r = "hd (ss_tls_records s)"
  define s2 where "s2 = s1\<lparr>ss_b0_logical := Some (b0_record_message ?r), ss_b0_offset := 0\<rparr>"
  have "tls_ok (ss_tls s2) (or_fail h (submit_b0_chunk h s2))"
    by (rule chunk_ok(1) [where l = "b0_record_message ?r"])
      (use assms False in \<open>simp_all add: s2_def s1_def b0_record_message_def tls_mid_iff Let_def\<close>)
  moreover have "tls_ok t (session_fail h (Session_Error SECURE_ERROR_TLS) s1)" for t
    by (rule fail_tls_ok) (use assms in \<open>simp_all add: s1_def tls_mid_iff sealed_def\<close>)
  moreover have "start_next_record_now h s = (if length ?r = 0 \<or> length ?r > 65535
      then session_fail h (Session_Error SECURE_ERROR_TLS) s1 else or_fail h (submit_b0_chunk h s2))"
    using False assms by (simp add: start_next_record_now_def tls_mid_iff s1_def s2_def Let_def)
  moreover have "ss_tls s2 = ss_tls s" by (simp add: s2_def s1_def)
  ultimately show ?thesis by simp
qed

lemma start_b0_ok:
  assumes "tls_mid s"
  shows "tls_ok (ss_tls s) (maybe_start_b0 h s)"
proof -
  consider "ss_out_pending s \<or> ss_b0_logical s \<noteq> None \<or> ss_tls_records s = [] \<or> ss_pace_pending s"
    | "\<not> ss_out_pending s" "ss_b0_logical s = None" "ss_tls_records s \<noteq> []" "\<not> ss_pace_pending s" by blast
  then show ?thesis
  proof cases
    case 1
    then have "maybe_start_b0 h s = s"
      using assms by (auto simp: maybe_start_b0_def schedule_next_record_def start_next_record_now_def tls_mid_iff)
    with 1 assms show ?thesis by (auto simp: tls_ok_def served_def tls_mid_iff)
  next
    case 2
    then have "maybe_start_b0 h s = (if ss_tls_record_count s \<noteq> 0 then schedule_next_record h s else start_next_record_now h s)"
      using assms by (simp add: maybe_start_b0_def tls_mid_iff)
    with 2 schedule_mid [OF assms] start_next_ok [OF assms] show ?thesis by (simp add: tls_ok_def)
  qed
qed

lemma finish_inv:
  assumes "tls_ok t s"
  shows "session_inv (maybe_finish_tls h s)"
proof (cases "ss_phase s = SECURE_TERMINAL")
  case True
  with assms show ?thesis by (simp add: tls_ok_def maybe_finish_tls_def tls_mid_def)
next
  case False
  then have mid: "tls_mid s" "served s" using assms by (auto simp: tls_ok_def)
  then have tls: "ss_phase s = SECURE_TLS" by (simp add: tls_mid_iff)
  define s1 where "s1 = s\<lparr>ss_audit := (ss_audit s)\<lparr>sa_tls_established := True\<rparr>\<rparr>"
  obtain p q u where n: "notify_phase h (s1\<lparr>ss_phase := SECURE_STOP\<rparr>) =
      s1\<lparr>ss_phase := SECURE_STOP, ss_plaintext_callback := p, ss_backend_callback_owned := q, ss_user := u\<rparr>"
    by (rule notify_shape)
  have mid1: "tls_mid s1" "served s1" "ss_phase s1 = SECURE_TLS" using mid tls by (simp_all add: s1_def tls_mid_iff served_def)
  show ?thesis
  proof (cases "tl_state (ss_tls s) = TLS_STATE_ESTABLISHED \<and> \<not> ss_out_pending s \<and> \<not> ss_pace_pending s")
    case True
    then have "ss_b0_logical s = None" "ss_tls_records s = []"
      using mid by (simp_all add: tls_mid_iff served_def)
    with True tls have "maybe_finish_tls h s = notify_phase h (s1\<lparr>ss_phase := SECURE_STOP\<rparr>)"
      by (simp add: maybe_finish_tls_def Let_def s1_def)
    moreover have "session_inv (s1\<lparr>ss_phase := SECURE_STOP\<rparr>)"
      using True mid1(1,2) by (subst inv_stop_iff) (auto simp: tls_mid_iff served_def s1_def)
    ultimately show ?thesis by (simp add: n)
  next
    case False
    show ?thesis
    proof (cases "tl_state (ss_tls s) = TLS_STATE_ESTABLISHED")
      case True
      with False have busy: "ss_out_pending s \<or> ss_pace_pending s" by blast
      then have "ss_out_pending s1 \<or> ss_pace_pending s1" by (simp add: s1_def)
      moreover have "maybe_finish_tls h s = s1"
        using True busy tls unfolding maybe_finish_tls_def Let_def s1_def [symmetric] by (auto simp: s1_def)
      ultimately show ?thesis using mid1 by (simp add: inv_tls_iff)
    next
      case other: False
      then have "maybe_finish_tls h s = s" by (simp add: maybe_finish_tls_def)
      with mid tls other show ?thesis by (simp add: inv_tls_iff)
    qed
  qed
qed

section \<open>Progress\<close>

lemma advance_inv:
  assumes "sealed s" "ss_started s" "going s" "secure_number (ss_phase s) \<le> 13" "ss_command_submitted s"
    "ss_logical_done s" "\<not> ss_out_pending s"
  shows "session_inv (advance_phase h s)"
proof -
  define p where "p = (if ss_phase s = SECURE_D1 then SECURE_TLS else secure_phases ! (secure_number (ss_phase s) + 1))"
  have num: "secure_number p = secure_number (ss_phase s) + 1"
    using assms(4) secure_number_next [of "ss_phase s"] secure_number_iff(2) [of "ss_phase s"] by (auto simp: p_def)
  define s1 where "s1 = s\<lparr>ss_phase := p, ss_ack_seen := False, ss_logical_done := False, ss_command_submitted := False\<rparr>"
  obtain a b u where n: "notify_phase h (s\<lparr>ss_phase := p\<rparr>) =
      s\<lparr>ss_phase := p, ss_plaintext_callback := a, ss_backend_callback_owned := b, ss_user := u\<rparr>" by (rule notify_shape)
  define s2 where "s2 = s1\<lparr>ss_plaintext_callback := a, ss_backend_callback_owned := b, ss_user := u\<rparr>"
  have s2: "(notify_phase h (s\<lparr>ss_phase := p\<rparr>))\<lparr>ss_ack_seen := False, ss_logical_done := False, ss_command_submitted := False\<rparr> = s2"
    by (simp add: n s2_def s1_def)
  have typed: "typed_before (secure_number p) = typed_before (secure_number (ss_phase s)) +
      of_bool (secure_number (ss_phase s) \<le> 12 \<and> \<not> phase_ack_only (ss_phase s))"
    using typed_before_next [of "ss_phase s"] assms(4)
    by (cases "secure_number (ss_phase s) \<le> 12") (simp_all add: num, simp add: typed_before_def)
  have counts: "counted s1"
  proof (cases "ss_phase s = SECURE_D1")
    case True
    then have "p = SECURE_TLS" by (simp add: p_def)
    moreover have "evidence (ss_audit s)"
      by (rule counted_evidence) (use assms(3,5) True in \<open>simp_all add: going_def\<close>)
    ultimately show ?thesis by (subst counted_final) (simp_all add: s1_def)
  next
    case False
    then have "secure_number (ss_phase s) \<le> 12" using assms(4) secure_number_iff(2) [of "ss_phase s"] by linarith
    with assms typed show ?thesis
      by (auto simp: s1_def going_def counted_def num Let_def min_def)
  qed
  have live: "p \<noteq> SECURE_TERMINAL" using num assms(4) by auto
  have wires: "wired s1"
    using assms num by (auto simp: s1_def going_def wired_def Let_def)
  have "sealed s1" using assms(1) by (simp add: s1_def sealed_def)
  then have s2_ok: "sealed s2" "ss_started s2" "going s2"
    using counts wires live assms(2,3) by (simp_all add: s2_def) (simp_all add: s1_def going_def)
  have result: "advance_phase h s = (if secure_number p < 14 then or_fail h (try_submit_phase h s2)
      else maybe_finish_tls h (maybe_start_b0 h s2))"
    using assms(4,6,7) unfolding advance_phase_def Let_def p_def [symmetric] s2
    by (simp add: s2_def s1_def)
  show ?thesis
  proof (cases "secure_number p < 14")
    case True
    have "\<not> ss_d1_server_flight_seen s" using assms(3) True num by (simp add: going_def wired_def Let_def)
    with True s2_ok have "fst (try_submit_phase h s2) = Accept \<Longrightarrow> session_inv (snd (try_submit_phase h s2))"
      "fst (try_submit_phase h s2) \<noteq> Accept \<Longrightarrow> sealed (snd (try_submit_phase h s2)) \<and> ss_started (snd (try_submit_phase h s2)) \<and>
        ss_phase (snd (try_submit_phase h s2)) \<noteq> SECURE_TERMINAL"
      by (intro try_submit_inv; use assms(7) in \<open>simp add: s2_def s1_def\<close>)+
    with True result show ?thesis by (simp add: or_fail_inv)
  next
    case False
    then have "p = SECURE_TLS" using num assms(4) by (simp add: secure_number_iff(3) [symmetric])
    then have "tls_mid s2" using s2_ok by (simp add: tls_mid_def s2_def s1_def)
    with False result finish_inv [OF start_b0_ok] show ?thesis by simp
  qed
qed

lemma done_inv:
  assumes "sealed s" "ss_started s" "going s" "secure_number (ss_phase s) \<le> 13" "ss_command_submitted s" "ss_logical_done s"
  shows "session_inv (advance_phase h s)"
proof (cases "ss_out_pending s")
  case True
  then have "advance_phase h s = s" by (simp add: advance_phase_def)
  with True assms show ?thesis by (simp add: session_inv_def phase_settled_def Let_def)
next
  case False
  with assms show ?thesis by (simp add: advance_inv)
qed

lemma start_b0_idle:
  assumes "session_inv s" "ss_phase s = SECURE_TLS"
  shows "maybe_start_b0 h s = s"
  using assms
  by (auto simp: inv_tls_iff tls_mid_iff served_def maybe_start_b0_def schedule_next_record_def start_next_record_now_def)

lemma inv_cases:
  assumes "session_inv s"
  obtains (terminal) "ss_phase s = SECURE_TERMINAL" "dead s"
  | (command) "ss_phase s \<noteq> SECURE_TERMINAL" "secure_number (ss_phase s) \<le> 13" "going s" "ss_command_submitted s"
      "ss_logical_done s \<longrightarrow> ss_out_pending s"
      "ss_phase s = SECURE_D1 \<and> ss_d1_server_flight_seen s \<longrightarrow> ss_logical_done s"
  | (tls) "ss_phase s = SECURE_TLS" "tls_mid s" "served s"
      "tl_state (ss_tls s) = TLS_STATE_ESTABLISHED \<longrightarrow> ss_out_pending s \<or> ss_pace_pending s"
  | (stop) "ss_phase s = SECURE_STOP" "\<not> ss_out_pending s"
proof -
  consider "ss_phase s = SECURE_TERMINAL" | "secure_number (ss_phase s) \<le> 13" "ss_phase s \<noteq> SECURE_TERMINAL"
    | "ss_phase s = SECURE_TLS" | "ss_phase s = SECURE_STOP"
    by (cases "ss_phase s") simp_all
  then show thesis
  proof cases
    case 1
    with assms show thesis by (intro terminal) (simp_all add: inv_terminal)
  next
    case 2
    then have "going s" "phase_settled s" using assms by (auto simp: session_inv_def dead_def)
    with 2 show thesis by (intro command) (auto simp: phase_settled_def secure_number_iff(2) [symmetric])
  next
    case 3
    with assms show thesis by (intro tls) (auto simp: inv_tls_iff)
  next
    case 4
    with assms show thesis by (intro stop) (auto simp: inv_stop_iff)
  qed
qed

lemma session_out_inv:
  assumes inv: "session_inv s"
  shows "session_inv (session_out_complete h g e s)"
proof (cases "g \<noteq> ss_generation s \<or> \<not> ss_out_pending s \<or> ss_phase s = SECURE_TERMINAL")
  case True
  with inv show ?thesis by (simp add: session_out_complete_def)
next
  case False
  define s1 where "s1 = s\<lparr>ss_out_pending := False, ss_out_kind := OUT_KIND_NONE\<rparr>"
  have sealed1: "sealed s1" "ss_started s1" using inv by (simp_all add: s1_def session_inv_def sealed_def)
  show ?thesis
  proof (cases e)
    case (Some x)
    with False have "session_out_complete h g e s = session_fail h (Session_Other x) s1"
      by (simp add: session_out_complete_def s1_def Let_def)
    moreover have "ss_phase s1 \<noteq> SECURE_TERMINAL" using False by (simp add: s1_def)
    ultimately show ?thesis using sealed1 by (simp add: live_fail_inv)
  next
    case None
    from inv show ?thesis
    proof (cases rule: inv_cases)
      case terminal
      with False show ?thesis by simp
    next
      case stop
      with False show ?thesis by simp
    next
      case command
      have kind: "ss_out_kind s = OUT_KIND_A0"
        using command(2,3) False by (auto simp: going_def wired_def Let_def)
      have "going s1" using command by (auto simp: s1_def going_def counted_def wired_def Let_def)
      have inv1: "session_inv (advance_phase h s1)"
      proof (cases "ss_logical_done s")
        case True
        with command sealed1 \<open>going s1\<close> show ?thesis by (intro done_inv) (simp_all add: s1_def)
      next
        case not_done: False
        then have "advance_phase h s1 = s1" by (simp add: advance_phase_def s1_def)
        moreover have "phase_settled s1"
          using command not_done by (auto simp: s1_def phase_settled_def Let_def secure_number_iff(2))
        ultimately show ?thesis using sealed1 \<open>going s1\<close> by (simp add: session_inv_def)
      qed
      have "session_out_complete h g e s =
          (let s2 = advance_phase h s1 in if ss_phase s2 = SECURE_TLS then maybe_start_b0 h s2 else s2)"
        using False None kind by (simp add: session_out_complete_def s1_def Let_def)
      with inv1 start_b0_idle [OF inv1] show ?thesis by (auto simp: Let_def)
    next
      case tls
      then obtain l where l: "ss_b0_logical s = Some l" and kind: "ss_out_kind s = OUT_KIND_B0" and pace: "\<not> ss_pace_pending s"
        and offset: "ss_b0_offset s \<le> length l"
        using False by (auto simp: tls_mid_iff)
      define count where "count = ss_tls_record_count s1 + 1"
      define s2 where "s2 = s1\<lparr>ss_b0_logical := None, ss_b0_offset := 0, ss_tls_record_count := count,
        ss_audit := (ss_audit s1)\<lparr>sa_tls_record_count := count\<rparr>\<rparr>"
      have result: "session_out_complete h g e s =
          (if ss_b0_offset s < length l then or_fail h (submit_b0_chunk h s1)
           else maybe_finish_tls h (if ss_tls_records s2 \<noteq> [] then schedule_next_record h s2 else s2))"
        using False None kind l unfolding session_out_complete_def Let_def s1_def [symmetric]
        by (simp add: s2_def count_def) (simp add: s1_def)
      show ?thesis
      proof (cases "ss_b0_offset s < length l")
        case True
        have "session_inv (or_fail h (submit_b0_chunk h s1))"
          by (rule chunk_ok(2) [where l = l]) (use tls l pace True in \<open>simp_all add: s1_def tls_mid_iff\<close>)
        with True result show ?thesis by simp
      next
        case last: False
        have mid: "tls_mid s2" "\<not> ss_out_pending s2" using tls pace by (simp_all add: s2_def s1_def tls_mid_iff)
        have "tls_ok (ss_tls s2) (if ss_tls_records s2 \<noteq> [] then schedule_next_record h s2 else s2)"
          using mid schedule_mid [OF mid, of h] by (auto simp: tls_ok_def served_def)
        with last result show ?thesis by (simp add: finish_inv)
      qed
    qed
  qed
qed

section \<open>Responses\<close>

lemma ack_inv:
  assumes "session_inv s" "secure_number (ss_phase s) \<le> 12" "\<not> ss_logical_done s"
  shows "session_inv (session_ack h bs s)"
proof -
  have live: "ss_phase s \<noteq> SECURE_TERMINAL" using assms(2) by auto
  have base: "sealed s" "ss_started s" "going s" "ss_command_submitted s"
    using assms live by (auto simp: session_inv_def dead_def phase_settled_def Let_def)
  have off: "\<not> tl_handed_off (ss_tls s)"
    by (rule counted_not_handed_off) (use base assms(2) in \<open>auto simp: going_def\<close>)
  show ?thesis
  proof (cases "ss_ack_seen s \<or> length bs \<noteq> 2 \<or> bs ! 0 \<noteq> secure_control (ss_phase s) \<or> \<not> phase_ack_status_allowed (ss_phase s) (bs ! 1)")
    case True
    have "session_inv (refuse_frame h k a b c d e s)" for k a b c d e
      using base(1,2) live by (rule refuse_frame_inv)
    with True show ?thesis by (auto simp: session_ack_def)
  next
    case False
    define a where "a = (ss_audit s)\<lparr>sa_ack_count := sa_ack_count (ss_audit s) + 1\<rparr>"
    define a1 where "a1 = (if ss_phase s = SECURE_REENTRY_RECOVERY_A2
      then a\<lparr>sa_recovery_a2_ack_count := sa_recovery_a2_ack_count a + 1, sa_recovery_class := RECOVERY_ACK_STRICT\<rparr>
      else if ss_phase s = SECURE_A8 then a\<lparr>sa_a8_ack_count := sa_a8_ack_count a + 1\<rparr> else a)"
    have a1: "sa_command_count a1 = sa_command_count (ss_audit s)" "sa_ack_count a1 = sa_ack_count (ss_audit s) + 1"
      "sa_typed_response_count a1 = sa_typed_response_count (ss_audit s)"
      "sa_a8_app12509_pin_match a1 = sa_a8_app12509_pin_match (ss_audit s)"
      "sa_e4_contract_result a1 = sa_e4_contract_result (ss_audit s)"
      by (simp_all add: a1_def a_def)
    define s1 where "s1 = s\<lparr>ss_ack_seen := True, ss_audit := a1\<rparr>"
    have result: "session_ack h bs s =
        (if phase_ack_only (ss_phase s) then advance_phase h (s1\<lparr>ss_logical_done := True\<rparr>) else s1)"
      using False unfolding session_ack_def Let_def a_def [symmetric] a1_def [symmetric] by (simp add: s1_def)
    have "sealed s1" using base off by (simp add: s1_def sealed_def)
    have "counted s1" "wired s1" "ss_error s1 = None"
      using base(3) False assms(2,3) by (auto simp: s1_def going_def counted_def wired_def a1 Let_def)
    then have "going s1" using live by (simp add: s1_def going_def)
    have "phase_settled s1" using assms base(4) live by (auto simp: s1_def session_inv_def dead_def phase_settled_def Let_def)
    have "session_inv s1" using \<open>sealed s1\<close> \<open>going s1\<close> \<open>phase_settled s1\<close> base(2) by (simp add: session_inv_def s1_def)
    moreover have "session_inv (advance_phase h (s1\<lparr>ss_logical_done := True\<rparr>))" if only: "phase_ack_only (ss_phase s)"
    proof (rule done_inv)
      show "going (s1\<lparr>ss_logical_done := True\<rparr>)"
        using \<open>going s1\<close> only assms(2)
        by (cases "ss_phase s") (auto simp: s1_def going_def counted_def wired_def phase_ack_only_def Let_def)
    qed (use \<open>sealed s1\<close> base assms in \<open>simp_all add: s1_def sealed_def\<close>)
    ultimately show ?thesis by (simp add: result)
  qed
qed

lemma validate_typed_shape:
  assumes "validate_typed sha256 ctl bs s = (ok, e4, s1)"
  shows "\<exists>r. s1 = s\<lparr>ss_audit := (ss_audit s)\<lparr>sa_e4_contract_result := r\<rparr>\<rparr> \<and> (ss_phase s \<noteq> SECURE_E4 \<longrightarrow> r = sa_e4_contract_result (ss_audit s))"
    "ok \<Longrightarrow> ss_phase s = SECURE_E4 \<Longrightarrow> sa_e4_contract_result (ss_audit s1) = E4_CONTRACT_MATCH"
proof -
  have same: "s = s\<lparr>ss_audit := (ss_audit s)\<lparr>sa_e4_contract_result := sa_e4_contract_result (ss_audit s)\<rparr>\<rparr>" by simp
  show "\<exists>r. s1 = s\<lparr>ss_audit := (ss_audit s)\<lparr>sa_e4_contract_result := r\<rparr>\<rparr> \<and> (ss_phase s \<noteq> SECURE_E4 \<longrightarrow> r = sa_e4_contract_result (ss_audit s))"
  proof (cases "s1 = s")
    case True
    with same show ?thesis by blast
  next
    case False
    with assms show ?thesis
      by (cases "ss_phase s") (auto simp: validate_typed_def Let_def split: if_splits)
  qed
  show "ok \<Longrightarrow> ss_phase s = SECURE_E4 \<Longrightarrow> sa_e4_contract_result (ss_audit s1) = E4_CONTRACT_MATCH"
    using assms by (auto simp: validate_typed_def Let_def split: if_splits)
qed

lemma typed_inv:
  assumes "session_inv s" "secure_number (ss_phase s) \<le> 12" "\<not> ss_logical_done s"
  shows "session_inv (session_typed h ctl bs s)"
proof -
  have live: "ss_phase s \<noteq> SECURE_TERMINAL" using assms(2) by auto
  have base: "sealed s" "ss_started s" "going s" "ss_command_submitted s"
    using assms live by (auto simp: session_inv_def dead_def phase_settled_def Let_def)
  have off: "\<not> tl_handed_off (ss_tls s)"
    by (rule counted_not_handed_off) (use base assms(2) in \<open>auto simp: going_def\<close>)
  obtain ok e4 s1 where typed: "validate_typed (sh_sha256 h) ctl bs s = (ok, e4, s1)" by (metis surj_pair)
  obtain r where s1: "s1 = s\<lparr>ss_audit := (ss_audit s)\<lparr>sa_e4_contract_result := r\<rparr>\<rparr>"
    and r: "ss_phase s \<noteq> SECURE_E4 \<longrightarrow> r = sa_e4_contract_result (ss_audit s)"
    using validate_typed_shape(1) [OF typed] by blast
  have refusals: "session_inv (refuse_frame h k a b c d e s)" "session_inv (refuse_frame h k a b c d e s1)" for k a b c d e
    by (rule refuse_frame_inv; use base off live in \<open>simp add: s1 sealed_def\<close>)+
  show ?thesis
  proof (cases "ss_ack_seen s \<and> \<not> phase_ack_only (ss_phase s) \<and> ctl = secure_control (ss_phase s) \<and> ok")
    case False
    with refusals typed show ?thesis by (auto simp: session_typed_def Let_def)
  next
    case True
    define a where "a = (ss_audit s1)\<lparr>sa_typed_response_count := sa_typed_response_count (ss_audit s1) + 1\<rparr>"
    define a1 where "a1 = (if ss_phase s = SECURE_REENTRY_RECOVERY_A2
      then a\<lparr>sa_recovery_a2_typed_count := sa_recovery_a2_typed_count a + 1, sa_target_prefix_completed := True,
        sa_recovery_class := RECOVERY_STRICT_MATCH\<rparr>
      else if ss_phase s = SECURE_A8
      then a\<lparr>sa_a8_typed_count := sa_a8_typed_count a + 1, sa_a8_app12509_pin_match := True\<rparr> else a)"
    have a1: "sa_command_count a1 = sa_command_count (ss_audit s)" "sa_ack_count a1 = sa_ack_count (ss_audit s)"
      "sa_typed_response_count a1 = sa_typed_response_count (ss_audit s) + 1"
      "sa_a8_app12509_pin_match a1 = (sa_a8_app12509_pin_match (ss_audit s) \<or> ss_phase s = SECURE_A8)"
      "sa_e4_contract_result a1 = r"
      by (simp_all add: a1_def a_def s1)
    have e4: "ss_phase s = SECURE_E4 \<Longrightarrow> r = E4_CONTRACT_MATCH"
      using validate_typed_shape(2) [OF typed] True by (simp add: s1)
    define s2 where "s2 = s\<lparr>ss_audit := a1, ss_logical_done := True\<rparr>"
    have result: "session_typed h ctl bs s = advance_phase h s2"
      using True typed unfolding session_typed_def Let_def
      by (simp add: a_def [symmetric]) (simp add: s1 s2_def a1_def)
    have "counted s2"
      using base(3) True assms(2,3) r e4
      by (cases "ss_phase s") (simp_all add: s2_def going_def counted_def a1 Let_def typed_before_def phase_ack_only_def)
    then have "going s2" using base(3) by (simp add: s2_def going_def wired_def)
    show ?thesis unfolding result
      by (rule done_inv) (use \<open>going s2\<close> base assms(2) off in \<open>simp_all add: s2_def sealed_def\<close>)
  qed
qed

lemma session_a0_inv:
  assumes inv: "session_inv s"
  shows "session_inv (session_handle_a0 h frame s)"
proof (cases frame)
  case None
  with inv show ?thesis by (simp add: session_handle_a0_def)
next
  case (Some d)
  show ?thesis
  proof (cases "ss_phase s = SECURE_TERMINAL")
    case True
    with inv Some show ?thesis by (simp add: session_handle_a0_def)
  next
    case live: False
    have base: "sealed s" "ss_started s" using inv by (simp_all add: session_inv_def)
    note refusals = refuse_frame_inv [OF base live]
    have malformed: "session_inv (session_fail h e (record_malformed_frame d s))" for e
      using base live by (intro live_fail_inv) (simp_all add: record_malformed_frame_def)
    show ?thesis
    proof (cases "secure_number (ss_phase s) \<ge> 13 \<or> ss_logical_done s \<or> length d < 5")
      case True
      with live Some refusals malformed show ?thesis by (auto simp: session_handle_a0_def)
    next
      case False
      then have n: "secure_number (ss_phase s) \<le> 12" "\<not> ss_logical_done s" by simp_all
      show ?thesis
        using live Some False malformed ack_inv [OF inv n] typed_inv [OF inv n]
        by (cases "a0_parse_frame (Some d) (d ! 4)") (simp_all add: session_handle_a0_def)
    qed
  qed
qed

section \<open>TLS records and plaintext\<close>

definition pushing :: "'s tls_server \<times> ('s, 'u) secure_session \<Rightarrow> bool" where
  "pushing ts \<longleftrightarrow>
     (let (t, s) = ts; s' = s\<lparr>ss_tls := t\<rparr> in
      evidence (ss_audit s) \<and> psk_kept t \<and> ss_started s \<and>
      (dead s \<or>
       ss_phase s = SECURE_D1 \<and> going s \<and> ss_command_submitted s \<and> (ss_logical_done s \<longrightarrow> ss_out_pending s) \<or>
       tls_mid s' \<and> served s \<or> ss_phase s = SECURE_STOP \<and> session_inv s'))"

definition push_refused :: "'s tls_server \<times> ('s, 'u) secure_session \<Rightarrow> bool" where
  "push_refused ts \<longleftrightarrow>
     (let (t, s) = ts in evidence (ss_audit s) \<and> psk_kept t \<and> ss_started s \<and> (dead s \<or> ss_phase s \<noteq> SECURE_TERMINAL))"

lemma pushing_tls:
  assumes "pushing (t, s)" "psk_kept t'" "tl_state t' = TLS_STATE_ESTABLISHED \<or> tl_state t' = tl_state t"
  shows "pushing (t', s)"
  using assms by (auto simp: pushing_def Let_def tls_mid_iff served_def inv_stop_iff)

lemma pushing_on_session:
  assumes "pushing (t, s)"
    and "\<And>s'. s' = s\<lparr>ss_tls := t\<rparr> \<Longrightarrow> dead s' \<Longrightarrow> pushing (ss_tls (f bs s'), f bs s')"
    and "\<And>s'. s' = s\<lparr>ss_tls := t\<rparr> \<Longrightarrow> evidence (ss_audit s') \<Longrightarrow> psk_kept t \<Longrightarrow> ss_started s' \<Longrightarrow> ss_phase s' = SECURE_D1 \<Longrightarrow> going s' \<Longrightarrow>
      ss_command_submitted s' \<Longrightarrow> ss_logical_done s' \<longrightarrow> ss_out_pending s' \<Longrightarrow> pushing (ss_tls (f bs s'), f bs s')"
    and "\<And>s'. s' = s\<lparr>ss_tls := t\<rparr> \<Longrightarrow> tls_mid s' \<Longrightarrow> served s' \<Longrightarrow> pushing (ss_tls (f bs s'), f bs s')"
    and "\<And>s'. s' = s\<lparr>ss_tls := t\<rparr> \<Longrightarrow> ss_phase s' = SECURE_STOP \<Longrightarrow> session_inv s' \<Longrightarrow> pushing (ss_tls (f bs s'), f bs s')"
  shows "pushing (on_session f bs (t, s))"
proof -
  let ?s = "s\<lparr>ss_tls := t\<rparr>"
  have same: "dead ?s = dead s" "served ?s = served s" by (simp_all add: dead_def served_def)
  have d1: "ss_phase s = SECURE_D1 \<Longrightarrow> going ?s = going s" by (simp add: going_def counted_def wired_def)
  have "pushing (ss_tls (f bs ?s), f bs ?s)"
    using assms(1) assms(2-) [OF refl] d1 unfolding pushing_def [of "(t, s)"] Let_def prod.case
    by (elim conjE disjE) (simp_all add: same)
  then show ?thesis by (simp add: on_session_def Let_def)
qed

lemma pushing_fail:
  assumes "evidence (ss_audit s)" "psk_kept (ss_tls s)" "ss_started s" "ss_phase s \<noteq> SECURE_TERMINAL"
  shows "pushing (ss_tls (session_fail h e s), session_fail h e s)"
proof -
  have "session_inv (session_fail h e s)" using assms by (intro live_fail_inv) (simp_all add: sealed_def)
  then show ?thesis using assms(1) by (simp add: inv_terminal pushing_def sealed_def)
qed

lemma pushing_dead:
  "evidence (ss_audit s) \<Longrightarrow> psk_kept (ss_tls s) \<Longrightarrow> ss_started s \<Longrightarrow> dead s \<Longrightarrow> pushing (ss_tls s, s)"
  by (simp add: pushing_def)

lemma pushing_output:
  assumes "pushing (t, s)"
  shows "pushing (on_session (session_tls_output h) bs (t, s))"
proof (rule pushing_on_session [OF assms])
  fix s'
  assume s': "s' = s\<lparr>ss_tls := t\<rparr>"
  have base: "evidence (ss_audit s')" "psk_kept (ss_tls s')" "ss_started s'" using assms by (auto simp: pushing_def s' Let_def)
  {
    assume "dead s'"
    with base show "pushing (ss_tls (session_tls_output h bs s'), session_tls_output h bs s')"
      by (simp add: session_tls_output_def pushing_dead dead_def)
  next
    assume a: "ss_phase s' = SECURE_D1" "going s'" "ss_command_submitted s'" "ss_logical_done s' \<longrightarrow> ss_out_pending s'"
    define s2 where "s2 = s'\<lparr>ss_d1_server_flight_seen := True, ss_tls_records := ss_tls_records s' @ [bs]\<rparr>"
    have "session_tls_output h bs s' = s2" using a(1) by (simp add: session_tls_output_def s2_def)
    moreover have "going s2" using a(1,2) by (simp add: s2_def going_def counted_def wired_def)
    ultimately show "pushing (ss_tls (session_tls_output h bs s'), session_tls_output h bs s')"
      using a base by (simp add: pushing_def s2_def)
  next
    assume a: "tls_mid s'" "served s'"
    define s2 where "s2 = s'\<lparr>ss_tls_records := ss_tls_records s' @ [bs]\<rparr>"
    have "session_tls_output h bs s' = maybe_start_b0 h s2"
      using a(1) by (simp add: session_tls_output_def s2_def tls_mid_iff)
    moreover have "tls_mid s2" using a(1) by (simp add: s2_def tls_mid_iff)
    from start_b0_ok [OF this, of h] have "tls_ok (ss_tls s2) (maybe_start_b0 h s2)" .
    then have "pushing (ss_tls (maybe_start_b0 h s2), maybe_start_b0 h s2)"
      by (auto simp: tls_ok_def pushing_def inv_terminal sealed_def tls_mid_iff)
    ultimately show "pushing (ss_tls (session_tls_output h bs s'), session_tls_output h bs s')" by simp
  next
    assume "ss_phase s' = SECURE_STOP" "session_inv s'"
    then show "pushing (ss_tls (session_tls_output h bs s'), session_tls_output h bs s')"
      using base by (simp add: session_tls_output_def pushing_def)
  }
qed

lemma pushing_plaintext:
  assumes "pushing (t, s)"
  shows "pushing (on_session (session_tls_plaintext h) bs (t, s))"
proof (rule pushing_on_session [OF assms])
  fix s'
  assume s': "s' = s\<lparr>ss_tls := t\<rparr>"
  have base: "evidence (ss_audit s')" "psk_kept (ss_tls s')" "ss_started s'" using assms by (auto simp: pushing_def s' Let_def)
  note fail = pushing_fail [OF base]
  {
    assume "dead s'"
    with base show "pushing (ss_tls (session_tls_plaintext h bs s'), session_tls_plaintext h bs s')"
      by (simp add: session_tls_plaintext_def session_fail_def pushing_dead dead_def)
  next
    assume "ss_phase s' = SECURE_D1"
    with fail show "pushing (ss_tls (session_tls_plaintext h bs s'), session_tls_plaintext h bs s')"
      by (simp add: session_tls_plaintext_def)
  next
    assume "tls_mid s'"
    with fail show "pushing (ss_tls (session_tls_plaintext h bs s'), session_tls_plaintext h bs s')"
      by (simp add: session_tls_plaintext_def tls_mid_iff)
  next
    assume "ss_phase s' = SECURE_STOP" "session_inv s'"
    with fail base show "pushing (ss_tls (session_tls_plaintext h bs s'), session_tls_plaintext h bs s')"
      by (simp add: session_tls_plaintext_def) (simp add: pushing_def)
  }
qed

interpretation session_tls: tls_callbacks "on_session (session_tls_output h)" "on_session (session_tls_plaintext h)" pushing push_refused
  for h :: "('s, 'u) session_hooks"
proof
  fix tw :: "'s tls_server \<times> ('s, 'u) secure_session" and bs
  show "pushing tw \<Longrightarrow> pushing (on_session (session_tls_output h) bs tw)" by (cases tw) (simp add: pushing_output)
  show "pushing tw \<Longrightarrow> pushing (on_session (session_tls_plaintext h) bs tw)" by (cases tw) (simp add: pushing_plaintext)
next
  fix t :: "'s tls_server" and s :: "('s, 'u) secure_session" and ssl bs i n k
  assume p: "pushing (t, s)"
  then have psk: "psk_kept t" by (simp add: pushing_def Let_def)
  show "pushing (t\<lparr>tl_ssl := ssl\<rparr>, s)" "pushing (t\<lparr>tl_output_pending := bs\<rparr>, s)"
    "pushing (t\<lparr>tl_audit := (tl_audit t)\<lparr>tl_plaintext_delivery_count := k\<rparr>\<rparr>, s)"
    "pushing (t\<lparr>tl_state := TLS_STATE_ESTABLISHED, tl_audit := (tl_audit t)\<lparr>tl_handshake_count := k\<rparr>\<rparr>, s)"
    by (rule pushing_tls [OF p]; use psk in simp)+
  have "tl_state (snd (psk_cb i n t)) = tl_state t"
    by (auto simp: psk_cb_def cleanse_project_secret_def split: option.split)
  then show "pushing (snd (psk_cb i n t), s)" by (intro pushing_tls [OF p] psk_kept_cb [OF psk]) simp
  show "push_refused (tls_terminal t, s)"
    using p by (auto simp: pushing_def push_refused_def Let_def tls_mid_iff)
qed

lemma handle_b0_inv:
  assumes inv: "session_inv s"
  shows "session_inv (session_handle_b0 h frame s)"
proof (cases frame)
  case None
  with inv show ?thesis by (simp add: session_handle_b0_def)
next
  case (Some d)
  show ?thesis
  proof (cases "ss_phase s = SECURE_TERMINAL")
    case True
    with inv Some show ?thesis by (simp add: session_handle_b0_def)
  next
    case live: False
    have base: "sealed s" "ss_started s" using inv by (simp_all add: session_inv_def)
    note refusals = refuse_frame_inv [OF base live]
    have malformed: "session_inv (session_fail h e (record_malformed_frame d s))" for e
      using base live by (intro live_fail_inv) (simp_all add: record_malformed_frame_def)
    show ?thesis
    proof (cases "secure_number (ss_phase s) < 13 \<or> ss_phase s = SECURE_STOP \<and> \<not> ss_plaintext_callback s \<or>
        length d < 9 \<or> d ! 0 \<noteq> 0xb0 \<or> unat (le16 (d ! 1) (d ! 2)) + 4 \<noteq> length d \<or> d ! 3 \<noteq> d ! 0 + d ! 1 + d ! 2")
      case True
      with live Some refusals malformed show ?thesis by (auto simp: session_handle_b0_def)
    next
      case False
      then have late: "13 \<le> secure_number (ss_phase s)" by simp
      obtain r t s0 where push: "tls_server_push (sh_engine h) (on_session (session_tls_output h))
          (on_session (session_tls_plaintext h)) (drop 4 d) (ss_tls s, s) = (r, t, s0)" by (metis surj_pair)
      define s1 where "s1 = s0\<lparr>ss_tls := t\<rparr>"
      define s2 where "s2 = (if ss_phase s1 = SECURE_D1 \<and> ss_d1_server_flight_seen s1
        then advance_phase h (s1\<lparr>ss_logical_done := True\<rparr>) else s1)"
      have result: "session_handle_b0 h frame s = (case r of
          Reject e \<Rightarrow> session_fail h (Session_Tls e) s1 | Accept \<Rightarrow> maybe_finish_tls h (maybe_start_b0 h s2))"
        using Some live False push
        by (cases r; cases "ss_phase s = SECURE_STOP") (simp_all add: session_handle_b0_def Let_def s1_def s2_def)
      have "evidence (ss_audit s)"
      proof (rule counted_evidence)
        from inv live show "counted s" "14 \<le> secure_number (ss_phase s) \<or> ss_phase s = SECURE_D1 \<and> ss_command_submitted s"
          using late secure_number_iff(2) [of "ss_phase s"] by (auto simp: session_inv_def dead_def going_def phase_settled_def Let_def)
      qed (rule live)
      note complete = this
      from inv have "pushing (ss_tls s, s)"
      proof (cases rule: inv_cases)
        case command
        then have "ss_phase s = SECURE_D1" using late by (simp add: secure_number_iff(2) [symmetric])
        with command complete base show ?thesis by (simp add: pushing_def sealed_def)
      qed (use base inv complete live in \<open>simp_all add: pushing_def sealed_def\<close>)
      note kept = session_tls.push_keeps [OF this, where e = "sh_engine h" and data = "drop 4 d" and h = h, unfolded push fst_conv snd_conv]
      show ?thesis
      proof (cases r)
        case (Reject e)
        with kept have "session_inv (session_fail h (Session_Tls e) s1)"
          by (intro session_fail_inv) (auto simp: push_refused_def s1_def sealed_def dead_def)
        with Reject result show ?thesis by simp
      next
        case Accept
        with kept have p: "pushing (t, s0)" by simp
        have finish: "session_inv (maybe_finish_tls h (maybe_start_b0 h x))"
          if "session_inv x \<and> ss_phase x \<noteq> SECURE_TLS \<or> tls_mid x" for x
          using that
        proof
          assume x: "session_inv x \<and> ss_phase x \<noteq> SECURE_TLS"
          then have "maybe_start_b0 h x = x"
            by (cases "ss_phase x") (auto simp: maybe_start_b0_def inv_terminal dead_def inv_stop_iff)
          with x show ?thesis by (simp add: maybe_finish_tls_def)
        qed (rule finish_inv [OF start_b0_ok])
        have some_inv: "session_inv x \<and> ss_phase x \<noteq> SECURE_TLS \<or> tls_mid x" if "session_inv x" for x :: "('s, 'u) secure_session"
          using that by (auto simp: inv_tls_iff)
        have base1: "evidence (ss_audit s1)" "psk_kept (ss_tls s1)" "ss_started s1" "sealed s1"
          using p by (auto simp: pushing_def s1_def sealed_def Let_def)
        have same: "dead s1 = dead s0" "ss_phase s1 = ss_phase s0" "ss_command_submitted s1 = ss_command_submitted s0"
          "ss_logical_done s1 = ss_logical_done s0" "ss_out_pending s1 = ss_out_pending s0"
          by (simp_all add: s1_def dead_def)
        have d1: "ss_phase s0 = SECURE_D1 \<Longrightarrow> going s1 = going s0" by (simp add: s1_def going_def counted_def wired_def)
        consider "dead s1" | "ss_phase s1 = SECURE_D1" "going s1" "ss_command_submitted s1" "ss_logical_done s1 \<longrightarrow> ss_out_pending s1"
          | "tls_mid s1" | "ss_phase s1 = SECURE_STOP" "session_inv s1"
          using p unfolding pushing_def Let_def prod.case s1_def [symmetric] same
          by (elim conjE disjE) (simp_all add: d1)
        then have "session_inv s2 \<and> ss_phase s2 \<noteq> SECURE_TLS \<or> tls_mid s2"
        proof cases
          case 1
          then have "s2 = s1" by (simp add: s2_def dead_def)
          with 1 base1 some_inv [of s1] show ?thesis by (simp add: session_inv_def)
        next
          case 2
          have "session_inv s2"
          proof (cases "ss_d1_server_flight_seen s1")
            case True
            have "going (s1\<lparr>ss_logical_done := True\<rparr>)" using 2(1,2) by (simp add: going_def counted_def wired_def Let_def)
            then have "session_inv (advance_phase h (s1\<lparr>ss_logical_done := True\<rparr>))"
              using 2 base1 by (intro done_inv) (simp_all add: sealed_def)
            with True 2(1) show ?thesis by (simp add: s2_def)
          next
            case False
            then have "s2 = s1" by (simp add: s2_def)
            moreover have "phase_settled s1" using 2 False by (simp add: phase_settled_def Let_def)
            ultimately show ?thesis using 2(2) base1 by (simp add: session_inv_def)
          qed
          then show ?thesis by (rule some_inv)
        next
          case 3
          then have "s2 = s1" by (simp add: s2_def tls_mid_iff)
          with 3 show ?thesis by simp
        next
          case 4
          then have "s2 = s1" by (simp add: s2_def)
          with 4 show ?thesis by simp
        qed
        with finish Accept result show ?thesis by simp
      qed
    qed
  qed
qed

section \<open>Every event keeps the invariant\<close>

lemma pacing_inv:
  assumes inv: "session_inv s"
  shows "session_inv (session_pacing_ready h g s)"
proof (cases "ss_pace_pending s \<and> g = ss_generation s \<and> g = ss_pace_generation s \<and> ss_phase s \<noteq> SECURE_TERMINAL")
  case False
  then have "session_pacing_ready h g s = s" by (auto simp: session_pacing_ready_def)
  with inv show ?thesis by simp
next
  case True
  define s1 where "s1 = s\<lparr>ss_pace_pending := False, ss_pace_generation := 0\<rparr>"
  from inv have "tls_mid s"
    by (cases rule: inv_cases) (use True inv in \<open>auto simp: inv_stop_iff going_def wired_def Let_def\<close>)
  then have "tls_mid s1" "\<not> ss_pace_pending s1" by (simp_all add: s1_def tls_mid_iff)
  then have "session_inv (maybe_finish_tls h (start_next_record_now h s1))" by (intro finish_inv [OF start_next_ok])
  moreover have "session_pacing_ready h g s = maybe_finish_tls h (start_next_record_now h s1)"
    using True by (auto simp: session_pacing_ready_def s1_def)
  ultimately show ?thesis by simp
qed

lemma source_fields:
  "sealed (s\<lparr>ss_pace_source := b\<rparr>) = sealed s" "counted (s\<lparr>ss_pace_source := b\<rparr>) = counted s"
  "wired (s\<lparr>ss_pace_source := b\<rparr>) = wired s" "phase_settled (s\<lparr>ss_pace_source := b\<rparr>) = phase_settled s"
  "going (s\<lparr>ss_pace_source := b\<rparr>) = going s"
  by (simp_all add: sealed_def counted_def wired_def phase_settled_def served_def going_def)

lemma dead_source: "dead s \<Longrightarrow> dead (s\<lparr>ss_pace_source := False\<rparr>)"
  by (simp add: dead_def)

lemma timer_inv:
  assumes "session_inv s"
  shows "session_inv (pace_timeout_cb h s)"
proof -
  have "session_inv (s\<lparr>ss_pace_source := False\<rparr>)"
    using assms source_fields dead_source by (simp add: session_inv_def) blast
  then show ?thesis by (simp add: pace_timeout_cb_def pacing_inv)
qed

lemma fail_any_inv: "session_inv s \<Longrightarrow> session_inv (session_fail h e s)"
  by (rule session_fail_inv) (auto simp: session_inv_def going_def)

lemma start_again_inv:
  assumes "session_inv s"
  shows "session_inv (snd (secure_session_start h s))"
proof -
  have "ss_started s" using assms by (simp add: session_inv_def)
  then show ?thesis using assms fail_any_inv [OF assms] by (simp add: secure_session_start_def)
qed

lemma session_step_inv:
  assumes "session_inv s"
  shows "session_inv (snd (session_step h x s))"
proof (cases x)
  case Session_Start
  with assms show ?thesis by (simp add: start_again_inv)
next
  case Session_Handoff
  with assms show ?thesis by (simp add: session_handoff_backend_def)
qed (use assms in \<open>simp_all add: session_out_inv session_a0_inv handle_b0_inv pacing_inv timer_inv fail_any_inv
      secure_session_cancel_def\<close>)

text \<open>A session just created, whose start the backend accepts.\<close>

definition session_started :: "('s, 'u) session_hooks \<Rightarrow> u64 \<Rightarrow> secure_material \<Rightarrow> 'u \<Rightarrow> ('s, 'u) secure_session \<Rightarrow> bool" where
  "session_started h g m u s \<longleftrightarrow> (case secure_session_new h g m tls_audit_zero u of
     Inl e \<Rightarrow> False | Inr s0 \<Rightarrow> secure_session_start h s0 = (Accept, s))"

lemma session_started_inv:
  assumes "session_started h g m u s"
  shows "session_inv s"
proof -
  obtain s0 where new: "secure_session_new h g m tls_audit_zero u = Inr s0" and start: "secure_session_start h s0 = (Accept, s)"
    using assms by (auto simp: session_started_def split: sum.splits)
  obtain t where s0: "s0 = \<lparr>ss_generation = g, ss_phase = SECURE_REENTRY_RECOVERY_A2,
      ss_material = m\<lparr>mt_psk := None\<rparr>, ss_tls = t, ss_audit = secure_audit_zero g,
      ss_error = None, ss_started = False, ss_ack_seen = False, ss_logical_done = False,
      ss_command_submitted = False, ss_out_pending = False, ss_out_kind = OUT_KIND_NONE,
      ss_tls_records = [], ss_tls_record_count = 0, ss_b0_logical = None, ss_b0_offset = 0,
      ss_pace_pending = False, ss_d1_server_flight_seen = False, ss_backend_callback_owned = True,
      ss_pace_source = False, ss_pace_generation = 0, ss_plaintext_callback = False, ss_user = u\<rparr>"
    and t: "tls_server_new (sh_engine h) (mt_psk m) tls_audit_zero = Inr t"
    using new by (auto simp: secure_session_new_def split: if_splits sum.splits)
  have psk: "psk_kept t"
    using t by (auto simp: tls_server_new_def psk_kept_def tls_audit_zero_def split: option.splits if_splits)
  have off: "\<not> tl_handed_off t" using t by (auto simp: tls_server_new_def split: option.splits if_splits)
  define s1 where "s1 = s0\<lparr>ss_started := True\<rparr>"
  obtain p q u' where n: "notify_phase h s1 = s1\<lparr>ss_plaintext_callback := p, ss_backend_callback_owned := q, ss_user := u'\<rparr>"
    by (rule notify_shape)
  define s2 where "s2 = notify_phase h s1"
  have s2: "s2 = s1\<lparr>ss_plaintext_callback := p, ss_backend_callback_owned := q, ss_user := u'\<rparr>" by (simp add: s2_def n)
  have "going s1" "sealed s1" using psk off
    by (simp_all add: s1_def s0 going_def counted_def wired_def sealed_def secure_audit_zero_def typed_before_def)
  then have "going s2" "sealed s2" by (simp_all add: s2)
  then have "fst (try_submit_phase h s2) = Accept \<Longrightarrow> session_inv (snd (try_submit_phase h s2))"
    by (intro try_submit_inv(1)) (simp_all add: s2 s1_def s0)
  moreover have "secure_session_start h s0 = try_submit_phase h s2"
    by (simp add: secure_session_start_def s2_def s1_def s0)
  then have "try_submit_phase h s2 = (Accept, s)" using start by metis
  ultimately show ?thesis by simp
qed

interpretation secure_session: machine_invariant "session_step h" s "\<lambda>x. session_inv s \<longrightarrow> session_inv x"
  for h :: "('s, 'u) session_hooks" and s :: "('s, 'u) secure_session"
proof
  show "session_inv s \<longrightarrow> session_inv s" by (rule impI)
  show "session_inv s \<longrightarrow> session_inv x \<Longrightarrow> session_inv s \<longrightarrow> session_inv (snd (session_step h e x))" for x e
    using session_step_inv by blast
qed

lemma session_run_inv: "session_started h g m u s \<Longrightarrow> session_inv (snd (run_ops (session_step h) xs s))"
  using secure_session.inv_run [where h = h and s = s and xs = xs] session_started_inv [of h g m u s] by simp

text \<open>
  Claim C34. The project secret is handed to TLS at most once, and only after all fourteen commands
  were sent, thirteen of them acknowledged, the eight pinned responses matched, the identity
  among them, and the validator of the sensor equal to the expected one; from then on the
  driver holds no copy of it.
\<close>

theorem secret_only_after_evidence:
  assumes "session_started h g m u s"
  shows "let x = snd (run_ops (session_step h) xs s); t = ss_tls x; a = ss_audit x in
    tl_secret_handoff_count (tl_audit t) \<le> 1 \<and>
    (tl_psk t = None \<longleftrightarrow> tl_secret_handoff_count (tl_audit t) = 1) \<and>
    (tl_psk t = None \<longrightarrow> sa_command_count a = 14 \<and> sa_ack_count a = 13 \<and> sa_typed_response_count a = 8 \<and>
       sa_a8_app12509_pin_match a \<and> sa_e4_contract_result a = E4_CONTRACT_MATCH)"
  using session_run_inv [OF assms, of xs]
  by (auto simp: session_inv_def sealed_def psk_kept_def evidence_def Let_def of_bool_def)

text \<open>
  Claim C35. A started session is never stuck: in every reachable state exactly one of these holds:
  it has failed, with an error; it has stopped with TLS established and nothing left to send;
  a transfer of its own is in flight; the pause between two records runs; or it waits for a
  frame of the sensor, with no record left to send and TLS not established.
\<close>

theorem secure_session_never_stuck:
  assumes "session_started h g m u s"
  shows "let x = snd (run_ops (session_step h) xs s) in
    case ss_phase x of
      SECURE_TERMINAL \<Rightarrow> ss_error x \<noteq> None \<and> ss_tls_records x = [] \<and> ss_b0_logical x = None \<and> \<not> ss_pace_pending x
    | SECURE_STOP \<Rightarrow> tl_state (ss_tls x) = TLS_STATE_ESTABLISHED \<and> \<not> ss_out_pending x \<and> ss_b0_logical x = None \<and>
        ss_tls_records x = [] \<and> \<not> ss_pace_pending x
    | SECURE_TLS \<Rightarrow> \<not> (ss_out_pending x \<and> ss_pace_pending x) \<and>
        (ss_out_pending x \<or> ss_pace_pending x \<or>
         session_needs_receive x \<and> ss_tls_records x = [] \<and> ss_b0_logical x = None \<and>
           tl_state (ss_tls x) \<noteq> TLS_STATE_ESTABLISHED)
    | _ \<Rightarrow> \<not> ss_pace_pending x \<and> ss_command_submitted x \<and>
        (ss_out_pending x \<or> session_needs_receive x \<and> \<not> ss_logical_done x)"
proof -
  define x where "x = snd (run_ops (session_step h) xs s)"
  have inv: "session_inv x" unfolding x_def by (rule session_run_inv [OF assms])
  then have started: "ss_started x" by (simp add: session_inv_def)
  from inv show ?thesis unfolding x_def [symmetric] Let_def
  proof (cases rule: inv_cases)
    case command
    then show "case ss_phase x of
      SECURE_TERMINAL \<Rightarrow> ss_error x \<noteq> None \<and> ss_tls_records x = [] \<and> ss_b0_logical x = None \<and> \<not> ss_pace_pending x
    | SECURE_STOP \<Rightarrow> tl_state (ss_tls x) = TLS_STATE_ESTABLISHED \<and> \<not> ss_out_pending x \<and> ss_b0_logical x = None \<and>
        ss_tls_records x = [] \<and> \<not> ss_pace_pending x
    | SECURE_TLS \<Rightarrow> \<not> (ss_out_pending x \<and> ss_pace_pending x) \<and>
        (ss_out_pending x \<or> ss_pace_pending x \<or>
         session_needs_receive x \<and> ss_tls_records x = [] \<and> ss_b0_logical x = None \<and>
           tl_state (ss_tls x) \<noteq> TLS_STATE_ESTABLISHED)
    | _ \<Rightarrow> \<not> ss_pace_pending x \<and> ss_command_submitted x \<and>
        (ss_out_pending x \<or> session_needs_receive x \<and> \<not> ss_logical_done x)"
      using started by (cases "ss_phase x") (auto simp: going_def wired_def session_needs_receive_def)
  qed (use started inv in \<open>auto simp: dead_def inv_stop_iff tls_mid_iff served_def session_needs_receive_def\<close>)
qed

end
