(* ===== verification/Secure_Progress.thy ===== *)
theory Secure_Progress
  imports Secure_Order
begin

text \<open>
  How far a secure session gets. With a backend that accepts every transfer and a sensor that
  answers as the pins say, it completes the thirteen answered commands and sends D1, whatever
  the order of transport completions; once TLS is established it sends what is left and stops.
\<close>

section \<open>A sensor that answers\<close>

definition backend_accepts :: "('s, 'u) session_hooks \<Rightarrow> bool" where
  "backend_accepts h \<longleftrightarrow> (\<forall>g bs u. fst (sh_submit h g bs u) = Accept)"

text \<open>The answers of a sensor that matches the material, per phase.\<close>

definition sensor_matches :: "(bytes \<Rightarrow> bytes) \<Rightarrow> secure_material \<Rightarrow> (secure_phase \<Rightarrow> bytes) \<Rightarrow> bool" where
  "sensor_matches sha256 m r \<longleftrightarrow>
     list_all (\<lambda>p. length (r p) = 3 \<and> digest_matches sha256 (r p) (mt_a2_response_sha256 m))
       [SECURE_REENTRY_RECOVERY_A2, SECURE_OEM_COLD_START_A2_1, SECURE_OEM_COLD_START_A2_2] \<and>
     mt_expected_identity m = Some (r SECURE_A8) \<and>
     r SECURE_E4 = e4_prefix @ the (mt_e4_validator m) \<and>
     length (r SECURE_CHIP_82) = 4 \<and> digest_matches sha256 (r SECURE_CHIP_82) (mt_chip82_response_sha256 m) \<and>
     length (r SECURE_OTP_A6) = 64 \<and> digest_matches sha256 (r SECURE_OTP_A6) (mt_otp_a6_response_sha256 m) \<and>
     r SECURE_CONFIG_90 = [1, 0]"

definition secure_frame :: "u8 \<Rightarrow> bytes \<Rightarrow> bytes option" where
  "secure_frame c bs = (case a0_build_frame c c bs of Inr f \<Rightarrow> Some f | Inl _ \<Rightarrow> None)"

definition secure_next :: "secure_phase \<Rightarrow> secure_phase" where
  "secure_next p = secure_phases ! (secure_number p + 1)"

definition phase_replies :: "u8 \<Rightarrow> (secure_phase \<Rightarrow> bytes) \<Rightarrow> secure_phase \<Rightarrow> session_event list" where
  "phase_replies status r p = Session_A0 (secure_frame 0xb0 [secure_control p, status]) #
     (if phase_ack_only p then [] else [Session_A0 (secure_frame (secure_control p) (r p))])"

text \<open>The transport reports the request as sent after \<open>k\<close> of the replies, or after all of them.\<close>

definition phase_events :: "u64 \<Rightarrow> u8 \<Rightarrow> (secure_phase \<Rightarrow> bytes) \<Rightarrow> nat \<Rightarrow> secure_phase \<Rightarrow> session_event list" where
  "phase_events g status r k p =
     take k (phase_replies status r p) @ [Session_Out g None] @ drop k (phase_replies status r p)"

primrec secure_exchanges :: "u64 \<Rightarrow> u8 \<Rightarrow> (secure_phase \<Rightarrow> bytes) \<Rightarrow> nat list \<Rightarrow> secure_phase \<Rightarrow> session_event list" where
  "secure_exchanges g status r [] p = []"
| "secure_exchanges g status r (k # ks) p = phase_events g status r k p @ secure_exchanges g status r ks (secure_next p)"

section \<open>One phase\<close>

definition at_fields ::
    "'s tls_server \<Rightarrow> u64 \<Rightarrow> secure_material \<Rightarrow> secure_phase \<Rightarrow> bool \<Rightarrow> bool \<Rightarrow> bool \<Rightarrow> ('s, 'u) secure_session \<Rightarrow> bool" where
  "at_fields t g m p ack logical out s \<longleftrightarrow> ss_phase s = p \<and> ss_ack_seen s = ack \<and> ss_logical_done s = logical \<and>
     ss_out_pending s = out \<and> ss_backend_callback_owned s \<and> ss_generation s = g \<and> ss_material s = m \<and> ss_tls s = t \<and>
     ss_tls_records s = [] \<and> ss_tls_record_count s = 0 \<and> \<not> ss_d1_server_flight_seen s"

definition at_phase ::
    "'s tls_server \<Rightarrow> u64 \<Rightarrow> secure_material \<Rightarrow> secure_phase \<Rightarrow> bool \<Rightarrow> bool \<Rightarrow> bool \<Rightarrow> ('s, 'u) secure_session \<Rightarrow> bool" where
  "at_phase t g m p ack logical out s \<longleftrightarrow> session_inv s \<and> at_fields t g m p ack logical out s"

definition material_sized :: "secure_material \<Rightarrow> bool" where
  "material_sized m \<longleftrightarrow> length (the (mt_config90 m)) = 224"

lemma notify_callback_owned:
  assumes "ss_phase s \<noteq> SECURE_STOP"
  shows "ss_backend_callback_owned (notify_phase h s) = ss_backend_callback_owned s"
proof -
  have "ss_backend_callback_owned (foldl (phase_action_run h) s xs) = ss_backend_callback_owned s \<and>
      ss_phase (foldl (phase_action_run h) s xs) = ss_phase s" if "ss_phase s \<noteq> SECURE_STOP" for xs
    using that
  proof (induction xs arbitrary: s)
    case (Cons x xs)
    have "ss_backend_callback_owned (phase_action_run h s x) = ss_backend_callback_owned s \<and>
        ss_phase (phase_action_run h s x) = ss_phase s"
      using Cons.prems by (cases x) (simp_all add: session_handoff_backend_def)
    with Cons show ?case by simp
  qed simp
  with assms show ?thesis by (simp add: notify_phase_def)
qed

lemma phase_frame_built:
  assumes "material_sized m" "secure_number p \<le> 13"
  shows "\<exists>f. build_phase_frame m p = Inr f"
proof -
  obtain bs c where "phase_request m p = Some (bs, c)" "length bs \<le> 65531"
    using assms by (cases p) (auto simp: phase_request_def dac_body_def material_sized_def)
  then show ?thesis using a0_build_Inr [of bs "secure_control p" c] by (auto simp: build_phase_frame_def)
qed

lemma try_submit_fields:
  assumes "backend_accepts h" "material_sized (ss_material s)" "secure_number (ss_phase s) \<le> 13" "\<not> ss_command_submitted s" "\<not> ss_out_pending s"
  obtains u where "try_submit_phase h s = (Accept, s\<lparr>ss_out_pending := True, ss_out_kind := OUT_KIND_A0,
      ss_command_submitted := True, ss_audit := audit_submitted (ss_phase s) (ss_audit s), ss_user := u\<rparr>)"
proof -
  obtain f where "build_phase_frame (ss_material s) (ss_phase s) = Inr f" using phase_frame_built [OF assms(2,3)] by blast
  moreover obtain u where "sh_submit h (ss_generation s) f (ss_user s) = (Accept, u)"
    using assms(1) unfolding backend_accepts_def by (metis prod.collapse)
  ultimately show thesis using assms(3-5) by (intro that [of u]) (simp add: try_submit_phase_def Let_def)
qed

lemma advance_at:
  assumes h: "backend_accepts h" and m: "material_sized m" and p: "secure_number p \<le> 12"
    and s: "ss_phase s = p" "ss_logical_done s" "\<not> ss_out_pending s" "ss_backend_callback_owned s" "ss_generation s = g"
      "ss_material s = m" "ss_tls s = t" "ss_tls_records s = []" "ss_tls_record_count s = 0" "\<not> ss_d1_server_flight_seen s"
  shows "at_fields t g m (secure_next p) False False True (advance_phase h s)"
proof -
  define n where "n = notify_phase h (s\<lparr>ss_phase := secure_next p\<rparr>)"
  have num: "secure_number (secure_next p) = Suc (secure_number p)" using secure_number_next [of p] p by (simp add: secure_next_def)
  have not_stop: "secure_next p \<noteq> SECURE_STOP" using num p by auto
  obtain a b u where shape: "n = s\<lparr>ss_phase := secure_next p, ss_plaintext_callback := a, ss_backend_callback_owned := b, ss_user := u\<rparr>"
    unfolding n_def by (rule notify_shape)
  have "ss_backend_callback_owned n" using notify_callback_owned [of "s\<lparr>ss_phase := secure_next p\<rparr>" h] not_stop s by (simp add: n_def)
  then have b by (simp add: shape)
  define s1 where "s1 = n\<lparr>ss_ack_seen := False, ss_logical_done := False, ss_command_submitted := False\<rparr>"
  have s1: "ss_phase s1 = secure_next p" "ss_material s1 = m" "\<not> ss_command_submitted s1" "\<not> ss_out_pending s1"
    "ss_backend_callback_owned s1" "ss_generation s1 = g" "\<not> ss_ack_seen s1" "\<not> ss_logical_done s1"
    "ss_tls s1 = t" "ss_tls_records s1 = []" "ss_tls_record_count s1 = 0" "\<not> ss_d1_server_flight_seen s1"
    using s \<open>b\<close> by (simp_all add: s1_def shape)
  have pre: "material_sized (ss_material s1)" "secure_number (ss_phase s1) \<le> 13" "\<not> ss_command_submitted s1" "\<not> ss_out_pending s1"
    using m p num s1 by simp_all
  obtain u' where sub: "try_submit_phase h s1 = (Accept, s1\<lparr>ss_out_pending := True, ss_out_kind := OUT_KIND_A0,
      ss_command_submitted := True, ss_audit := audit_submitted (ss_phase s1) (ss_audit s1), ss_user := u'\<rparr>)"
    by (rule try_submit_fields [OF h pre])
  have "p \<noteq> SECURE_D1" using p by auto
  then have "advance_phase h s = or_fail h (try_submit_phase h s1)"
    using s(1-3) p num s1(1) unfolding advance_phase_def Let_def
    by (simp add: secure_next_def [symmetric, simplified] n_def [symmetric] s1_def [symmetric])
  with sub s1 show ?thesis by (simp add: at_fields_def or_fail_def)
qed

lemma secure_frame_parsed:
  assumes "length bs \<le> 65531"
  obtains f where "secure_frame c bs = Some f" "5 \<le> length f" "f ! 4 = c"
    "a0_parse_frame (Some f) c = Inr \<lparr>control = c, body = bs\<rparr>"
proof -
  obtain f where "a0_build_frame c c bs = Inr f" using a0_build_Inr [OF assms] by blast
  then show thesis
    using that a0_parse_build a0_build_length a0_build_nth_4 by (simp add: secure_frame_def)
qed

lemma ack_allowed: "secure_number p \<le> 12 \<Longrightarrow> status = 1 \<or> status = 7 \<Longrightarrow> phase_ack_status_allowed p status"
  by (cases p) (simp_all add: phase_ack_status_allowed_def phase_ack_policies_def)

lemma ack_step:
  assumes at: "at_phase t g m p False False out s" and p: "secure_number p \<le> 12" and st: "status = 1 \<or> status = 7"
    and h: "backend_accepts h" "material_sized m"
  defines "s' \<equiv> snd (session_step h (Session_A0 (secure_frame 0xb0 [secure_control p, status])) s)"
  shows "if phase_ack_only p then if out then at_phase t g m p True True True s' else at_phase t g m (secure_next p) False False True s'
    else at_phase t g m p True False out s'"
proof -
  obtain f where f: "secure_frame 0xb0 [secure_control p, status] = Some f" "5 \<le> length f" "f ! 4 = 0xb0"
    "a0_parse_frame (Some f) 0xb0 = Inr \<lparr>control = 0xb0, body = [secure_control p, status]\<rparr>"
    by (rule secure_frame_parsed [of "[secure_control p, status]" "0xb0"]) simp_all
  have s: "session_inv s" "ss_phase s = p" "\<not> ss_ack_seen s" "\<not> ss_logical_done s" "ss_out_pending s = out"
    "ss_backend_callback_owned s" "ss_generation s = g" "ss_material s = m" "ss_tls s = t" "ss_tls_records s = []"
    "ss_tls_record_count s = 0" "\<not> ss_d1_server_flight_seen s" using at by (simp_all add: at_phase_def at_fields_def)
  have live: "p \<noteq> SECURE_TERMINAL" using p by auto
  have "s' = session_ack h [secure_control p, status] s"
    using f s live p by (simp add: s'_def session_handle_a0_def)
  moreover obtain a where "session_ack h [secure_control p, status] s =
      (let s1 = s\<lparr>ss_ack_seen := True, ss_audit := a\<rparr> in
       if phase_ack_only p then advance_phase h (s1\<lparr>ss_logical_done := True\<rparr>) else s1)"
    using s ack_allowed [OF p st] by (simp add: session_ack_def Let_def)
  ultimately obtain a where s': "s' = (let s1 = s\<lparr>ss_ack_seen := True, ss_audit := a\<rparr> in
       if phase_ack_only p then advance_phase h (s1\<lparr>ss_logical_done := True\<rparr>) else s1)" by blast
  have inv: "session_inv s'" unfolding s'_def by (rule session_step_inv [OF s(1)])
  show ?thesis
  proof (cases "phase_ack_only p")
    case False
    with s' s inv show ?thesis by (simp add: at_phase_def at_fields_def)
  next
    case True
    define s2 where "s2 = s\<lparr>ss_ack_seen := True, ss_audit := a, ss_logical_done := True\<rparr>"
    have adv: "s' = advance_phase h s2" using True s' by (simp add: s2_def)
    show ?thesis
    proof (cases out)
      case True
      then have "s' = s2" using adv s by (simp add: advance_phase_def s2_def)
      with True \<open>phase_ack_only p\<close> s inv show ?thesis by (simp add: at_phase_def at_fields_def s2_def)
    next
      case False
      have "at_fields t g m (secure_next p) False False True (advance_phase h s2)"
        by (rule advance_at [OF h p]) (use s False in \<open>simp_all add: s2_def\<close>)
      with adv inv False \<open>phase_ack_only p\<close> show ?thesis by (simp add: at_phase_def)
    qed
  qed
qed

lemma typed_step:
  assumes at: "at_phase t g m p True False out s" and p: "secure_number p \<le> 12" "\<not> phase_ack_only p"
    and h: "backend_accepts h" "material_sized m" and r: "sensor_matches (sh_sha256 h) m r"
      "length (the (mt_e4_validator m)) = 32" "digest_matches (sh_sha256 h) (the (mt_e4_validator m)) (mt_e4_validator_sha256 m)"
      "is_supported_identity (the (mt_expected_identity m))"
  defines "s' \<equiv> snd (session_step h (Session_A0 (secure_frame (secure_control p) (r p))) s)"
  shows "if out then at_phase t g m p True True True s' else at_phase t g m (secure_next p) False False True s'"
proof -
  have "length (r SECURE_A8) = 22"
    using r(1,4) by (auto simp: sensor_matches_def is_supported_identity_def secure_identity12509_def secure_identity12508_def)
  then have "length (r p) \<le> 65531"
    using p r by (cases p) (simp_all add: sensor_matches_def e4_prefix_def phase_ack_only_def)
  then obtain f where f: "secure_frame (secure_control p) (r p) = Some f" "5 \<le> length f" "f ! 4 = secure_control p"
    "a0_parse_frame (Some f) (secure_control p) = Inr \<lparr>control = secure_control p, body = r p\<rparr>"
    by (rule secure_frame_parsed [of "r p" "secure_control p"])
  have s: "session_inv s" "ss_phase s = p" "ss_ack_seen s" "\<not> ss_logical_done s" "ss_out_pending s = out"
    "ss_backend_callback_owned s" "ss_generation s = g" "ss_material s = m" "ss_tls s = t" "ss_tls_records s = []"
    "ss_tls_record_count s = 0" "\<not> ss_d1_server_flight_seen s" using at by (simp_all add: at_phase_def at_fields_def)
  have live: "p \<noteq> SECURE_TERMINAL" "secure_control p \<noteq> 0xb0" using p by (cases p; simp add: secure_control_def)+
  have s'_typed: "s' = session_typed h (secure_control p) (r p) s"
    using f s live p by (simp add: s'_def session_handle_a0_def)
  obtain ok e4 s1 where typed: "validate_typed (sh_sha256 h) (secure_control p) (r p) s = (ok, e4, s1)" by (metis surj_pair)
  have ok
    using typed r p s(2,8)
    by (cases p) (auto simp: validate_typed_def sensor_matches_def check_e4_contract_def e4_prefix_def phase_ack_only_def Let_def)
  obtain e where s1: "s1 = s\<lparr>ss_audit := (ss_audit s)\<lparr>sa_e4_contract_result := e\<rparr>\<rparr>"
    using validate_typed_shape(1) [OF typed] by blast
  obtain a where s': "s' = advance_phase h (s\<lparr>ss_audit := a, ss_logical_done := True\<rparr>)"
    unfolding s'_typed session_typed_def Let_def using s p typed \<open>ok\<close> by (simp add: s1)
  define s2 where "s2 = s\<lparr>ss_audit := a, ss_logical_done := True\<rparr>"
  have inv: "session_inv s'" unfolding s'_def by (rule session_step_inv [OF s(1)])
  show ?thesis
  proof (cases out)
    case True
    then have "s' = s2" using s' s by (simp add: advance_phase_def s2_def)
    with True s inv show ?thesis by (simp add: at_phase_def at_fields_def s2_def)
  next
    case False
    have "at_fields t g m (secure_next p) False False True (advance_phase h s2)"
      by (rule advance_at [OF h p(1)]) (use s False in \<open>simp_all add: s2_def\<close>)
    with s' inv False show ?thesis by (simp add: s2_def at_phase_def)
  qed
qed

lemma out_step:
  assumes at: "at_phase t g m p ack logical True s" and p: "secure_number p \<le> 12" and h: "backend_accepts h" "material_sized m"
  defines "s' \<equiv> snd (session_step h (Session_Out g None) s)"
  shows "if logical then at_phase t g m (secure_next p) False False True s' else at_phase t g m p ack False False s'"
proof -
  have s: "session_inv s" "ss_phase s = p" "ss_ack_seen s = ack" "ss_logical_done s = logical" "ss_out_pending s"
    "ss_backend_callback_owned s" "ss_generation s = g" "ss_material s = m" "ss_tls s = t" "ss_tls_records s = []"
    "ss_tls_record_count s = 0" "\<not> ss_d1_server_flight_seen s" using at by (simp_all add: at_phase_def at_fields_def)
  have live: "p \<noteq> SECURE_TERMINAL" "p \<noteq> SECURE_TLS" using p by auto
  have "wired s" using s(1,2) live by (auto simp: session_inv_def dead_def going_def)
  then have kind: "ss_out_kind s = OUT_KIND_A0" using s p by (simp add: wired_def Let_def)
  define s1 where "s1 = s\<lparr>ss_out_pending := False, ss_out_kind := OUT_KIND_NONE\<rparr>"
  define s2 where "s2 = advance_phase h s1"
  have s': "s' = (if ss_phase s2 = SECURE_TLS then maybe_start_b0 h s2 else s2)"
    using s kind live unfolding s'_def session_step.simps session_out_complete_def Let_def s1_def [symmetric]
    by (simp add: s2_def)
  have inv: "session_inv s'" unfolding s'_def by (rule session_step_inv [OF s(1)])
  show ?thesis
  proof (cases logical)
    case True
    have num: "secure_number (secure_next p) = Suc (secure_number p)" using secure_number_next [of p] p by (simp add: secure_next_def)
    have "at_fields t g m (secure_next p) False False True s2"
      unfolding s2_def by (rule advance_at [OF h p]) (use s True in \<open>simp_all add: s1_def\<close>)
    moreover have "secure_next p \<noteq> SECURE_TLS" using num p by auto
    ultimately show ?thesis using s' inv True by (simp add: at_phase_def at_fields_def)
  next
    case False
    then have "s2 = s1" using s by (simp add: s2_def s1_def advance_phase_def)
    with False s inv s' live show ?thesis by (simp add: at_phase_def at_fields_def s1_def)
  qed
qed

section \<open>All thirteen\<close>

declare session_step.simps [simp del]

lemma phase_done:
  assumes at: "at_phase t g m p False False True s" and p: "secure_number p \<le> 12" and st: "status = 1 \<or> status = 7"
    and h: "backend_accepts h" "material_sized m" and r: "sensor_matches (sh_sha256 h) m r"
      "length (the (mt_e4_validator m)) = 32" "digest_matches (sh_sha256 h) (the (mt_e4_validator m)) (mt_e4_validator_sha256 m)"
      "is_supported_identity (the (mt_expected_identity m))"
  shows "at_phase t g m (secure_next p) False False True (snd (run_ops (session_step h) (phase_events g status r k p) s))"
proof -
  note ack = ack_step [OF _ p st h] and typed = typed_step [OF _ p _ h r] and out = out_step [where g = g, OF _ p h]
  define ack_ev where "ack_ev = Session_A0 (secure_frame 0xb0 [secure_control p, status])"
  define typed_ev where "typed_ev = Session_A0 (secure_frame (secure_control p) (r p))"
  define sent_ev where "sent_ev = Session_Out g None"
  let ?f = "\<lambda>x s. snd (session_step h x s)"
  note ack = ack [folded ack_ev_def] and typed = typed [folded typed_ev_def] and out = out [folded sent_ev_def]
  show ?thesis
  proof (cases "phase_ack_only p")
    case True
    have events: "phase_events g status r k p = (if k = 0 then [sent_ev, ack_ev] else [ack_ev, sent_ev])"
      using True by (cases k) (simp_all add: phase_events_def phase_replies_def ack_ev_def sent_ev_def)
    have "at_phase t g m p False False False (?f sent_ev s)" using out [OF at] by simp
    from ack [OF this] have "at_phase t g m (secure_next p) False False True (?f ack_ev (?f sent_ev s))" using True by simp
    moreover have "at_phase t g m p True True True (?f ack_ev s)" using ack [OF at] True by simp
    from out [OF this] have "at_phase t g m (secure_next p) False False True (?f sent_ev (?f ack_ev s))" by simp
    ultimately show ?thesis by (simp add: events)
  next
    case False
    have events: "phase_events g status r k p = (if k = 0 then [sent_ev, ack_ev, typed_ev] else if k = 1 then [ack_ev, sent_ev, typed_ev] else [ack_ev, typed_ev, sent_ev])"
    proof (cases k)
      case (Suc j)
      with False show ?thesis by (cases j) (simp_all add: phase_events_def phase_replies_def ack_ev_def typed_ev_def sent_ev_def)
    qed (simp add: False phase_events_def phase_replies_def ack_ev_def typed_ev_def sent_ev_def)
    have "at_phase t g m p False False False (?f sent_ev s)" using out [OF at] by simp
    from ack [OF this] have "at_phase t g m p True False False (?f ack_ev (?f sent_ev s))" using False by simp
    from typed [OF this False] have "at_phase t g m (secure_next p) False False True (?f typed_ev (?f ack_ev (?f sent_ev s)))" by simp
    moreover have a: "at_phase t g m p True False True (?f ack_ev s)" using ack [OF at] False by simp
    from out [OF a] have "at_phase t g m p True False False (?f sent_ev (?f ack_ev s))" by simp
    from typed [OF this False] have "at_phase t g m (secure_next p) False False True (?f typed_ev (?f sent_ev (?f ack_ev s)))" by simp
    moreover from typed [OF a False] have "at_phase t g m p True True True (?f typed_ev (?f ack_ev s))" by simp
    from out [OF this] have "at_phase t g m (secure_next p) False False True (?f sent_ev (?f typed_ev (?f ack_ev s)))" by simp
    ultimately show ?thesis by (simp add: events)
  qed
qed

lemma exchanges_done:
  assumes "at_phase t g m p False False True s" "secure_number p + length ks = 13" "status = 1 \<or> status = 7"
    and h: "backend_accepts h" "material_sized m" and r: "sensor_matches (sh_sha256 h) m r"
      "length (the (mt_e4_validator m)) = 32" "digest_matches (sh_sha256 h) (the (mt_e4_validator m)) (mt_e4_validator_sha256 m)"
      "is_supported_identity (the (mt_expected_identity m))"
  shows "at_phase t g m SECURE_D1 False False True (snd (run_ops (session_step h) (secure_exchanges g status r ks p) s))"
  using assms(1,2)
proof (induction ks arbitrary: p s)
  case Nil
  then have "p = SECURE_D1" by (simp add: secure_number_iff)
  with Nil show ?case by simp
next
  case (Cons k ks)
  then have p: "secure_number p \<le> 12" by simp
  then have "secure_number (secure_next p) + length ks = 13"
    using Cons.prems(2) secure_number_next [of p] by (simp add: secure_next_def)
  from Cons.IH [OF phase_done [OF Cons.prems(1) p assms(3) h r] this] show ?case by simp
qed

lemma started_at:
  assumes "session_started h g m u s"
  shows "at_phase (ss_tls s) g (m\<lparr>mt_psk := None\<rparr>) SECURE_REENTRY_RECOVERY_A2 False False True s"
proof -
  obtain s0 where new: "secure_session_new h g m tls_audit_zero u = Inr s0" and start: "secure_session_start h s0 = (Accept, s)"
    using assms by (auto simp: session_started_def split: sum.splits)
  define m0 where "m0 = m\<lparr>mt_psk := None\<rparr>"
  have s0: "ss_phase s0 = SECURE_REENTRY_RECOVERY_A2" "ss_material s0 = m0" "ss_generation s0 = g" "\<not> ss_started s0"
    "\<not> ss_ack_seen s0" "\<not> ss_logical_done s0" "\<not> ss_command_submitted s0" "\<not> ss_out_pending s0" "ss_backend_callback_owned s0"
    "ss_tls_records s0 = []" "ss_tls_record_count s0 = 0" "\<not> ss_d1_server_flight_seen s0"
    using new by (auto simp: secure_session_new_def m0_def split: if_splits sum.splits)
  define s1 where "s1 = notify_phase h (s0\<lparr>ss_started := True\<rparr>)"
  obtain a b u' where shape: "s1 = s0\<lparr>ss_started := True, ss_plaintext_callback := a, ss_backend_callback_owned := b, ss_user := u'\<rparr>"
    unfolding s1_def by (rule notify_shape)
  have "ss_backend_callback_owned s1" using notify_callback_owned [of "s0\<lparr>ss_started := True\<rparr>" h] s0 by (simp add: s1_def)
  then have b by (simp add: shape)
  have submit: "try_submit_phase h s1 = (Accept, s)"
    using start s0 unfolding secure_session_start_def s1_def by simp
  have "at_fields (ss_tls s) g m0 SECURE_REENTRY_RECOVERY_A2 False False True s"
    using submit s0 \<open>b\<close>
    by (auto simp: try_submit_phase_def at_fields_def shape Let_def split: sum.splits prod.splits reply.splits)
  then show ?thesis using session_started_inv [OF assms] by (simp add: at_phase_def m0_def)
qed

text \<open>What a started session's material satisfies.\<close>

lemma started_material:
  assumes "session_started h g m u s"
  shows "material_sized m" "length (the (mt_e4_validator m)) = 32"
    "digest_matches (sh_sha256 h) (the (mt_e4_validator m)) (mt_e4_validator_sha256 m)"
    "is_supported_identity (the (mt_expected_identity m))"
proof -
  have "validate_material (sh_sha256 h) m"
    using assms by (auto simp: session_started_def secure_session_new_def split: if_splits sum.splits)
  then show "material_sized m" "length (the (mt_e4_validator m)) = 32"
    "digest_matches (sh_sha256 h) (the (mt_e4_validator m)) (mt_e4_validator_sha256 m)"
    "is_supported_identity (the (mt_expected_identity m))"
    by (auto simp: validate_material_def material_sized_def split: option.splits)
qed

text \<open>
  Claim C36. A sensor whose answers match the pinned material brings a started session to D1 whatever
  the order in which the transport reports its transfers: all commands are sent and counted,
  thirteen acknowledged, the eight responses accepted, and no failure is recorded.
\<close>

theorem secure_prefix_completes:
  assumes "session_started h g m u s" "backend_accepts h" "sensor_matches (sh_sha256 h) m r"
    and "status = 1 \<or> status = 7" "length ks = 13"
  shows "let x = snd (run_ops (session_step h) (secure_exchanges g status r ks SECURE_REENTRY_RECOVERY_A2) s); a = ss_audit x in
    ss_phase x = SECURE_D1 \<and> ss_error x = None \<and> ss_out_pending x \<and> session_needs_receive x \<and>
    sa_command_count a = 14 \<and> sa_ack_count a = 13 \<and> sa_typed_response_count a = 8 \<and>
    sa_a8_app12509_pin_match a \<and> sa_e4_contract_result a = E4_CONTRACT_MATCH"
proof -
  let ?m = "m\<lparr>mt_psk := None\<rparr>"
  define x where "x = snd (run_ops (session_step h) (secure_exchanges g status r ks SECURE_REENTRY_RECOVERY_A2) s)"
  note mat = started_material [OF assms(1)]
  have "at_phase (ss_tls s) g ?m SECURE_D1 False False True x"
    unfolding x_def
    by (rule exchanges_done [OF started_at [OF assms(1)] _ assms(4,2)])
      (use mat assms(3,5) in \<open>simp_all add: material_sized_def sensor_matches_def\<close>)
  then have inv: "session_inv x" and d1: "ss_phase x = SECURE_D1" "ss_out_pending x" by (simp_all add: at_phase_def at_fields_def)
  from inv d1 have g: "going x" "ss_command_submitted x" "ss_started x"
    by (auto simp: session_inv_def dead_def phase_settled_def Let_def)
  then have "evidence (ss_audit x)" using d1 by (intro counted_evidence) (simp_all add: going_def)
  with d1 g show ?thesis by (simp add: x_def [symmetric] evidence_def going_def session_needs_receive_def)
qed

section \<open>From an established TLS session to the end\<close>

definition transfers_left :: "nat \<Rightarrow> nat" where
  "transfers_left n = (n + 63) div 64"

definition wire_work :: "('s, 'u) secure_session \<Rightarrow> nat" where
  "wire_work s = (case ss_b0_logical s of None \<Rightarrow> 0 | Some l \<Rightarrow> 1 + transfers_left (length l - ss_b0_offset s)) +
     sum_list (map (\<lambda>r. 1 + transfers_left (length r + 4)) (ss_tls_records s))"

text \<open>The event loop: the transfer in flight completes, else the pause ends.\<close>

definition drive_step :: "('s, 'u) session_hooks \<Rightarrow> ('s, 'u) secure_session \<Rightarrow> ('s, 'u) secure_session" where
  "drive_step h s = snd (session_step h
     (if ss_out_pending s then Session_Out (ss_generation s) None else Session_Pacing (ss_generation s)) s)"

definition records_sized :: "('s, 'u) secure_session \<Rightarrow> bool" where
  "records_sized s \<longleftrightarrow> list_all (\<lambda>r. r \<noteq> [] \<and> length r \<le> 65535) (ss_tls_records s)"

definition draining :: "('s, 'u) secure_session \<Rightarrow> bool" where
  "draining s \<longleftrightarrow> session_inv s \<and> ss_phase s = SECURE_TLS \<and> tl_state (ss_tls s) = TLS_STATE_ESTABLISHED \<and>
     ss_backend_callback_owned s \<and> records_sized s"

lemma transfers_left_step: "0 < n \<Longrightarrow> transfers_left n = Suc (transfers_left (n - min n 64))"
proof (cases "n \<le> 64")
  case False
  then show ?thesis using le_div_geq [of 64 "n + 63"] by (simp add: transfers_left_def min_def)
qed (auto simp: transfers_left_def min_def le_div_geq)

lemma length_b0_record_message [simp]: "length (b0_record_message r) = length r + 4"
  by (simp add: b0_record_message_def Let_def)

lemma chunk_accepted:
  assumes "backend_accepts h" "ss_b0_logical s = Some l" "\<not> ss_out_pending s"
  obtains u a where "or_fail h (submit_b0_chunk h s) = s\<lparr>ss_b0_offset := ss_b0_offset s + min (length l - ss_b0_offset s) 64,
    ss_out_pending := True, ss_out_kind := OUT_KIND_B0, ss_audit := a, ss_user := u\<rparr>"
proof -
  obtain u where "sh_submit h (ss_generation s) (b0_chunk l (ss_b0_offset s)) (ss_user s) = (Accept, u)"
    using assms(1) unfolding backend_accepts_def by (metis prod.collapse)
  with assms(2,3) show thesis
    by (intro that [where u = u and a = "(ss_audit s)\<lparr>sa_b0_physical_submit_count := sa_b0_physical_submit_count (ss_audit s) + 1\<rparr>"])
      (simp add: or_fail_def submit_b0_chunk_def Let_def)
qed

lemma finish_busy:
  assumes "ss_out_pending s \<or> ss_pace_pending s"
  shows "\<exists>a. maybe_finish_tls h s = s\<lparr>ss_audit := a\<rparr>"
proof (cases "ss_phase s \<noteq> SECURE_TLS \<or> tl_state (ss_tls s) \<noteq> TLS_STATE_ESTABLISHED")
  case True
  then show ?thesis by (intro exI [of _ "ss_audit s"]) (auto simp: maybe_finish_tls_def)
next
  case False
  with assms show ?thesis
    by (intro exI [of _ "(ss_audit s)\<lparr>sa_tls_established := True\<rparr>"]) (auto simp: maybe_finish_tls_def Let_def)
qed

lemma finish_stops:
  assumes "ss_phase s = SECURE_TLS" "tl_state (ss_tls s) = TLS_STATE_ESTABLISHED" "\<not> ss_out_pending s" "ss_b0_logical s = None"
    "ss_tls_records s = []" "\<not> ss_pace_pending s"
  shows "ss_phase (maybe_finish_tls h s) = SECURE_STOP"
proof -
  define s1 where "s1 = s\<lparr>ss_audit := (ss_audit s)\<lparr>sa_tls_established := True\<rparr>\<rparr>"
  obtain p q u where n: "notify_phase h (s1\<lparr>ss_phase := SECURE_STOP\<rparr>) =
      s1\<lparr>ss_phase := SECURE_STOP, ss_plaintext_callback := p, ss_backend_callback_owned := q, ss_user := u\<rparr>"
    by (rule notify_shape)
  have "maybe_finish_tls h s = notify_phase h (s1\<lparr>ss_phase := SECURE_STOP\<rparr>)"
    using assms by (simp add: maybe_finish_tls_def Let_def s1_def)
  then show ?thesis by (simp add: n)
qed

lemma schedule_fields:
  assumes "\<not> ss_pace_pending s" "ss_phase s = SECURE_TLS"
  shows "\<exists>a b u. schedule_next_record h s = s\<lparr>ss_pace_pending := True, ss_pace_generation := ss_generation s, ss_audit := a,
    ss_pace_source := b, ss_user := u\<rparr>"
proof (cases "sh_schedule h")
  case None
  with assms show ?thesis
    by (intro exI [of _ "(ss_audit s)\<lparr>sa_pacing_schedule_count := sa_pacing_schedule_count (ss_audit s) + 1\<rparr>"]
        exI [of _ True] exI [of _ "ss_user s"]) (simp add: schedule_next_record_def Let_def)
next
  case (Some f)
  with assms show ?thesis
    by (intro exI [of _ "(ss_audit s)\<lparr>sa_pacing_schedule_count := sa_pacing_schedule_count (ss_audit s) + 1\<rparr>"]
        exI [of _ "ss_pace_source s"] exI [of _ "f (ss_generation s) (ss_user s)"]) (simp add: schedule_next_record_def Let_def)
qed

lemma drain_out:
  assumes d: "draining s" and h: "backend_accepts h" and out: "ss_out_pending s"
  shows "ss_phase (drive_step h s) = SECURE_STOP \<or> draining (drive_step h s) \<and> wire_work (drive_step h s) < wire_work s"
proof -
  have s: "session_inv s" "ss_phase s = SECURE_TLS" "tl_state (ss_tls s) = TLS_STATE_ESTABLISHED" "ss_backend_callback_owned s"
    "records_sized s" using d by (simp_all add: draining_def)
  then have mid: "tls_mid s" by (simp add: inv_tls_iff)
  then obtain l where l: "ss_b0_logical s = Some l" "ss_out_kind s = OUT_KIND_B0" "\<not> ss_pace_pending s" "ss_b0_offset s \<le> length l"
    using out by (auto simp: tls_mid_iff)
  define s1 where "s1 = s\<lparr>ss_out_pending := False, ss_out_kind := OUT_KIND_NONE\<rparr>"
  define c where "c = ss_tls_record_count s1 + 1"
  define s2 where "s2 = s1\<lparr>ss_b0_logical := None, ss_b0_offset := 0, ss_tls_record_count := c,
      ss_audit := (ss_audit s1)\<lparr>sa_tls_record_count := c\<rparr>\<rparr>"
  have step: "drive_step h s = (if ss_b0_offset s < length l then or_fail h (submit_b0_chunk h s1)
      else maybe_finish_tls h (if ss_tls_records s2 \<noteq> [] then schedule_next_record h s2 else s2))"
    using out s l unfolding drive_step_def session_step.simps session_out_complete_def Let_def s1_def [symmetric]
    by (simp add: session_step.simps s2_def c_def session_out_complete_def Let_def s1_def [symmetric]) (simp add: s1_def)
  have inv: "session_inv (drive_step h s)" unfolding drive_step_def by (rule session_step_inv [OF s(1)])
  show ?thesis
  proof (cases "ss_b0_offset s < length l")
    case True
    obtain u a where "or_fail h (submit_b0_chunk h s1) = s1\<lparr>ss_b0_offset := ss_b0_offset s1 + min (length l - ss_b0_offset s1) 64,
        ss_out_pending := True, ss_out_kind := OUT_KIND_B0, ss_audit := a, ss_user := u\<rparr>"
      by (rule chunk_accepted [OF h, of s1 l]) (use l in \<open>simp_all add: s1_def\<close>)
    then have eq: "drive_step h s = s1\<lparr>ss_b0_offset := ss_b0_offset s + min (length l - ss_b0_offset s) 64,
        ss_out_pending := True, ss_out_kind := OUT_KIND_B0, ss_audit := a, ss_user := u\<rparr>"
      using True step by (simp add: s1_def)
    have "wire_work (drive_step h s) < wire_work s"
      using l True transfers_left_step [of "length l - ss_b0_offset s"] by (simp add: wire_work_def eq s1_def)
    moreover have "draining (drive_step h s)"
      using inv s by (simp add: draining_def records_sized_def) (simp add: eq s1_def)
    ultimately show ?thesis by blast
  next
    case False
    have s2: "ss_phase s2 = SECURE_TLS" "tl_state (ss_tls s2) = TLS_STATE_ESTABLISHED" "\<not> ss_out_pending s2" "ss_b0_logical s2 = None"
      "\<not> ss_pace_pending s2" "ss_tls_records s2 = ss_tls_records s" "ss_backend_callback_owned s2"
      using s l by (simp_all add: s2_def s1_def)
    show ?thesis
    proof (cases "ss_tls_records s = []")
      case True
      then have "drive_step h s = maybe_finish_tls h s2" using step False s2 by simp
      then show ?thesis using finish_stops [of s2 h] s2 True by simp
    next
      case more: False
      obtain a b u where sch: "schedule_next_record h s2 = s2\<lparr>ss_pace_pending := True, ss_pace_generation := ss_generation s2, ss_audit := a,
          ss_pace_source := b, ss_user := u\<rparr>" using schedule_fields s2 by blast
      obtain a' where "maybe_finish_tls h (schedule_next_record h s2) = (schedule_next_record h s2)\<lparr>ss_audit := a'\<rparr>"
        using finish_busy [of "schedule_next_record h s2" h] by (auto simp: sch)
      then have eq: "drive_step h s = s2\<lparr>ss_pace_pending := True, ss_pace_generation := ss_generation s2, ss_audit := a',
          ss_pace_source := b, ss_user := u\<rparr>" using step False more s2 by (simp add: sch)
      have "wire_work (drive_step h s) < wire_work s" using l s2 by (simp add: wire_work_def eq)
      moreover have "draining (drive_step h s)"
        using inv s s2 by (simp add: draining_def records_sized_def) (simp add: eq)
      ultimately show ?thesis by blast
    qed
  qed
qed

lemma drain_pace:
  assumes d: "draining s" and h: "backend_accepts h" and out: "\<not> ss_out_pending s"
  shows "ss_phase (drive_step h s) = SECURE_STOP \<or> draining (drive_step h s) \<and> wire_work (drive_step h s) < wire_work s"
proof -
  have s: "session_inv s" "ss_phase s = SECURE_TLS" "tl_state (ss_tls s) = TLS_STATE_ESTABLISHED" "ss_backend_callback_owned s"
    "records_sized s" using d by (simp_all add: draining_def)
  then have mid: "tls_mid s" "ss_pace_pending s" using out by (simp_all add: inv_tls_iff)
  then have l: "ss_b0_logical s = None" "ss_pace_generation s = ss_generation s" using out by (simp_all add: tls_mid_iff)
  define s1 where "s1 = s\<lparr>ss_pace_pending := False, ss_pace_generation := 0\<rparr>"
  have step: "drive_step h s = maybe_finish_tls h (start_next_record_now h s1)"
    using out s(2) mid l by (simp add: drive_step_def session_step.simps session_pacing_ready_def s1_def)
  have inv: "session_inv (drive_step h s)" unfolding drive_step_def by (rule session_step_inv [OF s(1)])
  show ?thesis
  proof (cases "ss_tls_records s")
    case Nil
    then have "start_next_record_now h s1 = s1" by (simp add: start_next_record_now_def s1_def)
    then have "ss_phase (drive_step h s) = SECURE_STOP"
      using step finish_stops [of s1 h] s out l Nil by (simp add: s1_def)
    then show ?thesis ..
  next
    case (Cons r rs)
    have r: "r \<noteq> []" "length r \<le> 65535" using s(5) Cons by (simp_all add: records_sized_def)
    define s2 where "s2 = s1\<lparr>ss_tls_records := rs, ss_b0_logical := Some (b0_record_message r), ss_b0_offset := 0\<rparr>"
    have "start_next_record_now h s1 = or_fail h (submit_b0_chunk h s2)"
      using Cons r s out l by (simp add: start_next_record_now_def s1_def s2_def Let_def)
    moreover obtain u a where "or_fail h (submit_b0_chunk h s2) = s2\<lparr>ss_b0_offset := ss_b0_offset s2 + min (length (b0_record_message r) - ss_b0_offset s2) 64,
        ss_out_pending := True, ss_out_kind := OUT_KIND_B0, ss_audit := a, ss_user := u\<rparr>"
      by (rule chunk_accepted [OF h, of s2 "b0_record_message r"]) (use out in \<open>simp_all add: s2_def s1_def\<close>)
    ultimately have start: "start_next_record_now h s1 = s2\<lparr>ss_b0_offset := min (length r + 4) 64,
        ss_out_pending := True, ss_out_kind := OUT_KIND_B0, ss_audit := a, ss_user := u\<rparr>" by (simp add: s2_def)
    obtain a' where "maybe_finish_tls h (start_next_record_now h s1) = (start_next_record_now h s1)\<lparr>ss_audit := a'\<rparr>"
      using finish_busy [of "start_next_record_now h s1" h] by (auto simp: start)
    then have eq: "drive_step h s = s2\<lparr>ss_b0_offset := min (length r + 4) 64, ss_out_pending := True, ss_out_kind := OUT_KIND_B0,
        ss_audit := a', ss_user := u\<rparr>" using step by (simp add: start)
    have "wire_work (drive_step h s) < wire_work s"
      using l Cons transfers_left_step [of "length r + 4"] by (simp add: wire_work_def eq s2_def s1_def)
    moreover have "draining (drive_step h s)"
      using inv s Cons by (simp add: draining_def records_sized_def) (simp add: eq s2_def s1_def)
    ultimately show ?thesis by blast
  qed
qed

text \<open>
  Claim C37. Once TLS is established, a backend that accepts transfers, reports their completions and
  lets the pauses end brings the session to its stop within as many events as there are
  transfers and records left: every record leaves, none blocks another.
\<close>

theorem established_session_stops:
  assumes "session_started h g m u s" "backend_accepts h" "x = snd (run_ops (session_step h) xs s)"
    and "ss_phase x = SECURE_TLS" "tl_state (ss_tls x) = TLS_STATE_ESTABLISHED" "ss_backend_callback_owned x" "records_sized x"
  shows "\<exists>n \<le> Suc (wire_work x). ss_phase ((drive_step h ^^ n) x) = SECURE_STOP"
proof -
  have "draining x"
    using session_run_inv [OF assms(1), of xs] assms(3-) by (simp add: draining_def)
  then show ?thesis
  proof (induction "wire_work x" arbitrary: x rule: less_induct)
    case less
    have "ss_phase (drive_step h x) = SECURE_STOP \<or> draining (drive_step h x) \<and> wire_work (drive_step h x) < wire_work x"
      using drain_out [OF less.prems assms(2)] drain_pace [OF less.prems assms(2)] by blast
    then show ?case
    proof
      assume "ss_phase (drive_step h x) = SECURE_STOP"
      then show ?thesis by (intro exI [of _ 1]) simp
    next
      assume rest: "draining (drive_step h x) \<and> wire_work (drive_step h x) < wire_work x"
      then obtain n where "n \<le> Suc (wire_work (drive_step h x))" "ss_phase ((drive_step h ^^ n) (drive_step h x)) = SECURE_STOP"
        using less.hyps by blast
      with rest show ?thesis by (intro exI [of _ "Suc n"]) (simp add: funpow_Suc_right del: funpow.simps)
    qed
  qed
qed

end
