(* ===== verification/Secure_Example.thy ===== *)
theory Secure_Example
  imports Secure_Progress
begin

text \<open>
  A concrete secure session: a material, a sensor that answers it and a TLS engine of two
  flights, on which the properties of the secure session are applied.
\<close>

section \<open>A concrete session\<close>

definition toy_digest :: "bytes \<Rightarrow> bytes" where
  "toy_digest d = of_nat (length d) # [7, 7, 7, 7, 7, 7, 7, 7, 7, 7, 7, 7, 7, 7, 7, 7, 7, 7, 7, 7, 7, 7, 7, 7, 7, 7, 7, 7, 7, 7, 7]"

text \<open>A server that sends one record after the first message and one after the second.\<close>

definition toy_engine :: "nat ssl_engine" where
  "toy_engine = \<lparr>ssl_setup = Some 0, bio_write = (\<lambda>d n. (int (length d), n)),
     ssl_do_handshake = (\<lambda>n. if n = 0 then Ssl_Return Ssl_Want 1
       else Ssl_Ask_Psk (Some TLS_IDENTITY) 32 (\<lambda>psk. if psk = [] then Ssl_Return Ssl_Failed 9 else Ssl_Return Ssl_Complete 3)),
     ssl_read_all = (\<lambda>n. Ssl_Return ([], Ssl_Want) n),
     bio_read_pending = (\<lambda>n. if n = 1 then (([[22, 3, 3, 0, 1, 14]], False), 2)
       else if n = 3 then (([[20, 3, 3], [0, 1, 1]], False), 4) else (([], False), n))\<rparr>"

definition toy_config :: bytes where
  "toy_config = replicate 117 0 @ [0x20, 0x02, 0, 0, 0x36, 0x02, 0, 0, 0x38, 0x02, 0, 0, 0x3a, 0x02, 0, 0] @ replicate 89 0 @ [0x53, 0x92]"

definition toy_material :: secure_material where
  "toy_material = \<lparr>mt_expected_identity = Some secure_identity12509, mt_e4_validator = Some (replicate 32 5),
     mt_e4_validator_sha256 = toy_digest (replicate 32 5), mt_a2_response_sha256 = toy_digest [1, 2, 3],
     mt_chip82_response_sha256 = toy_digest [1, 2, 3, 4], mt_otp_a6_response_sha256 = toy_digest (replicate 64 1),
     mt_dac_values = replicate 4 (0, 0), mt_config90 = Some toy_config, mt_config90_sha256 = toy_digest toy_config,
     mt_psk = Some (replicate 32 9)\<rparr>"

text \<open>The user data are the transfers submitted.\<close>

definition toy_hooks :: "(nat, bytes list) session_hooks" where
  "toy_hooks = \<lparr>sh_engine = toy_engine, sh_sha256 = toy_digest, sh_submit = (\<lambda>g bs u. (Accept, u @ [bs])),
     sh_cancel_backend = (\<lambda>u. u), sh_out_outstanding = (\<lambda>u. 0), sh_schedule = None, sh_terminal = (\<lambda>e u. u),
     sh_phase = (\<lambda>s. []), sh_plaintext = (\<lambda>bs u. u)\<rparr>"

definition toy_answers :: "secure_phase \<Rightarrow> bytes" where
  "toy_answers p = (case p of
     SECURE_A8 \<Rightarrow> secure_identity12509 | SECURE_E4 \<Rightarrow> e4_prefix @ replicate 32 5 | SECURE_CHIP_82 \<Rightarrow> [1, 2, 3, 4]
   | SECURE_OTP_A6 \<Rightarrow> replicate 64 1 | SECURE_CONFIG_90 \<Rightarrow> [1, 0] | _ \<Rightarrow> [1, 2, 3])"

definition toy_session :: "(nat, bytes list) secure_session" where
  "toy_session = (case secure_session_new toy_hooks 5 toy_material tls_audit_zero [] of
     Inr s \<Rightarrow> snd (secure_session_start toy_hooks s) | Inl e \<Rightarrow> undefined)"

lemma toy_finalizer: "validate_config_finalizer toy_config"
  by (simp add: validate_config_finalizer_def toy_config_def upt_rec nth_append le16_def)

lemma toy_valid: "validate_material toy_digest toy_material"
  using toy_finalizer
  by (simp add: validate_material_def toy_material_def is_supported_identity_def digest_present_def digest_matches_def
      toy_digest_def dac_correlated_def config_dac_offsets_def dac_registers_def toy_config_def nth_append upt_rec
      lo8_def hi8_def)


lemma toy_hooks_simps [simp]:
  "sh_engine toy_hooks = toy_engine" "sh_sha256 toy_hooks = toy_digest" "sh_submit toy_hooks = (\<lambda>g bs u. (Accept, u @ [bs]))"
  "sh_schedule toy_hooks = None" "sh_out_outstanding toy_hooks = (\<lambda>u. 0)" "notify_phase toy_hooks s = s"
  by (simp_all add: toy_hooks_def notify_phase_def)

lemma toy_accepts: "backend_accepts toy_hooks"
  by (simp add: backend_accepts_def)

lemma toy_psk: "mt_psk toy_material = Some (replicate 32 9)"
  by (simp add: toy_material_def)

lemma toy_started: "session_started toy_hooks 5 toy_material [] toy_session"
  by (simp add: session_started_def toy_session_def secure_session_new_def toy_valid tls_server_new_def toy_psk
      toy_engine_def secure_session_start_def try_submit_phase_def build_phase_frame_def phase_request_def
      secure_control_def a0_build_frame_def Let_def)

lemma toy_sensor: "sensor_matches (sh_sha256 toy_hooks) toy_material toy_answers"
  by (simp add: sensor_matches_def toy_answers_def toy_material_def digest_matches_def toy_digest_def)

theorem secure_prefix_completes_witness:
  "let x = snd (run_ops (session_step toy_hooks) (secure_exchanges 5 1 toy_answers [0, 1, 2, 0, 1, 2, 0, 1, 0, 1, 0, 1, 2]
      SECURE_REENTRY_RECOVERY_A2) toy_session); a = ss_audit x in
    ss_phase x = SECURE_D1 \<and> ss_error x = None \<and> ss_out_pending x \<and> session_needs_receive x \<and>
    sa_command_count a = 14 \<and> sa_ack_count a = 13 \<and> sa_typed_response_count a = 8 \<and>
    sa_a8_app12509_pin_match a \<and> sa_e4_contract_result a = E4_CONTRACT_MATCH"
  by (rule secure_prefix_completes [OF toy_started toy_accepts toy_sensor]) simp_all

section \<open>The handshake\<close>

definition toy_record :: "bytes \<Rightarrow> bytes option" where
  "toy_record bs = Some (b0_record_message bs)"

definition toy_prefix :: "session_event list" where
  "toy_prefix = secure_exchanges 5 1 toy_answers (replicate 13 2) SECURE_REENTRY_RECOVERY_A2"

definition toy_handshake :: "session_event list" where
  "toy_handshake = [Session_Out 5 None, Session_B0 (toy_record [22, 3, 3, 0, 0]), Session_Out 5 None,
     Session_B0 (toy_record [20, 3, 3, 0, 0])]"

definition toy_server :: "nat \<Rightarrow> nat tls_server" where
  "toy_server n = \<lparr>tl_ssl = n, tl_psk = Some (replicate 32 9), tl_handed_off = False, tl_state = TLS_STATE_HANDSHAKE,
     tl_output_pending = [], tl_audit = tls_audit_zero\<rparr>"

lemma toy_tls: "ss_tls toy_session = toy_server 0"
  by (simp add: toy_session_def secure_session_new_def toy_valid tls_server_new_def toy_psk
      toy_engine_def secure_session_start_def try_submit_phase_def build_phase_frame_def phase_request_def
      secure_control_def a0_build_frame_def Let_def toy_server_def)

lemma toy_at_d1: "at_phase (toy_server 0) 5 (toy_material\<lparr>mt_psk := None\<rparr>) SECURE_D1 False False True
    (snd (run_ops (session_step toy_hooks) toy_prefix toy_session))"
  unfolding toy_prefix_def toy_tls [symmetric]
  by (rule exchanges_done [OF started_at [OF toy_started]])
    (use started_material [OF toy_started] toy_sensor in
      \<open>simp_all add: material_sized_def sensor_matches_def toy_accepts [simplified] toy_accepts\<close>)

definition toy_d1 :: "(nat, bytes list) secure_session" where
  "toy_d1 = snd (run_ops (session_step toy_hooks) toy_prefix toy_session)"

lemma toy_d1_fields [simp]:
  "ss_phase toy_d1 = SECURE_D1" "\<not> ss_logical_done toy_d1" "ss_out_pending toy_d1" "ss_backend_callback_owned toy_d1"
  "ss_generation toy_d1 = 5" "ss_tls toy_d1 = toy_server 0" "ss_tls_records toy_d1 = []" "ss_tls_record_count toy_d1 = 0"
  "\<not> ss_d1_server_flight_seen toy_d1" "ss_out_kind toy_d1 = OUT_KIND_A0" "ss_b0_logical toy_d1 = None" "\<not> ss_pace_pending toy_d1"
proof -
  show f: "ss_phase toy_d1 = SECURE_D1" "\<not> ss_logical_done toy_d1" "ss_out_pending toy_d1" "ss_backend_callback_owned toy_d1"
    "ss_generation toy_d1 = 5" "ss_tls toy_d1 = toy_server 0" "ss_tls_records toy_d1 = []" "ss_tls_record_count toy_d1 = 0"
    "\<not> ss_d1_server_flight_seen toy_d1"
    using toy_at_d1 by (simp_all add: toy_d1_def at_phase_def at_fields_def)
  have "session_inv toy_d1" using toy_at_d1 by (simp add: toy_d1_def at_phase_def)
  with f have "wired toy_d1" by (auto simp: session_inv_def dead_def phase_settled_def going_def Let_def)
  with f show "ss_out_kind toy_d1 = OUT_KIND_A0" "ss_b0_logical toy_d1 = None" "\<not> ss_pace_pending toy_d1"
    by (simp_all add: wired_def)
qed

lemmas toy_push_simps = session_handle_b0_def toy_record_def b0_record_message_def tls_server_push_def on_session_def
  session_tls_output_def drain_output_def read_plaintext_def deliver_records.simps tls_record_length_def tls_reply_def
  toy_engine_def advance_phase_def maybe_start_b0_def start_next_record_now_def submit_b0_chunk_def or_fail_def
  maybe_finish_tls_def schedule_next_record_def session_out_complete_def psk_cb_def cleanse_project_secret_def
  lo8_def hi8_def le16_def TLS_IDENTITY_def Let_def

definition toy_tls1 :: "(nat, bytes list) secure_session" where
  "toy_tls1 = snd (run_ops (session_step toy_hooks) (take 2 toy_handshake) toy_d1)"

lemma toy_tls1_fields [simp]:
  "ss_phase toy_tls1 = SECURE_TLS" "ss_out_pending toy_tls1" "ss_backend_callback_owned toy_tls1"
  "ss_generation toy_tls1 = 5" "ss_tls toy_tls1 = toy_server 2" "ss_tls_records toy_tls1 = []" "ss_tls_record_count toy_tls1 = 0"
  "ss_out_kind toy_tls1 = OUT_KIND_B0" "ss_b0_logical toy_tls1 = toy_record [22, 3, 3, 0, 1, 14]" "\<not> ss_pace_pending toy_tls1" "ss_b0_offset toy_tls1 = 10"
  by (simp_all add: toy_tls1_def toy_handshake_def session_step.simps toy_push_simps toy_server_def)

definition toy_tls2 :: "(nat, bytes list) secure_session" where
  "toy_tls2 = snd (run_ops (session_step toy_hooks) (drop 2 toy_handshake) toy_tls1)"

lemma toy_tls2_fields [simp]:
  "ss_phase toy_tls2 = SECURE_TLS" "\<not> ss_out_pending toy_tls2" "ss_backend_callback_owned toy_tls2"
  "tl_psk (ss_tls toy_tls2) = None" "tl_secret_handoff_count (tl_audit (ss_tls toy_tls2)) = 1"
  "tl_state (ss_tls toy_tls2) = TLS_STATE_ESTABLISHED"
  "ss_tls_records toy_tls2 = [[20, 3, 3, 0, 1, 1]]" "ss_pace_pending toy_tls2" "ss_b0_logical toy_tls2 = None"
  by (simp_all add: toy_tls2_def toy_handshake_def session_step.simps toy_push_simps toy_server_def tls_audit_zero_def)

definition toy_events :: "session_event list" where
  "toy_events = toy_prefix @ take 2 toy_handshake @ drop 2 toy_handshake"

lemma toy_run: "snd (run_ops (session_step toy_hooks) toy_events toy_session) = toy_tls2"
  unfolding toy_events_def snd_run_ops_append toy_d1_def [symmetric] toy_tls1_def [symmetric] toy_tls2_def [symmetric]
  by (rule refl)

section \<open>The properties applied\<close>

theorem secret_only_after_evidence_witness:
  "tl_psk (ss_tls toy_tls2) = None \<and> sa_command_count (ss_audit toy_tls2) = 14 \<and> sa_ack_count (ss_audit toy_tls2) = 13 \<and>
   sa_typed_response_count (ss_audit toy_tls2) = 8 \<and> sa_e4_contract_result (ss_audit toy_tls2) = E4_CONTRACT_MATCH"
  using secret_only_after_evidence [OF toy_started, of toy_events] by (simp add: toy_run Let_def)

theorem secure_session_never_stuck_witness: "ss_out_pending toy_tls2 \<noteq> ss_pace_pending toy_tls2"
  using secure_session_never_stuck [OF toy_started, of toy_events] by (simp add: toy_run)

theorem established_session_stops_witness:
  "\<exists>n \<le> Suc (wire_work toy_tls2). ss_phase ((drive_step toy_hooks ^^ n) toy_tls2) = SECURE_STOP"
  by (rule established_session_stops [OF toy_started toy_accepts toy_run [symmetric]]) (simp_all add: records_sized_def)

end
