(* ===== verification/Post_Tls_Lifecycle.thy ===== *)
theory Post_Tls_Lifecycle
  imports A0_Protocol Fdt_Irq_Policy Image_Decoder
begin

text \<open>
  The lifecycle after TLS (\<^verbatim>\<open>goodix_post_tls_lifecycle.c\<close>): from D4 through the three
  finger-detection samples and the baseline image to the first arming, then one or two
  acquisitions with the release tail between them, the handoff to enrollment, and the gate
  of the login. The lifecycle and its audit exist, and the enumerations of the material have
  their declared values. The backend and the owner's callbacks are arguments; a callback may
  call the lifecycle back, so it answers with the calls it makes. A callback that is not
  given is one that makes no call. Messages, log lines and the two pacing delays are left
  out, and so is freeing.
\<close>

section \<open>State\<close>

datatype post_tls_phase =
    PT_NOT_STARTED | PT_D4 | PT_AF | PT_FDT36_1 | PT_FDT_IRQ100_1 | PT_FDT_NAV_1 | PT_FDT36_2 | PT_FDT_IRQ100_2
  | PT_FDT_82 | PT_FDT_20 | PT_FDT_B0 | PT_FDT36_3 | PT_FDT_IRQ100_3 | PT_FIRST_ARM | PT_FIRST_IRQ2 | PT_FIRST_22
  | PT_FIRST_B0 | PT_RELEASE_34 | PT_RELEASE_IRQ200 | PT_RELEASE_20 | PT_RELEASE_B0 | PT_RELEASE_50 | PT_RELEASE_NAV
  | PT_REARM_GATE | PT_SECOND_ARM | PT_SECOND_IRQ2 | PT_SECOND_22 | PT_SECOND_B0 | PT_STOP | PT_TERMINAL

datatype capture_profile = PROFILE_TWO_ACQUISITION | PROFILE_SINGLE_ACQUISITION

datatype fdt_seed_mode = FDT_SEED_PROVIDED | FDT_SEED_ABSENT_ZERO

datatype post_tls_error =
    POST_TLS_ERROR_ARGUMENT | POST_TLS_ERROR_STATE | POST_TLS_ERROR_PROTOCOL | POST_TLS_ERROR_TRANSPORT | POST_TLS_ERROR_IMAGE

text \<open>The code's own errors, those of the GIO domain, and those of the parts it calls.\<close>

datatype io_error = IO_ERROR_CANCELLED | IO_ERROR_TIMED_OUT | IO_ERROR_CLOSED

datatype lifecycle_error = Lifecycle_Error post_tls_error | Lifecycle_Io io_error | Lifecycle_Other gerror

record lifecycle_material =
  lm_initial_fdt_table :: bytes
  lm_af_timestamp :: u16
  lm_first_arm_timestamp :: u16
  lm_second_arm_timestamp :: u16
  lm_capture_profile :: capture_profile
  lm_fdt_seed_mode :: fdt_seed_mode

record rejected_a0 =
  rj_phase :: post_tls_phase
  rj_control :: int
  rj_irq :: int
  rj_flags :: int
  rj_body_length :: nat

record lifecycle_audit =
  pa_started :: bool
  pa_d4 :: u32
  pa_af :: u32
  pa_fdt36_submit :: u32
  pa_fdt_irq100 :: u32
  pa_fresh_fdt :: u32
  pa_delta_classification :: u32
  pa_delta_within :: u32
  pa_delta_outside :: u32
  pa_baseline_b0 :: u32
  pa_baseline_decode :: u32
  pa_first_irq0002 :: u32
  pa_first_image_command :: u32
  pa_first_image_b0 :: u32
  pa_first_image_decode :: u32
  pa_first_image_pipeline :: u32
  pa_release_0x34 :: u32
  pa_irq0200 :: u32
  pa_post_up_0x20 :: u32
  pa_post_up_b0 :: u32
  pa_nav_0x50 :: u32
  pa_nav_response :: u32
  pa_fresh_down_table_count :: u32
  pa_rearm_0x32 :: u32
  pa_second_irq0002 :: u32
  pa_second_image_command :: u32
  pa_second_b0 :: u32
  pa_second_image_decode :: u32
  pa_second_image_pipeline :: u32
  pa_command :: u32
  pa_ack :: u32
  pa_fdt_timeout :: u32
  pa_release_tail_complete :: u32
  pa_single_acquisition_terminal :: u32
  pa_first_arm_handoff :: u32
  pa_backend_handoff :: u32
  pa_fresh_down_table :: bool
  pa_zero_seed :: bool
  pa_learned_fdt_ready :: bool
  pa_framework_rearm_gate_seen :: bool
  pa_terminal :: bool
  pa_rejected_a0 :: "rejected_a0 option"
  pa_generation :: u64

text \<open>
  The samples recorded are a list, so their count is its length; a table that is valid only
  together with a flag is an option. The flags \<open>lc_has_handoff\<close> and \<open>lc_has_login_ready\<close> say
  whether these callbacks were set.
\<close>

record 'u lifecycle =
  lc_generation :: u64
  lc_material :: lifecycle_material
  lc_phase :: post_tls_phase
  lc_has_login_ready :: bool
  lc_login_gate :: bool
  lc_login_authorized :: bool
  lc_login_attempts :: u32
  lc_irq80_count :: u32
  lc_irq80_rearm_pending :: bool
  lc_has_handoff :: bool
  lc_audit :: lifecycle_audit
  lc_error :: "lifecycle_error option"
  lc_out_pending :: bool
  lc_backend_callback_owned :: bool
  lc_expected_ack :: u8
  lc_ack_seen :: bool
  lc_framework_await :: bool
  lc_rearm_submitted :: bool
  lc_fresh_down_valid :: bool
  lc_current_fdt_table :: bytes
  lc_learned_fdt_table :: "bytes option"
  lc_first_up_table :: bytes
  lc_fresh_down_table :: bytes
  lc_fdt_raw :: "u16 list list"
  lc_fdt_threshold :: "u8 option"
  lc_fdt_delta_classified :: bool
  lc_baseline_samples :: "u16 list option"
  lc_plaintext_pending :: bytes
  lc_user :: 'u

text \<open>The calls that a callback makes on the lifecycle, and work of the owner's own.\<close>

datatype 'u lifecycle_action = Set_Await u64 bool | Cancel_Lifecycle | Authorize_Login | Owner_Does "'u \<Rightarrow> 'u"

record 'u lifecycle_hooks =
  lh_submit :: "u64 \<Rightarrow> bytes \<Rightarrow> 'u \<Rightarrow> gerror reply \<times> 'u"
  lh_cancel_backend :: "'u \<Rightarrow> 'u"
  lh_out_outstanding :: "'u \<Rightarrow> u32"
  lh_is_drained :: "'u \<Rightarrow> bool"
  lh_next_timestamp :: "('u \<Rightarrow> u16 \<times> 'u) option"
  lh_terminal :: "lifecycle_error \<Rightarrow> 'u \<Rightarrow> 'u"
  lh_image :: "u32 \<Rightarrow> u16 list \<Rightarrow> 'u lifecycle \<Rightarrow> 'u lifecycle_action list \<times> callback_reply"
  lh_finger_down :: "'u lifecycle \<Rightarrow> 'u lifecycle_action list"
  lh_release_tail :: "'u lifecycle \<Rightarrow> 'u lifecycle_action list"
  lh_finger_up :: "'u lifecycle \<Rightarrow> 'u lifecycle_action list"
  lh_login_ready :: "'u lifecycle \<Rightarrow> 'u lifecycle_action list"
  lh_handoff :: "'u lifecycle \<Rightarrow> 'u lifecycle_action list \<times> callback_reply"

definition lifecycle_audit_zero :: "u64 \<Rightarrow> bool \<Rightarrow> lifecycle_audit" where
  "lifecycle_audit_zero generation zero_seed = \<lparr>pa_started = False, pa_d4 = 0, pa_af = 0, pa_fdt36_submit = 0,
     pa_fdt_irq100 = 0, pa_fresh_fdt = 0, pa_delta_classification = 0, pa_delta_within = 0, pa_delta_outside = 0,
     pa_baseline_b0 = 0, pa_baseline_decode = 0, pa_first_irq0002 = 0, pa_first_image_command = 0,
     pa_first_image_b0 = 0, pa_first_image_decode = 0, pa_first_image_pipeline = 0, pa_release_0x34 = 0,
     pa_irq0200 = 0, pa_post_up_0x20 = 0, pa_post_up_b0 = 0, pa_nav_0x50 = 0, pa_nav_response = 0,
     pa_fresh_down_table_count = 0, pa_rearm_0x32 = 0, pa_second_irq0002 = 0, pa_second_image_command = 0,
     pa_second_b0 = 0, pa_second_image_decode = 0, pa_second_image_pipeline = 0, pa_command = 0, pa_ack = 0,
     pa_fdt_timeout = 0, pa_release_tail_complete = 0, pa_single_acquisition_terminal = 0,
     pa_first_arm_handoff = 0, pa_backend_handoff = 0, pa_fresh_down_table = False, pa_zero_seed = zero_seed,
     pa_learned_fdt_ready = False, pa_framework_rearm_gate_seen = False, pa_terminal = False,
     pa_rejected_a0 = None, pa_generation = generation\<rparr>"

text \<open>
  The two update forms of the code: a change of the audit, and the increments
  \<^verbatim>\<open>audit->x_count++\<close>, which are changes of it.
\<close>

definition audited :: "(lifecycle_audit \<Rightarrow> lifecycle_audit) \<Rightarrow> 'u lifecycle \<Rightarrow> 'u lifecycle" where
  "audited f l = l\<lparr>lc_audit := f (lc_audit l)\<rparr>"

section \<open>Failure and submission\<close>

definition lifecycle_fail :: "'u lifecycle_hooks \<Rightarrow> lifecycle_error option \<Rightarrow> 'u lifecycle \<Rightarrow> 'u lifecycle" where
  "lifecycle_fail h e l =
     (if lc_phase l = PT_TERMINAL then l
      else
        let error = (case e of None \<Rightarrow> Lifecycle_Error POST_TLS_ERROR_STATE | Some e0 \<Rightarrow> e0);
            l1 = audited (\<lambda>a. a\<lparr>pa_terminal := True, pa_fresh_down_table := False, pa_learned_fdt_ready := False\<rparr>)
              (l\<lparr>lc_phase := PT_TERMINAL, lc_fresh_down_valid := False, lc_learned_fdt_table := None,
                 lc_plaintext_pending := []\<rparr>);
            l2 = l1\<lparr>lc_error := Some error, lc_user := lh_cancel_backend h (lc_user l1)\<rparr>
        in l2\<lparr>lc_user := lh_terminal h error (lc_user l2)\<rparr>)"

definition lifecycle_refuse :: "'u lifecycle_hooks \<Rightarrow> post_tls_error \<Rightarrow> 'u lifecycle \<Rightarrow> 'u lifecycle" where
  "lifecycle_refuse h e l = lifecycle_fail h (Some (Lifecycle_Error e)) l"

definition fixed64_command :: "u8 \<Rightarrow> bytes \<Rightarrow> lifecycle_error + bytes" where
  "fixed64_command ctl bs =
     (case a0_build_frame ctl (ctl AND 0xfe) bs of
        Inl e \<Rightarrow> Inl (Lifecycle_Other e)
      | Inr logical \<Rightarrow>
          if length logical > 64 then Inl (Lifecycle_Error POST_TLS_ERROR_PROTOCOL)
          else Inr (logical @ replicate (64 - length logical) 0))"

definition submit_command ::
    "'u lifecycle_hooks \<Rightarrow> u8 \<Rightarrow> bytes \<Rightarrow> post_tls_phase \<Rightarrow> 'u lifecycle \<Rightarrow> lifecycle_error reply \<times> 'u lifecycle" where
  "submit_command h ctl bs next l =
     (if lc_out_pending l \<or> lc_phase l = PT_TERMINAL \<or> lc_phase l = PT_STOP
      then (Reject (Lifecycle_Error POST_TLS_ERROR_STATE), l)
      else case fixed64_command ctl bs of
          Inl e \<Rightarrow> (Reject e, l)
        | Inr frame \<Rightarrow>
            let l1 = audited (\<lambda>a. a\<lparr>pa_command := pa_command a + 1\<rparr>)
                  (l\<lparr>lc_phase := next, lc_expected_ack := ctl, lc_ack_seen := False, lc_out_pending := True\<rparr>);
                (r, u) = lh_submit h (lc_generation l1) frame (lc_user l1); l2 = l1\<lparr>lc_user := u\<rparr> in
            case r of
              Accept \<Rightarrow> (Accept, l2)
            | Reject e \<Rightarrow> (Reject (Lifecycle_Other e), l2\<lparr>lc_out_pending := False\<rparr>))"

definition submit_simple ::
    "'u lifecycle_hooks \<Rightarrow> u8 \<Rightarrow> post_tls_phase \<Rightarrow> 'u lifecycle \<Rightarrow> lifecycle_error reply \<times> 'u lifecycle" where
  "submit_simple h ctl next l = submit_command h ctl [0x01, 0x00] next l"

definition submit_fdt36 ::
    "'u lifecycle_hooks \<Rightarrow> post_tls_phase \<Rightarrow> 'u lifecycle \<Rightarrow> lifecycle_error reply \<times> 'u lifecycle" where
  "submit_fdt36 h next l =
     submit_command h 0x36 ([0x09, 0x01] @ lc_current_fdt_table l) next
       (audited (\<lambda>a. a\<lparr>pa_fdt36_submit := pa_fdt36_submit a + 1\<rparr>) l)"

definition submit_arm :: "'u lifecycle_hooks \<Rightarrow> bool \<Rightarrow> 'u lifecycle \<Rightarrow> lifecycle_error reply \<times> 'u lifecycle" where
  "submit_arm h second l =
     (let timestamp = (if second then lm_second_arm_timestamp (lc_material l) else lm_first_arm_timestamp (lc_material l));
          table = (if second then lc_fresh_down_table l else lc_current_fdt_table l);
          bs = [0x08, 0x01] @ table @ [lo8 timestamp, hi8 timestamp];
          l1 = (if second then audited (\<lambda>a. a\<lparr>pa_rearm_0x32 := pa_rearm_0x32 a + 1\<rparr>) l else l)
      in submit_command h 0x32 bs (if second then PT_SECOND_ARM else PT_FIRST_ARM) l1)"

definition submit_or_fail :: "'u lifecycle_hooks \<Rightarrow> lifecycle_error reply \<times> 'u lifecycle \<Rightarrow> 'u lifecycle" where
  "submit_or_fail h result = (case result of (Accept, l) \<Rightarrow> l | (Reject e, l) \<Rightarrow> lifecycle_fail h (Some e) l)"

section \<open>Samples\<close>

definition fdt_words :: "bytes \<Rightarrow> u16 list" where
  "fdt_words raw = map (\<lambda>i. le16 (raw ! (i * 2)) (raw ! (i * 2 + 1))) [0..<6]"

definition record_fdt_raw :: "bytes \<Rightarrow> 'u lifecycle \<Rightarrow> bool \<times> 'u lifecycle" where
  "record_fdt_raw raw l =
     (if length (lc_fdt_raw l) \<ge> 3 then (False, l)
      else (True, l\<lparr>lc_fdt_raw := lc_fdt_raw l @ [fdt_words raw]\<rparr>))"

definition channel_difference :: "u16 \<Rightarrow> u16 \<Rightarrow> nat" where
  "channel_difference a b = (if a \<ge> b then unat (a - b) else unat (b - a))"

definition samples_within :: "u8 \<Rightarrow> u16 list \<Rightarrow> u16 list \<Rightarrow> bool" where
  "samples_within threshold as bs = list_all (\<lambda>i. channel_difference (as ! i) (bs ! i) \<le> unat threshold) [0..<6]"

definition classify_fdt_delta :: "nat \<Rightarrow> nat \<Rightarrow> 'u lifecycle \<Rightarrow> bool \<times> 'u lifecycle" where
  "classify_fdt_delta older newer l =
     (case lc_fdt_threshold l of
        None \<Rightarrow> (False, l)
      | Some threshold \<Rightarrow>
          if newer \<ge> length (lc_fdt_raw l) \<or> older \<ge> newer then (False, l)
          else
            let within = samples_within threshold (lc_fdt_raw l ! older) (lc_fdt_raw l ! newer) in
            (within, audited (\<lambda>a. let a1 = a\<lparr>pa_delta_classification := pa_delta_classification a + 1\<rparr> in
                if within then a1\<lparr>pa_delta_within := pa_delta_within a + 1\<rparr>
                else a1\<lparr>pa_delta_outside := pa_delta_outside a + 1\<rparr>)
              (l\<lparr>lc_fdt_delta_classified := True\<rparr>)))"

section \<open>Callbacks\<close>

definition maybe_submit_rearm :: "'u lifecycle_hooks \<Rightarrow> 'u lifecycle \<Rightarrow> 'u lifecycle" where
  "maybe_submit_rearm h l =
     (if lc_phase l \<noteq> PT_REARM_GATE \<or> \<not> lc_framework_await l \<or> \<not> lc_fresh_down_valid l \<or> lc_rearm_submitted l then l
      else submit_or_fail h (submit_arm h True (l\<lparr>lc_rearm_submitted := True\<rparr>)))"

definition set_framework_await_finger_on :: "'u lifecycle_hooks \<Rightarrow> u64 \<Rightarrow> bool \<Rightarrow> 'u lifecycle \<Rightarrow> 'u lifecycle" where
  "set_framework_await_finger_on h generation awaiting l =
     (if generation \<noteq> lc_generation l \<or> lc_phase l = PT_TERMINAL \<or> lc_phase l = PT_STOP then l
      else
        let l1 = l\<lparr>lc_framework_await := awaiting\<rparr>;
            l2 = (if awaiting then audited (\<lambda>a. a\<lparr>pa_framework_rearm_gate_seen := True\<rparr>) l1 else l1)
        in maybe_submit_rearm h l2)"

definition lifecycle_cancel :: "'u lifecycle_hooks \<Rightarrow> 'u lifecycle \<Rightarrow> 'u lifecycle" where
  "lifecycle_cancel h l = (if lc_phase l = PT_TERMINAL then l else lifecycle_refuse h POST_TLS_ERROR_STATE l)"

definition authorize_login :: "'u lifecycle \<Rightarrow> bool \<times> 'u lifecycle" where
  "authorize_login l =
     (if \<not> lc_login_gate l \<or> lc_login_authorized l \<or> lc_phase l \<noteq> PT_FIRST_IRQ2 then (False, l)
      else (True, l\<lparr>lc_login_authorized := True, lc_login_attempts := 1\<rparr>))"

fun lifecycle_act :: "'u lifecycle_hooks \<Rightarrow> 'u lifecycle \<Rightarrow> 'u lifecycle_action \<Rightarrow> 'u lifecycle" where
  "lifecycle_act h l (Set_Await g awaiting) = set_framework_await_finger_on h g awaiting l"
| "lifecycle_act h l Cancel_Lifecycle = lifecycle_cancel h l"
| "lifecycle_act h l Authorize_Login = snd (authorize_login l)"
| "lifecycle_act h l (Owner_Does f) = l\<lparr>lc_user := f (lc_user l)\<rparr>"

definition lifecycle_acts :: "'u lifecycle_hooks \<Rightarrow> 'u lifecycle_action list \<Rightarrow> 'u lifecycle \<Rightarrow> 'u lifecycle" where
  "lifecycle_acts h xs l = foldl (lifecycle_act h) l xs"

section \<open>Frames\<close>

text \<open>A frame of fewer than five bytes fails without an error of its own.\<close>

definition lifecycle_parse_message :: "bytes \<Rightarrow> lifecycle_error option + a0_message" where
  "lifecycle_parse_message d =
     (if length d < 5 then Inl None
      else case a0_parse_frame (Some d) (d ! 4) of
          Inl e \<Rightarrow> Inl (Some (Lifecycle_Other e)) | Inr message \<Rightarrow> Inr message)"

definition lifecycle_parse_nav :: "bytes \<Rightarrow> a0_message option" where
  "lifecycle_parse_nav d =
     (if length d \<noteq> 2417 \<or> d ! 0 \<noteq> 0xa0 then None
      else if le16 (d ! 1) (d ! 2) \<noteq> 2413 \<or> d ! 3 \<noteq> d ! 0 + d ! 1 + d ! 2 \<or> d ! 4 \<noteq> 0x50 then None
      else if le16 (d ! 5) (d ! 6) \<noteq> 2410 \<or> d ! (length d - 1) \<noteq> 0x88 \<or> d ! 7 \<noteq> 0x50 \<or> d ! 8 \<noteq> 0x01 then None
      else Some \<lparr>control = 0x50, body = take 2409 (drop 7 d)\<rparr>)"

definition accept_ack :: "'u lifecycle_hooks \<Rightarrow> a0_message \<Rightarrow> 'u lifecycle \<Rightarrow> bool \<times> 'u lifecycle" where
  "accept_ack h m l =
     (if control m \<noteq> 0xb0 then (False, l)
      else if lc_ack_seen l \<or> length (body m) \<noteq> 2 \<or> body m ! 0 \<noteq> lc_expected_ack l \<or> body m ! 1 \<noteq> 0x01
      then (False, lifecycle_refuse h POST_TLS_ERROR_PROTOCOL l)
      else (True, audited (\<lambda>a. a\<lparr>pa_ack := pa_ack a + 1\<rparr>) (l\<lparr>lc_ack_seen := True\<rparr>)))"

text \<open>The interrupt, the flags and the raw readings of a report.\<close>

definition event_fields :: "a0_message \<Rightarrow> (u16 \<times> u16 \<times> bytes) option" where
  "event_fields m =
     (let bs = body m in
      if length bs \<noteq> 16 then None else Some (le16 (bs ! 0) (bs ! 1), le16 (bs ! 2) (bs ! 3), drop 4 bs))"

text \<open>The label \<^verbatim>\<open>unexpected\<close>, with the phase at entry.\<close>

definition unexpected_a0 :: "'u lifecycle_hooks \<Rightarrow> post_tls_phase \<Rightarrow> a0_message \<Rightarrow> 'u lifecycle \<Rightarrow> 'u lifecycle" where
  "unexpected_a0 h entry m l =
     (let event = (if control m = 0x32 \<or> control m = 0x34 \<or> control m = 0x36 then event_fields m else None);
          irq = (case event of None \<Rightarrow> - 1 | Some (irq, flags, raw) \<Rightarrow> uint irq);
          flags = (case event of None \<Rightarrow> - 1 | Some (irq, flags, raw) \<Rightarrow> uint flags);
          rejected = \<lparr>rj_phase = entry, rj_control = uint (control m), rj_irq = irq, rj_flags = flags,
            rj_body_length = length (body m)\<rparr>
      in lifecycle_refuse h POST_TLS_ERROR_PROTOCOL (audited (\<lambda>a. a\<lparr>pa_rejected_a0 := Some rejected\<rparr>) l))"

text \<open>What follows an accepted acknowledgement.\<close>

definition after_ack ::
    "'u lifecycle_hooks \<Rightarrow> a0_message \<Rightarrow> ('u lifecycle \<Rightarrow> 'u lifecycle) \<Rightarrow> 'u lifecycle \<Rightarrow> 'u lifecycle" where
  "after_ack h m k l = (let (ok, l1) = accept_ack h m l in if ok then k l1 else unexpected_a0 h (lc_phase l) m l1)"

section \<open>Initialisation\<close>

definition on_d4 :: "'u lifecycle_hooks \<Rightarrow> a0_message \<Rightarrow> 'u lifecycle \<Rightarrow> 'u lifecycle" where
  "on_d4 h m l = after_ack h m (\<lambda>l1.
     let t = lm_af_timestamp (lc_material l1) in
     submit_or_fail h (submit_command h 0xaf [0x55, lo8 t, hi8 t, 0, 0] PT_AF (audited (\<lambda>a. a\<lparr>pa_af := pa_af a + 1\<rparr>) l1))) l"

definition on_af :: "'u lifecycle_hooks \<Rightarrow> a0_message \<Rightarrow> 'u lifecycle \<Rightarrow> 'u lifecycle" where
  "on_af h m l =
     (if control m \<noteq> 0xae \<or> length (body m) \<noteq> 16 \<or> body m ! 1 AND 0x01 \<noteq> 0 \<or> body m ! 1 AND 0x02 = 0
      then unexpected_a0 h (lc_phase l) m l
      else submit_or_fail h (submit_fdt36 h PT_FDT36_1 l))"

definition on_fdt36 :: "'u lifecycle_hooks \<Rightarrow> a0_message \<Rightarrow> 'u lifecycle \<Rightarrow> 'u lifecycle" where
  "on_fdt36 h m l = after_ack h m (\<lambda>l1.
     l1\<lparr>lc_phase := (if lc_phase l1 = PT_FDT36_1 then PT_FDT_IRQ100_1
       else if lc_phase l1 = PT_FDT36_2 then PT_FDT_IRQ100_2 else PT_FDT_IRQ100_3)\<rparr>) l"

text \<open>
  A sample is accepted when all the conditions hold; recording it and deriving the table are
  among them and have their effect as far as they are reached.
\<close>

definition accept_sample :: "a0_message \<Rightarrow> 'u lifecycle \<Rightarrow> bool \<times> 'u lifecycle" where
  "accept_sample m l =
     (case event_fields m of
        None \<Rightarrow> (False, l)
      | Some (irq, flags, raw) \<Rightarrow>
          let first = (lc_phase l = PT_FDT_IRQ100_1) in
          if control m \<noteq> 0x36 \<or> irq \<noteq> 0x0100 \<or>
             \<not> fdt_irq_flags_valid (if first then BASELINE_FIRST_SAMPLE else BASELINE_SAMPLE) flags
          then (False, l)
          else
            let (recorded, l1) = record_fdt_raw raw l in
            if \<not> recorded then (False, l1)
            else
              let (ok, table) = (if first then fdt_derive_first_baseline_table raw flags (lc_current_fdt_table l1)
                    else fdt_derive_baseline_table raw flags (lc_current_fdt_table l1))
              in (ok, l1\<lparr>lc_current_fdt_table := table\<rparr>))"

definition finish_initialization :: "'u lifecycle_hooks \<Rightarrow> a0_message \<Rightarrow> 'u lifecycle \<Rightarrow> 'u lifecycle" where
  "finish_initialization h m l =
     (if \<not> lc_fdt_delta_classified l then unexpected_a0 h (lc_phase l) m l
      else
        let (within, l1) = classify_fdt_delta 1 2 l in
        if \<not> within then unexpected_a0 h (lc_phase l) m l1
        else submit_or_fail h (submit_arm h False
          (audited (\<lambda>a. a\<lparr>pa_fresh_fdt := pa_fresh_fdt a + 1, pa_learned_fdt_ready := True\<rparr>)
            (l1\<lparr>lc_learned_fdt_table := Some (lc_current_fdt_table l1)\<rparr>))))"

definition on_fdt_irq100 :: "'u lifecycle_hooks \<Rightarrow> a0_message \<Rightarrow> 'u lifecycle \<Rightarrow> 'u lifecycle" where
  "on_fdt_irq100 h m l =
     (let (ok, l1) = accept_sample m l in
      if \<not> ok then unexpected_a0 h (lc_phase l) m l1
      else
        let l2 = audited (\<lambda>a. a\<lparr>pa_fdt_irq100 := pa_fdt_irq100 a + 1\<rparr>) l1 in
        if lc_phase l2 = PT_FDT_IRQ100_1 then submit_or_fail h (submit_simple h 0x50 PT_FDT_NAV_1 l2)
        else if lc_phase l2 = PT_FDT_IRQ100_2
        then submit_or_fail h (submit_command h 0x82 [0x00, 0x82, 0x00, 0x02, 0x00] PT_FDT_82 l2)
        else finish_initialization h m l2)"

definition on_fdt_nav :: "'u lifecycle_hooks \<Rightarrow> a0_message \<Rightarrow> 'u lifecycle \<Rightarrow> 'u lifecycle" where
  "on_fdt_nav h m l =
     (if \<not> lc_ack_seen l then after_ack h m (\<lambda>l1. l1) l
      else if control m \<noteq> 0x50 \<or> length (body m) \<noteq> 2409 then unexpected_a0 h (lc_phase l) m l
      else submit_or_fail h (submit_fdt36 h PT_FDT36_2 l))"

definition on_fdt_82 :: "'u lifecycle_hooks \<Rightarrow> a0_message \<Rightarrow> 'u lifecycle \<Rightarrow> 'u lifecycle" where
  "on_fdt_82 h m l =
     (if \<not> lc_ack_seen l then after_ack h m (\<lambda>l1. l1) l
      else if control m \<noteq> 0x82 \<or> length (body m) \<noteq> 2 then unexpected_a0 h (lc_phase l) m l
      else
        let (within, l1) = classify_fdt_delta 0 1 (l\<lparr>lc_fdt_threshold := Some (body m ! 1)\<rparr>) in
        if \<not> within then unexpected_a0 h (lc_phase l) m l1
        else submit_or_fail h (submit_simple h 0x20 PT_FDT_20 l1))"

text \<open>An acknowledgement that only moves on.\<close>

definition on_ack_to :: "'u lifecycle_hooks \<Rightarrow> post_tls_phase \<Rightarrow> a0_message \<Rightarrow> 'u lifecycle \<Rightarrow> 'u lifecycle" where
  "on_ack_to h next m l = after_ack h m (\<lambda>l1. l1\<lparr>lc_phase := next\<rparr>) l"

section \<open>Arming and acquisition\<close>

definition hand_off :: "'u lifecycle_hooks \<Rightarrow> 'u lifecycle \<Rightarrow> 'u lifecycle" where
  "hand_off h l =
     (let l1 = audited (\<lambda>a. a\<lparr>pa_first_arm_handoff := pa_first_arm_handoff a + 1, pa_backend_handoff := pa_backend_handoff a + 1\<rparr>)
            (l\<lparr>lc_backend_callback_owned := False, lc_phase := PT_STOP\<rparr>);
          (calls, reply) = lh_handoff h l1; l2 = lifecycle_acts h calls l1 in
      case reply of
        Callback_True \<Rightarrow> l2
      | Callback_False e \<Rightarrow> lifecycle_fail h (map_option Lifecycle_Other e) l2)"

definition on_first_arm :: "'u lifecycle_hooks \<Rightarrow> a0_message \<Rightarrow> 'u lifecycle \<Rightarrow> 'u lifecycle" where
  "on_first_arm h m l =
     (if lc_irq80_rearm_pending l \<and> (lc_out_pending l \<or> lh_out_outstanding h (lc_user l) \<noteq> 0)
      then unexpected_a0 h (lc_phase l) m l
      else after_ack h m (\<lambda>l1.
        if lc_irq80_rearm_pending l1 then l1\<lparr>lc_irq80_rearm_pending := False, lc_phase := PT_FIRST_IRQ2\<rparr>
        else if lc_has_handoff l1 then
          if lc_out_pending l1 \<or> lh_out_outstanding h (lc_user l1) \<noteq> 0 \<or> \<not> lc_backend_callback_owned l1
          then unexpected_a0 h (lc_phase l) m l1
          else hand_off h l1
        else
          let l2 = l1\<lparr>lc_phase := PT_FIRST_IRQ2\<rparr> in
          if lc_has_login_ready l2 \<and> \<not> lc_login_authorized l2 then lifecycle_acts h (lh_login_ready h l2) l2 else l2) l)"

text \<open>An IRQ0080 at the first contact: a new table and one more arming.\<close>

definition on_irq80 :: "'u lifecycle_hooks \<Rightarrow> a0_message \<Rightarrow> bytes \<Rightarrow> 'u lifecycle \<Rightarrow> 'u lifecycle" where
  "on_irq80 h m raw l =
     (if lc_irq80_count l \<ge> 2 then lifecycle_refuse h POST_TLS_ERROR_PROTOCOL l
      else if lc_out_pending l then unexpected_a0 h (lc_phase l) m l
      else
        case fdt_derive_baseline_table raw 0 (replicate 12 0) of
          (False, down) \<Rightarrow> unexpected_a0 h (lc_phase l) m l
        | (True, down) \<Rightarrow>
            case lh_next_timestamp h of
              None \<Rightarrow> unexpected_a0 h (lc_phase l) m l
            | Some clock \<Rightarrow>
                let (t, u) = clock (lc_user l) in
                submit_or_fail h (submit_arm h False (l\<lparr>lc_current_fdt_table := down, lc_user := u,
                  lc_material := (lc_material l)\<lparr>lm_first_arm_timestamp := t\<rparr>,
                  lc_irq80_count := lc_irq80_count l + 1, lc_irq80_rearm_pending := True\<rparr>)))"

definition first_contact :: "'u lifecycle_hooks \<Rightarrow> a0_message \<Rightarrow> u16 \<Rightarrow> bytes \<Rightarrow> 'u lifecycle \<Rightarrow> 'u lifecycle" where
  "first_contact h m flags raw l =
     (let (ok, table) = fdt_derive_up_table raw flags 0x1d (lc_first_up_table l); l1 = l\<lparr>lc_first_up_table := table\<rparr> in
      if \<not> ok then unexpected_a0 h (lc_phase l) m l1
      else
        let l2 = audited (\<lambda>a. a\<lparr>pa_first_irq0002 := pa_first_irq0002 a + 1\<rparr>) (l1\<lparr>lc_irq80_count := 0\<rparr>);
            l3 = lifecycle_acts h (lh_finger_down h l2) l2
        in submit_or_fail h (submit_simple h 0x22 PT_FIRST_22
             (audited (\<lambda>a. a\<lparr>pa_first_image_command := pa_first_image_command a + 1\<rparr>) l3)))"

definition second_contact :: "'u lifecycle_hooks \<Rightarrow> 'u lifecycle \<Rightarrow> 'u lifecycle" where
  "second_contact h l =
     (let l1 = audited (\<lambda>a. a\<lparr>pa_second_irq0002 := pa_second_irq0002 a + 1,
            pa_second_image_command := pa_second_image_command a + 1\<rparr>) l;
          l2 = lifecycle_acts h (lh_finger_down h l1) l1
      in submit_or_fail h (submit_simple h 0x22 PT_SECOND_22 l2))"

definition on_irq2 :: "'u lifecycle_hooks \<Rightarrow> a0_message \<Rightarrow> 'u lifecycle \<Rightarrow> 'u lifecycle" where
  "on_irq2 h m l =
     (if lc_login_gate l \<and> \<not> lc_login_authorized l then lifecycle_fail h (Some (Lifecycle_Io IO_ERROR_CANCELLED)) l
      else
        case (if control m = 0x32 then event_fields m else None) of
          None \<Rightarrow> unexpected_a0 h (lc_phase l) m l
        | Some (irq, flags, raw) \<Rightarrow>
            if lc_phase l = PT_FIRST_IRQ2 \<and> irq = 0x0080 \<and> flags AND NOT FDT_TOUCH_MASK = 0 then on_irq80 h m raw l
            else if irq \<noteq> 0x0002 \<or> \<not> fdt_irq_flags_valid FINGER_DOWN flags then unexpected_a0 h (lc_phase l) m l
            else if lc_phase l = PT_FIRST_IRQ2 then first_contact h m flags raw l
            else second_contact h l)"

definition on_release_irq :: "'u lifecycle_hooks \<Rightarrow> a0_message \<Rightarrow> 'u lifecycle \<Rightarrow> 'u lifecycle" where
  "on_release_irq h m l =
     (case (if control m = 0x34 then event_fields m else None) of
        None \<Rightarrow> unexpected_a0 h (lc_phase l) m l
      | Some (irq, flags, raw) \<Rightarrow>
          if irq \<noteq> 0x0200 then unexpected_a0 h (lc_phase l) m l
          else
            let (ok, table) = fdt_derive_down_table raw flags (lc_fresh_down_table l);
                l1 = l\<lparr>lc_fresh_down_table := table\<rparr> in
            if \<not> ok then unexpected_a0 h (lc_phase l) m l1
            else submit_or_fail h (submit_simple h 0x20 PT_RELEASE_20
              (audited (\<lambda>a. a\<lparr>pa_irq0200 := pa_irq0200 a + 1, pa_fresh_down_table_count := pa_fresh_down_table_count a + 1,
                  pa_fresh_down_table := True, pa_post_up_0x20 := pa_post_up_0x20 a + 1\<rparr>)
                (l1\<lparr>lc_fresh_down_valid := True\<rparr>))))"

definition on_release_nav :: "'u lifecycle_hooks \<Rightarrow> a0_message \<Rightarrow> 'u lifecycle \<Rightarrow> 'u lifecycle" where
  "on_release_nav h m l =
     (if control m \<noteq> 0x50 \<or> length (body m) \<noteq> 2409 then unexpected_a0 h (lc_phase l) m l
      else
        let single = (lm_capture_profile (lc_material l) = PROFILE_SINGLE_ACQUISITION);
            l1 = audited (\<lambda>a. let a1 = a\<lparr>pa_nav_response := pa_nav_response a + 1,
                  pa_release_tail_complete := pa_release_tail_complete a + 1\<rparr> in
                if single then a1\<lparr>pa_single_acquisition_terminal := pa_single_acquisition_terminal a + 1\<rparr> else a1)
              (l\<lparr>lc_phase := (if single then PT_STOP else PT_REARM_GATE)\<rparr>);
            l2 = lifecycle_acts h (lh_release_tail h l1) l1;
            l3 = lifecycle_acts h (lh_finger_up h l2) l2
        in maybe_submit_rearm h l3)"

section \<open>Operations\<close>

definition lifecycle_message :: "'u lifecycle_hooks \<Rightarrow> a0_message \<Rightarrow> 'u lifecycle \<Rightarrow> 'u lifecycle" where
  "lifecycle_message h m l =
     (case lc_phase l of
        PT_D4 \<Rightarrow> on_d4 h m l
      | PT_AF \<Rightarrow> on_af h m l
      | PT_FDT36_1 \<Rightarrow> on_fdt36 h m l | PT_FDT36_2 \<Rightarrow> on_fdt36 h m l | PT_FDT36_3 \<Rightarrow> on_fdt36 h m l
      | PT_FDT_IRQ100_1 \<Rightarrow> on_fdt_irq100 h m l | PT_FDT_IRQ100_2 \<Rightarrow> on_fdt_irq100 h m l
      | PT_FDT_IRQ100_3 \<Rightarrow> on_fdt_irq100 h m l
      | PT_FDT_NAV_1 \<Rightarrow> on_fdt_nav h m l
      | PT_FDT_82 \<Rightarrow> on_fdt_82 h m l
      | PT_FDT_20 \<Rightarrow> on_ack_to h PT_FDT_B0 m l
      | PT_FIRST_ARM \<Rightarrow> on_first_arm h m l
      | PT_FIRST_IRQ2 \<Rightarrow> on_irq2 h m l | PT_SECOND_IRQ2 \<Rightarrow> on_irq2 h m l
      | PT_FIRST_22 \<Rightarrow> on_ack_to h PT_FIRST_B0 m l
      | PT_RELEASE_34 \<Rightarrow> on_ack_to h PT_RELEASE_IRQ200 m l
      | PT_RELEASE_IRQ200 \<Rightarrow> on_release_irq h m l
      | PT_RELEASE_20 \<Rightarrow> on_ack_to h PT_RELEASE_B0 m l
      | PT_RELEASE_50 \<Rightarrow> on_ack_to h PT_RELEASE_NAV m l
      | PT_RELEASE_NAV \<Rightarrow> on_release_nav h m l
      | PT_SECOND_ARM \<Rightarrow> on_ack_to h PT_SECOND_IRQ2 m l
      | PT_SECOND_22 \<Rightarrow> on_ack_to h PT_SECOND_B0 m l
      | _ \<Rightarrow> unexpected_a0 h (lc_phase l) m l)"

definition lifecycle_handle_a0 :: "'u lifecycle_hooks \<Rightarrow> bytes option \<Rightarrow> 'u lifecycle \<Rightarrow> 'u lifecycle" where
  "lifecycle_handle_a0 h frame l =
     (case frame of
        None \<Rightarrow> l
      | Some d \<Rightarrow>
          if lc_phase l = PT_TERMINAL \<or> lc_phase l = PT_STOP then l
          else if (lc_phase l = PT_FDT_NAV_1 \<and> lc_ack_seen l) \<or> lc_phase l = PT_RELEASE_NAV then
            case lifecycle_parse_nav d of
              None \<Rightarrow> lifecycle_refuse h POST_TLS_ERROR_PROTOCOL l
            | Some m \<Rightarrow> lifecycle_message h m l
          else case lifecycle_parse_message d of
              Inl e \<Rightarrow> lifecycle_fail h e l
            | Inr m \<Rightarrow> lifecycle_message h m l)"

text \<open>
  The decoder writes a local array of the caller through one of its own; neither is
  initialised, and their first contents do not reach the outcome.
\<close>

definition decoded_image :: "bytes \<Rightarrow> lifecycle_error + u16 list" where
  "decoded_image bs =
     (case image_decode_plaintext (replicate IMAGE_SAMPLES 0) (Some bs) (Some (replicate IMAGE_SAMPLES 0)) (Some audit_cleared) of
        (Accept, Some samples, audit) \<Rightarrow> Inr samples
      | (Accept, None, audit) \<Rightarrow> Inr []
      | (Reject e, samples, audit) \<Rightarrow> Inl (Lifecycle_Other e))"

definition baseline_image :: "'u lifecycle_hooks \<Rightarrow> u16 list \<Rightarrow> 'u lifecycle \<Rightarrow> 'u lifecycle" where
  "baseline_image h samples l =
     submit_or_fail h (submit_fdt36 h PT_FDT36_3
       (audited (\<lambda>a. a\<lparr>pa_baseline_b0 := pa_baseline_b0 a + 1, pa_baseline_decode := pa_baseline_decode a + 1\<rparr>)
         (l\<lparr>lc_baseline_samples := Some samples, lc_phase := PT_FDT36_3\<rparr>)))"

definition deliver_image ::
    "'u lifecycle_hooks \<Rightarrow> u32 \<Rightarrow> u16 list \<Rightarrow> ('u lifecycle \<Rightarrow> 'u lifecycle) \<Rightarrow> 'u lifecycle \<Rightarrow> 'u lifecycle" where
  "deliver_image h acquisition samples k l =
     (let (calls, reply) = lh_image h acquisition samples l; l1 = lifecycle_acts h calls l in
      case reply of Callback_True \<Rightarrow> k l1 | Callback_False e \<Rightarrow> lifecycle_fail h (map_option Lifecycle_Other e) l1)"

definition first_image :: "'u lifecycle_hooks \<Rightarrow> u16 list \<Rightarrow> 'u lifecycle \<Rightarrow> 'u lifecycle" where
  "first_image h samples l =
     deliver_image h (if lc_login_gate l then lc_login_attempts l else 1) samples
       (\<lambda>l1. submit_or_fail h (submit_command h 0x34 ([0x0a, 0x01] @ lc_first_up_table l1) PT_RELEASE_34
         (audited (\<lambda>a. a\<lparr>pa_first_image_pipeline := pa_first_image_pipeline a + 1, pa_release_0x34 := pa_release_0x34 a + 1\<rparr>) l1)))
       (audited (\<lambda>a. a\<lparr>pa_first_image_b0 := pa_first_image_b0 a + 1, pa_first_image_decode := pa_first_image_decode a + 1\<rparr>) l)"

definition second_image :: "'u lifecycle_hooks \<Rightarrow> u16 list \<Rightarrow> 'u lifecycle \<Rightarrow> 'u lifecycle" where
  "second_image h samples l =
     deliver_image h 2 samples
       (\<lambda>l1. (audited (\<lambda>a. a\<lparr>pa_second_image_pipeline := pa_second_image_pipeline a + 1\<rparr>) l1)\<lparr>lc_phase := PT_STOP\<rparr>)
       (audited (\<lambda>a. a\<lparr>pa_second_b0 := pa_second_b0 a + 1, pa_second_image_decode := pa_second_image_decode a + 1\<rparr>) l)"

definition lifecycle_handle_plaintext :: "'u lifecycle_hooks \<Rightarrow> bytes option \<Rightarrow> 'u lifecycle \<Rightarrow> 'u lifecycle" where
  "lifecycle_handle_plaintext h plaintext l =
     (case plaintext of
        None \<Rightarrow> l
      | Some chunk \<Rightarrow>
          if lc_phase l = PT_TERMINAL \<or> lc_phase l = PT_STOP then l
          else if lc_phase l = PT_RELEASE_B0 then
            submit_or_fail h (submit_simple h 0x50 PT_RELEASE_50
              (audited (\<lambda>a. a\<lparr>pa_post_up_b0 := pa_post_up_b0 a + 1, pa_nav_0x50 := pa_nav_0x50 a + 1\<rparr>) l))
          else if lc_phase l \<noteq> PT_FDT_B0 \<and> lc_phase l \<noteq> PT_FIRST_B0 \<and> lc_phase l \<noteq> PT_SECOND_B0
          then lifecycle_refuse h POST_TLS_ERROR_PROTOCOL l
          else if length chunk > PLAINTEXT_LENGTH \<or> length (lc_plaintext_pending l) > PLAINTEXT_LENGTH - length chunk
          then lifecycle_refuse h POST_TLS_ERROR_IMAGE l
          else
            let pending = lc_plaintext_pending l @ chunk; l1 = l\<lparr>lc_plaintext_pending := pending\<rparr> in
            if length pending < 3 then l1
            else
              let expected = unat (le16 (pending ! 1) (pending ! 2)) + 3 in
              if expected \<noteq> PLAINTEXT_LENGTH \<or> length pending > expected then lifecycle_refuse h POST_TLS_ERROR_IMAGE l1
              else if length pending < expected then l1
              else
                let l2 = l1\<lparr>lc_plaintext_pending := []\<rparr> in
                case decoded_image pending of
                  Inl e \<Rightarrow> lifecycle_fail h (Some e) l2
                | Inr samples \<Rightarrow>
                    if lc_phase l2 = PT_FDT_B0 then baseline_image h samples l2
                    else if lc_phase l2 = PT_FIRST_B0 then first_image h samples l2
                    else second_image h samples l2)"

definition lifecycle_out_complete :: "'u lifecycle_hooks \<Rightarrow> u64 \<Rightarrow> gerror option \<Rightarrow> 'u lifecycle \<Rightarrow> 'u lifecycle" where
  "lifecycle_out_complete h generation error l =
     (if generation \<noteq> lc_generation l \<or> \<not> lc_out_pending l \<or> lc_phase l = PT_TERMINAL then l
      else
        let l1 = l\<lparr>lc_out_pending := False\<rparr> in
        case error of None \<Rightarrow> l1 | Some e \<Rightarrow> lifecycle_fail h (Some (Lifecycle_Other e)) l1)"

text \<open>The phases of the initialisation, the only ones with a deadline.\<close>

definition fdt_initialization_phases :: "post_tls_phase list" where
  "fdt_initialization_phases = [PT_D4, PT_AF, PT_FDT36_1, PT_FDT_IRQ100_1, PT_FDT_NAV_1, PT_FDT36_2, PT_FDT_IRQ100_2,
     PT_FDT_82, PT_FDT_20, PT_FDT_B0, PT_FDT36_3, PT_FDT_IRQ100_3]"

definition lifecycle_timeout :: "'u lifecycle_hooks \<Rightarrow> 'u lifecycle \<Rightarrow> 'u lifecycle" where
  "lifecycle_timeout h l =
     (if lc_phase l \<notin> set fdt_initialization_phases \<or> lc_learned_fdt_table l \<noteq> None then l
      else lifecycle_fail h (Some (Lifecycle_Io IO_ERROR_TIMED_OUT))
        (audited (\<lambda>a. a\<lparr>pa_fdt_timeout := pa_fdt_timeout a + 1\<rparr>) l))"

definition lifecycle_start :: "'u lifecycle_hooks \<Rightarrow> 'u lifecycle \<Rightarrow> lifecycle_error reply \<times> 'u lifecycle" where
  "lifecycle_start h l =
     (if lc_phase l \<noteq> PT_NOT_STARTED then (Reject (Lifecycle_Error POST_TLS_ERROR_STATE), l)
      else submit_command h 0xd4 [0x00, 0x00] PT_D4
        (audited (\<lambda>a. a\<lparr>pa_started := True, pa_d4 := pa_d4 a + 1\<rparr>) (l\<lparr>lc_backend_callback_owned := True\<rparr>)))"

definition set_first_arm_handoff :: "'u lifecycle \<Rightarrow> lifecycle_error reply \<times> 'u lifecycle" where
  "set_first_arm_handoff l =
     (if lc_phase l \<noteq> PT_NOT_STARTED \<or> lc_has_handoff l then (Reject (Lifecycle_Error POST_TLS_ERROR_STATE), l)
      else (Accept, l\<lparr>lc_has_handoff := True\<rparr>))"

definition prepare_login :: "'u lifecycle \<Rightarrow> 'u lifecycle" where
  "prepare_login l =
     (if lc_phase l \<noteq> PT_NOT_STARTED then l else l\<lparr>lc_login_gate := True, lc_has_login_ready := True\<rparr>)"

definition next_login :: "'u lifecycle_hooks \<Rightarrow> u16 \<Rightarrow> 'u lifecycle \<Rightarrow> lifecycle_error reply \<times> 'u lifecycle" where
  "next_login h timestamp l =
     (if \<not> lc_login_gate l \<or> \<not> lc_login_authorized l \<or> lc_login_attempts l \<ge> 3 \<or> lc_phase l \<noteq> PT_STOP \<or>
         \<not> lc_fresh_down_valid l \<or> lm_capture_profile (lc_material l) \<noteq> PROFILE_SINGLE_ACQUISITION \<or>
         \<not> lh_is_drained h (lc_user l)
      then (Reject (Lifecycle_Io IO_ERROR_CLOSED), l)
      else submit_arm h False (audited (\<lambda>a. a\<lparr>pa_rearm_0x32 := pa_rearm_0x32 a + 1\<rparr>)
        (l\<lparr>lc_login_attempts := lc_login_attempts l + 1, lc_irq80_count := 0,
           lc_current_fdt_table := lc_fresh_down_table l, lc_fresh_down_valid := False,
           lc_material := (lc_material l)\<lparr>lm_first_arm_timestamp := timestamp\<rparr>, lc_phase := PT_REARM_GATE\<rparr>)))"

definition lifecycle_new :: "u64 \<Rightarrow> lifecycle_material option \<Rightarrow> 'u \<Rightarrow> lifecycle_error + 'u lifecycle" where
  "lifecycle_new generation material u =
     (case material of
        None \<Rightarrow> Inl (Lifecycle_Error POST_TLS_ERROR_ARGUMENT)
      | Some m \<Rightarrow>
          if generation = 0 then Inl (Lifecycle_Error POST_TLS_ERROR_ARGUMENT)
          else if lm_fdt_seed_mode m = FDT_SEED_ABSENT_ZERO \<and> list_ex (\<lambda>i. lm_initial_fdt_table m ! i \<noteq> 0) [0..<12]
          then Inl (Lifecycle_Error POST_TLS_ERROR_ARGUMENT)
          else Inr \<lparr>lc_generation = generation, lc_material = m, lc_phase = PT_NOT_STARTED, lc_has_login_ready = False,
            lc_login_gate = False, lc_login_authorized = False, lc_login_attempts = 0, lc_irq80_count = 0,
            lc_irq80_rearm_pending = False, lc_has_handoff = False,
            lc_audit = lifecycle_audit_zero generation (lm_fdt_seed_mode m = FDT_SEED_ABSENT_ZERO), lc_error = None,
            lc_out_pending = False, lc_backend_callback_owned = False, lc_expected_ack = 0, lc_ack_seen = False,
            lc_framework_await = False, lc_rearm_submitted = False, lc_fresh_down_valid = False,
            lc_current_fdt_table = (if lm_fdt_seed_mode m = FDT_SEED_PROVIDED then lm_initial_fdt_table m
              else replicate 12 0),
            lc_learned_fdt_table = None, lc_first_up_table = replicate 12 0, lc_fresh_down_table = replicate 12 0,
            lc_fdt_raw = [], lc_fdt_threshold = None, lc_fdt_delta_classified = False, lc_baseline_samples = None,
            lc_plaintext_pending = [], lc_user = u\<rparr>)"

definition lifecycle_needs_receive :: "'u lifecycle \<Rightarrow> bool" where
  "lifecycle_needs_receive l \<longleftrightarrow> lc_phase l \<noteq> PT_NOT_STARTED \<and> lc_phase l \<noteq> PT_STOP \<and> lc_phase l \<noteq> PT_TERMINAL"

definition copy_learned_fdt :: "'u lifecycle \<Rightarrow> bytes option" where
  "copy_learned_fdt l = (if length (lc_fdt_raw l) \<noteq> 3 then None else lc_learned_fdt_table l)"

text \<open>
  The calls on a lifecycle. A completion is reported while the backend's callback is the
  lifecycle's.
\<close>

datatype lifecycle_call =
    Call_Start | Call_Out u64 "gerror option" | Call_A0 "bytes option" | Call_Plaintext "bytes option"
  | Call_Await u64 bool | Call_Cancel | Call_Timeout | Call_Set_Handoff | Call_Prepare_Login | Call_Authorize
  | Call_Next_Login u16

fun lifecycle_step :: "'u lifecycle_hooks \<Rightarrow> (lifecycle_call, lifecycle_error, 'u lifecycle) machine" where
  "lifecycle_step h Call_Start l = lifecycle_start h l"
| "lifecycle_step h (Call_Out g e) l = (Accept, if lc_backend_callback_owned l then lifecycle_out_complete h g e l else l)"
| "lifecycle_step h (Call_A0 frame) l = (Accept, lifecycle_handle_a0 h frame l)"
| "lifecycle_step h (Call_Plaintext chunk) l = (Accept, lifecycle_handle_plaintext h chunk l)"
| "lifecycle_step h (Call_Await g awaiting) l = (Accept, set_framework_await_finger_on h g awaiting l)"
| "lifecycle_step h Call_Cancel l = (Accept, lifecycle_cancel h l)"
| "lifecycle_step h Call_Timeout l = (Accept, lifecycle_timeout h l)"
| "lifecycle_step h Call_Set_Handoff l = set_first_arm_handoff l"
| "lifecycle_step h Call_Prepare_Login l = (Accept, prepare_login l)"
| "lifecycle_step h Call_Authorize l = (Accept, snd (authorize_login l))"
| "lifecycle_step h (Call_Next_Login t) l = next_login h t l"

end
