(* ===== verification/Post_Tls_Order.thy ===== *)
theory Post_Tls_Order
  imports Post_Tls_Lifecycle
begin

text \<open>
  What every reachable state of the lifecycle after TLS satisfies: the counts of image
  commands against the attempts the login gate allowed, and the samples behind the learned
  finger-detection table.
\<close>

section \<open>What the state satisfies\<close>

text \<open>The phases before the first image command.\<close>

definition awaiting_phases :: "post_tls_phase set" where
  "awaiting_phases = {PT_NOT_STARTED, PT_D4, PT_AF, PT_FDT36_1, PT_FDT_IRQ100_1, PT_FDT_NAV_1, PT_FDT36_2, PT_FDT_IRQ100_2,
     PT_FDT_82, PT_FDT_20, PT_FDT_B0, PT_FDT36_3, PT_FDT_IRQ100_3, PT_FIRST_ARM, PT_FIRST_IRQ2}"

definition agree :: "u8 option \<Rightarrow> u16 list list \<Rightarrow> nat \<Rightarrow> bool" where
  "agree th raw i \<longleftrightarrow> (\<exists>t. th = Some t \<and> samples_within t (raw ! i) (raw ! Suc i))"

definition baseline_of :: "u16 list \<Rightarrow> bytes \<Rightarrow> bool" where
  "baseline_of ws table \<longleftrightarrow> length table = 12 \<and>
     (\<forall>i < 6. table ! (i * 2) = 0x80 \<and> table ! (i * 2 + 1) = ucast (drop_bit 1 (ws ! i) AND 0xff) \<and>
        table ! (i * 2 + 1) \<notin> {0, 0xff})"

definition learned_from :: "'u lifecycle \<Rightarrow> bytes \<Rightarrow> bool" where
  "learned_from l table \<longleftrightarrow> length (lc_fdt_raw l) = 3 \<and> agree (lc_fdt_threshold l) (lc_fdt_raw l) 0 \<and>
     agree (lc_fdt_threshold l) (lc_fdt_raw l) 1 \<and> baseline_of (lc_fdt_raw l ! 2) table"

abbreviation commands :: "'u lifecycle \<Rightarrow> u32" where
  "commands l \<equiv> pa_first_image_command (lc_audit l)"

abbreviation images :: "'u lifecycle \<Rightarrow> u32" where
  "images l \<equiv> pa_first_image_b0 (lc_audit l)"

abbreviation second_commands :: "'u lifecycle \<Rightarrow> u32" where
  "second_commands l \<equiv> pa_second_image_command (lc_audit l)"

abbreviation second_images :: "'u lifecycle \<Rightarrow> u32" where
  "second_images l \<equiv> pa_second_b0 (lc_audit l)"

abbreviation single :: "'u lifecycle \<Rightarrow> bool" where
  "single l \<equiv> lm_capture_profile (lc_material l) = PROFILE_SINGLE_ACQUISITION"

text \<open>What holds in every phase, and what depends on the phase.\<close>

definition core :: "'u lifecycle \<Rightarrow> bool" where
  "core l \<longleftrightarrow> length (lc_current_fdt_table l) = 12 \<and> length (lc_fresh_down_table l) = 12 \<and> lc_login_attempts l \<le> 3 \<and>
     commands l \<le> 3 \<and> images l \<le> commands l \<and>
     (lc_login_authorized l \<longrightarrow> lc_login_gate l) \<and> (\<not> lc_login_authorized l \<longrightarrow> lc_login_attempts l = 0) \<and>
     (lc_login_gate l \<longrightarrow> commands l \<le> lc_login_attempts l) \<and> (\<not> lc_login_gate l \<longrightarrow> commands l \<le> 1) \<and>
     second_images l \<le> second_commands l \<and> second_commands l \<le> 1 \<and> (single l \<longrightarrow> second_commands l = 0) \<and>
     (lc_login_gate l \<and> \<not> lc_login_authorized l \<longrightarrow> second_commands l = 0) \<and>
     (\<forall>t. lc_learned_fdt_table l = Some t \<longrightarrow> learned_from l t)"

definition may_command :: "'u lifecycle \<Rightarrow> bool" where
  "may_command l \<longleftrightarrow> (if lc_login_gate l then lc_login_authorized l \<longrightarrow> commands l < lc_login_attempts l else commands l = 0)"

definition phased :: "post_tls_phase \<Rightarrow> 'u lifecycle \<Rightarrow> bool" where
  "phased p l \<longleftrightarrow>
     (p \<in> awaiting_phases \<longrightarrow> may_command l) \<and>
     (p \<in> {PT_FIRST_22, PT_FIRST_B0} \<longrightarrow> images l < commands l) \<and>
     (lc_login_gate l \<and> \<not> lc_login_authorized l \<longrightarrow> p \<in> awaiting_phases \<or> p = PT_STOP \<or> p = PT_TERMINAL) \<and>
     (p \<in> {PT_NOT_STARTED, PT_D4, PT_AF, PT_FDT36_1, PT_FDT_IRQ100_1} \<longrightarrow> lc_fdt_raw l = [] \<and> lc_learned_fdt_table l = None) \<and>
     (p \<in> {PT_FDT_NAV_1, PT_FDT36_2, PT_FDT_IRQ100_2} \<longrightarrow> length (lc_fdt_raw l) = 1 \<and> lc_learned_fdt_table l = None) \<and>
     (p = PT_FDT_82 \<longrightarrow> length (lc_fdt_raw l) = 2 \<and> lc_learned_fdt_table l = None) \<and>
     (p \<in> {PT_FDT_20, PT_FDT_B0, PT_FDT36_3, PT_FDT_IRQ100_3} \<longrightarrow>
        length (lc_fdt_raw l) = 2 \<and> agree (lc_fdt_threshold l) (lc_fdt_raw l) 0 \<and> lc_learned_fdt_table l = None) \<and>
     (p \<notin> {PT_SECOND_22, PT_SECOND_B0, PT_STOP, PT_TERMINAL} \<longrightarrow> second_commands l = 0) \<and>
     (p \<in> {PT_SECOND_22, PT_SECOND_B0} \<longrightarrow> second_images l < second_commands l) \<and>
     (single l \<longrightarrow> p \<notin> {PT_SECOND_ARM, PT_SECOND_IRQ2, PT_SECOND_22, PT_SECOND_B0} \<and>
        (p = PT_REARM_GATE \<longrightarrow> \<not> lc_fresh_down_valid l))"

definition lifecycle_inv :: "'u lifecycle \<Rightarrow> bool" where
  "lifecycle_inv l \<longleftrightarrow> core l \<and> phased (lc_phase l) l"

text \<open>Two states that agree on everything these speak of.\<close>

definition same_ledger :: "'u lifecycle \<Rightarrow> 'u lifecycle \<Rightarrow> bool" where
  "same_ledger l l1 \<longleftrightarrow> lc_login_gate l1 = lc_login_gate l \<and> lc_login_authorized l1 = lc_login_authorized l \<and>
     lc_login_attempts l1 = lc_login_attempts l \<and> lc_current_fdt_table l1 = lc_current_fdt_table l \<and>
     lc_fresh_down_table l1 = lc_fresh_down_table l \<and>
     lc_fdt_raw l1 = lc_fdt_raw l \<and> lc_fdt_threshold l1 = lc_fdt_threshold l \<and> commands l1 = commands l \<and> images l1 = images l \<and>
     second_commands l1 = second_commands l \<and> second_images l1 = second_images l \<and>
     lm_capture_profile (lc_material l1) = lm_capture_profile (lc_material l) \<and>
     (lc_fresh_down_valid l1 \<longrightarrow> lc_fresh_down_valid l)"

lemma same_ledger_core:
  assumes "same_ledger l l1" "lc_learned_fdt_table l1 = lc_learned_fdt_table l \<or> lc_learned_fdt_table l1 = None" "core l"
  shows "core l1"
proof -
  have "learned_from l1 t = learned_from l t" for t using assms(1) by (simp add: same_ledger_def learned_from_def)
  then show ?thesis using assms unfolding core_def by (elim disjE) (simp_all add: same_ledger_def)
qed

lemma same_ledger_phased:
  assumes "same_ledger l l1" "lc_learned_fdt_table l1 = lc_learned_fdt_table l" "phased p l"
  shows "phased p l1"
proof (cases "lc_fresh_down_valid l1 = lc_fresh_down_valid l")
  case True
  then show ?thesis using assms by (simp add: same_ledger_def phased_def may_command_def)
next
  case False
  then have "\<not> lc_fresh_down_valid l1" using assms(1) by (simp add: same_ledger_def)
  then show ?thesis using assms by (simp add: same_ledger_def phased_def may_command_def)
qed

lemma audited_fields [simp]:
  "lc_phase (audited f l) = lc_phase l" "lc_audit (audited f l) = f (lc_audit l)" "lc_material (audited f l) = lc_material l"
  "lc_login_gate (audited f l) = lc_login_gate l" "lc_login_authorized (audited f l) = lc_login_authorized l"
  "lc_login_attempts (audited f l) = lc_login_attempts l" "lc_current_fdt_table (audited f l) = lc_current_fdt_table l"
  "lc_fresh_down_table (audited f l) = lc_fresh_down_table l" "lc_first_up_table (audited f l) = lc_first_up_table l"
  "lc_fdt_raw (audited f l) = lc_fdt_raw l" "lc_fdt_threshold (audited f l) = lc_fdt_threshold l"
  "lc_learned_fdt_table (audited f l) = lc_learned_fdt_table l" "lc_out_pending (audited f l) = lc_out_pending l"
  "lc_user (audited f l) = lc_user l" "lc_generation (audited f l) = lc_generation l" "lc_error (audited f l) = lc_error l"
  "lc_ack_seen (audited f l) = lc_ack_seen l" "lc_expected_ack (audited f l) = lc_expected_ack l"
  "lc_irq80_rearm_pending (audited f l) = lc_irq80_rearm_pending l" "lc_has_handoff (audited f l) = lc_has_handoff l"
  "lc_backend_callback_owned (audited f l) = lc_backend_callback_owned l"
  "lc_fresh_down_valid (audited f l) = lc_fresh_down_valid l" "lc_plaintext_pending (audited f l) = lc_plaintext_pending l"
  "lc_fdt_delta_classified (audited f l) = lc_fdt_delta_classified l" "lc_baseline_samples (audited f l) = lc_baseline_samples l"
  "lc_framework_await (audited f l) = lc_framework_await l" "lc_rearm_submitted (audited f l) = lc_rearm_submitted l"
  "lc_has_login_ready (audited f l) = lc_has_login_ready l" "lc_irq80_count (audited f l) = lc_irq80_count l"
  by (simp_all add: audited_def)

section \<open>Failure and submission\<close>

lemma fail_phase [simp]: "lc_phase (lifecycle_fail h e l) = PT_TERMINAL" "lc_phase (lifecycle_refuse h e' l) = PT_TERMINAL"
  by (simp_all add: lifecycle_refuse_def lifecycle_fail_def Let_def)

lemma fail_ledger: "same_ledger l (lifecycle_fail h e l)"
  by (simp add: same_ledger_def lifecycle_fail_def Let_def)

lemma fail_learned: "lc_learned_fdt_table (lifecycle_fail h e l) = lc_learned_fdt_table l \<or> lc_learned_fdt_table (lifecycle_fail h e l) = None"
  by (simp add: lifecycle_fail_def Let_def)

lemma phased_terminal [simp]: "phased PT_TERMINAL l"
  by (simp add: phased_def awaiting_phases_def)

lemma lifecycle_fail_inv [intro]: "core l \<Longrightarrow> lifecycle_inv (lifecycle_fail h e l)"
  using same_ledger_core [OF fail_ledger fail_learned] by (simp add: lifecycle_inv_def)

lemma refuse_inv [intro]: "core l \<Longrightarrow> lifecycle_inv (lifecycle_refuse h e l)"
  by (simp add: lifecycle_refuse_def lifecycle_fail_inv)

lemma core_audited:
  "(\<And>a. pa_first_image_command (f a) = pa_first_image_command a \<and> pa_first_image_b0 (f a) = pa_first_image_b0 a \<and>
      pa_second_image_command (f a) = pa_second_image_command a \<and> pa_second_b0 (f a) = pa_second_b0 a) \<Longrightarrow>
   core (audited f l) = core l"
  by (simp add: core_def learned_from_def)

lemma phased_audited:
  "(\<And>a. pa_first_image_command (f a) = pa_first_image_command a \<and> pa_first_image_b0 (f a) = pa_first_image_b0 a \<and>
      pa_second_image_command (f a) = pa_second_image_command a \<and> pa_second_b0 (f a) = pa_second_b0 a) \<Longrightarrow>
   phased p (audited f l) = phased p l"
  by (simp add: phased_def may_command_def)

lemma unexpected_inv [intro]: "core l \<Longrightarrow> lifecycle_inv (unexpected_a0 h p m l)"
  by (auto simp: unexpected_a0_def Let_def core_audited)

lemma same_ledger_trans: "same_ledger l l1 \<Longrightarrow> same_ledger l1 l2 \<Longrightarrow> same_ledger l l2"
  by (simp add: same_ledger_def)

lemma submit_fail_cases:
  assumes "same_ledger l l1" "lc_learned_fdt_table l1 = lc_learned_fdt_table l"
  shows "same_ledger l (lifecycle_fail h e l1)"
    "lc_learned_fdt_table (lifecycle_fail h e l1) = lc_learned_fdt_table l \<or> lc_learned_fdt_table (lifecycle_fail h e l1) = None"
  using same_ledger_trans [OF assms(1) fail_ledger] fail_learned [of h e l1] assms(2) by auto

lemma submit_cases:
  obtains (failed) "lc_phase (submit_or_fail h (submit_command h c bs next l)) = PT_TERMINAL"
      "same_ledger l (submit_or_fail h (submit_command h c bs next l))"
      "lc_learned_fdt_table (submit_or_fail h (submit_command h c bs next l)) = lc_learned_fdt_table l \<or>
       lc_learned_fdt_table (submit_or_fail h (submit_command h c bs next l)) = None"
  | (sent) "lc_phase l \<noteq> PT_TERMINAL" "lc_phase l \<noteq> PT_STOP" "lc_phase (submit_or_fail h (submit_command h c bs next l)) = next"
      "same_ledger l (submit_or_fail h (submit_command h c bs next l))"
      "lc_learned_fdt_table (submit_or_fail h (submit_command h c bs next l)) = lc_learned_fdt_table l"
proof (cases "lc_out_pending l \<or> lc_phase l = PT_TERMINAL \<or> lc_phase l = PT_STOP")
  case True
  then have "submit_or_fail h (submit_command h c bs next l) = lifecycle_fail h (Some (Lifecycle_Error POST_TLS_ERROR_STATE)) l"
    by (auto simp: submit_command_def submit_or_fail_def)
  then show ?thesis using fail_ledger fail_learned by (intro failed) simp_all
next
  case unsent: False
  show ?thesis
  proof (cases "fixed64_command c bs")
    case (Inl e)
    then have "submit_or_fail h (submit_command h c bs next l) = lifecycle_fail h (Some e) l"
      using unsent by (simp add: submit_command_def submit_or_fail_def)
    then show ?thesis using fail_ledger fail_learned by (intro failed) simp_all
  next
    case (Inr frame)
    define l1 where "l1 = audited (\<lambda>a. a\<lparr>pa_command := pa_command a + 1\<rparr>)
      (l\<lparr>lc_phase := next, lc_expected_ack := c, lc_ack_seen := False, lc_out_pending := True\<rparr>)"
    obtain r u where ru: "lh_submit h (lc_generation l1) frame (lc_user l1) = (r, u)" by (metis surj_pair)
    have step: "submit_command h c bs next l = (case r of Accept \<Rightarrow> (Accept, l1\<lparr>lc_user := u\<rparr>)
        | Reject e \<Rightarrow> (Reject (Lifecycle_Other e), l1\<lparr>lc_user := u, lc_out_pending := False\<rparr>))"
      using unsent Inr ru unfolding submit_command_def l1_def by (simp add: Let_def)
    have l1: "same_ledger l (l1\<lparr>lc_user := u\<rparr>)" "lc_learned_fdt_table l1 = lc_learned_fdt_table l" "lc_phase l1 = next"
      by (simp_all add: l1_def same_ledger_def)
    show ?thesis
    proof (cases r)
      case Accept
      with step l1 unsent show ?thesis by (intro sent) (simp_all add: submit_or_fail_def)
    next
      case (Reject e)
      define l2 where "l2 = l1\<lparr>lc_user := u, lc_out_pending := False\<rparr>"
      have eq: "submit_or_fail h (submit_command h c bs next l) = lifecycle_fail h (Some (Lifecycle_Other e)) l2"
        using step Reject by (simp add: submit_or_fail_def l2_def)
      have "same_ledger l l2" "lc_learned_fdt_table l2 = lc_learned_fdt_table l"
        using l1 by (simp_all add: l2_def same_ledger_def)
      then show ?thesis using submit_fail_cases eq by (intro failed) simp_all
    qed
  qed
qed

lemma command_inv:
  assumes "core l" "lc_phase l \<noteq> PT_TERMINAL \<Longrightarrow> lc_phase l \<noteq> PT_STOP \<Longrightarrow> phased next l"
  shows "lifecycle_inv (submit_or_fail h (submit_command h c bs next l))"
proof (cases rule: submit_cases [of h c bs "next" l])
  case failed
  with assms(1) same_ledger_core show ?thesis by (auto simp: lifecycle_inv_def)
next
  case sent
  then show ?thesis
    using assms same_ledger_core [OF sent(4)] same_ledger_phased [OF sent(4,5)] by (simp add: lifecycle_inv_def)
qed

lemma submit_simple_inv:
  assumes "core l" "lc_phase l \<noteq> PT_TERMINAL \<Longrightarrow> lc_phase l \<noteq> PT_STOP \<Longrightarrow> phased next l"
  shows "lifecycle_inv (submit_or_fail h (submit_simple h c next l))"
  using assms by (simp add: submit_simple_def command_inv)

lemma submit_fdt36_inv:
  assumes "core l" "lc_phase l \<noteq> PT_TERMINAL \<Longrightarrow> lc_phase l \<noteq> PT_STOP \<Longrightarrow> phased next l"
  shows "lifecycle_inv (submit_or_fail h (submit_fdt36 h next l))"
  unfolding submit_fdt36_def by (rule command_inv) (use assms in \<open>simp_all add: core_audited phased_audited\<close>)

lemma submit_arm_inv:
  assumes "core l" "lc_phase l \<noteq> PT_TERMINAL \<Longrightarrow> lc_phase l \<noteq> PT_STOP \<Longrightarrow> phased (if second then PT_SECOND_ARM else PT_FIRST_ARM) l"
  shows "lifecycle_inv (submit_or_fail h (submit_arm h second l))"
  unfolding submit_arm_def Let_def
  by (rule command_inv) (use assms in \<open>cases second; simp add: core_audited phased_audited\<close>)+

section \<open>Callbacks\<close>

text \<open>What the calls of a callback may change.\<close>

definition acted :: "'u lifecycle \<Rightarrow> 'u lifecycle \<Rightarrow> bool" where
  "acted l l1 \<longleftrightarrow> lc_login_gate l1 = lc_login_gate l \<and> lc_fdt_raw l1 = lc_fdt_raw l \<and> commands l1 = commands l \<and>
     images l1 = images l \<and> second_commands l1 = second_commands l \<and> second_images l1 = second_images l \<and>
     lm_capture_profile (lc_material l1) = lm_capture_profile (lc_material l) \<and> (lc_login_authorized l \<or> lc_phase l \<noteq> PT_FIRST_IRQ2 \<longrightarrow>
       lc_login_authorized l1 = lc_login_authorized l \<and> lc_login_attempts l1 = lc_login_attempts l) \<and>
     (lc_phase l1 = lc_phase l \<or> lc_phase l1 = PT_TERMINAL \<or> lc_phase l = PT_REARM_GATE \<and> lc_phase l1 = PT_SECOND_ARM)"

lemma same_ledger_acted:
  "same_ledger l l1 \<Longrightarrow> lc_phase l1 = lc_phase l \<or> lc_phase l1 = PT_TERMINAL \<or> lc_phase l = PT_REARM_GATE \<and> lc_phase l1 = PT_SECOND_ARM \<Longrightarrow>
   acted l l1"
  by (simp add: same_ledger_def acted_def)

definition quiet_move :: "'u lifecycle \<Rightarrow> 'u lifecycle \<Rightarrow> bool" where
  "quiet_move l l1 \<longleftrightarrow> same_ledger l l1 \<and>
     (lc_phase l1 = lc_phase l \<or> lc_phase l1 = PT_TERMINAL \<or>
        lc_phase l = PT_REARM_GATE \<and> lc_phase l1 = PT_SECOND_ARM \<and> lc_fresh_down_valid l) \<and>
     (lc_learned_fdt_table l1 = lc_learned_fdt_table l \<or> lc_learned_fdt_table l1 = None \<and> lc_phase l1 = PT_TERMINAL)"

lemma quiet_move_acted: "quiet_move l l1 \<Longrightarrow> acted l l1"
  by (auto simp: quiet_move_def intro: same_ledger_acted)

lemma phased_rearm: "phased PT_REARM_GATE l \<Longrightarrow> lc_fresh_down_valid l \<Longrightarrow> phased PT_SECOND_ARM l"
  by (simp add: phased_def awaiting_phases_def)

lemma quiet_move_inv:
  assumes "quiet_move l l1"
  shows "core l \<Longrightarrow> core l1" "lifecycle_inv l \<Longrightarrow> lifecycle_inv l1"
proof -
  have q: "same_ledger l l1" "lc_learned_fdt_table l1 = lc_learned_fdt_table l \<or> lc_learned_fdt_table l1 = None"
    using assms by (auto simp: quiet_move_def)
  then show core: "core l \<Longrightarrow> core l1" by (rule same_ledger_core)
  show "lifecycle_inv l \<Longrightarrow> lifecycle_inv l1"
  proof (cases "lc_phase l1 = PT_TERMINAL")
    case True
    then show "lifecycle_inv l \<Longrightarrow> lifecycle_inv l1" using core by (simp add: lifecycle_inv_def)
  next
    case False
    then have "lc_learned_fdt_table l1 = lc_learned_fdt_table l" using assms by (auto simp: quiet_move_def)
    note moved = same_ledger_phased [OF q(1) this]
    assume inv: "lifecycle_inv l"
    have "phased (lc_phase l1) l"
      using False assms inv phased_rearm [of l] by (auto simp: lifecycle_inv_def quiet_move_def)
    with moved core inv show "lifecycle_inv l1" by (simp add: lifecycle_inv_def)
  qed
qed

lemma fail_quiet: "quiet_move l (lifecycle_fail h e l)"
  using fail_learned [of h e l] by (simp add: quiet_move_def fail_ledger)

lemma rearm_quiet: "quiet_move l (maybe_submit_rearm h l)"
proof -
  define l1 where "l1 = audited (\<lambda>a. a\<lparr>pa_rearm_0x32 := pa_rearm_0x32 a + 1\<rparr>) (l\<lparr>lc_rearm_submitted := True\<rparr>)"
  have l1: "same_ledger l l1" "lc_learned_fdt_table l1 = lc_learned_fdt_table l" by (simp_all add: l1_def same_ledger_def)
  have "maybe_submit_rearm h l = l \<or> lc_phase l = PT_REARM_GATE \<and> lc_fresh_down_valid l \<and>
      (\<exists>c bs. maybe_submit_rearm h l = submit_or_fail h (submit_command h c bs PT_SECOND_ARM l1))"
    unfolding maybe_submit_rearm_def submit_arm_def Let_def l1_def by auto
  then consider "maybe_submit_rearm h l = l" | c bs where "lc_phase l = PT_REARM_GATE" "lc_fresh_down_valid l"
      "maybe_submit_rearm h l = submit_or_fail h (submit_command h c bs PT_SECOND_ARM l1)" by blast
  then show ?thesis
  proof cases
    case 1
    then show ?thesis by (simp add: quiet_move_def same_ledger_def)
  next
    case 2
    then show ?thesis
      by (cases rule: submit_cases [of h c bs PT_SECOND_ARM l1])
        (use same_ledger_trans [OF l1(1)] l1(2) in \<open>auto simp: quiet_move_def\<close>)
  qed
qed

lemma quiet_move_trans: "quiet_move l l1 \<Longrightarrow> quiet_move l1 l2 \<Longrightarrow> lc_phase l1 = lc_phase l \<Longrightarrow> quiet_move l l2"
  by (auto simp: quiet_move_def same_ledger_def)

lemma await_quiet: "quiet_move l (set_framework_await_finger_on h g awaiting l)"
proof -
  define l1 where "l1 = (let l1 = l\<lparr>lc_framework_await := awaiting\<rparr> in
    if awaiting then audited (\<lambda>a. a\<lparr>pa_framework_rearm_gate_seen := True\<rparr>) l1 else l1)"
  have "quiet_move l l1" "lc_phase l1 = lc_phase l" by (simp_all add: l1_def Let_def quiet_move_def same_ledger_def)
  then have "quiet_move l (maybe_submit_rearm h l1)" using quiet_move_trans rearm_quiet by blast
  moreover have "quiet_move l l" by (simp add: quiet_move_def same_ledger_def)
  ultimately show ?thesis unfolding set_framework_await_finger_on_def l1_def by (simp add: Let_def)
qed

lemma authorized_fields:
  assumes "lc_login_gate l" "\<not> lc_login_authorized l" "lc_phase l = PT_FIRST_IRQ2"
  defines "l1 \<equiv> l\<lparr>lc_login_authorized := True, lc_login_attempts := 1\<rparr>"
  shows "core l \<Longrightarrow> core l1" "core l \<Longrightarrow> phased PT_FIRST_IRQ2 l1" "acted l l1"
proof -
  have eq: "lc_current_fdt_table l1 = lc_current_fdt_table l" "lc_fresh_down_table l1 = lc_fresh_down_table l"
    "lc_fdt_raw l1 = lc_fdt_raw l" "lc_fdt_threshold l1 = lc_fdt_threshold l" "lc_audit l1 = lc_audit l" "lc_login_gate l1"
    "lc_learned_fdt_table l1 = lc_learned_fdt_table l" "lc_login_authorized l1" "lc_login_attempts l1 = 1" "lc_phase l1 = lc_phase l"
    "lc_material l1 = lc_material l" "lc_fresh_down_valid l1 = lc_fresh_down_valid l"
    using assms by (simp_all add: l1_def)
  have learned: "learned_from l1 t = learned_from l t" for t by (simp add: learned_from_def eq)
  show "acted l l1" using assms by (simp add: acted_def eq)
  assume core: "core l"
  then have "commands l \<le> 0" "images l \<le> commands l" and sec: "second_commands l = 0" using assms by (auto simp: core_def)
  then have zero: "commands l = 0" "images l = 0" using word_zero_le by (metis antisym)+
  with core show "core l1" by (simp add: core_def eq learned)
  show "phased PT_FIRST_IRQ2 l1" using zero sec by (simp add: phased_def may_command_def eq)
qed

lemma authorize_inv:
  "core l \<Longrightarrow> core (snd (authorize_login l))" "lifecycle_inv l \<Longrightarrow> lifecycle_inv (snd (authorize_login l))"
  "acted l (snd (authorize_login l))"
proof -
  show "core l \<Longrightarrow> core (snd (authorize_login l))"
    using authorized_fields(1) [of l] by (simp add: authorize_login_def)
  show "lifecycle_inv l \<Longrightarrow> lifecycle_inv (snd (authorize_login l))"
    using authorized_fields(1,2) [of l] by (simp add: authorize_login_def lifecycle_inv_def)
  show "acted l (snd (authorize_login l))"
    using authorized_fields(3) [of l] by (simp add: authorize_login_def) (simp add: acted_def)
qed

lemma act_cases: "quiet_move l (lifecycle_act h l x) \<or> x = Authorize_Login"
proof (cases x)
  case Cancel_Lifecycle
  then show ?thesis by (simp add: lifecycle_cancel_def lifecycle_refuse_def fail_quiet) (simp add: quiet_move_def same_ledger_def)
qed (simp_all add: await_quiet, simp add: quiet_move_def same_ledger_def)

lemma act_inv:
  "core l \<Longrightarrow> core (lifecycle_act h l x)" "lifecycle_inv l \<Longrightarrow> lifecycle_inv (lifecycle_act h l x)"
  "acted l (lifecycle_act h l x)"
  using act_cases [of l h x] quiet_move_inv [of l "lifecycle_act h l x"] authorize_inv [of l] quiet_move_acted
  by auto

lemma acted_trans: "acted l l1 \<Longrightarrow> acted l1 l2 \<Longrightarrow> acted l l2"
  unfolding acted_def by auto

lemma acts_inv:
  "core l \<Longrightarrow> core (lifecycle_acts h xs l)" "lifecycle_inv l \<Longrightarrow> lifecycle_inv (lifecycle_acts h xs l)"
  by (induction xs arbitrary: l) (simp_all add: lifecycle_acts_def act_inv)

lemma acts_acted: "acted l (lifecycle_acts h xs l)"
proof (induction xs arbitrary: l)
  case Nil
  then show ?case by (simp add: lifecycle_acts_def acted_def)
next
  case (Cons x xs)
  from acted_trans [OF act_inv(3) Cons.IH] show ?case by (simp add: lifecycle_acts_def)
qed


section \<open>Initialisation\<close>

lemma ack_shape:
  obtains (refused) l1 where "accept_ack h m l = (False, l1)" "core l \<Longrightarrow> core l1"
  | (taken) l1 where "accept_ack h m l = (True, l1)" "same_ledger l l1"
      "lc_learned_fdt_table l1 = lc_learned_fdt_table l" "lc_phase l1 = lc_phase l"
      "lc_irq80_rearm_pending l1 = lc_irq80_rearm_pending l"
proof -
  define l2 where "l2 = audited (\<lambda>a. a\<lparr>pa_ack := pa_ack a + 1\<rparr>) (l\<lparr>lc_ack_seen := True\<rparr>)"
  have l2: "same_ledger l l2" "lc_learned_fdt_table l2 = lc_learned_fdt_table l" "lc_phase l2 = lc_phase l"
    "lc_irq80_rearm_pending l2 = lc_irq80_rearm_pending l"
    by (simp_all add: l2_def same_ledger_def)
  have "accept_ack h m l = (False, l) \<or> accept_ack h m l = (False, lifecycle_refuse h POST_TLS_ERROR_PROTOCOL l) \<or>
      accept_ack h m l = (True, l2)"
    by (simp add: accept_ack_def l2_def)
  then show ?thesis using refused taken [OF _ l2] refuse_inv [of l h POST_TLS_ERROR_PROTOCOL] by (auto simp: lifecycle_inv_def)
qed

text \<open>A handler behind an acknowledgement keeps the invariant if what follows does.\<close>

lemma after_ack_inv:
  assumes "lifecycle_inv l"
    "\<And>l1. same_ledger l l1 \<Longrightarrow> lc_learned_fdt_table l1 = lc_learned_fdt_table l \<Longrightarrow> lc_phase l1 = lc_phase l \<Longrightarrow>
       lifecycle_inv l1 \<Longrightarrow> lifecycle_inv (k l1)"
  shows "lifecycle_inv (after_ack h m k l)"
proof (cases rule: ack_shape [of h m l])
  case (refused l1)
  with assms(1) show ?thesis by (auto simp: after_ack_def lifecycle_inv_def [of l])
next
  case (taken l1)
  have "lifecycle_inv l1"
    using assms(1) same_ledger_core [OF taken(2)] same_ledger_phased [OF taken(2,3)] taken by (simp add: lifecycle_inv_def)
  with taken assms(2) show ?thesis by (simp add: after_ack_def)
qed

lemma moved_inv: "core l \<Longrightarrow> phased p l \<Longrightarrow> lifecycle_inv (l\<lparr>lc_phase := p\<rparr>)"
proof -
  have "same_ledger l (l\<lparr>lc_phase := p\<rparr>)" "lc_learned_fdt_table (l\<lparr>lc_phase := p\<rparr>) = lc_learned_fdt_table l"
    by (simp_all add: same_ledger_def)
  with same_ledger_core same_ledger_phased show "core l \<Longrightarrow> phased p l \<Longrightarrow> ?thesis" by (fastforce simp: lifecycle_inv_def)
qed

lemma phased_moves:
  "phased PT_D4 l \<Longrightarrow> phased PT_AF l" "phased PT_AF l \<Longrightarrow> phased PT_FDT36_1 l" "phased PT_NOT_STARTED l \<Longrightarrow> phased PT_D4 l"
  "phased PT_FDT36_1 l \<Longrightarrow> phased PT_FDT_IRQ100_1 l" "phased PT_FDT36_2 l \<Longrightarrow> phased PT_FDT_IRQ100_2 l"
  "phased PT_FDT36_3 l \<Longrightarrow> phased PT_FDT_IRQ100_3 l" "phased PT_FDT_NAV_1 l \<Longrightarrow> phased PT_FDT36_2 l"
  "phased PT_FDT_20 l \<Longrightarrow> phased PT_FDT_B0 l" "phased PT_FDT_B0 l \<Longrightarrow> phased PT_FDT36_3 l"
  "phased PT_FIRST_ARM l \<Longrightarrow> phased PT_FIRST_IRQ2 l" "phased PT_FIRST_IRQ2 l \<Longrightarrow> phased PT_FIRST_ARM l"
  "phased PT_FIRST_22 l \<Longrightarrow> phased PT_FIRST_B0 l" "phased PT_FIRST_ARM l \<Longrightarrow> phased PT_STOP l"
  "phased PT_RELEASE_34 l \<Longrightarrow> phased PT_RELEASE_IRQ200 l" "phased PT_RELEASE_IRQ200 l \<Longrightarrow> phased PT_RELEASE_20 l"
  "phased PT_RELEASE_20 l \<Longrightarrow> phased PT_RELEASE_B0 l" "phased PT_RELEASE_B0 l \<Longrightarrow> phased PT_RELEASE_50 l"
  "phased PT_RELEASE_50 l \<Longrightarrow> phased PT_RELEASE_NAV l" "phased PT_RELEASE_NAV l \<Longrightarrow> (\<not> single l \<longrightarrow> phased PT_REARM_GATE l) \<and> phased PT_STOP l"
  "phased PT_SECOND_ARM l \<Longrightarrow> phased PT_SECOND_IRQ2 l"
  "phased PT_SECOND_22 l \<Longrightarrow> phased PT_SECOND_B0 l" "phased PT_SECOND_B0 l \<Longrightarrow> phased PT_STOP l"
  "phased PT_FIRST_B0 l \<Longrightarrow> phased PT_RELEASE_34 l"
  by (simp_all add: phased_def awaiting_phases_def)

lemma d4_inv: "lifecycle_inv l \<Longrightarrow> lc_phase l = PT_D4 \<Longrightarrow> lifecycle_inv (on_d4 h m l)"
  unfolding on_d4_def Let_def
  by (rule after_ack_inv, assumption, rule command_inv) (simp_all add: lifecycle_inv_def core_audited phased_audited phased_moves)

lemma af_inv: "lifecycle_inv l \<Longrightarrow> lc_phase l = PT_AF \<Longrightarrow> lifecycle_inv (on_af h m l)"
  unfolding on_af_def
  by (auto simp: lifecycle_inv_def [of l] phased_moves intro: submit_fdt36_inv)

lemma fdt36_inv:
  assumes "lifecycle_inv l" "lc_phase l = PT_FDT36_1 \<or> lc_phase l = PT_FDT36_2 \<or> lc_phase l = PT_FDT36_3"
  shows "lifecycle_inv (on_fdt36 h m l)"
  unfolding on_fdt36_def
proof (rule after_ack_inv [OF assms(1)], rule moved_inv)
  fix l1 :: "'a lifecycle" assume "lc_phase l1 = lc_phase l" "lifecycle_inv l1"
  with assms(2) show "core l1" "phased (if lc_phase l1 = PT_FDT36_1 then PT_FDT_IRQ100_1
       else if lc_phase l1 = PT_FDT36_2 then PT_FDT_IRQ100_2 else PT_FDT_IRQ100_3) l1"
    by (auto simp: lifecycle_inv_def phased_moves)
qed

lemma nav_inv: "lifecycle_inv l \<Longrightarrow> lc_phase l = PT_FDT_NAV_1 \<Longrightarrow> lifecycle_inv (on_fdt_nav h m l)"
  unfolding on_fdt_nav_def
  by (auto simp: lifecycle_inv_def [of l] phased_moves intro: submit_fdt36_inv after_ack_inv)

lemma ack_to_inv:
  assumes "lifecycle_inv l" "\<And>l1. phased (lc_phase l) l1 \<Longrightarrow> phased next (l1 :: 'u lifecycle)"
  shows "lifecycle_inv (on_ack_to h next m (l :: 'u lifecycle))"
  unfolding on_ack_to_def
  by (rule after_ack_inv [OF assms(1)], rule moved_inv) (use assms(2) in \<open>simp_all add: lifecycle_inv_def\<close>)

text \<open>Samples.\<close>

lemma sampled_core:
  assumes "core l" "lc_learned_fdt_table l = None" "length t = 12"
  shows "core (l\<lparr>lc_fdt_raw := r, lc_current_fdt_table := t, lc_fdt_threshold := th\<rparr>)"
  using assms by (simp add: core_def)

lemma derived_baseline:
  assumes "derive_baseline_table raw flags c t = (True, t')" "length t = 12"
  shows "baseline_of (fdt_words raw) t'"
proof -
  from assms have fill: "fdt_fill (baseline_value raw) [0..<6] t = (True, t')"
    by (simp add: derive_baseline_table_def split: if_splits)
  have len: "length t' = 12" using fdt_fill_table(1) [OF assms(2) fill] .
  moreover have "t' ! (i * 2) = 0x80 \<and> t' ! (i * 2 + 1) = ucast (drop_bit 1 (fdt_words raw ! i) AND 0xff) \<and>
      t' ! (i * 2 + 1) \<notin> {0, 0xff}" if i: "i < 6" for i
  proof -
    have word: "fdt_words raw ! i = fdt_word raw i" using i by (simp add: fdt_words_def fdt_word_def)
    have "baseline_value raw i = Some (t' ! (i * 2 + 1))" using fdt_fill_table(3) [OF assms(2) fill i] .
    then show ?thesis
      using fdt_fill_table(2) [OF assms(2) fill i] by (simp add: baseline_value_def Let_def word split: if_splits)
  qed
  ultimately show ?thesis unfolding baseline_of_def by blast
qed

lemma derive_baseline_length:
  "length (snd (fdt_derive_baseline_table raw flags t)) = length t"
  "length (snd (fdt_derive_first_baseline_table raw flags t)) = length t"
  by (simp_all add: fdt_derive_baseline_table_def fdt_derive_first_baseline_table_def derive_baseline_table_def)

lemma accept_sample_shape:
  assumes "core l" "length (lc_fdt_raw l) < 3"
  obtains ok r t where "accept_sample m l = (ok, l\<lparr>lc_fdt_raw := r, lc_current_fdt_table := t\<rparr>)" "length t = 12"
    "ok \<Longrightarrow> \<exists>w. r = lc_fdt_raw l @ [w] \<and> baseline_of w t"
proof -
  have len: "length (lc_current_fdt_table l) = 12" using assms by (simp add: core_def)
  have same: "l = l\<lparr>lc_fdt_raw := lc_fdt_raw l, lc_current_fdt_table := lc_current_fdt_table l\<rparr>" by simp
  show ?thesis
  proof (cases "event_fields m")
    case None
    then show ?thesis using that [where ok = False and r = "lc_fdt_raw l" and t = "lc_current_fdt_table l"] len by (simp add: accept_sample_def)
  next
    case (Some e)
    obtain irq flags raw where e: "e = (irq, flags, raw)" by (cases e) auto
    define first where "first = (lc_phase l = PT_FDT_IRQ100_1)"
    define d where "d = (if first then fdt_derive_first_baseline_table raw flags (lc_current_fdt_table l)
        else fdt_derive_baseline_table raw flags (lc_current_fdt_table l))"
    obtain ok t where d_eq: "d = (ok, t)" by (cases d) auto
    have lt: "length t = 12"
      using derive_baseline_length [of raw flags "lc_current_fdt_table l"] len d_eq unfolding d_def
      by (cases first; cases ok) (metis snd_conv)+
    have good: "baseline_of (fdt_words raw) t" if ok
      using derived_baseline [of raw flags _ "lc_current_fdt_table l" t] len d_eq that unfolding d_def
      by (auto simp: fdt_derive_baseline_table_def fdt_derive_first_baseline_table_def split: if_splits)
    show ?thesis
    proof (cases "control m \<noteq> 0x36 \<or> irq \<noteq> 0x0100 \<or> \<not> fdt_irq_flags_valid (if first then BASELINE_FIRST_SAMPLE else BASELINE_SAMPLE) flags")
      case True
      then show ?thesis
        using that [where ok = False and r = "lc_fdt_raw l" and t = "lc_current_fdt_table l"] len Some e
        by (auto simp: accept_sample_def first_def)
    next
      case False
      then have "accept_sample m l = (ok, l\<lparr>lc_fdt_raw := lc_fdt_raw l @ [fdt_words raw], lc_current_fdt_table := t\<rparr>)"
        using Some e assms(2) d_eq
        by (cases "lc_phase l = PT_FDT_IRQ100_1") (simp_all add: accept_sample_def record_fdt_raw_def first_def d_def Let_def)
      then show ?thesis using that lt good by blast
    qed
  qed
qed

lemma classify_shape:
  obtains within l1 where "classify_fdt_delta i j l = (within, l1)" "same_ledger l l1" "lc_phase l1 = lc_phase l"
    "lc_learned_fdt_table l1 = lc_learned_fdt_table l" "within \<Longrightarrow> j = Suc i \<Longrightarrow> agree (lc_fdt_threshold l) (lc_fdt_raw l) i"
proof (cases "lc_fdt_threshold l")
  case None
  then show ?thesis using that [of False l] by (simp add: classify_fdt_delta_def same_ledger_def)
next
  case (Some th)
  show ?thesis
  proof (cases "j \<ge> length (lc_fdt_raw l) \<or> i \<ge> j")
    case True
    then show ?thesis using that [of False l] Some by (auto simp: classify_fdt_delta_def same_ledger_def)
  next
    case False
    define within where "within = samples_within th (lc_fdt_raw l ! i) (lc_fdt_raw l ! j)"
    define l1 where "l1 = audited (\<lambda>a. let a1 = a\<lparr>pa_delta_classification := pa_delta_classification a + 1\<rparr> in
                if within then a1\<lparr>pa_delta_within := pa_delta_within a + 1\<rparr>
                else a1\<lparr>pa_delta_outside := pa_delta_outside a + 1\<rparr>) (l\<lparr>lc_fdt_delta_classified := True\<rparr>)"
    have "classify_fdt_delta i j l = (within, l1)"
      using False Some by (simp add: classify_fdt_delta_def within_def l1_def Let_def)
    moreover have "same_ledger l l1" "lc_phase l1 = lc_phase l" "lc_learned_fdt_table l1 = lc_learned_fdt_table l"
      by (simp_all add: l1_def same_ledger_def Let_def)
    ultimately show ?thesis using that Some by (auto simp: agree_def within_def)
  qed
qed

lemma finish_initialization_inv:
  assumes "core l" "lc_phase l = PT_FDT_IRQ100_3" "may_command l" "lc_learned_fdt_table l = None" "length (lc_fdt_raw l) = 3"
    "agree (lc_fdt_threshold l) (lc_fdt_raw l) 0" "baseline_of (lc_fdt_raw l ! 2) (lc_current_fdt_table l)"
    and sec: "second_commands l = 0"
  shows "lifecycle_inv (finish_initialization h m l)"
proof (cases rule: classify_shape [of 1 2 l])
  case (1 within l1)
  then have core: "core l1" using assms(1) same_ledger_core by blast
  have learned: "learned_from l1 (lc_current_fdt_table l1)" if within
    using that 1 assms by (auto simp: learned_from_def same_ledger_def)
  define l2 where "l2 = audited (\<lambda>a. a\<lparr>pa_fresh_fdt := pa_fresh_fdt a + 1, pa_learned_fdt_ready := True\<rparr>)
    (l1\<lparr>lc_learned_fdt_table := Some (lc_current_fdt_table l1)\<rparr>)"
  have "core l2" if within using that core learned by (simp add: l2_def core_def learned_from_def)
  moreover have "phased PT_FIRST_ARM l2"
    using 1 assms(3) sec by (simp add: phased_def may_command_def l2_def same_ledger_def awaiting_phases_def)
  ultimately have "within \<Longrightarrow> lifecycle_inv (submit_or_fail h (submit_arm h False l2))"
    by (intro submit_arm_inv) simp_all
  with 1 assms(1) core show ?thesis by (auto simp: finish_initialization_def l2_def)
qed

lemma irq100_inv:
  assumes "lifecycle_inv l" "lc_phase l = PT_FDT_IRQ100_1 \<or> lc_phase l = PT_FDT_IRQ100_2 \<or> lc_phase l = PT_FDT_IRQ100_3"
  shows "lifecycle_inv (on_fdt_irq100 h m l)"
proof -
  have core: "core l" and ph: "phased (lc_phase l) l" using assms(1) by (simp_all add: lifecycle_inv_def)
  have few: "length (lc_fdt_raw l) < 3" "lc_learned_fdt_table l = None" "may_command l" "second_commands l = 0" if "phased p l"
      "p = PT_FDT_IRQ100_1 \<or> p = PT_FDT_IRQ100_2 \<or> p = PT_FDT_IRQ100_3" for p
    using that by (elim disjE; simp add: phased_def awaiting_phases_def)+
  note few = few(1) [OF ph assms(2)] and none = few(2) [OF ph assms(2)] and may = few(3) [OF ph assms(2)]
    and sec = few(4) [OF ph assms(2)]
  show ?thesis
  proof (cases rule: accept_sample_shape [OF core few, of m])
  case (1 ok r t)
  note sample = this
  define l1 where "l1 = l\<lparr>lc_fdt_raw := r, lc_current_fdt_table := t\<rparr>"
  have l1: "core l1" "lc_phase l1 = lc_phase l" "lc_fdt_raw l1 = r" "lc_current_fdt_table l1 = t" "lc_learned_fdt_table l1 = None"
    "lc_fdt_threshold l1 = lc_fdt_threshold l" "may_command l1" "second_commands l1 = 0"
    using sampled_core [OF core none sample(2), where r = r and th = "lc_fdt_threshold l"] none may sec by (simp_all add: l1_def may_command_def)
  define l2 where "l2 = audited (\<lambda>a. a\<lparr>pa_fdt_irq100 := pa_fdt_irq100 a + 1\<rparr>) l1"
  have l2: "core l2" "lc_phase l2 = lc_phase l" "lc_fdt_raw l2 = r" "lc_current_fdt_table l2 = t" "lc_learned_fdt_table l2 = None"
    "lc_fdt_threshold l2 = lc_fdt_threshold l" "may_command l2" "second_commands l2 = 0"
    using l1 by (simp_all add: l2_def core_audited may_command_def)
  show ?thesis
  proof (cases ok)
    case False
    then show ?thesis using sample(1) l1(1) by (auto simp: on_fdt_irq100_def l1_def)
  next
    case True
    then obtain w where w: "r = lc_fdt_raw l @ [w]" "baseline_of w t" using sample(3) by blast
    have step: "on_fdt_irq100 h m l = (if lc_phase l2 = PT_FDT_IRQ100_1 then submit_or_fail h (submit_simple h 0x50 PT_FDT_NAV_1 l2)
        else if lc_phase l2 = PT_FDT_IRQ100_2
        then submit_or_fail h (submit_command h 0x82 [0x00, 0x82, 0x00, 0x02, 0x00] PT_FDT_82 l2)
        else finish_initialization h m l2)"
      using sample(1) True unfolding on_fdt_irq100_def l1_def [symmetric] by (simp add: l2_def)
    consider (one) "lc_phase l = PT_FDT_IRQ100_1" | (two) "lc_phase l = PT_FDT_IRQ100_2" | (three) "lc_phase l = PT_FDT_IRQ100_3"
      using assms(2) by blast
    then show ?thesis
    proof cases
      case one
      then have "phased PT_FDT_NAV_1 l2" using ph w l2 by (simp add: phased_def awaiting_phases_def)
      with l2(1) have "lifecycle_inv (submit_or_fail h (submit_simple h 0x50 PT_FDT_NAV_1 l2))" by (rule submit_simple_inv)
      then show ?thesis using one l2(2) by (simp add: step)
    next
      case two
      then have "phased PT_FDT_82 l2" using ph w l2 by (simp add: phased_def awaiting_phases_def)
      with l2(1) have "lifecycle_inv (submit_or_fail h (submit_command h 0x82 [0x00, 0x82, 0x00, 0x02, 0x00] PT_FDT_82 l2))"
        by (rule command_inv)
      then show ?thesis using two l2(2) by (simp add: step)
    next
      case three
      then have raw: "length (lc_fdt_raw l) = 2" "agree (lc_fdt_threshold l) (lc_fdt_raw l) 0"
        using ph by (simp_all add: phased_def)
      have "lifecycle_inv (finish_initialization h m l2)"
        by (rule finish_initialization_inv) (use l2 three raw w in \<open>simp_all add: agree_def nth_append\<close>)
      then show ?thesis using three l2(2) by (simp add: step)
    qed
  qed
qed
qed

lemma fdt_82_inv:
  assumes "lifecycle_inv l" "lc_phase l = PT_FDT_82"
  shows "lifecycle_inv (on_fdt_82 h m l)"
proof -
  have core: "core l" and ph: "phased PT_FDT_82 l" using assms by (simp_all add: lifecycle_inv_def)
  define l0 where "l0 = l\<lparr>lc_fdt_threshold := Some (body m ! 1)\<rparr>"
  have raw: "length (lc_fdt_raw l) = 2" "lc_learned_fdt_table l = None" "may_command l" "second_commands l = 0"
    using ph by (simp_all add: phased_def awaiting_phases_def)
  have l0: "core l0" "lc_phase l0 = PT_FDT_82" "length (lc_fdt_raw l0) = 2" "lc_learned_fdt_table l0 = None" "may_command l0"
    "second_commands l0 = 0"
    using core raw assms by (simp_all add: l0_def core_def may_command_def)
  show ?thesis
  proof (cases rule: classify_shape [of 0 1 l0])
    case (1 within l1)
    have c1: "core l1" using 1 l0(1) same_ledger_core by blast
    have "phased PT_FDT_20 l1" if within
      using that 1 l0 by (auto simp: phased_def awaiting_phases_def may_command_def same_ledger_def)
    then have "lifecycle_inv (submit_or_fail h (submit_simple h 0x20 PT_FDT_20 l1))" if within
      using that c1 by (intro submit_simple_inv) simp_all
    moreover have "lifecycle_inv (after_ack h m (\<lambda>l1. l1) l)" by (rule after_ack_inv [OF assms(1)])
    ultimately show ?thesis using 1 core c1 by (auto simp: on_fdt_82_def l0_def [unfolded One_nat_def, symmetric])
  qed
qed

section \<open>Arming and acquisition\<close>

lemma hand_off_inv:
  assumes "lifecycle_inv l" "lc_phase l = PT_FIRST_ARM"
  shows "lifecycle_inv (hand_off h l)"
proof -
  define l1 where "l1 = audited (\<lambda>a. a\<lparr>pa_first_arm_handoff := pa_first_arm_handoff a + 1, pa_backend_handoff := pa_backend_handoff a + 1\<rparr>)
    (l\<lparr>lc_backend_callback_owned := False, lc_phase := PT_STOP\<rparr>)"
  have ledger: "same_ledger l l1" "lc_learned_fdt_table l1 = lc_learned_fdt_table l" "lc_phase l1 = PT_STOP"
    by (simp_all add: l1_def same_ledger_def)
  have "lifecycle_inv l1"
    using assms ledger same_ledger_core [OF ledger(1)] same_ledger_phased [OF ledger(1,2)]
    by (simp add: lifecycle_inv_def phased_moves)
  moreover obtain calls reply where "lh_handoff h l1 = (calls, reply)" by (metis surj_pair)
  ultimately show ?thesis
    using acts_inv(2) [of l1 h calls] lifecycle_fail_inv [of "lifecycle_acts h calls l1"]
    by (simp add: hand_off_def l1_def [symmetric] Let_def lifecycle_inv_def split: callback_reply.split)
qed

lemma first_arm_inv:
  assumes "lifecycle_inv l" "lc_phase l = PT_FIRST_ARM"
  shows "lifecycle_inv (on_first_arm h m l)"
proof -
  have core: "core l" using assms by (simp add: lifecycle_inv_def)
  have "lifecycle_inv (if lc_irq80_rearm_pending l1 then l1\<lparr>lc_irq80_rearm_pending := False, lc_phase := PT_FIRST_IRQ2\<rparr>
        else if lc_has_handoff l1 then
          if lc_out_pending l1 \<or> lh_out_outstanding h (lc_user l1) \<noteq> 0 \<or> \<not> lc_backend_callback_owned l1
          then unexpected_a0 h (lc_phase l) m l1
          else hand_off h l1
        else
          let l2 = l1\<lparr>lc_phase := PT_FIRST_IRQ2\<rparr> in
          if lc_has_login_ready l2 \<and> \<not> lc_login_authorized l2 then lifecycle_acts h (lh_login_ready h l2) l2 else l2)"
    if l1: "lc_phase l1 = lc_phase l" "lifecycle_inv l1" for l1
  proof -
    have c1: "core l1" and ph: "phased PT_FIRST_IRQ2 l1" using l1 assms(2) by (simp_all add: lifecycle_inv_def phased_moves)
    define l2 where "l2 = l1\<lparr>lc_phase := PT_FIRST_IRQ2\<rparr>"
    have l2: "lifecycle_inv l2" unfolding l2_def by (rule moved_inv [OF c1 ph])
    define l3 where "l3 = l1\<lparr>lc_irq80_rearm_pending := False, lc_phase := PT_FIRST_IRQ2\<rparr>"
    have "same_ledger l2 l3" "lc_learned_fdt_table l3 = lc_learned_fdt_table l2" "lc_phase l3 = lc_phase l2"
      by (simp_all add: l2_def l3_def same_ledger_def)
    then have "lifecycle_inv l3" using l2 same_ledger_core same_ledger_phased by (metis lifecycle_inv_def)
    then show ?thesis
      using hand_off_inv [OF l1(2)] l1(1) assms(2) c1 l2 acts_inv(2) [OF l2] unfolding l2_def l3_def
      by (auto simp: Let_def)
  qed
  then show ?thesis using core assms(1) by (auto simp: on_first_arm_def intro: after_ack_inv)
qed

lemma irq80_inv:
  assumes "lifecycle_inv l" "lc_phase l = PT_FIRST_IRQ2"
  shows "lifecycle_inv (on_irq80 h m raw l)"
proof -
  have core: "core l" and ph: "phased PT_FIRST_ARM l" using assms by (simp_all add: lifecycle_inv_def phased_moves)
  obtain ok down where d: "fdt_derive_baseline_table raw 0 (replicate 12 0) = (ok, down)" by (metis surj_pair)
  have len: "length down = 12" using derive_baseline_length(1) [of raw 0 "replicate 12 0"] d by simp
  have "lifecycle_inv (submit_or_fail h (submit_arm h False (l\<lparr>lc_current_fdt_table := down, lc_user := u,
      lc_material := mt, lc_irq80_count := n, lc_irq80_rearm_pending := True\<rparr>)))"
    if mt: "lm_capture_profile mt = lm_capture_profile (lc_material l)" for u mt n
  proof (rule submit_arm_inv)
    show "core (l\<lparr>lc_current_fdt_table := down, lc_user := u, lc_material := mt, lc_irq80_count := n, lc_irq80_rearm_pending := True\<rparr>)"
      using core len mt by (simp add: core_def learned_from_def)
    show "phased (if False then PT_SECOND_ARM else PT_FIRST_ARM)
        (l\<lparr>lc_current_fdt_table := down, lc_user := u, lc_material := mt, lc_irq80_count := n, lc_irq80_rearm_pending := True\<rparr>)"
      using ph mt by (simp add: phased_def may_command_def)
  qed
  then show ?thesis
    using core d by (auto simp: on_irq80_def split: option.split prod.split bool.split)
qed

lemma unat_small_inc: "(x :: u32) < 3 \<Longrightarrow> unat (x + 1) = unat x + 1"
  by (simp add: unat_word_ariths word_less_nat_alt)

lemma commanded:
  assumes "core l" "may_command l" "lc_login_gate l \<longrightarrow> lc_login_authorized l"
    and f: "\<And>a. pa_first_image_command (f a) = pa_first_image_command a + 1" "\<And>a. pa_first_image_b0 (f a) = pa_first_image_b0 a"
      "\<And>a. pa_second_image_command (f a) = pa_second_image_command a" "\<And>a. pa_second_b0 (f a) = pa_second_b0 a"
    and sec: "second_commands l = 0"
  shows "core (audited f l)" "phased PT_FIRST_22 (audited f l)"
proof -
  have room: "commands l < 3" "lc_login_gate l \<longrightarrow> commands l < lc_login_attempts l" "\<not> lc_login_gate l \<longrightarrow> commands l = 0"
    "images l \<le> commands l" "lc_login_attempts l \<le> 3"
    using assms(1-3) by (auto simp: core_def may_command_def)
  note inc = unat_small_inc [OF room(1)]
  have bounds: "commands l + 1 \<le> 3" "images l \<le> commands l + 1" "images l < commands l + 1"
    "lc_login_gate l \<longrightarrow> commands l + 1 \<le> lc_login_attempts l" "\<not> lc_login_gate l \<longrightarrow> commands l + 1 \<le> 1"
    using room inc by (auto simp: word_le_nat_alt word_less_nat_alt)
  show "core (audited f l)" using assms(1) bounds by (auto simp: core_def f learned_from_def)
  show "phased PT_FIRST_22 (audited f l)" using bounds assms(3) sec by (auto simp: phased_def f awaiting_phases_def)
qed

text \<open>A callback at the first contact leaves room for the command.\<close>

lemma first_contact_inv:
  assumes "lifecycle_inv l" "lc_phase l = PT_FIRST_IRQ2" "lc_login_gate l \<longrightarrow> lc_login_authorized l"
  shows "lifecycle_inv (first_contact h m flags raw l)"
proof -
  have core: "core l" and may: "may_command l" and sec: "second_commands l = 0"
    using assms by (simp_all add: lifecycle_inv_def phased_def awaiting_phases_def)
  obtain ok table where d: "fdt_derive_up_table raw flags 0x1d (lc_first_up_table l) = (ok, table)" by (metis surj_pair)
  define l1 where "l1 = l\<lparr>lc_first_up_table := table\<rparr>"
  define l2 where "l2 = audited (\<lambda>a. a\<lparr>pa_first_irq0002 := pa_first_irq0002 a + 1\<rparr>) (l1\<lparr>lc_irq80_count := 0\<rparr>)"
  have l1: "same_ledger l l1" "lc_learned_fdt_table l1 = lc_learned_fdt_table l" by (simp_all add: l1_def same_ledger_def)
  have l2: "same_ledger l l2" "lc_learned_fdt_table l2 = lc_learned_fdt_table l" "lc_phase l2 = PT_FIRST_IRQ2"
    using assms(2) by (simp_all add: l2_def l1_def same_ledger_def)
  have c1: "core l1" and c2: "core l2" and may2: "may_command l2" and auth2: "lc_login_gate l2 \<longrightarrow> lc_login_authorized l2"
    using core may assms(3) same_ledger_core [OF l1(1)] same_ledger_core [OF l2(1)] l1(2) l2
    by (simp_all add: may_command_def same_ledger_def)
  define l3 where "l3 = lifecycle_acts h (lh_finger_down h l2) l2"
  have a3: "acted l2 l3" and c3: "core l3" using acts_acted acts_inv(1) c2 by (simp_all add: l3_def)
  have ungated: "\<not> lc_login_gate l2 \<Longrightarrow> \<not> lc_login_authorized l3"
    using a3 c3 by (auto simp: acted_def core_def)
  have m3: "may_command l3" "lc_login_gate l3 \<longrightarrow> lc_login_authorized l3"
    using a3 may2 auth2 by (auto simp: acted_def may_command_def)
  have s3: "second_commands l3 = 0" using a3 l2(1) sec by (simp add: acted_def same_ledger_def)
  have "lifecycle_inv (submit_or_fail h (submit_simple h 0x22 PT_FIRST_22
      (audited (\<lambda>a. a\<lparr>pa_first_image_command := pa_first_image_command a + 1\<rparr>) l3)))"
    by (rule submit_simple_inv) (rule commanded [OF c3 m3]; simp add: s3)+
  then show ?thesis
    using d c1 by (auto simp: first_contact_def l1_def [symmetric] l2_def [symmetric] l3_def [symmetric] Let_def)
qed

lemma second_contact_inv:
  assumes "lifecycle_inv l" "lc_phase l = PT_SECOND_IRQ2"
  shows "lifecycle_inv (second_contact h l)"
proof -
  have core: "core l" and ph: "\<not> single l" "second_commands l = 0" "\<not> (lc_login_gate l \<and> \<not> lc_login_authorized l)"
    using assms by (auto simp: lifecycle_inv_def phased_def awaiting_phases_def)
  define l1 where "l1 = audited (\<lambda>a. a\<lparr>pa_second_irq0002 := pa_second_irq0002 a + 1,
    pa_second_image_command := pa_second_image_command a + 1\<rparr>) l"
  have zero: "second_images l = 0" using core ph(2) by (simp add: core_def)
  have c1: "core l1" using core ph zero by (simp add: l1_def core_def learned_from_def)
  have p1: "phased PT_SECOND_22 l1" using ph zero by (simp add: l1_def phased_def awaiting_phases_def)
  define l2 where "l2 = lifecycle_acts h (lh_finger_down h l1) l1"
  have c2: "core l2" and a: "acted l1 l2" using acts_inv(1) [OF c1] acts_acted by (simp_all add: l2_def)
  have p2: "phased PT_SECOND_22 l2"
    using p1 a assms(2) by (simp add: acted_def phased_def awaiting_phases_def l1_def)
  have "lifecycle_inv (submit_or_fail h (submit_simple h 0x22 PT_SECOND_22 l2))"
    by (rule submit_simple_inv [OF c2 p2])
  then show ?thesis by (simp add: second_contact_def l1_def l2_def Let_def)
qed

lemma irq2_inv:
  assumes "lifecycle_inv l" "lc_phase l = PT_FIRST_IRQ2 \<or> lc_phase l = PT_SECOND_IRQ2"
  shows "lifecycle_inv (on_irq2 h m l)"
proof -
  have core: "core l" using assms by (simp add: lifecycle_inv_def)
  then show ?thesis
    using assms irq80_inv [OF assms(1)] first_contact_inv [OF assms(1)] second_contact_inv [OF assms(1)]
    by (auto simp: on_irq2_def split: option.split prod.split)
qed

lemma release_irq_inv:
  assumes "lifecycle_inv l" "lc_phase l = PT_RELEASE_IRQ200"
  shows "lifecycle_inv (on_release_irq h m l)"
proof -
  have core: "core l" and ph: "phased PT_RELEASE_20 l" using assms by (simp_all add: lifecycle_inv_def phased_moves)
  have derived: "lifecycle_inv (let (ok, table) = fdt_derive_down_table raw flags (lc_fresh_down_table l);
                l1 = l\<lparr>lc_fresh_down_table := table\<rparr> in
            if \<not> ok then unexpected_a0 h (lc_phase l) m l1
            else submit_or_fail h (submit_simple h 0x20 PT_RELEASE_20
              (audited (\<lambda>a. a\<lparr>pa_irq0200 := pa_irq0200 a + 1, pa_fresh_down_table_count := pa_fresh_down_table_count a + 1,
                  pa_fresh_down_table := True, pa_post_up_0x20 := pa_post_up_0x20 a + 1\<rparr>)
                (l1\<lparr>lc_fresh_down_valid := True\<rparr>))))" for raw flags
  proof -
    obtain ok table where d: "fdt_derive_down_table raw flags (lc_fresh_down_table l) = (ok, table)" by (metis surj_pair)
    have "length (snd (fdt_derive_down_table raw flags (lc_fresh_down_table l))) = 12"
      using core by (simp add: core_def fdt_derive_down_table_def derive_zero_touch_table_def)
    with d have len: "length table = 12" by simp
    have c: "core (l\<lparr>lc_fresh_down_table := table\<rparr>)" "core (l\<lparr>lc_fresh_down_table := table, lc_fresh_down_valid := True\<rparr>)"
      "phased PT_RELEASE_20 (l\<lparr>lc_fresh_down_table := table, lc_fresh_down_valid := True\<rparr>)"
      using core ph len by (simp_all add: core_def learned_from_def phased_def may_command_def)
    then show ?thesis using d by (auto simp: core_audited phased_audited Let_def intro!: submit_simple_inv)
  qed
  then show ?thesis using core by (auto simp: on_release_irq_def split: option.split)
qed

lemma release_nav_inv:
  assumes "lifecycle_inv l" "lc_phase l = PT_RELEASE_NAV"
  shows "lifecycle_inv (on_release_nav h m l)"
proof -
  have core: "core l" and ph: "\<not> single l \<longrightarrow> phased PT_REARM_GATE l" "phased PT_STOP l"
    using assms phased_moves(19) [of l] by (simp_all add: lifecycle_inv_def)
  define l1 where "l1 = audited (\<lambda>a. let a1 = a\<lparr>pa_nav_response := pa_nav_response a + 1,
                  pa_release_tail_complete := pa_release_tail_complete a + 1\<rparr> in
                if single l then a1\<lparr>pa_single_acquisition_terminal := pa_single_acquisition_terminal a + 1\<rparr> else a1)
              (l\<lparr>lc_phase := (if single l then PT_STOP else PT_REARM_GATE)\<rparr>)"
  have "lifecycle_inv (l\<lparr>lc_phase := (if single l then PT_STOP else PT_REARM_GATE)\<rparr>)"
    by (rule moved_inv) (use core ph in simp_all)
  then have "lifecycle_inv l1" by (simp add: l1_def lifecycle_inv_def core_audited phased_audited Let_def)
  then have "lifecycle_inv (maybe_submit_rearm h (lifecycle_acts h ys (lifecycle_acts h xs l1)))" for xs ys
    using acts_inv(2) quiet_move_inv(2) [OF rearm_quiet] by blast
  then show ?thesis using core by (auto simp: on_release_nav_def Let_def l1_def)
qed

section \<open>Images\<close>

lemma baseline_image_inv:
  assumes "lifecycle_inv l" "lc_phase l = PT_FDT_B0"
  shows "lifecycle_inv (baseline_image h samples l)"
proof -
  define l1 where "l1 = audited (\<lambda>a. a\<lparr>pa_baseline_b0 := pa_baseline_b0 a + 1, pa_baseline_decode := pa_baseline_decode a + 1\<rparr>)
    (l\<lparr>lc_baseline_samples := Some samples, lc_phase := PT_FDT36_3\<rparr>)"
  have l1: "same_ledger l l1" "lc_learned_fdt_table l1 = lc_learned_fdt_table l" by (simp_all add: l1_def same_ledger_def)
  have "core l1" "phased PT_FDT36_3 l1"
    using assms same_ledger_core [OF l1(1)] same_ledger_phased [OF l1] l1(2) by (simp_all add: lifecycle_inv_def phased_moves)
  then show ?thesis unfolding baseline_image_def l1_def [symmetric] by (intro submit_fdt36_inv)
qed

lemma deliver_image_inv:
  assumes "core l" "\<And>l1. core l1 \<Longrightarrow> acted l l1 \<Longrightarrow> lifecycle_inv (k l1)"
  shows "lifecycle_inv (deliver_image h n samples k l)"
proof -
  obtain calls reply where "lh_image h n samples l = (calls, reply)" by (metis surj_pair)
  then show ?thesis
    using assms(2) [OF acts_inv(1) [OF assms(1)] acts_acted, of h calls] acts_inv(1) [OF assms(1), of h calls]
    by (auto simp: deliver_image_def Let_def split: callback_reply.split)
qed

lemma first_image_inv:
  assumes "lifecycle_inv l" "lc_phase l = PT_FIRST_B0"
  shows "lifecycle_inv (first_image h samples l)"
  unfolding first_image_def
proof (rule deliver_image_inv)
  define l0 where "l0 = audited (\<lambda>a. a\<lparr>pa_first_image_b0 := pa_first_image_b0 a + 1, pa_first_image_decode := pa_first_image_decode a + 1\<rparr>) l"
  have core: "core l" and room: "images l < commands l" and gate: "lc_login_gate l \<longrightarrow> lc_login_authorized l"
    and sec: "second_commands l = 0"
    using assms by (auto simp: lifecycle_inv_def phased_def awaiting_phases_def)
  have "commands l \<le> 3" using core by (simp add: core_def)
  with room have "images l < 3" by simp
  from unat_small_inc [OF this] room have "images l + 1 \<le> commands l" by (simp add: word_le_nat_alt word_less_nat_alt)
  with core show c0: "core l0" by (simp add: core_def l0_def learned_from_def)
  fix l1 :: "'a lifecycle"
  assume c1: "core l1" and a: "acted l0 l1"
  define l2 where "l2 = audited (\<lambda>a. a\<lparr>pa_first_image_pipeline := pa_first_image_pipeline a + 1, pa_release_0x34 := pa_release_0x34 a + 1\<rparr>) l1"
  have "core l2" using c1 by (simp add: l2_def core_audited)
  moreover have "phased PT_RELEASE_34 l2"
    using a gate assms(2) sec by (auto simp: l2_def phased_def awaiting_phases_def acted_def l0_def)
  ultimately show "lifecycle_inv (submit_or_fail h (submit_command h 0x34 ([0x0a, 0x01] @ lc_first_up_table l1) PT_RELEASE_34 l2))"
    by (intro command_inv)
qed

lemma second_image_inv:
  assumes "lifecycle_inv l" "lc_phase l = PT_SECOND_B0"
  shows "lifecycle_inv (second_image h samples l)"
  unfolding second_image_def
proof (rule deliver_image_inv)
  have core: "core l" and lt: "second_images l < second_commands l" and le: "second_commands l \<le> 1"
    using assms by (simp_all add: lifecycle_inv_def phased_def core_def)
  have room: "second_images l + 1 \<le> second_commands l"
    using lt le unat_small_inc [of "second_images l"] by (simp add: word_le_nat_alt word_less_nat_alt)
  show "core (audited (\<lambda>a. a\<lparr>pa_second_b0 := pa_second_b0 a + 1, pa_second_image_decode := pa_second_image_decode a + 1\<rparr>) l)"
    using core room by (simp add: core_def learned_from_def)
  fix l1 :: "'a lifecycle"
  assume "core l1"
  then show "lifecycle_inv ((audited (\<lambda>a. a\<lparr>pa_second_image_pipeline := pa_second_image_pipeline a + 1\<rparr>) l1)\<lparr>lc_phase := PT_STOP\<rparr>)"
    by (intro moved_inv) (simp_all add: core_audited phased_def awaiting_phases_def)
qed

section \<open>Every call keeps the invariant\<close>

lemma message_inv:
  assumes "lifecycle_inv l"
  shows "lifecycle_inv (lifecycle_message h m l)"
proof -
  have core: "core l" using assms by (simp add: lifecycle_inv_def)
  have to: "lc_phase l = PT_FDT_20 \<Longrightarrow> lifecycle_inv (on_ack_to h PT_FDT_B0 m l)"
    "lc_phase l = PT_FIRST_22 \<Longrightarrow> lifecycle_inv (on_ack_to h PT_FIRST_B0 m l)"
    "lc_phase l = PT_RELEASE_34 \<Longrightarrow> lifecycle_inv (on_ack_to h PT_RELEASE_IRQ200 m l)"
    "lc_phase l = PT_RELEASE_20 \<Longrightarrow> lifecycle_inv (on_ack_to h PT_RELEASE_B0 m l)"
    "lc_phase l = PT_RELEASE_50 \<Longrightarrow> lifecycle_inv (on_ack_to h PT_RELEASE_NAV m l)"
    "lc_phase l = PT_SECOND_ARM \<Longrightarrow> lifecycle_inv (on_ack_to h PT_SECOND_IRQ2 m l)"
    "lc_phase l = PT_SECOND_22 \<Longrightarrow> lifecycle_inv (on_ack_to h PT_SECOND_B0 m l)"
    by (rule ack_to_inv [OF assms]; simp add: phased_moves)+
  show ?thesis
    unfolding lifecycle_message_def
    by (cases "lc_phase l")
      (use assms core to in \<open>simp_all add: d4_inv af_inv fdt36_inv nav_inv irq100_inv fdt_82_inv first_arm_inv irq2_inv
        release_irq_inv release_nav_inv unexpected_inv\<close>)
qed

lemma handle_message_inv: "lifecycle_inv l \<Longrightarrow> lifecycle_inv (lifecycle_handle_a0 h frame l)"
  by (auto simp: lifecycle_handle_a0_def message_inv lifecycle_inv_def [of l] split: option.split sum.split
      intro: message_inv)

lemma pending_inv: "lifecycle_inv l \<Longrightarrow> lifecycle_inv (l\<lparr>lc_plaintext_pending := bs\<rparr>)"
  by (simp add: lifecycle_inv_def core_def learned_from_def phased_def may_command_def)

lemma handle_plaintext_inv:
  assumes inv: "lifecycle_inv l"
  shows "lifecycle_inv (lifecycle_handle_plaintext h plaintext l)"
proof -
  have core: "core l" using inv by (simp add: lifecycle_inv_def)
  have pend: "core (l\<lparr>lc_plaintext_pending := bs\<rparr>)" for bs using pending_inv [OF inv] by (simp add: lifecycle_inv_def)
  note refuse = refuse_inv [OF pend] and failed = lifecycle_fail_inv [OF pend]
  have image: "lifecycle_inv (if lc_phase l2 = PT_FDT_B0 then baseline_image h samples l2
      else if lc_phase l2 = PT_FIRST_B0 then first_image h samples l2 else second_image h samples l2)"
    if "l2 = l\<lparr>lc_plaintext_pending := []\<rparr>" "lc_phase l = PT_FDT_B0 \<or> lc_phase l = PT_FIRST_B0 \<or> lc_phase l = PT_SECOND_B0"
    for l2 samples
    using that pending_inv [OF inv, of "[]"] baseline_image_inv [of l2] first_image_inv [of l2] second_image_inv [of l2] by auto
  have release: "lc_phase l = PT_RELEASE_B0 \<Longrightarrow> lifecycle_inv (submit_or_fail h (submit_simple h 0x50 PT_RELEASE_50
      (audited (\<lambda>a. a\<lparr>pa_post_up_b0 := pa_post_up_b0 a + 1, pa_nav_0x50 := pa_nav_0x50 a + 1\<rparr>) l)))"
    using inv by (intro submit_simple_inv) (simp_all add: lifecycle_inv_def core_audited phased_audited phased_moves)
  show ?thesis
  proof (cases plaintext)
    case None
    then show ?thesis using inv by (simp add: lifecycle_handle_plaintext_def)
  next
    case (Some chunk)
    define pending where "pending = lc_plaintext_pending l @ chunk"
    show ?thesis
      using inv core release refuse failed image [OF refl] pending_inv [OF inv] Some
      unfolding lifecycle_handle_plaintext_def
      by (cases "decoded_image (lc_plaintext_pending l @ chunk)") (auto simp: Let_def)
  qed
qed

text \<open>A submission whose refusal is reported and not a failure.\<close>

lemma submitted_inv:
  assumes "lifecycle_inv l" "phased next l"
  shows "lifecycle_inv (snd (submit_command h c bs next l))"
proof (cases "lc_out_pending l \<or> lc_phase l = PT_TERMINAL \<or> lc_phase l = PT_STOP")
  case True
  then show ?thesis using assms by (simp add: submit_command_def)
next
  case False
  show ?thesis
  proof (cases "fixed64_command c bs")
    case (Inl e)
    with False show ?thesis using assms by (simp add: submit_command_def)
  next
    case (Inr frame)
    define l1 where "l1 = audited (\<lambda>a. a\<lparr>pa_command := pa_command a + 1\<rparr>)
      (l\<lparr>lc_phase := next, lc_expected_ack := c, lc_ack_seen := False, lc_out_pending := True\<rparr>)"
    obtain r u where ru: "lh_submit h (lc_generation l1) frame (lc_user l1) = (r, u)" by (metis surj_pair)
    have "snd (submit_command h c bs next l) = l1\<lparr>lc_user := u\<rparr> \<or> snd (submit_command h c bs next l) = l1\<lparr>lc_user := u, lc_out_pending := False\<rparr>"
      using False Inr ru unfolding submit_command_def l1_def by (cases r) (simp_all add: Let_def)
    moreover have "lifecycle_inv l2" if "l2 = l1\<lparr>lc_user := u\<rparr> \<or> l2 = l1\<lparr>lc_user := u, lc_out_pending := False\<rparr>" for l2
    proof -
      have l2: "same_ledger l l2" "lc_learned_fdt_table l2 = lc_learned_fdt_table l" "lc_phase l2 = next"
        using that by (auto simp: l1_def same_ledger_def)
      then show ?thesis
        using assms same_ledger_core [OF l2(1)] same_ledger_phased [OF l2(1,2)] by (simp add: lifecycle_inv_def)
    qed
    ultimately show ?thesis by blast
  qed
qed

lemma lifecycle_start_inv:
  assumes "lifecycle_inv l"
  shows "lifecycle_inv (snd (lifecycle_start h l))"
proof (cases "lc_phase l = PT_NOT_STARTED")
  case True
  define l1 where "l1 = audited (\<lambda>a. a\<lparr>pa_started := True, pa_d4 := pa_d4 a + 1\<rparr>) (l\<lparr>lc_backend_callback_owned := True\<rparr>)"
  have l1: "same_ledger l l1" "lc_learned_fdt_table l1 = lc_learned_fdt_table l" "lc_phase l1 = lc_phase l"
    by (simp_all add: l1_def same_ledger_def)
  have "lifecycle_inv l1" "phased PT_D4 l1"
    using assms True same_ledger_core [OF l1(1)] same_ledger_phased [OF l1(1,2)] l1 by (simp_all add: lifecycle_inv_def phased_moves)
  then have "lifecycle_inv (snd (submit_command h 0xd4 [0x00, 0x00] PT_D4 l1))" by (rule submitted_inv)
  then show ?thesis using True unfolding lifecycle_start_def l1_def by simp
next
  case False
  then show ?thesis using assms by (simp add: lifecycle_start_def)
qed

lemma next_login_inv:
  assumes "lifecycle_inv l"
  shows "lifecycle_inv (snd (next_login h t l))"
proof (cases "\<not> lc_login_gate l \<or> \<not> lc_login_authorized l \<or> lc_login_attempts l \<ge> 3 \<or> lc_phase l \<noteq> PT_STOP \<or>
    \<not> lc_fresh_down_valid l \<or> lm_capture_profile (lc_material l) \<noteq> PROFILE_SINGLE_ACQUISITION \<or> \<not> lh_is_drained h (lc_user l)")
  case True
  then show ?thesis using assms by (simp add: next_login_def)
next
  case False
  then have few: "lc_login_attempts l < 3" and ok: "lc_login_gate l" "lc_login_authorized l" and one: "single l" by (auto simp: not_le)
  have core: "core l" using assms by (simp add: lifecycle_inv_def)
  define l1 where "l1 = audited (\<lambda>a. a\<lparr>pa_rearm_0x32 := pa_rearm_0x32 a + 1\<rparr>)
        (l\<lparr>lc_login_attempts := lc_login_attempts l + 1, lc_irq80_count := 0,
           lc_current_fdt_table := lc_fresh_down_table l, lc_fresh_down_valid := False,
           lc_material := (lc_material l)\<lparr>lm_first_arm_timestamp := t\<rparr>, lc_phase := PT_REARM_GATE\<rparr>)"
  have le: "commands l \<le> lc_login_attempts l" and sec: "second_commands l = 0" using core ok one by (simp_all add: core_def)
  then have lt: "commands l < lc_login_attempts l + 1" "commands l \<le> lc_login_attempts l + 1" "lc_login_attempts l + 1 \<le> 3"
    using unat_small_inc [OF few] few by (simp_all add: word_le_nat_alt word_less_nat_alt)
  have f: "lc_login_gate l1" "lc_login_authorized l1" "lc_login_attempts l1 = lc_login_attempts l + 1" "lc_audit l1 = (lc_audit l)\<lparr>pa_rearm_0x32 := pa_rearm_0x32 (lc_audit l) + 1\<rparr>"
    "lc_fdt_raw l1 = lc_fdt_raw l" "lc_fdt_threshold l1 = lc_fdt_threshold l" "lc_learned_fdt_table l1 = lc_learned_fdt_table l"
    "lc_current_fdt_table l1 = lc_fresh_down_table l" "lc_fresh_down_table l1 = lc_fresh_down_table l" "lc_phase l1 = PT_REARM_GATE"
    "lm_capture_profile (lc_material l1) = PROFILE_SINGLE_ACQUISITION" "\<not> lc_fresh_down_valid l1"
    using ok one by (simp_all add: l1_def)
  have "learned_from l1 table = learned_from l table" for table by (simp add: learned_from_def f)
  then have "core l1" using core ok lt sec by (simp add: core_def f)
  moreover have "phased PT_REARM_GATE l1" "phased PT_FIRST_ARM l1" using lt sec by (simp_all add: phased_def may_command_def f awaiting_phases_def)
  ultimately have "lifecycle_inv (snd (submit_command h 0x32 bs PT_FIRST_ARM l1))" for bs
    by (intro submitted_inv) (simp_all add: lifecycle_inv_def f)
  then have "lifecycle_inv (snd (submit_arm h False l1))" by (simp add: submit_arm_def Let_def)
  then show ?thesis using False unfolding next_login_def l1_def by simp
qed

lemma prepare_login_inv:
  assumes "lifecycle_inv l"
  shows "lifecycle_inv (prepare_login l)"
proof (cases "lc_phase l = PT_NOT_STARTED")
  case True
  define l1 where "l1 = l\<lparr>lc_login_gate := True, lc_has_login_ready := True\<rparr>"
  have core: "core l" and may: "may_command l" and raw: "lc_fdt_raw l = []" "lc_learned_fdt_table l = None" "second_commands l = 0"
    using assms True by (simp_all add: lifecycle_inv_def phased_def awaiting_phases_def)
  have "\<not> lc_login_gate l \<Longrightarrow> commands l = 0" using may by (simp add: may_command_def)
  then have "commands l \<le> lc_login_attempts l" using core by (cases "lc_login_gate l") (simp_all add: core_def)
  moreover have "lc_login_authorized l \<longrightarrow> commands l < lc_login_attempts l"
    using core may by (auto simp: core_def may_command_def)
  ultimately have "core l1" "phased PT_NOT_STARTED l1"
    using core raw by (simp_all add: core_def l1_def phased_def awaiting_phases_def may_command_def)
  then show ?thesis using True by (simp add: prepare_login_def l1_def lifecycle_inv_def)
next
  case False
  then show ?thesis using assms by (simp add: prepare_login_def)
qed

lemma same_place_inv:
  "same_ledger l l1 \<Longrightarrow> lc_learned_fdt_table l1 = lc_learned_fdt_table l \<Longrightarrow> lc_phase l1 = lc_phase l \<Longrightarrow> lifecycle_inv l \<Longrightarrow> lifecycle_inv l1"
  using same_ledger_core [of l l1] same_ledger_phased [of l l1] by (simp add: lifecycle_inv_def)

lemma out_completed_inv: "lifecycle_inv l \<Longrightarrow> lifecycle_inv (lifecycle_out_complete h g e l)"
proof -
  define l1 where "l1 = l\<lparr>lc_out_pending := False\<rparr>"
  assume "lifecycle_inv l"
  then have "lifecycle_inv l1" by (rule same_place_inv [rotated 3]) (simp_all add: l1_def same_ledger_def)
  with \<open>lifecycle_inv l\<close> show ?thesis
    by (auto simp: lifecycle_out_complete_def l1_def [symmetric] Let_def lifecycle_inv_def [of l1] split: option.split)
qed

lemma lifecycle_timeout_inv: "lifecycle_inv l \<Longrightarrow> lifecycle_inv (lifecycle_timeout h l)"
  by (auto simp: lifecycle_timeout_def core_audited lifecycle_inv_def [of l] intro!: lifecycle_fail_inv)

lemma set_handoff_inv: "lifecycle_inv l \<Longrightarrow> lifecycle_inv (snd (set_first_arm_handoff l))"
  using same_place_inv [of l "l\<lparr>lc_has_handoff := True\<rparr>"] by (simp add: set_first_arm_handoff_def same_ledger_def)

lemma lifecycle_step_inv: "lifecycle_inv l \<Longrightarrow> lifecycle_inv (snd (lifecycle_step h x l))"
proof (cases x)
  case Call_Cancel
  show "lifecycle_inv l \<Longrightarrow> ?thesis"
    using Call_Cancel by (auto simp: lifecycle_cancel_def lifecycle_inv_def [of l])
qed (simp_all add: lifecycle_start_inv out_completed_inv handle_message_inv handle_plaintext_inv
    quiet_move_inv(2) [OF await_quiet] lifecycle_timeout_inv set_handoff_inv prepare_login_inv authorize_inv(2) next_login_inv)

lemma lifecycle_new_inv:
  assumes "lifecycle_new g (Some m) u = Inr l" "length (lm_initial_fdt_table m) = 12"
  shows "lifecycle_inv l"
proof -
  have "lc_phase l = PT_NOT_STARTED" "\<not> lc_login_gate l" "\<not> lc_login_authorized l" "lc_login_attempts l = 0"
    "commands l = 0" "images l = 0" "second_commands l = 0" "second_images l = 0" "length (lc_current_fdt_table l) = 12" "length (lc_fresh_down_table l) = 12"
    "lc_fdt_raw l = []" "lc_learned_fdt_table l = None"
    using assms by (auto simp: lifecycle_new_def lifecycle_audit_zero_def split: if_splits)
  then show ?thesis by (simp add: lifecycle_inv_def core_def phased_def may_command_def)
qed

interpretation lifecycle: machine_invariant "lifecycle_step h" l "\<lambda>x. lifecycle_inv l \<longrightarrow> lifecycle_inv x"
  for h :: "'u lifecycle_hooks" and l :: "'u lifecycle"
proof
  show "lifecycle_inv l \<longrightarrow> lifecycle_inv l" by (rule impI)
  show "lifecycle_inv l \<longrightarrow> lifecycle_inv x \<Longrightarrow> lifecycle_inv l \<longrightarrow> lifecycle_inv (snd (lifecycle_step h e x))" for x e
    using lifecycle_step_inv by blast
qed

section \<open>Properties\<close>

text \<open>
  Claim C38. The login gate holds whatever frames, plaintext, completions, calls and callbacks come
  in whatever order: before a Verify authorises it, a gated lifecycle has commanded no image and is
  not past the first interrupt; afterwards it commands at most one first image for each authorised
  attempt, of which there are at most three. A lifecycle without the gate commands at most one first
  image. The second image, of the two-acquisition profile, is commanded at most once in the whole
  lifecycle, never with the single-acquisition profile and never while the gate is closed. Neither
  the first nor the second images delivered exceed those commanded.
\<close>

theorem login_gate_holds:
  assumes "lifecycle_new g (Some m) u = Inr l" "length (lm_initial_fdt_table m) = 12"
  shows "let x = snd (run_ops (lifecycle_step h) xs l); a = lc_audit x in
    pa_first_image_b0 a \<le> pa_first_image_command a \<and>
    (if lc_login_gate x
     then pa_first_image_command a \<le> lc_login_attempts x \<and> lc_login_attempts x \<le> 3 \<and>
       (lc_login_authorized x \<or> pa_first_image_command a = 0 \<and> pa_second_image_command a = 0 \<and>
          lc_phase x \<in> awaiting_phases \<union> {PT_STOP, PT_TERMINAL})
     else pa_first_image_command a \<le> 1) \<and>
    pa_second_b0 a \<le> pa_second_image_command a \<and>
    (if lm_capture_profile (lc_material x) = PROFILE_SINGLE_ACQUISITION then pa_second_image_command a = 0
     else pa_second_image_command a \<le> 1)"
proof -
  define x where "x = snd (run_ops (lifecycle_step h) xs l)"
  have "lifecycle_inv x"
    using lifecycle.inv_run [where h = h and l = l and xs = xs] lifecycle_new_inv [OF assms] by (simp add: x_def)
  then have core: "core x" and ph: "phased (lc_phase x) x" by (simp_all add: lifecycle_inv_def)
  then have "\<not> lc_login_authorized x \<Longrightarrow> lc_login_gate x \<Longrightarrow> commands x \<le> 0" by (auto simp: core_def)
  then have "\<not> lc_login_authorized x \<Longrightarrow> lc_login_gate x \<Longrightarrow> commands x = 0" by simp
  moreover have "lc_login_gate x \<Longrightarrow> \<not> lc_login_authorized x \<Longrightarrow> lc_phase x \<in> awaiting_phases \<union> {PT_STOP, PT_TERMINAL}"
    using ph unfolding phased_def by blast
  moreover have "images x \<le> commands x" "lc_login_attempts x \<le> 3" "lc_login_gate x \<longrightarrow> commands x \<le> lc_login_attempts x"
    "\<not> lc_login_gate x \<longrightarrow> commands x \<le> 1" "second_images x \<le> second_commands x" "second_commands x \<le> 1"
    "single x \<longrightarrow> second_commands x = 0" "lc_login_gate x \<and> \<not> lc_login_authorized x \<longrightarrow> second_commands x = 0"
    using core by (simp_all add: core_def)
  ultimately show ?thesis
    unfolding x_def [symmetric] Let_def by (cases "lc_login_gate x"; cases "lc_login_authorized x"; cases "single x") simp_all
qed

text \<open>
  Claim C39. A learned table is handed out only when exactly three samples were taken, each within
  the sensor's threshold of the one before on all six channels, and it is the baseline table of
  the third: 0x80 and half the reading for each channel, no channel saturated.
\<close>

theorem learned_table_justified:
  assumes "lifecycle_new g (Some m) u = Inr l" "length (lm_initial_fdt_table m) = 12"
    and "copy_learned_fdt (snd (run_ops (lifecycle_step h) xs l)) = Some table"
  shows "let x = snd (run_ops (lifecycle_step h) xs l); raw = lc_fdt_raw x in
    \<exists>t. lc_fdt_threshold x = Some t \<and> length raw = 3 \<and> samples_within t (raw ! 0) (raw ! 1) \<and>
      samples_within t (raw ! 1) (raw ! 2) \<and> baseline_of (raw ! 2) table"
proof -
  define x where "x = snd (run_ops (lifecycle_step h) xs l)"
  have "lifecycle_inv x"
    using lifecycle.inv_run [where h = h and l = l and xs = xs] lifecycle_new_inv [OF assms(1,2)] by (simp add: x_def)
  then have "core x" by (simp add: lifecycle_inv_def)
  with assms(3) have "learned_from x table" by (simp add: x_def [symmetric] copy_learned_fdt_def core_def split: if_splits)
  then show ?thesis unfolding x_def [symmetric] Let_def by (auto simp: learned_from_def agree_def numeral_2_eq_2)
qed

end
