(* ===== verification/Post_Tls_Progress.thy ===== *)
theory Post_Tls_Progress
  imports Post_Tls_Order
begin

text \<open>
  A single acquisition from the start to the stop: what a sound sensor sends, step by step, and
  that the lifecycle takes it through to the release tail.
\<close>

section \<open>The sensor\<close>

record sensor_script =
  sn_controller :: bytes
  sn_first_flags :: u16
  sn_samples :: "bytes list"
  sn_nav :: bytes
  sn_threshold :: u8
  sn_baseline :: "bytes list"
  sn_touch_flags :: u16
  sn_touch :: bytes
  sn_image :: "bytes list"
  sn_release :: bytes
  sn_post_up :: bytes
  sn_release_nav :: bytes

definition lifecycle_frame :: "u8 \<Rightarrow> bytes \<Rightarrow> bytes option" where
  "lifecycle_frame c bs = (case a0_build_frame c c bs of Inr f \<Rightarrow> Some f | Inl _ \<Rightarrow> None)"

definition event_body :: "u16 \<Rightarrow> u16 \<Rightarrow> bytes \<Rightarrow> bytes" where
  "event_body irq flags raw = [lo8 irq, hi8 irq, lo8 flags, hi8 flags] @ raw"

text \<open>The transfer of a command completes, then the sensor acknowledges it.\<close>

definition acknowledged :: "u64 \<Rightarrow> u8 \<Rightarrow> lifecycle_call list" where
  "acknowledged g c = [Call_Out g None, Call_A0 (lifecycle_frame 0xb0 [c, 0x01])]"

definition plaintext_calls :: "bytes list \<Rightarrow> lifecycle_call list" where
  "plaintext_calls chunks = map (\<lambda>c. Call_Plaintext (Some c)) chunks"

definition fdt_report :: "u16 \<Rightarrow> bytes \<Rightarrow> lifecycle_call" where
  "fdt_report flags raw = Call_A0 (lifecycle_frame 0x36 (event_body 0x0100 flags raw))"

definition initialization_calls :: "u64 \<Rightarrow> sensor_script \<Rightarrow> lifecycle_call list" where
  "initialization_calls g s =
     [Call_Start] @ acknowledged g 0xd4 @ [Call_Out g None, Call_A0 (lifecycle_frame 0xae (sn_controller s))] @
     acknowledged g 0x36 @ [fdt_report (sn_first_flags s) (sn_samples s ! 0)] @
     acknowledged g 0x50 @ [Call_A0 (Some (sn_nav s))] @
     acknowledged g 0x36 @ [fdt_report 0 (sn_samples s ! 1)] @
     acknowledged g 0x82 @ [Call_A0 (lifecycle_frame 0x82 [0, sn_threshold s])] @
     acknowledged g 0x20 @ plaintext_calls (sn_baseline s) @
     acknowledged g 0x36 @ [fdt_report 0 (sn_samples s ! 2)]"

definition acquisition_calls :: "u64 \<Rightarrow> sensor_script \<Rightarrow> lifecycle_call list" where
  "acquisition_calls g s =
     acknowledged g 0x32 @ [Call_A0 (lifecycle_frame 0x32 (event_body 0x0002 (sn_touch_flags s) (sn_touch s)))] @
     acknowledged g 0x22 @ plaintext_calls (sn_image s) @
     acknowledged g 0x34 @ [Call_A0 (lifecycle_frame 0x34 (event_body 0x0200 0 (sn_release s)))] @
     acknowledged g 0x20 @ [Call_Plaintext (Some (sn_post_up s))] @
     acknowledged g 0x50 @ [Call_A0 (Some (sn_release_nav s))]"

definition sound_sample :: "bytes \<Rightarrow> bool" where
  "sound_sample raw \<longleftrightarrow> length raw = 12 \<and> list_all (\<lambda>i. baseline_value raw i \<noteq> None) [0..<6]"

definition sound_image :: "bytes list \<Rightarrow> u16 list \<Rightarrow> bool" where
  "sound_image chunks samples \<longleftrightarrow> [] \<notin> set chunks \<and> length (concat chunks) = PLAINTEXT_LENGTH \<and>
     le16 (concat chunks ! 1) (concat chunks ! 2) = 7690 \<and> decoded_image (concat chunks) = Inr samples"

definition sound_sensor :: "sensor_script \<Rightarrow> u16 list \<Rightarrow> u16 list \<Rightarrow> bool" where
  "sound_sensor s baseline picture \<longleftrightarrow>
     length (sn_controller s) = 16 \<and> sn_controller s ! 1 AND 0x01 = 0 \<and> sn_controller s ! 1 AND 0x02 \<noteq> 0 \<and>
     sn_first_flags s AND NOT FDT_TOUCH_MASK = 0 \<and>
     length (sn_samples s) = 3 \<and> list_all sound_sample (sn_samples s) \<and>
     samples_within (sn_threshold s) (fdt_words (sn_samples s ! 0)) (fdt_words (sn_samples s ! 1)) \<and>
     samples_within (sn_threshold s) (fdt_words (sn_samples s ! 1)) (fdt_words (sn_samples s ! 2)) \<and>
     lifecycle_parse_nav (sn_nav s) \<noteq> None \<and> sound_image (sn_baseline s) baseline \<and>
     sn_touch_flags s \<noteq> 0 \<and> sn_touch_flags s AND NOT FDT_TOUCH_MASK = 0 \<and> length (sn_touch s) = 12 \<and>
     list_all (\<lambda>i. up_value (sn_touch s) (sn_touch_flags s) 0x1d i \<noteq> None) [0..<6] \<and> sound_image (sn_image s) picture \<and>
     length (sn_release s) = 12 \<and> list_all (\<lambda>i. zero_touch_value (sn_release s) i \<noteq> None) [0..<6] \<and>
     lifecycle_parse_nav (sn_release_nav s) \<noteq> None"

text \<open>
  A backend that accepts transfers, an owner whose callbacks only work for themselves, and a record
  \<open>v\<close> the owner keeps of the pictures handed to it, which nothing else touches.
\<close>

type_synonym 'u picture_record = "'u \<Rightarrow> (u32 \<times> u16 list) list"

definition owners_own :: "'u lifecycle_action \<Rightarrow> bool" where
  "owners_own x \<longleftrightarrow> (case x of Owner_Does f \<Rightarrow> True | _ \<Rightarrow> False)"

definition owner_effect :: "'u lifecycle_action list \<Rightarrow> 'u \<Rightarrow> 'u" where
  "owner_effect xs u = foldl (\<lambda>u x. case x of Owner_Does f \<Rightarrow> f u | _ \<Rightarrow> u) u xs"

definition works_for_itself :: "'u picture_record \<Rightarrow> ('u lifecycle \<Rightarrow> 'u lifecycle_action list) \<Rightarrow> bool" where
  "works_for_itself v f \<longleftrightarrow> (\<forall>l. list_all owners_own (f l) \<and> v (owner_effect (f l) (lc_user l)) = v (lc_user l))"

definition cooperative :: "'u picture_record \<Rightarrow> 'u lifecycle_hooks \<Rightarrow> bool" where
  "cooperative v h \<longleftrightarrow> (\<forall>g bs u. fst (lh_submit h g bs u) = Accept \<and> v (snd (lh_submit h g bs u)) = v u) \<and>
     (\<forall>n ss l. snd (lh_image h n ss l) = Callback_True \<and> list_all owners_own (fst (lh_image h n ss l)) \<and>
        v (owner_effect (fst (lh_image h n ss l)) (lc_user l)) = v (lc_user l) @ [(n, ss)]) \<and>
     works_for_itself v (lh_finger_down h) \<and> works_for_itself v (lh_release_tail h) \<and> works_for_itself v (lh_finger_up h)"

section \<open>Steps\<close>

text \<open>What the steps leave alone, and the data they build up.\<close>

definition in_progress :: "u64 \<Rightarrow> lifecycle_material \<Rightarrow> post_tls_phase \<Rightarrow> 'u lifecycle \<Rightarrow> bool" where
  "in_progress g m p l \<longleftrightarrow> lc_phase l = p \<and> lc_generation l = g \<and> lc_material l = m \<and> lc_backend_callback_owned l \<and>
     \<not> lc_login_gate l \<and> \<not> lc_has_login_ready l \<and> \<not> lc_has_handoff l \<and> \<not> lc_irq80_rearm_pending l \<and> lc_error l = None \<and>
     length (lc_current_fdt_table l) = 12 \<and> length (lc_first_up_table l) = 12 \<and> lc_plaintext_pending l = []"

definition data_of :: "'u picture_record \<Rightarrow> 'u lifecycle \<Rightarrow>
    u16 list list \<times> u8 option \<times> bool \<times> bytes option \<times> u16 list option \<times> u32 \<times> (u32 \<times> u16 list) list" where
  "data_of v l = (lc_fdt_raw l, lc_fdt_threshold l, lc_fdt_delta_classified l, lc_learned_fdt_table l, lc_baseline_samples l,
     pa_first_image_pipeline (lc_audit l), v (lc_user l))"

definition sent :: "u64 \<Rightarrow> lifecycle_material \<Rightarrow> u8 \<Rightarrow> post_tls_phase \<Rightarrow> 'u lifecycle \<Rightarrow> bool" where
  "sent g m c p l \<longleftrightarrow> in_progress g m p l \<and> lc_out_pending l \<and> lc_expected_ack l = c \<and> \<not> lc_ack_seen l"

definition idle :: "u64 \<Rightarrow> lifecycle_material \<Rightarrow> post_tls_phase \<Rightarrow> 'u lifecycle \<Rightarrow> bool" where
  "idle g m p l \<longleftrightarrow> in_progress g m p l \<and> \<not> lc_out_pending l"

lemma frame_parsed:
  assumes "length bs \<le> 65531"
  obtains d where "lifecycle_frame c bs = Some d" "lifecycle_parse_message d = Inr \<lparr>control = c, body = bs\<rparr>"
proof -
  obtain f where "a0_build_frame c c bs = Inr f" using a0_build_Inr [OF assms] by blast
  then show thesis
    using that a0_parse_build a0_build_length a0_build_nth_4 by (fastforce simp: lifecycle_frame_def lifecycle_parse_message_def)
qed

lemma command_built: "length bs \<le> 50 \<Longrightarrow> \<exists>f. fixed64_command c bs = Inr f"
  using a0_build_Inr [of bs c "c AND 0xfe"] a0_build_length [of c "c AND 0xfe" bs]
  by (auto simp: fixed64_command_def split: sum.split)

lemma submitted:
  assumes "idle g m q l" "q \<noteq> PT_TERMINAL" "q \<noteq> PT_STOP" "length bs \<le> 50" "cooperative v h"
  shows "sent g m c p (submit_or_fail h (submit_command h c bs p l))"
    "data_of v (submit_or_fail h (submit_command h c bs p l)) = data_of v l"
    "fst (submit_command h c bs p l) = Accept"
proof -
  obtain f where f: "fixed64_command c bs = Inr f" using command_built [OF assms(4)] by blast
  define l1 where "l1 = audited (\<lambda>a. a\<lparr>pa_command := pa_command a + 1\<rparr>)
    (l\<lparr>lc_phase := p, lc_expected_ack := c, lc_ack_seen := False, lc_out_pending := True\<rparr>)"
  obtain r u where ru: "lh_submit h (lc_generation l1) f (lc_user l1) = (r, u)" by (metis surj_pair)
  have "fst (lh_submit h (lc_generation l1) f (lc_user l1)) = Accept"
    "v (snd (lh_submit h (lc_generation l1) f (lc_user l1))) = v (lc_user l1)"
    using assms(5) by (simp_all add: cooperative_def)
  with ru have "r = Accept" and kept: "v u = v (lc_user l1)" by simp_all
  then have "submit_command h c bs p l = (Accept, l1\<lparr>lc_user := u\<rparr>)"
    using f ru assms(1-3) unfolding submit_command_def l1_def idle_def in_progress_def by (simp add: Let_def)
  moreover have "sent g m c p (l1\<lparr>lc_user := u\<rparr>)" "data_of v (l1\<lparr>lc_user := u\<rparr>) = data_of v l"
    using assms(1) kept by (simp_all add: l1_def sent_def idle_def in_progress_def data_of_def)
  ultimately show "sent g m c p (submit_or_fail h (submit_command h c bs p l))"
    "data_of v (submit_or_fail h (submit_command h c bs p l)) = data_of v l" "fst (submit_command h c bs p l) = Accept"
    by (simp_all add: submit_or_fail_def)
qed

abbreviation ack_of :: "u8 \<Rightarrow> a0_message" where
  "ack_of c \<equiv> \<lparr>control = 0xb0, body = [c, 0x01]\<rparr>"

abbreviation run_calls :: "'u lifecycle_hooks \<Rightarrow> lifecycle_call list \<Rightarrow> 'u lifecycle \<Rightarrow> 'u lifecycle" where
  "run_calls h xs l \<equiv> snd (run_ops (lifecycle_step h) xs l)"

lemma audited_idle:
  "idle g m p l \<Longrightarrow> idle g m p (audited f l)"
  by (simp add: idle_def in_progress_def)

lemma audited_data: "(\<And>a. pa_first_image_pipeline (f a) = pa_first_image_pipeline a) \<Longrightarrow> data_of v (audited f l) = data_of v l"
  by (simp add: data_of_def)

lemma completed:
  assumes "sent g m c p l" "p \<noteq> PT_TERMINAL"
  shows "idle g m p (snd (lifecycle_step h (Call_Out g None) l))" "data_of v (snd (lifecycle_step h (Call_Out g None) l)) = data_of v l"
    "lc_expected_ack (snd (lifecycle_step h (Call_Out g None) l)) = c" "\<not> lc_ack_seen (snd (lifecycle_step h (Call_Out g None) l))"
  using assms by (simp_all add: sent_def idle_def in_progress_def data_of_def lifecycle_out_complete_def)

lemma framed:
  assumes "lc_phase l = p" "p \<notin> {PT_TERMINAL, PT_STOP, PT_RELEASE_NAV}" "p = PT_FDT_NAV_1 \<longrightarrow> \<not> lc_ack_seen l" "length bs \<le> 65531"
  shows "snd (lifecycle_step h (Call_A0 (lifecycle_frame c bs)) l) = lifecycle_message h \<lparr>control = c, body = bs\<rparr> l"
proof -
  obtain d where "lifecycle_frame c bs = Some d" "lifecycle_parse_message d = Inr \<lparr>control = c, body = bs\<rparr>"
    using frame_parsed [OF assms(4)] by blast
  with assms(1-3) show ?thesis by (auto simp: lifecycle_handle_a0_def)
qed

lemma acked:
  assumes "sent g m c p l" "p \<notin> {PT_TERMINAL, PT_STOP, PT_RELEASE_NAV}"
  obtains l0 l1 where "run_calls h (acknowledged g c) l = lifecycle_message h (ack_of c) l0" "lc_phase l0 = p" "\<not> lc_ack_seen l0"
    "\<not> lc_irq80_rearm_pending l0" "\<And>k. after_ack h (ack_of c) k l0 = k l1" "idle g m p l1" "lc_ack_seen l1" "data_of v l1 = data_of v l"
proof -
  define l0 where "l0 = snd (lifecycle_step h (Call_Out g None) l)"
  define l1 where "l1 = audited (\<lambda>a. a\<lparr>pa_ack := pa_ack a + 1\<rparr>) (l0\<lparr>lc_ack_seen := True\<rparr>)"
  have l0: "idle g m p l0" "data_of v l0 = data_of v l" "lc_expected_ack l0 = c" "\<not> lc_ack_seen l0"
    using completed [OF assms(1)] assms(2) by (simp_all add: l0_def)
  then have "accept_ack h (ack_of c) l0 = (True, l1)" by (simp add: accept_ack_def l1_def)
  then have k: "after_ack h (ack_of c) k l0 = k l1" for k by (simp add: after_ack_def)
  have l1: "idle g m p l1" "lc_ack_seen l1" "data_of v l1 = data_of v l"
    using l0 by (simp_all add: l1_def idle_def in_progress_def data_of_def)
  have ph: "lc_phase l0 = p" "\<not> lc_irq80_rearm_pending l0" using l0(1) by (simp_all add: idle_def in_progress_def)
  have "run_calls h (acknowledged g c) l = snd (lifecycle_step h (Call_A0 (lifecycle_frame 0xb0 [c, 0x01])) l0)"
    by (simp add: acknowledged_def l0_def del: lifecycle_step.simps)
  also have "\<dots> = lifecycle_message h (ack_of c) l0"
    by (rule framed [OF ph(1) assms(2)]) (use l0(4) in simp_all)
  finally show thesis using that ph l0(4) k l1 by blast
qed

text \<open>An acknowledgement that moves on.\<close>

lemma ack_moves:
  assumes "sent g m c p l" "p \<notin> {PT_TERMINAL, PT_STOP, PT_RELEASE_NAV}"
    and "\<And>l0. lc_phase l0 = p \<Longrightarrow> \<not> lc_irq80_rearm_pending l0 \<Longrightarrow> lifecycle_message h (ack_of c) l0 = after_ack h (ack_of c) k l0"
    and "\<And>l1. idle g m p l1 \<Longrightarrow> k l1 = l1\<lparr>lc_phase := q\<rparr>"
  shows "idle g m q (run_calls h (acknowledged g c) l)" "data_of v (run_calls h (acknowledged g c) l) = data_of v l"
proof -
  show "idle g m q (run_calls h (acknowledged g c) l)"
  proof (rule acked [OF assms(1,2), of h])
    fix l0 l1 assume a: "run_calls h (acknowledged g c) l = lifecycle_message h (ack_of c) l0" "lc_phase l0 = p"
      "\<not> lc_irq80_rearm_pending l0" "\<And>k. after_ack h (ack_of c) k l0 = k l1" "idle g m p l1"
    then have "run_calls h (acknowledged g c) l = l1\<lparr>lc_phase := q\<rparr>" using assms(3,4) by metis
    then show ?thesis using a(5) by (simp add: idle_def in_progress_def)
  qed
  show "data_of v (run_calls h (acknowledged g c) l) = data_of v l"
  proof (rule acked [OF assms(1,2), of h])
    fix l0 l1 assume a: "run_calls h (acknowledged g c) l = lifecycle_message h (ack_of c) l0" "lc_phase l0 = p"
      "\<not> lc_irq80_rearm_pending l0" "\<And>k. after_ack h (ack_of c) k l0 = k l1" "idle g m p l1" "data_of v l1 = data_of v l"
    then have "run_calls h (acknowledged g c) l = l1\<lparr>lc_phase := q\<rparr>" using assms(3,4) by metis
    then show ?thesis using a(6) by (simp add: data_of_def)
  qed
qed

text \<open>The samples.\<close>

lemma event_of_body [simp]:
  "length raw = 12 \<Longrightarrow> event_fields \<lparr>control = c, body = event_body irq flags raw\<rparr> = Some (irq, flags, raw)"
  by (simp add: event_fields_def event_body_def Let_def)

lemma sample_derived:
  assumes "sound_sample raw" "fdt_irq_flags_valid c flags" "length t = 12"
  obtains t' where "derive_baseline_table raw flags c t = (True, t')" "length t' = 12"
proof -
  have "\<And>i. i < 6 \<Longrightarrow> baseline_value raw i \<noteq> None" using assms(1) by (auto simp: sound_sample_def list_all_iff)
  then have "\<exists>t'. fdt_fill (baseline_value raw) [0..<6] t = (True, t')" by (intro fdt_fill_total) simp
  then obtain t' where "fdt_fill (baseline_value raw) [0..<6] t = (True, t')" by blast
  then show thesis using that fdt_fill_table(1) [OF assms(3)] assms(2) by (simp add: derive_baseline_table_def)
qed

lemma sample_taken:
  assumes "idle g m p l" "p = PT_FDT_IRQ100_1 \<or> p = PT_FDT_IRQ100_2 \<or> p = PT_FDT_IRQ100_3" "sound_sample raw"
    "length (lc_fdt_raw l) < 3" "if p = PT_FDT_IRQ100_1 then flags AND NOT FDT_TOUCH_MASK = 0 else flags = 0"
  obtains l1 where "accept_sample \<lparr>control = 0x36, body = event_body 0x0100 flags raw\<rparr> l = (True, l1)"
    "idle g m p l1" "data_of v l1 = (let (r, d) = data_of v l in (r @ [fdt_words raw], d))"
proof -
  have len: "length raw = 12" "length (lc_current_fdt_table l) = 12" "lc_phase l = p"
    using assms(1,3) by (simp_all add: sound_sample_def idle_def in_progress_def)
  define c where "c = (if p = PT_FDT_IRQ100_1 then BASELINE_FIRST_SAMPLE else BASELINE_SAMPLE)"
  have ok: "fdt_irq_flags_valid c flags" using assms(5) by (simp add: c_def fdt_irq_flags_valid_def split: if_splits)
  obtain t where t: "derive_baseline_table raw flags c (lc_current_fdt_table l) = (True, t)" "length t = 12"
    by (rule sample_derived [OF assms(3) ok len(2)])
  define l1 where "l1 = l\<lparr>lc_fdt_raw := lc_fdt_raw l @ [fdt_words raw], lc_current_fdt_table := t\<rparr>"
  have "accept_sample \<lparr>control = 0x36, body = event_body 0x0100 flags raw\<rparr> l = (True, l1)"
    using len ok t assms(4)
    by (cases "p = PT_FDT_IRQ100_1") (simp_all add: accept_sample_def record_fdt_raw_def c_def l1_def
        fdt_derive_baseline_table_def fdt_derive_first_baseline_table_def Let_def)
  moreover have "idle g m p l1" "data_of v l1 = (let (r, d) = data_of v l in (r @ [fdt_words raw], d))"
    using assms(1) t(2) by (simp_all add: l1_def idle_def in_progress_def data_of_def)
  ultimately show thesis by (rule that)
qed

section \<open>Initialisation\<close>

text \<open>A handler that ends in the submission of a command.\<close>

lemma fdt36_submitted:
  assumes "idle g m q l" "q \<noteq> PT_TERMINAL" "q \<noteq> PT_STOP" "cooperative v h"
  shows "sent g m 0x36 p (submit_or_fail h (submit_fdt36 h p l))" "data_of v (submit_or_fail h (submit_fdt36 h p l)) = data_of v l"
proof -
  have len: "length ([0x09, 0x01] @ lc_current_fdt_table l) \<le> 50" using assms(1) by (simp add: idle_def in_progress_def)
  show "sent g m 0x36 p (submit_or_fail h (submit_fdt36 h p l))"
    unfolding submit_fdt36_def by (rule submitted(1) [OF audited_idle [OF assms(1)] assms(2,3) len assms(4)])
  show "data_of v (submit_or_fail h (submit_fdt36 h p l)) = data_of v l"
    unfolding submit_fdt36_def submitted(2) [OF audited_idle [OF assms(1)] assms(2,3) len assms(4)]
    by (simp add: audited_data)
qed

lemma simple_submitted:
  assumes "idle g m q l" "q \<noteq> PT_TERMINAL" "q \<noteq> PT_STOP" "cooperative v h"
  shows "sent g m c p (submit_or_fail h (submit_simple h c p l))" "data_of v (submit_or_fail h (submit_simple h c p l)) = data_of v l"
  unfolding submit_simple_def by (rule submitted [OF assms(1-3) _ assms(4)]; simp)+

lemma arm_submitted:
  assumes "idle g m q l" "q \<noteq> PT_TERMINAL" "q \<noteq> PT_STOP" "cooperative v h"
  shows "sent g m 0x32 PT_FIRST_ARM (submit_or_fail h (submit_arm h False l))" "data_of v (submit_or_fail h (submit_arm h False l)) = data_of v l"
  unfolding submit_arm_def Let_def if_False
  by (rule submitted [OF assms(1-3) _ assms(4)]; use assms(1) in \<open>simp add: idle_def in_progress_def\<close>)+

lemma started:
  assumes "lc_phase l = PT_NOT_STARTED" "in_progress g m PT_NOT_STARTED (l\<lparr>lc_backend_callback_owned := True\<rparr>)" "\<not> lc_out_pending l" "cooperative v h"
  shows "sent g m 0xd4 PT_D4 (run_calls h [Call_Start] l)" "data_of v (run_calls h [Call_Start] l) = data_of v l"
proof -
  define l1 where "l1 = audited (\<lambda>a. a\<lparr>pa_started := True, pa_d4 := pa_d4 a + 1\<rparr>) (l\<lparr>lc_backend_callback_owned := True\<rparr>)"
  have l1: "idle g m PT_NOT_STARTED l1" "data_of v l1 = data_of v l"
    using assms(2,3) by (simp_all add: l1_def idle_def in_progress_def data_of_def)
  note s = submitted [OF l1(1) _ _ _ assms(4), where c = "0xd4" and bs = "[0, 0]" and p = PT_D4, simplified]
  have "run_calls h [Call_Start] l = submit_or_fail h (submit_command h 0xd4 [0, 0] PT_D4 l1)"
    using assms(1) s(3) by (cases "submit_command h 0xd4 [0, 0] PT_D4 l1") (simp add: lifecycle_start_def l1_def submit_or_fail_def)
  then show "sent g m 0xd4 PT_D4 (run_calls h [Call_Start] l)" "data_of v (run_calls h [Call_Start] l) = data_of v l"
    using s l1(2) by simp_all
qed

lemma d4_done:
  assumes "sent g m 0xd4 PT_D4 l" "cooperative v h"
  shows "sent g m 0xaf PT_AF (run_calls h (acknowledged g 0xd4) l)" "data_of v (run_calls h (acknowledged g 0xd4) l) = data_of v l"
proof -
  obtain l0 l1 where a: "run_calls h (acknowledged g 0xd4) l = lifecycle_message h (ack_of 0xd4) l0" "lc_phase l0 = PT_D4"
    "\<And>k. after_ack h (ack_of 0xd4) k l0 = k l1" "idle g m PT_D4 l1" "data_of v l1 = data_of v l"
    by (rule acked [OF assms(1), of h]) auto
  define l2 where "l2 = audited (\<lambda>a. a\<lparr>pa_af := pa_af a + 1\<rparr>) l1"
  have l2: "idle g m PT_D4 l2" "data_of v l2 = data_of v l" using a(4,5) by (simp_all add: l2_def audited_idle audited_data)
  have "run_calls h (acknowledged g 0xd4) l = submit_or_fail h (submit_command h 0xaf
      [0x55, lo8 (lm_af_timestamp (lc_material l1)), hi8 (lm_af_timestamp (lc_material l1)), 0, 0] PT_AF l2)"
    by (simp add: a(1,2) lifecycle_message_def on_d4_def a(3) Let_def l2_def)
  then show "sent g m 0xaf PT_AF (run_calls h (acknowledged g 0xd4) l)" "data_of v (run_calls h (acknowledged g 0xd4) l) = data_of v l"
    using submitted [OF l2(1) _ _ _ assms(2)] l2(2) by simp_all
qed

lemma af_done:
  assumes "sent g m 0xaf PT_AF l" "cooperative v h" "length bs = 16" "bs ! 1 AND 0x01 = 0" "bs ! 1 AND 0x02 \<noteq> 0"
  defines "l1 \<equiv> run_calls h [Call_Out g None, Call_A0 (lifecycle_frame 0xae bs)] l"
  shows "sent g m 0x36 PT_FDT36_1 l1" "data_of v l1 = data_of v l"
proof -
  define l0 where "l0 = snd (lifecycle_step h (Call_Out g None) l)"
  have l0: "idle g m PT_AF l0" "data_of v l0 = data_of v l" using completed [OF assms(1)] by (simp_all add: l0_def)
  then have ph: "lc_phase l0 = PT_AF" by (simp add: idle_def in_progress_def)
  have "l1 = lifecycle_message h \<lparr>control = 0xae, body = bs\<rparr> l0"
    using framed [OF ph, of bs h "0xae"] assms(3) by (simp add: l1_def l0_def del: lifecycle_step.simps)
  also have "\<dots> = submit_or_fail h (submit_fdt36 h PT_FDT36_1 l0)"
    using ph assms(3-5) by (simp add: lifecycle_message_def on_af_def)
  finally show "sent g m 0x36 PT_FDT36_1 l1" "data_of v l1 = data_of v l" using fdt36_submitted [OF l0(1) _ _ assms(2)] l0(2) by simp_all
qed

lemma fdt36_acked:
  assumes "sent g m 0x36 p l" "(p, q) \<in> {(PT_FDT36_1, PT_FDT_IRQ100_1), (PT_FDT36_2, PT_FDT_IRQ100_2), (PT_FDT36_3, PT_FDT_IRQ100_3)}"
  shows "idle g m q (run_calls h (acknowledged g 0x36) l)" "data_of v (run_calls h (acknowledged g 0x36) l) = data_of v l"
  by (rule ack_moves [OF assms(1), where q = q and k = "\<lambda>l1. l1\<lparr>lc_phase := (if lc_phase l1 = PT_FDT36_1 then PT_FDT_IRQ100_1
       else if lc_phase l1 = PT_FDT36_2 then PT_FDT_IRQ100_2 else PT_FDT_IRQ100_3)\<rparr>"];
      use assms(2) in \<open>auto simp: lifecycle_message_def on_fdt36_def idle_def in_progress_def\<close>)+

lemma sample_done:
  assumes "idle g m p l" "cooperative v h" "p = PT_FDT_IRQ100_1 \<or> p = PT_FDT_IRQ100_2" "sound_sample raw" "length (lc_fdt_raw l) < 3"
    "if p = PT_FDT_IRQ100_1 then flags AND NOT FDT_TOUCH_MASK = 0 else flags = 0"
  defines "l1 \<equiv> run_calls h [fdt_report flags raw] l"
  shows "if p = PT_FDT_IRQ100_1 then sent g m 0x50 PT_FDT_NAV_1 l1 else sent g m 0x82 PT_FDT_82 l1"
    "data_of v l1 = (let (r, d) = data_of v l in (r @ [fdt_words raw], d))"
proof -
  let ?e = "\<lparr>control = 0x36, body = event_body 0x0100 flags raw\<rparr>"
  obtain l2 where l2: "accept_sample ?e l = (True, l2)" "idle g m p l2" "data_of v l2 = (let (r, d) = data_of v l in (r @ [fdt_words raw], d))"
    by (rule sample_taken [OF assms(1) _ assms(4-6)]) (use assms(3) in auto)
  define l3 where "l3 = audited (\<lambda>a. a\<lparr>pa_fdt_irq100 := pa_fdt_irq100 a + 1\<rparr>) l2"
  have l3: "idle g m p l3" "data_of v l3 = data_of v l2" using l2(2) by (simp_all add: l3_def audited_idle audited_data)
  have ph: "lc_phase l = p" "lc_phase l3 = p" "lc_phase l2 = p"
    using assms(1) l3(1) l2(2) by (simp_all add: idle_def in_progress_def)
  have "length (event_body 0x0100 flags raw) \<le> 65531" using assms(4) by (simp add: event_body_def sound_sample_def)
  then have "l1 = lifecycle_message h ?e l"
    using framed [OF ph(1), of "event_body 0x0100 flags raw" h "0x36"] assms(3)
    by (auto simp: l1_def fdt_report_def simp del: lifecycle_step.simps)
  also have "\<dots> = (if p = PT_FDT_IRQ100_1 then submit_or_fail h (submit_simple h 0x50 PT_FDT_NAV_1 l3)
      else submit_or_fail h (submit_command h 0x82 [0x00, 0x82, 0x00, 0x02, 0x00] PT_FDT_82 l3))"
    using assms(3) ph l2(1) by (auto simp: lifecycle_message_def on_fdt_irq100_def l3_def [symmetric] Let_def)
  finally have "l1 = \<dots>" .
  then show "if p = PT_FDT_IRQ100_1 then sent g m 0x50 PT_FDT_NAV_1 l1 else sent g m 0x82 PT_FDT_82 l1"
    "data_of v l1 = (let (r, d) = data_of v l in (r @ [fdt_words raw], d))"
    using simple_submitted [OF l3(1) _ _ assms(2)] submitted [OF l3(1) _ _ _ assms(2)] assms(3) l3(2) l2(3) by auto
qed

lemma nav_done:
  assumes "sent g m 0x50 PT_FDT_NAV_1 l" "cooperative v h" "lifecycle_parse_nav nav \<noteq> None"
  defines "l1 \<equiv> run_calls h (acknowledged g 0x50 @ [Call_A0 (Some nav)]) l"
  shows "sent g m 0x36 PT_FDT36_2 l1" "data_of v l1 = data_of v l"
proof -
  obtain l0 l2 where a: "run_calls h (acknowledged g 0x50) l = lifecycle_message h (ack_of 0x50) l0" "lc_phase l0 = PT_FDT_NAV_1"
    "\<not> lc_ack_seen l0" "\<And>k. after_ack h (ack_of 0x50) k l0 = k l2" "idle g m PT_FDT_NAV_1 l2" "lc_ack_seen l2" "data_of v l2 = data_of v l"
    by (rule acked [OF assms(1), of h]) auto
  have "run_calls h (acknowledged g 0x50) l = l2" using a(1-4) by (simp add: lifecycle_message_def on_fdt_nav_def)
  moreover have ph: "lc_phase l2 = PT_FDT_NAV_1" using a(5) by (simp add: idle_def in_progress_def)
  obtain msg where msg: "lifecycle_parse_nav nav = Some msg" using assms(3) by blast
  then have "control msg = 0x50" "length (body msg) = 2409" by (auto simp: lifecycle_parse_nav_def split: if_splits)
  ultimately have "l1 = submit_or_fail h (submit_fdt36 h PT_FDT36_2 l2)"
    using ph a(6) msg by (simp add: l1_def lifecycle_handle_a0_def lifecycle_message_def on_fdt_nav_def)
  then show "sent g m 0x36 PT_FDT36_2 l1" "data_of v l1 = data_of v l"
    using fdt36_submitted [OF a(5) _ _ assms(2)] a(7) by simp_all
qed

lemma classified:
  assumes "lc_fdt_threshold l = Some t" "j < length (lc_fdt_raw l)" "i < j" "samples_within t (lc_fdt_raw l ! i) (lc_fdt_raw l ! j)"
    "idle g m p l"
  obtains l1 where "classify_fdt_delta i j l = (True, l1)" "idle g m p l1"
    "data_of v l1 = (let (r, th, cl, d) = data_of v l in (r, th, True, d))"
proof -
  define l1 where "l1 = audited (\<lambda>a. let a1 = a\<lparr>pa_delta_classification := pa_delta_classification a + 1\<rparr> in
    if True then a1\<lparr>pa_delta_within := pa_delta_within a + 1\<rparr> else a1\<lparr>pa_delta_outside := pa_delta_outside a + 1\<rparr>)
    (l\<lparr>lc_fdt_delta_classified := True\<rparr>)"
  have "classify_fdt_delta i j l = (True, l1)" using assms(1-4) by (simp add: classify_fdt_delta_def l1_def)
  moreover have "idle g m p l1" "data_of v l1 = (let (r, th, cl, d) = data_of v l in (r, th, True, d))"
    using assms(5) by (simp_all add: l1_def idle_def in_progress_def data_of_def Let_def)
  ultimately show thesis by (rule that)
qed

lemma threshold_done:
  assumes "sent g m 0x82 PT_FDT_82 l" "cooperative v h" "data_of v l = ([a, b], th, cl, d)" "samples_within t a b"
  defines "l1 \<equiv> run_calls h (acknowledged g 0x82 @ [Call_A0 (lifecycle_frame 0x82 [0, t])]) l"
  shows "sent g m 0x20 PT_FDT_20 l1" "data_of v l1 = ([a, b], Some t, True, d)"
proof -
  obtain l0 l2 where a: "run_calls h (acknowledged g 0x82) l = lifecycle_message h (ack_of 0x82) l0" "lc_phase l0 = PT_FDT_82"
    "\<not> lc_ack_seen l0" "\<And>k. after_ack h (ack_of 0x82) k l0 = k l2" "idle g m PT_FDT_82 l2" "lc_ack_seen l2" "data_of v l2 = data_of v l"
    by (rule acked [OF assms(1), of h]) auto
  have r: "run_calls h (acknowledged g 0x82) l = l2" using a(1-4) by (simp add: lifecycle_message_def on_fdt_82_def)
  have ph: "lc_phase l2 = PT_FDT_82" using a(5) by (simp add: idle_def in_progress_def)
  define l3 where "l3 = l2\<lparr>lc_fdt_threshold := Some t\<rparr>"
  have l3: "idle g m PT_FDT_82 l3" "data_of v l3 = ([a, b], Some t, cl, d)" "lc_fdt_threshold l3 = Some t" "lc_fdt_raw l3 = [a, b]"
    using a(5,7) assms(3) by (simp_all add: l3_def idle_def in_progress_def data_of_def)
  obtain l4 where l4: "classify_fdt_delta 0 1 l3 = (True, l4)" "idle g m PT_FDT_82 l4"
    "data_of v l4 = (let (r, th, cl, d) = data_of v l3 in (r, th, True, d))"
    by (rule classified [OF l3(3) _ _ _ l3(1), of 1 0]) (use l3(4) assms(4) in simp_all)
  have "l1 = lifecycle_message h \<lparr>control = 0x82, body = [0, t]\<rparr> l2"
    using framed [OF ph, of "[0, t]" h "0x82"] r by (simp add: l1_def del: lifecycle_step.simps)
  also have "\<dots> = submit_or_fail h (submit_simple h 0x20 PT_FDT_20 l4)"
    using ph a(6) l4(1) by (simp add: lifecycle_message_def on_fdt_82_def l3_def)
  finally show "sent g m 0x20 PT_FDT_20 l1" "data_of v l1 = ([a, b], Some t, True, d)"
    using simple_submitted [OF l4(2) _ _ assms(2)] l4(3) l3(2) by simp_all
qed

lemma moved_by_ack:
  assumes "sent g m c p l" "(c, p, q) \<in> {(0x20, PT_FDT_20, PT_FDT_B0), (0x22, PT_FIRST_22, PT_FIRST_B0),
    (0x34, PT_RELEASE_34, PT_RELEASE_IRQ200), (0x20, PT_RELEASE_20, PT_RELEASE_B0), (0x50, PT_RELEASE_50, PT_RELEASE_NAV)}"
  shows "idle g m q (run_calls h (acknowledged g c) l)" "data_of v (run_calls h (acknowledged g c) l) = data_of v l"
  by (rule ack_moves [OF assms(1), where q = q and k = "\<lambda>l1. l1\<lparr>lc_phase := q\<rparr>"];
      use assms(2) in \<open>auto simp: lifecycle_message_def on_ack_to_def\<close>)+

section \<open>Images\<close>

text \<open>What the last chunk of an image leads to.\<close>

definition image_done :: "'u lifecycle_hooks \<Rightarrow> u16 list \<Rightarrow> 'u lifecycle \<Rightarrow> 'u lifecycle" where
  "image_done h samples l = (if lc_phase l = PT_FDT_B0 then baseline_image h samples l
     else if lc_phase l = PT_FIRST_B0 then first_image h samples l else second_image h samples l)"

lemma nth_prefix: "i < length xs \<Longrightarrow> xs @ ys = zs \<Longrightarrow> zs ! i = xs ! i"
  by (auto simp: nth_append)

lemma chunks_fed:
  assumes "lc_phase l = PT_FDT_B0 \<or> lc_phase l = PT_FIRST_B0" "[] \<notin> set chunks" "chunks \<noteq> []"
    "lc_plaintext_pending l @ concat chunks = full" "length full = PLAINTEXT_LENGTH" "le16 (full ! 1) (full ! 2) = 7690"
    "decoded_image full = Inr samples"
  shows "run_calls h (plaintext_calls chunks) l = image_done h samples (l\<lparr>lc_plaintext_pending := []\<rparr>)"
  using assms
proof (induction chunks arbitrary: l)
  case (Cons c cs)
  define pending where "pending = lc_plaintext_pending l @ c"
  have full: "pending @ concat cs = full" using Cons.prems(4) by (simp add: pending_def)
  have head: "3 \<le> length pending \<Longrightarrow> le16 (pending ! Suc 0) (pending ! 2) = 7690"
    using nth_prefix [OF _ full, of 1] nth_prefix [OF _ full, of 2] Cons.prems(6) by simp
  have room: "\<not> length c > PLAINTEXT_LENGTH" "\<not> length (lc_plaintext_pending l) > PLAINTEXT_LENGTH - length c"
    using Cons.prems(4,5) by (auto simp: pending_def)
  have ph: "lc_phase l \<noteq> PT_TERMINAL" "lc_phase l \<noteq> PT_STOP" "lc_phase l \<noteq> PT_RELEASE_B0"
    "\<not> (lc_phase l \<noteq> PT_FDT_B0 \<and> lc_phase l \<noteq> PT_FIRST_B0 \<and> lc_phase l \<noteq> PT_SECOND_B0)"
    using Cons.prems(1) by auto
  show ?case
  proof (cases "cs = []")
    case True
    then have "pending = full" using full by simp
    with room ph Cons.prems(5,7) head have "lifecycle_handle_plaintext h (Some c) l = image_done h samples (l\<lparr>lc_plaintext_pending := []\<rparr>)"
      unfolding lifecycle_handle_plaintext_def by (simp add: image_done_def pending_def [symmetric] Let_def) blast
    then show ?thesis using True by (simp add: plaintext_calls_def)
  next
    case False
    then have "concat cs \<noteq> []" using Cons.prems(2) by (cases cs) auto
    then have less: "length pending < PLAINTEXT_LENGTH" using full Cons.prems(5) by (metis length_append less_add_same_cancel1 length_greater_0_conv)
    define l1 where "l1 = l\<lparr>lc_plaintext_pending := pending\<rparr>"
    have "lifecycle_handle_plaintext h (Some c) l = (if length pending < 3 then l1 else
        let expected = unat (le16 (pending ! 1) (pending ! 2)) + 3 in
        if expected \<noteq> PLAINTEXT_LENGTH \<or> length pending > expected then lifecycle_refuse h POST_TLS_ERROR_IMAGE l1
        else if length pending < expected then l1 else undefined)"
      using room ph less unfolding lifecycle_handle_plaintext_def pending_def l1_def
      using Cons.prems(1) by (cases "length pending < 3"; elim disjE) (simp_all add: Let_def pending_def)
    also have "\<dots> = l1" using head less by (cases "length pending < 3") simp_all
    finally have "snd (lifecycle_step h (Call_Plaintext (Some c)) l) = l1" by simp
    then have "run_calls h (plaintext_calls (c # cs)) l = run_calls h (plaintext_calls cs) l1"
      by (simp add: plaintext_calls_def del: lifecycle_step.simps)
    also have "\<dots> = image_done h samples (l1\<lparr>lc_plaintext_pending := []\<rparr>)"
      by (rule Cons.IH) (use Cons.prems False full in \<open>auto simp: l1_def\<close>)
    finally show ?thesis by (simp add: l1_def)
  qed
qed simp

lemma image_fed:
  assumes "idle g m p l" "p = PT_FDT_B0 \<or> p = PT_FIRST_B0" "sound_image chunks samples"
  shows "run_calls h (plaintext_calls chunks) l = image_done h samples l"
proof -
  have l: "lc_phase l = p" "lc_plaintext_pending l = []" using assms(1) by (simp_all add: idle_def in_progress_def)
  have "chunks \<noteq> []" using assms(3) by (auto simp: sound_image_def)
  then have "run_calls h (plaintext_calls chunks) l = image_done h samples (l\<lparr>lc_plaintext_pending := []\<rparr>)"
    using assms(2,3) l by (intro chunks_fed) (auto simp: sound_image_def)
  moreover have "l\<lparr>lc_plaintext_pending := []\<rparr> = l" using l(2) by simp
  ultimately show ?thesis by simp
qed

lemma baseline_done:
  assumes "idle g m PT_FDT_B0 l" "cooperative v h" "sound_image chunks samples" "data_of v l = (r, th, cl, lrn, b, n)"
  defines "l1 \<equiv> run_calls h (plaintext_calls chunks) l"
  shows "sent g m 0x36 PT_FDT36_3 l1" "data_of v l1 = (r, th, cl, lrn, Some samples, n)"
proof -
  define l2 where "l2 = audited (\<lambda>a. a\<lparr>pa_baseline_b0 := pa_baseline_b0 a + 1, pa_baseline_decode := pa_baseline_decode a + 1\<rparr>)
    (l\<lparr>lc_baseline_samples := Some samples, lc_phase := PT_FDT36_3\<rparr>)"
  have l2: "idle g m PT_FDT36_3 l2" "data_of v l2 = (r, th, cl, lrn, Some samples, n)"
    using assms(1,4) by (simp_all add: l2_def idle_def in_progress_def data_of_def)
  have "l1 = submit_or_fail h (submit_fdt36 h PT_FDT36_3 l2)"
    using image_fed [OF assms(1) _ assms(3)] assms(1)
    by (simp add: l1_def image_done_def baseline_image_def l2_def idle_def in_progress_def)
  then show "sent g m 0x36 PT_FDT36_3 l1" "data_of v l1 = (r, th, cl, lrn, Some samples, n)"
    using fdt36_submitted [OF l2(1) _ _ assms(2)] l2(2) by simp_all
qed

section \<open>Arming and acquisition\<close>

lemma learned_done:
  assumes "idle g m PT_FDT_IRQ100_3 l" "cooperative v h" "sound_sample raw" "data_of v l = ([a, b], Some t, True, None, d)"
    "samples_within t b (fdt_words raw)"
  defines "l1 \<equiv> run_calls h [fdt_report 0 raw] l"
  shows "sent g m 0x32 PT_FIRST_ARM l1" "\<exists>table. data_of v l1 = ([a, b, fdt_words raw], Some t, True, Some table, d)"
proof -
  let ?e = "\<lparr>control = 0x36, body = event_body 0x0100 0 raw\<rparr>"
  have raw: "lc_fdt_raw l = [a, b]" using assms(4) by (simp add: data_of_def)
  obtain l2 where l2: "accept_sample ?e l = (True, l2)" "idle g m PT_FDT_IRQ100_3 l2"
    "data_of v l2 = (let (r, d) = data_of v l in (r @ [fdt_words raw], d))"
    by (rule sample_taken [OF assms(1) _ assms(3), of 0]) (use raw in auto)
  define l3 where "l3 = audited (\<lambda>a. a\<lparr>pa_fdt_irq100 := pa_fdt_irq100 a + 1\<rparr>) l2"
  have l3: "idle g m PT_FDT_IRQ100_3 l3" "data_of v l3 = ([a, b, fdt_words raw], Some t, True, None, d)"
    using l2(2,3) assms(4) by (simp_all add: l3_def audited_idle audited_data)
  then have f: "lc_fdt_threshold l3 = Some t" "lc_fdt_raw l3 = [a, b, fdt_words raw]" "lc_fdt_delta_classified l3"
    by (simp_all add: data_of_def)
  obtain l4 where l4: "classify_fdt_delta 1 2 l3 = (True, l4)" "idle g m PT_FDT_IRQ100_3 l4"
    "data_of v l4 = (let (r, th, cl, d) = data_of v l3 in (r, th, True, d))"
    by (rule classified [OF f(1) _ _ _ l3(1), of 2 1]) (use f(2) assms(5) in simp_all)
  define l5 where "l5 = audited (\<lambda>a. a\<lparr>pa_fresh_fdt := pa_fresh_fdt a + 1, pa_learned_fdt_ready := True\<rparr>)
    (l4\<lparr>lc_learned_fdt_table := Some (lc_current_fdt_table l4)\<rparr>)"
  have l5: "idle g m PT_FDT_IRQ100_3 l5" "data_of v l5 = ([a, b, fdt_words raw], Some t, True, Some (lc_current_fdt_table l4), d)"
    using l4(2,3) l3(2) by (simp_all add: l5_def idle_def in_progress_def data_of_def)
  have ph: "lc_phase l = PT_FDT_IRQ100_3" "lc_phase l2 = PT_FDT_IRQ100_3" using assms(1) l2(2) by (simp_all add: idle_def in_progress_def)
  have "l1 = lifecycle_message h ?e l"
    using framed [OF ph(1), of "event_body 0x0100 0 raw" h "0x36"] assms(3)
    by (simp add: l1_def fdt_report_def event_body_def sound_sample_def del: lifecycle_step.simps)
  also have "\<dots> = finish_initialization h ?e l3"
    using ph l2(1) by (simp add: lifecycle_message_def on_fdt_irq100_def l3_def)
  also have "\<dots> = submit_or_fail h (submit_arm h False l5)"
    using f(3) l4(1) by (simp add: finish_initialization_def l5_def)
  finally show "sent g m 0x32 PT_FIRST_ARM l1" "\<exists>table. data_of v l1 = ([a, b, fdt_words raw], Some t, True, Some table, d)"
    using arm_submitted [OF l5(1) _ _ assms(2)] l5(2) by simp_all
qed

lemma arm_acked:
  assumes "sent g m 0x32 PT_FIRST_ARM l"
  shows "idle g m PT_FIRST_IRQ2 (run_calls h (acknowledged g 0x32) l)" "data_of v (run_calls h (acknowledged g 0x32) l) = data_of v l"
proof -
  obtain l0 l1 where a: "run_calls h (acknowledged g 0x32) l = lifecycle_message h (ack_of 0x32) l0" "lc_phase l0 = PT_FIRST_ARM"
    "\<not> lc_irq80_rearm_pending l0" "\<And>k. after_ack h (ack_of 0x32) k l0 = k l1" "idle g m PT_FIRST_ARM l1" "data_of v l1 = data_of v l"
    by (rule acked [OF assms, of h]) auto
  have "\<not> lc_irq80_rearm_pending l1" "\<not> lc_has_handoff l1" "\<not> lc_has_login_ready l1"
    using a(5) by (simp_all add: idle_def in_progress_def)
  then have "run_calls h (acknowledged g 0x32) l = l1\<lparr>lc_phase := PT_FIRST_IRQ2\<rparr>"
    unfolding a(1) by (simp add: lifecycle_message_def on_first_arm_def a(2-4) Let_def)
  then show "idle g m PT_FIRST_IRQ2 (run_calls h (acknowledged g 0x32) l)" "data_of v (run_calls h (acknowledged g 0x32) l) = data_of v l"
    using a(5,6) by (simp_all add: idle_def in_progress_def data_of_def)
qed

text \<open>Calls that only work for the owner.\<close>

lemma owner_acts:
  "list_all owners_own xs \<Longrightarrow> lifecycle_acts h xs l = l\<lparr>lc_user := owner_effect xs (lc_user l)\<rparr>"
proof (induction xs arbitrary: l)
  case Nil
  show ?case by (simp add: lifecycle_acts_def owner_effect_def)
next
  case (Cons x xs)
  then obtain f where "x = Owner_Does f" by (cases x) (simp_all add: owners_own_def)
  then show ?case
    using Cons.IH [of "l\<lparr>lc_user := f (lc_user l)\<rparr>"] Cons.prems by (simp add: lifecycle_acts_def owner_effect_def)
qed

lemma owner_kept:
  "idle g m p (l\<lparr>lc_user := u\<rparr>) = idle g m p l"
  "v u = v (lc_user l) \<Longrightarrow> data_of v (l\<lparr>lc_user := u\<rparr>) = data_of v l"
  by (simp_all add: idle_def in_progress_def data_of_def)

lemma owner_acts_kept:
  assumes "works_for_itself v f" "idle g m p l"
  shows "idle g m p (lifecycle_acts h (f l) l)" "data_of v (lifecycle_acts h (f l) l) = data_of v l"
  using assms by (simp_all add: works_for_itself_def owner_acts owner_kept)

lemma contact_done:
  assumes "idle g m PT_FIRST_IRQ2 l" "cooperative v h" "flags \<noteq> 0" "flags AND NOT FDT_TOUCH_MASK = 0" "length raw = 12"
    "list_all (\<lambda>i. up_value raw flags 0x1d i \<noteq> None) [0..<6]"
  defines "l1 \<equiv> run_calls h [Call_A0 (lifecycle_frame 0x32 (event_body 0x0002 flags raw))] l"
  shows "sent g m 0x22 PT_FIRST_22 l1" "data_of v l1 = data_of v l"
proof -
  let ?e = "\<lparr>control = 0x32, body = event_body 0x0002 flags raw\<rparr>"
  have up: "length (lc_first_up_table l) = 12" and ph: "lc_phase l = PT_FIRST_IRQ2" and gate: "\<not> lc_login_gate l"
    using assms(1) by (simp_all add: idle_def in_progress_def)
  have "\<exists>t. fdt_fill (up_value raw flags 0x1d) [0..<6] (lc_first_up_table l) = (True, t)"
    by (rule fdt_fill_total) (use assms(6) in \<open>auto simp: list_all_iff\<close>)
  then obtain t where t: "fdt_derive_up_table raw flags 0x1d (lc_first_up_table l) = (True, t)"
    using assms(3,4) by (auto simp: fdt_derive_up_table_def fdt_irq_flags_valid_def)
  then have len: "length t = 12"
    using up assms(3,4) fdt_fill_table(1) [OF up] by (simp add: fdt_derive_up_table_def split: if_splits)
  define l2 where "l2 = audited (\<lambda>a. a\<lparr>pa_first_irq0002 := pa_first_irq0002 a + 1\<rparr>) (l\<lparr>lc_first_up_table := t, lc_irq80_count := 0\<rparr>)"
  have l2: "idle g m PT_FIRST_IRQ2 l2" "data_of v l2 = data_of v l"
    using assms(1) len by (simp_all add: l2_def idle_def in_progress_def data_of_def)
  define l3 where "l3 = lifecycle_acts h (lh_finger_down h l2) l2"
  have "works_for_itself v (lh_finger_down h)" using assms(2) by (simp add: cooperative_def)
  note l3 = owner_acts_kept [OF this l2(1), of h, folded l3_def]
  define l4 where "l4 = audited (\<lambda>a. a\<lparr>pa_first_image_command := pa_first_image_command a + 1\<rparr>) l3"
  have l4: "idle g m PT_FIRST_IRQ2 l4" "data_of v l4 = data_of v l" using l3 l2(2) by (simp_all add: l4_def audited_idle audited_data)
  have "l1 = lifecycle_message h ?e l"
    using framed [OF ph, of "event_body 0x0002 flags raw" h "0x32"] assms(5)
    by (simp add: l1_def event_body_def del: lifecycle_step.simps)
  also have "\<dots> = first_contact h ?e flags raw l"
    using ph gate assms(3-5) by (simp add: lifecycle_message_def on_irq2_def fdt_irq_flags_valid_def)
  also have "\<dots> = submit_or_fail h (submit_simple h 0x22 PT_FIRST_22 l4)"
    using t by (simp add: first_contact_def l2_def l3_def l4_def Let_def)
  finally show "sent g m 0x22 PT_FIRST_22 l1" "data_of v l1 = data_of v l"
    using simple_submitted [OF l4(1) _ _ assms(2)] l4(2) by simp_all
qed

lemma picture_done:
  assumes "idle g m PT_FIRST_B0 l" "cooperative v h" "sound_image chunks samples" "data_of v l = (r, th, cl, lrn, b, n, ps)"
  defines "l1 \<equiv> run_calls h (plaintext_calls chunks) l"
  shows "sent g m 0x34 PT_RELEASE_34 l1" "data_of v l1 = (r, th, cl, lrn, b, n + 1, ps @ [(1, samples)])"
proof -
  define l2 where "l2 = audited (\<lambda>a. a\<lparr>pa_first_image_b0 := pa_first_image_b0 a + 1, pa_first_image_decode := pa_first_image_decode a + 1\<rparr>) l"
  have l2: "idle g m PT_FIRST_B0 l2" "data_of v l2 = data_of v l" using assms(1) by (simp_all add: l2_def audited_idle audited_data)
  obtain calls where reply: "lh_image h 1 samples l2 = (calls, Callback_True)" and own: "list_all owners_own calls"
    and kept: "v (owner_effect calls (lc_user l2)) = v (lc_user l2) @ [(1, samples)]"
    using assms(2) unfolding cooperative_def by (metis prod.collapse)
  define l3 where "l3 = lifecycle_acts h calls l2"
  have l3: "idle g m PT_FIRST_B0 l3" "data_of v l3 = (r, th, cl, lrn, b, n, ps @ [(1, samples)])"
    using l2 assms(4) kept by (simp_all add: l3_def owner_acts [OF own] owner_kept(1)) (simp add: data_of_def)
  define l4 where "l4 = audited (\<lambda>a. a\<lparr>pa_first_image_pipeline := pa_first_image_pipeline a + 1, pa_release_0x34 := pa_release_0x34 a + 1\<rparr>) l3"
  have l4: "idle g m PT_FIRST_B0 l4" "data_of v l4 = (r, th, cl, lrn, b, n + 1, ps @ [(1, samples)])"
    using l3 by (simp_all add: l4_def audited_idle) (simp add: data_of_def)
  have up: "length ([0x0a, 0x01] @ lc_first_up_table l3) \<le> 50" and ph: "lc_phase l = PT_FIRST_B0" "\<not> lc_login_gate l"
    using l3(1) assms(1) by (simp_all add: idle_def in_progress_def)
  have "l1 = submit_or_fail h (submit_command h 0x34 ([0x0a, 0x01] @ lc_first_up_table l3) PT_RELEASE_34 l4)"
    using image_fed [OF assms(1) _ assms(3), of h] ph reply
    by (simp add: l1_def image_done_def first_image_def deliver_image_def l2_def [symmetric] l3_def [symmetric] l4_def)
  then show "sent g m 0x34 PT_RELEASE_34 l1" "data_of v l1 = (r, th, cl, lrn, b, n + 1, ps @ [(1, samples)])"
    using submitted [OF l4(1) _ _ up assms(2)] l4(2) by simp_all
qed

section \<open>The release\<close>

lemma release_done:
  assumes "idle g m PT_RELEASE_IRQ200 l" "cooperative v h" "length raw = 12" "list_all (\<lambda>i. zero_touch_value raw i \<noteq> None) [0..<6]"
  defines "l1 \<equiv> run_calls h [Call_A0 (lifecycle_frame 0x34 (event_body 0x0200 0 raw))] l"
  shows "sent g m 0x20 PT_RELEASE_20 l1" "data_of v l1 = data_of v l"
proof -
  let ?e = "\<lparr>control = 0x34, body = event_body 0x0200 0 raw\<rparr>"
  have ph: "lc_phase l = PT_RELEASE_IRQ200" using assms(1) by (simp add: idle_def in_progress_def)
  have "\<exists>t. fdt_fill (zero_touch_value raw) [0..<6] (lc_fresh_down_table l) = (True, t)"
    by (rule fdt_fill_total) (use assms(4) in \<open>auto simp: list_all_iff\<close>)
  then obtain t where t: "fdt_derive_down_table raw 0 (lc_fresh_down_table l) = (True, t)"
    by (auto simp: fdt_derive_down_table_def derive_zero_touch_table_def fdt_irq_flags_valid_def)
  define l2 where "l2 = audited (\<lambda>a. a\<lparr>pa_irq0200 := pa_irq0200 a + 1, pa_fresh_down_table_count := pa_fresh_down_table_count a + 1,
    pa_fresh_down_table := True, pa_post_up_0x20 := pa_post_up_0x20 a + 1\<rparr>) (l\<lparr>lc_fresh_down_table := t, lc_fresh_down_valid := True\<rparr>)"
  have l2: "idle g m PT_RELEASE_IRQ200 l2" "data_of v l2 = data_of v l"
    using assms(1) by (simp_all add: l2_def idle_def in_progress_def data_of_def)
  have "l1 = lifecycle_message h ?e l"
    using framed [OF ph, of "event_body 0x0200 0 raw" h "0x34"] assms(3)
    by (simp add: l1_def event_body_def del: lifecycle_step.simps)
  also have "\<dots> = submit_or_fail h (submit_simple h 0x20 PT_RELEASE_20 l2)"
    using ph assms(3) t by (simp add: lifecycle_message_def on_release_irq_def l2_def Let_def)
  finally show "sent g m 0x20 PT_RELEASE_20 l1" "data_of v l1 = data_of v l"
    using simple_submitted [OF l2(1) _ _ assms(2)] l2(2) by simp_all
qed

lemma post_up_done:
  fixes bs :: bytes
  assumes "idle g m PT_RELEASE_B0 l" "cooperative v h"
  defines "l1 \<equiv> run_calls h [Call_Plaintext (Some bs)] l"
  shows "sent g m 0x50 PT_RELEASE_50 l1" "data_of v l1 = data_of v l"
proof -
  define l2 where "l2 = audited (\<lambda>a. a\<lparr>pa_post_up_b0 := pa_post_up_b0 a + 1, pa_nav_0x50 := pa_nav_0x50 a + 1\<rparr>) l"
  have l2: "idle g m PT_RELEASE_B0 l2" "data_of v l2 = data_of v l" using assms(1) by (simp_all add: l2_def audited_idle audited_data)
  have "lc_phase l = PT_RELEASE_B0" using assms(1) by (simp add: idle_def in_progress_def)
  then have "l1 = submit_or_fail h (submit_simple h 0x50 PT_RELEASE_50 l2)"
    by (simp add: l1_def l2_def lifecycle_handle_plaintext_def)
  then show "sent g m 0x50 PT_RELEASE_50 l1" "data_of v l1 = data_of v l"
    using simple_submitted [OF l2(1) _ _ assms(2)] l2(2) by simp_all
qed

lemma release_finished:
  assumes "idle g m PT_RELEASE_NAV l" "cooperative v h" "lifecycle_parse_nav nav \<noteq> None"
    "lm_capture_profile m = PROFILE_SINGLE_ACQUISITION"
  defines "l1 \<equiv> run_calls h [Call_A0 (Some nav)] l"
  shows "idle g m PT_STOP l1" "data_of v l1 = data_of v l"
proof -
  obtain msg where msg: "lifecycle_parse_nav nav = Some msg" using assms(3) by blast
  then have shape: "control msg = 0x50" "length (body msg) = 2409" by (auto simp: lifecycle_parse_nav_def split: if_splits)
  have ph: "lc_phase l = PT_RELEASE_NAV" "lc_material l = m" using assms(1) by (simp_all add: idle_def in_progress_def)
  define l2 where "l2 = audited (\<lambda>a. a\<lparr>pa_nav_response := pa_nav_response a + 1, pa_release_tail_complete := pa_release_tail_complete a + 1,
    pa_single_acquisition_terminal := pa_single_acquisition_terminal a + 1\<rparr>) (l\<lparr>lc_phase := PT_STOP\<rparr>)"
  have l2: "idle g m PT_STOP l2" "data_of v l2 = data_of v l"
    using assms(1) by (simp_all add: l2_def idle_def in_progress_def data_of_def)
  define l3 where "l3 = lifecycle_acts h (lh_release_tail h l2) l2"
  have "works_for_itself v (lh_release_tail h)" using assms(2) by (simp add: cooperative_def)
  note l3 = owner_acts_kept [OF this l2(1), of h, folded l3_def]
  define l4 where "l4 = lifecycle_acts h (lh_finger_up h l3) l3"
  have "works_for_itself v (lh_finger_up h)" using assms(2) by (simp add: cooperative_def)
  note l4 = owner_acts_kept [OF this l3(1), of h, folded l4_def]
  have "l1 = maybe_submit_rearm h l4"
    using ph shape msg assms(4)
    by (simp add: l1_def lifecycle_handle_a0_def lifecycle_message_def on_release_nav_def l2_def l3_def l4_def Let_def)
  also have "\<dots> = l4" using l4(1) by (simp add: maybe_submit_rearm_def idle_def in_progress_def)
  finally show "idle g m PT_STOP l1" "data_of v l1 = data_of v l" using l4 l3(2) l2(2) by simp_all
qed

section \<open>A whole acquisition\<close>

lemma sound_sensor_samples:
  assumes "sound_sensor s baseline picture"
  obtains x y z where "sn_samples s = [x, y, z]" "sound_sample x" "sound_sample y" "sound_sample z"
    "samples_within (sn_threshold s) (fdt_words x) (fdt_words y)" "samples_within (sn_threshold s) (fdt_words y) (fdt_words z)"
proof -
  have "length (sn_samples s) = 3" using assms by (simp add: sound_sensor_def)
  then obtain x y z where "sn_samples s = [x, y, z]" by (auto simp: length_Suc_conv numeral_3_eq_3)
  then show thesis using that assms by (simp add: sound_sensor_def numeral_2_eq_2)
qed

lemma initialization_done:
  assumes l: "lc_phase l = PT_NOT_STARTED" "in_progress g m PT_NOT_STARTED (l\<lparr>lc_backend_callback_owned := True\<rparr>)"
    "\<not> lc_out_pending l" "data_of v l = ([], None, False, None, None, 0, ps)"
    and h: "cooperative v h" and s: "sound_sensor s baseline picture"
  defines "l1 \<equiv> run_calls h (initialization_calls g s) l"
  shows "sent g m 0x32 PT_FIRST_ARM l1"
    "\<exists>table. data_of v l1 = (map fdt_words (sn_samples s), Some (sn_threshold s), True, Some table, Some baseline, 0, ps)"
proof -
  obtain x y z where xyz: "sn_samples s = [x, y, z]" "sound_sample x" "sound_sample y" "sound_sample z"
    "samples_within (sn_threshold s) (fdt_words x) (fdt_words y)" "samples_within (sn_threshold s) (fdt_words y) (fdt_words z)"
    by (rule sound_sensor_samples [OF s])
  define a1 where "a1 = run_calls h [Call_Start] l"
  define a2 where "a2 = run_calls h (acknowledged g 0xd4) a1"
  define a3 where "a3 = run_calls h [Call_Out g None, Call_A0 (lifecycle_frame 0xae (sn_controller s))] a2"
  define a4 where "a4 = run_calls h (acknowledged g 0x36) a3"
  define a5 where "a5 = run_calls h [fdt_report (sn_first_flags s) x] a4"
  define a6 where "a6 = run_calls h (acknowledged g 0x50 @ [Call_A0 (Some (sn_nav s))]) a5"
  define a7 where "a7 = run_calls h (acknowledged g 0x36) a6"
  define a8 where "a8 = run_calls h [fdt_report 0 y] a7"
  define a9 where "a9 = run_calls h (acknowledged g 0x82 @ [Call_A0 (lifecycle_frame 0x82 [0, sn_threshold s])]) a8"
  define b1 where "b1 = run_calls h (acknowledged g 0x20) a9"
  define b2 where "b2 = run_calls h (plaintext_calls (sn_baseline s)) b1"
  define b3 where "b3 = run_calls h (acknowledged g 0x36) b2"
  have split: "l1 = run_calls h [fdt_report 0 z] b3"
    by (simp add: l1_def initialization_calls_def xyz(1) a1_def a2_def a3_def a4_def a5_def a6_def a7_def a8_def a9_def b1_def b2_def b3_def
        del: lifecycle_step.simps)
  note 1 = started [OF l(1-3) h, folded a1_def]
  note 2 = d4_done [OF 1(1) h, folded a2_def]
  have 3: "sent g m 0x36 PT_FDT36_1 a3" "data_of v a3 = data_of v a2"
    unfolding a3_def by (rule af_done [OF 2(1) h]; use s in \<open>simp add: sound_sensor_def\<close>)+
  have 4: "idle g m PT_FDT_IRQ100_1 a4" "data_of v a4 = data_of v a3" using fdt36_acked [OF 3(1)] by (simp_all add: a4_def)
  then have d4: "data_of v a4 = ([], None, False, None, None, 0, ps)" using 1 2 3 l(4) by simp
  then have r4: "lc_fdt_raw a4 = []" by (simp add: data_of_def)
  have 5: "sent g m 0x50 PT_FDT_NAV_1 a5" "data_of v a5 = ([fdt_words x], None, False, None, None, 0, ps)"
    using sample_done [OF 4(1) h _ xyz(2), of "sn_first_flags s"] r4 s d4 by (simp_all add: a5_def sound_sensor_def)
  have 6: "sent g m 0x36 PT_FDT36_2 a6" "data_of v a6 = data_of v a5"
    unfolding a6_def by (rule nav_done [OF 5(1) h]; use s in \<open>simp add: sound_sensor_def\<close>)+
  have 7: "idle g m PT_FDT_IRQ100_2 a7" "data_of v a7 = data_of v a6" using fdt36_acked [OF 6(1)] by (simp_all add: a7_def)
  then have d7: "data_of v a7 = ([fdt_words x], None, False, None, None, 0, ps)" using 5 6 by simp
  then have r7: "lc_fdt_raw a7 = [fdt_words x]" by (simp add: data_of_def)
  have 8: "sent g m 0x82 PT_FDT_82 a8" "data_of v a8 = ([fdt_words x, fdt_words y], None, False, None, None, 0, ps)"
    using sample_done [OF 7(1) h _ xyz(3), of 0] r7 d7 by (simp_all add: a8_def)
  have 9: "sent g m 0x20 PT_FDT_20 a9" "data_of v a9 = ([fdt_words x, fdt_words y], Some (sn_threshold s), True, None, None, 0, ps)"
    unfolding a9_def by (rule threshold_done [OF 8(1) h 8(2) xyz(5)])+
  have 10: "idle g m PT_FDT_B0 b1" "data_of v b1 = data_of v a9" using moved_by_ack [OF 9(1)] by (simp_all add: b1_def)
  have img: "sound_image (sn_baseline s) baseline" using s by (simp add: sound_sensor_def)
  have 11: "sent g m 0x36 PT_FDT36_3 b2" "data_of v b2 = ([fdt_words x, fdt_words y], Some (sn_threshold s), True, None, Some baseline, 0, ps)"
    unfolding b2_def by (rule baseline_done [OF 10(1) h img]; use 10(2) 9(2) in simp)+
  have 12: "idle g m PT_FDT_IRQ100_3 b3" "data_of v b3 = data_of v b2" using fdt36_acked [OF 11(1)] by (simp_all add: b3_def)
  show "sent g m 0x32 PT_FIRST_ARM l1"
    "\<exists>table. data_of v l1 = (map fdt_words (sn_samples s), Some (sn_threshold s), True, Some table, Some baseline, 0, ps)"
    using learned_done [OF 12(1) h xyz(4) _ xyz(6)] 12(2) 11(2) by (simp_all add: split xyz(1))
qed

lemma acquisition_done:
  assumes l: "sent g m 0x32 PT_FIRST_ARM l" "data_of v l = (r, th, cl, lrn, b, n, ps)"
    and m: "lm_capture_profile m = PROFILE_SINGLE_ACQUISITION"
    and h: "cooperative v h" and s: "sound_sensor s baseline picture"
  defines "l1 \<equiv> run_calls h (acquisition_calls g s) l"
  shows "idle g m PT_STOP l1" "data_of v l1 = (r, th, cl, lrn, b, n + 1, ps @ [(1, picture)])"
proof -
  define a1 where "a1 = run_calls h (acknowledged g 0x32) l"
  define a2 where "a2 = run_calls h [Call_A0 (lifecycle_frame 0x32 (event_body 0x0002 (sn_touch_flags s) (sn_touch s)))] a1"
  define a3 where "a3 = run_calls h (acknowledged g 0x22) a2"
  define a4 where "a4 = run_calls h (plaintext_calls (sn_image s)) a3"
  define a5 where "a5 = run_calls h (acknowledged g 0x34) a4"
  define a6 where "a6 = run_calls h [Call_A0 (lifecycle_frame 0x34 (event_body 0x0200 0 (sn_release s)))] a5"
  define a7 where "a7 = run_calls h (acknowledged g 0x20) a6"
  define a8 where "a8 = run_calls h [Call_Plaintext (Some (sn_post_up s))] a7"
  define a9 where "a9 = run_calls h (acknowledged g 0x50) a8"
  have split: "l1 = run_calls h [Call_A0 (Some (sn_release_nav s))] a9"
    by (simp add: l1_def acquisition_calls_def a1_def a2_def a3_def a4_def a5_def a6_def a7_def a8_def a9_def del: lifecycle_step.simps)
  note 1 = arm_acked [OF l(1), where h = h, folded a1_def]
  have 2: "sent g m 0x22 PT_FIRST_22 a2" "data_of v a2 = data_of v a1"
    unfolding a2_def by (rule contact_done [OF 1(1) h]; use s in \<open>simp add: sound_sensor_def\<close>)+
  have 3: "idle g m PT_FIRST_B0 a3" "data_of v a3 = data_of v a2" using moved_by_ack [OF 2(1)] by (simp_all add: a3_def)
  have img: "sound_image (sn_image s) picture" using s by (simp add: sound_sensor_def)
  have 4: "sent g m 0x34 PT_RELEASE_34 a4" "data_of v a4 = (r, th, cl, lrn, b, n + 1, ps @ [(1, picture)])"
    unfolding a4_def by (rule picture_done [OF 3(1) h img]; use 1(2) 2(2) 3(2) l(2) in simp)+
  have 5: "idle g m PT_RELEASE_IRQ200 a5" "data_of v a5 = data_of v a4" using moved_by_ack [OF 4(1)] by (simp_all add: a5_def)
  have 6: "sent g m 0x20 PT_RELEASE_20 a6" "data_of v a6 = data_of v a5"
    unfolding a6_def by (rule release_done [OF 5(1) h]; use s in \<open>simp add: sound_sensor_def\<close>)+
  have 7: "idle g m PT_RELEASE_B0 a7" "data_of v a7 = data_of v a6" using moved_by_ack [OF 6(1)] by (simp_all add: a7_def)
  note 8 = post_up_done [OF 7(1) h, of "sn_post_up s", folded a8_def]
  have 9: "idle g m PT_RELEASE_NAV a9" "data_of v a9 = data_of v a8" using moved_by_ack [OF 8(1)] by (simp_all add: a9_def)
  have nav: "lifecycle_parse_nav (sn_release_nav s) \<noteq> None" using s by (simp add: sound_sensor_def)
  show "idle g m PT_STOP l1" "data_of v l1 = (r, th, cl, lrn, b, n + 1, ps @ [(1, picture)])"
    using release_finished [OF 9(1) h nav m] 9(2) 8(2) 7(2) 6(2) 5(2) 4(2) by (simp_all add: split)
qed

lemma new_fresh:
  assumes "lifecycle_new g (Some m) u = Inr l" "length (lm_initial_fdt_table m) = 12"
  shows "lc_phase l = PT_NOT_STARTED" "in_progress g m PT_NOT_STARTED (l\<lparr>lc_backend_callback_owned := True\<rparr>)"
    "\<not> lc_out_pending l" "data_of v l = ([], None, False, None, None, 0, v u)"
  using assms by (auto simp: lifecycle_new_def in_progress_def data_of_def lifecycle_audit_zero_def split: if_splits)

text \<open>
  Claim C40. With a backend that accepts every transfer and callbacks that succeed and only work for
  their owner, a sound sensor whose acknowledgements come after the transfers they answer is taken to
  the end of an ungated single acquisition: from a new lifecycle, after the calls of the initialisation
  and of one acquisition, the machine has stopped without an error, the baseline is the picture the
  sensor sent first, the owner was handed exactly one picture, the second one the sensor sent, as
  acquisition 1, and the table the sensor's samples taught can be fetched.
\<close>

theorem single_acquisition_completes:
  assumes "lifecycle_new g (Some m) u = Inr l" "length (lm_initial_fdt_table m) = 12"
    "lm_capture_profile m = PROFILE_SINGLE_ACQUISITION" "cooperative v h" "sound_sensor s baseline picture"
  defines "l1 \<equiv> snd (run_ops (lifecycle_step h) (initialization_calls g s @ acquisition_calls g s) l)"
  shows "lc_phase l1 = PT_STOP \<and> lc_error l1 = None \<and> lc_baseline_samples l1 = Some baseline \<and>
    v (lc_user l1) = v u @ [(1, picture)] \<and> pa_first_image_pipeline (lc_audit l1) = 1 \<and> copy_learned_fdt l1 \<noteq> None"
proof -
  define l0 where "l0 = run_calls h (initialization_calls g s) l"
  obtain table where l0: "sent g m 0x32 PT_FIRST_ARM l0"
    "data_of v l0 = (map fdt_words (sn_samples s), Some (sn_threshold s), True, Some table, Some baseline, 0, v u)"
    using initialization_done [OF new_fresh [OF assms(1,2)] assms(4,5)] by (auto simp: l0_def)
  have "l1 = run_calls h (acquisition_calls g s) l0" by (simp add: l1_def l0_def)
  with acquisition_done [OF l0 assms(3-5)]
  have "idle g m PT_STOP l1"
    "data_of v l1 = (map fdt_words (sn_samples s), Some (sn_threshold s), True, Some table, Some baseline, 1, v u @ [(1, picture)])"
    by simp_all
  moreover have "length (sn_samples s) = 3" using assms(5) by (simp add: sound_sensor_def)
  ultimately show ?thesis
    by (simp add: idle_def in_progress_def data_of_def copy_learned_fdt_def)
qed

end
