(* ===== verification/Post_Tls_Example.thy ===== *)
theory Post_Tls_Example
  imports Post_Tls_Progress
begin

text \<open>
  A concrete sensor, backend and lifecycle, on which the theorems about the post-TLS lifecycle apply.
\<close>

definition calm_sample :: bytes where
  "calm_sample = [0x20, 0, 0x20, 0, 0x20, 0, 0x20, 0, 0x20, 0, 0x20, 0]"

definition calm_nav :: bytes where
  "calm_nav = [0xa0, 0x6d, 0x09, 0x16, 0x50, 0x6a, 0x09, 0x50, 0x01] @ replicate 2407 0 @ [0x88]"

definition calm_sensor :: sensor_script where
  "calm_sensor = \<lparr>sn_controller = [0, 2] @ replicate 14 0, sn_first_flags = 0,
     sn_samples = [calm_sample, calm_sample, calm_sample], sn_nav = calm_nav, sn_threshold = 4,
     sn_baseline = [blank_record], sn_touch_flags = 1, sn_touch = calm_sample, sn_image = [blank_record],
     sn_release = calm_sample, sn_post_up = [], sn_release_nav = calm_nav\<rparr>"

definition calm_material :: lifecycle_material where
  "calm_material = \<lparr>lm_initial_fdt_table = replicate 12 0, lm_af_timestamp = 1, lm_first_arm_timestamp = 2,
     lm_second_arm_timestamp = 3, lm_capture_profile = PROFILE_SINGLE_ACQUISITION, lm_fdt_seed_mode = FDT_SEED_ABSENT_ZERO\<rparr>"

text \<open>The owner counts what its callbacks do and keeps the pictures it is handed.\<close>

type_synonym calm_owner = "nat \<times> (u32 \<times> u16 list) list"

definition calm_hooks :: "calm_owner lifecycle_hooks" where
  "calm_hooks = \<lparr>lh_submit = (\<lambda>g bs (n, ps). (Accept, (n + 1, ps))), lh_cancel_backend = (\<lambda>u. u), lh_out_outstanding = (\<lambda>u. 0),
     lh_is_drained = (\<lambda>u. True), lh_next_timestamp = None, lh_terminal = (\<lambda>e u. u),
     lh_image = (\<lambda>n ss l. ([Owner_Does (\<lambda>(k, ps). (k, ps @ [(n, ss)]))], Callback_True)), lh_finger_down = (\<lambda>l. []),
     lh_release_tail = (\<lambda>l. [Owner_Does (\<lambda>(k, ps). (Suc k, ps))]),
     lh_finger_up = (\<lambda>l. []), lh_login_ready = (\<lambda>l. []), lh_handoff = (\<lambda>l. ([], Callback_True))\<rparr>"

definition calm_lifecycle :: "calm_owner lifecycle" where
  "calm_lifecycle = (case lifecycle_new 1 (Some calm_material) (0, []) of Inr l \<Rightarrow> l)"

lemma calm_lifecycle_new:
  "lifecycle_new 1 (Some calm_material) (0, []) = Inr calm_lifecycle" "length (lm_initial_fdt_table calm_material) = 12"
  "lm_capture_profile calm_material = PROFILE_SINGLE_ACQUISITION"
  by (simp_all add: calm_lifecycle_def lifecycle_new_def calm_material_def list_ex_iff)

lemma calm_hooks_cooperative: "cooperative snd calm_hooks"
  by (simp add: cooperative_def works_for_itself_def calm_hooks_def owners_own_def owner_effect_def split_beta)

lemma calm_nav_valid: "lifecycle_parse_nav calm_nav \<noteq> None"
  by (simp add: lifecycle_parse_nav_def calm_nav_def le16_def nth_append)

lemma calm_words: "i < 6 \<Longrightarrow> fdt_word calm_sample i = 0x20"
proof -
  assume "i < 6"
  then consider "i = 0" | "i = 1" | "i = 2" | "i = 3" | "i = 4" | "i = 5" by linarith
  then show "fdt_word calm_sample i = 0x20" by cases (simp_all add: fdt_word_def calm_sample_def le16_def)
qed

lemma calm_sample_sound: "sound_sample calm_sample" "length calm_sample = 12"
  by (simp_all add: sound_sample_def list_all_iff baseline_value_def calm_words Let_def) (simp_all add: calm_sample_def)

lemma blank_record_sound: "\<exists>picture. sound_image [blank_record] picture"
proof -
  let ?t = "encode_crc_trailer (crc32_mpeg2 (replicate PACKED_LENGTH 0))"
  have len: "length ?t = 4" "length blank_record = PLAINTEXT_LENGTH"
    by (simp_all add: encode_crc_trailer_def blank_record_def)
  have parts: "blank_record ! 0 = 0x20" "blank_record ! 1 = 0x0a" "blank_record ! 2 = 0x1e"
    "drop 3 blank_record ! 0 = 0" "blank_record ! 7692 = 0x88"
    "take PACKED_LENGTH (drop 8 blank_record) = replicate PACKED_LENGTH 0"
    "take 4 (drop 7688 blank_record) = ?t"
    using len(1) by (simp_all add: blank_record_def nth_append drop_Cons')
  have l: "le16 0x0a 0x1e = 7690" by (simp add: word_unat_eq_iff unat_le16)
  from parts l len(2) have "\<exists>picture. decoded_image blank_record = Inr picture"
    by (simp add: decoded_image_def image_decode_plaintext_def Let_def crc_trailer_round_trip)
  moreover have "blank_record \<noteq> []" by (simp add: blank_record_def)
  ultimately show ?thesis using parts l len(2) by (auto simp: sound_image_def)
qed

lemma calm_sensor_sound: "\<exists>picture. sound_sensor calm_sensor picture picture"
proof -
  obtain picture where p: "sound_image [blank_record] picture" using blank_record_sound by blast
  have "samples_within 4 (fdt_words calm_sample) (fdt_words calm_sample)"
    by (simp add: samples_within_def channel_difference_def list_all_iff)
  moreover have "list_all (\<lambda>i. up_value calm_sample 1 0x1d i \<noteq> None) [0..<6]" "list_all (\<lambda>i. zero_touch_value calm_sample i \<noteq> None) [0..<6]"
    by (simp_all add: list_all_iff up_value_def zero_touch_value_def calm_words Let_def)
  ultimately have "sound_sensor calm_sensor picture picture"
    using p calm_nav_valid calm_sample_sound by (simp add: sound_sensor_def calm_sensor_def)
  then show ?thesis ..
qed

lemma single_acquisition_completes_witness:
  "\<exists>picture. sound_image [blank_record] picture \<and> snd (lc_user (snd (run_ops (lifecycle_step calm_hooks)
     (initialization_calls 1 calm_sensor @ acquisition_calls 1 calm_sensor) calm_lifecycle))) = [(1, picture)]"
proof -
  obtain picture where s: "sound_sensor calm_sensor picture picture" using calm_sensor_sound by blast
  then have "sound_image [blank_record] picture" by (simp add: sound_sensor_def calm_sensor_def)
  with single_acquisition_completes [OF calm_lifecycle_new(1-3) calm_hooks_cooperative s] show ?thesis by simp
qed

lemma learned_table_justified_witness:
  "\<exists>table t. copy_learned_fdt (snd (run_ops (lifecycle_step calm_hooks) (initialization_calls 1 calm_sensor) calm_lifecycle)) = Some table \<and>
     lc_fdt_threshold (snd (run_ops (lifecycle_step calm_hooks) (initialization_calls 1 calm_sensor) calm_lifecycle)) = Some t"
proof -
  obtain picture where s: "sound_sensor calm_sensor picture picture" using calm_sensor_sound by blast
  have "copy_learned_fdt (snd (run_ops (lifecycle_step calm_hooks) (initialization_calls 1 calm_sensor) calm_lifecycle)) \<noteq> None"
    using initialization_done(2) [OF new_fresh [OF calm_lifecycle_new(1,2)] calm_hooks_cooperative s]
    by (auto simp: data_of_def copy_learned_fdt_def calm_sensor_def)
  then obtain table where
    c: "copy_learned_fdt (snd (run_ops (lifecycle_step calm_hooks) (initialization_calls 1 calm_sensor) calm_lifecycle)) = Some table" by blast
  from learned_table_justified [OF calm_lifecycle_new(1,2) c] c show ?thesis by (auto simp: Let_def)
qed

lemma login_gate_holds_witness:
  "let x = snd (run_ops (lifecycle_step calm_hooks) [Call_Prepare_Login, Call_Start] calm_lifecycle)
   in lc_login_gate x \<and> pa_first_image_command (lc_audit x) \<le> 3 \<and> pa_second_image_command (lc_audit x) \<le> 1"
proof -
  define x where "x = snd (run_ops (lifecycle_step calm_hooks) [Call_Prepare_Login, Call_Start] calm_lifecycle)"
  have "lc_login_gate x"
    by (simp add: x_def calm_lifecycle_def lifecycle_new_def calm_material_def list_ex_iff prepare_login_def lifecycle_start_def
        submit_command_def calm_hooks_def Let_def split: sum.split)
  with login_gate_holds [OF calm_lifecycle_new(1,2), where xs = "[Call_Prepare_Login, Call_Start]" and h = calm_hooks]
  have "pa_first_image_command (lc_audit x) \<le> 3" "pa_second_image_command (lc_audit x) \<le> 1"
    unfolding x_def [symmetric] Let_def by (auto split: if_splits)
  with \<open>lc_login_gate x\<close> show ?thesis unfolding x_def [symmetric] Let_def by simp
qed

end
