(* ===== verification/Spec2Isabelle.thy ===== *)
theory Spec2Isabelle
  imports Image_Decoder Enrollment_Protocol Usb_Binding Usb_Router Usb_Backend Enrollment_Diversity Self_State Live_Preflight Secure_Example Post_Tls_Example
begin

text \<open>
  A verification library for the host side of the Goodix 27c6:5125 fingerprint driver, the C code
  under \<^verbatim>\<open>src/libfprint-driver/\<close>. File names below are relative to that directory.

  The program. The driver talks to the sensor over two USB bulk endpoints. The USB backend owns
  the transfers; what comes in is cut into A0 frames (plain messages) and B0 frames (TLS records) by
  the router, and handed to the session that is current. Sessions follow one another: live discovery
  (seven questions, read only), the secure session (fourteen commands, then a TLS-PSK handshake in which
  the driver is the server), and after it either the lifecycle after TLS, which initialises finger
  detection and takes the images of a Verify, or the enrollment session, which takes the contacts of an
  Enroll. Images arrive as TLS plaintext, are decoded to a 12-bit raster, and become an 8-bit image for
  libfprint. A pairing secret is kept on disk in two slots.

  Theories and what they model.

  Shared. \<^verbatim>\<open>Prelude\<close>: bytes, 16-bit halves, the reply of a call that may fail, machines given by a step
  function with their runs and reachable states, and the interfaces below. \<^verbatim>\<open>Errors\<close>: the error domains,
  one datatype for each C enumeration, and their union \<^verbatim>\<open>gerror\<close>.

  Wire and data formats. \<^verbatim>\<open>A0_Protocol\<close> (\<^verbatim>\<open>goodix_a0_protocol.c\<close>): builder and parser of A0 frames, that
  they are inverse, and that one changed byte is refused. \<^verbatim>\<open>Fdt_Irq_Policy\<close> (\<^verbatim>\<open>goodix_fdt_irq_policy.c\<close>):
  finger-detection flags and the tables derived from readings, with their exact domains.
  \<^verbatim>\<open>Image_Decoder\<close> (\<^verbatim>\<open>goodix_image_decoder.c\<close>): CRC, unpacking and transposition of the image.
  \<^verbatim>\<open>Fpimage\<close> (\<^verbatim>\<open>goodix_u16_to_fpimage.c\<close>, \<^verbatim>\<open>goodix_fpimage_pipeline.c\<close>): the 8-bit image. \<^verbatim>\<open>Config90\<close>
  (\<^verbatim>\<open>goodix_config90.c\<close>): the configuration derived from the sensor's OTP. \<^verbatim>\<open>Bb010002\<close>
  (\<^verbatim>\<open>goodix_bb010002.c\<close>): the layout of the protected envelope.

  Enrollment, from the inside out. \<^verbatim>\<open>Enrollment_Model\<close> (\<^verbatim>\<open>goodix_enrollment_model.c\<close>): the machine that
  accepts one expected event at a time and hands each contact's image to a callback.
  \<^verbatim>\<open>Enrollment_Protocol\<close>: the abstract protocol of contacts that it refines, the measure that bounds it,
  and its completion with a consumer that judges its images. \<^verbatim>\<open>Enrollment_Pipeline\<close>
  (\<^verbatim>\<open>goodix_enrollment_pipeline.c\<close>): the image held between capture and delivery. \<^verbatim>\<open>Command_Plan\<close>
  (\<^verbatim>\<open>goodix_enrollment_command_plan.c\<close>), \<^verbatim>\<open>Command_Body\<close> (\<^verbatim>\<open>goodix_enrollment_command_body.c\<close>), \<^verbatim>\<open>Fdt_State\<close>
  (\<^verbatim>\<open>goodix_enrollment_fdt_state.c\<close>), \<^verbatim>\<open>Lifecycle_Adapter\<close> (\<^verbatim>\<open>goodix_enrollment_lifecycle_adapter.c\<close>) and
  \<^verbatim>\<open>Outbound_Frame\<close> (\<^verbatim>\<open>goodix_enrollment_outbound_frame.c\<close>): which command comes next, its body, and its
  frame; that in every reachable state the next command can be prepared and serialised.
  \<^verbatim>\<open>Post_Tls_Events\<close> (\<^verbatim>\<open>goodix_enrollment_post_tls_events.c\<close>): frames and plaintext become events.
  \<^verbatim>\<open>Outbound_Transaction\<close> (\<^verbatim>\<open>goodix_enrollment_outbound_transaction.c\<close>): a command is committed by the
  completion of its transfer. \<^verbatim>\<open>Usb_Binding\<close> (\<^verbatim>\<open>goodix_enrollment_fpi_usb_binding.c\<close>): the session on the
  backend; that it is never stuck. \<^verbatim>\<open>Enrollment_Diversity\<close> (\<^verbatim>\<open>goodix_enrollment_diversity.c\<close>): the policy of
  twenty-one usable samples. Each layer holds the record of the one below it, as the C structures hold
  pointers, and calls its operations.

  Transport. \<^verbatim>\<open>Usb_Router\<close> (\<^verbatim>\<open>goodix_usb_router.c\<close>): reassembly of frames against a reference splitting of
  the byte stream. \<^verbatim>\<open>Usb_Backend\<close> (\<^verbatim>\<open>goodix_fpi_usb_backend.c\<close>): transfers in flight, generations, fencing
  and drain.

  Sessions outside enrollment. \<^verbatim>\<open>Live_Preflight\<close> (\<^verbatim>\<open>goodix_live_preflight.c\<close>): discovery and its evidence.
  \<^verbatim>\<open>Tls_Server\<close> (\<^verbatim>\<open>goodix_tls_server.c\<close>): TLS over memory buffers. \<^verbatim>\<open>Secure_Session\<close>
  (\<^verbatim>\<open>goodix_secure_session.c\<close>): the session itself; \<^verbatim>\<open>Secure_Order\<close>: what every reachable state satisfies, the
  secret above all; \<^verbatim>\<open>Secure_Progress\<close>: that it gets through; \<^verbatim>\<open>Secure_Example\<close>: a concrete session.
  \<^verbatim>\<open>Post_Tls_Lifecycle\<close> (\<^verbatim>\<open>goodix_post_tls_lifecycle.c\<close>): the lifecycle after TLS; \<^verbatim>\<open>Post_Tls_Order\<close>: the login
  gate and the learned table; \<^verbatim>\<open>Post_Tls_Progress\<close>: a whole acquisition; \<^verbatim>\<open>Post_Tls_Example\<close>: a
  concrete sensor.

  Storage. \<^verbatim>\<open>Self_State\<close> (\<^verbatim>\<open>goodix_self_state.c\<close>): receipts, slots, writes, loads and promotion of the
  pairing state on a directory that may fail at any call and lose unsynchronised entries.

  Conventions. A C structure is a record, its operations are functions on the record that return it
  updated, and \<open>x\<lparr>f := v\<rparr>\<close> is an assignment. A function with a GError returns a \<^verbatim>\<open>reply\<close>, \<^verbatim>\<open>Accept\<close> or
  \<^verbatim>\<open>Reject\<close> with the error, or a sum; every early return is a branch. Counters and codes are words of
  their C width (guint is 32 bits, gsize and off_t that are only compared are naturals); byte buffers are
  lists. A function pointer is an argument. Where the code lets a callback call back into the object
  that called it, the callback of the model answers with the list of calls it makes, which the model runs
  at that point (\<^verbatim>\<open>lifecycle_act\<close>, \<^verbatim>\<open>router_request\<close>, the actions of the backend and of the binding).
  Failing allocations are arguments where the code handles them.

  Interfaces. \<^verbatim>\<open>Prelude\<close> states them as locales: \<^verbatim>\<open>machine_invariant\<close> (a predicate kept by every operation
  of a machine, hence by its reachable states), \<^verbatim>\<open>absorbing_machine\<close> (a failed state that refuses everything
  and never changes) and \<^verbatim>\<open>byte_digest\<close> (a checksum that shows any one changed byte); \<^verbatim>\<open>stage_callback\<close> is
  the licence of the callback of the enrollment model, \<^verbatim>\<open>tls_callbacks\<close> that of the callbacks of the TLS
  server. Each is interpreted on the model's own
  definitions, in the theory that provides them.

  Bounds. The loops of the code are structural recursions or have a measure (\<^verbatim>\<open>parse_pending\<close> the pending
  bytes, \<^verbatim>\<open>deliver_records\<close> the received ones, the secure session its records and transfers); no fuel is used. A run is a list of calls of any
  length. The measure \<^verbatim>\<open>protocol_work\<close> gives the seventeen events of a contact.

  Assumptions, each a hypothesis of the theorems that use it. HMAC-SHA256 returns 32 bytes
  (\<^verbatim>\<open>hmac_sized\<close>); OpenSSL is a record of functions (an engine), unconstrained in the safety theorems, and with
  records no longer than TLS allows in the termination theorem; a backend accepts transfers where a
  theorem says that something is reached (\<^verbatim>\<open>cooperative\<close> and the like). The router theorems about chunking
  need consumers that make no call but the next receive (\<^verbatim>\<open>quiet_consumer\<close>). The store theorems hold for any
  failure of a write except one of reading the slot of the current state (\<^verbatim>\<open>newest_readable\<close>);
  \<^verbatim>\<open>Self_State.unread_state_lost\<close> shows that this exception is needed. Directories are settled between
  writes, and a stop leaves any mix of old and new unsynchronised entries (\<^verbatim>\<open>crash_image\<close>).

  Not modelled. \<^verbatim>\<open>goodix_fpimage_device.c\<close>, the libfprint device class that assembles these parts in the GLib
  main loop; the runtime coordinator, the action binding and the loading of runtime inputs; pairing
  activation and provisioning and its cryptography, which consists of OpenSSL calls; the Chicago and SIGFM
  image matchers and their adapters, which work in floating point; log lines, diagnostic texts, names,
  wiping and freeing of memory, reference counts, and test seams; vendored code, tests and deployment.
\<close>

end
